(* ===== verification/Wdt_Prelude.thy ===== *)
theory Wdt_Prelude
  imports Main "HOL-Library.Word" "HOL-Library.Sublist"
begin

text \<open>
  Shared vocabulary of the development: machine types, the three outcomes of a
  C++ routine (success, \<open>return false\<close>, a failed \<open>WDT_CHECK\<close> that kills the
  process), encoders that write into a caller supplied buffer, decoders that
  consume a \<open>folly::ByteRange\<close>, and the composition laws both obey.
\<close>

unbundle bit_operations_syntax

section \<open>Types\<close>

type_synonym byte = "8 word"
type_synonym bytes = "byte list"
type_synonym u64 = "64 word"

text \<open>What a routine may do besides delivering a value.\<close>

datatype 'a outcome = Ok 'a | Fail | Abort

text \<open>Sequencing: the first outcome that is not \<open>Ok\<close> is the outcome of the whole.\<close>

fun outcome_bind :: "'a outcome \<Rightarrow> ('a \<Rightarrow> 'b outcome) \<Rightarrow> 'b outcome" where
  "outcome_bind (Ok x) f = f x"
| "outcome_bind Fail f = Fail"
| "outcome_bind Abort f = Abort"

lemma outcome_bind_Ok_iff [simp]: "outcome_bind r f = Ok y \<longleftrightarrow> (\<exists>x. r = Ok x \<and> f x = Ok y)"
  by (cases r) simp_all

text \<open>
  An encoder gets the buffer size \<open>sz\<close>, the buffer and the offset reference
  parameter, and returns its result with the buffer and offset it leaves.
\<close>

type_synonym encoder = "int \<Rightarrow> bytes \<Rightarrow> int \<Rightarrow> unit outcome \<times> bytes \<times> int"

text \<open>A decoder consumes a byte range; the second component is the range it leaves.\<close>

type_synonym 'a decoder = "bytes \<Rightarrow> 'a outcome \<times> bytes"

named_theorems enc_rules \<open>buffer contracts of the encoders\<close>
named_theorems dec_rules \<open>consumption contracts of the decoders\<close>
named_theorems safe_rules \<open>decoders that never abort and only consume\<close>

definition enc_seq :: "encoder \<Rightarrow> encoder \<Rightarrow> encoder" where
  "enc_seq e1 e2 = (\<lambda>sz d off. case e1 sz d off of
      (Ok _, d', off') \<Rightarrow> e2 sz d' off'
    | r \<Rightarrow> r)"

definition enc_skip :: encoder where
  "enc_skip = (\<lambda>sz d off. (Ok (), d, off))"

fun enc_all :: "encoder list \<Rightarrow> encoder" where
  "enc_all [] = enc_skip"
| "enc_all (e # es) = enc_seq e (enc_all es)"

definition dec_bind :: "'a decoder \<Rightarrow> ('a \<Rightarrow> 'b decoder) \<Rightarrow> 'b decoder" where
  "dec_bind m f = (\<lambda>br. case m br of
      (Ok x, br') \<Rightarrow> f x br'
    | (Fail, br') \<Rightarrow> (Fail, br')
    | (Abort, br') \<Rightarrow> (Abort, br'))"

definition dec_ret :: "'a \<Rightarrow> 'a decoder" where
  "dec_ret x = (\<lambda>br. (Ok x, br))"

definition dec_fail :: "'a decoder" where
  "dec_fail = (\<lambda>br. (Fail, br))"

section \<open>Buffers\<close>

definition write_at :: "nat \<Rightarrow> bytes \<Rightarrow> bytes \<Rightarrow> bytes" where
  "write_at off bs d = take off d @ bs @ drop (off + length bs) d"

lemma length_write_at [simp]:
  "off + length bs \<le> length d \<Longrightarrow> length (write_at off bs d) = length d"
  by (simp add: write_at_def)

lemma write_at_Nil [simp]: "write_at off [] d = d"
  by (simp add: write_at_def)

lemma take_write_at [simp]: "off \<le> length d \<Longrightarrow> take off (write_at off bs d) = take off d"
  by (simp add: write_at_def)

lemma drop_write_at [simp]:
  "off + length bs \<le> n \<Longrightarrow> n \<le> length d \<Longrightarrow> drop n (write_at off bs d) = drop n d"
  by (simp add: write_at_def)

lemma write_at_append:
  assumes "off + length bs + length cs \<le> length d"
  shows "write_at (off + length bs) cs (write_at off bs d) = write_at off (bs @ cs) d"
  using assms by (simp add: write_at_def ac_simps)

lemma write_at_read:
  "off + length bs \<le> length d \<Longrightarrow>
   drop off (take (off + length bs) (write_at off bs d)) = bs"
  by (simp add: write_at_def)

lemma write_at_single:
  "off < length d \<Longrightarrow> d[off := b] = write_at off [b] d"
  by (simp add: write_at_def upd_conv_take_nth_drop)

section \<open>Contracts\<close>

text \<open>
  \<open>enc_spec e bs\<close>: from any offset inside the buffer \<open>e\<close> writes exactly \<open>bs\<close>
  and advances the offset when there is room, and otherwise returns false; in
  both cases nothing outside \<open>[off, sz)\<close> is touched.
\<close>

definition frame_kept :: "int \<Rightarrow> int \<Rightarrow> bytes \<Rightarrow> bytes \<Rightarrow> int \<Rightarrow> bool" where
  "frame_kept sz off d d' off' \<longleftrightarrow>
     length d' = length d \<and> off \<le> off' \<and> off' \<le> sz \<and>
     take (nat off) d' = take (nat off) d \<and> drop (nat sz) d' = drop (nat sz) d"

definition in_buffer :: "int \<Rightarrow> bytes \<Rightarrow> int \<Rightarrow> bool" where
  "in_buffer sz d off \<longleftrightarrow> 0 \<le> off \<and> off \<le> sz \<and> sz \<le> int (length d)"

definition enc_spec :: "encoder \<Rightarrow> bytes \<Rightarrow> bool" where
  "enc_spec e bs \<longleftrightarrow> (\<forall>sz d off. in_buffer sz d off \<longrightarrow>
     (if off + int (length bs) \<le> sz
      then e sz d off = (Ok (), write_at (nat off) bs d, off + int (length bs))
      else \<exists>d' off'. e sz d off = (Fail, d', off') \<and> frame_kept sz off d d' off'))"

definition dec_spec :: "'a decoder \<Rightarrow> bytes \<Rightarrow> 'a \<Rightarrow> bool" where
  "dec_spec m bs x \<longleftrightarrow> (\<forall>rest. m (bs @ rest) = (Ok x, rest))"

text \<open>
  On arbitrary input a decoder never fails a check and leaves a suffix of its
  range.  \<open>dec_within obr\<close> is the variant for code that may put the original
  range \<open>obr\<close> back.
\<close>

definition dec_safe :: "'a decoder \<Rightarrow> bool" where
  "dec_safe m \<longleftrightarrow> (\<forall>br. fst (m br) \<noteq> Abort \<and> suffix (snd (m br)) br)"

definition dec_within :: "bytes \<Rightarrow> 'a decoder \<Rightarrow> bool" where
  "dec_within obr m \<longleftrightarrow>
     (\<forall>br. suffix br obr \<longrightarrow> fst (m br) \<noteq> Abort \<and> suffix (snd (m br)) obr)"

lemma enc_specI:
  assumes "\<And>sz d off. in_buffer sz d off \<Longrightarrow> off + int (length bs) \<le> sz \<Longrightarrow>
      e sz d off = (Ok (), write_at (nat off) bs d, off + int (length bs))"
    and "\<And>sz d off. in_buffer sz d off \<Longrightarrow> \<not> off + int (length bs) \<le> sz \<Longrightarrow>
      \<exists>d' off'. e sz d off = (Fail, d', off') \<and> frame_kept sz off d d' off'"
  shows "enc_spec e bs"
  using assms by (simp add: enc_spec_def)

lemma enc_spec_fits:
  assumes "enc_spec e bs" "in_buffer sz d off" "off + int (length bs) \<le> sz"
  shows "e sz d off = (Ok (), write_at (nat off) bs d, off + int (length bs))"
  using assms by (simp add: enc_spec_def)

lemma enc_spec_full:
  assumes "enc_spec e bs" "in_buffer sz d off" "\<not> off + int (length bs) \<le> sz"
  obtains d' off' where "e sz d off = (Fail, d', off')" "frame_kept sz off d d' off'"
  using assms unfolding enc_spec_def by metis

lemma enc_spec_iff_fits:
  assumes "enc_spec e bs" "in_buffer sz d off"
  shows "fst (e sz d off) = Ok () \<longleftrightarrow> off + int (length bs) \<le> sz"
  using assms by (cases "off + int (length bs) \<le> sz")
    (auto dest: enc_spec_fits elim: enc_spec_full)

lemma in_buffer_write_at:
  assumes "in_buffer sz d off" "off + int (length bs) \<le> sz"
  shows "in_buffer sz (write_at (nat off) bs d) (off + int (length bs))"
proof -
  have "nat off + length bs \<le> length d"
    using assms by (auto simp: in_buffer_def)
  then show ?thesis using assms by (simp add: in_buffer_def)
qed

lemma enc_spec_skip [enc_rules]: "enc_spec enc_skip []"
  by (rule enc_specI) (auto simp: enc_skip_def in_buffer_def)

lemma enc_spec_seq [enc_rules]:
  assumes e1: "enc_spec e1 bs" and e2: "enc_spec e2 cs"
  shows "enc_spec (enc_seq e1 e2) (bs @ cs)"
proof (rule enc_specI)
  fix sz d off
  assume ib: "in_buffer sz d off" and fits: "off + int (length (bs @ cs)) \<le> sz"
  let ?d = "write_at (nat off) bs d" and ?off = "off + int (length bs)"
  have 1: "off + int (length bs) \<le> sz" using fits by simp
  have ib': "in_buffer sz ?d ?off" using ib 1 by (rule in_buffer_write_at)
  have "nat ?off = nat off + length bs" using ib by (simp add: in_buffer_def nat_add_distrib)
  moreover have "nat off + length bs + length cs \<le> length d"
    using ib fits by (auto simp: in_buffer_def)
  ultimately show "enc_seq e1 e2 sz d off
      = (Ok (), write_at (nat off) (bs @ cs) d, off + int (length (bs @ cs)))"
    using fits enc_spec_fits [OF e1 ib 1] enc_spec_fits [OF e2 ib']
    by (simp add: enc_seq_def write_at_append)
next
  fix sz d off
  assume ib: "in_buffer sz d off" and full: "\<not> off + int (length (bs @ cs)) \<le> sz"
  show "\<exists>d' off'. enc_seq e1 e2 sz d off = (Fail, d', off') \<and> frame_kept sz off d d' off'"
  proof (cases "off + int (length bs) \<le> sz")
    case False
    with e1 ib obtain d' off' where "e1 sz d off = (Fail, d', off')" "frame_kept sz off d d' off'"
      by (rule enc_spec_full)
    then show ?thesis by (simp add: enc_seq_def)
  next
    case True
    let ?d = "write_at (nat off) bs d" and ?off = "off + int (length bs)"
    have len: "nat off + length bs \<le> nat sz" "nat sz \<le> length d" "nat off \<le> length d"
      using ib True by (auto simp: in_buffer_def)
    have "in_buffer sz ?d ?off" using ib True by (rule in_buffer_write_at)
    moreover have "\<not> ?off + int (length cs) \<le> sz" using full by simp
    ultimately obtain d' off' where r: "e2 sz ?d ?off = (Fail, d', off')"
      and k: "frame_kept sz ?off ?d d' off'"
      by (rule enc_spec_full [OF e2])
    have "take (nat off) d' = take (nat off) (take (nat ?off) d')"
      using ib by (simp add: in_buffer_def min_absorb1)
    also have "\<dots> = take (nat off) (take (nat ?off) ?d)" using k by (simp add: frame_kept_def)
    also have "\<dots> = take (nat off) d"
      using ib len by (simp add: in_buffer_def min_absorb1)
    finally have "frame_kept sz off d d' off'"
      using k len by (auto simp: frame_kept_def)
    then show ?thesis using r enc_spec_fits [OF e1 ib True] by (simp add: enc_seq_def)
  qed
qed

lemma enc_spec_all:
  assumes "list_all2 enc_spec es bss"
  shows "enc_spec (enc_all es) (concat bss)"
  using assms by (induction es bss rule: list_all2_induct) (simp_all add: enc_rules)

lemma dec_spec_ret [dec_rules]: "dec_spec (dec_ret x) [] x"
  by (simp add: dec_spec_def dec_ret_def)

lemma dec_spec_bind [dec_rules]:
  assumes "dec_spec m bs x" "dec_spec (f x) cs y"
  shows "dec_spec (dec_bind m f) (bs @ cs) y"
  using assms by (simp add: dec_spec_def dec_bind_def)

lemma dec_specD: "dec_spec m bs x \<Longrightarrow> m (bs @ rest) = (Ok x, rest)"
  by (simp add: dec_spec_def)

lemma dec_safe_within: "dec_safe m \<Longrightarrow> dec_within obr m"
  unfolding dec_safe_def dec_within_def by (metis suffix_order.trans)

lemma dec_safeI:
  assumes "\<And>obr. dec_within obr m"
  shows "dec_safe m"
  unfolding dec_safe_def
proof (intro allI)
  fix br
  show "fst (m br) \<noteq> Abort \<and> suffix (snd (m br)) br"
    using assms [of br] by (simp add: dec_within_def)
qed

lemma dec_within_bind [safe_rules]:
  assumes m: "dec_within obr m" and f: "\<And>x. dec_within obr (f x)"
  shows "dec_within obr (dec_bind m f)"
  unfolding dec_within_def
proof (intro allI impI)
  fix br assume br: "suffix br obr"
  obtain r br' where mbr: "m br = (r, br')" by (cases "m br")
  with m br have "r \<noteq> Abort" "suffix br' obr" by (force simp: dec_within_def)+
  then show "fst (dec_bind m f br) \<noteq> Abort \<and> suffix (snd (dec_bind m f br)) obr"
    using f mbr by (cases r) (simp_all add: dec_bind_def dec_within_def)
qed

lemma dec_within_ret [safe_rules]: "dec_within obr (dec_ret x)"
  by (simp add: dec_within_def dec_ret_def)

lemma dec_within_fail [safe_rules]: "dec_within obr dec_fail"
  by (simp add: dec_within_def dec_fail_def)

section \<open>The codec interface\<close>

text \<open>
  What the users of an encode/decode pair rely on: the encoder writes \<open>wire x\<close>,
  the decoder reads exactly that back, for every value \<open>x\<close> the format can carry.
\<close>

locale byte_codec =
  fixes enc :: "'a \<Rightarrow> encoder"
    and dec :: "'a decoder"
    and wire :: "'a \<Rightarrow> bytes"
    and ok :: "'a \<Rightarrow> bool"
  assumes enc_wire: "ok x \<Longrightarrow> enc_spec (enc x) (wire x)"
    and dec_wire: "ok x \<Longrightarrow> dec_spec dec (wire x) x"
    and dec_total: "dec_safe dec"
begin

lemma prefix_free:
  assumes "ok x" "ok y" "wire x @ r = wire y @ s"
  shows "x = y \<and> r = s"
proof -
  have "dec (wire x @ r) = (Ok x, r)" "dec (wire y @ s) = (Ok y, s)"
    by (rule dec_specD [OF dec_wire [OF assms(1)]], rule dec_specD [OF dec_wire [OF assms(2)]])
  then have "(Ok x, r) = (Ok y, s)" unfolding assms(3) by (rule trans [OF sym])
  then show ?thesis by simp
qed

lemma encode_ok_wire:
  assumes "ok x" "in_buffer sz d off" "enc x sz d off = (Ok (), d', off')"
  shows "d' = write_at (nat off) (wire x) d" "off' = off + int (length (wire x))" "off' \<le> sz"
proof -
  have fits: "off + int (length (wire x)) \<le> sz"
    using enc_spec_iff_fits [OF enc_wire [OF assms(1)] assms(2)] assms(3) by simp
  then show "d' = write_at (nat off) (wire x) d" "off' = off + int (length (wire x))" "off' \<le> sz"
    using enc_spec_fits [OF enc_wire [OF assms(1)] assms(2)] assms(3) by auto
qed

lemma buffer_roundtrip:
  assumes "ok x" "in_buffer sz d off" "enc x sz d off = (Ok (), d', off')"
  shows "dec (drop (nat off) d') = (Ok x, drop (nat off') d')"
proof -
  note w = encode_ok_wire [OF assms]
  have len: "nat off + length (wire x) \<le> length d" "0 \<le> off"
    using assms(2) w by (auto simp: in_buffer_def)
  then have "drop (nat off) d' = wire x @ drop (nat off') d'"
    by (simp add: w write_at_def nat_add_distrib)
  then show ?thesis using dec_specD [OF dec_wire [OF assms(1)]] by simp
qed

lemma encode_in_range:
  assumes "ok x" "in_buffer sz d off"
  shows "fst (enc x sz d off) = Ok () \<longleftrightarrow> off + int (length (wire x)) \<le> sz"
  by (rule enc_spec_iff_fits [OF enc_wire [OF assms(1)] assms(2)])

end

section \<open>Characters and bytes\<close>

definition byte_of_char :: "char \<Rightarrow> byte" where
  "byte_of_char c = word_of_nat (of_char c)"

definition char_of_byte :: "byte \<Rightarrow> char" where
  "char_of_byte b = char_of (unat b)"

lemma of_char_less_256: "(of_char c :: nat) < 256"
  by (metis of_char_mod_256 mod_less_divisor zero_less_numeral)

lemma char_of_byte_of_char [simp]: "char_of_byte (byte_of_char c) = c"
proof -
  have "(of_char c :: nat) < 2 ^ LENGTH(8)" using of_char_less_256 [of c] by simp
  then show ?thesis by (simp add: char_of_byte_def byte_of_char_def unat_of_nat take_bit_nat_eq_self)
qed

lemma byte_of_char_of_byte [simp]: "byte_of_char (char_of_byte b) = b"
proof -
  have "unat b < 256" using unsigned_less [of b, where 'a = nat] by simp
  then show ?thesis by (simp add: char_of_byte_def byte_of_char_def)
qed

definition bytes_of :: "string \<Rightarrow> bytes" where
  "bytes_of s = map byte_of_char s"

definition string_of :: "bytes \<Rightarrow> string" where
  "string_of bs = map char_of_byte bs"

lemma string_of_bytes_of [simp]: "string_of (bytes_of s) = s"
  by (simp add: string_of_def bytes_of_def comp_def)

lemma bytes_of_string_of [simp]: "bytes_of (string_of bs) = bs"
  by (simp add: string_of_def bytes_of_def comp_def)

lemma length_bytes_of [simp]: "length (bytes_of s) = length s"
  by (simp add: bytes_of_def)

lemma length_string_of [simp]: "length (string_of s) = length s"
  by (simp add: string_of_def)

end
