(* ===== verification/Serialization.thy ===== *)
theory Serialization
  imports Wdt_Prelude
begin

text \<open>
  The integer and string codecs of \<open>util/SerializationUtil.h\<close> and \<open>.cpp\<close>:
  zigzag, the 1 to 9 byte varint, little endian fixed length integers and
  length prefixed strings.  \<open>varint\<close> is the reference byte string the
  buffer and string writers are shown to produce.
\<close>

section \<open>Byte ranges\<close>

text \<open>
  A range of negative length (\<open>off > sz\<close>) is undefined behaviour in the
  source; it is counted with the failed checks.
\<close>

definition makeByteRange :: "bytes \<Rightarrow> int \<Rightarrow> int \<Rightarrow> bytes outcome" where
  "makeByteRange dest sz off =
     (if off < 0 then Abort
      else if sz < 0 then Abort
      else if sz < off then Abort
      else Ok (take (nat (sz - off)) (drop (nat off) dest)))"

definition offset :: "bytes \<Rightarrow> bytes \<Rightarrow> int" where
  "offset newRange oldRange = int (length oldRange) - int (length newRange)"

section \<open>Zigzag\<close>

definition encodeZigZag :: "u64 \<Rightarrow> u64" where
  "encodeZigZag val = push_bit 1 val XOR signed_drop_bit 63 val"

definition decodeZigZag :: "u64 \<Rightarrow> u64" where
  "decodeZigZag val = drop_bit 1 val XOR - (val AND 1)"

section \<open>Variable length integers\<close>

text \<open>The \<open>std::string\<close> writer: \<open>count\<close> is the loop counter before \<open>++count\<close>.\<close>

function encodeVarU64_str :: "nat \<Rightarrow> bytes \<Rightarrow> u64 \<Rightarrow> bytes \<times> nat" where
  "encodeVarU64_str count buffer v =
     (if Suc count < 9 \<and> v \<ge> 128
      then encodeVarU64_str (Suc count) (buffer @ [0x80 OR (ucast v AND 0x7f)]) (drop_bit 7 v)
      else (buffer @ [ucast v], Suc count))"
  by pat_completeness auto
termination by (relation "measure (\<lambda>(count, _, _). 9 - count)") auto

declare encodeVarU64_str.simps [simp del]

definition encodeVarU64_string :: "bytes \<Rightarrow> u64 \<Rightarrow> bytes \<times> nat" where
  "encodeVarU64_string buffer v = encodeVarU64_str 0 buffer v"

definition encodeVarI64_string :: "bytes \<Rightarrow> u64 \<Rightarrow> bytes \<times> nat" where
  "encodeVarI64_string buffer i64 = encodeVarU64_string buffer (encodeZigZag i64)"

text \<open>The buffer writer: \<open>p\<close> is the write position, \<open>end\<close> is \<open>datasz\<close>.\<close>

function encodeVarU64_loop :: "nat \<Rightarrow> int \<Rightarrow> bytes \<Rightarrow> int \<Rightarrow> u64 \<Rightarrow> (bytes \<times> nat) option \<times> bytes" where
  "encodeVarU64_loop count datasz data p v =
     (if Suc count < 9 \<and> v \<ge> 128
      then (if p \<ge> datasz then (None, data)
            else encodeVarU64_loop (Suc count) datasz
                   (data[nat p := 0x80 OR (ucast v AND 0x7f)]) (p + 1) (drop_bit 7 v))
      else (if p \<ge> datasz then (None, data)
            else let data' = data[nat p := ucast v] in (Some (data', Suc count), data')))"
  by pat_completeness auto
termination by (relation "measure (\<lambda>(count, _). 9 - count)") auto

declare encodeVarU64_loop.simps [simp del]

definition encodeVarU64 :: "u64 \<Rightarrow> encoder" where
  "encodeVarU64 v = (\<lambda>datasz data pos.
     if pos < 0 then (Fail, data, pos)
     else case encodeVarU64_loop 0 datasz data pos v of
            (Some (data', count), _) \<Rightarrow> (Ok (), data', pos + int count)
          | (None, data') \<Rightarrow> (Fail, data', pos))"

definition encodeVarI64 :: "int \<Rightarrow> encoder" where
  "encodeVarI64 sv = encodeVarU64 (encodeZigZag (word_of_int sv))"

definition encodeVarI64C :: "int \<Rightarrow> encoder" where
  "encodeVarI64C v = (\<lambda>datasz data pos.
     if v < 0 then (Abort, data, pos) else encodeVarU64 (word_of_int v) datasz data pos)"

text \<open>
  The reader.  \<open>*p\<close> is a (signed) \<open>char\<close>: the last byte is sign extended by
  the cast to \<open>uint64_t\<close> before it is shifted.
\<close>

fun decodeVarU64_loop :: "nat \<Rightarrow> nat \<Rightarrow> u64 \<Rightarrow> bytes \<Rightarrow> (u64 \<times> bytes) option" where
  "decodeVarU64_loop count shift val [] = None"
| "decodeVarU64_loop count shift val (b # bs) =
     (if Suc count < 9 \<and> b AND 0x80 \<noteq> 0
      then decodeVarU64_loop (Suc count) (shift + 7)
             (val OR push_bit shift (ucast (b AND 0x7f))) bs
      else Some (val OR push_bit shift (scast b), bs))"

definition decodeVarU64 :: "bytes \<Rightarrow> int \<Rightarrow> (u64 \<times> int) option" where
  "decodeVarU64 data pos =
     (if pos < 0 then None
      else case decodeVarU64_loop 0 0 0 (drop (nat pos) data) of
             None \<Rightarrow> None
           | Some (val, rest) \<Rightarrow> Some (val, int (length data) - int (length rest)))"

definition decodeVarI64 :: "bytes \<Rightarrow> int \<Rightarrow> (int \<times> int) option" where
  "decodeVarI64 data pos =
     (case decodeVarU64 data pos of
        None \<Rightarrow> None
      | Some (v, pos') \<Rightarrow> Some (sint (decodeZigZag v), pos'))"

section \<open>Decoders on byte ranges\<close>

definition decodeInt64 :: "int decoder" where
  "decodeInt64 br =
     (case decodeVarI64 br 0 of
        None \<Rightarrow> (Fail, br)
      | Some (res, pos) \<Rightarrow> if pos < 1 then (Abort, br) else (Ok res, drop (nat pos) br))"

definition decodeInt32 :: "int decoder" where
  "decodeInt32 br =
     (case decodeInt64 br of
        (Ok res64, br') \<Rightarrow>
          if res64 > 2147483647 \<or> res64 < - 2147483648 then (Fail, br) else (Ok res64, br')
      | r \<Rightarrow> r)"

definition decodeUInt64 :: "u64 decoder" where
  "decodeUInt64 br =
     (case decodeVarU64 br 0 of
        None \<Rightarrow> (Fail, br)
      | Some (res, pos) \<Rightarrow> if pos < 1 then (Abort, br) else (Ok res, drop (nat pos) br))"

definition decodeInt64C :: "int decoder" where
  "decodeInt64C br =
     (case decodeUInt64 br of
        (Ok ures, br') \<Rightarrow> if ures > 0x7fffffffffffffff then (Fail, br') else (Ok (uint ures), br')
      | (Fail, br') \<Rightarrow> (Fail, br')
      | (Abort, br') \<Rightarrow> (Abort, br'))"

definition decodeInt32C :: "int decoder" where
  "decodeInt32C br =
     (case decodeInt64C br of
        (Ok res64, br') \<Rightarrow>
          if res64 > 2147483647 \<or> res64 < 0 then (Fail, br) else (Ok res64, br')
      | r \<Rightarrow> r)"

section \<open>Fixed length integers\<close>

text \<open>\<open>n\<close> is \<open>sizeof(T)\<close>; the bytes of a value in little endian order.\<close>

fun le_bytes :: "nat \<Rightarrow> int \<Rightarrow> bytes" where
  "le_bytes 0 val = []"
| "le_bytes (Suc n) val = word_of_int val # le_bytes n (val div 256)"

fun le_value :: "bytes \<Rightarrow> int" where
  "le_value [] = 0"
| "le_value (b # bs) = uint b + 256 * le_value bs"

definition signed_value :: "nat \<Rightarrow> int \<Rightarrow> int" where
  "signed_value n u = (if u < 2 ^ (8 * n - 1) then u else u - 2 ^ (8 * n))"

definition decodeIntFixedLength :: "nat \<Rightarrow> int decoder" where
  "decodeIntFixedLength n br =
     (if length br < n then (Fail, br)
      else let res = signed_value n (le_value (take n br)); br' = drop n br
           in if res < 0 then (Fail, br') else (Ok res, br'))"

definition decodeInt16FixedLength :: "int decoder" where
  "decodeInt16FixedLength = decodeIntFixedLength 2"

definition decodeInt32FixedLength :: "int decoder" where
  "decodeInt32FixedLength = decodeIntFixedLength 4"

definition decodeInt64FixedLength :: "int decoder" where
  "decodeInt64FixedLength = decodeIntFixedLength 8"

definition encodeIntFixedLength :: "nat \<Rightarrow> int \<Rightarrow> encoder" where
  "encodeIntFixedLength n val = (\<lambda>sz dest off.
     if off + int n > sz then (Fail, dest, off)
     else (Ok (), write_at (nat off) (le_bytes n val) dest, off + int n))"

definition encodeInt16FixedLength :: "int \<Rightarrow> encoder" where
  "encodeInt16FixedLength val = encodeIntFixedLength 2 val"

definition encodeInt32FixedLength :: "int \<Rightarrow> encoder" where
  "encodeInt32FixedLength val = encodeIntFixedLength 4 val"

definition encodeInt64FixedLength :: "int \<Rightarrow> encoder" where
  "encodeInt64FixedLength val = encodeIntFixedLength 8 val"

section \<open>Strings\<close>

definition encodeRaw :: "bytes \<Rightarrow> encoder" where
  "encodeRaw bs = (\<lambda>sz dest off.
     if off + int (length bs) > sz then (Fail, dest, off)
     else (Ok (), write_at (nat off) bs dest, off + int (length bs)))"

definition encodeString :: "string \<Rightarrow> encoder" where
  "encodeString str =
     enc_seq (encodeVarU64 (word_of_nat (length str))) (encodeRaw (bytes_of str))"

definition decodeString :: "string decoder" where
  "decodeString = dec_bind decodeUInt64 (\<lambda>strLen br.
     if unat strLen > length br then (Fail, br)
     else (Ok (string_of (take (unat strLen) br)), drop (unat strLen) br))"

section \<open>Reference encoding of varints\<close>

fun vbytes :: "nat \<Rightarrow> u64 \<Rightarrow> bytes" where
  "vbytes 0 v = [ucast v]"
| "vbytes (Suc n) v =
     (if v \<ge> 128 then (0x80 OR (ucast v AND 0x7f)) # vbytes n (drop_bit 7 v) else [ucast v])"

definition varint :: "u64 \<Rightarrow> bytes" where
  "varint v = vbytes 8 v"

lemma length_vbytes: "1 \<le> length (vbytes n v)" "length (vbytes n v) \<le> Suc n"
  by (induction n v rule: vbytes.induct) auto

lemma length_varint: "1 \<le> length (varint v)" "length (varint v) \<le> 9"
  using length_vbytes [where n = 8 and v = v] by (simp_all add: varint_def)

lemma varint_not_Nil [simp]: "varint v \<noteq> []"
  using length_varint(1) [of v] by auto

lemma varint_small:
  assumes "\<not> 128 \<le> v"
  shows "varint v = [ucast v]"
  using assms vbytes.simps(2) [of 7 v] by (simp add: varint_def)

lemma encodeVarU64_str_vbytes:
  assumes "count \<le> 8"
  shows "encodeVarU64_str count buffer v
       = (buffer @ vbytes (8 - count) v, count + length (vbytes (8 - count) v))"
  using assms
proof (induction count buffer v rule: encodeVarU64_str.induct)
  case (1 count buffer v)
  show ?case
  proof (cases "count = 8")
    case True
    then show ?thesis by (subst encodeVarU64_str.simps) simp
  next
    case False
    then obtain k where k: "8 - count = Suc k" "8 - Suc count = k"
      using 1 by (cases "8 - count") auto
    then show ?thesis using 1 False by (subst encodeVarU64_str.simps) auto
  qed
qed

lemma encodeVarU64_string_varint:
  "encodeVarU64_string buffer v = (buffer @ varint v, length (varint v))"
  by (simp add: encodeVarU64_string_def varint_def encodeVarU64_str_vbytes)

lemma encodeVarU64_loop_fits:
  assumes "count \<le> 8" "0 \<le> p" "datasz \<le> int (length data)"
    and "p + int (length (vbytes (8 - count) v)) \<le> datasz"
  shows "fst (encodeVarU64_loop count datasz data p v)
       = Some (write_at (nat p) (vbytes (8 - count) v) data, count + length (vbytes (8 - count) v))"
  using assms
proof (induction count datasz data p v rule: encodeVarU64_loop.induct)
  case (1 count datasz data p v)
  show ?case
  proof (cases "Suc count < 9 \<and> v \<ge> 128")
    case False
    then have vb: "vbytes (8 - count) v = [ucast v]"
      using 1 by (cases "8 - count") auto
    then show ?thesis using 1 False
      by (subst encodeVarU64_loop.simps) (auto simp: write_at_single Let_def)
  next
    case True
    then obtain k where k: "8 - count = Suc k" "8 - Suc count = k"
      by (cases "8 - count") auto
    let ?b = "0x80 OR (ucast v AND 0x7f) :: byte"
    have vb: "vbytes (8 - count) v = ?b # vbytes k (drop_bit 7 v)" using True k by simp
    have room: "nat p + 1 + length (vbytes k (drop_bit 7 v)) \<le> length data" "p < datasz"
      using 1 vb by auto
    have "write_at (nat (p + 1)) (vbytes k (drop_bit 7 v)) (data[nat p := ?b])
        = write_at (nat p) (vbytes (8 - count) v) data"
      using room 1(3) write_at_append [of "nat p" "[?b]" "vbytes k (drop_bit 7 v)" data]
      by (simp add: write_at_single vb nat_add_distrib)
    then show ?thesis using 1 True k vb room
      by (subst encodeVarU64_loop.simps) auto
  qed
qed

lemma encodeVarU64_loop_full:
  assumes "count \<le> 8" "0 \<le> p" "p \<le> datasz" "datasz \<le> int (length data)"
    and "\<not> p + int (length (vbytes (8 - count) v)) \<le> datasz"
  shows "\<exists>d'. encodeVarU64_loop count datasz data p v = (None, d') \<and>
           frame_kept datasz p data d' p"
  using assms
proof (induction count datasz data p v rule: encodeVarU64_loop.induct)
  case (1 count datasz data p v)
  show ?case
  proof (cases "p \<ge> datasz")
    case True
    then show ?thesis using 1(5)
      by (subst encodeVarU64_loop.simps) (auto simp: frame_kept_def \<open>p \<le> datasz\<close>)
  next
    case False
    have cont: "Suc count < 9 \<and> v \<ge> 128"
    proof (rule ccontr)
      assume "\<not> ?thesis"
      then have "vbytes (8 - count) v = [ucast v]" using 1(2) by (cases "8 - count") auto
      then show False using 1(6) False by simp
    qed
    then obtain k where k: "8 - count = Suc k" "8 - Suc count = k"
      by (cases "8 - count") auto
    let ?d = "data[nat p := 0x80 OR (ucast v AND 0x7f)]"
    have "\<exists>d'. encodeVarU64_loop (Suc count) datasz ?d (p + 1) (drop_bit 7 v) = (None, d') \<and>
            frame_kept datasz (p + 1) ?d d' (p + 1)"
      using 1 cont False k by (intro 1(1)) auto
    then obtain d' where d': "encodeVarU64_loop (Suc count) datasz ?d (p + 1) (drop_bit 7 v) = (None, d')"
      and fk: "frame_kept datasz (p + 1) ?d d' (p + 1)" by blast
    have "take (nat p) d' = take (nat p) (take (nat (p + 1)) d')" using 1(3) by (simp add: min_def)
    also have "\<dots> = take (nat p) data" using fk 1(3) by (simp add: frame_kept_def min_def)
    finally have "frame_kept datasz p data d' p"
      using fk 1(3,4) False by (auto simp: frame_kept_def drop_update_cancel)
    then show ?thesis using d' cont False by (subst encodeVarU64_loop.simps) auto
  qed
qed

lemma encodeVarU64_spec [enc_rules]: "enc_spec (encodeVarU64 v) (varint v)"
proof (rule enc_specI)
  fix sz d off
  assume ib: "in_buffer sz d off" and "off + int (length (varint v)) \<le> sz"
  then have "fst (encodeVarU64_loop 0 sz d off v)
      = Some (write_at (nat off) (varint v) d, length (varint v))"
    using encodeVarU64_loop_fits [of 0 off sz d v] by (simp add: varint_def in_buffer_def)
  then show "encodeVarU64 v sz d off
      = (Ok (), write_at (nat off) (varint v) d, off + int (length (varint v)))"
    using ib by (cases "encodeVarU64_loop 0 sz d off v") (simp add: encodeVarU64_def in_buffer_def)
next
  fix sz d off
  assume ib: "in_buffer sz d off" and "\<not> off + int (length (varint v)) \<le> sz"
  then obtain d' where "encodeVarU64_loop 0 sz d off v = (None, d')" "frame_kept sz off d d' off"
    using encodeVarU64_loop_full [of 0 off sz d v] by (auto simp: varint_def in_buffer_def)
  then show "\<exists>d' off'. encodeVarU64 v sz d off = (Fail, d', off') \<and> frame_kept sz off d d' off'"
    using ib by (simp add: encodeVarU64_def in_buffer_def)
qed

section \<open>Decoding inverts encoding\<close>

lemma bit_0x80 [simp]: "bit (128 :: int) n \<longleftrightarrow> n = 7"
  using bit_exp_iff [where 'a = int and m = 7 and n = n] by auto

lemma bit_0x7f [simp]: "bit (127 :: int) n \<longleftrightarrow> n < 7"
  using bit_mask_iff [where 'a = int and m = 7 and n = n] by (auto simp: mask_eq_exp_minus_1)

lemma continuation_byte:
  fixes v :: u64 and b :: byte
  assumes b: "b = 0x80 OR (ucast v AND 0x7f)"
  shows "b AND 0x80 \<noteq> 0" "ucast (b AND 0x7f) = v AND mask 7"
proof -
  have "bit (b AND 0x80) 7" by (simp add: b bit_simps)
  then show "b AND 0x80 \<noteq> 0" by auto
  show "ucast (b AND 0x7f) = v AND mask 7"
    by (rule bit_eqI) (auto simp: b bit_simps)
qed

lemma split_low_bits:
  fixes v :: u64
  shows "push_bit s (v AND mask 7) OR push_bit (s + 7) (drop_bit 7 v) = push_bit s v"
proof (rule bit_eqI)
  fix n
  have "7 \<le> n - s \<Longrightarrow> 7 + (n - (s + 7)) = n - s" by simp
  then show "bit (push_bit s (v AND mask 7) OR push_bit (s + 7) (drop_bit 7 v)) n = bit (push_bit s v) n"
    by (cases "7 \<le> n - s") (auto simp: bit_simps)
qed

lemma small_byte:
  fixes v :: u64
  assumes "\<not> 128 \<le> v"
  shows "(ucast v :: byte) AND 0x80 = 0" "scast (ucast v :: byte) = v"
proof -
  have "unat v < 128" using assms by (simp add: not_le word_less_nat_alt)
  then have "take_bit 7 v = v"
    by (simp add: word_eq_iff_unsigned [where 'a = nat] unsigned_take_bit_eq take_bit_nat_eq_self)
  then have b: "bit v n \<longleftrightarrow> n < 7 \<and> bit v n" for n by (metis bit_take_bit_iff)
  show "(ucast v :: byte) AND 0x80 = 0"
    by (rule bit_eqI) (use b [of 7] in \<open>auto simp: bit_simps\<close>)
  show "scast (ucast v :: byte) = v"
  proof (rule bit_eqI)
    fix n assume "possible_bit TYPE(64 word) n"
    then show "bit (scast (ucast v :: byte) :: u64) n = bit v n"
      using b [of n] b [of 7] by (auto simp: bit_simps min_def)
  qed
qed

lemma last_byte:
  fixes v :: u64
  shows "push_bit 56 (scast (ucast v :: byte)) = push_bit 56 v"
proof (rule bit_eqI)
  fix n assume "possible_bit TYPE(64 word) n"
  moreover have "n < 64 \<Longrightarrow> 7 \<le> n - 56 \<Longrightarrow> n - 56 = 7" by simp
  ultimately show "bit (push_bit 56 (scast (ucast v :: byte)) :: u64) n = bit (push_bit 56 v) n"
    by (auto simp: bit_simps min_def)
qed

lemma decodeVarU64_loop_vbytes:
  assumes "count \<le> 8"
  shows "decodeVarU64_loop count (7 * count) val (vbytes (8 - count) v @ rest)
       = Some (val OR push_bit (7 * count) v, rest)"
  using assms
proof (induction "8 - count" arbitrary: count val v)
  case 0
  then show ?case by (simp add: last_byte)
next
  case (Suc k)
  then have k: "8 - count = Suc k" "8 - Suc count = k" "Suc count \<le> 8" by auto
  show ?case
  proof (cases "128 \<le> v")
    case True
    have c9: "Suc count < 9" using k by simp
    define b :: byte where b: "b = 0x80 OR (ucast v AND 0x7f)"
    have vb: "vbytes (8 - count) v = b # vbytes (8 - Suc count) (drop_bit 7 v)"
      using True k by (simp add: b)
    have "decodeVarU64_loop count (7 * count) val (vbytes (8 - count) v @ rest)
        = decodeVarU64_loop (Suc count) (7 * Suc count)
            (val OR push_bit (7 * count) (v AND mask 7)) (vbytes (8 - Suc count) (drop_bit 7 v) @ rest)"
      using c9 continuation_byte [OF b] by (simp add: vb add.commute)
    also have "\<dots> = Some ((val OR push_bit (7 * count) (v AND mask 7))
                         OR push_bit (7 * Suc count) (drop_bit 7 v), rest)"
      using k by (intro Suc(1)) auto
    finally show ?thesis using split_low_bits [of "7 * count" v]
      by (simp only: or.assoc mult_Suc_right add.commute)
  next
    case False
    then show ?thesis using k by (simp add: small_byte)
  qed
qed

lemma decodeVarU64_varint:
  "decodeVarU64 (varint v @ rest) 0 = Some (v, int (length (varint v)))"
  using decodeVarU64_loop_vbytes [of 0 0 v rest]
  by (simp add: decodeVarU64_def varint_def)

lemma decodeUInt64_spec [dec_rules]: "dec_spec decodeUInt64 (varint v) v"
  using length_varint(1) [of v]
  by (auto simp: dec_spec_def decodeUInt64_def decodeVarU64_varint)

lemma zigzag_bits:
  "bit (encodeZigZag v) n \<longleftrightarrow> n < 64 \<and> ((0 < n \<and> bit v (n - 1)) \<noteq> bit v 63)"
  unfolding encodeZigZag_def bit_xor_iff bit_push_bit_iff bit_signed_drop_bit_iff
  by (cases n) (auto dest: bit_imp_le_length)

lemma neg_lsb:
  fixes u :: u64
  shows "- (u AND 1) = (if bit u 0 then - 1 else 0)"
  by (simp add: and_one_eq mod_2_eq_odd bit_0)

lemma unzigzag_bits:
  "bit (decodeZigZag u) n \<longleftrightarrow> n < 64 \<and> ((n < 63 \<and> bit u (Suc n)) \<noteq> bit u 0)"
proof -
  have "n < 63 \<or> n \<ge> 63" by auto
  moreover have "bit u (Suc n) \<Longrightarrow> Suc n < 64" using bit_imp_le_length [of u "Suc n"] by simp
  ultimately show ?thesis
    unfolding decodeZigZag_def bit_xor_iff neg_lsb by (auto simp: bit_drop_bit_eq)
qed

lemma decode_encode_ZigZag [simp]: "decodeZigZag (encodeZigZag v) = v"
proof (rule bit_eqI)
  fix n assume "possible_bit TYPE(64 word) n"
  then have "n = 63 \<or> n < 63" by auto
  then show "bit (decodeZigZag (encodeZigZag v)) n = bit v n"
    by (auto simp: unzigzag_bits zigzag_bits)
qed

lemma encode_decode_ZigZag [simp]: "encodeZigZag (decodeZigZag u) = u"
proof (rule bit_eqI)
  fix n assume "possible_bit TYPE(64 word) n"
  then show "bit (encodeZigZag (decodeZigZag u)) n = bit u n"
    by (cases n) (auto simp: zigzag_bits unzigzag_bits)
qed

section \<open>Encoded sizes\<close>

lemma unat_drop_bit_7: "unat (drop_bit 7 v) = unat v div 128" for v :: u64
  using unsigned_less [of v, where 'a = nat]
  by (subst unsigned_drop_bit_eq) (simp add: drop_bit_eq_div take_bit_nat_eq_self)

lemma length_vbytes_le_iff:
  assumes "1 \<le> k" "k \<le> n"
  shows "length (vbytes n v) \<le> k \<longleftrightarrow> unat v < 2 ^ (7 * k)"
  using assms
proof (induction n v arbitrary: k rule: vbytes.induct)
  case (1 v)
  then show ?case by simp
next
  case (2 n v)
  have big: "128 \<le> v \<longleftrightarrow> 128 \<le> unat v" by (simp add: word_le_nat_alt)
  obtain j where k: "k = Suc j" using 2(2) by (cases k) auto
  have pow: "(2::nat) ^ (7 * k) = 128 * 2 ^ (7 * j)" by (simp add: k power_add)
  show ?case
  proof (cases "128 \<le> v")
    case False
    then have "unat v < 128 * 1" using big by simp
    also have "\<dots> \<le> 128 * 2 ^ (7 * j)" by (intro mult_le_mono2) simp
    finally have "unat v < 128 * 2 ^ (7 * j)" .
    then show ?thesis using False 2(2) by (simp add: pow)
  next
    case True
    show ?thesis
    proof (cases "j = 0")
      case True
      with \<open>128 \<le> v\<close> show ?thesis using length_vbytes(1) [of n "drop_bit 7 v"] big
        by (simp add: k Suc_le_eq)
    next
      case False
      then have "length (vbytes n (drop_bit 7 v)) \<le> j \<longleftrightarrow> unat (drop_bit 7 v) < 2 ^ (7 * j)"
        using True 2(3) k by (intro 2(1)) auto
      then show ?thesis using True
        by (simp add: k power_add unat_drop_bit_7 div_less_iff_less_mult mult.commute)
    qed
  qed
qed

lemma length_varint_le_iff:
  assumes "1 \<le> k" "k \<le> 8"
  shows "length (varint v) \<le> k \<longleftrightarrow> unat v < 2 ^ (7 * k)"
  using length_vbytes_le_iff [OF assms] by (simp add: varint_def)

lemma uint_encodeZigZag:
  assumes "- (2 ^ 63) \<le> v" "v < 2 ^ 63"
  shows "uint (encodeZigZag (word_of_int v)) = (if 0 \<le> v then 2 * v else - 2 * v - 1)"
proof (cases "0 \<le> v")
  case True
  have "encodeZigZag (word_of_int v) = word_of_int (2 * v)"
  proof (rule bit_eqI)
    fix n assume "possible_bit TYPE(64 word) n"
    moreover have "\<not> bit v 63" using True assms by (simp add: bit_iff_odd)
    ultimately show "bit (encodeZigZag (word_of_int v)) n = bit (word_of_int (2 * v) :: u64) n"
      by (cases n) (auto simp: zigzag_bits bit_word_of_int_iff bit_double_iff)
  qed
  then show ?thesis using True assms
    by (simp add: uint_word_of_int take_bit_int_eq_self del: of_int_mult)
next
  case False
  have "uint (word_of_int (NOT (2 * v)) :: u64) = NOT (2 * v)"
    using False assms by (subst uint_word_of_int) (simp add: take_bit_int_eq_self not_int_def)
  moreover
  have "encodeZigZag (word_of_int v) = word_of_int (NOT (2 * v))"
  proof (rule bit_eqI)
    fix n assume "possible_bit TYPE(64 word) n"
    moreover have "bit v 63"
    proof -
      have "v div 2 ^ 63 = - 1" using False assms by (simp add: div_eq_minus1)
      then show ?thesis by (simp add: bit_iff_odd)
    qed
    ultimately show "bit (encodeZigZag (word_of_int v)) n = bit (word_of_int (NOT (2 * v)) :: u64) n"
      by (cases n) (auto simp: zigzag_bits bit_word_of_int_iff bit_not_int_iff bit_double_iff)
  qed
  ultimately show ?thesis using False by (simp only: not_int_def) simp
qed

section \<open>Contracts of the codecs\<close>

definition is_i64 :: "int \<Rightarrow> bool" where
  "is_i64 v \<longleftrightarrow> - (2 ^ 63) \<le> v \<and> v < 2 ^ 63"

definition is_i32 :: "int \<Rightarrow> bool" where
  "is_i32 v \<longleftrightarrow> - (2 ^ 31) \<le> v \<and> v < 2 ^ 31"

definition nonneg_i64 :: "int \<Rightarrow> bool" where
  "nonneg_i64 v \<longleftrightarrow> 0 \<le> v \<and> v < 2 ^ 63"

definition nonneg_i32 :: "int \<Rightarrow> bool" where
  "nonneg_i32 v \<longleftrightarrow> 0 \<le> v \<and> v < 2 ^ 31"

definition short_string :: "string \<Rightarrow> bool" where
  "short_string s \<longleftrightarrow> length s < 2 ^ 64"

definition wire_u :: "int \<Rightarrow> bytes" where
  "wire_u v = varint (word_of_int v)"

definition wire_s :: "int \<Rightarrow> bytes" where
  "wire_s v = varint (encodeZigZag (word_of_int v))"

definition wire_str :: "string \<Rightarrow> bytes" where
  "wire_str s = varint (word_of_nat (length s)) @ bytes_of s"

lemma length_wire_u: "1 \<le> length (wire_u v)" "length (wire_u v) \<le> 9"
  unfolding wire_u_def by (rule length_varint)+

lemma length_wire_s: "1 \<le> length (wire_s v)" "length (wire_s v) \<le> 9"
  unfolding wire_s_def by (rule length_varint)+

lemma nonneg_i32_i64 [simp]: "nonneg_i32 v \<Longrightarrow> nonneg_i64 v"
  by (simp add: nonneg_i32_def nonneg_i64_def)

lemma encodeVarI64_spec [enc_rules]: "enc_spec (encodeVarI64 v) (wire_s v)"
  by (simp add: encodeVarI64_def wire_s_def encodeVarU64_spec)

lemma encodeVarI64C_eq: "0 \<le> v \<Longrightarrow> encodeVarI64C v = encodeVarU64 (word_of_int v)"
  by (simp add: encodeVarI64C_def)

lemma encodeVarI64C_spec [enc_rules]: "0 \<le> v \<Longrightarrow> enc_spec (encodeVarI64C v) (wire_u v)"
  by (simp add: encodeVarI64C_eq wire_u_def encodeVarU64_spec)

lemma encodeRaw_spec [enc_rules]: "enc_spec (encodeRaw bs) bs"
  by (rule enc_specI) (auto simp: encodeRaw_def frame_kept_def in_buffer_def)

lemma encodeString_spec [enc_rules]: "enc_spec (encodeString s) (wire_str s)"
  unfolding encodeString_def wire_str_def by (intro enc_rules)

lemma length_le_bytes [simp]: "length (le_bytes n v) = n"
  by (induction n v rule: le_bytes.induct) simp_all

lemma encodeIntFixedLength_spec [enc_rules]: "enc_spec (encodeIntFixedLength n v) (le_bytes n v)"
  by (rule enc_specI) (auto simp: encodeIntFixedLength_def frame_kept_def in_buffer_def)

lemma decodeVarI64_wire:
  assumes "is_i64 v"
  shows "decodeVarI64 (wire_s v @ rest) 0 = Some (v, int (length (wire_s v)))"
  using assms
  by (simp add: decodeVarI64_def wire_s_def decodeVarU64_varint is_i64_def sint_sbintrunc'
      signed_take_bit_int_eq_self)

lemma decodeInt64_spec [dec_rules]:
  assumes "is_i64 v"
  shows "dec_spec decodeInt64 (wire_s v) v"
  using length_wire_s(1) [of v] assms
  by (auto simp: dec_spec_def decodeInt64_def decodeVarI64_wire)

lemma decodeInt32_spec [dec_rules]:
  assumes "is_i32 v"
  shows "dec_spec decodeInt32 (wire_s v) v"
proof -
  have "is_i64 v" using assms by (simp add: is_i32_def is_i64_def)
  then show ?thesis using assms decodeInt64_spec [of v]
    by (simp add: dec_spec_def decodeInt32_def is_i32_def)
qed

lemma decodeInt64C_spec [dec_rules]:
  assumes "nonneg_i64 v"
  shows "dec_spec decodeInt64C (wire_u v) v"
proof -
  have u: "uint (word_of_int v :: u64) = v"
    using assms by (simp add: nonneg_i64_def uint_word_of_int take_bit_int_eq_self)
  moreover have "\<not> (word_of_int v :: u64) > 0x7fffffffffffffff"
    using assms u by (simp add: word_less_def nonneg_i64_def)
  ultimately show ?thesis using decodeUInt64_spec [of "word_of_int v"]
    by (simp add: dec_spec_def decodeInt64C_def wire_u_def)
qed

lemma decodeInt32C_spec [dec_rules]:
  assumes "nonneg_i32 v"
  shows "dec_spec decodeInt32C (wire_u v) v"
  using assms decodeInt64C_spec [of v]
  by (simp add: dec_spec_def decodeInt32C_def nonneg_i32_def nonneg_i64_def)

lemma le_value_le_bytes:
  assumes "0 \<le> v" "v < 256 ^ n"
  shows "le_value (le_bytes n v) = v"
  using assms
proof (induction n v rule: le_bytes.induct)
  case (1 v)
  then show ?case by simp
next
  case (2 n v)
  then have "v div 256 < 256 ^ n" by (simp add: div_less_iff_less_mult mult.commute)
  moreover have "uint (word_of_int v :: byte) = v mod 256"
    by (simp add: uint_word_of_int take_bit_eq_mod)
  ultimately show ?case using 2 by simp
qed

lemma decodeIntFixedLength_spec [dec_rules]:
  assumes "0 < n" "0 \<le> v" "v < 2 ^ (8 * n - 1)"
  shows "dec_spec (decodeIntFixedLength n) (le_bytes n v) v"
proof -
  have "(2::int) ^ (8 * n - 1) \<le> 2 ^ (8 * n)" by (intro power_increasing) auto
  then have "v < 256 ^ n" using assms(3) by (simp add: power_mult)
  then have "le_value (le_bytes n v) = v" using assms(2) by (rule le_value_le_bytes [rotated])
  then show ?thesis using assms
    by (simp add: dec_spec_def decodeIntFixedLength_def signed_value_def)
qed

lemma decodeString_spec [dec_rules]:
  assumes "short_string s"
  shows "dec_spec decodeString (wire_str s) s"
  unfolding decodeString_def wire_str_def
proof (rule dec_spec_bind)
  show "dec_spec decodeUInt64 (varint (word_of_nat (length s))) (word_of_nat (length s))"
    by (rule decodeUInt64_spec)
  have "unat (word_of_nat (length s) :: u64) = length s"
    using assms by (simp add: short_string_def unat_of_nat take_bit_nat_eq_self)
  then show "dec_spec (\<lambda>br. if length br < unat (word_of_nat (length s) :: u64) then (Fail, br)
        else (Ok (string_of (take (unat (word_of_nat (length s) :: u64)) br)),
              drop (unat (word_of_nat (length s) :: u64)) br)) (bytes_of s) s"
    by (simp add: dec_spec_def)
qed

section \<open>Decoders on arbitrary input\<close>

lemma decodeVarU64_loop_suffix:
  "decodeVarU64_loop count shift val bs = Some (v, rest) \<Longrightarrow> strict_suffix rest bs"
  by (induction count shift val bs rule: decodeVarU64_loop.induct)
     (auto simp: strict_suffix_def suffix_ConsI split: if_splits dest: suffix_length_le)

lemma decodeVarU64_0:
  assumes "decodeVarU64 br 0 = Some (v, pos)"
  shows "1 \<le> pos" "pos \<le> int (length br)"
proof -
  obtain rest where *: "decodeVarU64_loop 0 0 0 br = Some (v, rest)"
    "pos = int (length br) - int (length rest)"
    using assms by (auto simp: decodeVarU64_def split: option.splits)
  have "length rest < length br"
    using decodeVarU64_loop_suffix [OF *(1)] by (auto simp: strict_suffix_def suffix_def)
  then show "1 \<le> pos" "pos \<le> int (length br)" using * by auto
qed

lemma decodeUInt64_safe [safe_rules]: "dec_safe decodeUInt64"
  unfolding dec_safe_def decodeUInt64_def
  by (auto simp: suffix_drop dest: decodeVarU64_0(1) split: option.splits)

lemma decodeInt64_safe [safe_rules]: "dec_safe decodeInt64"
  unfolding dec_safe_def decodeInt64_def decodeVarI64_def
  by (auto simp: suffix_drop dest: decodeVarU64_0(1) split: option.splits)

lemma decodeInt64C_safe [safe_rules]: "dec_safe decodeInt64C"
  using decodeUInt64_safe unfolding dec_safe_def decodeInt64C_def
  by (auto split: prod.splits outcome.splits) (metis fst_conv snd_conv)+

lemma decodeInt32C_safe [safe_rules]: "dec_safe decodeInt32C"
  using decodeInt64C_safe unfolding dec_safe_def decodeInt32C_def
  by (auto split: prod.splits outcome.splits) (metis fst_conv snd_conv)+

lemma decodeInt32_safe [safe_rules]: "dec_safe decodeInt32"
  using decodeInt64_safe unfolding dec_safe_def decodeInt32_def
  by (auto split: prod.splits outcome.splits) (metis fst_conv snd_conv)+

lemma decodeIntFixedLength_safe [safe_rules]: "dec_safe (decodeIntFixedLength n)"
  by (auto simp: dec_safe_def decodeIntFixedLength_def Let_def suffix_drop)

lemma decodeString_safe [safe_rules]: "dec_safe decodeString"
  unfolding decodeString_def
proof (rule dec_safeI)
  fix obr
  have "dec_safe (\<lambda>br. if length br < unat strLen then (Fail, br)
          else (Ok (string_of (take (unat strLen) br)), drop (unat strLen) br))" for strLen :: u64
    by (auto simp: dec_safe_def suffix_drop)
  then show "dec_within obr (dec_bind decodeUInt64 (\<lambda>strLen br. if length br < unat strLen
      then (Fail, br) else (Ok (string_of (take (unat strLen) br)), drop (unat strLen) br)))"
    by (intro dec_within_bind dec_safe_within) (rule decodeUInt64_safe)
qed

lemma decodeInt64C_range:
  "decodeInt64C br = (Ok v, br') \<Longrightarrow> nonneg_i64 v"
  by (auto simp: decodeInt64C_def nonneg_i64_def word_less_def split: prod.splits outcome.splits if_splits)

section \<open>Codec instances\<close>

interpretation u64_codec: byte_codec encodeVarU64 decodeUInt64 varint "\<lambda>_. True"
  by unfold_locales (rule encodeVarU64_spec decodeUInt64_spec decodeUInt64_safe)+

interpretation i64_codec: byte_codec encodeVarI64 decodeInt64 wire_s is_i64
  by unfold_locales (rule encodeVarI64_spec decodeInt64_safe | erule decodeInt64_spec)+

interpretation i64c_codec: byte_codec encodeVarI64C decodeInt64C wire_u nonneg_i64
  by unfold_locales
    (simp_all add: encodeVarI64C_spec decodeInt64C_safe decodeInt64C_spec nonneg_i64_def)

interpretation i32c_codec: byte_codec encodeVarI64C decodeInt32C wire_u nonneg_i32
  by unfold_locales
    (simp_all add: encodeVarI64C_spec decodeInt32C_safe decodeInt32C_spec nonneg_i32_def)

interpretation string_codec: byte_codec encodeString decodeString wire_str short_string
  by unfold_locales (rule encodeString_spec decodeString_safe | erule decodeString_spec)+

interpretation fixed16_codec: byte_codec encodeInt16FixedLength decodeInt16FixedLength
  "le_bytes 2" "\<lambda>v. 0 \<le> v \<and> v < 2 ^ 15"
  by unfold_locales
    (auto simp: encodeInt16FixedLength_def decodeInt16FixedLength_def
      intro: encodeIntFixedLength_spec decodeIntFixedLength_spec decodeIntFixedLength_safe)

interpretation fixed32_codec: byte_codec encodeInt32FixedLength decodeInt32FixedLength
  "le_bytes 4" nonneg_i32
  by unfold_locales
    (auto simp: encodeInt32FixedLength_def decodeInt32FixedLength_def nonneg_i32_def
      intro: encodeIntFixedLength_spec decodeIntFixedLength_spec decodeIntFixedLength_safe)

interpretation fixed64_codec: byte_codec encodeInt64FixedLength decodeInt64FixedLength
  "le_bytes 8" nonneg_i64
  by unfold_locales
    (auto simp: encodeInt64FixedLength_def decodeInt64FixedLength_def nonneg_i64_def
      intro: encodeIntFixedLength_spec decodeIntFixedLength_spec decodeIntFixedLength_safe)

lemmas fixed_specs [enc_rules] =
  encodeIntFixedLength_spec [of 4, folded encodeInt32FixedLength_def]
  encodeIntFixedLength_spec [of 8, folded encodeInt64FixedLength_def]
  encodeIntFixedLength_spec [of 2, folded encodeInt16FixedLength_def]

section \<open>Properties\<close>

lemma in_buffer_lens:
  assumes "in_buffer sz d off" "off + int n \<le> sz"
  shows "nat off + n \<le> length d" "nat off \<le> length d" "nat (off + int n) = nat off + n"
  using assms by (auto simp: in_buffer_def)

text \<open>C8: \<open>encodeVarU64\<close> succeeds exactly when the varint fits between the
  offset and the end of the buffer; then it writes 1 to 9 bytes, touches nothing
  else, and \<open>decodeUInt64\<close> run at the old offset returns the value and stops at
  the new offset.  Otherwise it returns false and leaves the offset alone.\<close>

theorem encodeVarU64_roundtrip:
  assumes "in_buffer sz d off"
  shows "if off + int (length (fst (encodeVarU64_string [] v))) \<le> sz
         then \<exists>d' off'. encodeVarU64 v sz d off = (Ok (), d', off')
           \<and> off + 1 \<le> off' \<and> off' \<le> off + 9
           \<and> decodeUInt64 (drop (nat off) d') = (Ok v, drop (nat off') d')
           \<and> take (nat off) d' = take (nat off) d \<and> drop (nat off') d' = drop (nat off') d
         else \<exists>d'. encodeVarU64 v sz d off = (Fail, d', off)"
proof (cases "off + int (length (varint v)) \<le> sz")
  case True
  note ok = enc_spec_fits [OF encodeVarU64_spec assms True]
  note lens = in_buffer_lens [OF assms True]
  show ?thesis using True ok lens length_varint [of v] u64_codec.buffer_roundtrip [OF TrueI assms ok]
    by (simp add: encodeVarU64_string_varint)
next
  case False
  then obtain d' where "encodeVarU64_loop 0 sz d off v = (None, d')"
    using encodeVarU64_loop_full [of 0 off sz d v] assms by (auto simp: varint_def in_buffer_def)
  then show ?thesis using False assms
    by (simp add: encodeVarU64_string_varint encodeVarU64_def in_buffer_def)
qed

theorem encodeVarU64_roundtrip_witness:
  "\<exists>d' off'. encodeVarU64 300 4 [1, 2, 3, 4] 1 = (Ok (), d', off')
     \<and> decodeUInt64 (drop 1 d') = (Ok 300, drop (nat off') d')"
proof -
  have "in_buffer 4 [1, 2, 3, 4] 1" by (simp add: in_buffer_def)
  moreover have "length (fst (encodeVarU64_string [] 300)) \<le> 2"
    using length_varint_le_iff [of 2 300] by (simp add: encodeVarU64_string_varint)
  ultimately show ?thesis using encodeVarU64_roundtrip [of 4 "[1, 2, 3, 4]" 1 300] by auto
qed

text \<open>C31: a signed 64 bit integer survives \<open>encodeVarI64\<close> followed by
  \<open>decodeVarI64\<close>, and its encoding takes at most \<open>k\<close> bytes (for \<open>k\<close> from 1 to 8)
  exactly when it lies in \<open>[-2^(7k-1), 2^(7k-1))\<close>, as the header comment claims:
  1 byte for \<open>[-64,63]\<close>, 2 bytes for \<open>[-8192,8191]\<close> and so on, never more than 9.\<close>

theorem encodeVarI64_roundtrip:
  assumes v: "- (2 ^ 63) \<le> v" "v < 2 ^ 63"
    and bs: "bs = fst (encodeVarI64_string [] (word_of_int v))"
  shows "decodeVarI64 (bs @ rest) 0 = Some (v, int (length bs)) \<and> length bs \<le> 9 \<and>
         (\<forall>k. 1 \<le> k \<and> k \<le> 8 \<longrightarrow>
           (length bs \<le> k \<longleftrightarrow> - (2 ^ (7 * k - 1)) \<le> v \<and> v < 2 ^ (7 * k - 1)))"
proof (intro conjI allI impI)
  have w: "bs = wire_s v"
    by (simp add: bs encodeVarI64_string_def encodeVarU64_string_varint wire_s_def)
  show "decodeVarI64 (bs @ rest) 0 = Some (v, int (length bs))"
    using v by (simp add: w decodeVarI64_wire is_i64_def)
  show "length bs \<le> 9" using length_wire_s(2) by (simp add: w)
  fix k :: nat
  assume "1 \<le> k \<and> k \<le> 8"
  then have k: "1 \<le> k" "k \<le> 8" by auto
  let ?z = "encodeZigZag (word_of_int v)"
  have p: "(2::int) ^ (7 * k) = 2 * 2 ^ (7 * k - 1)" using k by (simp flip: power_Suc)
  have "length bs \<le> k \<longleftrightarrow> unat ?z < 2 ^ (7 * k)"
    using length_varint_le_iff [OF k] by (simp add: w wire_s_def)
  also have "\<dots> \<longleftrightarrow> int (unat ?z) < int (2 ^ (7 * k))" by (simp only: of_nat_less_iff)
  also have "\<dots> \<longleftrightarrow> uint ?z < 2 * 2 ^ (7 * k - 1)" by (simp add: p)
  also have "\<dots> \<longleftrightarrow> - (2 ^ (7 * k - 1)) \<le> v \<and> v < 2 ^ (7 * k - 1)"
    unfolding uint_encodeZigZag [OF v] by auto
  finally show "length bs \<le> k \<longleftrightarrow> - (2 ^ (7 * k - 1)) \<le> v \<and> v < 2 ^ (7 * k - 1)" .
qed

theorem encodeVarI64_roundtrip_witness:
  "\<exists>bs. bs = fst (encodeVarI64_string [] (word_of_int (- 64))) \<and> length bs \<le> 1 \<and>
     decodeVarI64 (bs @ [7]) 0 = Some (- 64, int (length bs))"
  using encodeVarI64_roundtrip [of "- 64" _ "[7]", OF _ _ refl] by simp

end
