(* ===== verification/Error_Codes.thy ===== *)
theory Error_Codes
  imports Wdt_Prelude
begin

text \<open>
  \<open>ErrorCodes.h\<close> and \<open>.cpp\<close>: the error enumeration in declaration order, its
  numeric values, its total order (a later code is the more interesting one)
  and the code/name tables.
\<close>

datatype ErrorCode =
    OK | ERROR | ABORT | CONN_ERROR | CONN_ERROR_RETRYABLE | SOCKET_READ_ERROR |
    SOCKET_WRITE_ERROR | BYTE_SOURCE_READ_ERROR | FILE_WRITE_ERROR |
    MEMORY_ALLOCATION_ERROR | PROTOCOL_ERROR | VERSION_MISMATCH | ID_MISMATCH |
    CHECKSUM_MISMATCH | RESOURCE_NOT_FOUND | ABORTED_BY_APPLICATION |
    VERSION_INCOMPATIBLE | NOT_FOUND | QUOTA_EXCEEDED | FEWER_PORTS | URI_PARSE_ERROR |
    INCONSISTENT_DIRECTORY | INVALID_LOG | INVALID_CHECKPOINT | NO_PROGRESS |
    TRANSFER_LOG_ACQUIRE_ERROR | WDT_TIMEOUT | UNEXPECTED_CMD_ERROR | ENCRYPTION_ERROR |
    ALREADY_EXISTS | GLOBAL_CHECKPOINT_ABORT | INVALID_REQUEST | SENDER_START_TIMED_OUT |
    AUTH_ERROR

definition error_codes :: "ErrorCode list" where
  "error_codes = [
     OK, ERROR, ABORT, CONN_ERROR, CONN_ERROR_RETRYABLE, SOCKET_READ_ERROR,
     SOCKET_WRITE_ERROR, BYTE_SOURCE_READ_ERROR, FILE_WRITE_ERROR, MEMORY_ALLOCATION_ERROR,
     PROTOCOL_ERROR, VERSION_MISMATCH, ID_MISMATCH, CHECKSUM_MISMATCH, RESOURCE_NOT_FOUND,
     ABORTED_BY_APPLICATION, VERSION_INCOMPATIBLE, NOT_FOUND, QUOTA_EXCEEDED, FEWER_PORTS,
     URI_PARSE_ERROR, INCONSISTENT_DIRECTORY, INVALID_LOG, INVALID_CHECKPOINT, NO_PROGRESS,
     TRANSFER_LOG_ACQUIRE_ERROR, WDT_TIMEOUT, UNEXPECTED_CMD_ERROR, ENCRYPTION_ERROR,
     ALREADY_EXISTS, GLOBAL_CHECKPOINT_ABORT, INVALID_REQUEST, SENDER_START_TIMED_OUT,
     AUTH_ERROR]"

definition kErrorToStr :: "string list" where
  "kErrorToStr = [
     ''OK'', ''ERROR'', ''ABORT'', ''CONN_ERROR'', ''CONN_ERROR_RETRYABLE'',
     ''SOCKET_READ_ERROR'', ''SOCKET_WRITE_ERROR'', ''BYTE_SOURCE_READ_ERROR'',
     ''FILE_WRITE_ERROR'', ''MEMORY_ALLOCATION_ERROR'', ''PROTOCOL_ERROR'',
     ''VERSION_MISMATCH'', ''ID_MISMATCH'', ''CHECKSUM_MISMATCH'', ''RESOURCE_NOT_FOUND'',
     ''ABORTED_BY_APPLICATION'', ''VERSION_INCOMPATIBLE'', ''NOT_FOUND'',
     ''QUOTA_EXCEEDED'', ''FEWER_PORTS'', ''URI_PARSE_ERROR'', ''INCONSISTENT_DIRECTORY'',
     ''INVALID_LOG'', ''INVALID_CHECKPOINT'', ''NO_PROGRESS'',
     ''TRANSFER_LOG_ACQUIRE_ERROR'', ''WDT_TIMEOUT'', ''UNEXPECTED_CMD_ERROR'',
     ''ENCRYPTION_ERROR'', ''ALREADY_EXISTS'', ''GLOBAL_CHECKPOINT_ABORT'',
     ''INVALID_REQUEST'', ''SENDER_START_TIMED_OUT'', ''AUTH_ERROR'']"

text \<open>The value of an enumerator.\<close>

fun errorCode_num :: "ErrorCode \<Rightarrow> nat" where
  "errorCode_num OK = 0"
| "errorCode_num ERROR = 1"
| "errorCode_num ABORT = 2"
| "errorCode_num CONN_ERROR = 3"
| "errorCode_num CONN_ERROR_RETRYABLE = 4"
| "errorCode_num SOCKET_READ_ERROR = 5"
| "errorCode_num SOCKET_WRITE_ERROR = 6"
| "errorCode_num BYTE_SOURCE_READ_ERROR = 7"
| "errorCode_num FILE_WRITE_ERROR = 8"
| "errorCode_num MEMORY_ALLOCATION_ERROR = 9"
| "errorCode_num PROTOCOL_ERROR = 10"
| "errorCode_num VERSION_MISMATCH = 11"
| "errorCode_num ID_MISMATCH = 12"
| "errorCode_num CHECKSUM_MISMATCH = 13"
| "errorCode_num RESOURCE_NOT_FOUND = 14"
| "errorCode_num ABORTED_BY_APPLICATION = 15"
| "errorCode_num VERSION_INCOMPATIBLE = 16"
| "errorCode_num NOT_FOUND = 17"
| "errorCode_num QUOTA_EXCEEDED = 18"
| "errorCode_num FEWER_PORTS = 19"
| "errorCode_num URI_PARSE_ERROR = 20"
| "errorCode_num INCONSISTENT_DIRECTORY = 21"
| "errorCode_num INVALID_LOG = 22"
| "errorCode_num INVALID_CHECKPOINT = 23"
| "errorCode_num NO_PROGRESS = 24"
| "errorCode_num TRANSFER_LOG_ACQUIRE_ERROR = 25"
| "errorCode_num WDT_TIMEOUT = 26"
| "errorCode_num UNEXPECTED_CMD_ERROR = 27"
| "errorCode_num ENCRYPTION_ERROR = 28"
| "errorCode_num ALREADY_EXISTS = 29"
| "errorCode_num GLOBAL_CHECKPOINT_ABORT = 30"
| "errorCode_num INVALID_REQUEST = 31"
| "errorCode_num SENDER_START_TIMED_OUT = 32"
| "errorCode_num AUTH_ERROR = 33"

text \<open>The cast \<open>(ErrorCode)x\<close>, for the values that name an enumerator.\<close>

definition errorCode_of_num :: "nat \<Rightarrow> ErrorCode option" where
  "errorCode_of_num n = (if n < length error_codes then Some (error_codes ! n) else None)"

text \<open>
  \<open>errorCodeToStr\<close> on the numeric value; \<open>to_string\<close> stands for
  \<open>folly::to<std::string>\<close>, used for values outside the table.
\<close>

definition errorCodeToStr :: "(nat \<Rightarrow> string) \<Rightarrow> nat \<Rightarrow> string" where
  "errorCodeToStr to_string code =
     (if code < length kErrorToStr then kErrorToStr ! code else to_string code)"

lemma length_error_codes [simp]: "length error_codes = 34" "length kErrorToStr = 34"
  by (simp_all add: error_codes_def kErrorToStr_def)

lemma errorCode_num_less: "errorCode_num e < 34"
  by (cases e) simp_all

lemma error_codes_nth [simp]: "error_codes ! errorCode_num e = e"
  by (cases e) (simp_all add: error_codes_def)

lemma errorCode_of_num_num [simp]: "errorCode_of_num (errorCode_num e) = Some e"
  by (simp add: errorCode_of_num_def errorCode_num_less)

lemma errorCode_num_inject [simp]: "errorCode_num a = errorCode_num b \<longleftrightarrow> a = b"
  by (metis error_codes_nth)

instantiation ErrorCode :: linorder
begin

definition less_eq_ErrorCode :: "ErrorCode \<Rightarrow> ErrorCode \<Rightarrow> bool" where
  "a \<le> b \<longleftrightarrow> errorCode_num a \<le> errorCode_num b"

definition less_ErrorCode :: "ErrorCode \<Rightarrow> ErrorCode \<Rightarrow> bool" where
  "a < b \<longleftrightarrow> errorCode_num a < errorCode_num b"

instance
  by standard (auto simp: less_eq_ErrorCode_def less_ErrorCode_def)

end

definition getMoreInterestingError :: "ErrorCode \<Rightarrow> ErrorCode \<Rightarrow> ErrorCode" where
  "getMoreInterestingError err1 err2 = max err1 err2"

lemma OK_least [simp]: "OK \<le> e"
  by (simp add: less_eq_ErrorCode_def)

lemma getMoreInterestingError_OK [simp]:
  "getMoreInterestingError OK e = e" "getMoreInterestingError e OK = e"
  "getMoreInterestingError a b = OK \<longleftrightarrow> a = OK \<and> b = OK"
  by (auto simp: getMoreInterestingError_def max_def antisym)

lemma errorCodeToStr_inj:
  "errorCodeToStr f (errorCode_num a) = errorCodeToStr f (errorCode_num b) \<Longrightarrow> a = b"
proof -
  have "distinct kErrorToStr" by (simp add: kErrorToStr_def)
  then show "errorCodeToStr f (errorCode_num a) = errorCodeToStr f (errorCode_num b) \<Longrightarrow> a = b"
    by (simp add: errorCodeToStr_def errorCode_num_less nth_eq_iff_index_eq)
qed

end
