(* ===== verification/File_Chunks.thy ===== *)
theory File_Chunks
  imports Wdt_Prelude
begin

text \<open>
  \<open>struct Interval\<close> and \<open>class FileChunksInfo\<close> of \<open>Protocol.h\<close> and
  \<open>Protocol.cpp\<close>: the byte ranges of a file that were already received, how
  they are merged, and which ranges remain to be sent.  A chunk list denotes the
  set of file offsets it covers.
\<close>

section \<open>Data and operations\<close>

record Interval =
  chunkStart :: int
  chunkEnd :: int

text \<open>
  The two-argument constructor checks \<open>end_ >= start_\<close>; the code below only calls
  it under guards that imply the check.
\<close>

definition mkInterval :: "int \<Rightarrow> int \<Rightarrow> Interval" where
  "mkInterval s e = \<lparr>chunkStart = s, chunkEnd = e\<rparr>"

definition chunkSize :: "Interval \<Rightarrow> int" where
  "chunkSize c = chunkEnd c - chunkStart c"

record FileChunksInfo =
  fc_seqId :: int
  fc_fileName :: string
  fc_fileSize :: int
  fc_chunks :: "Interval list"

definition getTotalChunkSize :: "FileChunksInfo \<Rightarrow> int" where
  "getTotalChunkSize fci = fold (\<lambda>chunk total. total + chunkSize chunk) (fc_chunks fci) 0"

definition addChunk :: "Interval \<Rightarrow> FileChunksInfo \<Rightarrow> FileChunksInfo" where
  "addChunk chunk fci = fci\<lparr>fc_chunks := fc_chunks fci @ [chunk]\<rparr>"

fun merge_loop :: "Interval list \<Rightarrow> Interval \<Rightarrow> Interval list \<Rightarrow> Interval list" where
  "merge_loop merged cur [] = merged @ [cur]"
| "merge_loop merged cur (c # cs) =
     (if chunkStart c > chunkEnd cur then merge_loop (merged @ [cur]) c cs
      else merge_loop merged (cur\<lparr>chunkEnd := max (chunkEnd cur) (chunkEnd c)\<rparr>) cs)"

text \<open>\<open>Interval::operator<\<close> compares start offsets only.\<close>

definition merge_chunk_list :: "Interval list \<Rightarrow> Interval list" where
  "merge_chunk_list chunks =
     (case sort_key chunkStart chunks of
        [] \<Rightarrow> []
      | c # cs \<Rightarrow> merge_loop [] c cs)"

definition mergeChunks :: "FileChunksInfo \<Rightarrow> FileChunksInfo" where
  "mergeChunks fci = fci\<lparr>fc_chunks := merge_chunk_list (fc_chunks fci)\<rparr>"

fun remaining_loop :: "int \<Rightarrow> Interval list \<Rightarrow> Interval list \<times> int" where
  "remaining_loop curStart [] = ([], curStart)"
| "remaining_loop curStart (c # cs) =
     (case remaining_loop (chunkEnd c) cs of (rest, fin) \<Rightarrow>
       (if chunkStart c > curStart then mkInterval curStart (chunkStart c) # rest else rest, fin))"

definition remaining_chunk_list :: "Interval list \<Rightarrow> int \<Rightarrow> Interval list" where
  "remaining_chunk_list chunks curFileSize =
     (case remaining_loop 0 chunks of (rs, curStart) \<Rightarrow>
       if curStart < curFileSize then rs @ [mkInterval curStart curFileSize] else rs)"

definition getRemainingChunks :: "FileChunksInfo \<Rightarrow> int \<Rightarrow> Interval list" where
  "getRemainingChunks fci curFileSize = remaining_chunk_list (fc_chunks fci) curFileSize"

section \<open>Meaning of chunk lists\<close>

definition valid_chunk :: "Interval \<Rightarrow> bool" where
  "valid_chunk c \<longleftrightarrow> chunkStart c \<le> chunkEnd c"

definition chunk_set :: "Interval \<Rightarrow> int set" where
  "chunk_set c = {chunkStart c ..< chunkEnd c}"

definition covered :: "Interval list \<Rightarrow> int set" where
  "covered cs = (\<Union>c \<in> set cs. chunk_set c)"

text \<open>Ordered by start, pairwise apart by at least one byte.\<close>

fun separated :: "Interval list \<Rightarrow> bool" where
  "separated [] = True"
| "separated [c] = valid_chunk c"
| "separated (c # d # cs) = (valid_chunk c \<and> chunkEnd c < chunkStart d \<and> separated (d # cs))"

definition total_size :: "Interval list \<Rightarrow> int" where
  "total_size cs = sum_list (map chunkSize cs)"

lemma covered_simps [simp]:
  "covered [] = {}" "covered (c # cs) = chunk_set c \<union> covered cs"
  "covered (cs @ ds) = covered cs \<union> covered ds"
  by (auto simp: covered_def)

lemma covered_sort_key [simp]: "covered (sort_key f cs) = covered cs"
  by (simp add: covered_def)

lemma finite_covered [simp]: "finite (covered cs)"
  by (simp add: covered_def chunk_set_def)

lemma mkInterval_simps [simp]:
  "chunkStart (mkInterval s e) = s" "chunkEnd (mkInterval s e) = e"
  by (simp_all add: mkInterval_def)

lemma total_size_simps [simp]:
  "total_size [] = 0" "total_size (c # cs) = chunkSize c + total_size cs"
  "total_size (cs @ ds) = total_size cs + total_size ds"
  by (simp_all add: total_size_def)

lemma fold_chunkSize:
  "fold (\<lambda>chunk total. total + chunkSize chunk) cs n = n + total_size cs"
  by (induction cs arbitrary: n) auto

lemma getTotalChunkSize_eq: "getTotalChunkSize fci = total_size (fc_chunks fci)"
  by (simp add: getTotalChunkSize_def fold_chunkSize)

section \<open>Merging\<close>

lemma separated_append:
  "separated (xs @ [c]) \<Longrightarrow> chunkEnd c < chunkStart d \<Longrightarrow> valid_chunk d \<Longrightarrow> separated (xs @ [c, d])"
  by (induction xs rule: separated.induct) auto

lemma separated_extend:
  "separated (xs @ [c]) \<Longrightarrow> chunkEnd c \<le> e \<Longrightarrow> separated (xs @ [c\<lparr>chunkEnd := e\<rparr>])"
  by (induction xs rule: separated.induct) (auto simp: valid_chunk_def)

lemma merge_loop_separated:
  assumes "separated (merged @ [cur])" "\<forall>c \<in> set cs. valid_chunk c"
  shows "separated (merge_loop merged cur cs)"
  using assms
proof (induction merged cur cs rule: merge_loop.induct)
  case (2 merged cur c cs)
  have "separated (merged @ [cur\<lparr>chunkEnd := max (chunkEnd cur) (chunkEnd c)\<rparr>])"
    using 2(3) by (intro separated_extend) simp_all
  then show ?case using 2 by (auto intro: separated_append)
qed simp

lemma merge_loop_covered:
  assumes "valid_chunk cur" "\<forall>c \<in> set cs. valid_chunk c \<and> chunkStart cur \<le> chunkStart c"
    and "sorted (map chunkStart cs)"
  shows "covered (merge_loop merged cur cs) = covered merged \<union> chunk_set cur \<union> covered cs"
  using assms
proof (induction merged cur cs rule: merge_loop.induct)
  case (2 merged cur c cs)
  show ?case
  proof (cases "chunkStart c > chunkEnd cur")
    case True
    then show ?thesis using 2 by auto
  next
    case False
    let ?cur = "cur\<lparr>chunkEnd := max (chunkEnd cur) (chunkEnd c)\<rparr>"
    have "chunk_set ?cur = chunk_set cur \<union> chunk_set c"
      using False 2(3,4) by (auto simp: chunk_set_def valid_chunk_def max_def)
    moreover have "covered (merge_loop merged ?cur cs) = covered merged \<union> chunk_set ?cur \<union> covered cs"
      using False 2 by (intro 2(2)) (auto simp: valid_chunk_def)
    ultimately show ?thesis using False by auto
  qed
qed simp

lemma sort_key_cases:
  assumes "\<forall>c \<in> set cs. valid_chunk c"
  obtains "sort_key chunkStart cs = []" "cs = []"
  | d ds where "sort_key chunkStart cs = d # ds" "\<forall>c \<in> set (d # ds). valid_chunk c"
      "sorted (map chunkStart (d # ds))" "covered cs = covered (d # ds)"
proof (cases "sort_key chunkStart cs")
  case Nil
  then show ?thesis using that(1) by (metis set_empty set_sort)
next
  case (Cons d ds)
  then show ?thesis using that(2) [OF Cons] assms
    by (metis set_sort sorted_sort_key covered_sort_key)
qed

lemma merge_chunk_list_separated:
  assumes "\<forall>c \<in> set cs. valid_chunk c"
  shows "separated (merge_chunk_list cs)"
  using assms by (cases rule: sort_key_cases)
    (simp_all add: merge_chunk_list_def merge_loop_separated)

lemma merge_chunk_list_covered:
  assumes "\<forall>c \<in> set cs. valid_chunk c"
  shows "covered (merge_chunk_list cs) = covered cs"
  using assms by (cases rule: sort_key_cases)
    (simp_all add: merge_chunk_list_def merge_loop_covered)

text \<open>The order \<open>std::sort\<close> leaves chunks with equal start offsets in does not matter.\<close>

lemma merge_loop_tie:
  assumes "chunkStart x = chunkStart y" "valid_chunk x" "valid_chunk y"
  shows "merge_loop merged cur (x # y # cs) = merge_loop merged cur (y # x # cs)"
proof -
  have e: "x\<lparr>chunkEnd := m\<rparr> = y\<lparr>chunkEnd := m\<rparr>" for m
    using assms(1) by (cases x; cases y) simp
  show ?thesis using assms
    by (auto simp: e valid_chunk_def max.commute max.left_commute max.assoc)
qed

section \<open>Sizes of separated lists\<close>

lemma separated_Cons:
  "separated (c # cs) \<longleftrightarrow>
     valid_chunk c \<and> separated cs \<and> (\<forall>d \<in> set cs. chunkEnd c < chunkStart d)"
proof (induction cs arbitrary: c)
  case (Cons d ds)
  show ?case using Cons [of d] by (fastforce simp: valid_chunk_def)
qed simp

lemma separated_disjoint:
  assumes "separated (c # cs)"
  shows "chunk_set c \<inter> covered cs = {}"
  using assms by (fastforce simp: separated_Cons covered_def chunk_set_def)

lemma total_size_separated:
  assumes "separated cs"
  shows "total_size cs = int (card (covered cs))"
  using assms
proof (induction cs)
  case (Cons c cs)
  have "card (covered (c # cs)) = card (chunk_set c) + card (covered cs)"
    using separated_disjoint [OF Cons.prems] by (simp add: card_Un_disjoint chunk_set_def)
  then show ?case using Cons
    by (simp add: separated_Cons chunkSize_def chunk_set_def valid_chunk_def)
qed simp

section \<open>Remaining chunks\<close>

fun ascending :: "Interval list \<Rightarrow> bool" where
  "ascending [] = True"
| "ascending (c # cs) =
     (chunkStart c < chunkEnd c \<and> (\<forall>d \<in> set cs. chunkEnd c \<le> chunkStart d) \<and> ascending cs)"

lemma ascending_snoc:
  "ascending (cs @ [d]) \<longleftrightarrow>
     ascending cs \<and> chunkStart d < chunkEnd d \<and> (\<forall>c \<in> set cs. chunkEnd c \<le> chunkStart d)"
  by (induction cs) auto

lemma total_size_ascending:
  "ascending cs \<Longrightarrow> total_size cs = int (card (covered cs))"
proof (induction cs)
  case (Cons c cs)
  have "chunk_set c \<inter> covered cs = {}"
    using Cons.prems by (fastforce simp: covered_def chunk_set_def)
  then have "card (covered (c # cs)) = card (chunk_set c) + card (covered cs)"
    by (simp add: card_Un_disjoint chunk_set_def)
  then show ?case using Cons by (simp add: chunkSize_def chunk_set_def)
qed simp

definition gaps_of :: "int \<Rightarrow> Interval list \<Rightarrow> Interval list \<Rightarrow> int \<Rightarrow> bool" where
  "gaps_of lo cs rs hi \<longleftrightarrow> lo \<le> hi \<and> covered cs \<subseteq> {lo ..< hi} \<and> ascending rs \<and>
     covered rs = {lo ..< hi} - covered cs \<and> (\<forall>r \<in> set rs. lo \<le> chunkStart r \<and> chunkEnd r \<le> hi)"

lemma gaps_of_step:
  assumes "gaps_of (chunkEnd c) cs rs hi" "valid_chunk c" "lo \<le> chunkStart c"
  shows "gaps_of lo (c # cs)
           (if chunkStart c > lo then mkInterval lo (chunkStart c) # rs else rs) hi"
  using assms by (fastforce simp: gaps_of_def chunk_set_def valid_chunk_def)

lemma remaining_loop_correct:
  assumes "separated cs" "\<forall>c \<in> set cs. lo \<le> chunkStart c"
    and "remaining_loop lo cs = (rs, hi)"
  shows "gaps_of lo cs rs hi \<and> (hi = lo \<or> hi \<in> chunkEnd ` set cs)"
  using assms
proof (induction lo cs arbitrary: rs hi rule: remaining_loop.induct)
  case (1 lo)
  then show ?case by (simp add: gaps_of_def)
next
  case (2 lo c cs)
  obtain rs' hi' where r: "remaining_loop (chunkEnd c) cs = (rs', hi')"
    by (cases "remaining_loop (chunkEnd c) cs")
  have "gaps_of (chunkEnd c) cs rs' hi' \<and> (hi' = chunkEnd c \<or> hi' \<in> chunkEnd ` set cs)"
    using 2(2) r by (intro 2(1)) (auto simp: separated_Cons less_imp_le)
  then show ?case using 2(2-4) r gaps_of_step [of c cs rs' hi' lo]
    by (auto simp: separated_Cons)
qed

lemma remaining_chunk_list_correct:
  assumes "separated cs" "\<forall>c \<in> set cs. 0 \<le> chunkStart c \<and> chunkEnd c \<le> fsize" "0 \<le> fsize"
  shows "gaps_of 0 cs (remaining_chunk_list cs fsize) fsize"
proof -
  obtain rs hi where r: "remaining_loop 0 cs = (rs, hi)" by (cases "remaining_loop 0 cs")
  have g: "gaps_of 0 cs rs hi" "hi = 0 \<or> hi \<in> chunkEnd ` set cs"
    using remaining_loop_correct [OF assms(1) _ r] assms(2) by auto
  then have "hi \<le> fsize" using assms by auto
  with g r show ?thesis
    by (auto simp: remaining_chunk_list_def gaps_of_def ascending_snoc chunk_set_def)
qed

section \<open>Properties\<close>

text \<open>C23: after \<open>mergeChunks\<close> the chunks are ordered and pairwise apart, they
  cover exactly the offsets the original chunks covered, name, sequence id and
  file size are untouched, and \<open>getTotalChunkSize\<close> is the number of distinct
  bytes covered.\<close>

theorem mergeChunks_correct:
  assumes "\<forall>c \<in> set (fc_chunks fci). chunkStart c \<le> chunkEnd c"
  shows "separated (fc_chunks (mergeChunks fci)) \<and>
         covered (fc_chunks (mergeChunks fci)) = covered (fc_chunks fci) \<and>
         (mergeChunks fci)\<lparr>fc_chunks := fc_chunks fci\<rparr> = fci \<and>
         getTotalChunkSize (mergeChunks fci) = int (card (covered (fc_chunks fci)))"
proof -
  have v: "\<forall>c \<in> set (fc_chunks fci). valid_chunk c" using assms by (simp add: valid_chunk_def)
  show ?thesis
    using merge_chunk_list_separated [OF v] merge_chunk_list_covered [OF v]
    by (simp add: mergeChunks_def getTotalChunkSize_eq total_size_separated)
qed

theorem mergeChunks_correct_witness:
  "fc_chunks (mergeChunks \<lparr>fc_seqId = 1, fc_fileName = ''f'', fc_fileSize = 9,
      fc_chunks = [mkInterval 4 6, mkInterval 0 2, mkInterval 2 3]\<rparr>) = [mkInterval 0 3, mkInterval 4 6]
   \<and> covered [mkInterval 0 3, mkInterval 4 6]
     = covered [mkInterval 4 6, mkInterval 0 2, mkInterval 2 3]"
proof -
  let ?f = "\<lparr>fc_seqId = 1, fc_fileName = ''f'', fc_fileSize = 9,
      fc_chunks = [mkInterval 4 6, mkInterval 0 2, mkInterval 2 3]\<rparr>"
  have "fc_chunks (mergeChunks ?f) = [mkInterval 0 3, mkInterval 4 6]"
    by (simp add: mergeChunks_def merge_chunk_list_def mkInterval_def)
  then show ?thesis using mergeChunks_correct [of ?f] by simp
qed

text \<open>C20: for a merged chunk list inside the file, \<open>getRemainingChunks\<close> returns
  non-empty, ordered, non-overlapping ranges that cover exactly the bytes of the
  file no chunk covers; their total size and the received size add up to the
  file size.\<close>

theorem getRemainingChunks_complement:
  assumes "separated (fc_chunks fci)" "0 \<le> fsize"
    and "\<forall>c \<in> set (fc_chunks fci). 0 \<le> chunkStart c \<and> chunkEnd c \<le> fsize"
  shows "ascending (getRemainingChunks fci fsize) \<and>
         covered (getRemainingChunks fci fsize) = {0 ..< fsize} - covered (fc_chunks fci) \<and>
         total_size (getRemainingChunks fci fsize) + getTotalChunkSize fci = fsize"
proof -
  let ?rs = "getRemainingChunks fci fsize" and ?cs = "fc_chunks fci"
  have g: "gaps_of 0 ?cs ?rs fsize"
    using remaining_chunk_list_correct [OF assms(1,3,2)] by (simp add: getRemainingChunks_def)
  then have "card (covered ?rs) + card (covered ?cs) = card {0 ..< fsize}"
    by (simp add: gaps_of_def card_Diff_subset card_mono)
       (metis card_mono finite_atLeastLessThan_int card_atLeastLessThan_int diff_zero le_add_diff_inverse2)
  then have "int (card (covered ?rs)) + int (card (covered ?cs)) = fsize"
    using assms(2) by simp
  then show ?thesis using g assms(1)
    by (simp add: gaps_of_def total_size_ascending getTotalChunkSize_eq total_size_separated)
qed

theorem getRemainingChunks_complement_witness:
  "\<exists>fci. fc_chunks fci = [mkInterval 2 3, mkInterval 5 8] \<and>
     getRemainingChunks fci 9 = [mkInterval 0 2, mkInterval 3 5, mkInterval 8 9] \<and>
     covered (getRemainingChunks fci 9) = {0 ..< 9} - covered (fc_chunks fci)"
proof (intro exI conjI)
  let ?f = "\<lparr>fc_seqId = 1, fc_fileName = ''f'', fc_fileSize = 9,
      fc_chunks = [mkInterval 2 3, mkInterval 5 8]\<rparr>"
  show "fc_chunks ?f = [mkInterval 2 3, mkInterval 5 8]" by simp
  show "getRemainingChunks ?f 9 = [mkInterval 0 2, mkInterval 3 5, mkInterval 8 9]"
    by (simp add: getRemainingChunks_def remaining_chunk_list_def)
  show "covered (getRemainingChunks ?f 9) = {0 ..< 9} - covered (fc_chunks ?f)"
    using getRemainingChunks_complement [of ?f 9] by (simp add: valid_chunk_def)
qed

end
