(* ===== verification/Protocol_Codec.thy ===== *)
theory Protocol_Codec
  imports Serialization Error_Codes File_Chunks
begin

text \<open>
  The wire format of \<open>Protocol.h\<close> and \<open>Protocol.cpp\<close>: command bytes, feature
  versions, size constants, and the encoder and decoder of every command
  payload.  Encoders take the buffer, its size and the offset; decoders
  run on the byte range \<open>[off, max)\<close> of the source buffer.
\<close>

section \<open>Versions, commands and sizes\<close>

definition RECEIVER_PROGRESS_REPORT_VERSION :: int where "RECEIVER_PROGRESS_REPORT_VERSION = 11"
definition CHECKSUM_VERSION :: int where "CHECKSUM_VERSION = 12"
definition DOWNLOAD_RESUMPTION_VERSION :: int where "DOWNLOAD_RESUMPTION_VERSION = 13"
definition SETTINGS_FLAG_VERSION :: int where "SETTINGS_FLAG_VERSION = 12"
definition HEADER_FLAG_AND_PREV_SEQ_ID_VERSION :: int where
  "HEADER_FLAG_AND_PREV_SEQ_ID_VERSION = 13"
definition CHECKPOINT_OFFSET_VERSION :: int where "CHECKPOINT_OFFSET_VERSION = 16"
definition CHECKPOINT_SEQ_ID_VERSION :: int where "CHECKPOINT_SEQ_ID_VERSION = 21"
definition ENCRYPTION_V1_VERSION :: int where "ENCRYPTION_V1_VERSION = 23"
definition INCREMENTAL_TAG_VERIFICATION_VERSION :: int where
  "INCREMENTAL_TAG_VERIFICATION_VERSION = 25"
definition DELETE_CMD_VERSION :: int where "DELETE_CMD_VERSION = 26"
definition VARINT_CHANGE :: int where "VARINT_CHANGE = 27"
definition HEART_BEAT_VERSION :: int where "HEART_BEAT_VERSION = 29"
definition PERIODIC_ENCRYPTION_IV_CHANGE_VERSION :: int where
  "PERIODIC_ENCRYPTION_IV_CHANGE_VERSION = 30"

lemmas version_defs =
  RECEIVER_PROGRESS_REPORT_VERSION_def CHECKSUM_VERSION_def DOWNLOAD_RESUMPTION_VERSION_def
  SETTINGS_FLAG_VERSION_def HEADER_FLAG_AND_PREV_SEQ_ID_VERSION_def CHECKPOINT_OFFSET_VERSION_def
  CHECKPOINT_SEQ_ID_VERSION_def ENCRYPTION_V1_VERSION_def INCREMENTAL_TAG_VERIFICATION_VERSION_def
  DELETE_CMD_VERSION_def VARINT_CHANGE_def HEART_BEAT_VERSION_def
  PERIODIC_ENCRYPTION_IV_CHANGE_VERSION_def

datatype CMD_MAGIC = DONE_CMD | FILE_CMD | WAIT_CMD | ERR_CMD | SETTINGS_CMD | ABORT_CMD
  | CHUNKS_CMD | ACK_CMD | SIZE_CMD | FOOTER_CMD | LOCAL_CHECKPOINT_CMD | ENCRYPTION_CMD
  | HEART_BEAT_CMD

fun cmd_byte :: "CMD_MAGIC \<Rightarrow> byte" where
  "cmd_byte DONE_CMD = 0x44"
| "cmd_byte FILE_CMD = 0x4C"
| "cmd_byte WAIT_CMD = 0x57"
| "cmd_byte ERR_CMD = 0x45"
| "cmd_byte SETTINGS_CMD = 0x53"
| "cmd_byte ABORT_CMD = 0x41"
| "cmd_byte CHUNKS_CMD = 0x43"
| "cmd_byte ACK_CMD = 0x61"
| "cmd_byte SIZE_CMD = 0x5A"
| "cmd_byte FOOTER_CMD = 0x46"
| "cmd_byte LOCAL_CHECKPOINT_CMD = 0x01"
| "cmd_byte ENCRYPTION_CMD = 0x65"
| "cmd_byte HEART_BEAT_CMD = 0x48"

definition PATH_MAX :: int where "PATH_MAX = 4096"
definition kMaxTransferIdLength :: int where "kMaxTransferIdLength = 1024"
definition kMaxHeader :: int where "kMaxHeader = 1 + 2 + PATH_MAX + 4 * 10 + 1 + 10"
definition kMinBufLength :: int where "kMinBufLength = 256"
definition kMaxDone :: int where "kMaxDone = 2 + 2 * 10"
definition kMaxSize :: int where "kMaxSize = 1 + 10"
definition kMaxSettings :: int where "kMaxSettings = 1 + 3 * 10 + kMaxTransferIdLength + 1"
definition kMaxFooter :: int where "kMaxFooter = 1 + 10"
definition kChunksCmdLen :: int where "kChunksCmdLen = 2 * 8"
definition kMaxChunkEncodeLen :: int where "kMaxChunkEncodeLen = 20"
definition kAbortLength :: int where "kAbortLength = 4 + 1 + 8"
definition kMaxVersion :: int where "kMaxVersion = 10"
definition kAESBlockSize :: int where "kAESBlockSize = 16"
definition kEncryptionCmdLen :: int where "kEncryptionCmdLen = 1 + 1 + 1 + kAESBlockSize + 4"

lemmas size_defs = PATH_MAX_def kMaxTransferIdLength_def kMaxHeader_def kMinBufLength_def
  kMaxDone_def kMaxSize_def kMaxSettings_def kMaxFooter_def kChunksCmdLen_def
  kMaxChunkEncodeLen_def kAbortLength_def kMaxVersion_def kAESBlockSize_def kEncryptionCmdLen_def

definition negotiateProtocol :: "int \<Rightarrow> int \<Rightarrow> int" where
  "negotiateProtocol requestedProtocolVersion curProtocolVersion =
     (if requestedProtocolVersion < 10 then 0
      else min curProtocolVersion requestedProtocolVersion)"

section \<open>Payload data\<close>

record Checkpoint =
  cp_port :: int
  cp_numBlocks :: int
  cp_lastBlockSeqId :: int
  cp_lastBlockOffset :: int
  cp_lastBlockReceivedBytes :: int
  cp_hasSeqId :: bool

definition newCheckpoint :: "int \<Rightarrow> Checkpoint" where
  "newCheckpoint port = \<lparr>cp_port = port, cp_numBlocks = 0, cp_lastBlockSeqId = 0,
     cp_lastBlockOffset = 0, cp_lastBlockReceivedBytes = 0, cp_hasSeqId = False\<rparr>"

definition hasPartialBlockInfo :: "Checkpoint \<Rightarrow> bool" where
  "hasPartialBlockInfo cp \<longleftrightarrow>
     cp_hasSeqId cp \<and> cp_lastBlockSeqId cp \<ge> 0 \<and> cp_lastBlockReceivedBytes cp > 0"

definition resetLastBlockDetails :: "Checkpoint \<Rightarrow> Checkpoint" where
  "resetLastBlockDetails cp =
     cp\<lparr>cp_lastBlockReceivedBytes := 0, cp_lastBlockSeqId := 0, cp_lastBlockOffset := 0\<rparr>"

definition setLastBlockDetails :: "int \<Rightarrow> int \<Rightarrow> int \<Rightarrow> Checkpoint \<Rightarrow> Checkpoint" where
  "setLastBlockDetails seqId off receivedBytes cp =
     cp\<lparr>cp_lastBlockSeqId := seqId, cp_lastBlockOffset := off,
        cp_lastBlockReceivedBytes := receivedBytes\<rparr>"

definition incrNumBlocks :: "Checkpoint \<Rightarrow> Checkpoint" where
  "incrNumBlocks cp = cp\<lparr>cp_numBlocks := cp_numBlocks cp + 1\<rparr>"

text \<open>A decoded status of 5, 6 or 7 is no enumerator; \<open>OTHER_STATUS\<close> keeps its value.\<close>

datatype FileAllocationStatus = NOT_EXISTS | EXISTS_CORRECT_SIZE | EXISTS_TOO_LARGE
  | EXISTS_TOO_SMALL | TO_BE_DELETED | OTHER_STATUS byte

fun status_byte :: "FileAllocationStatus \<Rightarrow> byte" where
  "status_byte NOT_EXISTS = 0"
| "status_byte EXISTS_CORRECT_SIZE = 1"
| "status_byte EXISTS_TOO_LARGE = 2"
| "status_byte EXISTS_TOO_SMALL = 3"
| "status_byte TO_BE_DELETED = 4"
| "status_byte (OTHER_STATUS b) = b"

definition status_of_byte :: "byte \<Rightarrow> FileAllocationStatus" where
  "status_of_byte b =
     (if b = 0 then NOT_EXISTS else if b = 1 then EXISTS_CORRECT_SIZE
      else if b = 2 then EXISTS_TOO_LARGE else if b = 3 then EXISTS_TOO_SMALL
      else if b = 4 then TO_BE_DELETED else OTHER_STATUS b)"

record BlockDetails =
  bd_fileName :: string
  bd_seqId :: int
  bd_fileSize :: int
  bd_offset :: int
  bd_dataSize :: int
  bd_allocationStatus :: FileAllocationStatus
  bd_prevSeqId :: int

record Settings =
  st_readTimeoutMillis :: int
  st_writeTimeoutMillis :: int
  st_transferId :: string
  st_enableChecksum :: bool
  st_sendFileChunks :: bool
  st_blockModeDisabled :: bool
  st_enableHeartBeat :: bool

section \<open>Encoders\<close>

text \<open>\<open>dest[off++] = b\<close>, and the same after the check \<open>off >= max\<close>.\<close>

definition put_byte :: "byte \<Rightarrow> encoder" where
  "put_byte b = (\<lambda>sz dest off. (Ok (), dest[nat off := b], off + 1))"

definition encodeByte :: "byte \<Rightarrow> encoder" where
  "encodeByte b = (\<lambda>sz dest off.
     if off \<ge> sz then (Fail, dest, off) else put_byte b sz dest off)"

definition checked_max :: "encoder \<Rightarrow> encoder" where
  "checked_max e = (\<lambda>max dest off. if max < 0 then (Abort, dest, off) else e max dest off)"

definition getMaxLocalCheckpointLength :: "int \<Rightarrow> int" where
  "getMaxLocalCheckpointLength protocolVersion =
     10 + 2 * 10
     + (if protocolVersion \<ge> CHECKPOINT_OFFSET_VERSION then 10 else 0)
     + (if protocolVersion \<ge> CHECKPOINT_SEQ_ID_VERSION then 2 * 10 else 0)"

definition encodeHeader :: "int \<Rightarrow> BlockDetails \<Rightarrow> encoder" where
  "encodeHeader senderProtocolVersion bd = checked_max (enc_all
     ([encodeString (bd_fileName bd),
       encodeVarI64C (bd_seqId bd),
       encodeVarI64C (bd_dataSize bd),
       encodeVarI64C (bd_offset bd),
       encodeVarI64C (bd_fileSize bd)] @
      (if senderProtocolVersion \<ge> HEADER_FLAG_AND_PREV_SEQ_ID_VERSION
       then encodeByte (status_byte (bd_allocationStatus bd)) #
            (if status_byte (bd_allocationStatus bd) = status_byte EXISTS_TOO_SMALL
              \<or> status_byte (bd_allocationStatus bd) = status_byte EXISTS_TOO_LARGE
             then [encodeVarI64C (bd_prevSeqId bd)] else [])
       else [])))"

definition encodeCheckpoint :: "int \<Rightarrow> Checkpoint \<Rightarrow> encoder" where
  "encodeCheckpoint protocolVersion cp = enc_all
     ([encodeVarI64C (cp_port cp), encodeVarI64C (cp_numBlocks cp)] @
      (if protocolVersion \<ge> CHECKPOINT_OFFSET_VERSION
       then [encodeVarI64C (cp_lastBlockReceivedBytes cp)] else []) @
      (if protocolVersion \<ge> CHECKPOINT_SEQ_ID_VERSION
       then [encodeVarI64C (cp_lastBlockSeqId cp), encodeVarI64C (cp_lastBlockOffset cp)] else []))"

definition encodeCheckpoints :: "int \<Rightarrow> Checkpoint list \<Rightarrow> encoder" where
  "encodeCheckpoints protocolVersion checkpoints = checked_max
     (enc_seq (encodeVarU64 (word_of_nat (length checkpoints)))
              (enc_all (map (encodeCheckpoint protocolVersion) checkpoints)))"

definition encodeDone :: "int \<Rightarrow> int \<times> int \<Rightarrow> encoder" where
  "encodeDone protocolVersion = (\<lambda>(numBlocks, bytesSent). enc_all
     (encodeVarI64C numBlocks #
      (if protocolVersion \<ge> CHECKPOINT_OFFSET_VERSION then [encodeVarI64C bytesSent] else [])))"

definition encodeSize :: "int \<Rightarrow> encoder" where
  "encodeSize totalNumBytes = encodeVarI64C totalNumBytes"

definition encodeAbort :: "int \<Rightarrow> ErrorCode \<Rightarrow> int \<Rightarrow> encoder" where
  "encodeAbort protocolVersion errCode checkpoint = (\<lambda>max dest off.
     if off + kAbortLength > max then (Fail, dest, off)
     else enc_all [encodeInt32FixedLength protocolVersion,
                   put_byte (word_of_nat (errorCode_num errCode)),
                   encodeInt64FixedLength checkpoint] max dest off)"

definition encodeChunksCmd :: "int \<times> int \<Rightarrow> encoder" where
  "encodeChunksCmd = (\<lambda>(bufSize, numFiles).
     enc_all [encodeInt64FixedLength bufSize, encodeInt64FixedLength numFiles])"

definition encodeChunkInfo :: "Interval \<Rightarrow> encoder" where
  "encodeChunkInfo chunk =
     enc_all [encodeVarI64C (chunkStart chunk), encodeVarI64C (chunkEnd chunk)]"

definition encodeFileChunksInfo :: "FileChunksInfo \<Rightarrow> encoder" where
  "encodeFileChunksInfo fci = enc_all
     ([encodeVarI64C (fc_seqId fci), encodeString (fc_fileName fci),
       encodeVarI64C (fc_fileSize fci), encodeVarI64C (int (length (fc_chunks fci)))]
      @ map encodeChunkInfo (fc_chunks fci))"

definition maxEncodeLen :: "FileChunksInfo \<Rightarrow> int" where
  "maxEncodeLen fci = 10 + 2 + int (length (fc_fileName fci)) + 10 + 10
     + int (length (fc_chunks fci)) * kMaxChunkEncodeLen"

text \<open>
  The loop over \<open>fileChunksInfoList[startIndex ..]\<close>; the result of
  \<open>encodeFileChunksInfo\<close> is ignored except for a failed check.
\<close>

fun encode_list_loop ::
  "int \<Rightarrow> int \<Rightarrow> int \<Rightarrow> FileChunksInfo list \<Rightarrow> bytes \<Rightarrow> int \<Rightarrow> int outcome \<times> bytes \<times> int" where
  "encode_list_loop bufSize oldOffset numEncoded [] dest off = (Ok numEncoded, dest, off)"
| "encode_list_loop bufSize oldOffset numEncoded (fci # fcis) dest off =
     (if maxEncodeLen fci + oldOffset > bufSize
      then encode_list_loop bufSize oldOffset numEncoded fcis dest off
      else if maxEncodeLen fci + off \<ge> bufSize then (Ok numEncoded, dest, off)
      else case encodeFileChunksInfo fci bufSize dest off of
             (Abort, dest', off') \<Rightarrow> (Abort, dest', off')
           | (_, dest', off') \<Rightarrow>
               encode_list_loop bufSize oldOffset (numEncoded + 1) fcis dest' off')"

definition encodeFileChunksInfoList ::
  "int \<Rightarrow> int \<Rightarrow> FileChunksInfo list \<Rightarrow> bytes \<Rightarrow> int \<Rightarrow> int outcome \<times> bytes \<times> int" where
  "encodeFileChunksInfoList bufSize startIndex fcis dest off =
     encode_list_loop bufSize off 0 (drop (nat startIndex) fcis) dest off"

definition settings_flags :: "Settings \<Rightarrow> byte" where
  "settings_flags s =
     (if st_enableChecksum s then 1 else 0)
     OR (if st_sendFileChunks s then push_bit 1 1 else 0)
     OR (if st_blockModeDisabled s then push_bit 2 1 else 0)
     OR (if st_enableHeartBeat s then push_bit 3 1 else 0)"

definition encodeSettings :: "int \<Rightarrow> Settings \<Rightarrow> encoder" where
  "encodeSettings senderProtocolVersion s = enc_all
     ([encodeVarI64C senderProtocolVersion,
       encodeVarI64C (st_readTimeoutMillis s),
       encodeVarI64C (st_writeTimeoutMillis s),
       encodeString (st_transferId s)] @
      (if senderProtocolVersion \<ge> SETTINGS_FLAG_VERSION
       then [encodeByte (settings_flags s)] else []))"

definition encodeEncryptionSettings :: "int \<times> string \<times> int \<Rightarrow> encoder" where
  "encodeEncryptionSettings = (\<lambda>(encryptionType, iv, tagInterval). enc_all
     [encodeVarI64C encryptionType, encodeString iv, encodeInt32FixedLength tagInterval])"

definition encodeFooter :: "int \<Rightarrow> encoder" where
  "encodeFooter checksum = encodeVarI64 checksum"

section \<open>Decoders\<close>

text \<open>
  Every public decoder makes a byte range, runs a body on it and advances \<open>off\<close>
  by what the body consumed.  The body also gets the original range \<open>obr\<close>: an
  early \<open>return false\<close> skips the update of \<open>off\<close>, which is putting \<open>obr\<close> back.
\<close>

definition run_decoder :: "(bytes \<Rightarrow> 'a decoder) \<Rightarrow> bytes \<Rightarrow> int \<Rightarrow> int \<Rightarrow> 'a outcome \<times> int" where
  "run_decoder body src off mx =
     (case makeByteRange src mx off of
        Ok obr \<Rightarrow> (case body obr obr of (r, br) \<Rightarrow> (r, off + offset br obr))
      | _ \<Rightarrow> (Abort, off))"

definition pop_front :: "bytes \<Rightarrow> byte decoder" where
  "pop_front obr = (\<lambda>br. case br of [] \<Rightarrow> (Fail, obr) | b # bs \<Rightarrow> (Ok b, bs))"

fun decode_n :: "nat \<Rightarrow> 'a decoder \<Rightarrow> 'a list decoder" where
  "decode_n 0 m = dec_ret []"
| "decode_n (Suc n) m = dec_bind m (\<lambda>x. dec_bind (decode_n n m) (\<lambda>xs. dec_ret (x # xs)))"

definition header_flags_body :: "bytes \<Rightarrow> BlockDetails \<Rightarrow> BlockDetails decoder" where
  "header_flags_body obr bd = dec_bind (pop_front obr) (\<lambda>flags.
     let bd' = bd\<lparr>bd_allocationStatus := status_of_byte (flags AND 7)\<rparr>
     in if bd_allocationStatus bd' = EXISTS_TOO_SMALL \<or> bd_allocationStatus bd' = EXISTS_TOO_LARGE
        then dec_bind decodeInt64C (\<lambda>prevSeqId. dec_ret (bd'\<lparr>bd_prevSeqId := prevSeqId\<rparr>))
        else dec_ret bd')"

definition header_body :: "int \<Rightarrow> BlockDetails \<Rightarrow> bytes \<Rightarrow> BlockDetails decoder" where
  "header_body receiverProtocolVersion bd0 obr =
     dec_bind decodeString (\<lambda>fileName.
     dec_bind decodeInt64C (\<lambda>seqId.
     dec_bind decodeInt64C (\<lambda>dataSize.
     dec_bind decodeInt64C (\<lambda>boffset.
     dec_bind decodeInt64C (\<lambda>fileSize.
       let bd = bd0\<lparr>bd_fileName := fileName, bd_seqId := seqId, bd_dataSize := dataSize,
                     bd_offset := boffset, bd_fileSize := fileSize\<rparr>
       in if receiverProtocolVersion \<ge> HEADER_FLAG_AND_PREV_SEQ_ID_VERSION
          then header_flags_body obr bd else dec_ret bd)))))"

definition decodeHeader ::
  "int \<Rightarrow> BlockDetails \<Rightarrow> bytes \<Rightarrow> int \<Rightarrow> int \<Rightarrow> BlockDetails outcome \<times> int" where
  "decodeHeader receiverProtocolVersion bd0 = run_decoder (header_body receiverProtocolVersion bd0)"

definition seqId_body :: "int \<Rightarrow> int decoder" where
  "seqId_body protocolVersion = dec_bind decodeUInt64 (\<lambda>uv br.
     if protocolVersion < VARINT_CHANGE \<and> uv = 0xffffffffffffffff \<and> br \<noteq> []
     then (if hd br \<noteq> 0x01 then (Fail, tl br) else (Ok (- 1), tl br))
     else (Ok (sint uv), br))"

definition checkpoint_body :: "int \<Rightarrow> Checkpoint decoder" where
  "checkpoint_body protocolVersion =
     dec_bind decodeInt32C (\<lambda>port.
     dec_bind decodeInt64C (\<lambda>numBlocks.
     dec_bind (if protocolVersion \<ge> CHECKPOINT_OFFSET_VERSION then decodeInt64C else dec_ret 0)
       (\<lambda>receivedBytes.
       let cp = (newCheckpoint port)\<lparr>cp_numBlocks := numBlocks,
                  cp_lastBlockReceivedBytes := receivedBytes\<rparr>
       in if protocolVersion \<ge> CHECKPOINT_SEQ_ID_VERSION
          then dec_bind (seqId_body protocolVersion) (\<lambda>seqId.
               dec_bind decodeInt64C (\<lambda>boffset.
               dec_ret (cp\<lparr>cp_lastBlockSeqId := seqId, cp_lastBlockOffset := boffset,
                            cp_hasSeqId := True\<rparr>)))
          else dec_ret cp)))"

definition checkpoints_body :: "int \<Rightarrow> Checkpoint list decoder" where
  "checkpoints_body protocolVersion = dec_bind decodeUInt64 (\<lambda>len.
     decode_n (unat len) (checkpoint_body protocolVersion))"

definition decodeCheckpoints :: "int \<Rightarrow> bytes \<Rightarrow> int \<Rightarrow> int \<Rightarrow> Checkpoint list outcome \<times> int" where
  "decodeCheckpoints protocolVersion = run_decoder (\<lambda>_. checkpoints_body protocolVersion)"

text \<open>\<open>bytes0\<close> is the previous content of the out parameter \<open>bytesSent\<close>.\<close>

definition done_body :: "int \<Rightarrow> int \<Rightarrow> (int \<times> int) decoder" where
  "done_body protocolVersion bytes0 = dec_bind decodeInt64C (\<lambda>numBlocks.
     if protocolVersion \<ge> CHECKPOINT_OFFSET_VERSION
     then dec_bind decodeInt64C (\<lambda>bytesSent. dec_ret (numBlocks, bytesSent))
     else dec_ret (numBlocks, bytes0))"

definition decodeDone :: "int \<Rightarrow> int \<Rightarrow> bytes \<Rightarrow> int \<Rightarrow> int \<Rightarrow> (int \<times> int) outcome \<times> int" where
  "decodeDone protocolVersion bytes0 = run_decoder (\<lambda>_. done_body protocolVersion bytes0)"

definition decodeSize :: "bytes \<Rightarrow> int \<Rightarrow> int \<Rightarrow> int outcome \<times> int" where
  "decodeSize = run_decoder (\<lambda>_. decodeInt64C)"

definition abort_body :: "bytes \<Rightarrow> (int \<times> nat \<times> int) decoder" where
  "abort_body obr br =
     (case decodeInt32FixedLength br of
        (Ok protocolVersion, br') \<Rightarrow>
          dec_bind (pop_front obr) (\<lambda>errCode.
          dec_bind decodeInt64FixedLength (\<lambda>checkpoint.
            dec_ret (protocolVersion, unat errCode, checkpoint))) br'
      | (Fail, _) \<Rightarrow> (Fail, obr)
      | (Abort, _) \<Rightarrow> (Abort, obr))"

text \<open>The error code is delivered as the number the cast to the enum takes.\<close>

definition decodeAbort :: "bytes \<Rightarrow> int \<Rightarrow> int \<Rightarrow> (int \<times> nat \<times> int) outcome \<times> int" where
  "decodeAbort src off mx =
     (if off + kAbortLength > mx then (Fail, off) else run_decoder abort_body src off mx)"

definition chunks_cmd_body :: "(int \<times> int) decoder" where
  "chunks_cmd_body = dec_bind decodeInt64FixedLength (\<lambda>bufSize.
     dec_bind decodeInt64FixedLength (\<lambda>numFiles. dec_ret (bufSize, numFiles)))"

definition decodeChunksCmd :: "bytes \<Rightarrow> int \<Rightarrow> int \<Rightarrow> (int \<times> int) outcome \<times> int" where
  "decodeChunksCmd = run_decoder (\<lambda>_. chunks_cmd_body)"

definition decodeChunkInfo :: "Interval decoder" where
  "decodeChunkInfo = dec_bind decodeInt64C (\<lambda>s. dec_bind decodeInt64C (\<lambda>e.
     dec_ret \<lparr>chunkStart = s, chunkEnd = e\<rparr>))"

definition decodeFileChunksInfo :: "FileChunksInfo decoder" where
  "decodeFileChunksInfo =
     dec_bind decodeInt64C (\<lambda>seqId.
     dec_bind decodeString (\<lambda>fileName.
     dec_bind decodeInt64C (\<lambda>fileSize.
     dec_bind decodeInt64C (\<lambda>numChunks.
       if numChunks < 0 then dec_fail
       else dec_bind (decode_n (nat numChunks) decodeChunkInfo) (\<lambda>chunks.
            dec_ret \<lparr>fc_seqId = seqId, fc_fileName = fileName, fc_fileSize = fileSize,
                     fc_chunks = chunks\<rparr>)))))"

definition decodeVersion :: "bytes \<Rightarrow> int \<Rightarrow> int \<Rightarrow> int outcome \<times> int" where
  "decodeVersion = run_decoder (\<lambda>_. decodeInt32C)"

definition settings_body :: "int \<Rightarrow> Settings \<Rightarrow> bytes \<Rightarrow> Settings decoder" where
  "settings_body protocolVersion s0 obr =
     dec_bind decodeInt32C (\<lambda>readTimeout.
     dec_bind decodeInt32C (\<lambda>writeTimeout.
     dec_bind decodeString (\<lambda>transferId.
       let s = s0\<lparr>st_enableChecksum := False, st_sendFileChunks := False,
                  st_readTimeoutMillis := readTimeout, st_writeTimeoutMillis := writeTimeout,
                  st_transferId := transferId\<rparr>
       in if protocolVersion \<ge> SETTINGS_FLAG_VERSION
          then dec_bind (pop_front obr) (\<lambda>flags.
               dec_ret (s\<lparr>st_enableChecksum := flags AND 1 \<noteq> 0,
                          st_sendFileChunks := flags AND push_bit 1 1 \<noteq> 0,
                          st_blockModeDisabled := flags AND push_bit 2 1 \<noteq> 0,
                          st_enableHeartBeat := flags AND push_bit 3 1 \<noteq> 0\<rparr>))
          else dec_ret s)))"

definition decodeSettings ::
  "int \<Rightarrow> Settings \<Rightarrow> bytes \<Rightarrow> int \<Rightarrow> int \<Rightarrow> Settings outcome \<times> int" where
  "decodeSettings protocolVersion s0 src off mx =
     (if off < 0 then (Fail, off)
      else if off \<ge> mx then (Fail, off)
      else run_decoder (settings_body protocolVersion s0) src off mx)"

definition encryption_body :: "(int \<times> string \<times> int) decoder" where
  "encryption_body = dec_bind decodeInt64C (\<lambda>v.
     dec_bind decodeString (\<lambda>iv.
     dec_bind decodeInt32FixedLength (\<lambda>tagInterval. dec_ret (v, iv, tagInterval))))"

definition decodeEncryptionSettings ::
  "bytes \<Rightarrow> int \<Rightarrow> int \<Rightarrow> (int \<times> string \<times> int) outcome \<times> int" where
  "decodeEncryptionSettings = run_decoder (\<lambda>_. encryption_body)"

definition decodeFooter :: "bytes \<Rightarrow> int \<Rightarrow> int \<Rightarrow> int outcome \<times> int" where
  "decodeFooter = run_decoder (\<lambda>_. decodeInt32)"

section \<open>Payload codecs\<close>

lemma run_decoder_at:
  assumes ib: "in_buffer sz d off" and d: "drop (nat off) d = bs @ rest"
    and fits: "off + int (length bs) \<le> sz" and spec: "dec_spec (\<lambda>br. body br br) bs x"
  shows "run_decoder body d off sz = (Ok x, off + int (length bs))"
proof -
  let ?rest = "take (nat (sz - off) - length bs) rest"
  have "makeByteRange d sz off = Ok (bs @ ?rest)"
    using ib d fits by (simp add: makeByteRange_def in_buffer_def)
  moreover have "body (bs @ ?rest) (bs @ ?rest) = (Ok x, ?rest)"
    by (rule dec_specD [OF spec])
  ultimately show ?thesis by (simp add: run_decoder_def offset_def)
qed

lemma run_decoder_total:
  assumes safe: "dec_safe (\<lambda>br. body br br)" and "in_buffer sz d off"
  shows "fst (run_decoder body d off sz) \<noteq> Abort \<and> off \<le> snd (run_decoder body d off sz) \<and>
         snd (run_decoder body d off sz) \<le> sz"
proof -
  define obr where "obr = take (nat (sz - off)) (drop (nat off) d)"
  have m: "makeByteRange d sz off = Ok obr" and l: "int (length obr) = sz - off"
    using assms by (auto simp: obr_def makeByteRange_def in_buffer_def)
  obtain r br where b: "body obr obr = (r, br)" by (cases "body obr obr")
  then have s: "r \<noteq> Abort" "length br \<le> length obr"
    using safe suffix_length_le [of br obr] by (auto simp: dec_safe_def dest!: spec [of _ obr])
  then show ?thesis using m b l by (auto simp: run_decoder_def offset_def)
qed

text \<open>A codec whose decoder is run by \<open>run_decoder\<close> on a region of a buffer.\<close>

locale payload_codec = byte_codec enc "\<lambda>br. body br br" wire ok
  for enc :: "'a \<Rightarrow> encoder" and body :: "bytes \<Rightarrow> 'a decoder" and wire :: "'a \<Rightarrow> bytes"
    and ok :: "'a \<Rightarrow> bool"
begin

lemma run_roundtrip:
  assumes "ok x" "in_buffer sz d off" "enc x sz d off = (Ok (), d', off')"
  shows "run_decoder body d' off sz = (Ok x, off')"
proof -
  note w = encode_ok_wire [OF assms]
  have ib: "in_buffer sz d' off" and len: "nat off + length (wire x) \<le> length d"
    using assms(2) w by (auto simp: in_buffer_def)
  have "drop (nat off) d' = wire x @ drop (nat off + length (wire x)) d"
    using len by (simp add: w write_at_def)
  then show ?thesis
    using run_decoder_at [of sz d' off "wire x" _ body x] ib dec_wire [OF assms(1)] w by simp
qed

lemma run_total:
  assumes "in_buffer sz d off"
  shows "fst (run_decoder body d off sz) \<noteq> Abort \<and> off \<le> snd (run_decoder body d off sz) \<and>
         snd (run_decoder body d off sz) \<le> sz"
  using run_decoder_total [of body] dec_total assms by simp

end

lemmas dec_simps =
  dec_specD [OF decodeString_spec] dec_specD [OF decodeInt64C_spec] dec_specD [OF decodeInt32C_spec]
  dec_specD [OF decodeUInt64_spec] dec_specD [OF decodeInt32_spec]
  dec_specD [OF fixed32_codec.dec_wire] dec_specD [OF fixed64_codec.dec_wire]
  dec_bind_def dec_ret_def

lemma pop_front_Cons [simp]: "pop_front obr (b # bs) = (Ok b, bs)"
  by (simp add: pop_front_def)

lemma pop_front_within [safe_rules]: "dec_within obr (pop_front obr)"
  by (auto simp: dec_within_def pop_front_def suffix_def split: list.splits)

lemma diag_safe: "(\<And>obr. dec_within obr (body obr)) \<Longrightarrow> dec_safe (\<lambda>br. body br br)"
  by (simp add: dec_safe_def dec_within_def)

lemma fixed_safe [safe_rules]: "dec_safe decodeInt32FixedLength" "dec_safe decodeInt64FixedLength"
  by (rule fixed32_codec.dec_total, rule fixed64_codec.dec_total)

lemma within_rules [safe_rules]:
  "dec_within obr decodeString" "dec_within obr decodeInt64C" "dec_within obr decodeInt32C"
  "dec_within obr decodeUInt64" "dec_within obr decodeInt32" "dec_within obr decodeInt32FixedLength"
  "dec_within obr decodeInt64FixedLength"
  by (rule dec_safe_within, rule safe_rules)+

lemma within_if [safe_rules]:
  "dec_within obr m1 \<Longrightarrow> dec_within obr m2 \<Longrightarrow> dec_within obr (if c then m1 else m2)"
  by simp

lemma within_let [safe_rules]:
  "dec_within obr (f x) \<Longrightarrow> dec_within obr (let y = x in f y)"
  by simp

lemma within_decode_n [safe_rules]: "dec_within obr m \<Longrightarrow> dec_within obr (decode_n n m)"
  by (induction n) (auto intro!: safe_rules)

lemma enc_spec_checked_max [enc_rules]: "enc_spec e bs \<Longrightarrow> enc_spec (checked_max e) bs"
  by (auto simp: enc_spec_def checked_max_def in_buffer_def)

lemma encodeByte_spec [enc_rules]: "enc_spec (encodeByte b) [b]"
  by (rule enc_specI)
    (auto simp: encodeByte_def put_byte_def in_buffer_def frame_kept_def write_at_single)

lemma dec_spec_decode_n:
  assumes "list_all2 (dec_spec m) bss xs"
  shows "dec_spec (decode_n (length xs) m) (concat bss) xs"
  using assms by (induction bss xs rule: list_all2_induct)
    (simp_all add: dec_spec_def dec_bind_def dec_ret_def)

subsection \<open>Header\<close>

definition wire_header :: "int \<Rightarrow> BlockDetails \<Rightarrow> bytes" where
  "wire_header pv bd = concat
     ([wire_str (bd_fileName bd), wire_u (bd_seqId bd), wire_u (bd_dataSize bd),
       wire_u (bd_offset bd), wire_u (bd_fileSize bd)] @
      (if pv \<ge> HEADER_FLAG_AND_PREV_SEQ_ID_VERSION
       then [status_byte (bd_allocationStatus bd)] #
            (if bd_allocationStatus bd = EXISTS_TOO_SMALL \<or> bd_allocationStatus bd = EXISTS_TOO_LARGE
             then [wire_u (bd_prevSeqId bd)] else [])
       else []))"

text \<open>The headers a version can carry: what it does not send keeps the receiver's value.\<close>

definition ok_header :: "int \<Rightarrow> BlockDetails \<Rightarrow> BlockDetails \<Rightarrow> bool" where
  "ok_header pv bd0 bd \<longleftrightarrow>
     short_string (bd_fileName bd) \<and> nonneg_i64 (bd_seqId bd) \<and> nonneg_i64 (bd_dataSize bd) \<and>
     nonneg_i64 (bd_offset bd) \<and> nonneg_i64 (bd_fileSize bd) \<and>
     (if pv \<ge> HEADER_FLAG_AND_PREV_SEQ_ID_VERSION
      then (\<forall>b. bd_allocationStatus bd \<noteq> OTHER_STATUS b) \<and>
           (if bd_allocationStatus bd = EXISTS_TOO_SMALL \<or> bd_allocationStatus bd = EXISTS_TOO_LARGE
            then nonneg_i64 (bd_prevSeqId bd) else bd_prevSeqId bd = bd_prevSeqId bd0)
      else bd_allocationStatus bd = bd_allocationStatus bd0 \<and> bd_prevSeqId bd = bd_prevSeqId bd0)"

lemma status_byte_eq:
  assumes "\<forall>b. s \<noteq> OTHER_STATUS b"
  shows "status_of_byte (status_byte s AND 7) = s"
    and "status_byte s = status_byte EXISTS_TOO_SMALL \<longleftrightarrow> s = EXISTS_TOO_SMALL"
    and "status_byte s = status_byte EXISTS_TOO_LARGE \<longleftrightarrow> s = EXISTS_TOO_LARGE"
  using assms by (cases s; simp add: status_of_byte_def)+

lemma encodeHeader_spec:
  assumes "ok_header pv bd0 bd"
  shows "enc_spec (encodeHeader pv bd) (wire_header pv bd)"
  using assms unfolding encodeHeader_def wire_header_def ok_header_def
  by (intro enc_spec_checked_max enc_spec_all)
    (auto simp: enc_rules nonneg_i64_def status_byte_eq simp del: status_byte.simps)

lemma header_body_spec:
  assumes "ok_header pv bd0 bd"
  shows "dec_spec (header_body pv bd0 obr) (wire_header pv bd) bd"
  using assms
  by (auto simp: dec_spec_def header_body_def header_flags_body_def wire_header_def ok_header_def
      dec_simps status_byte_eq Let_def intro!: BlockDetails.equality)

lemma header_body_within: "dec_within obr (header_body pv bd0 obr)"
  unfolding header_body_def header_flags_body_def Let_def by (intro safe_rules)

interpretation header: payload_codec "encodeHeader pv" "header_body pv bd0" "wire_header pv"
    "ok_header pv bd0" for pv bd0
proof unfold_locales
  show "ok_header pv bd0 x \<Longrightarrow> dec_spec (\<lambda>br. header_body pv bd0 br br) (wire_header pv x) x" for x
    using header_body_spec by (simp add: dec_spec_def)
qed (rule encodeHeader_spec, assumption, rule diag_safe, rule header_body_within)

end
