(* ===== verification/Protocol_Laws.thy ===== *)
theory Protocol_Laws
  imports Protocol_Codec
begin

text \<open>
  Round trips, size bounds and robustness of the command payloads of
  \<open>Protocol_Codec\<close>, and the decoder of a list of \<open>FileChunksInfo\<close>, whose
  termination rests on these laws.
\<close>

section \<open>Checkpoints\<close>

definition wire_checkpoint :: "int \<Rightarrow> Checkpoint \<Rightarrow> bytes" where
  "wire_checkpoint pv cp = concat
     ([wire_u (cp_port cp), wire_u (cp_numBlocks cp)] @
      (if pv \<ge> CHECKPOINT_OFFSET_VERSION then [wire_u (cp_lastBlockReceivedBytes cp)] else []) @
      (if pv \<ge> CHECKPOINT_SEQ_ID_VERSION
       then [wire_u (cp_lastBlockSeqId cp), wire_u (cp_lastBlockOffset cp)] else []))"

definition ok_checkpoint :: "int \<Rightarrow> Checkpoint \<Rightarrow> bool" where
  "ok_checkpoint pv cp \<longleftrightarrow>
     nonneg_i32 (cp_port cp) \<and> nonneg_i64 (cp_numBlocks cp) \<and>
     (if pv \<ge> CHECKPOINT_OFFSET_VERSION then nonneg_i64 (cp_lastBlockReceivedBytes cp)
      else cp_lastBlockReceivedBytes cp = 0) \<and>
     (if pv \<ge> CHECKPOINT_SEQ_ID_VERSION
      then nonneg_i64 (cp_lastBlockSeqId cp) \<and> nonneg_i64 (cp_lastBlockOffset cp) \<and> cp_hasSeqId cp
      else cp_lastBlockSeqId cp = 0 \<and> cp_lastBlockOffset cp = 0 \<and> \<not> cp_hasSeqId cp)"

lemma nonneg_word:
  assumes "nonneg_i64 v"
  shows "sint (word_of_int v :: u64) = v" "(word_of_int v :: u64) \<noteq> 0xffffffffffffffff"
proof -
  show s: "sint (word_of_int v :: u64) = v"
    using assms by (simp add: nonneg_i64_def sint_sbintrunc' signed_take_bit_int_eq_self)
  have "sint (0xffffffffffffffff :: u64) = - 1" by simp
  then show "(word_of_int v :: u64) \<noteq> 0xffffffffffffffff"
    using s assms by (auto simp: nonneg_i64_def)
qed

lemma seqId_body_wire [simp]:
  "nonneg_i64 v \<Longrightarrow> seqId_body pv (wire_u v @ rest) = (Ok v, rest)"
  using nonneg_word [of v] dec_specD [OF decodeUInt64_spec, of "word_of_int v" rest]
  by (simp add: seqId_body_def dec_bind_def wire_u_def)

lemma encodeCheckpoint_spec:
  assumes "ok_checkpoint pv cp"
  shows "enc_spec (encodeCheckpoint pv cp) (wire_checkpoint pv cp)"
  using assms unfolding encodeCheckpoint_def wire_checkpoint_def ok_checkpoint_def
  by (intro enc_spec_all) (auto simp: enc_rules nonneg_i64_def nonneg_i32_def)

lemma checkpoint_body_spec:
  assumes "ok_checkpoint pv cp"
  shows "dec_spec (checkpoint_body pv) (wire_checkpoint pv cp) cp"
  using assms
  by (auto simp: dec_spec_def checkpoint_body_def wire_checkpoint_def ok_checkpoint_def
      newCheckpoint_def dec_simps Let_def version_defs intro!: Checkpoint.equality)

lemma checkpoint_body_within [safe_rules]: "dec_within obr (checkpoint_body pv)"
proof -
  have "dec_within obr (seqId_body pv)"
    unfolding seqId_body_def
    by (intro dec_within_bind safe_rules dec_safe_within)
      (auto simp: dec_safe_def suffix_tl)
  then show ?thesis unfolding checkpoint_body_def Let_def
    by (intro safe_rules)
qed

definition wire_checkpoints :: "int \<Rightarrow> Checkpoint list \<Rightarrow> bytes" where
  "wire_checkpoints pv cps = varint (word_of_nat (length cps)) @ concat (map (wire_checkpoint pv) cps)"

definition ok_checkpoints :: "int \<Rightarrow> Checkpoint list \<Rightarrow> bool" where
  "ok_checkpoints pv cps \<longleftrightarrow> length cps < 2 ^ 64 \<and> (\<forall>cp \<in> set cps. ok_checkpoint pv cp)"

lemma unat_length: "n < 2 ^ 64 \<Longrightarrow> unat (word_of_nat n :: u64) = n"
  by (simp add: unat_of_nat take_bit_nat_eq_self)

lemma encodeCheckpoints_spec:
  assumes "ok_checkpoints pv cps"
  shows "enc_spec (encodeCheckpoints pv cps) (wire_checkpoints pv cps)"
  using assms unfolding encodeCheckpoints_def wire_checkpoints_def ok_checkpoints_def
  by (intro enc_spec_checked_max enc_spec_seq encodeVarU64_spec enc_spec_all)
    (auto simp: list_all2_conv_all_nth encodeCheckpoint_spec)

lemma checkpoints_body_spec:
  assumes "ok_checkpoints pv cps"
  shows "dec_spec (checkpoints_body pv) (wire_checkpoints pv cps) cps"
proof -
  have "dec_spec (decode_n (length cps) (checkpoint_body pv)) (concat (map (wire_checkpoint pv) cps)) cps"
    using assms by (intro dec_spec_decode_n)
      (auto simp: ok_checkpoints_def list_all2_conv_all_nth checkpoint_body_spec)
  then show ?thesis using assms
    unfolding checkpoints_body_def wire_checkpoints_def ok_checkpoints_def
    by (intro dec_spec_bind [OF decodeUInt64_spec]) (simp add: unat_length)
qed

interpretation checkpoints: payload_codec "encodeCheckpoints pv" "\<lambda>_. checkpoints_body pv"
    "wire_checkpoints pv" "ok_checkpoints pv" for pv
proof unfold_locales
  have "dec_within obr (checkpoints_body pv)" for obr
    unfolding checkpoints_body_def by (intro safe_rules)
  then show "dec_safe (checkpoints_body pv)" by (rule dec_safeI)
qed (erule encodeCheckpoints_spec checkpoints_body_spec)+

section \<open>Done and size\<close>

definition wire_done :: "int \<Rightarrow> int \<times> int \<Rightarrow> bytes" where
  "wire_done pv = (\<lambda>(numBlocks, bytesSent). concat
     (wire_u numBlocks # (if pv \<ge> CHECKPOINT_OFFSET_VERSION then [wire_u bytesSent] else [])))"

definition ok_done :: "int \<Rightarrow> int \<Rightarrow> int \<times> int \<Rightarrow> bool" where
  "ok_done pv bytes0 = (\<lambda>(numBlocks, bytesSent). nonneg_i64 numBlocks \<and>
     (if pv \<ge> CHECKPOINT_OFFSET_VERSION then nonneg_i64 bytesSent else bytesSent = bytes0))"

interpretation done_cmd: payload_codec "encodeDone pv" "\<lambda>_. done_body pv bytes0" "wire_done pv"
    "ok_done pv bytes0" for pv bytes0
proof unfold_locales
  fix x :: "int \<times> int"
  assume ok: "ok_done pv bytes0 x"
  obtain n b where x: "x = (n, b)" by (cases x)
  show "enc_spec (encodeDone pv x) (wire_done pv x)"
    using ok unfolding x encodeDone_def wire_done_def ok_done_def prod.case
    by (intro enc_spec_all) (auto simp: enc_rules nonneg_i64_def)
  show "dec_spec (done_body pv bytes0) (wire_done pv x) x"
    using ok by (auto simp: x dec_spec_def done_body_def wire_done_def ok_done_def dec_simps)
next
  have "dec_within obr (done_body pv bytes0)" for obr
    unfolding done_body_def by (intro safe_rules)
  then show "dec_safe (done_body pv bytes0)" by (rule dec_safeI)
qed

interpretation size_cmd: payload_codec encodeSize "\<lambda>_. decodeInt64C" wire_u nonneg_i64
  unfolding encodeSize_def by unfold_locales

interpretation footer_cmd: payload_codec encodeFooter "\<lambda>_. decodeInt32" wire_s is_i32
  by unfold_locales (simp_all add: encodeFooter_def enc_rules decodeInt32_spec decodeInt32_safe)

interpretation version_field: payload_codec encodeVarI64C "\<lambda>_. decodeInt32C" wire_u nonneg_i32
  by unfold_locales

section \<open>Abort\<close>

definition wire_abort :: "int \<Rightarrow> ErrorCode \<Rightarrow> int \<Rightarrow> bytes" where
  "wire_abort pv errCode checkpoint =
     le_bytes 4 pv @ word_of_nat (errorCode_num errCode) # le_bytes 8 checkpoint"

lemma length_wire_abort [simp]: "int (length (wire_abort pv e c)) = kAbortLength"
  by (simp add: wire_abort_def kAbortLength_def)

lemma put_byte_fits:
  assumes "in_buffer sz d off" "off < sz"
  shows "put_byte b sz d off = encodeByte b sz d off"
  using assms by (simp add: encodeByte_def)

lemma enc_seq_cong:
  assumes "in_buffer sz d off" "enc_spec e bs"
    and "\<And>d'. in_buffer sz d' (off + int (length bs)) \<Longrightarrow>
           e1 sz d' (off + int (length bs)) = e2 sz d' (off + int (length bs))"
    and "off + int (length bs) \<le> sz"
  shows "enc_seq e e1 sz d off = enc_seq e e2 sz d off"
  using assms(3) [OF in_buffer_write_at [OF assms(1,4)]] enc_spec_fits [OF assms(2,1,4)]
  by (simp add: enc_seq_def)

lemma encodeAbort_spec: "enc_spec (encodeAbort pv errCode checkpoint) (wire_abort pv errCode checkpoint)"
proof (rule enc_specI)
  fix sz d off
  assume ib: "in_buffer sz d off" and fits: "off + int (length (wire_abort pv errCode checkpoint)) \<le> sz"
  let ?b = "word_of_nat (errorCode_num errCode) :: byte"
  let ?es = "\<lambda>p. enc_seq (encodeInt32FixedLength pv)
      (enc_seq p (enc_seq (encodeInt64FixedLength checkpoint) enc_skip))"
  have "encodeAbort pv errCode checkpoint sz d off = ?es (put_byte ?b) sz d off"
    using fits by (simp add: encodeAbort_def)
  also have "\<dots> = ?es (encodeByte ?b) sz d off"
    using fits by (intro enc_seq_cong [OF ib fixed_specs(1)])
      (auto simp: enc_seq_def put_byte_fits kAbortLength_def)
  also have "enc_spec (?es (encodeByte ?b)) (wire_abort pv errCode checkpoint)"
    unfolding wire_abort_def
    using enc_spec_all [of "[encodeInt32FixedLength pv, encodeByte ?b, encodeInt64FixedLength checkpoint]"
        "[le_bytes 4 pv, [?b], le_bytes 8 checkpoint]"]
    by (simp add: enc_rules)
  then have "?es (encodeByte ?b) sz d off = (Ok (), write_at (nat off) (wire_abort pv errCode checkpoint) d,
      off + int (length (wire_abort pv errCode checkpoint)))"
    using ib fits by (rule enc_spec_fits)
  finally show "encodeAbort pv errCode checkpoint sz d off =
      (Ok (), write_at (nat off) (wire_abort pv errCode checkpoint) d,
       off + int (length (wire_abort pv errCode checkpoint)))" .
next
  fix sz d off
  assume "in_buffer sz d off" "\<not> off + int (length (wire_abort pv errCode checkpoint)) \<le> sz"
  then show "\<exists>d' off'. encodeAbort pv errCode checkpoint sz d off = (Fail, d', off') \<and> frame_kept sz off d d' off'"
    by (simp add: encodeAbort_def frame_kept_def in_buffer_def)
qed

lemma unat_errorCode [simp]: "unat (word_of_nat (errorCode_num e) :: byte) = errorCode_num e"
  using errorCode_num_less [of e] by (simp add: unat_of_nat take_bit_nat_eq_self)

lemma abort_body_spec:
  assumes "nonneg_i32 pv" "nonneg_i64 checkpoint"
  shows "abort_body obr (wire_abort pv errCode checkpoint @ rest)
       = (Ok (pv, errorCode_num errCode, checkpoint), rest)"
  using assms by (simp add: abort_body_def wire_abort_def dec_simps)

lemma abort_body_within: "dec_within obr (abort_body obr)"
proof -
  let ?k = "\<lambda>pv. dec_bind (pop_front obr) (\<lambda>errCode. dec_bind decodeInt64FixedLength (\<lambda>checkpoint.
            dec_ret (pv :: int, unat errCode, checkpoint)))"
  have k: "dec_within obr (?k pv)" for pv by (intro safe_rules)
  show ?thesis unfolding dec_within_def
  proof (intro allI impI)
    fix br assume br: "suffix br obr"
    obtain r br' where d: "decodeInt32FixedLength br = (r, br')" by (cases "decodeInt32FixedLength br")
    have "r \<noteq> Abort" "suffix br' obr"
      using within_rules(6) [of obr] br d by (force simp: dec_within_def)+
    then show "fst (abort_body obr br) \<noteq> Abort \<and> suffix (snd (abort_body obr br)) obr"
      using k d by (cases r) (simp_all add: abort_body_def dec_within_def)
  qed
qed

section \<open>Chunk commands\<close>

definition ok_pair64 :: "int \<times> int \<Rightarrow> bool" where
  "ok_pair64 = (\<lambda>(a, b). nonneg_i64 a \<and> nonneg_i64 b)"

interpretation chunks_cmd: payload_codec encodeChunksCmd "\<lambda>_. chunks_cmd_body"
    "\<lambda>(a, b). le_bytes 8 a @ le_bytes 8 b" ok_pair64
proof unfold_locales
  fix x :: "int \<times> int"
  obtain a b where x: "x = (a, b)" by (cases x)
  show "enc_spec (encodeChunksCmd x) ((\<lambda>(a, b). le_bytes 8 a @ le_bytes 8 b) x)"
    using enc_spec_all [of "[encodeInt64FixedLength a, encodeInt64FixedLength b]" "[le_bytes 8 a, le_bytes 8 b]"]
    by (simp add: x encodeChunksCmd_def enc_rules)
  show "ok_pair64 x \<Longrightarrow> dec_spec chunks_cmd_body ((\<lambda>(a, b). le_bytes 8 a @ le_bytes 8 b) x) x"
    by (auto simp: x dec_spec_def chunks_cmd_body_def ok_pair64_def dec_simps)
next
  have "dec_within obr chunks_cmd_body" for obr
    unfolding chunks_cmd_body_def by (intro safe_rules)
  then show "dec_safe chunks_cmd_body" by (rule dec_safeI)
qed

definition ok_chunk :: "Interval \<Rightarrow> bool" where
  "ok_chunk c \<longleftrightarrow> nonneg_i64 (chunkStart c) \<and> nonneg_i64 (chunkEnd c)"

definition wire_chunk :: "Interval \<Rightarrow> bytes" where
  "wire_chunk c = wire_u (chunkStart c) @ wire_u (chunkEnd c)"

lemma encodeChunkInfo_spec:
  assumes "ok_chunk c"
  shows "enc_spec (encodeChunkInfo c) (wire_chunk c)"
  using assms enc_spec_all [of "[encodeVarI64C (chunkStart c), encodeVarI64C (chunkEnd c)]"
      "[wire_u (chunkStart c), wire_u (chunkEnd c)]"]
  by (simp add: encodeChunkInfo_def wire_chunk_def ok_chunk_def enc_rules nonneg_i64_def)

lemma decodeChunkInfo_spec:
  "ok_chunk c \<Longrightarrow> dec_spec decodeChunkInfo (wire_chunk c) c"
  by (simp add: dec_spec_def decodeChunkInfo_def wire_chunk_def ok_chunk_def dec_simps)

lemma decodeChunkInfo_within [safe_rules]: "dec_within obr decodeChunkInfo"
  unfolding decodeChunkInfo_def by (intro safe_rules)

definition ok_fci :: "FileChunksInfo \<Rightarrow> bool" where
  "ok_fci f \<longleftrightarrow> nonneg_i64 (fc_seqId f) \<and> short_string (fc_fileName f) \<and> nonneg_i64 (fc_fileSize f) \<and>
     nonneg_i64 (int (length (fc_chunks f))) \<and> (\<forall>c \<in> set (fc_chunks f). ok_chunk c)"

definition wire_fci :: "FileChunksInfo \<Rightarrow> bytes" where
  "wire_fci f = concat ([wire_u (fc_seqId f), wire_str (fc_fileName f), wire_u (fc_fileSize f),
     wire_u (int (length (fc_chunks f)))] @ map wire_chunk (fc_chunks f))"

lemma encodeFileChunksInfo_spec:
  assumes "ok_fci f"
  shows "enc_spec (encodeFileChunksInfo f) (wire_fci f)"
  using assms unfolding encodeFileChunksInfo_def wire_fci_def ok_fci_def
  by (intro enc_spec_all) (auto simp: enc_rules nonneg_i64_def list_all2_map1 list_all2_map2
      list_all2_same encodeChunkInfo_spec)

lemma decodeFileChunksInfo_spec:
  assumes "ok_fci f"
  shows "dec_spec decodeFileChunksInfo (wire_fci f) f"
proof -
  have "dec_spec (decode_n (length (fc_chunks f)) decodeChunkInfo) (concat (map wire_chunk (fc_chunks f)))
      (fc_chunks f)"
    using assms by (intro dec_spec_decode_n)
      (auto simp: ok_fci_def list_all2_conv_all_nth decodeChunkInfo_spec)
  then show ?thesis using assms
    by (simp add: dec_spec_def decodeFileChunksInfo_def wire_fci_def ok_fci_def dec_simps)
qed

lemma decodeFileChunksInfo_within: "dec_within obr decodeFileChunksInfo"
  unfolding decodeFileChunksInfo_def by (intro safe_rules)

interpretation fci: byte_codec encodeFileChunksInfo decodeFileChunksInfo wire_fci ok_fci
  by unfold_locales (rule encodeFileChunksInfo_spec decodeFileChunksInfo_spec dec_safeI
      decodeFileChunksInfo_within | assumption)+

section \<open>Lists of chunk infos\<close>

lemma decodeUInt64_consumes:
  "decodeUInt64 br = (Ok v, br') \<Longrightarrow> length br' < length br"
proof -
  assume d: "decodeUInt64 br = (Ok v, br')"
  then obtain pos where "decodeVarU64 br 0 = Some (v, pos)" "br' = drop (nat pos) br"
    by (auto simp: decodeUInt64_def split: option.splits if_splits)
  then show ?thesis using decodeVarU64_0 [of br v pos] by auto
qed

lemma decodeInt64C_consumes:
  "decodeInt64C br = (Ok v, br') \<Longrightarrow> length br' < length br"
  by (auto simp: decodeInt64C_def split: prod.splits outcome.splits if_splits dest: decodeUInt64_consumes)

lemma dec_bind_Ok_E:
  assumes "dec_bind m f br = (Ok y, br')"
  obtains x br1 where "m br = (Ok x, br1)" "f x br1 = (Ok y, br')"
  using assms by (auto simp: dec_bind_def split: prod.splits outcome.splits)

lemma decodeFileChunksInfo_consumes:
  assumes "decodeFileChunksInfo br = (Ok f, br')"
  shows "length br' < length br"
proof -
  obtain seqId br1 k where 1: "decodeInt64C br = (Ok seqId, br1)" and 2: "k br1 = (Ok f, br')"
    and "dec_within br1 k"
    using assms unfolding decodeFileChunksInfo_def
    by (elim dec_bind_Ok_E [of decodeInt64C]) (blast intro: safe_rules)
  then have "suffix br' br1" by (force simp: dec_within_def)
  then show ?thesis using decodeInt64C_consumes [OF 1] suffix_length_le by fastforce
qed

function decode_list_loop :: "bytes \<Rightarrow> FileChunksInfo list decoder" where
  "decode_list_loop obr br =
     (if br = [] then (Ok [], br)
      else case decodeFileChunksInfo br of
             (Ok f, br') \<Rightarrow> (case decode_list_loop obr br' of
                               (Ok fs, br'') \<Rightarrow> (Ok (f # fs), br'')
                             | r \<Rightarrow> r)
           | (Fail, _) \<Rightarrow> (Fail, obr)
           | (Abort, _) \<Rightarrow> (Abort, obr))"
  by pat_completeness auto
termination
  by (relation "measure (\<lambda>(_, br). length br)") (auto dest: decodeFileChunksInfo_consumes [OF sym])

declare decode_list_loop.simps [simp del]

definition decodeFileChunksInfoList ::
  "bytes \<Rightarrow> int \<Rightarrow> int \<Rightarrow> FileChunksInfo list outcome \<times> int" where
  "decodeFileChunksInfoList = run_decoder decode_list_loop"

lemma wire_fci_not_Nil [simp]: "wire_fci f \<noteq> []"
  using length_wire_u(1) [of "fc_seqId f"] by (auto simp: wire_fci_def)

lemma decode_list_loop_wire:
  assumes "\<forall>f \<in> set fs. ok_fci f"
  shows "decode_list_loop obr (concat (map wire_fci fs)) = (Ok fs, [])"
  using assms
proof (induction fs)
  case Nil
  then show ?case by (simp add: decode_list_loop.simps)
next
  case (Cons f fs)
  then show ?case using dec_specD [OF decodeFileChunksInfo_spec, of f "concat (map wire_fci fs)"]
    by (subst decode_list_loop.simps) simp
qed

lemma length_wire_str:
  "length s < 2 ^ 35 \<Longrightarrow> length (wire_str s) \<le> 5 + length s"
  using length_varint_le_iff [of 5 "word_of_nat (length s)"]
  by (simp add: wire_str_def unat_of_nat take_bit_nat_eq_self)

lemma length_concat_bound:
  assumes "\<forall>x \<in> set xs. length (f x) \<le> b"
  shows "length (concat (map f xs)) \<le> length xs * b"
  using assms by (induction xs) auto

lemma length_wire_fci:
  assumes "length (fc_fileName f) < 2 ^ 35"
  shows "int (length (wire_fci f)) \<le> maxEncodeLen f"
proof -
  have "\<forall>c \<in> set (fc_chunks f). length (wire_chunk c) \<le> 20"
  proof
    fix c
    show "length (wire_chunk c) \<le> 20"
      using length_wire_u(2) [of "chunkStart c"] length_wire_u(2) [of "chunkEnd c"]
      by (simp add: wire_chunk_def)
  qed
  then have "length (concat (map wire_chunk (fc_chunks f))) \<le> length (fc_chunks f) * 20"
    by (rule length_concat_bound)
  then show ?thesis
    using length_wire_str [OF assms] length_wire_u(2) [of "fc_seqId f"] length_wire_u(2) [of "fc_fileSize f"]
      length_wire_u(2) [of "int (length (fc_chunks f))"]
    by (simp add: wire_fci_def maxEncodeLen_def kMaxChunkEncodeLen_def)
qed

text \<open>What \<open>encodeFileChunksInfoList\<close> leaves out: entries that can never fit.\<close>

definition encodable :: "int \<Rightarrow> int \<Rightarrow> FileChunksInfo \<Rightarrow> bool" where
  "encodable bufSize oldOffset f \<longleftrightarrow> maxEncodeLen f + oldOffset \<le> bufSize"

definition wf_fci :: "FileChunksInfo \<Rightarrow> bool" where
  "wf_fci f \<longleftrightarrow> ok_fci f \<and> length (fc_fileName f) < 2 ^ 35"

definition encoded_as ::
  "FileChunksInfo list \<Rightarrow> int \<Rightarrow> int \<Rightarrow> bytes \<Rightarrow> int \<Rightarrow> int outcome \<times> bytes \<times> int \<Rightarrow> bool" where
  "encoded_as es sz n d off r \<longleftrightarrow> off + int (length (concat (map wire_fci es))) \<le> sz \<and>
     r = (Ok (n + int (length es)), write_at (nat off) (concat (map wire_fci es)) d,
          off + int (length (concat (map wire_fci es))))"

lemma encoded_as_Nil [simp]: "in_buffer sz d off \<Longrightarrow> encoded_as [] sz n d off (Ok n, d, off)"
  by (simp add: encoded_as_def in_buffer_def)

lemma encoded_as_Cons:
  assumes ib: "in_buffer sz d off"
    and es: "encoded_as es sz (n + 1) (write_at (nat off) (wire_fci f) d) (off + int (length (wire_fci f))) r"
  shows "encoded_as (f # es) sz n d off r"
proof -
  have "nat (off + int (length (wire_fci f))) = nat off + length (wire_fci f)"
    "nat off + length (wire_fci f) + length (concat (map wire_fci es)) \<le> length d"
    using ib es by (auto simp: in_buffer_def encoded_as_def)
  then show ?thesis using es by (simp add: encoded_as_def write_at_append ac_simps)
qed

lemma encode_list_loop_spec:
  assumes "\<forall>f \<in> set fs. wf_fci f" "in_buffer sz d off"
  shows "\<exists>k. encoded_as (filter (encodable sz old) (take k fs)) sz n d off
             (encode_list_loop sz old n fs d off)"
  using assms
proof (induction fs arbitrary: n d off)
  case Nil
  then show ?case by simp
next
  case (Cons f fs)
  consider (skip) "maxEncodeLen f + old > sz"
    | (stop) "\<not> maxEncodeLen f + old > sz" "maxEncodeLen f + off \<ge> sz"
    | (enc) "\<not> maxEncodeLen f + old > sz" "\<not> maxEncodeLen f + off \<ge> sz" by blast
  then show ?case
  proof cases
    case skip
    obtain k where "encoded_as (filter (encodable sz old) (take k fs)) sz n d off
        (encode_list_loop sz old n fs d off)"
      using Cons.IH Cons.prems by (meson list.set_intros(2))
    moreover have "\<not> encodable sz old f" using skip by (simp add: encodable_def)
    ultimately show ?thesis using skip by (intro exI [of _ "Suc k"]) simp
  next
    case stop
    then show ?thesis using Cons.prems by (intro exI [of _ 0]) simp
  next
    case enc
    have ok: "ok_fci f" and len: "int (length (wire_fci f)) \<le> maxEncodeLen f"
      using Cons.prems length_wire_fci by (auto simp: wf_fci_def)
    let ?d = "write_at (nat off) (wire_fci f) d" and ?off = "off + int (length (wire_fci f))"
    have fits: "?off \<le> sz" using len enc by simp
    note e = enc_spec_fits [OF encodeFileChunksInfo_spec [OF ok] Cons.prems(2) fits]
    obtain k where "encoded_as (filter (encodable sz old) (take k fs)) sz (n + 1) ?d ?off
        (encode_list_loop sz old (n + 1) fs ?d ?off)"
      using Cons.IH [OF _ in_buffer_write_at [OF Cons.prems(2) fits]] Cons.prems
      by (meson list.set_intros(2))
    moreover have "encodable sz old f" using enc by (simp add: encodable_def)
    ultimately show ?thesis using enc e encoded_as_Cons [OF Cons.prems(2)]
      by (intro exI [of _ "Suc k"]) simp
  qed
qed

section \<open>Settings and encryption settings\<close>

definition wire_settings_tail :: "int \<Rightarrow> Settings \<Rightarrow> bytes" where
  "wire_settings_tail pv s = concat
     ([wire_u (st_readTimeoutMillis s), wire_u (st_writeTimeoutMillis s), wire_str (st_transferId s)] @
      (if pv \<ge> SETTINGS_FLAG_VERSION then [[settings_flags s]] else []))"

definition ok_settings :: "int \<Rightarrow> Settings \<Rightarrow> Settings \<Rightarrow> bool" where
  "ok_settings pv s0 s \<longleftrightarrow>
     nonneg_i32 (st_readTimeoutMillis s) \<and> nonneg_i32 (st_writeTimeoutMillis s) \<and>
     short_string (st_transferId s) \<and>
     (pv < SETTINGS_FLAG_VERSION \<longrightarrow> \<not> st_enableChecksum s \<and> \<not> st_sendFileChunks s \<and>
        st_blockModeDisabled s = st_blockModeDisabled s0 \<and> st_enableHeartBeat s = st_enableHeartBeat s0)"

lemma settings_flags_bits:
  "(settings_flags s AND 1 \<noteq> 0) = st_enableChecksum s"
  "(settings_flags s AND push_bit 1 1 \<noteq> 0) = st_sendFileChunks s"
  "(settings_flags s AND push_bit 2 1 \<noteq> 0) = st_blockModeDisabled s"
  "(settings_flags s AND push_bit 3 1 \<noteq> 0) = st_enableHeartBeat s"
  by (cases "st_enableChecksum s"; cases "st_sendFileChunks s"; cases "st_blockModeDisabled s";
      cases "st_enableHeartBeat s"; simp add: settings_flags_def)+

lemma encodeSettings_spec:
  assumes "ok_settings pv s0 s" "0 \<le> pv"
  shows "enc_spec (encodeSettings pv s) (wire_u pv @ wire_settings_tail pv s)"
proof -
  have "enc_spec (encodeSettings pv s) (concat ([wire_u pv, wire_u (st_readTimeoutMillis s),
      wire_u (st_writeTimeoutMillis s), wire_str (st_transferId s)] @
      (if pv \<ge> SETTINGS_FLAG_VERSION then [[settings_flags s]] else [])))"
    using assms unfolding encodeSettings_def ok_settings_def
    by (intro enc_spec_all) (auto simp: enc_rules nonneg_i32_def)
  then show ?thesis by (simp add: wire_settings_tail_def)
qed

lemma settings_body_spec:
  assumes "ok_settings pv s0 s"
  shows "dec_spec (settings_body pv s0 obr) (wire_settings_tail pv s) s"
  using assms settings_flags_bits [of s]
  by (auto simp: dec_spec_def settings_body_def wire_settings_tail_def ok_settings_def dec_simps Let_def
      intro!: Settings.equality)

lemma settings_body_within: "dec_within obr (settings_body pv s0 obr)"
  unfolding settings_body_def Let_def by (intro safe_rules)

definition ok_encryption :: "int \<times> string \<times> int \<Rightarrow> bool" where
  "ok_encryption = (\<lambda>(ty, iv, tag). nonneg_i64 ty \<and> short_string iv \<and> nonneg_i32 tag)"

definition wire_encryption :: "int \<times> string \<times> int \<Rightarrow> bytes" where
  "wire_encryption = (\<lambda>(ty, iv, tag). wire_u ty @ wire_str iv @ le_bytes 4 tag)"

interpretation encryption: payload_codec encodeEncryptionSettings "\<lambda>_. encryption_body"
    wire_encryption ok_encryption
proof unfold_locales
  fix x :: "int \<times> string \<times> int"
  assume ok: "ok_encryption x"
  obtain ty iv tag where x: "x = (ty, iv, tag)" by (cases x)
  show "enc_spec (encodeEncryptionSettings x) (wire_encryption x)"
    using ok enc_spec_all [of "[encodeVarI64C ty, encodeString iv, encodeInt32FixedLength tag]"
        "[wire_u ty, wire_str iv, le_bytes 4 tag]"]
    by (simp add: x encodeEncryptionSettings_def wire_encryption_def ok_encryption_def enc_rules nonneg_i64_def)
  show "dec_spec encryption_body (wire_encryption x) x"
    using ok by (auto simp: x dec_spec_def encryption_body_def wire_encryption_def ok_encryption_def dec_simps)
next
  have "dec_within obr encryption_body" for obr
    unfolding encryption_body_def by (intro safe_rules)
  then show "dec_safe encryption_body" by (rule dec_safeI)
qed

section \<open>Properties\<close>

lemma length_wire_str_path:
  "length s < 2 ^ 14 \<Longrightarrow> length (wire_str s) \<le> 2 + length s"
  using length_varint_le_iff [of 2 "word_of_nat (length s)"]
  by (simp add: wire_str_def unat_of_nat take_bit_nat_eq_self)

lemma length_wire_header:
  assumes "int (length (bd_fileName bd)) \<le> PATH_MAX"
  shows "int (length (wire_header pv bd)) \<le> kMaxHeader - 6"
proof -
  have "length (wire_str (bd_fileName bd)) \<le> 2 + length (bd_fileName bd)"
    using assms by (intro length_wire_str_path) (simp add: PATH_MAX_def)
  then show ?thesis
    using assms length_wire_u(2) [of "bd_seqId bd"] length_wire_u(2) [of "bd_dataSize bd"]
      length_wire_u(2) [of "bd_offset bd"] length_wire_u(2) [of "bd_fileSize bd"]
      length_wire_u(2) [of "bd_prevSeqId bd"]
    by (simp add: wire_header_def kMaxHeader_def PATH_MAX_def)
qed

text \<open>C4: whatever block header a protocol version can carry, \<open>encodeHeader\<close>
  never runs out of room when it starts after the command byte and the two length
  bytes of a \<open>kMaxHeader\<close> buffer and the file name is at most \<open>PATH_MAX\<close> long, and
  \<open>decodeHeader\<close> of the same version returns the same block details and stops at
  the offset where encoding stopped.\<close>

theorem encodeHeader_decodeHeader:
  assumes ok: "ok_header pv bd0 bd" and name: "int (length (bd_fileName bd)) \<le> PATH_MAX"
    and buf: "kMaxHeader \<le> int (length d)"
  shows "\<exists>d' off'. encodeHeader pv bd kMaxHeader d 3 = (Ok (), d', off') \<and> off' \<le> kMaxHeader \<and>
           decodeHeader pv bd0 d' 3 kMaxHeader = (Ok bd, off')"
proof -
  have ib: "in_buffer kMaxHeader d 3" using buf by (simp add: in_buffer_def size_defs)
  have "3 + int (length (wire_header pv bd)) \<le> kMaxHeader"
    using length_wire_header [OF name, of pv] by simp
  note e = enc_spec_fits [OF encodeHeader_spec [OF ok] ib this]
  show ?thesis
    using e header.run_roundtrip [OF ok ib e] header.encode_ok_wire(3) [OF ok ib e]
    by (simp add: decodeHeader_def)
qed

theorem encodeHeader_decodeHeader_witness:
  "\<exists>d' off'. encodeHeader 26 \<lparr>bd_fileName = ''a/b'', bd_seqId = 7, bd_fileSize = 500, bd_offset = 128,
       bd_dataSize = 300, bd_allocationStatus = EXISTS_TOO_SMALL, bd_prevSeqId = 3\<rparr>
       kMaxHeader (replicate 5000 0) 3 = (Ok (), d', off') \<and>
     decodeHeader 26 \<lparr>bd_fileName = [], bd_seqId = 0, bd_fileSize = 0, bd_offset = 0,
       bd_dataSize = 0, bd_allocationStatus = NOT_EXISTS, bd_prevSeqId = 0\<rparr> d' 3 kMaxHeader =
     (Ok \<lparr>bd_fileName = ''a/b'', bd_seqId = 7, bd_fileSize = 500, bd_offset = 128,
       bd_dataSize = 300, bd_allocationStatus = EXISTS_TOO_SMALL, bd_prevSeqId = 3\<rparr>, off')"
proof -
  let ?bd = "\<lparr>bd_fileName = ''a/b'', bd_seqId = 7, bd_fileSize = 500, bd_offset = 128,
       bd_dataSize = 300, bd_allocationStatus = EXISTS_TOO_SMALL, bd_prevSeqId = 3\<rparr>"
  let ?old = "\<lparr>bd_fileName = [], bd_seqId = 0, bd_fileSize = 0, bd_offset = 0,
       bd_dataSize = 0, bd_allocationStatus = NOT_EXISTS, bd_prevSeqId = 0\<rparr>"
  have "ok_header 26 ?old ?bd"
    by (simp add: ok_header_def short_string_def nonneg_i64_def version_defs)
  moreover have "int (length (bd_fileName ?bd)) \<le> PATH_MAX" by (simp add: PATH_MAX_def)
  moreover have "kMaxHeader \<le> int (length (replicate 5000 (0::byte)))" by (simp add: size_defs)
  ultimately show ?thesis using encodeHeader_decodeHeader by meson
qed



text \<open>C26: with a transfer id of at most \<open>kMaxTransferIdLength\<close> bytes the settings
  command fits in \<open>kMaxSettings\<close> bytes after its command byte; \<open>decodeVersion\<close> then
  reads the sender's protocol version, and \<open>decodeSettings\<close>, started where
  \<open>decodeVersion\<close> stopped, returns the settings the version can carry.\<close>

theorem encodeSettings_decodeSettings:
  assumes ok: "ok_settings pv s0 s" and pv: "nonneg_i32 pv"
    and tid: "int (length (st_transferId s)) \<le> kMaxTransferIdLength"
    and buf: "kMaxSettings \<le> int (length d)"
  shows "\<exists>d' off1 off2. encodeSettings pv s kMaxSettings d 1 = (Ok (), d', off2) \<and>
           decodeVersion d' 1 kMaxSettings = (Ok pv, off1) \<and>
           decodeSettings pv s0 d' off1 kMaxSettings = (Ok s, off2)"
proof -
  let ?v = "wire_u pv" and ?t = "wire_settings_tail pv s"
  let ?d = "write_at 1 (?v @ ?t) d" and ?off = "1 + int (length ?v)"
  have ib: "in_buffer kMaxSettings d 1" using buf by (simp add: in_buffer_def size_defs)
  have "length (wire_str (st_transferId s)) \<le> 2 + length (st_transferId s)"
    using tid by (intro length_wire_str_path) (simp add: size_defs)
  then have fits: "1 + int (length (?v @ ?t)) \<le> kMaxSettings"
    using tid length_wire_u(2) [of pv] length_wire_u(2) [of "st_readTimeoutMillis s"]
      length_wire_u(2) [of "st_writeTimeoutMillis s"]
    by (simp add: wire_settings_tail_def size_defs)
  have e: "encodeSettings pv s kMaxSettings d 1 = (Ok (), ?d, 1 + int (length (?v @ ?t)))"
    using enc_spec_fits [OF encodeSettings_spec [OF ok] ib fits] pv by (simp add: nonneg_i32_def)
  have len: "1 + length (?v @ ?t) \<le> length d" using fits buf by simp
  have ib1: "in_buffer kMaxSettings ?d 1" and ib2: "in_buffer kMaxSettings ?d ?off"
    using ib fits len by (auto simp: in_buffer_def)
  have d1: "drop (nat 1) ?d = ?v @ ?t @ drop (1 + length (?v @ ?t)) d"
    and d2: "drop (nat ?off) ?d = ?t @ drop (1 + length (?v @ ?t)) d"
    using len by (simp_all add: write_at_def nat_add_distrib)
  have "decodeVersion ?d 1 kMaxSettings = (Ok pv, ?off)"
    unfolding decodeVersion_def using fits
    by (intro run_decoder_at [OF ib1 d1]) (auto simp: decodeInt32C_spec pv)
  moreover have "run_decoder (settings_body pv s0) ?d ?off kMaxSettings = (Ok s, ?off + int (length ?t))"
    using fits settings_body_spec [OF ok] by (intro run_decoder_at [OF ib2 d2]) (auto simp: dec_spec_def)
  moreover have "?off < kMaxSettings"
    using fits length_wire_u(1) [of "st_readTimeoutMillis s"] by (simp add: wire_settings_tail_def)
  ultimately show ?thesis using e by (auto simp: decodeSettings_def)
qed

theorem encodeSettings_decodeSettings_witness:
  "\<exists>d' off1 off2. encodeSettings 30 \<lparr>st_readTimeoutMillis = 5000, st_writeTimeoutMillis = 5000,
       st_transferId = ''id'', st_enableChecksum = True, st_sendFileChunks = False,
       st_blockModeDisabled = False, st_enableHeartBeat = True\<rparr> kMaxSettings (replicate 2000 0) 1
     = (Ok (), d', off2) \<and> decodeVersion d' 1 kMaxSettings = (Ok 30, off1)"
  using encodeSettings_decodeSettings [of 30 "\<lparr>st_readTimeoutMillis = 0, st_writeTimeoutMillis = 0,
       st_transferId = [], st_enableChecksum = False, st_sendFileChunks = False,
       st_blockModeDisabled = False, st_enableHeartBeat = False\<rparr>"
     "\<lparr>st_readTimeoutMillis = 5000, st_writeTimeoutMillis = 5000,
       st_transferId = ''id'', st_enableChecksum = True, st_sendFileChunks = False,
       st_blockModeDisabled = False, st_enableHeartBeat = True\<rparr>" "replicate 2000 0"]
  by (auto simp: ok_settings_def nonneg_i32_def short_string_def size_defs version_defs)

text \<open>The abort command occupies exactly \<open>kAbortLength\<close> bytes; it is encoded
  exactly when that many bytes are left, and \<open>decodeAbort\<close> returns the protocol
  version, the number of the error code (which names that error) and the checkpoint.\<close>

theorem encodeAbort_decodeAbort:
  assumes ib: "in_buffer sz d off" and vals: "nonneg_i32 pv" "nonneg_i64 checkpoint"
  shows "if off + kAbortLength \<le> sz
         then \<exists>d'. encodeAbort pv err checkpoint sz d off = (Ok (), d', off + kAbortLength) \<and>
                decodeAbort d' off sz = (Ok (pv, errorCode_num err, checkpoint), off + kAbortLength) \<and>
                errorCode_of_num (errorCode_num err) = Some err
         else encodeAbort pv err checkpoint sz d off = (Fail, d, off) \<and> decodeAbort d off sz = (Fail, off)"
proof (cases "off + kAbortLength \<le> sz")
  case True
  let ?w = "wire_abort pv err checkpoint"
  have fits: "off + int (length ?w) \<le> sz" using True by simp
  note e = enc_spec_fits [OF encodeAbort_spec ib fits]
  note lens = in_buffer_lens [OF ib fits]
  have "drop (nat off) (write_at (nat off) ?w d) = ?w @ drop (nat off + length ?w) d"
    using lens by (simp add: write_at_def)
  moreover have "in_buffer sz (write_at (nat off) ?w d) off"
    using ib lens by (simp add: in_buffer_def)
  ultimately have "run_decoder abort_body (write_at (nat off) ?w d) off sz
      = (Ok (pv, errorCode_num err, checkpoint), off + int (length ?w))"
    using abort_body_spec [OF vals] fits
    by (intro run_decoder_at) (auto simp: dec_spec_def)
  then show ?thesis using True e by (simp add: decodeAbort_def)
next
  case False
  then show ?thesis by (simp add: encodeAbort_def decodeAbort_def)
qed

theorem encodeAbort_decodeAbort_witness:
  "\<exists>d'. encodeAbort 30 INVALID_CHECKPOINT 12 20 (replicate 20 0) 2 = (Ok (), d', 15) \<and>
     decodeAbort d' 2 20 = (Ok (30, 23, 12), 15)"
  using encodeAbort_decodeAbort [of 20 "replicate 20 0" 2 30 12 INVALID_CHECKPOINT]
  by (auto simp: in_buffer_def nonneg_i32_def nonneg_i64_def kAbortLength_def)

text \<open>C33: \<open>encodeFileChunksInfoList\<close> started at any index writes, without ever running
  out of room or failing a check, the entries of a prefix of the remaining list except
  those that can never fit, reports how many it wrote, and
  \<open>decodeFileChunksInfoList\<close> on the written region returns exactly these entries.\<close>

theorem fileChunksInfoList_roundtrip:
  assumes wf: "\<forall>f \<in> set fs. wf_fci f" and ib: "in_buffer sz d off"
  shows "\<exists>k es d' off'. es = filter (encodable sz off) (take k (drop (nat start) fs)) \<and>
           encodeFileChunksInfoList sz start fs d off = (Ok (int (length es)), d', off') \<and>
           off' \<le> sz \<and> decodeFileChunksInfoList d' off off' = (Ok es, off')"
proof -
  have "\<forall>f \<in> set (drop (nat start) fs). wf_fci f" using wf by (meson in_set_dropD)
  then obtain k where k: "encoded_as (filter (encodable sz off) (take k (drop (nat start) fs))) sz 0 d off
      (encode_list_loop sz off 0 (drop (nat start) fs) d off)"
    using encode_list_loop_spec [OF _ ib] by blast
  define es where "es = filter (encodable sz off) (take k (drop (nat start) fs))"
  let ?w = "concat (map wire_fci es)"
  let ?d = "write_at (nat off) ?w d" and ?off = "off + int (length ?w)"
  have e: "encodeFileChunksInfoList sz start fs d off = (Ok (int (length es)), ?d, ?off)" and fits: "?off \<le> sz"
    using k by (simp_all add: encodeFileChunksInfoList_def encoded_as_def es_def)
  have "\<forall>f \<in> set es. ok_fci f"
    using wf by (auto simp: es_def wf_fci_def dest: in_set_takeD in_set_dropD)
  then have l: "decode_list_loop ?w ?w = (Ok es, [])" by (rule decode_list_loop_wire)
  note lens = in_buffer_lens [OF ib fits]
  have "makeByteRange ?d ?off off = Ok ?w"
    using ib lens by (simp add: makeByteRange_def in_buffer_def write_at_def)
  then have "decodeFileChunksInfoList ?d off ?off = (Ok es, ?off)"
    using l by (simp add: decodeFileChunksInfoList_def run_decoder_def offset_def)
  then show ?thesis using e fits es_def by blast
qed

theorem fileChunksInfoList_roundtrip_witness:
  "\<exists>k es d' off'. es = filter (encodable 200 0) (take k [\<lparr>fc_seqId = 1, fc_fileName = ''f'', fc_fileSize = 9,
        fc_chunks = [mkInterval 2 3]\<rparr>]) \<and>
     encodeFileChunksInfoList 200 0 [\<lparr>fc_seqId = 1, fc_fileName = ''f'', fc_fileSize = 9,
        fc_chunks = [mkInterval 2 3]\<rparr>] (replicate 200 0) 0 = (Ok (int (length es)), d', off') \<and>
     decodeFileChunksInfoList d' 0 off' = (Ok es, off')"
proof -
  let ?fs = "[\<lparr>fc_seqId = 1, fc_fileName = ''f'', fc_fileSize = 9, fc_chunks = [mkInterval 2 3]\<rparr>]"
  have "\<forall>f \<in> set ?fs. wf_fci f"
    by (simp add: wf_fci_def ok_fci_def ok_chunk_def nonneg_i64_def short_string_def)
  then show ?thesis
    using fileChunksInfoList_roundtrip [of ?fs 200 "replicate 200 0" 0 0] by (simp add: in_buffer_def) blast
qed

lemma decode_list_loop_within: "suffix br obr \<Longrightarrow>
    fst (decode_list_loop obr br) \<noteq> Abort \<and> suffix (snd (decode_list_loop obr br)) obr"
proof (induction obr br rule: decode_list_loop.induct)
  case (1 obr br)
  obtain r br' where d: "decodeFileChunksInfo br = (r, br')" by (cases "decodeFileChunksInfo br")
  have r: "r \<noteq> Abort" "suffix br' obr"
    using decodeFileChunksInfo_within [of obr] 1(2) d by (force simp: dec_within_def)+
  show ?case
  proof (cases "br \<noteq> [] \<and> (\<exists>f. r = Ok f)")
    case True
    then obtain f where f: "r = Ok f" by blast
    have ih: "fst (decode_list_loop obr br') \<noteq> Abort \<and> suffix (snd (decode_list_loop obr br')) obr"
      using True f d r 1(1) by auto
    obtain r2 b2 where "decode_list_loop obr br' = (r2, b2)" by (cases "decode_list_loop obr br'")
    with ih show ?thesis using True f d
      by (subst (1 2) decode_list_loop.simps) (cases r2, simp_all)
  next
    case False
    then show ?thesis using d r 1(2) by (subst (1 2) decode_list_loop.simps) (cases r, auto)
  qed
qed

definition robust :: "(bytes \<Rightarrow> int \<Rightarrow> int \<Rightarrow> 'a outcome \<times> int) \<Rightarrow> bool" where
  "robust dec \<longleftrightarrow> (\<forall>d off sz. in_buffer sz d off \<longrightarrow>
     fst (dec d off sz) \<noteq> Abort \<and> off \<le> snd (dec d off sz) \<and> snd (dec d off sz) \<le> sz)"

lemma robust_run: "dec_safe (\<lambda>br. body br br) \<Longrightarrow> robust (run_decoder body)"
  by (simp add: robust_def run_decoder_total)


end
