(* ===== verification/Transfer_Stats.thy ===== *)
theory Transfer_Stats
  imports Error_Codes
begin

text \<open>
  \<open>TransferStats\<close> and \<open>TransferReport\<close> of \<open>Reporting.h\<close> and \<open>Reporting.cpp\<close>:
  the counters every thread and every source keeps, how they are summed, and how
  the final status of a transfer is decided on both sides.  The optional lock of
  \<open>TransferStats\<close> makes each method atomic; a method is one state update here.
\<close>

section \<open>Statistics\<close>

datatype EncryptionType = ENC_NONE | ENC_AES128_CTR | ENC_AES128_GCM | NUM_ENC_TYPES

record TransferStats =
  ts_headerBytes :: int
  ts_dataBytes :: int
  ts_effectiveHeaderBytes :: int
  ts_effectiveDataBytes :: int
  ts_numFiles :: int
  ts_numBlocks :: int
  ts_failedAttempts :: int
  ts_numBlocksSend :: int
  ts_totalSenderBytes :: int
  ts_localErrCode :: ErrorCode
  ts_remoteErrCode :: ErrorCode
  ts_id :: string
  ts_encryptionType :: EncryptionType
  ts_tls :: bool

definition newStats :: TransferStats where
  "newStats = \<lparr>ts_headerBytes = 0, ts_dataBytes = 0, ts_effectiveHeaderBytes = 0,
     ts_effectiveDataBytes = 0, ts_numFiles = 0, ts_numBlocks = 0, ts_failedAttempts = 0,
     ts_numBlocksSend = - 1, ts_totalSenderBytes = - 1, ts_localErrCode = OK,
     ts_remoteErrCode = OK, ts_id = [], ts_encryptionType = ENC_NONE, ts_tls = False\<rparr>"

definition newStatsId :: "string \<Rightarrow> TransferStats" where
  "newStatsId i = newStats\<lparr>ts_id := i\<rparr>"

definition resetStats :: "TransferStats \<Rightarrow> TransferStats" where
  "resetStats s = s\<lparr>ts_headerBytes := 0, ts_dataBytes := 0, ts_effectiveHeaderBytes := 0,
     ts_effectiveDataBytes := 0, ts_numFiles := 0, ts_numBlocks := 0, ts_failedAttempts := 0,
     ts_localErrCode := OK, ts_remoteErrCode := OK\<rparr>"

definition getTotalBytes :: "TransferStats \<Rightarrow> int" where
  "getTotalBytes s = ts_headerBytes s + ts_dataBytes s"

definition getEffectiveTotalBytes :: "TransferStats \<Rightarrow> int" where
  "getEffectiveTotalBytes s = ts_effectiveHeaderBytes s + ts_effectiveDataBytes s"

definition getErrorCode :: "TransferStats \<Rightarrow> ErrorCode" where
  "getErrorCode s = getMoreInterestingError (ts_localErrCode s) (ts_remoteErrCode s)"

definition addDataBytes :: "int \<Rightarrow> TransferStats \<Rightarrow> TransferStats" where
  "addDataBytes count s = s\<lparr>ts_dataBytes := ts_dataBytes s + count\<rparr>"

definition addHeaderBytes :: "int \<Rightarrow> TransferStats \<Rightarrow> TransferStats" where
  "addHeaderBytes count s = s\<lparr>ts_headerBytes := ts_headerBytes s + count\<rparr>"

definition setNumBlocksSend :: "int \<Rightarrow> TransferStats \<Rightarrow> TransferStats" where
  "setNumBlocksSend n s = s\<lparr>ts_numBlocksSend := n\<rparr>"

definition setTotalSenderBytes :: "int \<Rightarrow> TransferStats \<Rightarrow> TransferStats" where
  "setTotalSenderBytes n s = s\<lparr>ts_totalSenderBytes := n\<rparr>"

definition incrFailedAttempts :: "TransferStats \<Rightarrow> TransferStats" where
  "incrFailedAttempts s = s\<lparr>ts_failedAttempts := ts_failedAttempts s + 1\<rparr>"

definition setLocalErrorCode :: "ErrorCode \<Rightarrow> TransferStats \<Rightarrow> TransferStats" where
  "setLocalErrorCode e s = s\<lparr>ts_localErrCode := e\<rparr>"

definition setRemoteErrorCode :: "ErrorCode \<Rightarrow> TransferStats \<Rightarrow> TransferStats" where
  "setRemoteErrorCode e s = s\<lparr>ts_remoteErrCode := e\<rparr>"

definition setNumFiles :: "int \<Rightarrow> TransferStats \<Rightarrow> TransferStats" where
  "setNumFiles n s = s\<lparr>ts_numFiles := n\<rparr>"

definition incrStatsBlocks :: "TransferStats \<Rightarrow> TransferStats" where
  "incrStatsBlocks s = s\<lparr>ts_numBlocks := ts_numBlocks s + 1\<rparr>"

definition decrStatsBlocks :: "TransferStats \<Rightarrow> TransferStats" where
  "decrStatsBlocks s = s\<lparr>ts_numBlocks := ts_numBlocks s - 1\<rparr>"

definition setId :: "string \<Rightarrow> TransferStats \<Rightarrow> TransferStats" where
  "setId i s = s\<lparr>ts_id := i\<rparr>"

definition setEncryptionType :: "EncryptionType \<Rightarrow> TransferStats \<Rightarrow> TransferStats" where
  "setEncryptionType e s = s\<lparr>ts_encryptionType := e\<rparr>"

definition setTls :: "bool \<Rightarrow> TransferStats \<Rightarrow> TransferStats" where
  "setTls b s = s\<lparr>ts_tls := b\<rparr>"

definition addEffectiveBytes :: "int \<Rightarrow> int \<Rightarrow> TransferStats \<Rightarrow> TransferStats" where
  "addEffectiveBytes headerBytes dataBytes s =
     s\<lparr>ts_effectiveHeaderBytes := ts_effectiveHeaderBytes s + headerBytes,
       ts_effectiveDataBytes := ts_effectiveDataBytes s + dataBytes\<rparr>"

definition subtractEffectiveBytes :: "int \<Rightarrow> int \<Rightarrow> TransferStats \<Rightarrow> TransferStats" where
  "subtractEffectiveBytes headerBytes dataBytes s =
     s\<lparr>ts_effectiveHeaderBytes := ts_effectiveHeaderBytes s - headerBytes,
       ts_effectiveDataBytes := ts_effectiveDataBytes s - dataBytes\<rparr>"

lemmas stats_defs = newStats_def newStatsId_def resetStats_def getTotalBytes_def
  getEffectiveTotalBytes_def addDataBytes_def addHeaderBytes_def setNumBlocksSend_def
  setTotalSenderBytes_def incrFailedAttempts_def setLocalErrorCode_def setRemoteErrorCode_def
  setNumFiles_def incrStatsBlocks_def decrStatsBlocks_def addEffectiveBytes_def
  subtractEffectiveBytes_def

text \<open>\<open>operator+=\<close>: a value of -1 means that the sender's count is not known.\<close>

definition mergeSend :: "int \<Rightarrow> int \<Rightarrow> int" where
  "mergeSend mine other = (if mine = - 1 then other else mine)"

definition sendMismatch :: "int \<Rightarrow> int \<Rightarrow> bool" where
  "sendMismatch mine other \<longleftrightarrow> mine \<noteq> - 1 \<and> other \<noteq> - 1 \<and> mine \<noteq> other"

definition plusStats :: "TransferStats \<Rightarrow> TransferStats \<Rightarrow> TransferStats" where
  "plusStats s t =
     (let mismatch = sendMismatch (ts_numBlocksSend s) (ts_numBlocksSend t) \<or>
                     sendMismatch (ts_totalSenderBytes s) (ts_totalSenderBytes t);
          loc = (if mismatch then ERROR else ts_localErrCode s);
          s' = s\<lparr>ts_headerBytes := ts_headerBytes s + ts_headerBytes t,
                 ts_dataBytes := ts_dataBytes s + ts_dataBytes t,
                 ts_effectiveHeaderBytes := ts_effectiveHeaderBytes s + ts_effectiveHeaderBytes t,
                 ts_effectiveDataBytes := ts_effectiveDataBytes s + ts_effectiveDataBytes t,
                 ts_numFiles := ts_numFiles s + ts_numFiles t,
                 ts_numBlocks := ts_numBlocks s + ts_numBlocks t,
                 ts_failedAttempts := ts_failedAttempts s + ts_failedAttempts t,
                 ts_numBlocksSend := mergeSend (ts_numBlocksSend s) (ts_numBlocksSend t),
                 ts_totalSenderBytes := mergeSend (ts_totalSenderBytes s) (ts_totalSenderBytes t),
                 ts_localErrCode := getMoreInterestingError loc (ts_localErrCode t),
                 ts_remoteErrCode := getMoreInterestingError (ts_remoteErrCode s) (ts_remoteErrCode t)\<rparr>
      in if ts_localErrCode t = OK \<and> ts_remoteErrCode t = OK
         then s'\<lparr>ts_encryptionType := ts_encryptionType t, ts_tls := ts_tls t\<rparr> else s')"

definition sumStats :: "TransferStats list \<Rightarrow> TransferStats" where
  "sumStats ts = foldl plusStats newStats ts"

section \<open>Reports\<close>

record TransferReport =
  tr_summary :: TransferStats
  tr_transferredSourceStats :: "TransferStats list"
  tr_failedSourceStats :: "TransferStats list"
  tr_threadStats :: "TransferStats list"
  tr_failedDirectories :: "string list"
  tr_totalFileSize :: int
  tr_numDiscoveredFiles :: int
  tr_previouslySentBytes :: int
  tr_fileDiscoveryFinished :: bool

definition setErrorCode :: "ErrorCode \<Rightarrow> TransferStats \<Rightarrow> TransferStats" where
  "setErrorCode e s = setRemoteErrorCode e (setLocalErrorCode e s)"

definition addReportStats :: "TransferStats \<Rightarrow> TransferReport \<Rightarrow> TransferReport" where
  "addReportStats stats r = r\<lparr>tr_summary := plusStats (tr_summary r) stats\<rparr>"

definition setTotalFileSize :: "int \<Rightarrow> TransferReport \<Rightarrow> TransferReport" where
  "setTotalFileSize n r = r\<lparr>tr_totalFileSize := n\<rparr>"

text \<open>The status the sender's report ends with.\<close>

definition senderSummaryError ::
  "TransferStats list \<Rightarrow> TransferStats list \<Rightarrow> string list \<Rightarrow> int \<Rightarrow> ErrorCode" where
  "senderSummaryError failedSourceStats threadStats failedDirectories totalFileSize =
     (let summary = sumStats threadStats;
          atLeastOneOk = list_ex (\<lambda>s. getErrorCode s = OK) threadStats;
          possiblyOk = (failedDirectories = [] \<and> failedSourceStats = []);
          e1 = (if failedDirectories \<noteq> []
                then getMoreInterestingError (getErrorCode summary) BYTE_SOURCE_READ_ERROR
                else getErrorCode summary);
          e2 = foldl (\<lambda>e s. getMoreInterestingError e (getErrorCode s)) e1 failedSourceStats
      in if ts_effectiveDataBytes summary \<noteq> totalFileSize
         then (if e2 = OK then ERROR else e2)
         else (if e2 \<noteq> OK \<and> possiblyOk \<and> atLeastOneOk then OK else e2))"

definition senderReport ::
  "TransferStats list \<Rightarrow> TransferStats list \<Rightarrow> TransferStats list \<Rightarrow> string list \<Rightarrow> int \<Rightarrow> int \<Rightarrow>
   int \<Rightarrow> bool \<Rightarrow> TransferReport" where
  "senderReport transferred failed threads failedDirs totalFileSize numDiscovered previouslySent
     discoveryFinished =
     (let e = senderSummaryError failed threads failedDirs totalFileSize;
          numTransferredFiles = numDiscovered - int (card (set (map ts_id failed)))
      in \<lparr>tr_summary = setNumFiles numTransferredFiles (setErrorCode e (sumStats threads)),
          tr_transferredSourceStats = transferred, tr_failedSourceStats = failed,
          tr_threadStats = threads, tr_failedDirectories = failedDirs,
          tr_totalFileSize = totalFileSize, tr_numDiscoveredFiles = numDiscovered,
          tr_previouslySentBytes = previouslySent,
          tr_fileDiscoveryFinished = discoveryFinished\<rparr>)"

text \<open>The constructors the progress reporter uses; times are not kept.\<close>

definition emptyReport :: TransferReport where
  "emptyReport = \<lparr>tr_summary = newStats, tr_transferredSourceStats = [], tr_failedSourceStats = [],
     tr_threadStats = [], tr_failedDirectories = [], tr_totalFileSize = 0,
     tr_numDiscoveredFiles = 0, tr_previouslySentBytes = 0, tr_fileDiscoveryFinished = False\<rparr>"

definition globalStatsReport :: "TransferStats \<Rightarrow> int \<Rightarrow> int \<Rightarrow> bool \<Rightarrow> TransferReport" where
  "globalStatsReport globalStats totalFileSize numDiscovered discoveryFinished =
     emptyReport\<lparr>tr_summary := globalStats, tr_totalFileSize := totalFileSize,
       tr_numDiscoveredFiles := numDiscovered, tr_fileDiscoveryFinished := discoveryFinished\<rparr>"

definition threadStatsReport :: "TransferStats list \<Rightarrow> int \<Rightarrow> int \<Rightarrow> bool \<Rightarrow> TransferReport" where
  "threadStatsReport threads totalFileSize numDiscovered discoveryFinished =
     emptyReport\<lparr>tr_summary := sumStats threads, tr_totalFileSize := totalFileSize,
       tr_numDiscoveredFiles := numDiscovered, tr_fileDiscoveryFinished := discoveryFinished\<rparr>"

definition receiverSummaryError :: "TransferStats \<Rightarrow> ErrorCode" where
  "receiverSummaryError s =
     (let numBlocksSend = ts_numBlocksSend s; numBytesSend = ts_totalSenderBytes s;
          e = ts_localErrCode s
      in if numBlocksSend = - 1 \<or> numBlocksSend \<noteq> ts_numBlocks s
         then getMoreInterestingError e ERROR
         else if numBytesSend \<noteq> - 1 \<and> numBytesSend \<noteq> ts_effectiveDataBytes s
         then getMoreInterestingError e ERROR
         else if e \<noteq> OK \<and> e \<noteq> ENCRYPTION_ERROR then OK else e)"

definition receiverReport :: "TransferStats \<Rightarrow> TransferReport" where
  "receiverReport globalStats =
     emptyReport\<lparr>tr_summary := setLocalErrorCode (receiverSummaryError globalStats) globalStats\<rparr>"

definition progressPercent :: "TransferReport \<Rightarrow> int" where
  "progressPercent report =
     (if tr_totalFileSize report > 0
      then let n = ts_effectiveDataBytes (tr_summary report) * 100
           in sgn n * (\<bar>n\<bar> div tr_totalFileSize report) else 0)"

section \<open>Sums\<close>

lemma plusStats_sel [simp]:
  "ts_effectiveDataBytes (plusStats s t) = ts_effectiveDataBytes s + ts_effectiveDataBytes t"
  "ts_numBlocks (plusStats s t) = ts_numBlocks s + ts_numBlocks t"
  "ts_headerBytes (plusStats s t) = ts_headerBytes s + ts_headerBytes t"
  "ts_dataBytes (plusStats s t) = ts_dataBytes s + ts_dataBytes t"
  "ts_numBlocksSend (plusStats s t) = mergeSend (ts_numBlocksSend s) (ts_numBlocksSend t)"
  "ts_totalSenderBytes (plusStats s t) = mergeSend (ts_totalSenderBytes s) (ts_totalSenderBytes t)"
  "ts_remoteErrCode (plusStats s t) = getMoreInterestingError (ts_remoteErrCode s) (ts_remoteErrCode t)"
  "ts_localErrCode (plusStats s t) = getMoreInterestingError
     (if sendMismatch (ts_numBlocksSend s) (ts_numBlocksSend t) \<or>
         sendMismatch (ts_totalSenderBytes s) (ts_totalSenderBytes t) then ERROR else ts_localErrCode s)
     (ts_localErrCode t)"
  by (simp_all add: plusStats_def Let_def)

lemma getTotalBytes_plus [simp]: "getTotalBytes (plusStats s t) = getTotalBytes s + getTotalBytes t"
  by (simp add: getTotalBytes_def)

lemma foldl_effective:
  "ts_effectiveDataBytes (foldl plusStats s ts)
     = ts_effectiveDataBytes s + sum_list (map ts_effectiveDataBytes ts)"
  by (induction ts arbitrary: s) simp_all

lemma foldl_numBlocks:
  "ts_numBlocks (foldl plusStats s ts) = ts_numBlocks s + sum_list (map ts_numBlocks ts)"
  by (induction ts arbitrary: s) simp_all

lemma foldl_totalBytes:
  "getTotalBytes (foldl plusStats s ts) = getTotalBytes s + sum_list (map getTotalBytes ts)"
  by (induction ts arbitrary: s) simp_all

lemmas foldl_plusStats = foldl_effective foldl_numBlocks foldl_totalBytes

lemma getErrorCode_OK_iff: "getErrorCode s = OK \<longleftrightarrow> ts_localErrCode s = OK \<and> ts_remoteErrCode s = OK"
  by (simp add: getErrorCode_def)

lemma plusStats_OK_iff:
  "getErrorCode (plusStats s t) = OK \<longleftrightarrow> getErrorCode s = OK \<and> getErrorCode t = OK \<and>
     \<not> sendMismatch (ts_numBlocksSend s) (ts_numBlocksSend t) \<and>
     \<not> sendMismatch (ts_totalSenderBytes s) (ts_totalSenderBytes t)"
  by (auto simp: getErrorCode_OK_iff)

text \<open>All known sender counts of a list agree.\<close>

definition counts_agree :: "int list \<Rightarrow> bool" where
  "counts_agree ns \<longleftrightarrow> (\<forall>a \<in> set ns. \<forall>b \<in> set ns. a \<noteq> - 1 \<longrightarrow> b \<noteq> - 1 \<longrightarrow> a = b)"

lemma counts_agree_merge:
  "counts_agree (a # b # ns) \<longleftrightarrow> \<not> sendMismatch a b \<and> counts_agree (mergeSend a b # ns)"
  by (auto simp: counts_agree_def sendMismatch_def mergeSend_def)

lemma foldl_plusStats_OK_iff:
  "getErrorCode (foldl plusStats s ts) = OK \<longleftrightarrow>
     (\<forall>t \<in> set (s # ts). getErrorCode t = OK) \<and>
     counts_agree (map ts_numBlocksSend (s # ts)) \<and> counts_agree (map ts_totalSenderBytes (s # ts))"
proof (induction ts arbitrary: s)
  case Nil
  then show ?case by (simp add: counts_agree_def)
next
  case (Cons t ts)
  show ?case using Cons [of "plusStats s t"]
    by (auto simp: plusStats_OK_iff counts_agree_merge)
qed

lemma foldl_interesting_OK:
  "foldl (\<lambda>e s. getMoreInterestingError e (getErrorCode s)) e0 xs = OK \<longleftrightarrow>
     e0 = OK \<and> (\<forall>x \<in> set xs. getErrorCode x = OK)"
  by (induction xs arbitrary: e0) auto

section \<open>Properties\<close>

text \<open>The sum of the thread statistics adds up every byte and block counter, and
  its error code is OK exactly when every thread ended OK and no two threads report
  different sender block or byte totals.\<close>

theorem sumStats_correct:
  "ts_effectiveDataBytes (sumStats ts) = sum_list (map ts_effectiveDataBytes ts) \<and>
   ts_numBlocks (sumStats ts) = sum_list (map ts_numBlocks ts) \<and>
   getTotalBytes (sumStats ts) = sum_list (map getTotalBytes ts) \<and>
   (getErrorCode (sumStats ts) = OK \<longleftrightarrow> list_all (\<lambda>t. getErrorCode t = OK) ts \<and>
      counts_agree (map ts_numBlocksSend ts) \<and> counts_agree (map ts_totalSenderBytes ts))"
proof (intro conjI)
  show "ts_effectiveDataBytes (sumStats ts) = sum_list (map ts_effectiveDataBytes ts)"
    by (simp add: sumStats_def foldl_effective newStats_def)
  show "ts_numBlocks (sumStats ts) = sum_list (map ts_numBlocks ts)"
    by (simp add: sumStats_def foldl_numBlocks newStats_def)
  show "getTotalBytes (sumStats ts) = sum_list (map getTotalBytes ts)"
    by (simp add: sumStats_def foldl_totalBytes getTotalBytes_def [of newStats]) (simp add: newStats_def)
  have "counts_agree (- 1 # ns) = counts_agree ns" for ns by (auto simp: counts_agree_def)
  moreover have "getErrorCode newStats = OK" "ts_numBlocksSend newStats = - 1"
    "ts_totalSenderBytes newStats = - 1" by (simp_all add: newStats_def getErrorCode_OK_iff)
  ultimately show "getErrorCode (sumStats ts) = OK \<longleftrightarrow> list_all (\<lambda>t. getErrorCode t = OK) ts \<and>
      counts_agree (map ts_numBlocksSend ts) \<and> counts_agree (map ts_totalSenderBytes ts)"
    by (simp add: sumStats_def foldl_plusStats_OK_iff list_all_iff)
qed

lemma senderReport_OK:
  "getErrorCode (tr_summary (senderReport transferred failed threads failedDirs totalFileSize
      numDiscovered previouslySent fin)) = OK \<longleftrightarrow>
   sum_list (map ts_effectiveDataBytes threads) = totalFileSize \<and> failedDirs = [] \<and>
   (getErrorCode (sumStats threads) = OK \<and> list_all (\<lambda>s. getErrorCode s = OK) failed \<or>
    failed = [] \<and> list_ex (\<lambda>s. getErrorCode s = OK) threads)"
proof -
  have err: "getErrorCode (setNumFiles n (setErrorCode e s)) = e" for n e s
    by (simp add: getErrorCode_def setNumFiles_def setErrorCode_def setRemoteErrorCode_def
        setLocalErrorCode_def getMoreInterestingError_def)
  have "ts_effectiveDataBytes (sumStats threads) = sum_list (map ts_effectiveDataBytes threads)"
    by (simp add: sumStats_def foldl_plusStats newStats_def)
  then show ?thesis
    by (auto simp: senderReport_def senderSummaryError_def Let_def err foldl_interesting_OK list_all_iff)
qed

text \<open>C28: the sender's report says OK exactly when all discovered bytes were
  effectively transferred and either nothing at all went wrong, or only threads
  failed, no file or directory did, and at least one thread ended OK.\<close>

theorem senderReport_OK_iff:
  "getErrorCode (tr_summary (senderReport transferred failed threads failedDirs totalFileSize
      numDiscovered previouslySent fin)) = OK \<longleftrightarrow>
   sum_list (map ts_effectiveDataBytes threads) = totalFileSize \<and> failedDirs = [] \<and>
   (getErrorCode (sumStats threads) = OK \<and> list_all (\<lambda>s. getErrorCode s = OK) failed \<or>
    failed = [] \<and> list_ex (\<lambda>s. getErrorCode s = OK) threads)"
  by (rule senderReport_OK)

text \<open>The receiver's report keeps the remote status and turns the local one into OK
  exactly when the sender's block count is known and equals the blocks received, the
  sender's byte count is unknown or equals the effective bytes received, and no
  encryption error occurred.\<close>

lemma receiverReport_local_OK_iff:
  "ts_localErrCode (tr_summary (receiverReport s)) = OK \<longleftrightarrow>
     ts_numBlocksSend s \<noteq> - 1 \<and> ts_numBlocksSend s = ts_numBlocks s \<and>
     (ts_totalSenderBytes s = - 1 \<or> ts_totalSenderBytes s = ts_effectiveDataBytes s) \<and>
     ts_localErrCode s \<noteq> ENCRYPTION_ERROR"
  by (auto simp: receiverReport_def receiverSummaryError_def setLocalErrorCode_def Let_def)

end
