(* ===== verification/Byte_Source.thy ===== *)
theory Byte_Source
  imports Transfer_Stats Protocol_Codec
begin

text \<open>
  \<open>SourceMetaData\<close> of \<open>ByteSource.h\<close> and the file backed byte source of
  \<open>util/FileByteSource.cpp\<close>: a block \<open>[offset, offset + size)\<close> of a file that is
  opened, read piece by piece (with disk block alignment for direct reads) and
  closed.  The operating system is a parameter: \<open>openForRead\<close> returns a
  descriptor and \<open>pread\<close> the bytes read, or \<open>None\<close> for an error.
\<close>

section \<open>Data\<close>

record SourceMetaData =
  md_fullPath :: string
  md_relPath :: string
  md_seqId :: int
  md_size :: int
  md_allocationStatus :: FileAllocationStatus
  md_prevSeqId :: int
  md_directReads :: bool
  md_fd :: int
  md_needToClose :: bool

definition newMetaData :: SourceMetaData where
  "newMetaData = \<lparr>md_fullPath = [], md_relPath = [], md_seqId = 0, md_size = 0,
     md_allocationStatus = NOT_EXISTS, md_prevSeqId = 0, md_directReads = False, md_fd = - 1,
     md_needToClose = False\<rparr>"

text \<open>
  The metadata of a file is shared by its blocks; it only changes while no block of
  the file exists, so every source carries its own copy here.
\<close>

record ByteSource =
  bs_meta :: SourceMetaData
  bs_size :: int
  bs_offset :: int
  bs_bytesRead :: int
  bs_fd :: int
  bs_alignedReadNeeded :: bool
  bs_stats :: TransferStats

definition newSource :: "SourceMetaData \<Rightarrow> int \<Rightarrow> int \<Rightarrow> ByteSource" where
  "newSource metadata sz off = \<lparr>bs_meta = metadata, bs_size = sz, bs_offset = off,
     bs_bytesRead = 0, bs_fd = - 1, bs_alignedReadNeeded = False,
     bs_stats = newStatsId (md_relPath metadata)\<rparr>"

definition getIdentifier :: "ByteSource \<Rightarrow> string" where
  "getIdentifier s = md_relPath (bs_meta s)"

definition kDiskBlockSize :: int where
  "kDiskBlockSize = 4 * 1024"

section \<open>Operations\<close>

definition hasError :: "ByteSource \<Rightarrow> bool" where
  "hasError s \<longleftrightarrow> md_allocationStatus (bs_meta s) \<noteq> TO_BE_DELETED \<and> bs_fd s < 0"

definition source_finished :: "ByteSource \<Rightarrow> bool" where
  "source_finished s \<longleftrightarrow> bs_bytesRead s = bs_size s \<and> \<not> hasError s"

definition closeSource :: "ByteSource \<Rightarrow> ByteSource" where
  "closeSource s = s\<lparr>bs_fd := - 1\<rparr>"

text \<open>On Linux \<open>O_DIRECT\<close> is defined: direct reads need alignment.\<close>

definition openSource :: "(string \<Rightarrow> bool \<Rightarrow> int) \<Rightarrow> ByteSource \<Rightarrow> ErrorCode \<times> ByteSource" where
  "openSource openForRead s =
     (if md_allocationStatus (bs_meta s) = TO_BE_DELETED then (OK, s)
      else let s1 = closeSource (s\<lparr>bs_bytesRead := 0\<rparr>);
               s2 = (if md_directReads (bs_meta s1) then s1\<lparr>bs_alignedReadNeeded := True\<rparr> else s1);
               fd = (if md_fd (bs_meta s2) \<ge> 0 then md_fd (bs_meta s2)
                     else openForRead (md_fullPath (bs_meta s2)) (md_directReads (bs_meta s2)));
               e = (if md_fd (bs_meta s2) < 0 \<and> fd < 0 then BYTE_SOURCE_READ_ERROR else OK)
           in (e, s2\<lparr>bs_fd := fd, bs_stats := setLocalErrorCode e (bs_stats s2)\<rparr>))"

definition advanceOffset :: "int \<Rightarrow> ByteSource \<Rightarrow> ByteSource" where
  "advanceOffset numBytes s =
     s\<lparr>bs_offset := bs_offset s + numBytes, bs_size := bs_size s - numBytes\<rparr>"

definition addTransferStats :: "TransferStats \<Rightarrow> ByteSource \<Rightarrow> ByteSource" where
  "addTransferStats t s = s\<lparr>bs_stats := plusStats (bs_stats s) t\<rparr>"

text \<open>What \<open>read\<close> asks for: the offset inside the disk block, the bytes wanted, and
  the bytes requested from the system.\<close>

definition read_window :: "int \<Rightarrow> ByteSource \<Rightarrow> int \<times> int \<times> int" where
  "read_window bufSize s =
     (let offsetRemainder = (if bs_alignedReadNeeded s
            then (bs_offset s + bs_bytesRead s) mod kDiskBlockSize else 0);
          logicalRead = min (bufSize - offsetRemainder) (bs_size s - bs_bytesRead s);
          physicalRead = (if bs_alignedReadNeeded s
            then (logicalRead + offsetRemainder + kDiskBlockSize - 1) div kDiskBlockSize * kDiskBlockSize
            else logicalRead)
      in (offsetRemainder, logicalRead, physicalRead))"

text \<open>
  \<open>read\<close> with a buffer of \<open>bufSize\<close> bytes: \<open>Ok None\<close> is the null pointer,
  \<open>Ok (Some bs)\<close> the bytes handed out, \<open>Abort\<close> the failed check.
\<close>

definition readSource ::
  "(int \<Rightarrow> int \<Rightarrow> int \<Rightarrow> bytes option) \<Rightarrow> int \<Rightarrow> ByteSource \<Rightarrow> bytes option outcome \<times> ByteSource" where
  "readSource pread bufSize s =
     (if hasError s \<or> source_finished s then (Ok None, s)
      else case read_window bufSize s of (offsetRemainder, logicalRead, physicalRead) \<Rightarrow>
        case pread (bs_fd s) physicalRead (bs_offset s + bs_bytesRead s - offsetRemainder) of
          None \<Rightarrow> (Ok None, (closeSource s)
                    \<lparr>bs_stats := setLocalErrorCode BYTE_SOURCE_READ_ERROR (bs_stats s)\<rparr>)
        | Some buf \<Rightarrow>
            if buf = [] then (Ok None, closeSource s)
            else let n = int (length buf) - offsetRemainder
                 in if n > logicalRead \<and> \<not> bs_alignedReadNeeded s then (Abort, s)
                    else let n' = min n logicalRead
                         in (Ok (Some (take (nat n') (drop (nat offsetRemainder) buf))),
                             s\<lparr>bs_bytesRead := bs_bytesRead s + n'\<rparr>))"

text \<open>Reading until the source is finished, as the sender does; \<open>fuel\<close> bounds the reads.\<close>

fun read_all :: "nat \<Rightarrow> (int \<Rightarrow> int \<Rightarrow> int \<Rightarrow> bytes option) \<Rightarrow> int \<Rightarrow> ByteSource \<Rightarrow> bytes \<times> ByteSource" where
  "read_all 0 pread bufSize s = ([], s)"
| "read_all (Suc n) pread bufSize s =
     (if source_finished s then ([], s)
      else case readSource pread bufSize s of
             (Ok (Some bs), s') \<Rightarrow> (case read_all n pread bufSize s' of (rest, s'') \<Rightarrow> (bs @ rest, s''))
           | (_, s') \<Rightarrow> ([], s'))"

lemma newSource_sel [simp]:
  "bs_meta (newSource m sz off) = m" "bs_size (newSource m sz off) = sz"
  "bs_offset (newSource m sz off) = off" "bs_stats (newSource m sz off) = newStatsId (md_relPath m)"
  by (simp_all add: newSource_def)

section \<open>Reads deliver the block\<close>

text \<open>Documented behaviour of \<open>pread\<close> on a file of fixed content: it returns the
  bytes from the position, up to the count, and at least one unless at the end.\<close>

definition pread_of :: "bytes \<Rightarrow> (int \<Rightarrow> int \<Rightarrow> int \<Rightarrow> bytes option) \<Rightarrow> bool" where
  "pread_of content pread \<longleftrightarrow> (\<forall>fd n pos. 0 \<le> n \<longrightarrow> 0 \<le> pos \<longrightarrow>
     pread fd n pos = Some (take (nat n) (drop (nat pos) content)))"

definition file_slice :: "int \<Rightarrow> int \<Rightarrow> bytes \<Rightarrow> bytes" where
  "file_slice off n content = take (nat n) (drop (nat off) content)"

lemma file_slice_append:
  assumes "0 \<le> a" "0 \<le> b" "0 \<le> off" "off + a \<le> int (length content)"
  shows "file_slice off (a + b) content = file_slice off a content @ file_slice (off + a) b content"
  using assms by (simp add: file_slice_def nat_add_distrib take_add add.commute)

definition readable :: "bytes \<Rightarrow> int \<Rightarrow> ByteSource \<Rightarrow> bool" where
  "readable content bufSize s \<longleftrightarrow> 0 \<le> bs_offset s \<and> 0 \<le> bs_bytesRead s \<and> bs_bytesRead s \<le> bs_size s \<and>
     bs_offset s + bs_size s \<le> int (length content) \<and> \<not> hasError s \<and> kDiskBlockSize \<le> bufSize"

lemma read_window_bounds:
  assumes rd: "readable content bufSize s" and nf: "\<not> source_finished s"
    and w: "read_window bufSize s = (r, l, p)"
  shows "0 \<le> r" "r \<le> bs_offset s + bs_bytesRead s" "0 < l" "l \<le> bs_size s - bs_bytesRead s"
    "l + r \<le> p" "\<not> bs_alignedReadNeeded s \<Longrightarrow> r = 0 \<and> p = l"
proof -
  have K: "kDiskBlockSize = 4096" by (simp add: kDiskBlockSize_def)
  have defs: "r = (if bs_alignedReadNeeded s then (bs_offset s + bs_bytesRead s) mod 4096 else 0)"
    "l = min (bufSize - r) (bs_size s - bs_bytesRead s)"
    "p = (if bs_alignedReadNeeded s then (l + r + 4096 - 1) div 4096 * 4096 else l)"
    using w by (auto simp: read_window_def Let_def K)
  show r: "0 \<le> r" "r \<le> bs_offset s + bs_bytesRead s"
    using rd by (auto simp: defs(1) readable_def intro: zmod_le_nonneg_dividend)
  have "r < 4096" by (simp add: defs(1))
  then show "0 < l" "l \<le> bs_size s - bs_bytesRead s"
    using rd nf by (auto simp: defs(2) readable_def source_finished_def K)
  show "\<not> bs_alignedReadNeeded s \<Longrightarrow> r = 0 \<and> p = l" by (simp add: defs(1,3))
  have "l + r \<le> (l + r + 4096 - 1) div 4096 * 4096"
    using div_mult_mod_eq [of "l + r + 4096 - 1" 4096] pos_mod_bound [of 4096 "l + r + 4096 - 1"] by simp
  then show "l + r \<le> p" by (cases "bs_alignedReadNeeded s") (simp_all add: defs(1,3))
qed

lemma readSource_slice:
  assumes rd: "readable content bufSize s" and pr: "pread_of content pread" and nf: "\<not> source_finished s"
  shows "\<exists>n. 0 < n \<and> n \<le> bs_size s - bs_bytesRead s \<and>
     readSource pread bufSize s = (Ok (Some (file_slice (bs_offset s + bs_bytesRead s) n content)),
       s\<lparr>bs_bytesRead := bs_bytesRead s + n\<rparr>)"
proof -
  let ?pos = "bs_offset s + bs_bytesRead s"
  obtain r l p where w: "read_window bufSize s = (r, l, p)" by (cases "read_window bufSize s")
  note b = read_window_bounds [OF rd nf w]
  define buf where "buf = take (nat p) (drop (nat (?pos - r)) content)"
  have len: "?pos + l \<le> int (length content)" using rd b by (simp add: readable_def)
  have blen: "l + r \<le> int (length buf)" using b len by (simp add: buf_def)
  then have "buf \<noteq> []" using b by auto
  moreover have "pread (bs_fd s) p (?pos - r) = Some buf"
    using pr b by (simp add: pread_of_def buf_def)
  moreover have "l < int (length buf) - r \<longrightarrow> bs_alignedReadNeeded s"
    using b by (cases "bs_alignedReadNeeded s") (auto simp: buf_def)
  ultimately have "readSource pread bufSize s = (Ok (Some (take (nat l) (drop (nat r) buf))),
       s\<lparr>bs_bytesRead := bs_bytesRead s + l\<rparr>)"
    using rd nf blen b(1) by (auto simp: readSource_def w Let_def readable_def min_absorb2)
  moreover have "take (nat l) (drop (nat r) buf) = file_slice ?pos l content"
    using b by (simp add: buf_def file_slice_def drop_take nat_diff_distrib min_absorb1)
  ultimately show ?thesis using b(3,4) by auto
qed

lemma read_all_slice:
  assumes "readable content bufSize s" "pread_of content pread"
    and "bs_size s - bs_bytesRead s \<le> int n"
  shows "fst (read_all n pread bufSize s)
           = file_slice (bs_offset s + bs_bytesRead s) (bs_size s - bs_bytesRead s) content \<and>
         source_finished (snd (read_all n pread bufSize s))"
  using assms
proof (induction n arbitrary: s)
  case 0
  then show ?case by (auto simp: readable_def file_slice_def source_finished_def)
next
  case (Suc n)
  show ?case
  proof (cases "source_finished s")
    case True
    then show ?thesis by (simp add: file_slice_def source_finished_def)
  next
    case False
    obtain k where k: "0 < k" "k \<le> bs_size s - bs_bytesRead s"
      and r: "readSource pread bufSize s = (Ok (Some (file_slice (bs_offset s + bs_bytesRead s) k content)),
         s\<lparr>bs_bytesRead := bs_bytesRead s + k\<rparr>)"
      using readSource_slice [OF Suc.prems(1,2) False] by blast
    let ?s = "s\<lparr>bs_bytesRead := bs_bytesRead s + k\<rparr>"
    have rd: "readable content bufSize ?s"
      using Suc.prems(1) k by (simp add: readable_def hasError_def)
    have "bs_size ?s - bs_bytesRead ?s \<le> int n" using Suc.prems(3) k by simp
    note ih = Suc.IH [OF rd Suc.prems(2) this]
    have "file_slice (bs_offset s + bs_bytesRead s) (bs_size s - bs_bytesRead s) content
        = file_slice (bs_offset s + bs_bytesRead s) k content @
          file_slice (bs_offset s + bs_bytesRead s + k) (bs_size s - (bs_bytesRead s + k)) content"
      using k Suc.prems(1) file_slice_append [of k "bs_size s - (bs_bytesRead s + k)"
          "bs_offset s + bs_bytesRead s" content] by (simp add: readable_def)
    then show ?thesis using False r ih by (auto simp: ac_simps split: prod.splits)
  qed
qed

section \<open>Properties\<close>



text \<open>When the buffer size is a multiple of the disk block size, as \<open>Buffer\<close>
  checks, the number of bytes \<open>read\<close> requests from the system never exceeds the
  buffer, for aligned and for plain reads alike.\<close>

theorem read_window_fits_buffer:
  assumes "readable content bufSize s" "\<not> source_finished s" "bufSize mod kDiskBlockSize = 0"
    and w: "read_window bufSize s = (r, l, p)"
  shows "0 < p \<and> p \<le> bufSize"
proof -
  note b = read_window_bounds [OF assms(1,2) w]
  obtain m where m: "bufSize = 4096 * m" using assms(3) by (auto simp: kDiskBlockSize_def)
  have lr: "l + r \<le> bufSize" using w by (auto simp: read_window_def Let_def)
  show ?thesis
  proof (cases "bs_alignedReadNeeded s")
    case True
    then have p: "p = (l + r + 4095) div 4096 * 4096"
      using w by (auto simp: read_window_def Let_def kDiskBlockSize_def add.commute)
    have "(l + r + 4095) div 4096 \<le> (4096 * m + 4095) div 4096"
      using lr m by (intro zdiv_mono1) auto
    also have "\<dots> = m" by simp
    finally show ?thesis using b p m by simp
  next
    case False
    then show ?thesis using b lr by auto
  qed
qed

theorem read_window_fits_buffer_witness:
  "\<exists>s r l p. read_window 8192 s = (r, l, p) \<and> 0 < p \<and> p \<le> 8192"
proof -
  let ?s = "(newSource newMetaData 9000 100)\<lparr>bs_fd := 3, bs_alignedReadNeeded := True\<rparr>"
  have "read_window 8192 ?s = (100, 8092, 8192)"
    by (simp add: read_window_def newSource_def kDiskBlockSize_def Let_def)
  moreover have "readable (replicate 10000 0) 8192 ?s" "\<not> source_finished ?s"
    by (simp_all add: readable_def source_finished_def hasError_def newSource_def newMetaData_def kDiskBlockSize_def)
  moreover from calculation have "0 < (8192 :: int) \<and> (8192 :: int) \<le> 8192"
    by (intro read_window_fits_buffer) (simp_all add: kDiskBlockSize_def)
  ultimately show ?thesis by blast
qed

end
