(* ===== verification/Source_Queue.thy ===== *)
theory Source_Queue
  imports Byte_Source "HOL-Library.Product_Lexorder" "HOL-Library.List_Lexorder"
    "HOL-Library.Char_ord" "HOL-Library.Multiset"
begin

text \<open>
  \<open>util/DirectorySourceQueue.h\<close> and \<open>.cpp\<close>: how discovered files are cut into
  blocks, the priority queue the sender threads draw from, what is queued after the
  receiver reported what it already has, and the counters the transfer is checked
  against.  Every method body between lock and unlock is one state update; the
  operating system (opening and statting files) and the abort flag are parameters.
\<close>

section \<open>Priority of sources\<close>

text \<open>\<open>SourceComparator(source1, source2)\<close>: source1 has lower priority.\<close>

definition SourceComparator :: "ByteSource \<Rightarrow> ByteSource \<Rightarrow> bool" where
  "SourceComparator s1 s2 =
     (let toBeDeleted1 = (md_allocationStatus (bs_meta s1) = TO_BE_DELETED);
          toBeDeleted2 = (md_allocationStatus (bs_meta s2) = TO_BE_DELETED);
          retryCount1 = ts_failedAttempts (bs_stats s1);
          retryCount2 = ts_failedAttempts (bs_stats s2)
      in if toBeDeleted1 \<noteq> toBeDeleted2 then toBeDeleted2
         else if retryCount1 \<noteq> retryCount2 then retryCount1 > retryCount2
         else if bs_size s1 \<noteq> bs_size s2 then bs_size s1 < bs_size s2
         else if bs_offset s1 \<noteq> bs_offset s2 then bs_offset s1 > bs_offset s2
         else getIdentifier s1 > getIdentifier s2)"

text \<open>The same order as a key: the smallest key goes first.\<close>

definition source_key :: "ByteSource \<Rightarrow> nat \<times> int \<times> int \<times> int \<times> string" where
  "source_key s =
     (if md_allocationStatus (bs_meta s) = TO_BE_DELETED then 0 else 1,
      ts_failedAttempts (bs_stats s), - bs_size s, bs_offset s, getIdentifier s)"

lemma SourceComparator_key: "SourceComparator s1 s2 \<longleftrightarrow> source_key s2 < source_key s1"
  by (auto simp: SourceComparator_def source_key_def Let_def less_prod_def')

text \<open>\<open>std::priority_queue\<close>, kept as the list of sources in the order they will be popped.\<close>

definition pq_push :: "ByteSource \<Rightarrow> ByteSource list \<Rightarrow> ByteSource list" where
  "pq_push s q = insort_key source_key s q"

definition pq_inv :: "ByteSource list \<Rightarrow> bool" where
  "pq_inv q \<longleftrightarrow> sorted (map source_key q)"

section \<open>State\<close>

record WdtFileInfo =
  fi_fileName :: string
  fi_fileSize :: int
  fi_fd :: int
  fi_directReads :: bool

record DirectorySourceQueue =
  q_rootDir :: string
  q_pruneDirPattern :: string
  q_includePattern :: string
  q_excludePattern :: string
  q_followSymlinks :: bool
  q_directReads :: bool
  q_exploreDirectory :: bool
  q_blockSizeMbytes :: int
  q_initCalled :: bool
  q_initFinished :: bool
  q_sourceQueue :: "ByteSource list"
  q_numWaiters :: int
  q_failedSourceStats :: "TransferStats list"
  q_failedDirectories :: "string list"
  q_numEntries :: int
  q_nextSeqId :: int
  q_numBlocks :: int
  q_totalFileSize :: int
  q_numBlocksDequeued :: int
  q_sharedFileData :: "SourceMetaData list"
  q_previouslyTransferredChunks :: "(string \<times> FileChunksInfo) list"
  q_previouslySentBytes :: int
  q_openFilesDuringDiscovery :: int
  q_numFilesOpened :: int
  q_numFilesOpenedWithDirect :: int
  q_numClientThreads :: int
  q_deleteFiles :: bool
  q_fileInfo :: "WdtFileInfo list"

definition newQueue :: "string \<Rightarrow> DirectorySourceQueue" where
  "newQueue root = \<lparr>q_rootDir = root, q_pruneDirPattern = [], q_includePattern = [],
     q_excludePattern = [], q_followSymlinks = False, q_directReads = False,
     q_exploreDirectory = True, q_blockSizeMbytes = 0, q_initCalled = False,
     q_initFinished = False, q_sourceQueue = [], q_numWaiters = 0, q_failedSourceStats = [],
     q_failedDirectories = [], q_numEntries = 0, q_nextSeqId = 1, q_numBlocks = 0,
     q_totalFileSize = 0, q_numBlocksDequeued = 0, q_sharedFileData = [],
     q_previouslyTransferredChunks = [], q_previouslySentBytes = 0,
     q_openFilesDuringDiscovery = 0, q_numFilesOpened = 0, q_numFilesOpenedWithDirect = 0,
     q_numClientThreads = 1, q_deleteFiles = False, q_fileInfo = []\<rparr>"

text \<open>\<open>setRootDir\<close>; \<open>resolvePath\<close> is \<open>realpath\<close>, empty on error.\<close>

definition setRootDir ::
  "(string \<Rightarrow> string) \<Rightarrow> string \<Rightarrow> DirectorySourceQueue \<Rightarrow> bool \<times> DirectorySourceQueue" where
  "setRootDir resolvePath newRootDir q =
     (if newRootDir = [] then (False, q)
      else let dir = (if q_followSymlinks q then resolvePath newRootDir else newRootDir)
           in if dir = [] then (False, q)
              else let dir' = (if last dir \<noteq> CHR ''/'' then dir @ ''/'' else dir)
                   in (True, q\<lparr>q_rootDir := dir'\<rparr>))"

definition setFileInfo :: "WdtFileInfo list \<Rightarrow> DirectorySourceQueue \<Rightarrow> DirectorySourceQueue" where
  "setFileInfo infos q = q\<lparr>q_fileInfo := infos, q_exploreDirectory := False\<rparr>"

definition clearSourceQueue :: "DirectorySourceQueue \<Rightarrow> DirectorySourceQueue" where
  "clearSourceQueue q = q\<lparr>q_sourceQueue := []\<rparr>"

text \<open>Whom \<open>smartNotify\<close> wakes.\<close>

datatype wakeup = NotifyAll | NotifyOne nat

definition smartNotify :: "int \<Rightarrow> DirectorySourceQueue \<Rightarrow> wakeup" where
  "smartNotify addedSource q =
     (if addedSource \<ge> q_numClientThreads q then NotifyAll else NotifyOne (nat addedSource))"

section \<open>Cutting files into blocks\<close>

text \<open>
  The \<open>do ... while (remainingBytes > 0)\<close> loop over one chunk, as the list of
  (size, offset) of the sources pushed.  With a block size of 0 and bytes left it
  never ends, which is the value \<open>None\<close>.
\<close>

partial_function (option) split_blocks :: "int \<Rightarrow> int \<Rightarrow> int \<Rightarrow> (int \<times> int) list option" where
  "split_blocks blockSize remainingBytes off =
     (let sz = min remainingBytes blockSize
      in if remainingBytes - sz > 0
         then Option.bind (split_blocks blockSize (remainingBytes - sz) (off + sz))
                (\<lambda>bs. Some ((sz, off) # bs))
         else Some [(sz, off)])"

fun push_blocks :: "SourceMetaData \<Rightarrow> (int \<times> int) list \<Rightarrow> ByteSource list \<Rightarrow> ByteSource list" where
  "push_blocks metadata [] q = q"
| "push_blocks metadata ((sz, off) # bs) q = push_blocks metadata bs (pq_push (newSource metadata sz off) q)"

fun push_chunks ::
  "SourceMetaData \<Rightarrow> int \<Rightarrow> Interval list \<Rightarrow> DirectorySourceQueue \<Rightarrow> DirectorySourceQueue option" where
  "push_chunks metadata blockSize [] q = Some q"
| "push_chunks metadata blockSize (chunk # chunks) q =
     (case split_blocks blockSize (chunkSize chunk) (chunkStart chunk) of
        None \<Rightarrow> None
      | Some bs \<Rightarrow> push_chunks metadata blockSize chunks
          (q\<lparr>q_sourceQueue := push_blocks metadata bs (q_sourceQueue q),
             q_totalFileSize := q_totalFileSize q + chunkSize chunk,
             q_numBlocks := q_numBlocks q + int (length bs)\<rparr>))"

text \<open>
  What to send of a file, with its sequence id, allocation status and previous
  sequence id; the queue carries the new \<open>nextSeqId_\<close> and \<open>previouslySentBytes_\<close>.
\<close>

definition plan_file ::
  "SourceMetaData \<Rightarrow> DirectorySourceQueue \<Rightarrow>
   Interval list \<times> int \<times> FileAllocationStatus \<times> int \<times> DirectorySourceQueue" where
  "plan_file metadata q =
     (case map_of (q_previouslyTransferredChunks q) (md_relPath metadata) of
        None \<Rightarrow> ([mkInterval 0 (md_size metadata)], q_nextSeqId q, NOT_EXISTS, 0,
                 q\<lparr>q_nextSeqId := q_nextSeqId q + 1\<rparr>)
      | Some fci \<Rightarrow>
          if fc_fileSize fci > md_size metadata
          then ([mkInterval 0 (md_size metadata)], q_nextSeqId q, EXISTS_TOO_LARGE, fc_seqId fci,
                q\<lparr>q_nextSeqId := q_nextSeqId q + 1\<rparr>)
          else (getRemainingChunks fci (md_size metadata), fc_seqId fci,
                if fc_fileSize fci < md_size metadata then EXISTS_TOO_SMALL else EXISTS_CORRECT_SIZE, 0,
                q\<lparr>q_previouslySentBytes := q_previouslySentBytes q + getTotalChunkSize fci\<rparr>))"

definition block_size_for :: "SourceMetaData \<Rightarrow> DirectorySourceQueue \<Rightarrow> int" where
  "block_size_for metadata q =
     (let blockSizeBytes = q_blockSizeMbytes q * 1024 * 1024
      in if blockSizeBytes > 0 then blockSizeBytes else md_size metadata)"

text \<open>\<open>i\<close> is the index of the file in \<open>sharedFileData_\<close>.\<close>

definition createIntoQueueInternal ::
  "nat \<Rightarrow> DirectorySourceQueue \<Rightarrow> DirectorySourceQueue option" where
  "createIntoQueueInternal i q =
     (let metadata = q_sharedFileData q ! i
      in case plan_file metadata q of (remainingChunks, seqId, status, prevSeqId, q1) \<Rightarrow>
         if remainingChunks = [] then Some q1
         else let metadata' = metadata\<lparr>md_seqId := seqId, md_prevSeqId := prevSeqId,
                                       md_allocationStatus := status\<rparr>
              in case push_chunks metadata' (block_size_for metadata q) remainingChunks
                        (q1\<lparr>q_sharedFileData := (q_sharedFileData q1)[i := metadata']\<rparr>) of
                   None \<Rightarrow> None
                 | Some q2 \<Rightarrow> Some (q2\<lparr>q_numEntries := q_numEntries q2 + 1\<rparr>))"

section \<open>Discovery\<close>

text \<open>
  What the operating system answers: \<open>realpath\<close> (empty on error), opening and
  statting files, reading directories (entries, and whether reading ended with an
  error), regular expression matching, and when the application asks to abort.
\<close>

datatype dtype = DT_DIR | DT_REG | DT_LNK | DT_UNKNOWN | DT_OTHER

record file_stat =
  fs_isLink :: bool
  fs_isDir :: bool
  fs_isReg :: bool
  fs_size :: int

record queue_env =
  env_openForRead :: "string \<Rightarrow> bool \<Rightarrow> int"
  env_fdIsDirect :: "int \<Rightarrow> bool"
  env_odirect :: bool
  env_stat :: "string \<Rightarrow> file_stat option"
  env_lstat :: "string \<Rightarrow> file_stat option"
  env_opendir :: "string \<Rightarrow> ((string \<times> dtype) list \<times> bool) option"
  env_resolvePath :: "string \<Rightarrow> string"
  env_regex_match :: "string \<Rightarrow> string \<Rightarrow> bool"
  env_shouldAbort :: "nat \<Rightarrow> bool"

definition verifyAndFixFlags :: "queue_env \<Rightarrow> WdtFileInfo \<Rightarrow> WdtFileInfo" where
  "verifyAndFixFlags env info =
     (let info1 = (if fi_fd info \<ge> 0 then info\<lparr>fi_directReads := env_fdIsDirect env (fi_fd info)\<rparr> else info)
      in if fi_directReads info1 \<and> \<not> env_odirect env then info1\<lparr>fi_directReads := False\<rparr> else info1)"

definition metadata_of :: "string \<Rightarrow> WdtFileInfo \<Rightarrow> SourceMetaData" where
  "metadata_of fullPath info = newMetaData\<lparr>md_fullPath := fullPath, md_relPath := fi_fileName info,
     md_fd := fi_fd info, md_directReads := fi_directReads info, md_size := fi_fileSize info\<rparr>"

definition open_during_discovery ::
  "queue_env \<Rightarrow> SourceMetaData \<Rightarrow> DirectorySourceQueue \<Rightarrow> SourceMetaData \<times> DirectorySourceQueue" where
  "open_during_discovery env metadata q =
     (if q_openFilesDuringDiscovery q \<noteq> 0 \<and> md_fd metadata < 0
      then let fd = env_openForRead env (md_fullPath metadata) (md_directReads metadata)
           in (metadata\<lparr>md_fd := fd, md_needToClose := fd \<ge> 0\<rparr>,
               q\<lparr>q_numFilesOpened := q_numFilesOpened q + 1,
                 q_numFilesOpenedWithDirect :=
                   q_numFilesOpenedWithDirect q + (if md_directReads metadata then 1 else 0),
                 q_openFilesDuringDiscovery := q_openFilesDuringDiscovery q - 1\<rparr>)
      else (metadata, q))"

definition createIntoQueue ::
  "queue_env \<Rightarrow> string \<Rightarrow> WdtFileInfo \<Rightarrow> DirectorySourceQueue \<Rightarrow> DirectorySourceQueue option" where
  "createIntoQueue env fullPath info q =
     (case open_during_discovery env (metadata_of fullPath (verifyAndFixFlags env info)) q of
        (metadata, q1) \<Rightarrow>
          createIntoQueueInternal (length (q_sharedFileData q1))
            (q1\<lparr>q_sharedFileData := q_sharedFileData q1 @ [metadata]\<rparr>))"

text \<open>
  \<open>enqueueFiles\<close>: the result, the file infos as the call leaves them (sizes and flags
  filled in) and the queue; \<open>n\<close> numbers the abort checks.
\<close>

fun enqueueFiles ::
  "queue_env \<Rightarrow> nat \<Rightarrow> WdtFileInfo list \<Rightarrow> DirectorySourceQueue \<Rightarrow>
   (bool \<times> WdtFileInfo list \<times> DirectorySourceQueue) option" where
  "enqueueFiles env n [] q = Some (True, [], q)"
| "enqueueFiles env n (info # infos) q =
     (if env_shouldAbort env n then Some (False, info # infos, q)
      else let fullPath = q_rootDir q @ fi_fileName info;
               sized = (if fi_fileSize info < 0
                        then map_option (\<lambda>st. info\<lparr>fi_fileSize := fs_size st\<rparr>) (env_stat env fullPath)
                        else Some info)
           in case sized of
                None \<Rightarrow> Some (False, info # infos,
                  q\<lparr>q_failedSourceStats := q_failedSourceStats q @
                     [setLocalErrorCode BYTE_SOURCE_READ_ERROR (newStatsId (fi_fileName info))]\<rparr>)
              | Some info1 \<Rightarrow>
                  Option.bind (createIntoQueue env fullPath info1 q) (\<lambda>q1.
                  Option.bind (enqueueFiles env (Suc n) infos q1) (\<lambda>(r, infos', q2).
                    Some (r, verifyAndFixFlags env info1 # infos', q2))))"

text \<open>What \<open>explore\<close> does with a directory entry.\<close>

datatype entry_action = SkipEntry | EntryError | AddFile string int | Descend string

definition classify_entry ::
  "queue_env \<Rightarrow> DirectorySourceQueue \<Rightarrow> string \<Rightarrow> string \<times> dtype \<Rightarrow> entry_action" where
  "classify_entry env q relativePath = (\<lambda>(name, dt).
     if name = ''.'' \<or> name = ''..'' then SkipEntry
     else if \<not> (dt = DT_DIR \<or> dt = DT_REG \<or> dt = DT_UNKNOWN \<or> (q_followSymlinks q \<and> dt = DT_LNK))
     then SkipEntry
     else let newRelativePath = relativePath @ name; newFullPath = q_rootDir q @ newRelativePath
          in if dt = DT_DIR then Descend newFullPath
             else case env_lstat env newFullPath of
                    None \<Rightarrow> EntryError
                  | Some lst \<Rightarrow>
                      let followed = q_followSymlinks q \<and> fs_isLink lst
                      in case (if followed then env_stat env newFullPath else Some lst) of
                           None \<Rightarrow> EntryError
                         | Some st \<Rightarrow>
                             let path = (if followed then env_resolvePath env newFullPath else newFullPath)
                             in if followed \<and> path = [] then EntryError
                                else if fs_isReg st
                                then (if q_excludePattern q \<noteq> [] \<and> env_regex_match env (q_excludePattern q) newRelativePath
                                      then SkipEntry
                                      else if q_includePattern q \<noteq> [] \<and>
                                              \<not> env_regex_match env (q_includePattern q) newRelativePath
                                      then SkipEntry
                                      else AddFile path (fs_size st))
                                else if fs_isDir st then Descend path else SkipEntry)"

record explore_state =
  ex_hasError :: bool
  ex_visited :: "string list"
  ex_todoList :: "string list"
  ex_queue :: DirectorySourceQueue
  ex_checks :: nat

definition explore_entry ::
  "queue_env \<Rightarrow> string \<Rightarrow> string \<times> dtype \<Rightarrow> explore_state \<Rightarrow> explore_state option" where
  "explore_entry env relativePath entry x =
     (let q = ex_queue x; newRelativePath = relativePath @ fst entry
      in case classify_entry env q relativePath entry of
           SkipEntry \<Rightarrow> Some x
         | EntryError \<Rightarrow> Some (x\<lparr>ex_hasError := True\<rparr>)
         | AddFile path sz \<Rightarrow>
             map_option (\<lambda>q'. x\<lparr>ex_queue := q'\<rparr>)
               (createIntoQueue env path \<lparr>fi_fileName = newRelativePath, fi_fileSize = sz, fi_fd = - 1,
                  fi_directReads = q_directReads q\<rparr> q)
         | Descend path \<Rightarrow>
             if q_followSymlinks q \<and> path \<in> set (ex_visited x) then Some (x\<lparr>ex_hasError := True\<rparr>)
             else let x1 = (if q_followSymlinks q then x\<lparr>ex_visited := path # ex_visited x\<rparr> else x)
                  in if q_pruneDirPattern q \<noteq> [] \<and>
                        env_regex_match env (q_pruneDirPattern q) (newRelativePath @ ''/'') then Some x1
                     else Some (x1\<lparr>ex_todoList := ex_todoList x1 @ [newRelativePath @ ''/'']\<rparr>))"

fun explore_entries ::
  "queue_env \<Rightarrow> string \<Rightarrow> (string \<times> dtype) list \<Rightarrow> bool \<Rightarrow> explore_state \<Rightarrow> explore_state option" where
  "explore_entries env relativePath [] readError x =
     (let x1 = x\<lparr>ex_checks := Suc (ex_checks x)\<rparr>
      in if env_shouldAbort env (ex_checks x) then Some x1
         else Some (if readError then x1\<lparr>ex_hasError := True\<rparr> else x1))"
| "explore_entries env relativePath (e # es) readError x =
     (let x1 = x\<lparr>ex_checks := Suc (ex_checks x)\<rparr>
      in if env_shouldAbort env (ex_checks x) then Some x1
         else Option.bind (explore_entry env relativePath e x1) (explore_entries env relativePath es readError))"

text \<open>The outer loop; directory trees can be infinite, so the loop may not end (\<open>None\<close>).\<close>

partial_function (option) explore_loop :: "queue_env \<Rightarrow> explore_state \<Rightarrow> explore_state option" where
  "explore_loop env x =
     (case ex_todoList x of
        [] \<Rightarrow> Some x
      | relativePath # todo \<Rightarrow>
          if env_shouldAbort env (ex_checks x)
          then Some (x\<lparr>ex_hasError := True, ex_checks := Suc (ex_checks x)\<rparr>)
          else let x1 = x\<lparr>ex_todoList := todo, ex_checks := Suc (ex_checks x)\<rparr>;
                   fullPath = q_rootDir (ex_queue x) @ relativePath
               in case env_opendir env fullPath of
                    None \<Rightarrow> explore_loop env (x1\<lparr>ex_hasError := True,
                        ex_queue := (ex_queue x1)\<lparr>q_failedDirectories := q_failedDirectories (ex_queue x1) @ [fullPath]\<rparr>\<rparr>)
                  | Some (entries, readError) \<Rightarrow>
                      Option.bind (explore_entries env relativePath entries readError x1) (explore_loop env))"

definition explore :: "queue_env \<Rightarrow> DirectorySourceQueue \<Rightarrow> (bool \<times> DirectorySourceQueue) outcome option" where
  "explore env q =
     (if q_rootDir q = [] then Some Abort
      else map_option (\<lambda>x. Ok (\<not> ex_hasError x, ex_queue x))
             (explore_loop env \<lparr>ex_hasError = False, ex_visited = [], ex_todoList = [[]], ex_queue = q,
                               ex_checks = 0\<rparr>))"

section \<open>Resumption, building and draining\<close>

fun enqueue_deletions ::
  "string set \<Rightarrow> (string \<times> FileChunksInfo) list \<Rightarrow> DirectorySourceQueue \<Rightarrow> DirectorySourceQueue" where
  "enqueue_deletions discoveredFiles [] q = q"
| "enqueue_deletions discoveredFiles ((fileName, fci) # rest) q =
     (if fileName \<in> discoveredFiles then enqueue_deletions discoveredFiles rest q
      else let metadata = newMetaData\<lparr>md_relPath := fileName, md_size := 0, md_seqId := fc_seqId fci,
                                      md_allocationStatus := TO_BE_DELETED\<rparr>
           in enqueue_deletions discoveredFiles rest
                (q\<lparr>q_sharedFileData := q_sharedFileData q @ [metadata],
                   q_sourceQueue := pq_push (newSource metadata 0 0) (q_sourceQueue q),
                   q_numEntries := q_numEntries q + 1, q_numBlocks := q_numBlocks q + 1\<rparr>))"

definition enqueueFilesToBeDeleted :: "DirectorySourceQueue \<Rightarrow> DirectorySourceQueue" where
  "enqueueFilesToBeDeleted q =
     (if \<not> q_deleteFiles q then q
      else if \<not> q_initFinished q \<or> q_previouslyTransferredChunks q = [] then q
      else enqueue_deletions (md_relPath ` set (q_sharedFileData q)) (q_previouslyTransferredChunks q) q)"

text \<open>\<open>unordered_map::insert\<close> keeps an existing entry.\<close>

definition map_insert :: "'k \<times> 'v \<Rightarrow> ('k \<times> 'v) list \<Rightarrow> ('k \<times> 'v) list" where
  "map_insert kv m = (if fst kv \<in> fst ` set m then m else m @ [kv])"

fun add_received ::
  "FileChunksInfo list \<Rightarrow> int \<Rightarrow> (string \<times> FileChunksInfo) list \<Rightarrow> int \<times> (string \<times> FileChunksInfo) list" where
  "add_received [] nextSeqId m = (nextSeqId, m)"
| "add_received (fci # fcis) nextSeqId m =
     add_received fcis (max nextSeqId (fc_seqId fci + 1)) (map_insert (fc_fileName fci, fci) m)"

fun recreate :: "nat list \<Rightarrow> DirectorySourceQueue \<Rightarrow> DirectorySourceQueue option" where
  "recreate [] q = Some q"
| "recreate (i # is) q = Option.bind (createIntoQueueInternal i q) (recreate is)"

definition setPreviouslyReceivedChunks ::
  "FileChunksInfo list \<Rightarrow> DirectorySourceQueue \<Rightarrow> DirectorySourceQueue outcome option" where
  "setPreviouslyReceivedChunks chunks q =
     (if q_numBlocksDequeued q \<noteq> 0 then Some Abort
      else case add_received chunks 0 (q_previouslyTransferredChunks q) of (nextSeqId, m) \<Rightarrow>
           let q1 = clearSourceQueue (q\<lparr>q_nextSeqId := nextSeqId, q_totalFileSize := 0,
                      q_numEntries := 0, q_numBlocks := 0, q_previouslyTransferredChunks := m\<rparr>)
           in map_option (\<lambda>q2. Ok (enqueueFilesToBeDeleted q2))
                (recreate [0 ..< length (q_sharedFileData q1)] q1))"

text \<open>The batches are what the file info generator delivers before it returns nothing.\<close>

fun enqueue_batches ::
  "queue_env \<Rightarrow> nat \<Rightarrow> WdtFileInfo list list \<Rightarrow> bool \<times> DirectorySourceQueue \<Rightarrow>
   (bool \<times> DirectorySourceQueue) option" where
  "enqueue_batches env n [] rq = Some rq"
| "enqueue_batches env n (files # batches) (res, q) =
     (if \<not> res then Some (res, q)
      else Option.bind (enqueueFiles env n files q) (\<lambda>(res', files', q1).
           enqueue_batches env (n + length files) batches (res', q1\<lparr>q_fileInfo := q_fileInfo q1 @ files'\<rparr>)))"

definition buildQueueSynchronously ::
  "queue_env \<Rightarrow> WdtFileInfo list list \<Rightarrow> DirectorySourceQueue \<Rightarrow> (bool \<times> DirectorySourceQueue) outcome option" where
  "buildQueueSynchronously env batches q =
     (if q_initCalled q then Some (Ok (False, q))
      else let q0 = q\<lparr>q_initCalled := True\<rparr>;
               built = (if q_exploreDirectory q0 then explore env q0
                        else Option.bind (enqueueFiles env 0 (q_fileInfo q0) q0) (\<lambda>(res, infos, q1).
                             map_option Ok (enqueue_batches env (length infos) batches (res, q1\<lparr>q_fileInfo := infos\<rparr>))))
           in map_option (\<lambda>r. case r of
                 Ok (res, q1) \<Rightarrow> Ok (res, enqueueFilesToBeDeleted (q1\<lparr>q_initFinished := True\<rparr>))
               | Fail \<Rightarrow> Fail | Abort \<Rightarrow> Abort) built)"

text \<open>\<open>returnToQueue\<close>: the check is made for every returned source.\<close>

fun returnToQueue :: "ByteSource list \<Rightarrow> DirectorySourceQueue \<Rightarrow> DirectorySourceQueue outcome" where
  "returnToQueue [] q = Ok q"
| "returnToQueue (s # ss) q =
     (let q1 = q\<lparr>q_sourceQueue := pq_push s (q_sourceQueue q)\<rparr>
      in if q_numBlocksDequeued q1 > 0
         then returnToQueue ss (q1\<lparr>q_numBlocksDequeued := q_numBlocksDequeued q1 - 1\<rparr>)
         else Abort)"

datatype next_source = WouldBlock | NoSource ErrorCode | GotSource ByteSource ErrorCode

definition queue_status :: "DirectorySourceQueue \<Rightarrow> ErrorCode" where
  "queue_status q =
     (if q_failedSourceStats q \<noteq> [] \<or> q_failedDirectories q \<noteq> [] then ERROR else OK)"

text \<open>
  \<open>getNextSource\<close> run without interference: a thread that finds the queue empty before
  discovery finished waits (and is counted as a waiter).
\<close>

function getNextSource :: "queue_env \<Rightarrow> DirectorySourceQueue \<Rightarrow> next_source \<times> DirectorySourceQueue" where
  "getNextSource env q =
     (case q_sourceQueue q of
        [] \<Rightarrow> if \<not> q_initFinished q then (WouldBlock, q\<lparr>q_numWaiters := q_numWaiters q + 1\<rparr>)
              else (NoSource (queue_status q), q)
      | s # rest \<Rightarrow>
          let q1 = q\<lparr>q_sourceQueue := rest\<rparr>
          in case openSource (env_openForRead env) s of
               (OK, s') \<Rightarrow> (GotSource s' (queue_status q),
                            q1\<lparr>q_numBlocksDequeued := q_numBlocksDequeued q1 + 1\<rparr>)
             | (_, s') \<Rightarrow> getNextSource env
                 (q1\<lparr>q_failedSourceStats := q_failedSourceStats q1 @ [bs_stats (closeSource s')]\<rparr>))"
  by pat_completeness auto
termination by (relation "measure (\<lambda>(_, q). length (q_sourceQueue q))") auto

declare getNextSource.simps [simp del]

definition getFailedSourceStats :: "DirectorySourceQueue \<Rightarrow> TransferStats list \<times> DirectorySourceQueue" where
  "getFailedSourceStats q =
     (let stats = q_failedSourceStats q @ map bs_stats (q_sourceQueue q)
      in (stats, q\<lparr>q_failedSourceStats := stats, q_sourceQueue := []\<rparr>))"

definition finished :: "DirectorySourceQueue \<Rightarrow> bool" where
  "finished q \<longleftrightarrow> q_initFinished q \<and> q_sourceQueue q = []"

definition getNumBlocksAndStatus :: "DirectorySourceQueue \<Rightarrow> int \<times> ErrorCode" where
  "getNumBlocksAndStatus q =
     (q_numBlocks q,
      if q_failedSourceStats q \<noteq> [] \<or> q_failedDirectories q \<noteq> [] then BYTE_SOURCE_READ_ERROR else OK)"

text \<open>The condition under which \<open>waitForPreviousTransfer\<close> keeps waiting.\<close>

definition previousTransferActive :: "int \<Rightarrow> DirectorySourceQueue \<Rightarrow> bool" where
  "previousTransferActive numActiveThreads q \<longleftrightarrow>
     q_sourceQueue q \<noteq> [] \<or> q_numWaiters q < numActiveThreads"

end
