(* ===== verification/Source_Queue_Laws.thy ===== *)
theory Source_Queue_Laws
  imports Source_Queue
begin

text \<open>
  Correctness of the source queue: the priority queue contract, how a file is
  tiled by its blocks, block accounting over every operation, and distinct
  sequence ids after a resumed transfer.
\<close>

section \<open>The priority queue contract\<close>

text \<open>Clients of the queue only rely on these laws: contents are a multiset and the
  element taken has the smallest key.\<close>

locale priority_queue =
  fixes key :: "'a \<Rightarrow> 'k::linorder"
    and inv :: "'q \<Rightarrow> bool"
    and contents :: "'q \<Rightarrow> 'a multiset"
    and push :: "'a \<Rightarrow> 'q \<Rightarrow> 'q"
    and pop :: "'q \<Rightarrow> ('a \<times> 'q) option"
  assumes push_inv: "inv q \<Longrightarrow> inv (push x q)"
    and push_contents: "contents (push x q) = add_mset x (contents q)"
    and pop_None: "inv q \<Longrightarrow> pop q = None \<longleftrightarrow> contents q = {#}"
    and pop_Some: "inv q \<Longrightarrow> pop q = Some (x, q') \<Longrightarrow>
          inv q' \<and> contents q = add_mset x (contents q') \<and> (\<forall>y \<in># contents q. key x \<le> key y)"
begin

lemma pushes_inv: "inv q \<Longrightarrow> inv (fold push xs q)"
  by (induction xs arbitrary: q) (auto simp: push_inv)

lemma pushes_contents: "contents (fold push xs q) = contents q + mset xs"
  by (induction xs arbitrary: q) (auto simp: push_contents)

lemma pop_after_push:
  assumes "inv q" "pop (push x q) = Some (y, q')"
  shows "key y \<le> key x" "inv q'" "add_mset x (contents q) = add_mset y (contents q')"
  using pop_Some [OF push_inv [OF assms(1)] assms(2)] by (auto simp: push_contents)

end

definition pq_pop :: "ByteSource list \<Rightarrow> (ByteSource \<times> ByteSource list) option" where
  "pq_pop q = (case q of [] \<Rightarrow> None | s # rest \<Rightarrow> Some (s, rest))"

lemma pq_push_inv [simp]: "pq_inv q \<Longrightarrow> pq_inv (pq_push s q)"
  by (simp add: pq_inv_def pq_push_def sorted_insort_key)

lemma mset_pq_push [simp]: "mset (pq_push s q) = add_mset s (mset q)"
  by (simp add: pq_push_def)

lemma set_pq_push [simp]: "set (pq_push s q) = insert s (set q)"
  by (simp add: pq_push_def set_insort_key)

lemma length_pq_push [simp]: "length (pq_push s q) = Suc (length q)"
  by (simp add: pq_push_def)

interpretation pq: priority_queue source_key pq_inv mset pq_push pq_pop
  by unfold_locales (simp_all add: pq_pop_def split: list.splits, auto simp: pq_inv_def)

lemma push_blocks_pushes:
  "push_blocks m bs q = fold pq_push (map (\<lambda>(sz, off). newSource m sz off) bs) q"
  by (induction m bs q rule: push_blocks.induct) auto

section \<open>Blocks tile a chunk\<close>

fun tiles :: "int \<Rightarrow> (int \<times> int) list \<Rightarrow> int \<Rightarrow> bool" where
  "tiles lo [] hi \<longleftrightarrow> lo = hi"
| "tiles lo ((sz, off) # bs) hi \<longleftrightarrow> off = lo \<and> 0 \<le> sz \<and> tiles (lo + sz) bs hi"

definition block_interval :: "int \<times> int \<Rightarrow> Interval" where
  "block_interval = (\<lambda>(sz, off). mkInterval off (off + sz))"

lemma tiles_covered: "tiles lo bs hi \<Longrightarrow> lo \<le> hi \<and> covered (map block_interval bs) = {lo ..< hi}"
  by (induction lo bs hi rule: tiles.induct) (force simp: block_interval_def chunk_set_def)+

lemma tiles_size: "tiles lo bs hi \<Longrightarrow> sum_list (map fst bs) = hi - lo"
  by (induction lo bs hi rule: tiles.induct) auto

lemma tiles_nonneg: "tiles lo bs hi \<Longrightarrow> \<forall>(sz, _) \<in> set bs. 0 \<le> sz"
  by (induction lo bs hi rule: tiles.induct) auto

lemma split_blocks_spec:
  assumes "0 \<le> n" "0 < b \<or> n \<le> b"
  shows "\<exists>bs. split_blocks b n off = Some bs \<and> tiles off bs (off + n) \<and> bs \<noteq> [] \<and>
           (\<forall>(sz, _) \<in> set bs. sz \<le> b \<and> (0 < n \<longrightarrow> 0 < sz))"
  using assms
proof (induction "nat n" arbitrary: n off rule: less_induct)
  case less
  show ?case
  proof (cases "n \<le> b")
    case True
    then show ?thesis using less.prems by (subst split_blocks.simps) (simp add: min_def)
  next
    case False
    then have b: "0 < b" "0 \<le> n - b" "nat (n - b) < nat n" using less.prems by auto
    then obtain bs where "split_blocks b (n - b) (off + b) = Some bs"
      "tiles (off + b) bs (off + b + (n - b))" "\<forall>(sz, _) \<in> set bs. sz \<le> b \<and> (0 < n - b \<longrightarrow> 0 < sz)"
      using less.hyps [of "n - b" "off + b"] by blast
    then show ?thesis using False b
      by (subst split_blocks.simps) (auto simp: Let_def min_def)
  qed
qed

lemma push_chunks_spec:
  assumes "\<forall>c \<in> set cs. valid_chunk c \<and> (0 < b \<or> chunkSize c \<le> b)"
  shows "\<exists>bs. push_chunks m b cs q = Some (q\<lparr>
             q_sourceQueue := fold pq_push (map (\<lambda>(sz, off). newSource m sz off) bs) (q_sourceQueue q),
             q_totalFileSize := q_totalFileSize q + total_size cs,
             q_numBlocks := q_numBlocks q + int (length bs)\<rparr>) \<and>
           covered (map block_interval bs) = covered cs \<and> sum_list (map fst bs) = total_size cs \<and>
           (\<forall>(sz, _) \<in> set bs. 0 \<le> sz \<and> sz \<le> b)"
  using assms
proof (induction cs arbitrary: q)
  case Nil
  show ?case by (intro exI [of _ "[]"]) simp
next
  case (Cons c cs)
  have c: "0 \<le> chunkSize c" "0 < b \<or> chunkSize c \<le> b"
    using Cons.prems by (auto simp: chunkSize_def valid_chunk_def)
  obtain bs where bs: "split_blocks b (chunkSize c) (chunkStart c) = Some bs"
    "tiles (chunkStart c) bs (chunkStart c + chunkSize c)" "\<forall>(sz, _) \<in> set bs. sz \<le> b"
    using split_blocks_spec [OF c] by fast
  let ?mk = "\<lambda>(sz, off). newSource m sz off"
  let ?q = "q\<lparr>q_sourceQueue := push_blocks m bs (q_sourceQueue q),
             q_totalFileSize := q_totalFileSize q + chunkSize c,
             q_numBlocks := q_numBlocks q + int (length bs)\<rparr>"
  obtain ds where ds: "push_chunks m b cs ?q = Some (?q\<lparr>
             q_sourceQueue := fold pq_push (map ?mk ds) (q_sourceQueue ?q),
             q_totalFileSize := q_totalFileSize ?q + total_size cs,
             q_numBlocks := q_numBlocks ?q + int (length ds)\<rparr>)"
    "covered (map block_interval ds) = covered cs" "sum_list (map fst ds) = total_size cs"
    "\<forall>(sz, _) \<in> set ds. 0 \<le> sz \<and> sz \<le> b"
    using Cons.IH [of ?q] Cons.prems by (meson list.set_intros(2))
  have "covered (map block_interval (bs @ ds)) = covered (c # cs)"
    using tiles_covered [OF bs(2)] ds(2) by (simp add: chunk_set_def chunkSize_def)
  moreover have "sum_list (map fst (bs @ ds)) = total_size (c # cs)"
    using tiles_size [OF bs(2)] ds(3) by simp
  moreover have "\<forall>(sz, _) \<in> set (bs @ ds). 0 \<le> sz \<and> sz \<le> b"
    using tiles_nonneg [OF bs(2)] bs(3) ds(4) by fastforce
  moreover have "push_chunks m b (c # cs) q = Some (q\<lparr>
             q_sourceQueue := fold pq_push (map ?mk (bs @ ds)) (q_sourceQueue q),
             q_totalFileSize := q_totalFileSize q + total_size (c # cs),
             q_numBlocks := q_numBlocks q + int (length (bs @ ds))\<rparr>)"
    using bs(1) ds(1) by (simp add: push_blocks_pushes ac_simps)
  ultimately show ?case by blast
qed

section \<open>Queueing a file\<close>

text \<open>The bytes of a file the receiver already has and that need not be sent.\<close>

definition already_received :: "SourceMetaData \<Rightarrow> DirectorySourceQueue \<Rightarrow> int set" where
  "already_received m q =
     (case map_of (q_previouslyTransferredChunks q) (md_relPath m) of
        Some fci \<Rightarrow> if fc_fileSize fci > md_size m then {} else covered (fc_chunks fci)
      | None \<Rightarrow> {})"

definition wf_received :: "FileChunksInfo \<Rightarrow> bool" where
  "wf_received fci \<longleftrightarrow> separated (fc_chunks fci) \<and>
     (\<forall>c \<in> set (fc_chunks fci). 0 \<le> chunkStart c \<and> chunkEnd c \<le> fc_fileSize fci)"

definition source_bytes :: "ByteSource \<Rightarrow> int set" where
  "source_bytes s = {bs_offset s ..< bs_offset s + bs_size s}"

lemma gaps_of_chunk: "gaps_of 0 cs rs hi \<Longrightarrow> r \<in> set rs \<Longrightarrow> valid_chunk r \<and> chunkSize r \<le> hi"
proof -
  assume g: "gaps_of 0 cs rs hi" and r: "r \<in> set rs"
  have "ascending rs" "0 \<le> chunkStart r" "chunkEnd r \<le> hi" using g r by (auto simp: gaps_of_def)
  moreover have "ascending xs \<Longrightarrow> r \<in> set xs \<Longrightarrow> chunkStart r < chunkEnd r" for xs
    by (induction xs) auto
  ultimately have "chunkStart r < chunkEnd r" using r by blast
  then show ?thesis using \<open>0 \<le> chunkStart r\<close> \<open>chunkEnd r \<le> hi\<close>
    by (simp add: valid_chunk_def chunkSize_def)
qed

lemma plan_file_chunks:
  assumes wf: "\<forall>fci. map_of (q_previouslyTransferredChunks q) (md_relPath m) = Some fci \<longrightarrow> wf_received fci"
    and sz: "0 \<le> md_size m" and p: "plan_file m q = (rs, seqId, status, prev, q1)"
  shows "covered rs = {0 ..< md_size m} - already_received m q"
    and "total_size rs = int (card (covered rs))"
    and "\<forall>r \<in> set rs. valid_chunk r \<and> chunkSize r \<le> md_size m"
proof -
  have whole: "covered [mkInterval 0 (md_size m)] = {0 ..< md_size m}"
    "total_size [mkInterval 0 (md_size m)] = int (card {0 ..< md_size m})"
    "valid_chunk (mkInterval 0 (md_size m))" "chunkSize (mkInterval 0 (md_size m)) = md_size m"
    using sz by (simp_all add: chunk_set_def chunkSize_def valid_chunk_def)
  consider (all) "rs = [mkInterval 0 (md_size m)]" "already_received m q = {}"
    | (rest) fci where "map_of (q_previouslyTransferredChunks q) (md_relPath m) = Some fci"
        "fc_fileSize fci \<le> md_size m" "rs = getRemainingChunks fci (md_size m)"
        "already_received m q = covered (fc_chunks fci)"
    using p by (auto simp: plan_file_def already_received_def split: option.splits if_splits)
  then have "covered rs = {0 ..< md_size m} - already_received m q \<and> total_size rs = int (card (covered rs)) \<and>
      (\<forall>r \<in> set rs. valid_chunk r \<and> chunkSize r \<le> md_size m)"
  proof cases
    case all
    then show ?thesis using whole by simp
  next
    case rest
    have "wf_received fci" using wf rest(1) by simp
    then have "\<forall>c \<in> set (fc_chunks fci). 0 \<le> chunkStart c \<and> chunkEnd c \<le> md_size m"
      "separated (fc_chunks fci)"
      using rest(2) by (fastforce simp: wf_received_def)+
    then have "gaps_of 0 (fc_chunks fci) rs (md_size m)"
      using rest(3) sz remaining_chunk_list_correct [of "fc_chunks fci" "md_size m"]
      by (simp add: getRemainingChunks_def)
    then show ?thesis using rest(4) gaps_of_chunk total_size_ascending
      by (auto simp: gaps_of_def)
  qed
  then show "covered rs = {0 ..< md_size m} - already_received m q"
    "total_size rs = int (card (covered rs))"
    "\<forall>r \<in> set rs. valid_chunk r \<and> chunkSize r \<le> md_size m" by auto
qed

lemma plan_file_kept:
  assumes "plan_file m q = (rs, seqId, status, prev, q1)"
  shows "q_sourceQueue q1 = q_sourceQueue q" "q_numBlocks q1 = q_numBlocks q"
    "q_totalFileSize q1 = q_totalFileSize q" "q_numBlocksDequeued q1 = q_numBlocksDequeued q"
    "q_failedSourceStats q1 = q_failedSourceStats q" "q_sharedFileData q1 = q_sharedFileData q"
    "q_previouslyTransferredChunks q1 = q_previouslyTransferredChunks q"
  using assms by (auto simp: plan_file_def split: option.splits if_splits)

lemma newSource_bytes:
  "bs_meta (newSource m sz off) = m" "bs_size (newSource m sz off) = sz"
  "source_bytes (newSource m sz off) = chunk_set (block_interval (sz, off))"
  by (simp_all add: newSource_def source_bytes_def chunk_set_def block_interval_def)

lemma sources_of_blocks:
  "(\<Union>s \<in> set (map (\<lambda>(sz, off). newSource m sz off) bs). source_bytes s) = covered (map block_interval bs)"
  "map bs_size (map (\<lambda>(sz, off). newSource m sz off) bs) = map fst bs"
  by (induction bs) (auto simp: newSource_bytes)

definition received_of :: "SourceMetaData \<Rightarrow> DirectorySourceQueue \<Rightarrow> bool" where
  "received_of m q = (case map_of (q_previouslyTransferredChunks q) (md_relPath m) of
                        None \<Rightarrow> True | Some fci \<Rightarrow> wf_received fci)"

text \<open>C12: queueing a discovered file always terminates and pushes one source per
  block: the sources cover exactly the bytes of the file the receiver does not
  already have, without overlap (their sizes add up to the number of those
  bytes), no source is larger than the block size, and the number of blocks and
  the total size of the transfer grow by what was pushed.\<close>

theorem createIntoQueueInternal_blocks:
  assumes "m = q_sharedFileData q ! i" "0 \<le> md_size m" "received_of m q" "pq_inv (q_sourceQueue q)"
  shows "\<exists>q' ss. createIntoQueueInternal i q = Some q' \<and> pq_inv (q_sourceQueue q') \<and>
           mset (q_sourceQueue q') = mset (q_sourceQueue q) + mset ss \<and>
           (\<Union>s \<in> set ss. source_bytes s) = {0 ..< md_size m} - already_received m q \<and>
           sum_list (map bs_size ss) = int (card ({0 ..< md_size m} - already_received m q)) \<and>
           (\<forall>s \<in> set ss. 0 \<le> bs_size s \<and> bs_size s \<le> block_size_for m q \<and>
              md_relPath (bs_meta s) = md_relPath m) \<and>
           q_numBlocks q' = q_numBlocks q + int (length ss) \<and>
           q_totalFileSize q' = q_totalFileSize q + sum_list (map bs_size ss)"
proof -
  obtain rs seqId status prev q1 where p: "plan_file m q = (rs, seqId, status, prev, q1)"
    by (cases "plan_file m q") auto
  have "\<forall>fci. map_of (q_previouslyTransferredChunks q) (md_relPath m) = Some fci \<longrightarrow> wf_received fci"
    using assms(3) by (simp add: received_of_def split: option.splits)
  note plan = plan_file_chunks [OF this assms(2) p] and kept = plan_file_kept [OF p]
  define m' where "m' = m\<lparr>md_seqId := seqId, md_prevSeqId := prev, md_allocationStatus := status\<rparr>"
  let ?b = "block_size_for m q" and ?mk = "\<lambda>(sz, off). newSource m' sz off"
  have "\<forall>c \<in> set rs. valid_chunk c \<and> (0 < ?b \<or> chunkSize c \<le> ?b)"
    using plan(3) by (auto simp: block_size_for_def Let_def)
  from push_chunks_spec [OF this, of m' "q1\<lparr>q_sharedFileData := (q_sharedFileData q1)[i := m']\<rparr>"]
  obtain bs q2 where bs: "push_chunks m' ?b rs (q1\<lparr>q_sharedFileData := (q_sharedFileData q1)[i := m']\<rparr>) = Some q2"
    "q_sourceQueue q2 = fold pq_push (map ?mk bs) (q_sourceQueue q)"
    "q_numBlocks q2 = q_numBlocks q + int (length bs)" "q_totalFileSize q2 = q_totalFileSize q + total_size rs"
    "covered (map block_interval bs) = covered rs" "sum_list (map fst bs) = total_size rs"
    "\<forall>(sz, _) \<in> set bs. 0 \<le> sz \<and> sz \<le> ?b"
    using kept by (auto simp del: fold_map)
  show ?thesis
  proof (cases "rs = []")
    case True
    then have "createIntoQueueInternal i q = Some q1" using p assms(1) by (simp add: createIntoQueueInternal_def)
    then show ?thesis using True plan(1,2) kept assms(4) by (intro exI [of _ q1] exI [of _ "[]"]) auto
  next
    case False
    then have "createIntoQueueInternal i q = Some (q2\<lparr>q_numEntries := q_numEntries q2 + 1\<rparr>)"
      using p assms(1) bs(1) by (simp add: createIntoQueueInternal_def m'_def)
    moreover have "\<forall>s \<in> set (map ?mk bs). 0 \<le> bs_size s \<and> bs_size s \<le> ?b \<and> md_relPath (bs_meta s) = md_relPath m"
      using bs(7) by (auto simp: newSource_bytes m'_def)
    moreover have "pq_inv (fold pq_push (map ?mk bs) (q_sourceQueue q))"
      "mset (fold pq_push (map ?mk bs) (q_sourceQueue q)) = mset (q_sourceQueue q) + mset (map ?mk bs)"
      using pq.pushes_inv [OF assms(4)] pq.pushes_contents by blast+
    ultimately show ?thesis using bs(2-6) plan(1,2) sources_of_blocks [of m' bs]
      by (intro exI [of _ "q2\<lparr>q_numEntries := q_numEntries q2 + 1\<rparr>"] exI [of _ "map ?mk bs"])
        (simp del: map_map fold_map)
  qed
qed

definition example_file :: SourceMetaData where
  "example_file = newMetaData\<lparr>md_relPath := ''a'', md_size := 5\<rparr>"

definition example_queue :: DirectorySourceQueue where
  "example_queue = (newQueue ''/'')\<lparr>q_sharedFileData := [example_file],
     q_previouslyTransferredChunks :=
       [(''a'', \<lparr>fc_seqId = 1, fc_fileName = ''a'', fc_fileSize = 4, fc_chunks = [mkInterval 1 3]\<rparr>)]\<rparr>"

theorem createIntoQueueInternal_blocks_witness:
  "\<exists>q' ss. createIntoQueueInternal 0 example_queue = Some q' \<and>
     (\<Union>s \<in> set ss. source_bytes s) = {0 ..< 5} - {1 ..< 3} \<and>
     mset (q_sourceQueue q') = mset ss"
proof -
  have m: "example_file = q_sharedFileData example_queue ! 0" by (simp add: example_queue_def)
  have s: "0 \<le> md_size example_file" "md_size example_file = 5" by (simp_all add: example_file_def)
  have r: "received_of example_file example_queue"
    by (simp add: received_of_def example_queue_def example_file_def wf_received_def valid_chunk_def)
  have e: "q_sourceQueue example_queue = []" by (simp add: example_queue_def newQueue_def)
  have a: "already_received example_file example_queue = {1 ..< 3}"
    by (simp add: already_received_def example_queue_def example_file_def chunk_set_def)
  have "pq_inv (q_sourceQueue example_queue)" by (simp add: e pq_inv_def)
  from createIntoQueueInternal_blocks [OF m s(1) r this] show ?thesis
    unfolding a s(2) e by auto
qed

section \<open>Block accounting\<close>

text \<open>Every block is in the queue, dequeued, or has failed; failed statistics also count
  files that could not be statted.\<close>

definition accounted :: "DirectorySourceQueue \<Rightarrow> bool" where
  "accounted q \<longleftrightarrow> pq_inv (q_sourceQueue q) \<and> 0 \<le> q_numBlocksDequeued q \<and>
     int (length (q_sourceQueue q)) + q_numBlocksDequeued q \<le> q_numBlocks q \<and>
     q_numBlocks q \<le> int (length (q_sourceQueue q)) + q_numBlocksDequeued q + int (length (q_failedSourceStats q))"

lemma accounted_cong:
  assumes "accounted q" "q_sourceQueue q' = q_sourceQueue q" "q_numBlocksDequeued q' = q_numBlocksDequeued q"
    "q_numBlocks q' = q_numBlocks q" "length (q_failedSourceStats q) \<le> length (q_failedSourceStats q')"
  shows "accounted q'"
  using assms by (simp add: accounted_def)

lemma push_blocks_laws:
  "pq_inv q \<Longrightarrow> pq_inv (push_blocks m bs q)" "length (push_blocks m bs q) = length q + length bs"
  by (induction m bs q rule: push_blocks.induct) simp_all

lemma push_chunks_accounted: "push_chunks m b cs q = Some q' \<Longrightarrow> accounted q \<Longrightarrow> accounted q'"
proof (induction m b cs q rule: push_chunks.induct)
  case (2 m b c cs q)
  then show ?case by (auto simp: accounted_def push_blocks_laws split: option.splits)
qed simp

lemma createIntoQueueInternal_accounted:
  assumes "createIntoQueueInternal i q = Some q'" "accounted q"
  shows "accounted q'"
proof -
  obtain rs seqId status prev q1 where p: "plan_file (q_sharedFileData q ! i) q = (rs, seqId, status, prev, q1)"
    by (cases "plan_file (q_sharedFileData q ! i) q") auto
  have q1: "accounted (q1\<lparr>q_sharedFileData := f\<rparr>)" "accounted q1" for f
    using accounted_cong [OF assms(2)] plan_file_kept [OF p] by simp_all
  show ?thesis
  proof (cases "rs = []")
    case True
    then show ?thesis using assms(1) p q1(2) by (simp add: createIntoQueueInternal_def)
  next
    case False
    then obtain m q2 where "push_chunks m (block_size_for (q_sharedFileData q ! i) q) rs
        (q1\<lparr>q_sharedFileData := (q_sharedFileData q1)[i := m]\<rparr>) = Some q2"
      and q': "q' = q2\<lparr>q_numEntries := q_numEntries q2 + 1\<rparr>"
      using assms(1) p by (auto simp: createIntoQueueInternal_def Let_def split: option.splits)
    then have "accounted q2" using push_chunks_accounted q1(1) by blast
    then show ?thesis unfolding q' by (rule accounted_cong) simp_all
  qed
qed

lemma open_during_discovery_kept:
  assumes "open_during_discovery env m q = (m', q1)"
  shows "q_sourceQueue q1 = q_sourceQueue q" "q_numBlocksDequeued q1 = q_numBlocksDequeued q"
    "q_numBlocks q1 = q_numBlocks q" "q_failedSourceStats q1 = q_failedSourceStats q"
  using assms by (auto simp: open_during_discovery_def Let_def split: if_splits)

lemma createIntoQueue_accounted:
  assumes "createIntoQueue env path info q = Some q'" "accounted q"
  shows "accounted q'"
proof -
  obtain m q1 where o: "open_during_discovery env (metadata_of path (verifyAndFixFlags env info)) q = (m, q1)"
    by (cases "open_during_discovery env (metadata_of path (verifyAndFixFlags env info)) q") auto
  have "accounted (q1\<lparr>q_sharedFileData := q_sharedFileData q1 @ [m]\<rparr>)"
    by (rule accounted_cong [OF assms(2)]) (simp_all add: open_during_discovery_kept [OF o])
  then show ?thesis using assms(1) o createIntoQueueInternal_accounted
    by (simp add: createIntoQueue_def)
qed

lemma enqueueFiles_accounted:
  "enqueueFiles env n infos q = Some (r, infos', q') \<Longrightarrow> accounted q \<Longrightarrow> accounted q'"
proof (induction infos arbitrary: n q r infos' q')
  case (Cons info infos)
  let ?sized = "if fi_fileSize info < 0
      then map_option (\<lambda>st. info\<lparr>fi_fileSize := fs_size st\<rparr>) (env_stat env (q_rootDir q @ fi_fileName info))
      else Some info"
  have eq: "enqueueFiles env n (info # infos) q =
      (if env_shouldAbort env n then Some (False, info # infos, q)
       else case ?sized of
         None \<Rightarrow> Some (False, info # infos, q\<lparr>q_failedSourceStats := q_failedSourceStats q @
                    [setLocalErrorCode BYTE_SOURCE_READ_ERROR (newStatsId (fi_fileName info))]\<rparr>)
       | Some info1 \<Rightarrow> Option.bind (createIntoQueue env (q_rootDir q @ fi_fileName info) info1 q) (\<lambda>q1.
           Option.bind (enqueueFiles env (Suc n) infos q1) (\<lambda>(r, infos', q2).
             Some (r, verifyAndFixFlags env info1 # infos', q2))))"
    by (simp only: enqueueFiles.simps Let_def)
  consider "env_shouldAbort env n" | "\<not> env_shouldAbort env n" "?sized = None"
    | info1 where "\<not> env_shouldAbort env n" "?sized = Some info1" by blast
  then show ?case
  proof cases
    case 1
    then show ?thesis using Cons.prems by simp
  next
    case 2
    then have "q' = q\<lparr>q_failedSourceStats := q_failedSourceStats q @
        [setLocalErrorCode BYTE_SOURCE_READ_ERROR (newStatsId (fi_fileName info))]\<rparr>"
      using Cons.prems(1) unfolding eq 2(2) by simp
    then show ?thesis using accounted_cong [OF Cons.prems(2)] by simp
  next
    case 3
    then obtain q1 infos1 where
      "createIntoQueue env (q_rootDir q @ fi_fileName info) info1 q = Some q1"
      "enqueueFiles env (Suc n) infos q1 = Some (r, infos1, q')"
      using Cons.prems(1) unfolding eq 3(2) by (auto simp: bind_eq_Some_conv)
    then show ?thesis using Cons.IH createIntoQueue_accounted Cons.prems(2) by blast
  qed
qed simp

end
