(* ===== verification/Transfer_History.thy ===== *)
theory Transfer_History
  imports Source_Queue_Laws Protocol_Codec "HOL-Library.AList"
begin

text \<open>
  \<open>util/ThreadTransferHistory\<close>: the sources a sender thread has sent and that are
  not acknowledged yet, and what checkpoints do to them.  The history holds a
  reference to the statistics of its thread, kept here as a field, and to the
  shared source queue, passed and returned by every operation that uses it.
\<close>

section \<open>State\<close>

record ThreadTransferHistory =
  h_threadStats :: TransferStats
  h_history :: "ByteSource list"
  h_globalCheckpoint :: bool
  h_numAcknowledged :: int
  h_lastCheckpoint :: "Checkpoint option"
  h_port :: int
  h_inUse :: bool

definition newHistory :: "TransferStats \<Rightarrow> int \<Rightarrow> ThreadTransferHistory" where
  "newHistory threadStats port = \<lparr>h_threadStats = threadStats, h_history = [],
     h_globalCheckpoint = False, h_numAcknowledged = 0, h_lastCheckpoint = None,
     h_port = port, h_inUse = True\<rparr>"

definition getSourceId :: "int \<Rightarrow> ThreadTransferHistory \<Rightarrow> string" where
  "getSourceId index h =
     (if index \<ge> 0 \<and> index < int (length (h_history h))
      then getIdentifier (h_history h ! nat index) else [])"

section \<open>Failing a source\<close>

text \<open>Whether the partial block of a checkpoint is this source.\<close>

definition checkpoint_matches :: "Checkpoint \<Rightarrow> ByteSource \<Rightarrow> bool" where
  "checkpoint_matches cp s \<longleftrightarrow>
     (cp_hasSeqId cp \<longrightarrow>
        cp_lastBlockSeqId cp = md_seqId (bs_meta s) \<and> cp_lastBlockOffset cp = bs_offset s)"

definition received_bytes :: "Checkpoint option \<Rightarrow> ByteSource \<Rightarrow> int" where
  "received_bytes cp s =
     (case cp of None \<Rightarrow> 0
      | Some c \<Rightarrow> if checkpoint_matches c s then cp_lastBlockReceivedBytes c else 0)"

definition markSourceAsFailed ::
  "Checkpoint option \<Rightarrow> ByteSource \<Rightarrow> TransferStats \<Rightarrow> ByteSource \<times> TransferStats" where
  "markSourceAsFailed cp s threadStats =
     (let receivedBytes = received_bytes cp s; st = bs_stats s;
          dataBytes = bs_size s; headerBytes = ts_effectiveHeaderBytes st;
          wastedBytes = dataBytes - receivedBytes
      in if ts_localErrCode st \<noteq> OK
         then (advanceOffset receivedBytes (s\<lparr>bs_stats := addEffectiveBytes 0 receivedBytes st\<rparr>),
               addEffectiveBytes 0 receivedBytes threadStats)
         else (advanceOffset receivedBytes
                 (s\<lparr>bs_stats := incrFailedAttempts (setLocalErrorCode SOCKET_WRITE_ERROR
                      (decrStatsBlocks (subtractEffectiveBytes headerBytes wastedBytes st)))\<rparr>),
               incrFailedAttempts (decrStatsBlocks (subtractEffectiveBytes headerBytes wastedBytes threadStats))))"

text \<open>
  The loop that pops sources off the end of the history; the argument is the
  popped part, newest first, and only the oldest of it sees the checkpoint.
\<close>

fun fail_sources :: "Checkpoint \<Rightarrow> ByteSource list \<Rightarrow> TransferStats \<Rightarrow> ByteSource list \<times> TransferStats" where
  "fail_sources cp [] threadStats = ([], threadStats)"
| "fail_sources cp (s # ss) threadStats =
     (case markSourceAsFailed (if ss = [] then Some cp else None) s threadStats of (s', ts1) \<Rightarrow>
      case fail_sources cp ss ts1 of (ss', ts2) \<Rightarrow> (s' # ss', ts2))"

section \<open>Operations\<close>

text \<open>\<open>addSource\<close>: the flag says whether the history took the source.\<close>

definition addSource ::
  "ByteSource \<Rightarrow> ThreadTransferHistory \<Rightarrow> DirectorySourceQueue \<Rightarrow>
   (bool \<times> ThreadTransferHistory \<times> DirectorySourceQueue) outcome" where
  "addSource s h q =
     (if h_globalCheckpoint h
      then case markSourceAsFailed (h_lastCheckpoint h) s (h_threadStats h) of (s', ts) \<Rightarrow>
           (case returnToQueue [s'] q of
              Ok q' \<Rightarrow> Ok (False, h\<lparr>h_threadStats := ts, h_lastCheckpoint := None\<rparr>, q')
            | Fail \<Rightarrow> Fail | Abort \<Rightarrow> Abort)
      else Ok (True, h\<lparr>h_history := h_history h @ [s]\<rparr>, q))"

text \<open>\<open>validateCheckpoint\<close>; \<open>Abort\<close> is the failed check of a negative byte count.\<close>

definition validateCheckpoint :: "Checkpoint \<Rightarrow> bool \<Rightarrow> ThreadTransferHistory \<Rightarrow> ErrorCode outcome" where
  "validateCheckpoint cp globalCheckpoint h =
     (case h_lastCheckpoint h of
        None \<Rightarrow> Ok OK
      | Some l \<Rightarrow>
          if cp_numBlocks cp < cp_numBlocks l then Ok INVALID_CHECKPOINT
          else if cp_numBlocks cp > cp_numBlocks l then Ok OK
          else if cp_lastBlockSeqId cp = cp_lastBlockSeqId l \<and> cp_lastBlockOffset cp = cp_lastBlockOffset l
          then (if cp_lastBlockReceivedBytes cp \<noteq> cp_lastBlockReceivedBytes l then Ok INVALID_CHECKPOINT
                else Ok (if globalCheckpoint then OK else NO_PROGRESS))
          else if cp_lastBlockReceivedBytes cp < 0 then Abort
          else Ok (if cp_lastBlockReceivedBytes cp = 0 \<and> \<not> globalCheckpoint then NO_PROGRESS else OK))"

text \<open>
  A negative block count would pop more sources than the history holds, which is
  undefined behaviour of \<open>std::vector\<close>; the model stops with \<open>Abort\<close> there.
\<close>

definition setCheckpointAndReturnToQueue ::
  "Checkpoint \<Rightarrow> bool \<Rightarrow> ThreadTransferHistory \<Rightarrow> DirectorySourceQueue \<Rightarrow>
   (ErrorCode \<times> ThreadTransferHistory \<times> DirectorySourceQueue) outcome" where
  "setCheckpointAndReturnToQueue cp globalCheckpoint h q =
     (if cp_numBlocks cp > int (length (h_history h)) then Ok (INVALID_CHECKPOINT, h, q)
      else case validateCheckpoint cp globalCheckpoint h of
             Fail \<Rightarrow> Fail | Abort \<Rightarrow> Abort
           | Ok errCode \<Rightarrow>
               if errCode = INVALID_CHECKPOINT then Ok (INVALID_CHECKPOINT, h, q)
               else if cp_numBlocks cp < 0 then Abort
               else let n = nat (cp_numBlocks cp) in
                 case fail_sources cp (rev (drop n (h_history h))) (h_threadStats h) of (ss, ts) \<Rightarrow>
                 (case returnToQueue ss q of
                    Fail \<Rightarrow> Fail | Abort \<Rightarrow> Abort
                  | Ok q' \<Rightarrow> Ok (errCode,
                      h\<lparr>h_threadStats := ts, h_history := take n (h_history h),
                        h_globalCheckpoint := h_globalCheckpoint h \<or> globalCheckpoint,
                        h_lastCheckpoint := Some cp, h_numAcknowledged := cp_numBlocks cp\<rparr>, q')))"

definition setLocalCheckpoint ::
  "Checkpoint \<Rightarrow> ThreadTransferHistory \<Rightarrow> DirectorySourceQueue \<Rightarrow>
   (ErrorCode \<times> ThreadTransferHistory \<times> DirectorySourceQueue) outcome" where
  "setLocalCheckpoint cp h q = setCheckpointAndReturnToQueue cp False h q"

text \<open>\<open>setGlobalCheckpoint\<close> then waits until the owning thread has marked the history as
  not in use; the wait changes nothing.\<close>

definition setGlobalCheckpoint ::
  "Checkpoint \<Rightarrow> ThreadTransferHistory \<Rightarrow> DirectorySourceQueue \<Rightarrow>
   (ErrorCode \<times> ThreadTransferHistory \<times> DirectorySourceQueue) outcome" where
  "setGlobalCheckpoint cp h q = setCheckpointAndReturnToQueue cp True h q"

definition globalCheckpointWaits :: "ThreadTransferHistory \<Rightarrow> bool" where
  "globalCheckpointWaits h = h_inUse h"

definition popAckedSourceStats ::
  "ThreadTransferHistory \<Rightarrow> (TransferStats list \<times> ThreadTransferHistory) outcome" where
  "popAckedSourceStats h =
     (if h_numAcknowledged h \<noteq> int (length (h_history h)) then Abort
      else Ok (map bs_stats (rev (h_history h)), h\<lparr>h_history := []\<rparr>))"

definition markAllAcknowledged :: "ThreadTransferHistory \<Rightarrow> ThreadTransferHistory" where
  "markAllAcknowledged h = h\<lparr>h_numAcknowledged := int (length (h_history h))\<rparr>"

text \<open>The error code of the call is dropped; a default checkpoint has every other field 0.\<close>

definition returnUnackedSourcesToQueue ::
  "ThreadTransferHistory \<Rightarrow> DirectorySourceQueue \<Rightarrow> (ThreadTransferHistory \<times> DirectorySourceQueue) outcome" where
  "returnUnackedSourcesToQueue h q =
     (case setCheckpointAndReturnToQueue ((newCheckpoint 0)\<lparr>cp_numBlocks := h_numAcknowledged h\<rparr>) False h q of
        Ok (_, h', q') \<Rightarrow> Ok (h', q') | Fail \<Rightarrow> Fail | Abort \<Rightarrow> Abort)"

definition isGlobalCheckpointReceived :: "ThreadTransferHistory \<Rightarrow> bool" where
  "isGlobalCheckpointReceived h = h_globalCheckpoint h"

definition markNotInUse :: "ThreadTransferHistory \<Rightarrow> ThreadTransferHistory" where
  "markNotInUse h = h\<lparr>h_inUse := False\<rparr>"

section \<open>The histories of all threads\<close>

type_synonym histories = "(int \<times> ThreadTransferHistory) list"

definition addThreadHistory :: "int \<Rightarrow> TransferStats \<Rightarrow> histories \<Rightarrow> histories" where
  "addThreadHistory port threadStats hs = map_insert (port, newHistory threadStats port) hs"

definition getTransferHistory :: "int \<Rightarrow> histories \<Rightarrow> ThreadTransferHistory outcome" where
  "getTransferHistory port hs = (case map_of hs port of None \<Rightarrow> Abort | Some h \<Rightarrow> Ok h)"

text \<open>\<open>handleVersionMismatch\<close> visits the histories in the order of the map and stops at
  the first one with an acknowledged source.\<close>

fun handleVersionMismatch ::
  "histories \<Rightarrow> DirectorySourceQueue \<Rightarrow> (ErrorCode \<times> histories \<times> DirectorySourceQueue) outcome" where
  "handleVersionMismatch [] q = Ok (OK, [], q)"
| "handleVersionMismatch ((port, h) # hs) q =
     (if h_numAcknowledged h > 0 then Ok (ERROR, (port, h) # hs, q)
      else case returnUnackedSourcesToQueue h q of
             Fail \<Rightarrow> Fail | Abort \<Rightarrow> Abort
           | Ok (h', q') \<Rightarrow>
               (case handleVersionMismatch hs q' of
                  Fail \<Rightarrow> Fail | Abort \<Rightarrow> Abort
                | Ok (e, hs', q'') \<Rightarrow> Ok (e, (port, h') # hs', q'')))"

definition handleGlobalCheckpoint ::
  "Checkpoint \<Rightarrow> histories \<Rightarrow> DirectorySourceQueue \<Rightarrow> (histories \<times> DirectorySourceQueue) outcome" where
  "handleGlobalCheckpoint cp hs q =
     (case map_of hs (cp_port cp) of
        None \<Rightarrow> Ok (hs, q)
      | Some h \<Rightarrow>
          (case setGlobalCheckpoint cp h q of
             Fail \<Rightarrow> Fail | Abort \<Rightarrow> Abort
           | Ok (_, h', q') \<Rightarrow> Ok (AList.update (cp_port cp) h' hs, q')))"

section \<open>Acknowledged sources\<close>

definition hist_inv :: "ThreadTransferHistory \<Rightarrow> bool" where
  "hist_inv h \<longleftrightarrow> 0 \<le> h_numAcknowledged h \<and> h_numAcknowledged h \<le> int (length (h_history h)) \<and>
     (\<forall>l. h_lastCheckpoint h = Some l \<longrightarrow> cp_numBlocks l = h_numAcknowledged h)"

lemma setCheckpoint_cases:
  assumes "setCheckpointAndReturnToQueue cp glob h q = Ok (e, h', q')"
  obtains (rejected) "e = INVALID_CHECKPOINT" "h' = h" "q' = q"
  | (accepted) ss ts where "validateCheckpoint cp glob h = Ok e" "e \<noteq> INVALID_CHECKPOINT"
      "0 \<le> cp_numBlocks cp" "cp_numBlocks cp \<le> int (length (h_history h))"
      "fail_sources cp (rev (drop (nat (cp_numBlocks cp)) (h_history h))) (h_threadStats h) = (ss, ts)"
      "returnToQueue ss q = Ok q'"
      "h' = h\<lparr>h_threadStats := ts, h_history := take (nat (cp_numBlocks cp)) (h_history h),
              h_globalCheckpoint := h_globalCheckpoint h \<or> glob,
              h_lastCheckpoint := Some cp, h_numAcknowledged := cp_numBlocks cp\<rparr>"
proof (cases "e = INVALID_CHECKPOINT \<and> h' = h \<and> q' = q")
  case True
  then show ?thesis using rejected by blast
next
  case False
  obtain ss ts where f: "fail_sources cp (rev (drop (nat (cp_numBlocks cp)) (h_history h))) (h_threadStats h) = (ss, ts)"
    by fastforce
  show ?thesis using assms False f accepted
    by (auto simp: setCheckpointAndReturnToQueue_def Let_def split: if_splits outcome.splits)
qed


definition example_history :: ThreadTransferHistory where
  "example_history = (newHistory newStats 1)\<lparr>h_history := [newSource example_file 5 0, newSource example_file 5 5]\<rparr>"


text \<open>C36: returning unacknowledged sources at the end of a failed transfer leaves the
  history ready for \<open>popAckedSourceStats\<close> except in one case, in which the check of
  \<open>popAckedSourceStats\<close> fails and the process aborts: the last checkpoint named
  received bytes of the block with sequence id 0 at offset 0, which a resumed transfer
  can assign, because the default checkpoint built for the return looks like the same
  block with other bytes and is rejected.\<close>

theorem unacked_sources_abort:
  assumes inv: "hist_inv h" and ok: "returnUnackedSourcesToQueue h q = Ok (h', q')"
  shows "popAckedSourceStats h' = Abort \<longleftrightarrow>
    (\<exists>l. h_lastCheckpoint h = Some l \<and> cp_lastBlockSeqId l = 0 \<and> cp_lastBlockOffset l = 0 \<and>
       cp_lastBlockReceivedBytes l \<noteq> 0 \<and> h_numAcknowledged h < int (length (h_history h)))"
proof -
  let ?cp = "(newCheckpoint 0)\<lparr>cp_numBlocks := h_numAcknowledged h\<rparr>"
  obtain e where e: "setCheckpointAndReturnToQueue ?cp False h q = Ok (e, h', q')"
    using ok by (auto simp: returnUnackedSourcesToQueue_def split: outcome.splits)
  have bounds: "0 \<le> h_numAcknowledged h" "h_numAcknowledged h \<le> int (length (h_history h))"
    using inv by (simp_all add: hist_inv_def)
  have v: "validateCheckpoint ?cp False h = Ok INVALID_CHECKPOINT \<longleftrightarrow>
      (\<exists>l. h_lastCheckpoint h = Some l \<and> cp_lastBlockSeqId l = 0 \<and> cp_lastBlockOffset l = 0 \<and>
       cp_lastBlockReceivedBytes l \<noteq> 0)"
    using inv by (auto simp: validateCheckpoint_def hist_inv_def newCheckpoint_def split: option.splits)
  from e show ?thesis
  proof (cases rule: setCheckpoint_cases)
    case rejected
    then have "validateCheckpoint ?cp False h = Ok INVALID_CHECKPOINT"
      using e bounds by (auto simp: setCheckpointAndReturnToQueue_def Let_def newCheckpoint_def
          split: outcome.splits if_splits prod.splits)
    then show ?thesis using v rejected bounds by (auto simp: popAckedSourceStats_def)
  next
    case (accepted ss ts)
    then show ?thesis using v bounds by (simp add: popAckedSourceStats_def newCheckpoint_def)
  qed
qed

text \<open>A thread whose first block, of sequence id 0, was interrupted after two bytes and
  which sent the rest again.\<close>

definition interrupted_history :: ThreadTransferHistory where
  "interrupted_history = (newHistory newStats 1)\<lparr>h_history := [newSource example_file 3 2],
     h_lastCheckpoint := Some ((newCheckpoint 1)\<lparr>cp_lastBlockReceivedBytes := 2, cp_hasSeqId := True\<rparr>)\<rparr>"

theorem unacked_sources_abort_witness:
  "\<exists>h' q'. returnUnackedSourcesToQueue interrupted_history (newQueue ''/'') = Ok (h', q') \<and>
     popAckedSourceStats h' = Abort"
proof -
  have inv: "hist_inv interrupted_history"
    by (simp add: hist_inv_def interrupted_history_def newHistory_def newCheckpoint_def)
  have r: "returnUnackedSourcesToQueue interrupted_history (newQueue ''/'') = Ok (interrupted_history, newQueue ''/'')"
    by (simp add: returnUnackedSourcesToQueue_def setCheckpointAndReturnToQueue_def interrupted_history_def
        newHistory_def validateCheckpoint_def newCheckpoint_def)
  from unacked_sources_abort [OF inv r] r show ?thesis
    by (simp add: interrupted_history_def newHistory_def newCheckpoint_def)
qed

end
