(* ===== verification/Queue_Invariants.thy ===== *)
theory Queue_Invariants
  imports Source_Queue_Laws
begin

text \<open>
  Invariants of the source queue over whole runs: block accounting under every
  operation that changes the queue, what \<open>getNextSource\<close> hands out, and distinct
  sequence ids after a resumed transfer.
\<close>

section \<open>Accounting under discovery\<close>

lemma explore_entry_accounted:
  assumes "explore_entry env rel e x = Some y" "accounted (ex_queue x)"
  shows "accounted (ex_queue y)"
proof (cases "classify_entry env (ex_queue x) rel e")
  case (AddFile path sz)
  then show ?thesis using assms createIntoQueue_accounted by (auto simp: explore_entry_def Let_def)
qed (use assms in \<open>auto simp: explore_entry_def Let_def split: if_splits\<close>)

lemma explore_entries_accounted:
  "explore_entries env rel es err x = Some y \<Longrightarrow> accounted (ex_queue x) \<Longrightarrow> accounted (ex_queue y)"
proof (induction es arbitrary: x)
  case Nil
  then show ?case by (auto simp: Let_def split: if_splits)
next
  case (Cons e es)
  show ?case
  proof (cases "env_shouldAbort env (ex_checks x)")
    case True
    then show ?thesis using Cons.prems by (auto simp: Let_def)
  next
    case False
    then obtain x2 where "explore_entry env rel e (x\<lparr>ex_checks := Suc (ex_checks x)\<rparr>) = Some x2"
      "explore_entries env rel es err x2 = Some y"
      using Cons.prems(1) by (auto simp: Let_def bind_eq_Some_conv)
    then show ?thesis using Cons.IH explore_entry_accounted Cons.prems(2) by fastforce
  qed
qed

lemma explore_loop_accounted:
  assumes "explore_loop env x = Some y" "accounted (ex_queue x)"
  shows "accounted (ex_queue y)"
proof -
  have "(case (env, x) of (env, x) \<Rightarrow> explore_loop env x) = Some y" using assms(1) by simp
  then have "(case (env, x) of (env, x) \<Rightarrow> (\<lambda>_ x y. accounted (ex_queue x) \<longrightarrow> accounted (ex_queue y)) env x) y"
  proof (rule explore_loop.raw_induct [rotated])
    fix loop :: "queue_env \<Rightarrow> explore_state \<Rightarrow> explore_state option" and env x y
    assume IH: "\<And>env x y. loop env x = Some y \<Longrightarrow> accounted (ex_queue x) \<longrightarrow> accounted (ex_queue y)"
    assume step: "(case ex_todoList x of [] \<Rightarrow> Some x
      | relativePath # todo \<Rightarrow>
          if env_shouldAbort env (ex_checks x)
          then Some (x\<lparr>ex_hasError := True, ex_checks := Suc (ex_checks x)\<rparr>)
          else let x1 = x\<lparr>ex_todoList := todo, ex_checks := Suc (ex_checks x)\<rparr>;
                   fullPath = q_rootDir (ex_queue x) @ relativePath
               in case env_opendir env fullPath of
                    None \<Rightarrow> loop env (x1\<lparr>ex_hasError := True,
                        ex_queue := (ex_queue x1)\<lparr>q_failedDirectories := q_failedDirectories (ex_queue x1) @ [fullPath]\<rparr>\<rparr>)
                  | Some (entries, readError) \<Rightarrow>
                      Option.bind (explore_entries env relativePath entries readError x1) (loop env)) = Some y"
    show "accounted (ex_queue x) \<longrightarrow> accounted (ex_queue y)"
    proof
      assume acc: "accounted (ex_queue x)"
      then have fd: "accounted (ex_queue x\<lparr>q_failedDirectories := d\<rparr>)" for d
        by (rule accounted_cong) simp_all
      show "accounted (ex_queue y)"
      proof (cases "ex_todoList x")
        case Nil
        then show ?thesis using step acc by simp
      next
        case (Cons rel todo)
        consider "env_shouldAbort env (ex_checks x)"
          | "\<not> env_shouldAbort env (ex_checks x)" "env_opendir env (q_rootDir (ex_queue x) @ rel) = None"
          | es err where "\<not> env_shouldAbort env (ex_checks x)"
              "env_opendir env (q_rootDir (ex_queue x) @ rel) = Some (es, err)"
          by (metis option.exhaust prod.exhaust)
        then show ?thesis
        proof cases
          case 1
          then show ?thesis using step Cons acc by auto
        next
          case 2
          then show ?thesis using step Cons IH fd by (fastforce simp: Let_def)
        next
          case 3
          then show ?thesis using step Cons IH explore_entries_accounted acc
            by (fastforce simp: Let_def bind_eq_Some_conv)
        qed
      qed
    qed
  qed
  then show ?thesis using assms(2) by simp
qed

lemma enqueue_deletions_accounted: "accounted q \<Longrightarrow> accounted (enqueue_deletions d ms q)"
proof (induction d ms q rule: enqueue_deletions.induct)
  case (2 d n fci rest q)
  then show ?case by (auto simp: Let_def accounted_def)
qed simp

lemma enqueueFilesToBeDeleted_accounted: "accounted q \<Longrightarrow> accounted (enqueueFilesToBeDeleted q)"
  by (simp add: enqueueFilesToBeDeleted_def enqueue_deletions_accounted)

lemma recreate_accounted: "recreate is q = Some q' \<Longrightarrow> accounted q \<Longrightarrow> accounted q'"
  by (induction "is" arbitrary: q) (auto simp: bind_eq_Some_conv intro: createIntoQueueInternal_accounted)

lemma setPreviouslyReceivedChunks_accounted:
  assumes "setPreviouslyReceivedChunks chunks q = Some (Ok q')"
  shows "accounted q'"
proof -
  obtain n m where am: "add_received chunks 0 (q_previouslyTransferredChunks q) = (n, m)" by fastforce
  let ?q = "clearSourceQueue (q\<lparr>q_nextSeqId := n, q_totalFileSize := 0,
              q_numEntries := 0, q_numBlocks := 0, q_previouslyTransferredChunks := m\<rparr>)"
  have d: "q_numBlocksDequeued q = 0"
    using assms by (simp add: setPreviouslyReceivedChunks_def split: if_splits)
  then obtain q2 where "recreate [0 ..< length (q_sharedFileData ?q)] ?q = Some q2"
    "q' = enqueueFilesToBeDeleted q2"
    using assms am by (auto simp: setPreviouslyReceivedChunks_def Let_def)
  moreover have "accounted ?q" using d by (simp add: accounted_def clearSourceQueue_def pq_inv_def)
  ultimately show ?thesis using recreate_accounted enqueueFilesToBeDeleted_accounted by blast
qed

lemma enqueue_batches_accounted:
  "enqueue_batches env n bs rq = Some (r, q') \<Longrightarrow> accounted (snd rq) \<Longrightarrow> accounted q'"
proof (induction env n bs rq rule: enqueue_batches.induct)
  case (2 env n files batches res q)
  show ?case
  proof (cases res)
    case True
    then obtain res1 files1 q1 where e: "enqueueFiles env n files q = Some (res1, files1, q1)"
      "enqueue_batches env (n + length files) batches (res1, q1\<lparr>q_fileInfo := q_fileInfo q1 @ files1\<rparr>) = Some (r, q')"
      using 2(2) by (auto simp: bind_eq_Some_conv)
    have "accounted q1" using enqueueFiles_accounted [OF e(1)] 2(3) by simp
    then have "accounted (q1\<lparr>q_fileInfo := q_fileInfo q1 @ files1\<rparr>)" by (rule accounted_cong) simp_all
    then show ?thesis using 2(1) [of "(res1, files1, q1)"] True e by auto
  qed (use 2 in simp)
qed simp

lemma buildQueueSynchronously_accounted:
  assumes "buildQueueSynchronously env batches q = Some (Ok (r, q'))" "accounted q"
  shows "accounted q'"
proof (cases "q_initCalled q")
  case False
  define q0 where "q0 = q\<lparr>q_initCalled := True\<rparr>"
  have q0: "accounted q0" using accounted_cong [OF assms(2)] by (simp add: q0_def)
  have "\<exists>q1. accounted q1 \<and> q' = enqueueFilesToBeDeleted (q1\<lparr>q_initFinished := True\<rparr>)"
  proof (cases "q_exploreDirectory q0")
    case True
    then obtain z where z: "explore env q0 = Some z"
      "(case z of Ok (res, q1) \<Rightarrow> Ok (res, enqueueFilesToBeDeleted (q1\<lparr>q_initFinished := True\<rparr>))
        | Fail \<Rightarrow> Fail | Abort \<Rightarrow> Abort) = Ok (r, q')"
      using assms(1) False by (auto simp: buildQueueSynchronously_def q0_def [symmetric] Let_def)
    then obtain q1 where "explore env q0 = Some (Ok (r, q1))"
      "q' = enqueueFilesToBeDeleted (q1\<lparr>q_initFinished := True\<rparr>)"
      by (cases z) auto
    then show ?thesis using explore_loop_accounted q0
      by (fastforce simp: explore_def split: if_splits)
  next
    case x: False
    then obtain r1 infos q1 q2 where e: "enqueueFiles env 0 (q_fileInfo q0) q0 = Some (r1, infos, q1)"
      "enqueue_batches env (length infos) batches (r1, q1\<lparr>q_fileInfo := infos\<rparr>) = Some (r, q2)"
      "q' = enqueueFilesToBeDeleted (q2\<lparr>q_initFinished := True\<rparr>)"
      using assms(1) False by (auto simp: buildQueueSynchronously_def q0_def [symmetric] Let_def bind_eq_Some_conv)
    have "accounted (q1\<lparr>q_fileInfo := infos\<rparr>)"
      using accounted_cong [OF enqueueFiles_accounted [OF e(1) q0]] by simp
    then show ?thesis using enqueue_batches_accounted [OF e(2)] e(3) by auto
  qed
  then obtain q1 where "accounted q1" "q' = enqueueFilesToBeDeleted (q1\<lparr>q_initFinished := True\<rparr>)" by blast
  then show ?thesis using enqueueFilesToBeDeleted_accounted accounted_cong [of q1 "q1\<lparr>q_initFinished := True\<rparr>"] by simp
qed (use assms in \<open>simp add: buildQueueSynchronously_def\<close>)

section \<open>Draining the queue\<close>

lemma getNextSource_cases:
  assumes "q_sourceQueue q = s # rest" "openSource (env_openForRead env) s = (e, s')"
  shows "getNextSource env q =
    (if e = OK then (GotSource s' (queue_status q),
                     q\<lparr>q_sourceQueue := rest, q_numBlocksDequeued := q_numBlocksDequeued q + 1\<rparr>)
     else getNextSource env (q\<lparr>q_sourceQueue := rest,
            q_failedSourceStats := q_failedSourceStats q @ [bs_stats (closeSource s')]\<rparr>))"
  using assms by (cases e) (simp_all add: getNextSource.simps [of env q] Let_def)

lemma getNextSource_Nil:
  assumes "q_sourceQueue q = []"
  shows "getNextSource env q = (if \<not> q_initFinished q then (WouldBlock, q\<lparr>q_numWaiters := q_numWaiters q + 1\<rparr>)
                                else (NoSource (queue_status q), q))"
  using assms by (simp add: getNextSource.simps)

text \<open>C34: a source is handed out in priority order: \<open>getNextSource\<close> skips only
  sources that fail to open (each recorded as failed), the source it returns is the
  opened one, everything left in the queue has no higher priority, and it waits
  only when the queue ran dry before discovery finished.\<close>

theorem getNextSource_priority:
  assumes "pq_inv (q_sourceQueue q)" "getNextSource env q = (r, q')"
  shows "\<exists>bad. (\<forall>s \<in> set bad. fst (openSource (env_openForRead env) s) \<noteq> OK) \<and>
     length (q_failedSourceStats q') = length (q_failedSourceStats q) + length bad \<and>
     (case r of
        GotSource s' st \<Rightarrow>
          (\<exists>s. q_sourceQueue q = bad @ s # q_sourceQueue q' \<and> openSource (env_openForRead env) s = (OK, s') \<and>
             (\<forall>t \<in> set (q_sourceQueue q'). source_key s \<le> source_key t) \<and>
             q_numBlocksDequeued q' = q_numBlocksDequeued q + 1)
      | NoSource st \<Rightarrow> q_sourceQueue q = bad \<and> q_sourceQueue q' = [] \<and> q_initFinished q
      | WouldBlock \<Rightarrow> q_sourceQueue q = bad \<and> q_sourceQueue q' = [] \<and> \<not> q_initFinished q)"
  using assms
proof (induction "q_sourceQueue q" arbitrary: q)
  case Nil
  then show ?case by (auto simp: getNextSource_Nil split: if_splits)
next
  case (Cons s rest)
  note [simp] = Cons.hyps(2) [symmetric]
  obtain e s' where o: "openSource (env_openForRead env) s = (e, s')" by fastforce
  note step = getNextSource_cases [OF Cons.hyps(2) [symmetric] o]
  show ?case
  proof (cases "e = OK")
    case True
    have "\<forall>t \<in> set rest. source_key s \<le> source_key t" using Cons.prems(1) by (simp add: pq_inv_def)
    then show ?thesis using True o step Cons.prems(2) by (intro exI [of _ "[]"]) auto
  next
    case False
    define q2 where "q2 = q\<lparr>q_sourceQueue := rest,
       q_failedSourceStats := q_failedSourceStats q @ [bs_stats (closeSource s')]\<rparr>"
    have q2: "rest = q_sourceQueue q2" "q_initFinished q2 = q_initFinished q"
      "q_numBlocksDequeued q2 = q_numBlocksDequeued q" "pq_inv (q_sourceQueue q2)"
      "length (q_failedSourceStats q2) = Suc (length (q_failedSourceStats q))"
      "getNextSource env q2 = (r, q')"
      using Cons.prems step False by (simp_all add: q2_def pq_inv_def)
    obtain bad where bad: "\<forall>s \<in> set bad. fst (openSource (env_openForRead env) s) \<noteq> OK"
      "length (q_failedSourceStats q') = length (q_failedSourceStats q2) + length bad"
      "case r of
        GotSource s' st \<Rightarrow>
          (\<exists>s. rest = bad @ s # q_sourceQueue q' \<and> openSource (env_openForRead env) s = (OK, s') \<and>
             (\<forall>t \<in> set (q_sourceQueue q'). source_key s \<le> source_key t) \<and>
             q_numBlocksDequeued q' = q_numBlocksDequeued q + 1)
      | NoSource st \<Rightarrow> rest = bad \<and> q_sourceQueue q' = [] \<and> q_initFinished q
      | WouldBlock \<Rightarrow> rest = bad \<and> q_sourceQueue q' = [] \<and> \<not> q_initFinished q"
      using Cons.hyps(1) [OF q2(1,4,6)] unfolding q2(1) [symmetric] q2(2,3) by blast
    then show ?thesis using o False q2(5) by (intro exI [of _ "s # bad"]) (cases r; simp)
  qed
qed

definition example_env :: queue_env where
  "example_env = \<lparr>env_openForRead = (\<lambda>path _. if path = ''/a'' then 7 else - 1), env_fdIsDirect = (\<lambda>_. False),
     env_odirect = False, env_stat = (\<lambda>_. None), env_lstat = (\<lambda>_. None), env_opendir = (\<lambda>_. None),
     env_resolvePath = id, env_regex_match = (\<lambda>_ _. False), env_shouldAbort = (\<lambda>_. False)\<rparr>"

definition example_sources :: "ByteSource list" where
  "example_sources = [newSource (newMetaData\<lparr>md_relPath := ''b'', md_fullPath := ''/b'', md_size := 9\<rparr>) 9 0,
                      newSource (newMetaData\<lparr>md_relPath := ''a'', md_fullPath := ''/a'', md_size := 5\<rparr>) 5 0]"

theorem getNextSource_priority_witness:
  "\<exists>s st q'. getNextSource example_env ((newQueue ''/'')\<lparr>q_sourceQueue := example_sources\<rparr>) = (GotSource s st, q') \<and>
     bs_fd s = 7 \<and> q_numBlocksDequeued q' = 1 \<and>
     (\<exists>bad s0. example_sources = bad @ s0 # q_sourceQueue q' \<and> length (q_failedSourceStats q') = length bad)"
proof -
  let ?q = "(newQueue ''/'')\<lparr>q_sourceQueue := example_sources\<rparr>"
  have inv: "pq_inv (q_sourceQueue ?q)"
    by (simp add: pq_inv_def example_sources_def source_key_def newSource_def newMetaData_def
        newStatsId_def newStats_def)
  obtain s st q' where g: "getNextSource example_env ?q = (GotSource s st, q')" "bs_fd s = 7"
    by (simp add: getNextSource.simps example_sources_def newSource_def newMetaData_def openSource_def
        example_env_def Let_def closeSource_def)
  from getNextSource_priority [OF inv g(1)] g show ?thesis
    by (auto simp: newQueue_def)
qed

section \<open>Accounting over whole runs\<close>

inductive queue_step :: "queue_env \<Rightarrow> DirectorySourceQueue \<Rightarrow> DirectorySourceQueue \<Rightarrow> bool" for env where
  build: "buildQueueSynchronously env batches q = Some (Ok (r, q')) \<Longrightarrow> queue_step env q q'"
| discover: "createIntoQueue env path info q = Some q' \<Longrightarrow> queue_step env q q'"
| resume: "setPreviouslyReceivedChunks chunks q = Some (Ok q') \<Longrightarrow> queue_step env q q'"
| dequeue: "getNextSource env q = (r, q') \<Longrightarrow> queue_step env q q'"
| give_back: "returnToQueue ss q = Ok q' \<Longrightarrow> queue_step env q q'"
| collect: "getFailedSourceStats q = (st, q') \<Longrightarrow> queue_step env q q'"

inductive_cases queue_stepE: "queue_step env q q'"

lemma getNextSource_accounted: "getNextSource env q = (r, q') \<Longrightarrow> accounted q \<Longrightarrow> accounted q'"
proof (induction "q_sourceQueue q" arbitrary: q)
  case Nil
  then show ?case by (auto simp: getNextSource_Nil accounted_def split: if_splits)
next
  case (Cons s rest)
  note [simp] = Cons.hyps(2) [symmetric]
  obtain e s' where o: "openSource (env_openForRead env) s = (e, s')" by fastforce
  note step = getNextSource_cases [OF Cons.hyps(2) [symmetric] o]
  have acc: "accounted (q\<lparr>q_sourceQueue := rest, q_numBlocksDequeued := q_numBlocksDequeued q + 1\<rparr>)"
    "accounted (q\<lparr>q_sourceQueue := rest, q_failedSourceStats := q_failedSourceStats q @ [x]\<rparr>)" for x
    using Cons.prems(2) by (simp_all add: accounted_def pq_inv_def)
  show ?case
  proof (cases "e = OK")
    case True
    then show ?thesis using Cons.prems(1) step acc(1) by simp
  next
    case False
    then show ?thesis using Cons.hyps(1) [OF _ _ acc(2)] Cons.prems(1) step by simp
  qed
qed

lemma returnToQueue_spec:
  "0 \<le> q_numBlocksDequeued q \<Longrightarrow> returnToQueue ss q =
     (if int (length ss) \<le> q_numBlocksDequeued q
      then Ok (q\<lparr>q_sourceQueue := fold pq_push ss (q_sourceQueue q),
                 q_numBlocksDequeued := q_numBlocksDequeued q - int (length ss)\<rparr>)
      else Abort)"
  by (induction ss q rule: returnToQueue.induct) (auto simp: Let_def)

lemma returnToQueue_accounted: "returnToQueue ss q = Ok q' \<Longrightarrow> accounted q \<Longrightarrow> accounted q'"
proof -
  assume r: "returnToQueue ss q = Ok q'" and a: "accounted q"
  have "length (fold pq_push ss xs) = length xs + length ss" for xs
    using pq.pushes_contents [of ss xs] by (metis size_mset size_union)
  then show ?thesis using r a pq.pushes_inv
    by (auto simp: returnToQueue_spec accounted_def split: if_splits)
qed

lemma queue_step_accounted: "queue_step env q q' \<Longrightarrow> accounted q \<Longrightarrow> accounted q'"
proof (induction rule: queue_step.induct)
  case (collect q st q')
  then show ?case by (auto simp: getFailedSourceStats_def Let_def accounted_def pq_inv_def)
qed (blast intro: buildQueueSynchronously_accounted createIntoQueue_accounted getNextSource_accounted
      setPreviouslyReceivedChunks_accounted returnToQueue_accounted)+

lemma reachable_accounted: "(queue_step env)\<^sup>*\<^sup>* (newQueue root) q \<Longrightarrow> accounted q"
proof (induction rule: rtranclp_induct)
  case base
  show ?case by (simp add: accounted_def newQueue_def pq_inv_def)
qed (rule queue_step_accounted)

text \<open>C30: however discovery, resumption, dequeueing, giving sources back and collecting
  failures interleave from a fresh queue, no block is lost: as long as no source has
  failed, the blocks announced to the receiver are exactly those still queued plus
  those handed out, the queue stays in priority order, and giving sources back
  succeeds whenever no more are returned than were handed out.\<close>

theorem queue_blocks_accounted:
  assumes "(queue_step env)\<^sup>*\<^sup>* (newQueue root) q"
  shows "pq_inv (q_sourceQueue q) \<and>
     int (length (q_sourceQueue q)) + q_numBlocksDequeued q \<le> q_numBlocks q \<and>
     (q_failedSourceStats q = [] \<longrightarrow>
        fst (getNumBlocksAndStatus q) = int (length (q_sourceQueue q)) + q_numBlocksDequeued q) \<and>
     (returnToQueue ss q \<noteq> Abort \<longleftrightarrow> int (length ss) \<le> q_numBlocksDequeued q)"
  using reachable_accounted [OF assms] by (auto simp: accounted_def getNumBlocksAndStatus_def returnToQueue_spec)

definition example_info :: WdtFileInfo where
  "example_info = \<lparr>fi_fileName = ''a'', fi_fileSize = 5, fi_fd = - 1, fi_directReads = False\<rparr>"

theorem queue_blocks_accounted_witness:
  "\<exists>q. (queue_step example_env)\<^sup>*\<^sup>* (newQueue ''/'') q \<and> q_sourceQueue q \<noteq> [] \<and>
     fst (getNumBlocksAndStatus q) = int (length (q_sourceQueue q)) + q_numBlocksDequeued q"
proof -
  obtain q where q: "createIntoQueue example_env ''/a'' example_info (newQueue ''/'') = Some q"
    "q_failedSourceStats q = []" "q_sourceQueue q \<noteq> []"
    by (simp add: createIntoQueue_def open_during_discovery_def newQueue_def metadata_of_def example_info_def
        verifyAndFixFlags_def Let_def example_env_def createIntoQueueInternal_def plan_file_def newMetaData_def
        chunkSize_def split_blocks.simps block_size_for_def pq_push_def)
  then have s: "(queue_step example_env)\<^sup>*\<^sup>* (newQueue ''/'') q"
    by (meson queue_step.discover r_into_rtranclp)
  show ?thesis using queue_blocks_accounted [OF s, of "[]"] s q(2,3) by blast
qed

section \<open>Sequence ids of a resumed transfer\<close>

text \<open>A sequence id identifies a file on the receiver, so two sources may share one
  exactly when they belong to the same file.\<close>

definition seq_unique :: "ByteSource set \<Rightarrow> bool" where
  "seq_unique S \<longleftrightarrow> (\<forall>s \<in> S. \<forall>t \<in> S.
     md_seqId (bs_meta s) = md_seqId (bs_meta t) \<longleftrightarrow> md_relPath (bs_meta s) = md_relPath (bs_meta t))"

text \<open>\<open>n0\<close> is the first fresh id; smaller ids are those of the received files.\<close>

definition seq_owner :: "(string \<times> FileChunksInfo) list \<Rightarrow> int \<Rightarrow> int \<Rightarrow> ByteSource \<Rightarrow> bool" where
  "seq_owner prev n0 n s \<longleftrightarrow>
     (\<exists>fci. map_of prev (md_relPath (bs_meta s)) = Some fci \<and> md_seqId (bs_meta s) = fc_seqId fci) \<or>
     (n0 \<le> md_seqId (bs_meta s) \<and> md_seqId (bs_meta s) < n)"

definition received_ids :: "(string \<times> FileChunksInfo) list \<Rightarrow> int \<Rightarrow> bool" where
  "received_ids prev n0 \<longleftrightarrow> (\<forall>p f. map_of prev p = Some f \<longrightarrow> fc_seqId f < n0) \<and>
     (\<forall>p p' f f'. map_of prev p = Some f \<longrightarrow> map_of prev p' = Some f' \<longrightarrow> fc_seqId f = fc_seqId f' \<longrightarrow> p = p')"

definition seq_inv :: "int \<Rightarrow> string set \<Rightarrow> DirectorySourceQueue \<Rightarrow> bool" where
  "seq_inv n0 paths q \<longleftrightarrow> n0 \<le> q_nextSeqId q \<and> seq_unique (set (q_sourceQueue q)) \<and>
     (\<forall>s \<in> set (q_sourceQueue q). md_relPath (bs_meta s) \<in> paths \<and>
        seq_owner (q_previouslyTransferredChunks q) n0 (q_nextSeqId q) s)"

lemma push_chunks_queue:
  assumes "push_chunks m b cs q = Some q'"
  shows "(\<forall>s \<in> set (q_sourceQueue q'). s \<in> set (q_sourceQueue q) \<or> bs_meta s = m) \<and>
    q_nextSeqId q' = q_nextSeqId q \<and> q_sharedFileData q' = q_sharedFileData q \<and>
    q_previouslyTransferredChunks q' = q_previouslyTransferredChunks q"
  using assms
proof (induction m b cs q rule: push_chunks.induct)
  case (2 m b c cs q)
  obtain bs where bs: "split_blocks b (chunkSize c) (chunkStart c) = Some bs"
    using 2(2) by (auto split: option.splits)
  have "set (push_blocks m bs xs) = set xs \<union> (\<lambda>(sz, off). newSource m sz off) ` set bs" for xs
    unfolding push_blocks_pushes using pq.pushes_contents [of "map (\<lambda>(sz, off). newSource m sz off) bs" xs]
    by (metis set_mset_mset set_mset_union set_map)
  then show ?case using 2(1) [OF bs] 2(2) bs by (fastforce simp: newSource_bytes)
qed simp

lemma seq_inv_extend:
  assumes inv: "seq_inv n0 paths q" and ids: "received_ids (q_previouslyTransferredChunks q) n0"
    and p: "p \<notin> paths"
    and sub: "\<forall>s \<in> set (q_sourceQueue q'). s \<in> set (q_sourceQueue q) \<or>
                (md_relPath (bs_meta s) = p \<and> md_seqId (bs_meta s) = k)"
    and prev: "q_previouslyTransferredChunks q' = q_previouslyTransferredChunks q"
    and k: "(q_nextSeqId q' = q_nextSeqId q + 1 \<and> k = q_nextSeqId q) \<or>
            (q_nextSeqId q' = q_nextSeqId q \<and>
             (\<exists>fci. map_of (q_previouslyTransferredChunks q) p = Some fci \<and> k = fc_seqId fci))"
  shows "seq_inv n0 (insert p paths) q'"
proof -
  have old: "md_seqId (bs_meta s) \<noteq> k \<and> md_relPath (bs_meta s) \<noteq> p" if "s \<in> set (q_sourceQueue q)" for s
  proof -
    have path: "md_relPath (bs_meta s) \<noteq> p" and n0: "n0 \<le> q_nextSeqId q"
      and owner: "seq_owner (q_previouslyTransferredChunks q) n0 (q_nextSeqId q) s"
      using that inv p by (auto simp: seq_inv_def)
    have lt: "fc_seqId f < n0" if "map_of (q_previouslyTransferredChunks q) a = Some f" for a f
      using ids that unfolding received_ids_def by blast
    have inj: "a = b" if "map_of (q_previouslyTransferredChunks q) a = Some f"
      "map_of (q_previouslyTransferredChunks q) b = Some g" "fc_seqId f = fc_seqId g" for a b f g
      using ids that unfolding received_ids_def by blast
    have "md_seqId (bs_meta s) \<noteq> k"
    proof
      assume eq: "md_seqId (bs_meta s) = k"
      consider f where "map_of (q_previouslyTransferredChunks q) (md_relPath (bs_meta s)) = Some f" "k = fc_seqId f"
        | "n0 \<le> k" "k < q_nextSeqId q"
        using owner eq unfolding seq_owner_def by blast
      then show False
      proof cases
        case 1
        have "k \<noteq> q_nextSeqId q" using lt [OF 1(1)] 1(2) n0 by linarith
        then obtain g where "map_of (q_previouslyTransferredChunks q) p = Some g" "k = fc_seqId g" using k by blast
        then show False using inj [OF 1(1), of p g] 1(2) path by simp
      next
        case 2
        then obtain g where "map_of (q_previouslyTransferredChunks q) p = Some g" "k = fc_seqId g" using k by blast
        then show False using lt 2(1) by fastforce
      qed
    qed
    then show ?thesis using path by simp
  qed
  have uniq: "md_seqId (bs_meta s) = md_seqId (bs_meta t) \<longleftrightarrow> md_relPath (bs_meta s) = md_relPath (bs_meta t)"
    if s: "s \<in> set (q_sourceQueue q')" and t: "t \<in> set (q_sourceQueue q')" for s t
  proof -
    consider "s \<in> set (q_sourceQueue q)" "t \<in> set (q_sourceQueue q)"
      | "s \<in> set (q_sourceQueue q)" "md_relPath (bs_meta t) = p" "md_seqId (bs_meta t) = k"
      | "t \<in> set (q_sourceQueue q)" "md_relPath (bs_meta s) = p" "md_seqId (bs_meta s) = k"
      | "md_relPath (bs_meta s) = p" "md_seqId (bs_meta s) = k" "md_relPath (bs_meta t) = p" "md_seqId (bs_meta t) = k"
      using sub [rule_format, OF s] sub [rule_format, OF t] by blast
    then show ?thesis
    proof cases
      case 1
      then show ?thesis using inv unfolding seq_inv_def seq_unique_def by blast
    next
      case 2
      then show ?thesis using old [of s] by simp
    next
      case 3
      then show ?thesis using old [of t] by auto
    next
      case 4
      then show ?thesis by simp
    qed
  qed
  have "seq_owner (q_previouslyTransferredChunks q') n0 (q_nextSeqId q') s \<and> md_relPath (bs_meta s) \<in> insert p paths"
    if "s \<in> set (q_sourceQueue q')" for s
  proof (cases "s \<in> set (q_sourceQueue q)")
    case True
    then have "md_relPath (bs_meta s) \<in> paths" "seq_owner (q_previouslyTransferredChunks q) n0 (q_nextSeqId q) s"
      using inv by (auto simp: seq_inv_def)
    then show ?thesis using k prev by (auto simp: seq_owner_def)
  next
    case False
    then have "md_relPath (bs_meta s) = p" "md_seqId (bs_meta s) = k" using sub [rule_format, OF that] by auto
    then show ?thesis using k prev inv by (auto simp: seq_owner_def seq_inv_def)
  qed
  moreover have "n0 \<le> q_nextSeqId q'" using inv k by (auto simp: seq_inv_def)
  ultimately show ?thesis unfolding seq_inv_def seq_unique_def using uniq by blast
qed

lemma createIntoQueueInternal_seq:
  assumes c: "createIntoQueueInternal i q = Some q'" and inv: "seq_inv n0 paths q"
    and ids: "received_ids (q_previouslyTransferredChunks q) n0"
    and p: "p = md_relPath (q_sharedFileData q ! i)" "p \<notin> paths"
  shows "seq_inv n0 (insert p paths) q' \<and> q_previouslyTransferredChunks q' = q_previouslyTransferredChunks q \<and>
    map md_relPath (q_sharedFileData q') = map md_relPath (q_sharedFileData q)"
proof -
  let ?m = "q_sharedFileData q ! i"
  obtain rs k status prev q1 where pf: "plan_file ?m q = (rs, k, status, prev, q1)"
    by (cases "plan_file ?m q") auto
  note kept = plan_file_kept [OF pf]
  have k: "(q_nextSeqId q1 = q_nextSeqId q + 1 \<and> k = q_nextSeqId q) \<or>
            (q_nextSeqId q1 = q_nextSeqId q \<and>
             (\<exists>fci. map_of (q_previouslyTransferredChunks q) p = Some fci \<and> k = fc_seqId fci))"
    using pf p(1) by (auto simp: plan_file_def split: option.splits if_splits)
  define m where "m = ?m\<lparr>md_seqId := k, md_prevSeqId := prev, md_allocationStatus := status\<rparr>"
  have m: "md_relPath m = p" "md_seqId m = k" by (simp_all add: m_def p(1))
  have paths: "map md_relPath (xs[i := m]) = map md_relPath xs" if "xs = q_sharedFileData q" for xs
    using that m(1) p(1) by (metis list_update_id map_update)
  show ?thesis
  proof (cases "rs = []")
    case True
    then have "q' = q1" using c pf by (simp add: createIntoQueueInternal_def)
    then show ?thesis using seq_inv_extend [OF inv ids p(2), of q1 k] k kept by simp
  next
    case False
    then obtain q2 where q2: "push_chunks m (block_size_for ?m q) rs (q1\<lparr>q_sharedFileData := (q_sharedFileData q1)[i := m]\<rparr>) = Some q2"
      and q': "q' = q2\<lparr>q_numEntries := q_numEntries q2 + 1\<rparr>"
      using c pf by (auto simp: createIntoQueueInternal_def m_def Let_def split: option.splits)
    show ?thesis using seq_inv_extend [OF inv ids p(2), of q' k] push_chunks_queue [OF q2] k kept m q' paths
      by auto
  qed
qed

lemma recreate_seq:
  assumes "recreate is q = Some q'" "seq_inv n0 paths q" "received_ids (q_previouslyTransferredChunks q) n0"
    and P: "P = map md_relPath (q_sharedFileData q)"
    and "distinct (map ((!) P) is)" "set (map ((!) P) is) \<inter> paths = {}" "\<forall>i \<in> set is. i < length P"
  shows "seq_inv n0 (paths \<union> set (map ((!) P) is)) q' \<and>
    q_previouslyTransferredChunks q' = q_previouslyTransferredChunks q \<and> P = map md_relPath (q_sharedFileData q')"
  using assms
proof (induction "is" arbitrary: q paths)
  case (Cons i "is")
  obtain q1 where q1: "createIntoQueueInternal i q = Some q1" "recreate is q1 = Some q'"
    using Cons.prems(1) by (auto simp: bind_eq_Some_conv)
  have Pi: "P ! i = md_relPath (q_sharedFileData q ! i)" "P ! i \<notin> paths"
    using Cons.prems by auto
  note c = createIntoQueueInternal_seq [OF q1(1) Cons.prems(2,3) Pi]
  have "received_ids (q_previouslyTransferredChunks q1) n0" "P = map md_relPath (q_sharedFileData q1)"
    using c Cons.prems(3,4) by simp_all
  moreover have "distinct (map ((!) P) is)" "set (map ((!) P) is) \<inter> insert (P ! i) paths = {}"
    "\<forall>i \<in> set is. i < length P" using Cons.prems(5-7) by auto
  ultimately have "seq_inv n0 (insert (P ! i) paths \<union> set (map ((!) P) is)) q' \<and>
    q_previouslyTransferredChunks q' = q_previouslyTransferredChunks q1 \<and> P = map md_relPath (q_sharedFileData q')"
    using Cons.IH [OF q1(2) conjunct1 [OF c]] by blast
  moreover have "insert (P ! i) paths \<union> set (map ((!) P) is) = paths \<union> set (map ((!) P) (i # is))" by auto
  ultimately show ?case using c by metis
qed simp

lemma enqueue_deletions_seq:
  assumes "seq_inv n0 paths q" "received_ids (q_previouslyTransferredChunks q) n0"
    "\<forall>(n, f) \<in> set ms. map_of (q_previouslyTransferredChunks q) n = Some f \<and> (n \<notin> d \<longrightarrow> n \<notin> paths)"
    "distinct (map fst ms)"
  shows "\<exists>ps. seq_inv n0 ps (enqueue_deletions d ms q) \<and>
     q_previouslyTransferredChunks (enqueue_deletions d ms q) = q_previouslyTransferredChunks q \<and>
     q_nextSeqId (enqueue_deletions d ms q) = q_nextSeqId q"
  using assms
proof (induction ms arbitrary: q paths)
  case Nil
  then show ?case by auto
next
  case (Cons nf ms)
  obtain n f where nf: "nf = (n, f)" by fastforce
  show ?case
  proof (cases "n \<in> d")
    case True
    then show ?thesis using Cons by (simp add: nf)
  next
    case False
    define m where "m = newMetaData\<lparr>md_relPath := n, md_size := 0, md_seqId := fc_seqId f,
      md_allocationStatus := TO_BE_DELETED\<rparr>"
    define q1 where "q1 = q\<lparr>q_sharedFileData := q_sharedFileData q @ [m],
      q_sourceQueue := pq_push (newSource m 0 0) (q_sourceQueue q),
      q_numEntries := q_numEntries q + 1, q_numBlocks := q_numBlocks q + 1\<rparr>"
    have q1: "q_previouslyTransferredChunks q1 = q_previouslyTransferredChunks q" "q_nextSeqId q1 = q_nextSeqId q"
      "enqueue_deletions d (nf # ms) q = enqueue_deletions d ms q1"
      using False by (simp_all add: q1_def m_def nf Let_def)
    have "seq_inv n0 (insert n paths) q1"
      by (rule seq_inv_extend [OF Cons.prems(1,2), of n q1 "fc_seqId f"])
        (use Cons.prems(3) False in \<open>auto simp: q1_def m_def nf newSource_bytes\<close>)
    moreover have "map_of (q_previouslyTransferredChunks q1) n' = Some f' \<and> (n' \<notin> d \<longrightarrow> n' \<notin> insert n paths)"
      if "(n', f') \<in> set ms" for n' f'
    proof -
      have "n' \<noteq> n" using Cons.prems(4) that by (force simp: nf)
      then show ?thesis using bspec [OF Cons.prems(3), of "(n', f')"] that by (simp add: q1)
    qed
    then have "\<forall>(n', f') \<in> set ms. map_of (q_previouslyTransferredChunks q1) n' = Some f' \<and>
        (n' \<notin> d \<longrightarrow> n' \<notin> insert n paths)" by blast
    moreover have "distinct (map fst ms)" using Cons.prems(4) by simp
    ultimately show ?thesis using Cons.IH [of "insert n paths" q1] Cons.prems(2) by (simp add: q1)
  qed
qed

lemma add_received_spec:
  assumes "add_received cs n m = (n', m')" "distinct (map fst m)"
  shows "n \<le> n' \<and> distinct (map fst m') \<and> (\<forall>f \<in> set cs. fc_seqId f < n') \<and>
    (\<forall>(p, f) \<in> set m'. (p, f) \<in> set m \<or> (f \<in> set cs \<and> p = fc_fileName f))"
  using assms
proof (induction cs n m rule: add_received.induct)
  case (2 c cs n m)
  have "distinct (map fst (map_insert (fc_fileName c, c) m))" using 2(3) by (auto simp: map_insert_def)
  moreover have "set (map_insert (fc_fileName c, c) m) \<subseteq> insert (fc_fileName c, c) (set m)"
    by (auto simp: map_insert_def)
  ultimately show ?case using 2(1) 2(2) by fastforce
qed auto

text \<open>C35: after a resumed transfer rebuilt the queue from what the receiver reported,
  a sequence id stands for one file: two sources (deletions included) share an id
  exactly when they belong to the same file, and no source reuses the id of a
  received file of another name.\<close>

theorem resumed_sequence_ids:
  assumes "setPreviouslyReceivedChunks chunks q = Some (Ok q')" "q_previouslyTransferredChunks q = []"
    "distinct (map md_relPath (q_sharedFileData q))" "distinct (map fc_seqId chunks)"
  shows "seq_unique (set (q_sourceQueue q')) \<and>
    (\<forall>s \<in> set (q_sourceQueue q'). \<forall>c \<in> set chunks.
       md_seqId (bs_meta s) = fc_seqId c \<longrightarrow> md_relPath (bs_meta s) = fc_fileName c)"
proof -
  obtain n0 m where am: "add_received chunks 0 [] = (n0, m)" by fastforce
  define q1 where "q1 = clearSourceQueue (q\<lparr>q_nextSeqId := n0, q_totalFileSize := 0,
              q_numEntries := 0, q_numBlocks := 0, q_previouslyTransferredChunks := m\<rparr>)"
  have q1: "q_sourceQueue q1 = []" "q_nextSeqId q1 = n0" "q_previouslyTransferredChunks q1 = m"
    "q_sharedFileData q1 = q_sharedFileData q" by (simp_all add: q1_def clearSourceQueue_def)
  obtain q2 where q2: "recreate [0 ..< length (q_sharedFileData q1)] q1 = Some q2" "q' = enqueueFilesToBeDeleted q2"
    using assms(1,2) am by (auto simp: setPreviouslyReceivedChunks_def Let_def q1_def split: if_splits)
  have m: "distinct (map fst m)" "\<forall>f \<in> set chunks. fc_seqId f < n0"
    "\<And>p f. map_of m p = Some f \<Longrightarrow> f \<in> set chunks \<and> p = fc_fileName f"
    using add_received_spec [OF am] by (auto dest!: map_of_SomeD)
  have same: "f = g" if "f \<in> set chunks" "g \<in> set chunks" "fc_seqId f = fc_seqId g" for f g
    using assms(4) that by (auto simp: distinct_map inj_on_def)
  have ids: "received_ids m n0" unfolding received_ids_def using m(2,3) same by metis
  define P where "P = map md_relPath (q_sharedFileData q1)"
  have nth: "map ((!) P) [0 ..< length (q_sharedFileData q1)] = P" unfolding P_def by (metis length_map map_nth)
  have "distinct P" using assms(3) by (simp add: P_def q1)
  then have d: "distinct (map ((!) P) [0 ..< length (q_sharedFileData q1)])"
    "set (map ((!) P) [0 ..< length (q_sharedFileData q1)]) \<inter> {} = {}"
    "\<forall>i \<in> set [0 ..< length (q_sharedFileData q1)]. i < length P"
    unfolding nth by (simp_all add: P_def)
  have "seq_inv n0 {} q1" "received_ids (q_previouslyTransferredChunks q1) n0"
    using ids by (simp_all add: q1 seq_inv_def seq_unique_def)
  note r = recreate_seq [OF q2(1) this P_def d, unfolded nth q1(3)]
  have s2: "seq_inv n0 (set P) q2" "q_previouslyTransferredChunks q2 = m"
    "md_relPath ` set (q_sharedFileData q2) = set P"
    using r by (metis sup_bot_left, metis, metis set_map)
  obtain ps where inv: "seq_inv n0 ps q'" "q_previouslyTransferredChunks q' = m"
    using enqueue_deletions_seq [OF s2(1), of m "md_relPath ` set (q_sharedFileData q2)"] s2 ids m(1)
    by (cases "enqueueFilesToBeDeleted q2 = q2") (auto simp: q2(2) enqueueFilesToBeDeleted_def split: if_splits)
  have "md_relPath (bs_meta s) = fc_fileName c"
    if "s \<in> set (q_sourceQueue q')" "c \<in> set chunks" "md_seqId (bs_meta s) = fc_seqId c" for s c
  proof -
    have "seq_owner m n0 (q_nextSeqId q') s" using inv that(1) by (auto simp: seq_inv_def)
    moreover have "fc_seqId c < n0" using m(2) that(2) by blast
    ultimately show ?thesis using that m(3) same by (fastforce simp: seq_owner_def)
  qed
  then show ?thesis using inv(1) by (simp add: seq_inv_def)
qed

definition resumed_example :: DirectorySourceQueue where
  "resumed_example = (newQueue ''/'')\<lparr>q_sharedFileData := [newMetaData\<lparr>md_relPath := ''a'', md_size := 5\<rparr>,
     newMetaData\<lparr>md_relPath := ''b'', md_size := 3\<rparr>]\<rparr>"

theorem resumed_sequence_ids_witness:
  "\<exists>q'. setPreviouslyReceivedChunks [\<lparr>fc_seqId = 0, fc_fileName = ''a'', fc_fileSize = 5,
       fc_chunks = [mkInterval 0 2]\<rparr>] resumed_example = Some (Ok q') \<and>
     seq_unique (set (q_sourceQueue q')) \<and> length (q_sourceQueue q') = 2"
proof -
  let ?c = "[\<lparr>fc_seqId = 0, fc_fileName = ''a'', fc_fileSize = 5, fc_chunks = [mkInterval 0 2]\<rparr>]"
  obtain q' where q': "setPreviouslyReceivedChunks ?c resumed_example = Some (Ok q')" "length (q_sourceQueue q') = 2"
    by (simp add: setPreviouslyReceivedChunks_def resumed_example_def newQueue_def newMetaData_def map_insert_def
        clearSourceQueue_def createIntoQueueInternal_def plan_file_def getRemainingChunks_def getTotalChunkSize_def
        chunkSize_def split_blocks.simps block_size_for_def pq_push_def enqueueFilesToBeDeleted_def Let_def
        remaining_chunk_list_def upt_rec)
  have "q_previouslyTransferredChunks resumed_example = []"
    "distinct (map md_relPath (q_sharedFileData resumed_example))"
    by (simp_all add: resumed_example_def newQueue_def)
  then show ?thesis using resumed_sequence_ids [OF q'(1)] q' by simp
qed

end
