(* ===== verification/Sender_Accounting.thy ===== *)
theory Sender_Accounting
  imports Transfer_History Queue_Invariants
begin

text \<open>
  What the sender's books show at the end of a transfer.  Threads take sources from
  the shared queue, send them, keep them in their histories and give them back on
  checkpoints; the counters of threads and sources must stay in balance and every
  byte announced must be acknowledged, queued, or owed by a failed source.
\<close>

section \<open>Counters\<close>

abbreviation counters :: "(TransferStats \<Rightarrow> int) set" where
  "counters \<equiv> {ts_failedAttempts, ts_dataBytes, ts_effectiveDataBytes, ts_numBlocks}"

definition src_sum :: "(ByteSource \<Rightarrow> int) \<Rightarrow> ByteSource list \<Rightarrow> int" where
  "src_sum g ss = sum_list (map g ss)"

lemma src_sum_simps [simp]:
  "src_sum g [] = 0" "src_sum g (s # ss) = g s + src_sum g ss"
  "src_sum g (xs @ ys) = src_sum g xs + src_sum g ys" "src_sum g (rev xs) = src_sum g xs"
  by (simp_all add: src_sum_def rev_map [symmetric] sum_list_rev)

lemma src_sum_mset: "mset xs = mset ys \<Longrightarrow> src_sum g xs = src_sum g ys"
  unfolding src_sum_def by (metis mset_map sum_mset_sum_list)

lemma src_sum_pushes [simp]: "src_sum g (fold pq_push ss q) = src_sum g q + src_sum g ss"
  using src_sum_mset [of "fold pq_push ss q" "q @ ss"] pq.pushes_contents [of ss q] by simp

lemma src_sum_push [simp]: "src_sum g (pq_push s q) = src_sum g q + g s"
  using src_sum_pushes [of g "[s]" q] by simp

lemma src_sum_take_drop: "src_sum g xs = src_sum g (take n xs) + src_sum g (drop n xs)"
  by (metis append_take_drop_id src_sum_simps(3))

text \<open>What a source in a history still owes: nothing once sent, its size after a failure.\<close>

definition owed :: "ByteSource \<Rightarrow> int" where
  "owed s = (if ts_localErrCode (bs_stats s) = OK then 0 else bs_size s)"

definition credit :: "ByteSource \<Rightarrow> int" where
  "credit s = ts_effectiveDataBytes (bs_stats s) + owed s"

definition claim :: "ByteSource \<Rightarrow> int" where
  "claim s = ts_effectiveDataBytes (bs_stats s) + bs_size s"

lemma plusStats_counters: "f \<in> counters \<Longrightarrow> f (plusStats a b) = f a + f b"
  by (auto simp: plusStats_def Let_def)

lemma markSourceAsFailed_laws:
  assumes "markSourceAsFailed cp s ts = (s', ts')"
  shows "f \<in> counters \<Longrightarrow> f (bs_stats s') - f (bs_stats s) = f ts' - f ts"
    and "claim s' = credit s" and "ts_localErrCode (bs_stats s') \<noteq> OK" and "bs_meta s' = bs_meta s"
    and "bs_offset s' + bs_size s' = bs_offset s + bs_size s"
  using assms
  by (auto simp: markSourceAsFailed_def Let_def advanceOffset_def addEffectiveBytes_def incrFailedAttempts_def
      setLocalErrorCode_def decrStatsBlocks_def subtractEffectiveBytes_def claim_def credit_def owed_def
      split: if_splits)

lemma fail_sources_laws:
  assumes "fail_sources cp ss ts = (ss', ts')"
  shows "(\<forall>f \<in> counters. src_sum (\<lambda>s. f (bs_stats s)) ss' - src_sum (\<lambda>s. f (bs_stats s)) ss = f ts' - f ts) \<and>
    src_sum claim ss' = src_sum credit ss \<and> map bs_meta ss' = map bs_meta ss"
  using assms
proof (induction cp ss ts arbitrary: ss' ts' rule: fail_sources.induct)
  case (2 cp s ss ts)
  obtain s1 ts1 where m: "markSourceAsFailed (if ss = [] then Some cp else None) s ts = (s1, ts1)" by fastforce
  obtain ss2 ts2 where r: "fail_sources cp ss ts1 = (ss2, ts2)" by fastforce
  have eq: "ss' = s1 # ss2" "ts' = ts2" using 2(2) m r by simp_all
  note L = markSourceAsFailed_laws [OF m] and IH = 2(1) [OF m [symmetric] r]
  have "src_sum (\<lambda>s. f (bs_stats s)) ss' - src_sum (\<lambda>s. f (bs_stats s)) (s # ss) = f ts' - f ts" if "f \<in> counters" for f
    using bspec [OF conjunct1 [OF IH] that] L(1) [OF that] by (simp add: eq)
  then show ?case using IH L(2,4) by (simp add: eq)
qed simp

section \<open>The queue\<close>

lemma openSource_laws:
  assumes "openSource fopen s = (e, s')"
  shows "f \<in> counters \<Longrightarrow> f (bs_stats s') = f (bs_stats s)" and "bs_size s' = bs_size s"
    and "md_allocationStatus (bs_meta s') = md_allocationStatus (bs_meta s)"
    and "md_allocationStatus (bs_meta s) \<noteq> TO_BE_DELETED \<Longrightarrow> ts_localErrCode (bs_stats s') = e"
  using assms
  by (auto simp: openSource_def Let_def closeSource_def setLocalErrorCode_def split: if_splits)

lemma closeSource_sel [simp]:
  "bs_stats (closeSource s) = bs_stats s" "bs_size (closeSource s) = bs_size s"
  "bs_meta (closeSource s) = bs_meta s"
  by (simp_all add: closeSource_def)

abbreviation stat_sum :: "(TransferStats \<Rightarrow> int) \<Rightarrow> TransferStats list \<Rightarrow> int" where
  "stat_sum f ts \<equiv> sum_list (map f ts)"

definition queue_sum :: "(TransferStats \<Rightarrow> int) \<Rightarrow> DirectorySourceQueue \<Rightarrow> int" where
  "queue_sum f q = src_sum (\<lambda>s. f (bs_stats s)) (q_sourceQueue q) + stat_sum f (q_failedSourceStats q)"

text \<open>No source of the queue is a deletion.\<close>

definition plain_source :: "ByteSource \<Rightarrow> bool" where
  "plain_source s \<longleftrightarrow> md_allocationStatus (bs_meta s) \<noteq> TO_BE_DELETED"

lemma getNextSource_sum:
  assumes "getNextSource env q = (r, q')" "f \<in> counters"
  shows "queue_sum f q = queue_sum f q' + (case r of GotSource s _ \<Rightarrow> f (bs_stats s) | _ \<Rightarrow> 0)"
  using assms(1)
proof (induction "q_sourceQueue q" arbitrary: q)
  case Nil
  then show ?case by (auto simp: getNextSource_Nil queue_sum_def split: if_splits)
next
  case (Cons s rest)
  obtain e s' where o: "openSource (env_openForRead env) s = (e, s')" by fastforce
  note step = getNextSource_cases [OF Cons.hyps(2) [symmetric] o] and fs = openSource_laws(1) [OF o assms(2)]
  show ?case
  proof (cases "e = OK")
    case True
    then have "r = GotSource s' (queue_status q)"
      "q' = q\<lparr>q_sourceQueue := rest, q_numBlocksDequeued := q_numBlocksDequeued q + 1\<rparr>"
      using step Cons.prems by simp_all
    then show ?thesis using Cons.hyps(2) [symmetric] fs by (simp add: queue_sum_def)
  next
    case False
    let ?q = "q\<lparr>q_sourceQueue := rest, q_failedSourceStats := q_failedSourceStats q @ [bs_stats (closeSource s')]\<rparr>"
    have "queue_sum f ?q = queue_sum f q"
      using Cons.hyps(2) [symmetric] fs by (simp add: queue_sum_def)
    then show ?thesis using Cons.hyps(1) [of ?q] Cons.prems step False by simp
  qed
qed

lemma getNextSource_claims:
  assumes "getNextSource env q = (r, q')" "\<forall>s \<in> set (q_sourceQueue q). plain_source s"
  shows "length (q_failedSourceStats q) \<le> length (q_failedSourceStats q') \<and>
    (q_failedSourceStats q' = [] \<longrightarrow> src_sum claim (q_sourceQueue q) =
       src_sum claim (q_sourceQueue q') + (case r of GotSource s _ \<Rightarrow> claim s | _ \<Rightarrow> 0)) \<and>
    set (q_sourceQueue q') \<subseteq> set (q_sourceQueue q) \<and> q_totalFileSize q' = q_totalFileSize q \<and>
    (case r of GotSource s _ \<Rightarrow> plain_source s \<and> ts_localErrCode (bs_stats s) = OK | _ \<Rightarrow> True)"
  using assms
proof (induction "q_sourceQueue q" arbitrary: q)
  case Nil
  then show ?case by (auto simp: getNextSource_Nil split: if_splits)
next
  case (Cons s rest)
  obtain e s' where o: "openSource (env_openForRead env) s = (e, s')" by fastforce
  note step = getNextSource_cases [OF Cons.hyps(2) [symmetric] o] and L = openSource_laws [OF o]
  have ps: "plain_source s" "\<forall>s \<in> set rest. plain_source s" using Cons.prems(2) Cons.hyps(2) [symmetric] by auto
  have c: "claim s' = claim s" using L(1,2) by (simp add: claim_def)
  show ?case
  proof (cases "e = OK")
    case True
    then have "r = GotSource s' (queue_status q)"
      "q' = q\<lparr>q_sourceQueue := rest, q_numBlocksDequeued := q_numBlocksDequeued q + 1\<rparr>"
      using step Cons.prems(1) by simp_all
    then show ?thesis using Cons.hyps(2) [symmetric] c L(3,4) ps True by (auto simp: plain_source_def)
  next
    case False
    let ?q = "q\<lparr>q_sourceQueue := rest, q_failedSourceStats := q_failedSourceStats q @ [bs_stats (closeSource s')]\<rparr>"
    have g: "getNextSource env ?q = (r, q')" using step False Cons.prems(1) by simp
    show ?thesis using Cons.hyps(1) [OF _ g] ps(2) Cons.hyps(2) [symmetric] by auto
  qed
qed

section \<open>Discovery\<close>

text \<open>A fresh source has not been charged for anything.\<close>

definition fresh_source :: "ByteSource \<Rightarrow> bool" where
  "fresh_source s \<longleftrightarrow> plain_source s \<and> (\<forall>f \<in> counters. f (bs_stats s) = 0)"

lemma split_blocks_size:
  assumes "split_blocks b n off = Some bs"
  shows "sum_list (map fst bs) = n"
  using assms
proof (rule split_blocks.raw_induct [rotated])
  fix loop :: "int \<Rightarrow> int \<Rightarrow> int \<Rightarrow> (int \<times> int) list option" and b n off bs
  assume IH: "\<And>b n off bs. loop b n off = Some bs \<Longrightarrow> sum_list (map fst bs) = n"
  assume "(let sz = min n b in if n - sz > 0
     then Option.bind (loop b (n - sz) (off + sz)) (\<lambda>bs. Some ((sz, off) # bs)) else Some [(sz, off)]) = Some bs"
  then show "sum_list (map fst bs) = n"
    using IH by (auto simp: Let_def bind_eq_Some_conv min_def split: if_splits)
qed

lemma newSource_fresh: "md_allocationStatus m \<noteq> TO_BE_DELETED \<Longrightarrow> fresh_source (newSource m sz off)"
  by (auto simp: fresh_source_def plain_source_def newSource_def newStatsId_def newStats_def)

lemma push_chunks_new:
  assumes "push_chunks m b cs q = Some q'" "md_allocationStatus m \<noteq> TO_BE_DELETED"
  shows "\<exists>ss. mset (q_sourceQueue q') = mset (q_sourceQueue q) + mset ss \<and> (\<forall>s \<in> set ss. fresh_source s) \<and>
    q_totalFileSize q' = q_totalFileSize q + src_sum bs_size ss \<and>
    q_failedSourceStats q' = q_failedSourceStats q"
  using assms
proof (induction m b cs q rule: push_chunks.induct)
  case (1 m b q)
  then show ?case by (intro exI [of _ "[]"]) simp
next
  case (2 m b c cs q)
  let ?mk = "\<lambda>(sz, off). newSource m sz off"
  obtain bs where bs: "split_blocks b (chunkSize c) (chunkStart c) = Some bs"
    using 2(2) by (auto split: option.splits)
  let ?q = "q\<lparr>q_sourceQueue := push_blocks m bs (q_sourceQueue q),
     q_totalFileSize := q_totalFileSize q + chunkSize c, q_numBlocks := q_numBlocks q + int (length bs)\<rparr>"
  obtain ss where ss: "mset (q_sourceQueue q') = mset (q_sourceQueue ?q) + mset ss" "\<forall>s \<in> set ss. fresh_source s"
    "q_totalFileSize q' = q_totalFileSize ?q + src_sum bs_size ss" "q_failedSourceStats q' = q_failedSourceStats ?q"
    using 2(1) [OF bs] 2(2,3) bs by auto
  have "map bs_size (map ?mk bs) = map fst bs" by (rule sources_of_blocks)
  then have sz: "src_sum bs_size (map ?mk bs) = chunkSize c"
    unfolding src_sum_def using split_blocks_size [OF bs] by (simp only:)
  have c: "mset (push_blocks m bs xs) = mset xs + mset (map ?mk bs)" for xs
    unfolding push_blocks_pushes by (rule pq.pushes_contents)
  show ?case using ss sz newSource_fresh [OF 2(3)]
    by (intro exI [of _ "map ?mk bs @ ss"]) (auto simp: c ac_simps)
qed

lemma createIntoQueue_new:
  assumes "createIntoQueue env path info q = Some q'"
  shows "\<exists>ss. mset (q_sourceQueue q') = mset (q_sourceQueue q) + mset ss \<and> (\<forall>s \<in> set ss. fresh_source s) \<and>
    q_totalFileSize q' = q_totalFileSize q + src_sum bs_size ss \<and>
    q_failedSourceStats q' = q_failedSourceStats q"
proof -
  obtain m0 q0 where o: "open_during_discovery env (metadata_of path (verifyAndFixFlags env info)) q = (m0, q0)"
    by fastforce
  define q1 where "q1 = q0\<lparr>q_sharedFileData := q_sharedFileData q0 @ [m0]\<rparr>"
  let ?i = "length (q_sharedFileData q0)" and ?m = "q_sharedFileData q1 ! length (q_sharedFileData q0)"
  have c: "createIntoQueueInternal ?i q1 = Some q'" using assms o by (simp add: createIntoQueue_def q1_def)
  obtain rs k status prev q2 where p: "plan_file ?m q1 = (rs, k, status, prev, q2)"
    by (cases "plan_file ?m q1") auto
  have st: "status \<noteq> TO_BE_DELETED" using p by (auto simp: plan_file_def split: option.splits if_splits)
  have t: "q_totalFileSize q0 = q_totalFileSize q"
    using o by (auto simp: open_during_discovery_def Let_def split: if_splits)
  have k: "q_sourceQueue q2 = q_sourceQueue q" "q_totalFileSize q2 = q_totalFileSize q"
    "q_failedSourceStats q2 = q_failedSourceStats q"
    using plan_file_kept [OF p] open_during_discovery_kept [OF o] t by (simp_all add: q1_def)
  show ?thesis
  proof (cases "rs = []")
    case True
    then have "q' = q2" using c p by (simp add: createIntoQueueInternal_def)
    then show ?thesis using k by (intro exI [of _ "[]"]) simp
  next
    case False
    define m where "m = ?m\<lparr>md_seqId := k, md_prevSeqId := prev, md_allocationStatus := status\<rparr>"
    obtain q3 where q3: "push_chunks m (block_size_for ?m q1) rs (q2\<lparr>q_sharedFileData := (q_sharedFileData q2)[?i := m]\<rparr>) = Some q3"
      "q' = q3\<lparr>q_numEntries := q_numEntries q3 + 1\<rparr>"
      using c p False by (auto simp: createIntoQueueInternal_def m_def Let_def split: option.splits)
    show ?thesis using push_chunks_new [OF q3(1)] st k q3(2) by (auto simp: m_def)
  qed
qed

section \<open>The system\<close>

record sender_system =
  sys_queue :: DirectorySourceQueue
  sys_threads :: "ThreadTransferHistory list"

text \<open>What sending a source may report: success with all its bytes, or a failure that
  counts no effective bytes.\<close>

definition send_result :: "ByteSource \<Rightarrow> TransferStats \<Rightarrow> bool" where
  "send_result s t \<longleftrightarrow> ts_numBlocksSend t = - 1 \<and> ts_totalSenderBytes t = - 1 \<and>
     ((ts_localErrCode t = OK \<and> ts_effectiveDataBytes t = bs_size s) \<or>
     (ts_localErrCode t \<noteq> OK \<and> ts_effectiveDataBytes t = 0))"

text \<open>
  One step of a sender: a thread sends a source and hands it to its history (the body
  of \<open>sendBlocks\<close>), finds none, gets a local or a global checkpoint, changes its own
  status, or discovery adds a file.
\<close>

inductive sender_step :: "queue_env \<Rightarrow> sender_system \<Rightarrow> sender_system \<Rightarrow> bool" for env where
  send: "\<lbrakk>i < length hs; getNextSource env q = (GotSource s st, q1); send_result s t;
     addSource (closeSource (addTransferStats t s))
       ((hs ! i)\<lparr>h_threadStats := plusStats (h_threadStats (hs ! i)) t\<rparr>) q1 = Ok (b, h', q')\<rbrakk>
   \<Longrightarrow> sender_step env \<lparr>sys_queue = q, sys_threads = hs\<rparr> \<lparr>sys_queue = q', sys_threads = hs[i := h']\<rparr>"
| no_source: "\<lbrakk>getNextSource env q = (r, q'); \<forall>s st. r \<noteq> GotSource s st\<rbrakk>
   \<Longrightarrow> sender_step env \<lparr>sys_queue = q, sys_threads = hs\<rparr> \<lparr>sys_queue = q', sys_threads = hs\<rparr>"
| checkpoint: "\<lbrakk>i < length hs; setCheckpointAndReturnToQueue cp glob (hs ! i) q = Ok (e, h', q')\<rbrakk>
   \<Longrightarrow> sender_step env \<lparr>sys_queue = q, sys_threads = hs\<rparr> \<lparr>sys_queue = q', sys_threads = hs[i := h']\<rparr>"
| status: "i < length hs
   \<Longrightarrow> sender_step env \<lparr>sys_queue = q, sys_threads = hs\<rparr>
         \<lparr>sys_queue = q, sys_threads = hs[i := (hs ! i)\<lparr>h_threadStats := setLocalErrorCode e (h_threadStats (hs ! i))\<rparr>]\<rparr>"
| discover: "createIntoQueue env path info q = Some q'
   \<Longrightarrow> sender_step env \<lparr>sys_queue = q, sys_threads = hs\<rparr> \<lparr>sys_queue = q', sys_threads = hs\<rparr>"

definition sender_init :: "DirectorySourceQueue \<Rightarrow> ThreadTransferHistory list \<Rightarrow> sender_system" where
  "sender_init q hs = \<lparr>sys_queue = q, sys_threads = hs\<rparr>"

definition threads_sum :: "(TransferStats \<Rightarrow> int) \<Rightarrow> ThreadTransferHistory list \<Rightarrow> int" where
  "threads_sum f hs = sum_list (map (\<lambda>h. f (h_threadStats h)) hs)"

definition histories_sum :: "(ByteSource \<Rightarrow> int) \<Rightarrow> ThreadTransferHistory list \<Rightarrow> int" where
  "histories_sum g hs = sum_list (map (\<lambda>h. src_sum g (h_history h)) hs)"

lemma sum_list_update_int:
  "i < length xs \<Longrightarrow> sum_list (map g (xs[i := y])) = sum_list (map g xs) - g (xs ! i) + (g y :: int)"
proof (induction xs arbitrary: i)
  case (Cons x xs)
  then show ?case by (cases i) simp_all
qed simp

text \<open>The books balance counter by counter, and while nothing was lost every announced
  byte is credited, queued or owed.\<close>

definition balanced :: "sender_system \<Rightarrow> bool" where
  "balanced y \<longleftrightarrow> (\<forall>f \<in> counters. threads_sum f (sys_threads y) =
     queue_sum f (sys_queue y) + histories_sum (\<lambda>s. f (bs_stats s)) (sys_threads y))"

definition covered_total :: "sender_system \<Rightarrow> bool" where
  "covered_total y \<longleftrightarrow>
     (\<forall>s \<in> set (q_sourceQueue (sys_queue y)). plain_source s) \<and>
     (\<forall>h \<in> set (sys_threads y). \<forall>s \<in> set (h_history h). plain_source s) \<and>
     (q_failedSourceStats (sys_queue y) = [] \<longrightarrow>
        src_sum claim (q_sourceQueue (sys_queue y)) + histories_sum credit (sys_threads y)
          = q_totalFileSize (sys_queue y))"

lemma returnToQueue_Ok:
  "returnToQueue ss q = Ok q' \<Longrightarrow>
     q' = q\<lparr>q_sourceQueue := fold pq_push ss (q_sourceQueue q),
            q_numBlocksDequeued := q_numBlocksDequeued q - int (length ss)\<rparr>"
  by (induction ss q rule: returnToQueue.induct) (auto simp: Let_def split: if_splits)

lemma set_pushes [simp]: "set (fold pq_push ss q) = set q \<union> set ss"
  by (induction ss arbitrary: q) auto

text \<open>What an operation on one history and the queue may do to the books.\<close>

definition fair :: "ThreadTransferHistory \<Rightarrow> DirectorySourceQueue \<Rightarrow> ThreadTransferHistory \<Rightarrow> DirectorySourceQueue \<Rightarrow> bool" where
  "fair h q h' q' \<longleftrightarrow>
     (\<forall>f \<in> counters. f (h_threadStats h') - f (h_threadStats h) =
        queue_sum f q' - queue_sum f q + src_sum (\<lambda>s. f (bs_stats s)) (h_history h')
          - src_sum (\<lambda>s. f (bs_stats s)) (h_history h)) \<and>
     src_sum claim (q_sourceQueue q') + src_sum credit (h_history h')
       = src_sum claim (q_sourceQueue q) + src_sum credit (h_history h) \<and>
     bs_meta ` (set (q_sourceQueue q') \<union> set (h_history h'))
       \<subseteq> bs_meta ` (set (q_sourceQueue q) \<union> set (h_history h)) \<and>
     q_failedSourceStats q' = q_failedSourceStats q \<and> q_totalFileSize q' = q_totalFileSize q"

lemma checkpoint_fair:
  assumes "setCheckpointAndReturnToQueue cp glob h q = Ok (e, h', q')"
  shows "fair h q h' q'"
proof (cases "h' = h \<and> q' = q")
  case True
  then show ?thesis by (simp add: fair_def)
next
  case False
  define n where "n = nat (cp_numBlocks cp)"
  define old where "old = drop n (h_history h)"
  obtain ss ts where fs: "fail_sources cp (rev old) (h_threadStats h) = (ss, ts)" by fastforce
  then have r: "returnToQueue ss q = Ok q'" and h': "h_threadStats h' = ts" "h_history h' = take n (h_history h)"
    using assms False
    by (auto simp: setCheckpointAndReturnToQueue_def n_def old_def split: if_splits outcome.splits prod.splits)
  note F = fail_sources_laws [OF fs]
  have sum: "src_sum g (h_history h) = src_sum g (h_history h') + src_sum g old" for g
    using src_sum_take_drop [of g "h_history h" n] by (simp add: h' old_def)
  have q': "q_sourceQueue q' = fold pq_push ss (q_sourceQueue q)" "q_failedSourceStats q' = q_failedSourceStats q"
    "q_totalFileSize q' = q_totalFileSize q" using returnToQueue_Ok [OF r] by simp_all
  have "f ts - f (h_threadStats h) = src_sum (\<lambda>s. f (bs_stats s)) ss - src_sum (\<lambda>s. f (bs_stats s)) old"
    if "f \<in> counters" for f using bspec [OF conjunct1 [OF F] that] by simp
  moreover have "src_sum claim ss = src_sum credit old" using F by simp
  moreover have sub: "set old \<subseteq> set (h_history h)" "set (h_history h') \<subseteq> set (h_history h)"
    by (simp_all add: old_def h' set_drop_subset set_take_subset)
  moreover have "bs_meta ` set ss = bs_meta ` set old" using F by (metis list.set_map set_rev)
  then have "bs_meta ` (set (q_sourceQueue q') \<union> set (h_history h'))
      \<subseteq> bs_meta ` (set (q_sourceQueue q) \<union> set (h_history h))"
    using sub unfolding q'(1) set_pushes image_Un by blast
  ultimately show ?thesis unfolding fair_def using h' q' sum
    by (simp add: queue_sum_def)
qed

lemma addSource_fair:
  assumes "addSource s h q = Ok (b, h', q')"
  shows "fair (h\<lparr>h_history := h_history h @ [s]\<rparr>) q h' q'"
proof (cases "h_globalCheckpoint h")
  case True
  obtain s1 ts where m: "markSourceAsFailed (h_lastCheckpoint h) s (h_threadStats h) = (s1, ts)" by fastforce
  then have r: "returnToQueue [s1] q = Ok q'" and h': "h' = h\<lparr>h_threadStats := ts, h_lastCheckpoint := None\<rparr>"
    using assms True by (auto simp: addSource_def split: outcome.splits simp del: returnToQueue.simps)
  show ?thesis using markSourceAsFailed_laws [OF m] returnToQueue_Ok [OF r]
    unfolding fair_def h' by (auto simp: queue_sum_def)
next
  case False
  then show ?thesis using assms by (simp add: addSource_def fair_def)
qed

lemma fair_update:
  assumes f: "fair h q h' q'" and i: "i < length hs"
    and b: "balanced \<lparr>sys_queue = q, sys_threads = hs[i := h]\<rparr>"
    and c: "covered_total \<lparr>sys_queue = q, sys_threads = hs[i := h]\<rparr>"
  shows "balanced \<lparr>sys_queue = q', sys_threads = hs[i := h']\<rparr> \<and>
    covered_total \<lparr>sys_queue = q', sys_threads = hs[i := h']\<rparr>"
proof -
  have upd: "sum_list (map g (hs[i := h'])) = sum_list (map g (hs[i := h])) - g h + g h'" for g :: "_ \<Rightarrow> int"
    using sum_list_update_int [of i "hs[i := h]" g h'] i by simp
  have "balanced \<lparr>sys_queue = q', sys_threads = hs[i := h']\<rparr>"
    using b f unfolding balanced_def fair_def threads_sum_def histories_sum_def sender_system.select_convs upd
    by (smt (verit))
  moreover have plain: "\<forall>m \<in> bs_meta ` (set (q_sourceQueue q') \<union> set (h_history h')). md_allocationStatus m \<noteq> TO_BE_DELETED"
  proof -
    have "\<forall>s \<in> set (q_sourceQueue q) \<union> set (h_history h). plain_source s"
      using c set_update_memI [OF i, of h] by (auto simp: covered_total_def)
    then have "\<forall>m \<in> bs_meta ` (set (q_sourceQueue q) \<union> set (h_history h)). md_allocationStatus m \<noteq> TO_BE_DELETED"
      by (auto simp: plain_source_def)
    then show ?thesis using f unfolding fair_def by blast
  qed
  have others: "\<forall>k \<in> set (hs[i := h']). k = h' \<or> k \<in> set (hs[i := h])"
    by (metis in_set_conv_nth length_list_update nth_list_update_eq nth_list_update_neq)
  have "covered_total \<lparr>sys_queue = q', sys_threads = hs[i := h']\<rparr>"
    unfolding covered_total_def sender_system.select_convs
  proof (intro conjI ballI impI)
    show "plain_source s" if "s \<in> set (q_sourceQueue q')" for s
      using plain that by (simp add: plain_source_def)
    show "plain_source s" if "k \<in> set (hs[i := h'])" "s \<in> set (h_history k)" for k s
      using others plain that c by (auto simp: plain_source_def covered_total_def)
    show "src_sum claim (q_sourceQueue q') + histories_sum credit (hs[i := h']) = q_totalFileSize q'"
      if "q_failedSourceStats q' = []"
      using that c f unfolding covered_total_def fair_def histories_sum_def sender_system.select_convs upd by simp
  qed
  ultimately show ?thesis by blast
qed

lemma no_source_books:
  assumes g: "getNextSource env q = (r, q')" and r: "\<forall>s st. r \<noteq> GotSource s st"
    and b: "balanced \<lparr>sys_queue = q, sys_threads = hs\<rparr>" and c: "covered_total \<lparr>sys_queue = q, sys_threads = hs\<rparr>"
  shows "balanced \<lparr>sys_queue = q', sys_threads = hs\<rparr> \<and> covered_total \<lparr>sys_queue = q', sys_threads = hs\<rparr>"
proof -
  have none: "(case r of GotSource s _ \<Rightarrow> (k s :: int) | _ \<Rightarrow> 0) = 0" for k using r by (cases r) auto
  have "queue_sum f q = queue_sum f q'" if "f \<in> counters" for f
    using getNextSource_sum [OF g that] unfolding none by simp
  then have "balanced \<lparr>sys_queue = q', sys_threads = hs\<rparr>" using b by (simp add: balanced_def)
  moreover have pl: "\<forall>s \<in> set (q_sourceQueue q). plain_source s" using c by (simp add: covered_total_def)
  have "covered_total \<lparr>sys_queue = q', sys_threads = hs\<rparr>"
    using getNextSource_claims [OF g pl] c unfolding none by (auto simp: covered_total_def)
  ultimately show ?thesis by blast
qed

lemma discover_books:
  assumes d: "createIntoQueue env path info q = Some q'"
    and b: "balanced \<lparr>sys_queue = q, sys_threads = hs\<rparr>" and c: "covered_total \<lparr>sys_queue = q, sys_threads = hs\<rparr>"
  shows "balanced \<lparr>sys_queue = q', sys_threads = hs\<rparr> \<and> covered_total \<lparr>sys_queue = q', sys_threads = hs\<rparr>"
proof -
  obtain ss where ss: "mset (q_sourceQueue q') = mset (q_sourceQueue q @ ss)" "\<forall>s \<in> set ss. fresh_source s"
    "q_totalFileSize q' = q_totalFileSize q + src_sum bs_size ss" "q_failedSourceStats q' = q_failedSourceStats q"
    using createIntoQueue_new [OF d] by auto
  have zero: "src_sum (\<lambda>s. f (bs_stats s)) ss = 0" if "f \<in> counters" for f
    using ss(2) that by (induction ss) (auto simp: fresh_source_def)
  have "src_sum claim ss = src_sum bs_size ss"
    using ss(2) by (induction ss) (auto simp: fresh_source_def claim_def)
  moreover have "set (q_sourceQueue q') = set (q_sourceQueue q) \<union> set ss"
    using ss(1) by (metis set_append set_mset_mset)
  ultimately show ?thesis using b c ss(2-4) zero src_sum_mset [OF ss(1)]
    by (auto simp: balanced_def covered_total_def queue_sum_def fresh_source_def)
qed

lemma send_books:
  assumes i: "i < length hs" and g: "getNextSource env q = (GotSource s st, q1)" and t: "send_result s t"
    and a: "addSource (closeSource (addTransferStats t s))
       ((hs ! i)\<lparr>h_threadStats := plusStats (h_threadStats (hs ! i)) t\<rparr>) q1 = Ok (b, h', q')"
    and b: "balanced \<lparr>sys_queue = q, sys_threads = hs\<rparr>" and c: "covered_total \<lparr>sys_queue = q, sys_threads = hs\<rparr>"
  shows "balanced \<lparr>sys_queue = q', sys_threads = hs[i := h']\<rparr> \<and>
    covered_total \<lparr>sys_queue = q', sys_threads = hs[i := h']\<rparr>"
proof -
  define s2 where "s2 = closeSource (addTransferStats t s)"
  define h where "h = (hs ! i)\<lparr>h_threadStats := plusStats (h_threadStats (hs ! i)) t, h_history := h_history (hs ! i) @ [s2]\<rparr>"
  have pl: "\<forall>s \<in> set (q_sourceQueue q). plain_source s" using c by (simp add: covered_total_def)
  note G = getNextSource_claims [OF g pl]
  have s: "plain_source s" "ts_localErrCode (bs_stats s) = OK" using G by auto
  have s2: "bs_stats s2 = plusStats (bs_stats s) t" "bs_size s2 = bs_size s" "plain_source s2"
    using s(1) by (simp_all add: s2_def addTransferStats_def plain_source_def)
  have cr: "credit s2 = claim s" using s(2) t
    by (auto simp: credit_def claim_def owed_def s2 send_result_def sendMismatch_def)
  have upd: "sum_list (map k (hs[i := h])) = sum_list (map k hs) - k (hs ! i) + k h" for k :: "_ \<Rightarrow> int"
    by (rule sum_list_update_int [OF i])
  have "balanced \<lparr>sys_queue = q1, sys_threads = hs[i := h]\<rparr>"
    unfolding balanced_def threads_sum_def histories_sum_def sender_system.select_convs upd
  proof
    fix f assume f: "f \<in> counters"
    show "sum_list (map (\<lambda>h. f (h_threadStats h)) hs) - f (h_threadStats (hs ! i)) + f (h_threadStats h) =
        queue_sum f q1 + (sum_list (map (\<lambda>h. src_sum (\<lambda>s. f (bs_stats s)) (h_history h)) hs) -
          src_sum (\<lambda>s. f (bs_stats s)) (h_history (hs ! i)) + src_sum (\<lambda>s. f (bs_stats s)) (h_history h))"
      using bspec [OF b [unfolded balanced_def] f] getNextSource_sum [OF g f] plusStats_counters [OF f]
      by (simp add: h_def s2 threads_sum_def histories_sum_def)
  qed
  moreover have "covered_total \<lparr>sys_queue = q1, sys_threads = hs[i := h]\<rparr>"
    unfolding covered_total_def histories_sum_def sender_system.select_convs upd
  proof (intro conjI ballI impI)
    show "plain_source x" if "x \<in> set (q_sourceQueue q1)" for x using G pl that by auto
    show "plain_source x" if "k \<in> set (hs[i := h])" "x \<in> set (h_history k)" for k x
    proof -
      have "k = h \<or> k \<in> set hs" using that(1) set_update_subset_insert by fastforce
      then show ?thesis using that(2) c s2(3) nth_mem [OF i] by (auto simp: covered_total_def h_def)
    qed
    assume "q_failedSourceStats q1 = []"
    then show "src_sum claim (q_sourceQueue q1) + (sum_list (map (\<lambda>h. src_sum credit (h_history h)) hs)
        - src_sum credit (h_history (hs ! i)) + src_sum credit (h_history h)) = q_totalFileSize q1"
      using G c cr by (simp add: covered_total_def histories_sum_def h_def)
  qed
  ultimately show ?thesis
    using fair_update [OF addSource_fair [OF a] i] by (simp add: h_def s2_def)
qed

lemma sender_step_books:
  "sender_step env y y' \<Longrightarrow> balanced y \<and> covered_total y \<Longrightarrow> balanced y' \<and> covered_total y'"
proof (induction rule: sender_step.induct)
  case (checkpoint i hs cp glob q e h' q')
  then show ?case using fair_update [OF checkpoint_fair [OF checkpoint(2)] checkpoint(1)] by simp
next
  case (status i hs q e)
  let ?h = "(hs ! i)\<lparr>h_threadStats := setLocalErrorCode e (h_threadStats (hs ! i))\<rparr>"
  have "fair (hs ! i) q ?h q" by (auto simp: fair_def setLocalErrorCode_def)
  then show ?case using fair_update [of "hs ! i" q ?h q i hs] status by simp
qed (blast dest: send_books no_source_books discover_books)+

section \<open>Finishing a transfer\<close>

definition validateTransferStats ::
  "TransferStats list \<Rightarrow> TransferStats list \<Rightarrow> TransferStats list \<Rightarrow> bool" where
  "validateTransferStats transferred failed threads \<longleftrightarrow>
     stat_sum ts_failedAttempts transferred + stat_sum ts_failedAttempts failed = stat_sum ts_failedAttempts threads \<and>
     stat_sum ts_dataBytes transferred + stat_sum ts_dataBytes failed = stat_sum ts_dataBytes threads \<and>
     stat_sum ts_effectiveDataBytes transferred + stat_sum ts_effectiveDataBytes failed
       = stat_sum ts_effectiveDataBytes threads \<and>
     stat_sum ts_numBlocks transferred + stat_sum ts_numBlocks failed = stat_sum ts_numBlocks threads"

text \<open>The loop over the histories; statistics are collected only with full reporting.\<close>

fun collect_histories ::
  "bool \<Rightarrow> bool \<Rightarrow> ThreadTransferHistory list \<Rightarrow> DirectorySourceQueue \<Rightarrow>
   (TransferStats list \<times> ThreadTransferHistory list \<times> DirectorySourceQueue) outcome" where
  "collect_histories allAcked full [] q = Ok ([], [], q)"
| "collect_histories allAcked full (h # hs) q =
     (case (if allAcked then Ok (markAllAcknowledged h, q) else returnUnackedSourcesToQueue h q) of
        Fail \<Rightarrow> Fail | Abort \<Rightarrow> Abort
      | Ok (h1, q1) \<Rightarrow>
         (case (if full then popAckedSourceStats h1 else Ok ([], h1)) of
            Fail \<Rightarrow> Fail | Abort \<Rightarrow> Abort
          | Ok (stats, h2) \<Rightarrow>
              (case collect_histories allAcked full hs q1 of
                 Fail \<Rightarrow> Fail | Abort \<Rightarrow> Abort
               | Ok (rest, hs', q2) \<Rightarrow> Ok (stats @ rest, h2 # hs', q2))))"

text \<open>
  \<open>Sender::finish\<close> once the threads are joined.  The statistics the report is built
  from are moved out of the threads before unacknowledged sources are returned;
  moving copies the counters, and the threads' own counters keep changing.
\<close>

definition senderFinish ::
  "bool \<Rightarrow> ThreadTransferHistory list \<Rightarrow> DirectorySourceQueue \<Rightarrow> (TransferReport \<times> DirectorySourceQueue) outcome" where
  "senderFinish full hs q =
     (let threadStats = map h_threadStats hs;
          allSourcesAcked = list_ex (\<lambda>h. getErrorCode (h_threadStats h) = OK) hs
      in case collect_histories allSourcesAcked full hs q of
           Fail \<Rightarrow> Fail | Abort \<Rightarrow> Abort
         | Ok (transferred, hs', q1) \<Rightarrow>
             (case getFailedSourceStats q1 of (failed, q2) \<Rightarrow>
              if full \<and> \<not> validateTransferStats transferred failed (map h_threadStats hs') then Abort
              else Ok (senderReport transferred failed threadStats (q_failedDirectories q2)
                         (q_totalFileSize q2) (q_numEntries q2) (q_previouslySentBytes q2) (q_initFinished q2), q2)))"

text \<open>A transfer starts with uncharged sources that add up to the announced total.\<close>

definition sender_start :: "sender_system \<Rightarrow> bool" where
  "sender_start y \<longleftrightarrow>
     (\<forall>s \<in> set (q_sourceQueue (sys_queue y)). fresh_source s) \<and> q_failedSourceStats (sys_queue y) = [] \<and>
     src_sum bs_size (q_sourceQueue (sys_queue y)) = q_totalFileSize (sys_queue y) \<and>
     (\<forall>h \<in> set (sys_threads y). h_history h = [] \<and> (\<forall>f \<in> counters. f (h_threadStats h) = 0))"

lemma sender_start_books: "sender_start y \<Longrightarrow> balanced y \<and> covered_total y"
proof -
  assume st: "sender_start y"
  have z: "src_sum (\<lambda>s. f (bs_stats s)) ss = 0" if "f \<in> counters" "\<forall>s \<in> set ss. fresh_source s" for f ss
    using that by (induction ss) (auto simp: fresh_source_def)
  have c: "src_sum claim ss = src_sum bs_size ss" if "\<forall>s \<in> set ss. fresh_source s" for ss
    using that by (induction ss) (auto simp: fresh_source_def claim_def)
  have h: "histories_sum g hs = 0" if "\<forall>h \<in> set hs. h_history h = []" for g hs
    using that by (induction hs) (auto simp: histories_sum_def)
  have t: "threads_sum f hs = 0" if "\<forall>h \<in> set hs. f (h_threadStats h) = 0" for f hs
    using that by (induction hs) (auto simp: threads_sum_def)
  have hs: "\<forall>h \<in> set (sys_threads y). h_history h = []" using st by (simp add: sender_start_def)
  have "threads_sum f (sys_threads y) = 0" if "f \<in> counters" for f
    using st that unfolding sender_start_def by (intro t) blast
  then show ?thesis using st z c h [OF hs]
    by (auto simp: sender_start_def balanced_def covered_total_def queue_sum_def fresh_source_def)
qed

lemma reachable_books:
  assumes "sender_start y0" "(sender_step env)\<^sup>*\<^sup>* y0 y"
  shows "balanced y \<and> covered_total y"
  using assms(2) by (induction rule: rtranclp_induct) (use sender_start_books [OF assms(1)] sender_step_books in auto)

lemma concat_histories:
  "stat_sum f (concat (map (\<lambda>h. map bs_stats (rev (h_history h))) hs)) = histories_sum (\<lambda>s. f (bs_stats s)) hs"
  by (induction hs) (simp_all add: histories_sum_def src_sum_def rev_map [symmetric] sum_list_rev comp_def)

lemma balanced_validates:
  assumes "balanced \<lparr>sys_queue = q, sys_threads = hs\<rparr>"
  shows "validateTransferStats (concat (map (\<lambda>h. map bs_stats (rev (h_history h))) hs))
    (fst (getFailedSourceStats q)) (map h_threadStats hs)"
proof -
  have "stat_sum f (concat (map (\<lambda>h. map bs_stats (rev (h_history h))) hs)) + stat_sum f (fst (getFailedSourceStats q))
      = stat_sum f (map h_threadStats hs)" if "f \<in> counters" for f
    using bspec [OF assms [unfolded balanced_def] that]
    by (simp add: concat_histories getFailedSourceStats_def Let_def queue_sum_def src_sum_def threads_sum_def comp_def)
  then show ?thesis by (simp add: validateTransferStats_def)
qed

lemma collect_acked:
  "collect_histories True full hs q =
     Ok (if full then concat (map (\<lambda>h. map bs_stats (rev (h_history h))) hs) else [],
         map (\<lambda>h. if full then (markAllAcknowledged h)\<lparr>h_history := []\<rparr> else markAllAcknowledged h) hs, q)"
  by (induction hs; cases full) (simp_all add: popAckedSourceStats_def markAllAcknowledged_def)

lemma markAllAcknowledged_stats [simp]: "h_threadStats (markAllAcknowledged h) = h_threadStats h"
  by (simp add: markAllAcknowledged_def)

lemma threads_effective:
  "covered_total \<lparr>sys_queue = q, sys_threads = hs\<rparr> \<Longrightarrow> balanced \<lparr>sys_queue = q, sys_threads = hs\<rparr> \<Longrightarrow>
   q_failedSourceStats q = [] \<Longrightarrow>
   threads_sum ts_effectiveDataBytes hs + src_sum bs_size (q_sourceQueue q) + histories_sum owed hs = q_totalFileSize q"
proof -
  have "src_sum claim ss = src_sum (\<lambda>s. ts_effectiveDataBytes (bs_stats s)) ss + src_sum bs_size ss" for ss
    by (induction ss) (simp_all add: claim_def)
  moreover have cr: "src_sum credit ss = src_sum (\<lambda>s. ts_effectiveDataBytes (bs_stats s)) ss + src_sum owed ss" for ss
    by (induction ss) (simp_all add: credit_def)
  have "histories_sum credit hs = histories_sum (\<lambda>s. ts_effectiveDataBytes (bs_stats s)) hs + histories_sum owed hs" for hs
    by (induction hs) (simp_all add: histories_sum_def cr)
  ultimately show "covered_total \<lparr>sys_queue = q, sys_threads = hs\<rparr> \<Longrightarrow> balanced \<lparr>sys_queue = q, sys_threads = hs\<rparr> \<Longrightarrow>
    q_failedSourceStats q = [] \<Longrightarrow> ?thesis" by (simp add: covered_total_def balanced_def queue_sum_def)
qed


lemma senderFinish_balanced:
  assumes B: "balanced \<lparr>sys_queue = q, sys_threads = hs\<rparr> \<and> covered_total \<lparr>sys_queue = q, sys_threads = hs\<rparr>"
    and ok: "list_ex (\<lambda>h. getErrorCode (h_threadStats h) = OK) hs"
  shows "\<exists>report q'. senderFinish full hs q = Ok (report, q') \<and>
    (q_sourceQueue q = [] \<and> q_failedSourceStats q = [] \<and> q_failedDirectories q = [] \<and> histories_sum owed hs = 0
       \<longrightarrow> getErrorCode (tr_summary report) = OK) \<and>
    (getErrorCode (tr_summary report) = OK \<and> q_failedSourceStats q = []
       \<longrightarrow> src_sum bs_size (q_sourceQueue q) + histories_sum owed hs = 0)"
proof -
  have ts: "map h_threadStats (map (\<lambda>h. if full then (markAllAcknowledged h)\<lparr>h_history := []\<rparr>
      else markAllAcknowledged h) hs) = map h_threadStats hs" by (simp add: markAllAcknowledged_def)
  obtain failed q2 where g: "getFailedSourceStats q = (failed, q2)" by fastforce
  then have q2: "failed = q_failedSourceStats q @ map bs_stats (q_sourceQueue q)"
    "q_failedDirectories q2 = q_failedDirectories q" "q_totalFileSize q2 = q_totalFileSize q"
    by (auto simp: getFailedSourceStats_def Let_def)
  let ?tr = "if full then concat (map (\<lambda>h. map bs_stats (rev (h_history h))) hs) else []"
  let ?r = "senderReport ?tr failed (map h_threadStats hs) (q_failedDirectories q2)
      (q_totalFileSize q2) (q_numEntries q2) (q_previouslySentBytes q2) (q_initFinished q2)"
  have "senderFinish full hs q = Ok (?r, q2)"
    using balanced_validates [of q hs] B g ok unfolding senderFinish_def
    by (simp only: Let_def collect_acked ts) (simp add: comp_def)
  moreover have eff: "sum_list (map ts_effectiveDataBytes (map h_threadStats hs)) = threads_sum ts_effectiveDataBytes hs"
    by (simp add: threads_sum_def comp_def)
  note T = threads_effective [of q hs] B
  have "getErrorCode (tr_summary ?r) = OK" if "q_sourceQueue q = []" "q_failedSourceStats q = []"
      "q_failedDirectories q = []" "histories_sum owed hs = 0"
    unfolding senderReport_OK eff using T that q2 ok by (simp add: list_ex_iff)
  moreover have "src_sum bs_size (q_sourceQueue q) + histories_sum owed hs = 0"
    if "getErrorCode (tr_summary ?r) = OK" "q_failedSourceStats q = []"
    using that(1) T that(2) q2 unfolding senderReport_OK eff by simp
  ultimately show ?thesis by blast
qed

text \<open>C14: when at least one thread ended without error, \<open>finish\<close> never fails an internal
  check, with or without full reporting; the report it returns says OK if nothing
  failed, the queue is empty and no history holds a failed source, and it says OK for
  a transfer without lost sources only if no byte is left to send.\<close>

theorem senderFinish_correct:
  assumes "sender_start y0" "(sender_step env)\<^sup>*\<^sup>* y0 \<lparr>sys_queue = q, sys_threads = hs\<rparr>"
    and ok: "list_ex (\<lambda>h. getErrorCode (h_threadStats h) = OK) hs"
  shows "\<exists>report q'. senderFinish full hs q = Ok (report, q') \<and>
    (q_sourceQueue q = [] \<and> q_failedSourceStats q = [] \<and> q_failedDirectories q = [] \<and> histories_sum owed hs = 0
       \<longrightarrow> getErrorCode (tr_summary report) = OK) \<and>
    (getErrorCode (tr_summary report) = OK \<and> q_failedSourceStats q = []
       \<longrightarrow> src_sum bs_size (q_sourceQueue q) + histories_sum owed hs = 0)"
  by (rule senderFinish_balanced [OF reachable_books [OF assms(1,2)] ok])

text \<open>A two-thread transfer of one file.\<close>

definition example_threads :: "ThreadTransferHistory list" where
  "example_threads = [newHistory newStats 1, newHistory newStats 2]"

definition example_source :: ByteSource where
  "example_source = newSource (newMetaData\<lparr>md_relPath := ''a'', md_fullPath := ''/a'', md_size := 5\<rparr>) 5 0"

definition example_start :: sender_system where
  "example_start = \<lparr>sys_queue = (newQueue ''/'')\<lparr>q_sourceQueue := [example_source],
     q_totalFileSize := 5, q_numBlocks := 1, q_initFinished := True\<rparr>, sys_threads = example_threads\<rparr>"

definition example_sent :: TransferStats where
  "example_sent = newStats\<lparr>ts_dataBytes := 5, ts_effectiveDataBytes := 5, ts_numBlocks := 1\<rparr>"

lemma example_start_ok: "sender_start example_start"
  by (auto simp: sender_start_def example_start_def example_threads_def newHistory_def newQueue_def newStats_def
      fresh_source_def plain_source_def newSource_def newStatsId_def example_source_def newMetaData_def)

lemma example_run:
  obtains q hs where "(sender_step example_env)\<^sup>*\<^sup>* example_start \<lparr>sys_queue = q, sys_threads = hs\<rparr>"
    "q_failedSourceStats q = []" "q_failedDirectories q = []" "q_totalFileSize q = 5" "q_sourceQueue q = []"
    "list_ex (\<lambda>h. getErrorCode (h_threadStats h) = OK) hs" "histories_sum owed hs = 0"
proof -
  obtain s st q1 where g: "getNextSource example_env (sys_queue example_start) = (GotSource s st, q1)"
    "bs_size s = 5" "ts_localErrCode (bs_stats s) = OK" "ts_numBlocksSend (bs_stats s) = - 1" "ts_totalSenderBytes (bs_stats s) = - 1"
    "q_failedSourceStats q1 = []" "q_failedDirectories q1 = []" "q_totalFileSize q1 = 5" "q_sourceQueue q1 = []"
    by (simp add: getNextSource.simps example_start_def example_source_def newSource_def newMetaData_def
        openSource_def example_env_def Let_def closeSource_def newQueue_def setLocalErrorCode_def
        newStatsId_def newStats_def)
  define h where "h = (hd example_threads)\<lparr>h_threadStats := plusStats newStats example_sent,
     h_history := [closeSource (addTransferStats example_sent s)]\<rparr>"
  have "addSource (closeSource (addTransferStats example_sent s))
     ((example_threads ! 0)\<lparr>h_threadStats := plusStats (h_threadStats (example_threads ! 0)) example_sent\<rparr>) q1
       = Ok (True, h, q1)"
    by (simp add: addSource_def example_threads_def newHistory_def h_def)
  moreover have "send_result s example_sent" using g(2) by (simp add: send_result_def example_sent_def newStats_def)
  ultimately have "sender_step example_env \<lparr>sys_queue = sys_queue example_start, sys_threads = example_threads\<rparr>
      \<lparr>sys_queue = q1, sys_threads = example_threads[0 := h]\<rparr>"
    using sender_step.send [OF _ g(1), of 0 example_threads] by (simp add: example_threads_def)
  then have "(sender_step example_env)\<^sup>*\<^sup>* example_start \<lparr>sys_queue = q1, sys_threads = example_threads[0 := h]\<rparr>"
    by (auto simp: example_start_def)
  moreover have "list_ex (\<lambda>h. getErrorCode (h_threadStats h) = OK) (example_threads[0 := h])"
    by (simp add: example_threads_def newHistory_def newStats_def getErrorCode_def)
  moreover have "histories_sum owed (example_threads[0 := h]) = 0"
    using g(3-5) by (simp add: histories_sum_def example_threads_def newHistory_def h_def owed_def addTransferStats_def
      sendMismatch_def example_sent_def newStats_def)
  ultimately show ?thesis using that g(6-9) by blast
qed


theorem senderFinish_correct_witness:
  "\<exists>q hs report q'. (sender_step example_env)\<^sup>*\<^sup>* example_start \<lparr>sys_queue = q, sys_threads = hs\<rparr> \<and>
     senderFinish True hs q = Ok (report, q') \<and> getErrorCode (tr_summary report) = OK"
proof -
  obtain q hs where r: "(sender_step example_env)\<^sup>*\<^sup>* example_start \<lparr>sys_queue = q, sys_threads = hs\<rparr>"
    "q_failedSourceStats q = []" "q_failedDirectories q = []" "q_sourceQueue q = []"
    "list_ex (\<lambda>h. getErrorCode (h_threadStats h) = OK) hs" "histories_sum owed hs = 0"
    by (rule example_run)
  from senderFinish_correct [OF example_start_ok r(1,5), of True] r show ?thesis by blast
qed

end
