(* ===== verification/Transfer_Log.thy ===== *)
theory Transfer_Log
  imports Protocol_Laws "HOL-Library.AList"
begin

text \<open>
  The entries of the transfer log (\<open>LogEncoderDecoder\<close> of \<open>util/TransferLogManager\<close>) and
  the parser that rebuilds the state of a directory from a log (\<open>LogParser\<close>).
  Timestamps come from the clock and are arguments of the encoders; the 16-bit
  length of an entry is stored in the byte order of the machine, little endian.
\<close>

section \<open>Entries\<close>

definition WLOG_VERSION :: int where
  "WLOG_VERSION = 2"

datatype EntryType = HEADER | FILE_CREATION | BLOCK_WRITE | FILE_INVALIDATION | FILE_RESIZE
  | DIRECTORY_INVALIDATION

fun entryType_num :: "EntryType \<Rightarrow> byte" where
  "entryType_num HEADER = 0"
| "entryType_num FILE_CREATION = 1"
| "entryType_num BLOCK_WRITE = 2"
| "entryType_num FILE_INVALIDATION = 3"
| "entryType_num FILE_RESIZE = 4"
| "entryType_num DIRECTORY_INVALIDATION = 5"

definition kMaxEntryLength :: int where
  "kMaxEntryLength = 2 + 1 + 10 + PATH_MAX + 2 * 10"

text \<open>The local buffer entries are encoded in; its initial content does not matter.\<close>

definition entry_buf :: bytes where
  "entry_buf = replicate (nat kMaxEntryLength) 0"

lemma length_entry_buf [simp]: "length entry_buf = nat kMaxEntryLength"
  by (simp add: entry_buf_def)

text \<open>
  The encoders get the buffer and return the entry (the first \<open>size\<close> bytes of the
  buffer), \<open>Fail\<close> for the result -1 and \<open>Abort\<close> for the failed check on \<open>max\<close>.
\<close>

definition encodeLogHeader :: "int \<Rightarrow> string \<Rightarrow> string \<Rightarrow> int \<Rightarrow> bytes \<Rightarrow> bytes outcome" where
  "encodeLogHeader timestamp recoveryId senderIp config dest =
     (let ptr = drop 2 dest; mx = int (length dest) - 2
      in if mx < 1 then Abort
         else case enc_all [encodeVarI64C timestamp, encodeVarI64C WLOG_VERSION,
                            encodeString recoveryId, encodeString senderIp, encodeVarI64C config]
                     mx (ptr[0 := entryType_num HEADER]) 1 of
                (Ok _, ptr', sz) \<Rightarrow> Ok (take (nat (sz + 2)) (le_bytes 2 sz @ ptr'))
              | (Fail, _, _) \<Rightarrow> Fail
              | (Abort, _, _) \<Rightarrow> Abort)"

text \<open>The frame the other five encoders share.\<close>

definition encode_entry :: "EntryType \<Rightarrow> encoder \<Rightarrow> bytes \<Rightarrow> bytes outcome" where
  "encode_entry typ body dest =
     (let mx = int (length dest)
      in if mx < 3 then Abort
         else case body mx (dest[2 := entryType_num typ]) 3 of
                (Ok _, d, sz) \<Rightarrow> Ok (take (nat sz) (write_at 0 (le_bytes 2 (sz - 2)) d))
              | (Fail, _, _) \<Rightarrow> Fail
              | (Abort, _, _) \<Rightarrow> Abort)"

definition encodeFileCreationEntry :: "int \<Rightarrow> string \<Rightarrow> int \<Rightarrow> int \<Rightarrow> bytes \<Rightarrow> bytes outcome" where
  "encodeFileCreationEntry timestamp fileName seqId fileSize = encode_entry FILE_CREATION
     (enc_all [encodeVarI64C timestamp, encodeString fileName, encodeVarI64C seqId, encodeVarI64C fileSize])"

definition encodeBlockWriteEntry :: "int \<Rightarrow> int \<Rightarrow> int \<Rightarrow> int \<Rightarrow> bytes \<Rightarrow> bytes outcome" where
  "encodeBlockWriteEntry timestamp seqId off blockSize = encode_entry BLOCK_WRITE
     (enc_all [encodeVarI64C timestamp, encodeVarI64C seqId, encodeVarI64C off, encodeVarI64C blockSize])"

definition encodeFileResizeEntry :: "int \<Rightarrow> int \<Rightarrow> int \<Rightarrow> bytes \<Rightarrow> bytes outcome" where
  "encodeFileResizeEntry timestamp seqId fileSize = encode_entry FILE_RESIZE
     (enc_all [encodeVarI64C timestamp, encodeVarI64C seqId, encodeVarI64C fileSize])"

definition encodeFileInvalidationEntry :: "int \<Rightarrow> int \<Rightarrow> bytes \<Rightarrow> bytes outcome" where
  "encodeFileInvalidationEntry timestamp seqId = encode_entry FILE_INVALIDATION
     (enc_all [encodeVarI64C timestamp, encodeVarI64C seqId])"

definition encodeDirectoryInvalidationEntry :: "int \<Rightarrow> bytes \<Rightarrow> bytes outcome" where
  "encodeDirectoryInvalidationEntry timestamp = encode_entry DIRECTORY_INVALIDATION (encodeVarI64C timestamp)"

text \<open>The decoders get the bytes after the type and must use all of them.\<close>

definition decode_whole :: "'a decoder \<Rightarrow> bytes \<Rightarrow> 'a option" where
  "decode_whole dec buf = (case dec buf of (Ok x, []) \<Rightarrow> Some x | _ \<Rightarrow> None)"

definition decodeLogHeader :: "bytes \<Rightarrow> (int \<times> int \<times> string \<times> string \<times> int) option" where
  "decodeLogHeader = decode_whole
     (dec_bind decodeInt64C (\<lambda>timestamp. dec_bind decodeInt32C (\<lambda>version.
      dec_bind decodeString (\<lambda>recoveryId. dec_bind decodeString (\<lambda>senderIp.
      dec_bind decodeInt64C (\<lambda>config. dec_ret (timestamp, version, recoveryId, senderIp, config)))))))"

definition decodeFileCreationEntry :: "bytes \<Rightarrow> (int \<times> string \<times> int \<times> int) option" where
  "decodeFileCreationEntry = decode_whole
     (dec_bind decodeInt64C (\<lambda>timestamp. dec_bind decodeString (\<lambda>fileName.
      dec_bind decodeInt64C (\<lambda>seqId. dec_bind decodeInt64C (\<lambda>fileSize.
        dec_ret (timestamp, fileName, seqId, fileSize))))))"

definition decodeBlockWriteEntry :: "bytes \<Rightarrow> (int \<times> int \<times> int \<times> int) option" where
  "decodeBlockWriteEntry = decode_whole
     (dec_bind decodeInt64C (\<lambda>timestamp. dec_bind decodeInt64C (\<lambda>seqId.
      dec_bind decodeInt64C (\<lambda>off. dec_bind decodeInt64C (\<lambda>blockSize.
        dec_ret (timestamp, seqId, off, blockSize))))))"

definition decodeFileResizeEntry :: "bytes \<Rightarrow> (int \<times> int \<times> int) option" where
  "decodeFileResizeEntry = decode_whole
     (dec_bind decodeInt64C (\<lambda>timestamp. dec_bind decodeInt64C (\<lambda>seqId.
      dec_bind decodeInt64C (\<lambda>fileSize. dec_ret (timestamp, seqId, fileSize)))))"

definition decodeFileInvalidationEntry :: "bytes \<Rightarrow> (int \<times> int) option" where
  "decodeFileInvalidationEntry = decode_whole
     (dec_bind decodeInt64C (\<lambda>timestamp. dec_bind decodeInt64C (\<lambda>seqId. dec_ret (timestamp, seqId))))"

definition decodeDirectoryInvalidationEntry :: "bytes \<Rightarrow> int option" where
  "decodeDirectoryInvalidationEntry = decode_whole decodeInt64C"

end
