(* ===== verification/Log_Parser.thy ===== *)
theory Log_Parser
  imports Transfer_Log
begin

text \<open>
  \<open>LogParser\<close> of \<open>util/TransferLogManager\<close>.  The log file is the list of bytes that
  \<open>read\<close> delivers; what the system answers to \<open>stat\<close>, to failing reads, to truncation
  and to appending invalidation entries is the argument \<open>log_env\<close>.
\<close>

record log_env =
  le_stat :: "string \<Rightarrow> int option"
  le_readFails :: "nat \<Rightarrow> bool"
  le_truncateOk :: bool
  le_appendOk :: bool
  le_resumeUsingDirTree :: bool
  le_preallocate :: bool

record LogParser =
  lp_rootDir :: string
  lp_recoveryId :: string
  lp_config :: int
  lp_parseOnly :: bool
  lp_headerParsed :: bool
  lp_fileInfoMap :: "(int \<times> FileChunksInfo) list"
  lp_seqIdToSizeMap :: "(int \<times> int) list"
  lp_invalidSeqIds :: "int list"

definition newParser :: "string \<Rightarrow> string \<Rightarrow> int \<Rightarrow> bool \<Rightarrow> LogParser" where
  "newParser rootDir recoveryId config parseOnly =
     \<lparr>lp_rootDir = rootDir, lp_recoveryId = recoveryId, lp_config = config, lp_parseOnly = parseOnly,
      lp_headerParsed = False, lp_fileInfoMap = [], lp_seqIdToSizeMap = [], lp_invalidSeqIds = []\<rparr>"

definition clearParsedData :: "LogParser \<Rightarrow> LogParser" where
  "clearParsedData p = p\<lparr>lp_fileInfoMap := [], lp_seqIdToSizeMap := [], lp_invalidSeqIds := []\<rparr>"

text \<open>\<open>std::map::emplace\<close> keeps an existing entry.\<close>

definition emplace :: "'k \<Rightarrow> 'v \<Rightarrow> ('k \<times> 'v) list \<Rightarrow> ('k \<times> 'v) list" where
  "emplace k v m = (if k \<in> fst ` set m then m else (k, v) # m)"

section \<open>What each decoded entry does\<close>

text \<open>The header also sets the sender address the caller passed by reference.\<close>

definition apply_header ::
  "int \<times> int \<times> string \<times> string \<times> int \<Rightarrow> LogParser \<Rightarrow> ErrorCode \<times> LogParser" where
  "apply_header = (\<lambda>(timestamp, logVersion, logRecoveryId, senderIp, logConfig) p.
     if logVersion \<noteq> WLOG_VERSION then (INVALID_LOG, p)
     else if senderIp = [] then (INVALID_LOG, p)
     else if lp_parseOnly p then (OK, p\<lparr>lp_headerParsed := True\<rparr>)
     else if lp_recoveryId p \<noteq> logRecoveryId then (INCONSISTENT_DIRECTORY, p)
     else if lp_config p \<noteq> logConfig then (INCONSISTENT_DIRECTORY, p)
     else (OK, p\<lparr>lp_headerParsed := True\<rparr>))"

definition apply_creation ::
  "log_env \<Rightarrow> int \<times> string \<times> int \<times> int \<Rightarrow> LogParser \<Rightarrow> ErrorCode \<times> LogParser" where
  "apply_creation env = (\<lambda>(timestamp, fileName, seqId, fileSize) p.
     if lp_parseOnly p then (OK, p)
     else if le_resumeUsingDirTree env then (INVALID_LOG, p)
     else if seqId \<in> fst ` set (lp_fileInfoMap p) \<or> seqId \<in> set (lp_invalidSeqIds p) then (INVALID_LOG, p)
     else case le_stat env (lp_rootDir p @ fileName) of
            Some diskSize \<Rightarrow>
              if le_preallocate env \<and> \<not> diskSize \<ge> fileSize
              then (OK, p\<lparr>lp_invalidSeqIds := List.insert seqId (lp_invalidSeqIds p)\<rparr>)
              else (OK, p\<lparr>lp_fileInfoMap := emplace seqId
                             \<lparr>fc_seqId = seqId, fc_fileName = fileName, fc_fileSize = diskSize, fc_chunks = []\<rparr>
                             (lp_fileInfoMap p),
                           lp_seqIdToSizeMap := emplace seqId fileSize (lp_seqIdToSizeMap p)\<rparr>)
          | None \<Rightarrow> (OK, p\<lparr>lp_invalidSeqIds := List.insert seqId (lp_invalidSeqIds p)\<rparr>))"

text \<open>\<open>Abort\<close> is the failed check that the size map knows the file.\<close>

definition apply_resize ::
  "log_env \<Rightarrow> int \<times> int \<times> int \<Rightarrow> LogParser \<Rightarrow> (ErrorCode \<times> LogParser) outcome" where
  "apply_resize env = (\<lambda>(timestamp, seqId, fileSize) p.
     if lp_parseOnly p then Ok (OK, p)
     else if le_resumeUsingDirTree env then Ok (INVALID_LOG, p)
     else case map_of (lp_fileInfoMap p) seqId of
            None \<Rightarrow> Ok (INVALID_LOG, p)
          | Some chunksInfo \<Rightarrow>
              (case map_of (lp_seqIdToSizeMap p) seqId of
                 None \<Rightarrow> Abort
               | Some oldSize \<Rightarrow>
                   if fileSize < oldSize then Ok (INVALID_LOG, p)
                   else if le_preallocate env \<and> fileSize > fc_fileSize chunksInfo then Ok (INVALID_LOG, p)
                   else Ok (OK, p\<lparr>lp_seqIdToSizeMap := AList.update seqId fileSize (lp_seqIdToSizeMap p)\<rparr>)))"

definition apply_block ::
  "log_env \<Rightarrow> int \<times> int \<times> int \<times> int \<Rightarrow> LogParser \<Rightarrow> ErrorCode \<times> LogParser" where
  "apply_block env = (\<lambda>(timestamp, seqId, off, blockSize) p.
     if lp_parseOnly p then (OK, p)
     else if le_resumeUsingDirTree env then (INVALID_LOG, p)
     else if seqId \<in> set (lp_invalidSeqIds p) then (OK, p)
     else case map_of (lp_fileInfoMap p) seqId of
            None \<Rightarrow> (INVALID_LOG, p)
          | Some chunksInfo \<Rightarrow>
              if off + blockSize > fc_fileSize chunksInfo then (INVALID_LOG, p)
              else (OK, p\<lparr>lp_fileInfoMap := AList.update seqId
                             (addChunk (mkInterval off (off + blockSize)) chunksInfo) (lp_fileInfoMap p)\<rparr>))"

definition apply_invalidation :: "log_env \<Rightarrow> int \<times> int \<Rightarrow> LogParser \<Rightarrow> ErrorCode \<times> LogParser" where
  "apply_invalidation env = (\<lambda>(timestamp, seqId) p.
     if lp_parseOnly p then (OK, p)
     else if le_resumeUsingDirTree env then (INVALID_LOG, p)
     else if seqId \<notin> fst ` set (lp_fileInfoMap p) \<and> seqId \<notin> set (lp_invalidSeqIds p) then (INVALID_LOG, p)
     else (OK, p\<lparr>lp_fileInfoMap := AList.delete seqId (lp_fileInfoMap p),
                 lp_invalidSeqIds := removeAll seqId (lp_invalidSeqIds p)\<rparr>))"

definition apply_directory_invalidation :: "int \<Rightarrow> LogParser \<Rightarrow> ErrorCode \<times> LogParser" where
  "apply_directory_invalidation timestamp p =
     (if lp_parseOnly p then (OK, p) else (INCONSISTENT_DIRECTORY, p\<lparr>lp_headerParsed := False\<rparr>))"

section \<open>Processing the bytes of an entry\<close>

text \<open>The \<open>max\<close> argument is the size of the entry buffer minus the type byte.\<close>

definition processHeaderEntry ::
  "int \<Rightarrow> bytes \<Rightarrow> string \<Rightarrow> LogParser \<Rightarrow> ErrorCode \<times> string \<times> LogParser" where
  "processHeaderEntry mx buf senderIp p =
     (if int (length buf) > mx then (INVALID_LOG, senderIp, p)
      else case decodeLogHeader buf of
             None \<Rightarrow> (INVALID_LOG, senderIp, p)
           | Some e \<Rightarrow> (case e of (_, _, _, ip, _) \<Rightarrow>
                         case apply_header e p of (st, p') \<Rightarrow> (st, ip, p')))"

definition processFileCreationEntry :: "log_env \<Rightarrow> bytes \<Rightarrow> LogParser \<Rightarrow> ErrorCode \<times> LogParser" where
  "processFileCreationEntry env buf p =
     (if \<not> lp_headerParsed p then (INVALID_LOG, p)
      else case decodeFileCreationEntry buf of None \<Rightarrow> (INVALID_LOG, p) | Some e \<Rightarrow> apply_creation env e p)"

definition processFileResizeEntry :: "log_env \<Rightarrow> bytes \<Rightarrow> LogParser \<Rightarrow> (ErrorCode \<times> LogParser) outcome" where
  "processFileResizeEntry env buf p =
     (if \<not> lp_headerParsed p then Ok (INVALID_LOG, p)
      else case decodeFileResizeEntry buf of None \<Rightarrow> Ok (INVALID_LOG, p) | Some e \<Rightarrow> apply_resize env e p)"

definition processBlockWriteEntry :: "log_env \<Rightarrow> bytes \<Rightarrow> LogParser \<Rightarrow> ErrorCode \<times> LogParser" where
  "processBlockWriteEntry env buf p =
     (if \<not> lp_headerParsed p then (INVALID_LOG, p)
      else case decodeBlockWriteEntry buf of None \<Rightarrow> (INVALID_LOG, p) | Some e \<Rightarrow> apply_block env e p)"

definition processFileInvalidationEntry :: "log_env \<Rightarrow> bytes \<Rightarrow> LogParser \<Rightarrow> ErrorCode \<times> LogParser" where
  "processFileInvalidationEntry env buf p =
     (if \<not> lp_headerParsed p then (INVALID_LOG, p)
      else case decodeFileInvalidationEntry buf of None \<Rightarrow> (INVALID_LOG, p) | Some e \<Rightarrow> apply_invalidation env e p)"

definition processDirectoryInvalidationEntry :: "bytes \<Rightarrow> LogParser \<Rightarrow> ErrorCode \<times> LogParser" where
  "processDirectoryInvalidationEntry buf p =
     (case decodeDirectoryInvalidationEntry buf of None \<Rightarrow> (INVALID_LOG, p)
      | Some timestamp \<Rightarrow> apply_directory_invalidation timestamp p)"

text \<open>The switch of \<open>parseLog\<close>; \<open>Fail\<close> stands for an unknown entry type.\<close>

definition process_entry ::
  "log_env \<Rightarrow> byte \<Rightarrow> bytes \<Rightarrow> string \<Rightarrow> LogParser \<Rightarrow> (ErrorCode \<times> string \<times> LogParser) outcome" where
  "process_entry env typ buf ip p =
     (let keep = (\<lambda>(st, p'). (st, ip, p'))
      in if typ = entryType_num HEADER then Ok (processHeaderEntry (kMaxEntryLength - 1) buf ip p)
         else if typ = entryType_num FILE_CREATION then Ok (keep (processFileCreationEntry env buf p))
         else if typ = entryType_num BLOCK_WRITE then Ok (keep (processBlockWriteEntry env buf p))
         else if typ = entryType_num FILE_RESIZE
         then (case processFileResizeEntry env buf p of Ok r \<Rightarrow> Ok (keep r) | Fail \<Rightarrow> Fail | Abort \<Rightarrow> Abort)
         else if typ = entryType_num FILE_INVALIDATION then Ok (keep (processFileInvalidationEntry env buf p))
         else if typ = entryType_num DIRECTORY_INVALIDATION
         then Ok (keep (processDirectoryInvalidationEntry buf p))
         else Fail)"

section \<open>Parsing a log\<close>

text \<open>
  How the read loop of \<open>parseLog\<close> ends: an early return of \<open>INVALID_LOG\<close>, or the end of
  the log with the status so far and the number of torn bytes cut off the end.
\<close>

datatype parse_end = Invalid_log | Log_end ErrorCode int

function parse_loop ::
  "log_env \<Rightarrow> nat \<Rightarrow> bytes \<Rightarrow> ErrorCode \<Rightarrow> string \<Rightarrow> LogParser \<Rightarrow> (parse_end \<times> string \<times> LogParser) outcome" where
  "parse_loop env n content status ip p =
     (if le_readFails env n then Ok (Invalid_log, ip, p)
      else if content = [] then Ok (Log_end status 0, ip, p)
      else if length content < 2
      then (if lp_parseOnly p then Ok (Log_end status 0, ip, p)
            else if le_truncateOk env then Ok (Log_end status (int (length content)), ip, p)
            else Ok (Invalid_log, ip, p))
      else let entrySize = signed_value 2 (le_value (take 2 content)); rest = drop 2 content
           in if entrySize \<le> 0 \<or> entrySize > kMaxEntryLength then Ok (Invalid_log, ip, p)
              else if le_readFails env (n + 1) then Ok (Invalid_log, ip, p)
              else if int (length rest) < entrySize
              then (if lp_parseOnly p then Ok (Log_end status 0, ip, p)
                    else if le_truncateOk env then Ok (Log_end status (int (length rest) + 2), ip, p)
                    else Ok (Invalid_log, ip, p))
              else let entry = take (nat entrySize) rest; more = drop (nat entrySize) rest
                   in if status = INCONSISTENT_DIRECTORY \<and> hd entry \<noteq> entryType_num HEADER
                      then parse_loop env (n + 2) more status ip p
                      else case process_entry env (hd entry) (tl entry) ip p of
                             Fail \<Rightarrow> Ok (Invalid_log, ip, p)
                           | Abort \<Rightarrow> Abort
                           | Ok (st, ip', p') \<Rightarrow>
                               if st = INVALID_LOG then Ok (Invalid_log, ip', p')
                               else parse_loop env (n + 2) more st ip'
                                      (if st = INCONSISTENT_DIRECTORY then clearParsedData p' else p'))"
  by pat_completeness auto
termination by (relation "measure (\<lambda>(_, _, content, _). length content)") auto

declare parse_loop.simps [simp del]

fun invalidation_entries :: "int \<Rightarrow> int list \<Rightarrow> bytes outcome" where
  "invalidation_entries timestamp [] = Ok []"
| "invalidation_entries timestamp (seqId # seqIds) =
     (case encodeFileInvalidationEntry timestamp seqId entry_buf of
        Ok bs \<Rightarrow> (case invalidation_entries timestamp seqIds of Ok rest \<Rightarrow> Ok (bs @ rest) | r \<Rightarrow> r)
      | r \<Rightarrow> r)"

text \<open>The status, the sender address, the files in the order of their ids, and the log
  as the call leaves it.\<close>

definition parseLog ::
  "log_env \<Rightarrow> int \<Rightarrow> bytes \<Rightarrow> string \<Rightarrow> LogParser \<Rightarrow>
   (ErrorCode \<times> string \<times> FileChunksInfo list \<times> bytes) outcome" where
  "parseLog env timestamp content senderIp p =
     (case parse_loop env 0 content OK senderIp p of
        Fail \<Rightarrow> Fail
      | Abort \<Rightarrow> Abort
      | Ok (Invalid_log, ip, p') \<Rightarrow> Ok (INVALID_LOG, ip, [], content)
      | Ok (Log_end status extra, ip, p') \<Rightarrow>
          (let kept = take (length content - nat extra) content;
               infos = map (mergeChunks \<circ> snd) (sort_key fst (lp_fileInfoMap p'))
           in if status \<noteq> OK then Ok (status, ip, [], kept)
              else if lp_invalidSeqIds p' = [] then Ok (OK, ip, infos, kept)
              else case invalidation_entries timestamp (sort (lp_invalidSeqIds p')) of
                     Fail \<Rightarrow> Fail
                   | Abort \<Rightarrow> Abort
                   | Ok es \<Rightarrow> if le_appendOk env then Ok (OK, ip, infos, kept @ es)
                             else Ok (INVALID_LOG, ip, infos, kept)))"

end
