(* ===== verification/Log_Laws.thy ===== *)
theory Log_Laws
  imports Log_Parser Source_Queue_Laws
begin

text \<open>
  Correctness of the transfer log: entries survive the trip through the file, a log
  whose last entry was torn by a crash parses to the entries before it, the parser
  fails no check on any input, and what it reports refines an abstract log and is
  what the sender's queue expects of previously received chunks.
\<close>

section \<open>The wire format of entries\<close>

datatype LogEntry =
    LogHeader int string string int
  | FileCreation int string int int
  | BlockWrite int int int int
  | FileInvalidation int int
  | FileResize int int int
  | DirectoryInvalidation int

fun entry_type :: "LogEntry \<Rightarrow> EntryType" where
  "entry_type (LogHeader _ _ _ _) = HEADER"
| "entry_type (FileCreation _ _ _ _) = FILE_CREATION"
| "entry_type (BlockWrite _ _ _ _) = BLOCK_WRITE"
| "entry_type (FileInvalidation _ _) = FILE_INVALIDATION"
| "entry_type (FileResize _ _ _) = FILE_RESIZE"
| "entry_type (DirectoryInvalidation _) = DIRECTORY_INVALIDATION"

fun entry_body :: "LogEntry \<Rightarrow> bytes" where
  "entry_body (LogHeader ts rid ip config) =
     wire_u ts @ wire_u WLOG_VERSION @ wire_str rid @ wire_str ip @ wire_u config"
| "entry_body (FileCreation ts name seqId sz) = wire_u ts @ wire_str name @ wire_u seqId @ wire_u sz"
| "entry_body (BlockWrite ts seqId off sz) = wire_u ts @ wire_u seqId @ wire_u off @ wire_u sz"
| "entry_body (FileInvalidation ts seqId) = wire_u ts @ wire_u seqId"
| "entry_body (FileResize ts seqId sz) = wire_u ts @ wire_u seqId @ wire_u sz"
| "entry_body (DirectoryInvalidation ts) = wire_u ts"

definition entry_payload :: "LogEntry \<Rightarrow> bytes" where
  "entry_payload e = entryType_num (entry_type e) # entry_body e"

definition wire_entry :: "LogEntry \<Rightarrow> bytes" where
  "wire_entry e = le_bytes 2 (int (length (entry_payload e))) @ entry_payload e"

fun entry_values_ok :: "LogEntry \<Rightarrow> bool" where
  "entry_values_ok (LogHeader ts rid ip config) \<longleftrightarrow> nonneg_i64 ts \<and> short_string rid \<and> short_string ip \<and> nonneg_i64 config"
| "entry_values_ok (FileCreation ts name seqId sz) \<longleftrightarrow>
     nonneg_i64 ts \<and> short_string name \<and> nonneg_i64 seqId \<and> nonneg_i64 sz"
| "entry_values_ok (BlockWrite ts seqId off sz) \<longleftrightarrow> nonneg_i64 ts \<and> nonneg_i64 seqId \<and> nonneg_i64 off \<and> nonneg_i64 sz"
| "entry_values_ok (FileInvalidation ts seqId) \<longleftrightarrow> nonneg_i64 ts \<and> nonneg_i64 seqId"
| "entry_values_ok (FileResize ts seqId sz) \<longleftrightarrow> nonneg_i64 ts \<and> nonneg_i64 seqId \<and> nonneg_i64 sz"
| "entry_values_ok (DirectoryInvalidation ts) \<longleftrightarrow> nonneg_i64 ts"

definition ok_entry :: "LogEntry \<Rightarrow> bool" where
  "ok_entry e \<longleftrightarrow> entry_values_ok e \<and> int (length (entry_payload e)) + 2 \<le> kMaxEntryLength"

fun encode_log_entry :: "LogEntry \<Rightarrow> bytes \<Rightarrow> bytes outcome" where
  "encode_log_entry (LogHeader ts rid ip config) = encodeLogHeader ts rid ip config"
| "encode_log_entry (FileCreation ts name seqId sz) = encodeFileCreationEntry ts name seqId sz"
| "encode_log_entry (BlockWrite ts seqId off sz) = encodeBlockWriteEntry ts seqId off sz"
| "encode_log_entry (FileInvalidation ts seqId) = encodeFileInvalidationEntry ts seqId"
| "encode_log_entry (FileResize ts seqId sz) = encodeFileResizeEntry ts seqId sz"
| "encode_log_entry (DirectoryInvalidation ts) = encodeDirectoryInvalidationEntry ts"

lemma encode_entry_wire:
  assumes b: "enc_spec body bs" and room: "3 + length bs \<le> length dest"
  shows "encode_entry typ body dest = Ok (le_bytes 2 (1 + int (length bs)) @ entryType_num typ # bs)"
proof -
  define d where "d = dest[2 := entryType_num typ]"
  have "in_buffer (int (length dest)) d 3" using room by (simp add: in_buffer_def d_def)
  from enc_spec_fits [OF b this] have "body (int (length dest)) d 3 = (Ok (), write_at 3 bs d, 3 + int (length bs))"
    using room by simp
  moreover have "take (3 + length bs) (write_at 0 (le_bytes 2 (1 + int (length bs))) (write_at 3 bs d))
      = le_bytes 2 (1 + int (length bs)) @ entryType_num typ # bs"
  proof -
    have "drop 2 (take 3 d) = [entryType_num typ]"
      using room by (simp add: d_def take_Suc_conv_app_nth eval_nat_numeral)
    then show ?thesis using room by (simp add: write_at_def d_def eval_nat_numeral)
  qed
  ultimately show ?thesis using room
    by (simp add: encode_entry_def d_def nat_add_distrib)
qed

lemma encodeLogHeader_wire:
  assumes "0 \<le> ts" "0 \<le> config" "2 + length (entry_payload (LogHeader ts rid ip config)) \<le> length dest"
  shows "encodeLogHeader ts rid ip config dest = Ok (wire_entry (LogHeader ts rid ip config))"
proof -
  define bs where "bs = entry_body (LogHeader ts rid ip config)"
  define ptr where "ptr = (drop 2 dest)[0 := entryType_num HEADER]"
  let ?e = "enc_all [encodeVarI64C ts, encodeVarI64C WLOG_VERSION, encodeString rid, encodeString ip, encodeVarI64C config]"
  have room: "3 + length bs \<le> length dest" using assms(3) by (simp add: entry_payload_def bs_def)
  have "enc_spec ?e (concat [wire_u ts, wire_u WLOG_VERSION, wire_str rid, wire_str ip, wire_u config])"
    using assms(1,2) by (intro enc_spec_all) (simp add: enc_rules WLOG_VERSION_def)
  then have "enc_spec ?e bs" by (simp add: bs_def)
  moreover have "in_buffer (int (length dest) - 2) ptr 1" using room by (simp add: in_buffer_def ptr_def)
  ultimately have "?e (int (length dest) - 2) ptr 1 = (Ok (), write_at 1 bs ptr, 1 + int (length bs))"
    using enc_spec_fits room by fastforce
  moreover have "take (3 + length bs) (le_bytes 2 (1 + int (length bs)) @ write_at 1 bs ptr)
      = le_bytes 2 (1 + int (length bs)) @ entryType_num HEADER # bs"
  proof -
    have "take 1 ptr = [entryType_num HEADER]"
      using room by (cases "drop 2 dest") (auto simp: ptr_def)
    then show ?thesis using room by (simp add: write_at_def ptr_def eval_nat_numeral)
  qed
  ultimately show ?thesis using room
    by (simp add: encodeLogHeader_def ptr_def wire_entry_def entry_payload_def bs_def nat_add_distrib add.commute)
qed

lemma encode_log_entry_wire:
  assumes ok: "entry_values_ok e" and room: "2 + length (entry_payload e) \<le> length dest"
  shows "encode_log_entry e dest = Ok (wire_entry e)"
proof -
  have wire: "encode_entry (entry_type e) (enc_all es) dest = Ok (wire_entry e)"
    if "list_all2 enc_spec es bss" "concat bss = entry_body e" for es bss
    using encode_entry_wire [OF enc_spec_all [OF that(1)], of dest "entry_type e"] that(2) room
    by (simp add: entry_payload_def wire_entry_def)
  have nn: "0 \<le> v" if "nonneg_i64 v" for v using that by (simp add: nonneg_i64_def)
  show ?thesis
  proof (cases e)
    case (LogHeader ts rid ip config)
    then show ?thesis using encodeLogHeader_wire ok room nn by simp
  next
    case (FileCreation ts name seqId sz)
    then show ?thesis
      using wire [of _ "[wire_u ts, wire_str name, wire_u seqId, wire_u sz]"] ok nn
      by (simp add: encodeFileCreationEntry_def enc_rules del: enc_all.simps)
  next
    case (BlockWrite ts seqId off sz)
    then show ?thesis
      using wire [of _ "[wire_u ts, wire_u seqId, wire_u off, wire_u sz]"] ok nn
      by (simp add: encodeBlockWriteEntry_def enc_rules del: enc_all.simps)
  next
    case (FileInvalidation ts seqId)
    then show ?thesis using wire [of _ "[wire_u ts, wire_u seqId]"] ok nn
      by (simp add: encodeFileInvalidationEntry_def enc_rules del: enc_all.simps)
  next
    case (FileResize ts seqId sz)
    then show ?thesis using wire [of _ "[wire_u ts, wire_u seqId, wire_u sz]"] ok nn
      by (simp add: encodeFileResizeEntry_def enc_rules del: enc_all.simps)
  next
    case (DirectoryInvalidation ts)
    then show ?thesis using encode_entry_wire [OF encodeVarI64C_spec] ok nn room
      by (simp add: encodeDirectoryInvalidationEntry_def entry_payload_def wire_entry_def)
  qed
qed

section \<open>Replaying entries\<close>

text \<open>What the parser does for an entry, without the bytes.\<close>

fun replay_entry :: "log_env \<Rightarrow> LogEntry \<Rightarrow> string \<Rightarrow> LogParser \<Rightarrow> (ErrorCode \<times> string \<times> LogParser) outcome" where
  "replay_entry env (LogHeader ts rid ip' config) ip p =
     (case apply_header (ts, WLOG_VERSION, rid, ip', config) p of (st, p') \<Rightarrow> Ok (st, ip', p'))"
| "replay_entry env (FileCreation ts name seqId sz) ip p =
     (if \<not> lp_headerParsed p then Ok (INVALID_LOG, ip, p)
      else case apply_creation env (ts, name, seqId, sz) p of (st, p') \<Rightarrow> Ok (st, ip, p'))"
| "replay_entry env (BlockWrite ts seqId off sz) ip p =
     (if \<not> lp_headerParsed p then Ok (INVALID_LOG, ip, p)
      else case apply_block env (ts, seqId, off, sz) p of (st, p') \<Rightarrow> Ok (st, ip, p'))"
| "replay_entry env (FileInvalidation ts seqId) ip p =
     (if \<not> lp_headerParsed p then Ok (INVALID_LOG, ip, p)
      else case apply_invalidation env (ts, seqId) p of (st, p') \<Rightarrow> Ok (st, ip, p'))"
| "replay_entry env (FileResize ts seqId sz) ip p =
     (if \<not> lp_headerParsed p then Ok (INVALID_LOG, ip, p)
      else case apply_resize env (ts, seqId, sz) p of
             Ok (st, p') \<Rightarrow> Ok (st, ip, p') | Fail \<Rightarrow> Fail | Abort \<Rightarrow> Abort)"
| "replay_entry env (DirectoryInvalidation ts) ip p =
     (case apply_directory_invalidation ts p of (st, p') \<Rightarrow> Ok (st, ip, p'))"

lemma decode_whole_wire: "dec_spec dec bs x \<Longrightarrow> decode_whole dec bs = Some x"
  using dec_specD [of dec bs x "[]"] by (simp add: decode_whole_def)

lemma nonneg_version [simp]: "nonneg_i32 WLOG_VERSION"
  by (simp add: nonneg_i32_def WLOG_VERSION_def)

lemma decode_bodies:
  "entry_values_ok (LogHeader ts rid ip config) \<Longrightarrow>
     decodeLogHeader (entry_body (LogHeader ts rid ip config)) = Some (ts, WLOG_VERSION, rid, ip, config)"
  "entry_values_ok (FileCreation ts name seqId sz) \<Longrightarrow>
     decodeFileCreationEntry (entry_body (FileCreation ts name seqId sz)) = Some (ts, name, seqId, sz)"
  "entry_values_ok (BlockWrite ts seqId off sz) \<Longrightarrow>
     decodeBlockWriteEntry (entry_body (BlockWrite ts seqId off sz)) = Some (ts, seqId, off, sz)"
  "entry_values_ok (FileInvalidation ts seqId) \<Longrightarrow>
     decodeFileInvalidationEntry (entry_body (FileInvalidation ts seqId)) = Some (ts, seqId)"
  "entry_values_ok (FileResize ts seqId sz) \<Longrightarrow>
     decodeFileResizeEntry (entry_body (FileResize ts seqId sz)) = Some (ts, seqId, sz)"
  "entry_values_ok (DirectoryInvalidation ts) \<Longrightarrow>
     decodeDirectoryInvalidationEntry (entry_body (DirectoryInvalidation ts)) = Some ts"
  unfolding decodeLogHeader_def decodeFileCreationEntry_def decodeBlockWriteEntry_def
    decodeFileInvalidationEntry_def decodeFileResizeEntry_def decodeDirectoryInvalidationEntry_def
  by (rule decode_whole_wire, simp add: dec_spec_def dec_simps)+

lemma process_entry_wire:
  assumes "ok_entry e"
  shows "process_entry env (hd (entry_payload e)) (tl (entry_payload e)) ip p = replay_entry env e ip p"
proof (cases e)
  case (LogHeader ts rid ip' config)
  have "int (length (entry_body e)) \<le> kMaxEntryLength - 1"
    using assms by (simp add: ok_entry_def entry_payload_def)
  then show ?thesis using assms LogHeader decode_bodies(1) [of ts rid ip' config]
    by (simp add: process_entry_def processHeaderEntry_def ok_entry_def entry_payload_def
        del: entry_body.simps split: prod.splits)
qed (use assms decode_bodies in \<open>simp add: process_entry_def ok_entry_def entry_payload_def
    processFileCreationEntry_def processBlockWriteEntry_def processFileInvalidationEntry_def
    processFileResizeEntry_def processDirectoryInvalidationEntry_def del: entry_body.simps
    split: prod.splits outcome.splits\<close>)+

lemma length_payload: "ok_entry e \<Longrightarrow> 0 < int (length (entry_payload e)) \<and> int (length (entry_payload e)) \<le> kMaxEntryLength"
  by (simp add: ok_entry_def entry_payload_def)

lemma entry_size_wire:
  assumes "ok_entry e"
  shows "signed_value 2 (le_value (le_bytes 2 (int (length (entry_payload e))))) = int (length (entry_payload e))"
proof -
  have "int (length (entry_payload e)) < 2 ^ 15"
    using length_payload [OF assms] by (simp add: kMaxEntryLength_def PATH_MAX_def)
  then show ?thesis using le_value_le_bytes [of "int (length (entry_payload e))" 2]
    by (simp add: signed_value_def)
qed

text \<open>The read loop on entries instead of bytes.\<close>

fun replay :: "log_env \<Rightarrow> LogEntry list \<Rightarrow> ErrorCode \<Rightarrow> string \<Rightarrow> LogParser \<Rightarrow>
    (ErrorCode option \<times> string \<times> LogParser) outcome" where
  "replay env [] status ip p = Ok (Some status, ip, p)"
| "replay env (e # es) status ip p =
     (if status = INCONSISTENT_DIRECTORY \<and> entry_type e \<noteq> HEADER then replay env es status ip p
      else case replay_entry env e ip p of
             Fail \<Rightarrow> Fail
           | Abort \<Rightarrow> Abort
           | Ok (st, ip', p') \<Rightarrow>
               if st = INVALID_LOG then Ok (None, ip', p')
               else replay env es st ip' (if st = INCONSISTENT_DIRECTORY then clearParsedData p' else p'))"

lemma entryType_num_HEADER: "entryType_num t = entryType_num HEADER \<longleftrightarrow> t = HEADER"
  by (cases t) simp_all

lemma replay_entry_not_Fail: "replay_entry env e ip p \<noteq> Fail"
  by (cases e) (auto simp: apply_resize_def split: prod.splits outcome.splits option.splits)

lemma parse_loop_entry:
  assumes ok: "ok_entry e" and reads: "\<not> le_readFails env n" "\<not> le_readFails env (n + 1)"
  shows "parse_loop env n (wire_entry e @ tail) status ip p =
    (if status = INCONSISTENT_DIRECTORY \<and> entry_type e \<noteq> HEADER then parse_loop env (n + 2) tail status ip p
     else case replay_entry env e ip p of
            Fail \<Rightarrow> Fail | Abort \<Rightarrow> Abort
          | Ok (st, ip', p') \<Rightarrow>
              if st = INVALID_LOG then Ok (Invalid_log, ip', p')
              else parse_loop env (n + 2) tail st ip' (if st = INCONSISTENT_DIRECTORY then clearParsedData p' else p'))"
proof -
  let ?L = "int (length (entry_payload e))"
  have ne: "entry_payload e \<noteq> []" by (simp add: entry_payload_def)
  have w: "take 2 (wire_entry e @ tail) = le_bytes 2 ?L" "drop 2 (wire_entry e @ tail) = entry_payload e @ tail"
    "length (wire_entry e @ tail) = 2 + length (entry_payload e @ tail)" "wire_entry e @ tail \<noteq> []"
    by (simp_all add: wire_entry_def ne)
  have hd: "hd (entry_payload e) = entryType_num (entry_type e)" by (simp add: entry_payload_def)
  note len = length_payload [OF ok] and proc = process_entry_wire [OF ok, unfolded hd] and nf = replay_entry_not_Fail [of env e ip p]
  have tk: "take (nat ?L) (entry_payload e @ tail) = entry_payload e" "drop (nat ?L) (entry_payload e @ tail) = tail"
    by simp_all
  have guards: "\<not> 2 + length (entry_payload e @ tail) < 2" "\<not> (?L \<le> 0 \<or> ?L > kMaxEntryLength)"
    "\<not> int (length (entry_payload e @ tail)) < ?L" using len by auto
  have "parse_loop env n (wire_entry e @ tail) status ip p =
      (if status = INCONSISTENT_DIRECTORY \<and> entry_type e \<noteq> HEADER then parse_loop env (n + 2) tail status ip p
       else case replay_entry env e ip p of
              Fail \<Rightarrow> Ok (Invalid_log, ip, p) | Abort \<Rightarrow> Abort
            | Ok (st, ip', p') \<Rightarrow>
                if st = INVALID_LOG then Ok (Invalid_log, ip', p')
                else parse_loop env (n + 2) tail st ip' (if st = INCONSISTENT_DIRECTORY then clearParsedData p' else p'))"
    unfolding parse_loop.simps [of env n "wire_entry e @ tail"] w entry_size_wire [OF ok] Let_def tk proc hd
      entryType_num_HEADER by (simp only: guards reads w if_False)
  then show ?thesis using nf by (cases "replay_entry env e ip p") simp_all
qed

text \<open>A torn write: a proper beginning of an entry.\<close>

definition torn :: "bytes \<Rightarrow> bool" where
  "torn bs \<longleftrightarrow> (\<exists>e rest. ok_entry e \<and> wire_entry e = bs @ rest \<and> rest \<noteq> [])"

lemma parse_loop_torn:
  assumes "torn bs" "\<And>k. \<not> le_readFails env k" "\<not> lp_parseOnly p" "le_truncateOk env"
  shows "parse_loop env n bs status ip p = Ok (Log_end status (int (length bs)), ip, p)"
proof -
  obtain e rest where e: "ok_entry e" "wire_entry e = bs @ rest" "rest \<noteq> []" using assms(1) by (auto simp: torn_def)
  let ?P = "entry_payload e"
  show ?thesis
  proof (cases "length bs < 2")
    case True
    then show ?thesis using assms(2-4) by (auto simp: parse_loop.simps)
  next
    case False
    define us where "us = drop 2 bs"
    have "take 2 (wire_entry e) = take 2 bs" "drop 2 (wire_entry e) = us @ rest"
      using False e(2) by (simp_all add: us_def)
    then have t: "take 2 bs = le_bytes 2 (int (length ?P))" "drop 2 bs = us" "length bs = 2 + length us"
      and us: "?P = us @ rest" using False by (simp_all add: wire_entry_def us_def)
    have "int (length us) < int (length ?P)" using us e(3) by simp
    then show ?thesis
      unfolding parse_loop.simps [of env n bs] t entry_size_wire [OF e(1)] Let_def
      using assms(2-4) length_payload [OF e(1)] False by auto
  qed
qed

lemma replay_entry_parseOnly: "replay_entry env e ip p = Ok (st, ip', p') \<Longrightarrow> lp_parseOnly p' = lp_parseOnly p"
  by (cases e) (auto simp: apply_header_def apply_creation_def apply_block_def apply_invalidation_def apply_resize_def
      apply_directory_invalidation_def split: if_splits option.splits outcome.splits prod.splits)

lemma clearParsedData_parseOnly [simp]: "lp_parseOnly (clearParsedData p) = lp_parseOnly p"
  by (simp add: clearParsedData_def)

definition log_tail :: "bytes \<Rightarrow> bool" where
  "log_tail bs \<longleftrightarrow> bs = [] \<or> torn bs"

lemma parse_loop_replay:
  assumes "\<forall>e \<in> set es. ok_entry e" "log_tail bs" "\<And>k. \<not> le_readFails env k" "\<not> lp_parseOnly p" "le_truncateOk env"
  shows "parse_loop env n (concat (map wire_entry es) @ bs) status ip p =
    (case replay env es status ip p of
       Ok (Some st, ip', p') \<Rightarrow> Ok (Log_end st (int (length bs)), ip', p')
     | Ok (None, ip', p') \<Rightarrow> Ok (Invalid_log, ip', p')
     | Fail \<Rightarrow> Fail | Abort \<Rightarrow> Abort)"
  using assms(1,4)
proof (induction es arbitrary: n status ip p)
  case Nil
  then show ?case using assms(2,3,5) parse_loop_torn [of bs env p]
    by (auto simp: log_tail_def parse_loop.simps [of _ _ "[]"])
next
  case (Cons e es)
  have ok: "ok_entry e" "\<forall>e \<in> set es. ok_entry e" using Cons.prems(1) by simp_all
  have step: "parse_loop env n (concat (map wire_entry (e # es)) @ bs) status ip p =
    (if status = INCONSISTENT_DIRECTORY \<and> entry_type e \<noteq> HEADER
     then parse_loop env (n + 2) (concat (map wire_entry es) @ bs) status ip p
     else case replay_entry env e ip p of
            Fail \<Rightarrow> Fail | Abort \<Rightarrow> Abort
          | Ok (st, ip', p') \<Rightarrow>
              if st = INVALID_LOG then Ok (Invalid_log, ip', p')
              else parse_loop env (n + 2) (concat (map wire_entry es) @ bs) st ip'
                (if st = INCONSISTENT_DIRECTORY then clearParsedData p' else p'))"
    using parse_loop_entry [OF ok(1) assms(3) assms(3)] by simp
  show ?case
  proof (cases "status = INCONSISTENT_DIRECTORY \<and> entry_type e \<noteq> HEADER")
    case True
    then show ?thesis unfolding step using Cons.IH [OF ok(2) Cons.prems(2)] by simp
  next
    case False
    show ?thesis
    proof (cases "replay_entry env e ip p")
      case (Ok r)
      obtain st ip' p' where r: "r = (st, ip', p')" by (cases r)
      have "\<not> lp_parseOnly p'" using replay_entry_parseOnly [of env e ip p st ip' p'] Ok r Cons.prems(2) by simp
      then have "\<not> lp_parseOnly (if st = INCONSISTENT_DIRECTORY then clearParsedData p' else p')" by simp
      from Cons.IH [OF ok(2) this] show ?thesis unfolding step using False Ok r by auto
    qed (unfold step, use False in auto)
  qed
qed

text \<open>The log a writer produces with its entry buffer.\<close>

definition written_log :: "bytes \<Rightarrow> LogEntry list \<Rightarrow> bytes" where
  "written_log buf es = concat (map (\<lambda>e. case encode_log_entry e buf of Ok bs \<Rightarrow> bs | _ \<Rightarrow> []) es)"

lemma written_log_wire:
  assumes "int (length buf) = kMaxEntryLength" "\<forall>e \<in> set es. ok_entry e"
  shows "written_log buf es = concat (map wire_entry es)"
proof -
  have "encode_log_entry e buf = Ok (wire_entry e)" if "e \<in> set es" for e
    using encode_log_entry_wire [of e buf] assms that by (auto simp: ok_entry_def)
  then have "map (\<lambda>e. case encode_log_entry e buf of Ok bs \<Rightarrow> bs | _ \<Rightarrow> []) es = map wire_entry es" by simp
  then show ?thesis by (simp only: written_log_def)
qed

section \<open>The parser's invariant\<close>

definition info_ok :: "FileChunksInfo \<Rightarrow> bool" where
  "info_ok f \<longleftrightarrow> (\<forall>c \<in> set (fc_chunks f). valid_chunk c \<and> 0 \<le> chunkStart c \<and> chunkEnd c \<le> fc_fileSize f)"

definition parser_inv :: "LogParser \<Rightarrow> bool" where
  "parser_inv p \<longleftrightarrow> distinct (map fst (lp_fileInfoMap p)) \<and>
     (\<forall>k f. map_of (lp_fileInfoMap p) k = Some f \<longrightarrow> fc_seqId f = k \<and> info_ok f \<and> nonneg_i64 k) \<and>
     dom (map_of (lp_fileInfoMap p)) \<subseteq> dom (map_of (lp_seqIdToSizeMap p)) \<and>
     (\<forall>k \<in> set (lp_invalidSeqIds p). nonneg_i64 k)"

lemma parser_inv_simps [simp]:
  "parser_inv (newParser root rid config parseOnly)" "parser_inv (clearParsedData p)"
  "parser_inv (p\<lparr>lp_headerParsed := b\<rparr>) = parser_inv p"
  by (simp_all add: parser_inv_def newParser_def clearParsedData_def)

lemma map_of_emplace: "map_of (emplace k v m) = (if map_of m k = None then (map_of m)(k \<mapsto> v) else map_of m)"
  by (auto simp: emplace_def map_of_eq_None_iff)

lemma apply_header_inv: "apply_header e p = (st, p') \<Longrightarrow> parser_inv p \<Longrightarrow> parser_inv p'"
  by (auto simp: apply_header_def split: prod.splits if_splits)

lemma parser_inv_invalid:
  "parser_inv p \<Longrightarrow> nonneg_i64 k \<Longrightarrow> parser_inv (p\<lparr>lp_invalidSeqIds := List.insert k (lp_invalidSeqIds p)\<rparr>)"
  by (simp add: parser_inv_def)

lemma parser_inv_new_file:
  assumes "parser_inv p" "nonneg_i64 k" "k \<notin> fst ` set (lp_fileInfoMap p)"
  shows "parser_inv (p\<lparr>lp_fileInfoMap := emplace k \<lparr>fc_seqId = k, fc_fileName = name, fc_fileSize = d, fc_chunks = []\<rparr>
           (lp_fileInfoMap p), lp_seqIdToSizeMap := emplace k sz (lp_seqIdToSizeMap p)\<rparr>)"
proof -
  have new: "emplace k v (lp_fileInfoMap p) = (k, v) # lp_fileInfoMap p" for v using assms(3) by (simp add: emplace_def)
  have "dom (map_of (emplace k sz m)) = insert k (dom (map_of m))" for m by (auto simp: map_of_emplace)
  then show ?thesis using assms unfolding new parser_inv_def
    by (simp add: info_ok_def subset_insertI2 del: dom_map_of_conv_image_fst)
qed

lemma parser_inv_resize:
  "parser_inv p \<Longrightarrow> parser_inv (p\<lparr>lp_seqIdToSizeMap := AList.update k sz (lp_seqIdToSizeMap p)\<rparr>)"
  by (auto simp: parser_inv_def update_conv' simp del: dom_map_of_conv_image_fst)

lemma parser_inv_block:
  assumes p: "parser_inv p" "map_of (lp_fileInfoMap p) k = Some f" and b: "0 \<le> off" "0 \<le> sz" "off + sz \<le> fc_fileSize f"
  shows "parser_inv (p\<lparr>lp_fileInfoMap := AList.update k (addChunk (mkInterval off (off + sz)) f) (lp_fileInfoMap p)\<rparr>)"
proof -
  have f: "fc_seqId f = k" "info_ok f" "nonneg_i64 k" "k \<in> dom (map_of (lp_seqIdToSizeMap p))"
    using p unfolding parser_inv_def by blast+
  have "info_ok (addChunk (mkInterval off (off + sz)) f)"
    using f(2) b by (auto simp: info_ok_def addChunk_def valid_chunk_def)
  then show ?thesis using p(1) f
    by (simp add: parser_inv_def update_conv' distinct_update addChunk_def del: dom_map_of_conv_image_fst)
qed

lemma apply_creation_inv:
  "apply_creation env (ts, name, seqId, sz) p = (st, p') \<Longrightarrow> parser_inv p \<Longrightarrow> nonneg_i64 seqId \<Longrightarrow> parser_inv p'"
  using parser_inv_invalid [of p seqId] parser_inv_new_file [of p seqId]
  by (auto simp: apply_creation_def simp del: image_iff in_set_insert split: if_splits option.splits)

lemma apply_resize_inv:
  assumes "parser_inv p"
  shows "\<exists>st p'. apply_resize env (ts, seqId, sz) p = Ok (st, p') \<and> parser_inv p'"
proof (cases "map_of (lp_fileInfoMap p) seqId")
  case (Some f)
  then obtain old where "map_of (lp_seqIdToSizeMap p) seqId = Some old"
    using assms unfolding parser_inv_def by blast
  then show ?thesis using Some assms parser_inv_resize [OF assms] by (simp add: apply_resize_def)
qed (simp add: apply_resize_def assms)

lemma apply_block_inv:
  assumes "apply_block env (ts, seqId, off, sz) p = (st, p')" "parser_inv p" "0 \<le> off" "0 \<le> sz"
  shows "parser_inv p'"
proof (cases "map_of (lp_fileInfoMap p) seqId")
  case (Some f)
  then show ?thesis using assms parser_inv_block [OF assms(2) Some assms(3,4)]
    by (auto simp: apply_block_def split: if_splits)
qed (use assms in \<open>auto simp: apply_block_def split: if_splits\<close>)

lemma parser_inv_delete:
  assumes "parser_inv p"
  shows "parser_inv (p\<lparr>lp_fileInfoMap := AList.delete k (lp_fileInfoMap p),
           lp_invalidSeqIds := removeAll k (lp_invalidSeqIds p)\<rparr>)"
proof -
  have "dom (map_of (AList.delete k m)) \<subseteq> dom (map_of m)" for m :: "(int \<times> FileChunksInfo) list"
    by (auto simp: delete_conv' split: if_splits)
  then show ?thesis using assms
    by (simp add: parser_inv_def distinct_delete delete_conv' del: dom_map_of_conv_image_fst) fast
qed

lemma apply_invalidation_inv:
  "apply_invalidation env (ts, seqId) p = (st, p') \<Longrightarrow> parser_inv p \<Longrightarrow> parser_inv p'"
  using parser_inv_delete [of p seqId] by (auto simp: apply_invalidation_def simp del: image_iff split: if_splits)

lemma apply_directory_invalidation_inv:
  "apply_directory_invalidation ts p = (st, p') \<Longrightarrow> parser_inv p \<Longrightarrow> parser_inv p'"
  by (auto simp: apply_directory_invalidation_def split: if_splits)

lemma decoded_ranges:
  "decodeFileCreationEntry buf = Some (ts, name, seqId, sz) \<Longrightarrow> nonneg_i64 seqId \<and> nonneg_i64 sz"
  "decodeBlockWriteEntry buf = Some (ts, seqId, off, sz) \<Longrightarrow> nonneg_i64 seqId \<and> nonneg_i64 off \<and> nonneg_i64 sz"
  by (auto simp: decodeFileCreationEntry_def decodeBlockWriteEntry_def decode_whole_def dec_ret_def
      elim!: dec_bind_Ok_E dest: decodeInt64C_range split: prod.splits outcome.splits list.splits)

lemma process_entry_inv:
  assumes "parser_inv p"
  shows "process_entry env typ buf ip p \<noteq> Abort"
    and "process_entry env typ buf ip p = Ok (st, ip', p') \<Longrightarrow> parser_inv p'"
proof -
  have h: "parser_inv p'" if "processHeaderEntry mx buf ip p = (st, ip', p')" for mx st ip' p'
    using that assms apply_header_inv by (auto simp: processHeaderEntry_def split: if_splits option.splits prod.splits)
  have c: "parser_inv p'" if "processFileCreationEntry env buf p = (st, p')" for st p'
    using that assms apply_creation_inv decoded_ranges(1)
    by (auto simp: processFileCreationEntry_def split: if_splits option.splits)
  have b: "parser_inv p'" if "processBlockWriteEntry env buf p = (st, p')" for st p'
    using that assms apply_block_inv decoded_ranges(2)
    by (auto simp: processBlockWriteEntry_def nonneg_i64_def split: if_splits option.splits)
  have i: "parser_inv p'" if "processFileInvalidationEntry env buf p = (st, p')" for st p'
    using that assms apply_invalidation_inv
    by (auto simp: processFileInvalidationEntry_def split: if_splits option.splits)
  have d: "parser_inv p'" if "processDirectoryInvalidationEntry buf p = (st, p')" for st p'
    using that assms apply_directory_invalidation_inv
    by (auto simp: processDirectoryInvalidationEntry_def split: option.splits)
  have r: "\<exists>st p'. processFileResizeEntry env buf p = Ok (st, p') \<and> parser_inv p'"
    using assms apply_resize_inv [OF assms] by (auto simp: processFileResizeEntry_def split: option.splits)
  show "process_entry env typ buf ip p \<noteq> Abort" using r by (auto simp: process_entry_def Let_def)
  show "process_entry env typ buf ip p = Ok (st, ip', p') \<Longrightarrow> parser_inv p'"
    using r by (auto simp: process_entry_def Let_def h split: if_splits prod.splits dest: c b i d h)
qed

text \<open>On any bytes the loop returns, and the maps it leaves satisfy the invariant.\<close>

lemma parse_loop_inv:
  assumes "parser_inv p"
  shows "\<exists>e ip' p'. parse_loop env n content status ip p = Ok (e, ip', p') \<and> parser_inv p'"
  using assms
proof (induction env n content status ip p rule: parse_loop.induct)
  case (1 env n content status ip p)
  define rest entry where "rest = drop 2 content"
    and "entry = take (nat (signed_value 2 (le_value (take 2 content)))) rest"
  show ?case
  proof (cases "process_entry env (hd entry) (tl entry) ip p")
    case (Ok r)
    obtain st ip' p' where r: "r = (st, ip', p')" by (cases r)
    have "parser_inv p'" using process_entry_inv(2) [OF "1.prems"] Ok r by simp
    then have "parser_inv (if st = INCONSISTENT_DIRECTORY then clearParsedData p' else p')" by simp
    then show ?thesis using "1.prems" "1.IH" Ok r
      by (subst parse_loop.simps) (auto simp: Let_def entry_def rest_def)
  next
    case Fail
    then show ?thesis using "1.prems" "1.IH"(1)
      by (subst parse_loop.simps) (auto simp: Let_def entry_def rest_def)
  qed (use process_entry_inv(1) [OF "1.prems"] in simp)
qed

section \<open>Parsing any bytes\<close>

lemma merge_loop_bounds:
  "\<forall>c \<in> set (merged @ cur # cs). lo \<le> chunkStart c \<and> chunkEnd c \<le> hi \<Longrightarrow>
   c \<in> set (merge_loop merged cur cs) \<Longrightarrow> lo \<le> chunkStart c \<and> chunkEnd c \<le> hi"
  by (induction merged cur cs rule: merge_loop.induct) (auto split: if_splits)

lemma wf_received_merge:
  assumes "info_ok f"
  shows "wf_received (mergeChunks f)"
proof -
  have valid: "\<forall>c \<in> set (fc_chunks f). valid_chunk c" using assms by (simp add: info_ok_def)
  have "0 \<le> chunkStart c \<and> chunkEnd c \<le> fc_fileSize f" if c: "c \<in> set (merge_chunk_list (fc_chunks f))" for c
  proof (cases "sort_key chunkStart (fc_chunks f)")
    case (Cons d ds)
    then have "set (d # ds) = set (fc_chunks f)" by (metis set_sort)
    then have "\<forall>c \<in> set ([] @ d # ds). 0 \<le> chunkStart c \<and> chunkEnd c \<le> fc_fileSize f"
      using assms by (auto simp: info_ok_def)
    from merge_loop_bounds [OF this] show ?thesis using c Cons by (simp add: merge_chunk_list_def)
  qed (use c in \<open>simp add: merge_chunk_list_def\<close>)
  then show ?thesis using merge_chunk_list_separated [OF valid] by (simp add: wf_received_def mergeChunks_def)
qed

lemma invalidation_entries_wire:
  assumes "nonneg_i64 ts" "\<forall>k \<in> set ks. nonneg_i64 k"
  shows "invalidation_entries ts ks = Ok (concat (map (\<lambda>k. wire_entry (FileInvalidation ts k)) ks))"
  using assms(2)
proof (induction ks)
  case (Cons k ks)
  have "2 + length (entry_payload (FileInvalidation ts k)) \<le> length entry_buf"
    using length_wire_u(2) [of ts] length_wire_u(2) [of k]
    by (simp add: entry_payload_def kMaxEntryLength_def PATH_MAX_def)
  from encode_log_entry_wire [OF _ this] show ?case using Cons assms(1) by simp
qed simp

definition parsed_infos :: "LogParser \<Rightarrow> FileChunksInfo list" where
  "parsed_infos p = map (mergeChunks \<circ> snd) (sort_key fst (lp_fileInfoMap p))"

lemma parsed_infos_wf:
  assumes "parser_inv p"
  shows "distinct (map fc_seqId (parsed_infos p)) \<and> (\<forall>f \<in> set (parsed_infos p). wf_received f)"
proof -
  have in_map: "fc_seqId f = k \<and> info_ok f" if "(k, f) \<in> set (lp_fileInfoMap p)" for k f
    using assms that unfolding parser_inv_def by (meson map_of_is_SomeI)
  then have "map fc_seqId (parsed_infos p) = map fst (sort_key fst (lp_fileInfoMap p))"
    by (auto simp: parsed_infos_def mergeChunks_def)
  moreover have "distinct (map fst (sort_key fst (lp_fileInfoMap p)))"
    using assms by (simp add: parser_inv_def distinct_map inj_on_def)
  ultimately have "distinct (map fc_seqId (parsed_infos p))" by (simp only:)
  moreover have "wf_received f" if "f \<in> set (parsed_infos p)" for f
    using that in_map wf_received_merge by (auto simp: parsed_infos_def)
  ultimately show ?thesis by blast
qed

text \<open>What \<open>parseLog\<close> returns after its loop.\<close>

fun parse_result :: "log_env \<Rightarrow> int \<Rightarrow> bytes \<Rightarrow> parse_end \<Rightarrow> string \<Rightarrow> LogParser \<Rightarrow>
    ErrorCode \<times> string \<times> FileChunksInfo list \<times> bytes" where
  "parse_result env ts content Invalid_log ip p = (INVALID_LOG, ip, [], content)"
| "parse_result env ts content (Log_end status extra) ip p =
     (let kept = take (length content - nat extra) content
      in if status \<noteq> OK then (status, ip, [], kept)
         else if lp_invalidSeqIds p = [] then (OK, ip, parsed_infos p, kept)
         else if le_appendOk env
         then (OK, ip, parsed_infos p,
               kept @ concat (map (\<lambda>k. wire_entry (FileInvalidation ts k)) (sort (lp_invalidSeqIds p))))
         else (INVALID_LOG, ip, parsed_infos p, kept))"

lemma parseLog_result:
  assumes "parse_loop env 0 content OK ip p = Ok (e, ip', p')" "parser_inv p'" "nonneg_i64 ts"
  shows "parseLog env ts content ip p = Ok (parse_result env ts content e ip' p')"
proof -
  have "invalidation_entries ts (sort (lp_invalidSeqIds p')) =
      Ok (concat (map (\<lambda>k. wire_entry (FileInvalidation ts k)) (sort (lp_invalidSeqIds p'))))"
    using invalidation_entries_wire [OF assms(3)] assms(2) by (simp add: parser_inv_def)
  then show ?thesis by (cases e) (simp_all add: parseLog_def assms(1) Let_def parsed_infos_def)
qed


section \<open>Crash recovery\<close>

lemma replay_entry_inv:
  assumes "parser_inv p" "ok_entry e" "replay_entry env e ip p = Ok (st, ip', p')"
  shows "parser_inv p'"
  using process_entry_inv(2) [OF assms(1)] process_entry_wire [OF assms(2)] assms(3) by metis

lemma replay_inv:
  assumes "parser_inv p" "\<forall>e \<in> set es. ok_entry e"
  shows "\<exists>r ip' p'. replay env es status ip p = Ok (r, ip', p') \<and> parser_inv p'"
  using assms
proof (induction es arbitrary: status ip p)
  case (Cons e es)
  have "replay_entry env e ip p \<noteq> Abort"
    using process_entry_inv(1) [OF Cons.prems(1)] process_entry_wire Cons.prems(2) by (metis list.set_intros(1))
  then obtain st ip' p' where s: "replay_entry env e ip p = Ok (st, ip', p')"
    using replay_entry_not_Fail by (metis outcome.exhaust prod_cases3)
  have "parser_inv p'" using replay_entry_inv [OF Cons.prems(1) _ s] Cons.prems(2) by simp
  then have "parser_inv (if st = INCONSISTENT_DIRECTORY then clearParsedData p' else p')" by simp
  then show ?case using s \<open>parser_inv p'\<close> Cons.IH [OF _ ] Cons.prems by simp
qed simp

lemma parseLog_written:
  assumes "int (length buf) = kMaxEntryLength" "\<forall>e \<in> set es. ok_entry e" "log_tail bs"
    "\<And>k. \<not> le_readFails env k" "le_truncateOk env" "nonneg_i64 ts"
    "replay env es OK ip (newParser root rid config False) = Ok (r, ip', p')"
  shows "parseLog env ts (written_log buf es @ bs) ip (newParser root rid config False) =
    Ok (parse_result env ts (written_log buf es @ bs)
          (case r of Some st \<Rightarrow> Log_end st (int (length bs)) | None \<Rightarrow> Invalid_log) ip' p')"
proof -
  have "\<not> lp_parseOnly (newParser root rid config False)" by (simp add: newParser_def)
  from parse_loop_replay [OF assms(2,3,4) this assms(5), where n = 0 and status = OK and ip = ip]
  have "parse_loop env 0 (written_log buf es @ bs) OK ip (newParser root rid config False) =
      Ok (case r of Some st \<Rightarrow> Log_end st (int (length bs)) | None \<Rightarrow> Invalid_log, ip', p')"
    using assms(7) by (cases r) (simp_all add: written_log_wire [OF assms(1,2)])
  then show ?thesis using replay_inv [OF parser_inv_simps(1) assms(2)] assms(6,7)
    by (metis outcome.inject prod.inject parseLog_result)
qed

text \<open>C27: a crash in the middle of a write is harmless. A log whose last entry was torn
  parses to the same status, the same sender address and the same files as the log
  without it, and unless the log is invalid, in which case it is left as it is, the
  call leaves the same log behind: the torn bytes are cut off.\<close>

theorem torn_write_ignored:
  assumes "int (length buf) = kMaxEntryLength" "\<forall>e \<in> set es. ok_entry e" "torn bs"
    "\<And>k. \<not> le_readFails env k" "le_truncateOk env" "nonneg_i64 ts"
  shows "\<exists>st ip' infos log log'.
    parseLog env ts (written_log buf es) ip (newParser root rid config False) = Ok (st, ip', infos, log) \<and>
    parseLog env ts (written_log buf es @ bs) ip (newParser root rid config False) = Ok (st, ip', infos, log') \<and>
    (st \<noteq> INVALID_LOG \<longrightarrow> log' = log)"
proof -
  obtain r ip' p' where p': "replay env es OK ip (newParser root rid config False) = Ok (r, ip', p')"
    using replay_inv [OF parser_inv_simps(1) assms(2)] by meson
  have tails: "log_tail bs" "log_tail []" using assms(3) by (simp_all add: log_tail_def)
  note parse = parseLog_written [OF assms(1,2) _ assms(4-6) p']
  show ?thesis
    using parse [OF tails(1)] parse [OF tails(2)] by (cases r) (auto simp: Let_def)
qed

section \<open>The abstract log\<close>

text \<open>
  What the log means to a resuming receiver: for each file id the name of the file and
  the bytes of it that are on disk, or nothing at all (\<open>None\<close>) after an entry that
  says the directory cannot be used, until the next header.
\<close>

type_synonym received_files = "int \<rightharpoonup> (string \<times> int set)"

definition usable_on_disk :: "log_env \<Rightarrow> string \<Rightarrow> string \<Rightarrow> int \<Rightarrow> bool" where
  "usable_on_disk env root name sz =
     (case le_stat env (root @ name) of None \<Rightarrow> False | Some d \<Rightarrow> le_preallocate env \<longrightarrow> sz \<le> d)"

fun absorb :: "log_env \<Rightarrow> string \<Rightarrow> string \<Rightarrow> int \<Rightarrow> LogEntry \<Rightarrow> received_files option \<Rightarrow> received_files option" where
  "absorb env root rid config (LogHeader ts rid' ip config') s =
     (if rid' = rid \<and> config' = config then Some (case s of None \<Rightarrow> Map.empty | Some m \<Rightarrow> m) else None)"
| "absorb env root rid config (FileCreation ts name k sz) s =
     map_option (\<lambda>m. if usable_on_disk env root name sz then m(k \<mapsto> (name, {})) else m) s"
| "absorb env root rid config (BlockWrite ts k off sz) s =
     map_option (\<lambda>m. case m k of None \<Rightarrow> m | Some (name, bs) \<Rightarrow> m(k \<mapsto> (name, bs \<union> {off ..< off + sz}))) s"
| "absorb env root rid config (FileInvalidation ts k) s = map_option (\<lambda>m. m(k := None)) s"
| "absorb env root rid config (FileResize ts k sz) s = s"
| "absorb env root rid config (DirectoryInvalidation ts) s = None"

definition abs_file :: "FileChunksInfo \<Rightarrow> string \<times> int set" where
  "abs_file f = (fc_fileName f, covered (fc_chunks f))"

definition abs_parser :: "ErrorCode \<Rightarrow> LogParser \<Rightarrow> received_files option" where
  "abs_parser status p =
     (if status = INCONSISTENT_DIRECTORY then None else Some (\<lambda>k. map_option abs_file (map_of (lp_fileInfoMap p) k)))"

text \<open>The parser between two entries: nothing is known of a directory it cannot use, and an id is
  never both a known file and an invalid one.\<close>

definition parser_state_ok :: "string \<Rightarrow> string \<Rightarrow> int \<Rightarrow> ErrorCode \<Rightarrow> LogParser \<Rightarrow> bool" where
  "parser_state_ok root rid config status p \<longleftrightarrow>
     parser_inv p \<and> \<not> lp_parseOnly p \<and> lp_rootDir p = root \<and> lp_recoveryId p = rid \<and> lp_config p = config \<and>
     (\<forall>k \<in> set (lp_invalidSeqIds p). map_of (lp_fileInfoMap p) k = None) \<and>
     status \<in> {OK, INCONSISTENT_DIRECTORY} \<and>
     (status = INCONSISTENT_DIRECTORY \<longrightarrow> lp_fileInfoMap p = [])"

lemma abs_parser_OK: "abs_parser OK p = Some (\<lambda>k. map_option abs_file (map_of (lp_fileInfoMap p) k))"
  by (simp add: abs_parser_def)

lemma abs_addChunk [simp]:
  "abs_file (addChunk (mkInterval lo hi) f) = (fst (abs_file f), snd (abs_file f) \<union> {lo ..< hi})"
  by (simp add: abs_file_def addChunk_def chunk_set_def)

lemma creation_refines:
  assumes p: "parser_state_ok root rid config OK p" and k: "nonneg_i64 k"
    and a: "apply_creation env (ts, name, k, sz) p = (st, p')" and st: "st \<noteq> INVALID_LOG"
  shows "st = OK \<and> parser_state_ok root rid config OK p' \<and>
    abs_parser OK p' = absorb env root rid config (FileCreation ts name k sz) (abs_parser OK p)"
proof -
  have root: "lp_rootDir p = root" "\<not> lp_parseOnly p" using p by (simp_all add: parser_state_ok_def)
  have inv: "parser_inv p'" using apply_creation_inv [OF a _ k] p by (simp add: parser_state_ok_def)
  have new: "k \<notin> fst ` set (lp_fileInfoMap p)" "k \<notin> set (lp_invalidSeqIds p)" "\<not> le_resumeUsingDirTree env"
    using a st root by (auto simp: apply_creation_def split: if_splits)
  then have none: "map_of (lp_fileInfoMap p) k = None" by (simp add: map_of_eq_None_iff)
  show ?thesis
  proof (cases "usable_on_disk env root name sz")
    case True
    then obtain d where d: "le_stat env (root @ name) = Some d" "le_preallocate env \<longrightarrow> sz \<le> d"
      by (auto simp: usable_on_disk_def split: option.splits)
    have "emplace k v (lp_fileInfoMap p) = (k, v) # lp_fileInfoMap p" for v using new(1) by (simp add: emplace_def)
    then have "st = OK" "p' = p\<lparr>lp_fileInfoMap := (k, \<lparr>fc_seqId = k, fc_fileName = name, fc_fileSize = d, fc_chunks = []\<rparr>) # lp_fileInfoMap p,
        lp_seqIdToSizeMap := emplace k sz (lp_seqIdToSizeMap p)\<rparr>"
      using a root new d by auto (auto simp: apply_creation_def)
    then show ?thesis using p inv new(2) True by (auto simp: parser_state_ok_def abs_parser_OK abs_file_def)
  next
    case False
    have "st = OK \<and> p' = p\<lparr>lp_invalidSeqIds := k # lp_invalidSeqIds p\<rparr>"
    proof (cases "le_stat env (root @ name)")
      case None
      then show ?thesis using a root new by (simp add: apply_creation_def)
    next
      case (Some d)
      then show ?thesis using a root new False by (auto simp: apply_creation_def usable_on_disk_def)
    qed
    then show ?thesis using p inv none False by (auto simp: parser_state_ok_def abs_parser_OK)
  qed
qed

lemma block_refines:
  assumes p: "parser_state_ok root rid config OK p" and b: "0 \<le> off" "0 \<le> sz"
    and a: "apply_block env (ts, k, off, sz) p = (st, p')" and st: "st \<noteq> INVALID_LOG"
  shows "st = OK \<and> parser_state_ok root rid config OK p' \<and>
    abs_parser OK p' = absorb env root rid config (BlockWrite ts k off sz) (abs_parser OK p)"
proof -
  have inv: "parser_inv p'" using apply_block_inv [OF a _ b] p by (simp add: parser_state_ok_def)
  have e: "\<not> lp_parseOnly p" "\<not> le_resumeUsingDirTree env"
    using p a st by (auto simp: parser_state_ok_def apply_block_def split: if_splits)
  show ?thesis
  proof (cases "map_of (lp_fileInfoMap p) k")
    case None
    then have "st = OK" "p' = p" using a e st by (auto simp: apply_block_def split: if_splits)
    then show ?thesis using p None by (simp add: abs_parser_OK)
  next
    case (Some f)
    then have "k \<notin> set (lp_invalidSeqIds p)" using p unfolding parser_state_ok_def by (metis option.distinct(1))
    then have "st = OK" "p' = p\<lparr>lp_fileInfoMap := AList.update k (addChunk (mkInterval off (off + sz)) f) (lp_fileInfoMap p)\<rparr>"
      using a e st Some by (auto simp: apply_block_def split: if_splits)
    then show ?thesis using p inv Some
      by (auto simp: parser_state_ok_def abs_parser_OK update_conv' fun_eq_iff split: prod.splits)
  qed
qed

lemma invalidation_refines:
  assumes p: "parser_state_ok root rid config OK p"
    and a: "apply_invalidation env (ts, k) p = (st, p')" and st: "st \<noteq> INVALID_LOG"
  shows "st = OK \<and> parser_state_ok root rid config OK p' \<and>
    abs_parser OK p' = absorb env root rid config (FileInvalidation ts k) (abs_parser OK p)"
proof -
  have "parser_inv p'" using apply_invalidation_inv [OF a] p by (simp add: parser_state_ok_def)
  moreover have "st = OK" "p' = p\<lparr>lp_fileInfoMap := AList.delete k (lp_fileInfoMap p),
      lp_invalidSeqIds := removeAll k (lp_invalidSeqIds p)\<rparr>"
    using p a st by (auto simp: parser_state_ok_def apply_invalidation_def split: if_splits)
  ultimately show ?thesis using p by (auto simp: parser_state_ok_def abs_parser_OK delete_conv' fun_eq_iff)
qed

lemma resize_refines:
  assumes p: "parser_state_ok root rid config OK p"
    and a: "apply_resize env (ts, k, sz) p = Ok (st, p')" and st: "st \<noteq> INVALID_LOG"
  shows "st = OK \<and> parser_state_ok root rid config OK p' \<and>
    abs_parser OK p' = absorb env root rid config (FileResize ts k sz) (abs_parser OK p)"
proof -
  have "parser_inv p'" using apply_resize_inv [of p env ts k sz] a p by (simp add: parser_state_ok_def)
  moreover have "st = OK" "p' = p\<lparr>lp_seqIdToSizeMap := AList.update k sz (lp_seqIdToSizeMap p)\<rparr>"
    using p a st by (auto simp: parser_state_ok_def apply_resize_def split: if_splits option.splits)
  ultimately show ?thesis using p by (auto simp: parser_state_ok_def abs_parser_OK)
qed

lemma header_refines:
  assumes p: "parser_state_ok root rid config status p"
    and a: "apply_header (ts, WLOG_VERSION, rid', ip, config') p = (st, p')" and st: "st \<noteq> INVALID_LOG"
  defines "p2 \<equiv> if st = INCONSISTENT_DIRECTORY then clearParsedData p' else p'"
  shows "parser_state_ok root rid config st p2 \<and>
    abs_parser st p2 = absorb env root rid config (LogHeader ts rid' ip config') (abs_parser status p)"
proof (cases "rid' = rid \<and> config' = config")
  case True
  then have "st = OK" "p' = p\<lparr>lp_headerParsed := True\<rparr>"
    using p a st by (auto simp: parser_state_ok_def apply_header_def split: if_splits)
  then show ?thesis using p True unfolding p2_def
    by (auto simp: parser_state_ok_def abs_parser_def)
next
  case False
  then have "st = INCONSISTENT_DIRECTORY" "p' = p"
    using p a st by (auto simp: parser_state_ok_def apply_header_def split: if_splits)
  then show ?thesis using p False unfolding p2_def
    by (auto simp: parser_state_ok_def abs_parser_def) (auto simp: clearParsedData_def)
qed

lemma replay_entry_refines:
  assumes p: "parser_state_ok root rid config status p" and e: "ok_entry e"
    and s: "status = INCONSISTENT_DIRECTORY \<longrightarrow> entry_type e = HEADER"
    and a: "replay_entry env e ip p = Ok (st, ip', p')" and st: "st \<noteq> INVALID_LOG"
  defines "p2 \<equiv> if st = INCONSISTENT_DIRECTORY then clearParsedData p' else p'"
  shows "parser_state_ok root rid config st p2 \<and> abs_parser st p2 = absorb env root rid config e (abs_parser status p)"
proof -
  have status: "status = OK" if "entry_type e \<noteq> HEADER" using p s that by (auto simp: parser_state_ok_def)
  have v: "entry_values_ok e" using e by (simp add: ok_entry_def)
  have P: "parser_state_ok root rid config OK p" if "entry_type e \<noteq> HEADER" using p status [OF that] by simp
  show ?thesis
  proof (cases e)
    case (LogHeader ts rid' ip2 config')
    then have "apply_header (ts, WLOG_VERSION, rid', ip2, config') p = (st, p')" using a by (simp split: prod.splits)
    from header_refines [OF p this st] show ?thesis unfolding p2_def LogHeader .
  next
    case (FileCreation ts name k sz)
    then have "nonneg_i64 k" "apply_creation env (ts, name, k, sz) p = (st, p')"
      using v a st by (auto split: if_splits prod.splits)
    from creation_refines [OF P this st] show ?thesis using FileCreation status unfolding p2_def by simp
  next
    case (BlockWrite ts k off sz)
    then have "0 \<le> off" "0 \<le> sz" "apply_block env (ts, k, off, sz) p = (st, p')"
      using v a st by (auto simp: nonneg_i64_def split: if_splits prod.splits)
    from block_refines [OF P this st] show ?thesis using BlockWrite status unfolding p2_def by simp
  next
    case (FileInvalidation ts k)
    then have "apply_invalidation env (ts, k) p = (st, p')" using a st by (auto split: if_splits prod.splits)
    from invalidation_refines [OF P this st] show ?thesis using FileInvalidation status unfolding p2_def by simp
  next
    case (FileResize ts k sz)
    then have "apply_resize env (ts, k, sz) p = Ok (st, p')" using a st by (auto split: if_splits prod.splits outcome.splits)
    from resize_refines [OF P this st] show ?thesis using FileResize status unfolding p2_def by simp
  next
    case (DirectoryInvalidation ts)
    then have "st = INCONSISTENT_DIRECTORY" "p' = p\<lparr>lp_headerParsed := False\<rparr>"
      using a p by (auto simp: apply_directory_invalidation_def parser_state_ok_def)
    then show ?thesis using p DirectoryInvalidation unfolding p2_def
      by (auto simp: parser_state_ok_def abs_parser_def) (auto simp: clearParsedData_def)
  qed
qed

lemma replay_refines:
  assumes "parser_state_ok root rid config status p" "\<forall>e \<in> set es. ok_entry e"
    "replay env es status ip p = Ok (Some st, ip', p')"
  shows "parser_state_ok root rid config st p' \<and>
    abs_parser st p' = fold (absorb env root rid config) es (abs_parser status p)"
  using assms
proof (induction es arbitrary: status ip p)
  case (Cons e es)
  have ok: "ok_entry e" "\<forall>e \<in> set es. ok_entry e" using Cons.prems(2) by simp_all
  show ?case
  proof (cases "status = INCONSISTENT_DIRECTORY \<and> entry_type e \<noteq> HEADER")
    case True
    then have "absorb env root rid config e (abs_parser status p) = abs_parser status p"
      by (cases e) (simp_all add: abs_parser_def)
    then show ?thesis using Cons.IH [OF Cons.prems(1) ok(2)] Cons.prems(3) True by simp
  next
    case False
    obtain st1 ip1 p1 where s: "replay_entry env e ip p = Ok (st1, ip1, p1)"
      and st1: "st1 \<noteq> INVALID_LOG"
      and r: "replay env es st1 ip1 (if st1 = INCONSISTENT_DIRECTORY then clearParsedData p1 else p1) = Ok (Some st, ip', p')"
      using Cons.prems(3) False by (auto split: outcome.splits if_splits)
    from replay_entry_refines [OF Cons.prems(1) ok(1) _ s st1] Cons.IH [OF _ ok(2) r]
    show ?thesis using False by simp
  qed
qed simp

lemma map_of_parsed_infos:
  assumes "parser_inv p"
  shows "map_of (map (\<lambda>f. (fc_seqId f, abs_file f)) (parsed_infos p)) k = map_option abs_file (map_of (lp_fileInfoMap p) k)"
proof -
  let ?m = "lp_fileInfoMap p"
  have d: "distinct (map fst ?m)" using assms by (simp add: parser_inv_def)
  have in_map: "fc_seqId f = i \<and> abs_file (mergeChunks f) = abs_file f" if "(i, f) \<in> set ?m" for i f
  proof -
    have "fc_seqId f = i \<and> info_ok f" using assms that unfolding parser_inv_def by (meson map_of_is_SomeI)
    then show ?thesis using merge_chunk_list_covered [of "fc_chunks f"]
      by (simp add: info_ok_def abs_file_def mergeChunks_def)
  qed
  have "map (\<lambda>f. (fc_seqId f, abs_file f)) (parsed_infos p) = map (\<lambda>(i, f). (i, abs_file f)) (sort_key fst ?m)"
    using in_map by (auto simp: parsed_infos_def mergeChunks_def)
  moreover have "map_of (sort_key fst ?m) = map_of ?m"
    using d by (intro map_of_inject_set [THEN iffD2]) (auto simp: distinct_map inj_on_def)
  ultimately show ?thesis by (simp add: map_of_map)
qed

lemma parse_refines_abstract:
  assumes "int (length buf) = kMaxEntryLength" "\<forall>e \<in> set es. ok_entry e" "log_tail bs"
    "\<And>k. \<not> le_readFails env k" "le_truncateOk env" "nonneg_i64 ts"
    "parseLog env ts (written_log buf es @ bs) ip (newParser root rid config False) = Ok (OK, ip', infos, log)"
  shows "fold (absorb env root rid config) es (Some Map.empty) = Some (map_of (map (\<lambda>f. (fc_seqId f, abs_file f)) infos))"
proof -
  let ?p = "newParser root rid config False"
  obtain r ip2 p' where p': "replay env es OK ip ?p = Ok (r, ip2, p')" "parser_inv p'"
    using replay_inv [OF parser_inv_simps(1) assms(2)] by meson
  from parseLog_written [OF assms(1-6) p'(1)] assms(7)
  have r: "r = Some OK" "infos = parsed_infos p'"
    by (cases r; auto simp: Let_def split: if_splits)+
  have "parser_state_ok root rid config OK ?p" by (simp add: parser_state_ok_def) (simp add: newParser_def)
  from replay_refines [OF this assms(2) p'(1) [unfolded r(1)]]
  have "abs_parser OK p' = fold (absorb env root rid config) es (abs_parser OK ?p)" by blast
  moreover have "abs_parser OK ?p = Some Map.empty" by (simp add: abs_parser_def newParser_def)
  moreover have "map_of (map (\<lambda>f. (fc_seqId f, abs_file f)) infos) = (\<lambda>k. map_option abs_file (map_of (lp_fileInfoMap p') k))"
    unfolding r(2) using map_of_parsed_infos [OF p'(2)] by (rule ext)
  ultimately show ?thesis by (simp add: abs_parser_OK)
qed

text \<open>C13: the parser refines the abstract log. When it accepts the log a receiver
  wrote, whole or with its last entry torn, the files it reports are those of the
  abstract log after the entries: for every file id, the name it was created with and
  exactly the bytes of the blocks logged for it since, and no file that was
  invalidated, that is missing or too short on disk, or that precedes an
  invalidation of the directory.\<close>

theorem parseLog_refines:
  assumes "int (length buf) = kMaxEntryLength" "\<forall>e \<in> set es. ok_entry e" "log_tail bs"
    "\<And>k. \<not> le_readFails env k" "le_truncateOk env" "nonneg_i64 ts"
    "parseLog env ts (written_log buf es @ bs) ip (newParser root rid config False) = Ok (OK, ip', infos, log)"
  shows "fold (absorb env root rid config) es (Some Map.empty) = Some (map_of (map (\<lambda>f. (fc_seqId f, abs_file f)) infos))"
  by (rule parse_refines_abstract [OF assms])

section \<open>An example log\<close>

definition example_log_env :: log_env where
  "example_log_env = \<lparr>le_stat = (\<lambda>path. if path = ''/d/f'' then Some 10 else None), le_readFails = (\<lambda>_. False),
     le_truncateOk = True, le_appendOk = True, le_resumeUsingDirTree = False, le_preallocate = True\<rparr>"

definition example_entries :: "LogEntry list" where
  "example_entries = [LogHeader 1 ''id'' ''ip'' 0, FileCreation 2 ''f'' 0 10, BlockWrite 3 0 0 4, BlockWrite 4 0 4 2,
     FileCreation 5 ''g'' 1 3]"

definition example_torn :: bytes where
  "example_torn = take 3 (wire_entry (DirectoryInvalidation 6))"

lemma wire_str_bound: "length (wire_str s) \<le> 9 + length s"
  using length_varint(2) by (simp add: wire_str_def)

fun entry_text :: "LogEntry \<Rightarrow> nat" where
  "entry_text (LogHeader ts rid ip config) = length rid + length ip"
| "entry_text (FileCreation ts name k sz) = length name"
| "entry_text e = 0"

lemma length_entry_payload: "length (entry_payload e) \<le> 46 + entry_text e"
proof (cases e)
  case (LogHeader ts rid ip config)
  then show ?thesis using length_wire_u(2) [of ts] length_wire_u(2) [of WLOG_VERSION] wire_str_bound [of rid]
      wire_str_bound [of ip] length_wire_u(2) [of config] by (simp add: entry_payload_def)
next
  case (FileCreation ts name k sz)
  then show ?thesis using length_wire_u(2) [of ts] wire_str_bound [of name] length_wire_u(2) [of k]
      length_wire_u(2) [of sz] by (simp add: entry_payload_def)
next
  case (BlockWrite ts k off sz)
  then show ?thesis using length_wire_u(2) [of ts] length_wire_u(2) [of k] length_wire_u(2) [of off]
      length_wire_u(2) [of sz] by (simp add: entry_payload_def)
next
  case (FileInvalidation ts k)
  then show ?thesis using length_wire_u(2) [of ts] length_wire_u(2) [of k] by (simp add: entry_payload_def)
next
  case (FileResize ts k sz)
  then show ?thesis using length_wire_u(2) [of ts] length_wire_u(2) [of k] length_wire_u(2) [of sz]
    by (simp add: entry_payload_def)
next
  case (DirectoryInvalidation ts)
  then show ?thesis using length_wire_u(2) [of ts] by (simp add: entry_payload_def)
qed

lemma small_entry_ok: "entry_values_ok e \<Longrightarrow> entry_text e \<le> 4000 \<Longrightarrow> ok_entry e"
  using length_entry_payload [of e] by (simp add: ok_entry_def kMaxEntryLength_def PATH_MAX_def)

lemma example_entries_ok: "\<forall>e \<in> set example_entries. ok_entry e"
  by (auto simp: example_entries_def nonneg_i64_def short_string_def intro!: small_entry_ok)

lemma example_env_ok: "\<not> le_readFails example_log_env k" "le_truncateOk example_log_env"
  "int (length entry_buf) = kMaxEntryLength"
  by (simp_all add: example_log_env_def kMaxEntryLength_def PATH_MAX_def)

lemma example_torn: "torn example_torn"
proof -
  let ?e = "DirectoryInvalidation 6"
  have "ok_entry ?e" by (rule small_entry_ok) (simp_all add: nonneg_i64_def)
  moreover have "wire_entry ?e = example_torn @ drop 3 (wire_entry ?e)" by (simp add: example_torn_def)
  moreover have "drop 3 (wire_entry ?e) \<noteq> []" using length_wire_u(1) [of 6] by (auto simp: wire_entry_def entry_payload_def)
  ultimately show ?thesis unfolding torn_def by blast
qed


lemma example_replay:
  "\<exists>p'. replay example_log_env example_entries OK [] (newParser ''/d/'' ''id'' 0 False) = Ok (Some OK, ''ip'', p') \<and>
     lp_invalidSeqIds p' = [1] \<and>
     lp_fileInfoMap p' = [(0, \<lparr>fc_seqId = 0, fc_fileName = ''f'', fc_fileSize = 10, fc_chunks = [mkInterval 0 4, mkInterval 4 6]\<rparr>)]"
  by (simp add: example_entries_def example_log_env_def newParser_def apply_header_def apply_creation_def apply_block_def
      emplace_def addChunk_def)

theorem torn_write_ignored_witness:
  "torn example_torn \<and> (\<exists>st ip' infos log log'.
    parseLog example_log_env 6 (written_log entry_buf example_entries) [] (newParser ''/d/'' ''id'' 0 False) = Ok (st, ip', infos, log) \<and>
    parseLog example_log_env 6 (written_log entry_buf example_entries @ example_torn) [] (newParser ''/d/'' ''id'' 0 False)
      = Ok (st, ip', infos, log') \<and> (st \<noteq> INVALID_LOG \<longrightarrow> log' = log))"
proof -
  have "nonneg_i64 6" by (simp add: nonneg_i64_def)
  then show ?thesis
    using torn_write_ignored [OF example_env_ok(3) example_entries_ok example_torn example_env_ok(1,2)] example_torn by blast
qed

theorem parseLog_refines_witness:
  "\<exists>ip' infos log.
    parseLog example_log_env 6 (written_log entry_buf example_entries @ example_torn) [] (newParser ''/d/'' ''id'' 0 False)
      = Ok (OK, ip', infos, log) \<and>
    fold (absorb example_log_env ''/d/'' ''id'' 0) example_entries (Some Map.empty)
      = Some (map_of (map (\<lambda>f. (fc_seqId f, abs_file f)) infos))"
proof -
  let ?p = "newParser ''/d/'' ''id'' 0 False"
  have ts: "nonneg_i64 6" by (simp add: nonneg_i64_def)
  have tail: "log_tail example_torn" using example_torn by (simp add: log_tail_def)
  obtain p' where p': "replay example_log_env example_entries OK [] ?p = Ok (Some OK, ''ip'', p')"
    and "lp_invalidSeqIds p' = [1]" using example_replay by blast
  moreover have "le_appendOk example_log_env" by (simp add: example_log_env_def)
  ultimately obtain ip' infos log where
    r: "parseLog example_log_env 6 (written_log entry_buf example_entries @ example_torn) [] ?p = Ok (OK, ip', infos, log)"
    using parseLog_written [OF example_env_ok(3) example_entries_ok tail example_env_ok(1,2) ts p'] by (auto simp: Let_def)
  then show ?thesis
    using parseLog_refines [OF example_env_ok(3) example_entries_ok tail example_env_ok(1,2) ts r] by blast
qed

end
