(* ===== verification/Log_Manager.thy ===== *)
theory Log_Manager
  imports Log_Laws
begin

text \<open>
  The writing side of the transfer log (\<open>TransferLogManager\<close>): opening, the entry buffer
  and its writer thread, headers and invalidations, parsing at start and compaction at
  the end. The model keeps the bytes of the open file and the file offset. A system
  call's result is an argument of the operation that makes the call: \<open>w\<close> maps the number
  of bytes passed to \<open>::write\<close> to its return value. \<open>Abort\<close> stands for a failed
  \<open>WDT_CHECK\<close>, an uncaught exception and the \<open>exit\<close> of \<open>checkLog\<close>. The iterations of the
  writer thread are atomic steps.
\<close>

section \<open>State\<close>

datatype WriterThread = Not_joinable | Running | Returned

record LogManager =
  lm_fd :: bool
  lm_file :: bytes
  lm_pos :: nat
  lm_rootDir :: string
  lm_recoveryId :: string
  lm_senderIp :: string
  lm_config :: int
  lm_entries :: "bytes list"
  lm_finished :: bool
  lm_resumptionStatus :: ErrorCode
  lm_headerWritten :: bool
  lm_writer :: WriterThread

record manager_env =
  me_log :: log_env
  me_enable_download_resumption :: bool
  me_disable_sender_verification :: bool
  me_write_interval_ms :: int
  me_sameInode :: bool

text \<open>\<open>resumptionStatus_\<close> and \<open>config_\<close> have no initial value in the constructor.\<close>

definition newLogManager :: "string \<Rightarrow> ErrorCode \<Rightarrow> int \<Rightarrow> LogManager" where
  "newLogManager rootDir status config =
     \<lparr>lm_fd = False, lm_file = [], lm_pos = 0,
      lm_rootDir = (if rootDir \<noteq> [] \<and> last rootDir = CHR ''/'' then rootDir else rootDir @ ''/''),
      lm_recoveryId = [], lm_senderIp = [], lm_config = config, lm_entries = [], lm_finished = False,
      lm_resumptionStatus = status, lm_headerWritten = False, lm_writer = Not_joinable\<rparr>"

definition getFullPath :: "string \<Rightarrow> LogManager \<Rightarrow> string outcome" where
  "getFullPath relPath m = (if lm_rootDir m = [] then Abort else Ok (lm_rootDir m @ relPath))"

text \<open>Bytes of an encoder's result and the size the caller sees.\<close>

fun encoded :: "bytes outcome \<Rightarrow> (int \<times> bytes) outcome" where
  "encoded (Ok bs) = Ok (int (length bs), bs)"
| "encoded Fail = Ok (-1, [])"
| "encoded Abort = Abort"

text \<open>Writing through a closed descriptor fails.\<close>

definition sys_write :: "(int \<Rightarrow> int) \<Rightarrow> int \<Rightarrow> bytes \<Rightarrow> LogManager \<Rightarrow> int \<times> LogManager" where
  "sys_write w sz bs m =
     (if \<not> lm_fd m then (-1, m) else
      let done_bs = take (nat (w sz)) bs; f = lm_file m; n = lm_pos m
      in (w sz, m\<lparr>lm_file := take n f @ replicate (n - length f) 0 @ done_bs @ drop (n + length done_bs) f,
                  lm_pos := n + length done_bs\<rparr>))"

section \<open>The writer thread\<close>

definition writeEntriesToDiskNoLock :: "(int \<Rightarrow> int) \<Rightarrow> bytes list \<Rightarrow> LogManager \<Rightarrow> bool \<times> LogManager" where
  "writeEntriesToDiskNoLock w entries m =
     (let buffer = concat entries
      in if buffer = [] then (True, m)
         else case sys_write w (int (length buffer)) buffer m of
                (written, m') \<Rightarrow> (written = int (length buffer), m'))"

text \<open>One turn of the loop of \<open>threadProcWriteEntriesToDisk\<close>, for a running thread.\<close>

definition writer_iteration :: "(int \<Rightarrow> int) \<Rightarrow> LogManager \<Rightarrow> LogManager" where
  "writer_iteration w m =
     (case writeEntriesToDiskNoLock w (lm_entries m) (m\<lparr>lm_entries := []\<rparr>) of
        (success, m') \<Rightarrow> if \<not> success \<or> lm_finished m then m'\<lparr>lm_writer := Returned\<rparr> else m')"

definition startThread :: "manager_env \<Rightarrow> LogManager \<Rightarrow> (ErrorCode \<times> LogManager) outcome" where
  "startThread env m =
     (if le_resumeUsingDirTree (me_log env) then Ok (OK, m)
      else if lm_resumptionStatus m \<noteq> OK then Ok (lm_resumptionStatus m, m)
      else if lm_writer m \<noteq> Not_joinable \<or> \<not> lm_fd m \<or> \<not> me_write_interval_ms env \<ge> 0 then Abort
      else Ok (OK, m\<lparr>lm_writer := Running\<rparr>))"

text \<open>A running thread sees the flag in its next turn, writes what is buffered and returns.\<close>

definition shutdownThread :: "(int \<Rightarrow> int) \<Rightarrow> LogManager \<Rightarrow> LogManager" where
  "shutdownThread w m =
     (case lm_writer m of
        Not_joinable \<Rightarrow> m
      | Running \<Rightarrow> (writer_iteration w (m\<lparr>lm_finished := True\<rparr>))\<lparr>lm_writer := Not_joinable\<rparr>
      | Returned \<Rightarrow> m\<lparr>lm_finished := True, lm_writer := Not_joinable\<rparr>)"

section \<open>Opening and closing\<close>

definition checkLog :: "manager_env \<Rightarrow> LogManager \<Rightarrow> ErrorCode outcome" where
  "checkLog env m =
     (if \<not> lm_fd m then Ok ERROR
      else outcome_bind (getFullPath ''.wdt.log'' m) (\<lambda>_. if me_sameInode env then Ok OK else Abort))"

definition close_fd :: "manager_env \<Rightarrow> LogManager \<Rightarrow> LogManager outcome" where
  "close_fd env m =
     (if \<not> lm_fd m then Ok m else outcome_bind (checkLog env m) (\<lambda>_. Ok (m\<lparr>lm_fd := False\<rparr>)))"

definition closeLog :: "manager_env \<Rightarrow> (int \<Rightarrow> int) \<Rightarrow> LogManager \<Rightarrow> LogManager outcome" where
  "closeLog env w m =
     (if \<not> lm_fd m then Ok m
      else close_fd env (if \<not> le_resumeUsingDirTree (me_log env) then shutdownThread w m else m))"

datatype open_result = Opened | No_entry | Open_failed

text \<open>\<open>disk\<close> is the content of the file that is opened, \<open>again\<close> whether the second attempt after
  the creation succeeds.\<close>

definition openLog ::
  "manager_env \<Rightarrow> open_result \<Rightarrow> bool \<Rightarrow> bool \<Rightarrow> bytes \<Rightarrow> LogManager \<Rightarrow> (ErrorCode \<times> LogManager) outcome" where
  "openLog env opened again locked disk m =
     (if lm_fd m \<or> lm_rootDir m = [] \<or> \<not> me_enable_download_resumption env then Abort
      else if opened = Open_failed \<or> opened = No_entry \<and> \<not> again then Ok (TRANSFER_LOG_ACQUIRE_ERROR, m)
      else let m' = m\<lparr>lm_fd := True, lm_file := disk, lm_pos := 0\<rparr>
           in if \<not> locked
              then outcome_bind (close_fd env m') (\<lambda>m''. Ok (TRANSFER_LOG_ACQUIRE_ERROR, m''))
              else Ok (OK, m'))"

section \<open>Headers and invalidations\<close>

definition fsyncLog :: "LogManager \<Rightarrow> LogManager outcome" where
  "fsyncLog m = (if lm_fd m then Ok m else Abort)"

definition invalidateDirectory ::
  "manager_env \<Rightarrow> int \<Rightarrow> (int \<Rightarrow> int) \<Rightarrow> (int \<Rightarrow> int) \<Rightarrow> LogManager \<Rightarrow> LogManager outcome" where
  "invalidateDirectory env timestamp w w' m =
     (if \<not> lm_fd m then Ok m
      else outcome_bind (encoded (encodeDirectoryInvalidationEntry timestamp entry_buf)) (\<lambda>(sz, bs).
             case sys_write w sz bs (m\<lparr>lm_resumptionStatus := INCONSISTENT_DIRECTORY\<rparr>) of
               (written, m1) \<Rightarrow> outcome_bind (if written \<noteq> sz then closeLog env w' m1 else Ok m1) fsyncLog))"

definition writeLogHeader ::
  "manager_env \<Rightarrow> int \<Rightarrow> (int \<Rightarrow> int) \<Rightarrow> (int \<Rightarrow> int) \<Rightarrow> LogManager \<Rightarrow> LogManager outcome" where
  "writeLogHeader env timestamp w w' m =
     (if \<not> lm_fd m then Ok m
      else outcome_bind (encoded (encodeLogHeader timestamp (lm_recoveryId m) (lm_senderIp m) (lm_config m) entry_buf))
             (\<lambda>(sz, bs). case sys_write w sz bs m of
                (written, m1) \<Rightarrow>
                  if written \<noteq> sz then closeLog env w' m1
                  else outcome_bind (fsyncLog m1)
                         (\<lambda>m2. Ok (m2\<lparr>lm_resumptionStatus := OK, lm_headerWritten := True\<rparr>))))"

definition verifySenderIp ::
  "manager_env \<Rightarrow> int \<Rightarrow> (int \<Rightarrow> int) \<Rightarrow> (int \<Rightarrow> int) \<Rightarrow> string \<Rightarrow> LogManager \<Rightarrow> (bool \<times> LogManager) outcome" where
  "verifySenderIp env timestamp w w' curSenderIp m =
     (if \<not> lm_fd m then Ok (False, m)
      else if \<not> me_disable_sender_verification env \<and> lm_senderIp m \<noteq> [] \<and> lm_senderIp m \<noteq> curSenderIp
      then outcome_bind (invalidateDirectory env timestamp w w' m) (\<lambda>m1. Ok (False, m1\<lparr>lm_senderIp := curSenderIp\<rparr>))
      else Ok (True, m\<lparr>lm_senderIp := curSenderIp\<rparr>))"

section \<open>Adding entries\<close>

text \<open>The size -1 of a failed encoder is the length of a \<open>std::string\<close>, which throws.\<close>

definition buffer_entry :: "bytes outcome \<Rightarrow> LogManager \<Rightarrow> LogManager outcome" where
  "buffer_entry r m = (case r of Ok bs \<Rightarrow> Ok (m\<lparr>lm_entries := lm_entries m @ [bs]\<rparr>) | _ \<Rightarrow> Abort)"

definition addFileCreationEntry :: "int \<Rightarrow> string \<Rightarrow> int \<Rightarrow> int \<Rightarrow> LogManager \<Rightarrow> LogManager outcome" where
  "addFileCreationEntry timestamp fileName seqId fileSize m =
     (if \<not> lm_fd m \<or> \<not> lm_headerWritten m then Ok m
      else buffer_entry (encodeFileCreationEntry timestamp fileName seqId fileSize entry_buf) m)"

definition addBlockWriteEntry :: "int \<Rightarrow> int \<Rightarrow> int \<Rightarrow> int \<Rightarrow> LogManager \<Rightarrow> LogManager outcome" where
  "addBlockWriteEntry timestamp seqId off blockSize m =
     (if \<not> lm_fd m \<or> \<not> lm_headerWritten m then Ok m
      else buffer_entry (encodeBlockWriteEntry timestamp seqId off blockSize entry_buf) m)"

definition addFileResizeEntry :: "int \<Rightarrow> int \<Rightarrow> int \<Rightarrow> LogManager \<Rightarrow> LogManager outcome" where
  "addFileResizeEntry timestamp seqId fileSize m =
     (if \<not> lm_fd m \<or> \<not> lm_headerWritten m then Ok m
      else buffer_entry (encodeFileResizeEntry timestamp seqId fileSize entry_buf) m)"

definition addFileInvalidationEntry :: "int \<Rightarrow> int \<Rightarrow> LogManager \<Rightarrow> LogManager outcome" where
  "addFileInvalidationEntry timestamp seqId m =
     (if \<not> lm_fd m then Ok m else buffer_entry (encodeFileInvalidationEntry timestamp seqId entry_buf) m)"

section \<open>Parsing\<close>

text \<open>The parser reads from the file offset and leaves it at the end of the log.\<close>

definition parseVerifyAndFix ::
  "manager_env \<Rightarrow> int \<Rightarrow> (int \<Rightarrow> int) \<Rightarrow> (int \<Rightarrow> int) \<Rightarrow> string \<Rightarrow> int \<Rightarrow> bool \<Rightarrow> LogManager \<Rightarrow>
   (ErrorCode \<times> FileChunksInfo list \<times> LogManager) outcome" where
  "parseVerifyAndFix env timestamp w w' recoveryId config parseOnly m =
     (if \<not> lm_fd m then Ok (INVALID_LOG, [], m)
      else outcome_bind (parseLog (me_log env) timestamp (drop (lm_pos m) (lm_file m)) (lm_senderIp m)
                           (newParser (lm_rootDir m) recoveryId config parseOnly))
             (\<lambda>(status, ip, infos, log).
                let file = take (lm_pos m) (lm_file m) @ log;
                    m1 = m\<lparr>lm_resumptionStatus := status, lm_senderIp := ip, lm_file := file, lm_pos := length file\<rparr>
                in outcome_bind
                     (if status = INVALID_LOG then closeLog env w' m1
                      else if status = INCONSISTENT_DIRECTORY \<and> \<not> parseOnly
                      then invalidateDirectory env timestamp w w' m1 else Ok m1)
                     (\<lambda>m2. Ok (lm_resumptionStatus m2, infos, m2))))"

definition parseAndMatch ::
  "manager_env \<Rightarrow> int \<Rightarrow> (int \<Rightarrow> int) \<Rightarrow> (int \<Rightarrow> int) \<Rightarrow> string \<Rightarrow> int \<Rightarrow> LogManager \<Rightarrow>
   (ErrorCode \<times> FileChunksInfo list \<times> LogManager) outcome" where
  "parseAndMatch env timestamp w w' recoveryId config m =
     parseVerifyAndFix env timestamp w w' recoveryId config False (m\<lparr>lm_recoveryId := recoveryId, lm_config := config\<rparr>)"

definition parseAndPrint :: "manager_env \<Rightarrow> int \<Rightarrow> (int \<Rightarrow> int) \<Rightarrow> LogManager \<Rightarrow> (bool \<times> LogManager) outcome" where
  "parseAndPrint env timestamp w m =
     outcome_bind (parseVerifyAndFix env timestamp w w [] 0 True m) (\<lambda>(status, _, m'). Ok (status = OK, m'))"

section \<open>Compaction\<close>

text \<open>The results of the system calls of \<open>compactLog\<close>; \<open>cs_write k\<close> is the \<open>k\<close>-th kind of write.\<close>

record compact_sys =
  cs_seek :: "nat \<Rightarrow> bool"
  cs_truncate :: bool
  cs_write :: "nat \<Rightarrow> int \<Rightarrow> int"

fun add_compacted :: "int \<Rightarrow> FileChunksInfo list \<Rightarrow> LogManager \<Rightarrow> LogManager outcome" where
  "add_compacted timestamp [] m = Ok m"
| "add_compacted timestamp (f # fs) m =
     outcome_bind (addFileCreationEntry timestamp (fc_fileName f) (fc_seqId f) (fc_fileSize f) m) (\<lambda>m1.
     outcome_bind (addBlockWriteEntry timestamp (fc_seqId f) 0 (fc_fileSize f) m1) (\<lambda>m2.
     add_compacted timestamp fs m2))"

definition compactable :: "FileChunksInfo \<Rightarrow> bool" where
  "compactable f \<longleftrightarrow> length (fc_chunks f) = 1 \<and> getTotalChunkSize f = fc_fileSize f"

definition compactLog :: "manager_env \<Rightarrow> int \<Rightarrow> compact_sys \<Rightarrow> LogManager \<Rightarrow> LogManager outcome" where
  "compactLog env timestamp sys m =
     outcome_bind (getFullPath ''.wdt.log'' m) (\<lambda>_.
       if \<not> lm_fd m then Ok m
       else outcome_bind (fsyncLog (shutdownThread (cs_write sys 0) m)) (\<lambda>m1.
         if \<not> cs_seek sys 0 then Ok m1
         else outcome_bind (parseAndMatch env timestamp (cs_write sys 1) (cs_write sys 2) (lm_recoveryId m1) (lm_config m1)
                              (m1\<lparr>lm_pos := 0\<rparr>)) (\<lambda>(code, infos, m2).
           if code \<noteq> OK \<or> \<not> list_all compactable infos \<or> \<not> cs_truncate sys then Ok m2
           else if \<not> cs_seek sys 1 then Ok (m2\<lparr>lm_file := []\<rparr>)
           else outcome_bind (writeLogHeader env timestamp (cs_write sys 3) (cs_write sys 2) (m2\<lparr>lm_file := [], lm_pos := 0\<rparr>)) (\<lambda>m3.
                outcome_bind (add_compacted timestamp infos m3) (\<lambda>m4.
                Ok (snd (writeEntriesToDiskNoLock (cs_write sys 4) (lm_entries m4) (m4\<lparr>lm_entries := []\<rparr>))))))))"

definition unlink_log :: "LogManager \<Rightarrow> string outcome" where
  "unlink_log m = (if lm_fd m then Abort else getFullPath ''.wdt.log'' m)"

definition renameBuggyLog :: "LogManager \<Rightarrow> (string \<times> string) outcome" where
  "renameBuggyLog m =
     (if lm_fd m then Abort
      else outcome_bind (getFullPath ''.wdt.log'' m) (\<lambda>from_path.
           outcome_bind (getFullPath ''.wdt.log.bug'' m) (\<lambda>to_path. Ok (from_path, to_path))))"

section \<open>The receiver's use of the log\<close>

record receiver_log_options =
  ro_enable_compaction :: bool
  ro_keep_transfer_log :: bool

definition getTransferConfig :: "manager_env \<Rightarrow> int" where
  "getTransferConfig env =
     (let config = (if le_preallocate (me_log env) then 1 else 0 :: int)
      in if le_resumeUsingDirTree (me_log env) then or config (push_bit 1 1) else config)"

text \<open>The log part of \<open>startNewGlobalSession\<close>: the previously received files are kept only if
  the sender is the one in the log.\<close>

definition startSessionLog ::
  "manager_env \<Rightarrow> int \<Rightarrow> (int \<Rightarrow> int) \<Rightarrow> (int \<Rightarrow> int) \<Rightarrow> string \<Rightarrow> FileChunksInfo list \<times> LogManager \<Rightarrow>
   (FileChunksInfo list \<times> LogManager) outcome" where
  "startSessionLog env timestamp w w' peerIp = (\<lambda>(fileChunksInfo, m).
     if \<not> me_enable_download_resumption env then Ok (fileChunksInfo, m)
     else outcome_bind (startThread env m) (\<lambda>(_, m1).
          outcome_bind (verifySenderIp env timestamp w w' peerIp m1) (\<lambda>(verifySuccessful, m2).
          Ok (if verifySuccessful then fileChunksInfo else [], m2))))"

definition addTransferLogHeader ::
  "manager_env \<Rightarrow> int \<Rightarrow> (int \<Rightarrow> int) \<Rightarrow> (int \<Rightarrow> int) \<Rightarrow> bool \<Rightarrow> bool \<Rightarrow> LogManager \<Rightarrow> LogManager outcome" where
  "addTransferLogHeader env timestamp w w' isBlockMode isSenderResuming m =
     (if \<not> me_enable_download_resumption env then Ok m
      else outcome_bind
             (if \<not> isSenderResuming \<or> le_resumeUsingDirTree (me_log env) \<and> isBlockMode
              then invalidateDirectory env timestamp w w' m else Ok m)
             (\<lambda>m1. if \<not> le_resumeUsingDirTree (me_log env) \<or> lm_resumptionStatus m1 \<noteq> INCONSISTENT_DIRECTORY
                   then writeLogHeader env timestamp w w' m1 else Ok m1))"

text \<open>The last component is the file operation on the log path: rename, then unlink.\<close>

definition fixAndCloseTransferLog ::
  "manager_env \<Rightarrow> receiver_log_options \<Rightarrow> int \<Rightarrow> compact_sys \<Rightarrow> bool \<Rightarrow> LogManager \<Rightarrow>
   (LogManager \<times> bool \<times> bool) outcome" where
  "fixAndCloseTransferLog env opts timestamp sys transferSuccess m =
     (if \<not> me_enable_download_resumption env then Ok (m, False, False)
      else let isInconsistentDirectory = (lm_resumptionStatus m = INCONSISTENT_DIRECTORY);
               isInvalidLog = (lm_resumptionStatus m = INVALID_LOG)
           in outcome_bind
                (if transferSuccess \<and> isInconsistentDirectory
                 then (if \<not> le_resumeUsingDirTree (me_log env) then Abort
                       else writeLogHeader env timestamp (cs_write sys 5) (cs_write sys 2) m)
                 else Ok m) (\<lambda>m1. outcome_bind
                (if ro_enable_compaction opts \<and> transferSuccess \<and> \<not> isInvalidLog \<and> ro_keep_transfer_log opts \<and>
                    \<not> le_resumeUsingDirTree (me_log env)
                 then compactLog env timestamp sys m1 else Ok m1) (\<lambda>m2.
              outcome_bind (closeLog env (cs_write sys 6) m2) (\<lambda>m3.
                if \<not> transferSuccess then Ok (m3, False, False)
                else outcome_bind (if isInvalidLog then outcome_bind (renameBuggyLog m3) (\<lambda>_. Ok True) else Ok False) (\<lambda>renamed.
                     outcome_bind (if \<not> ro_keep_transfer_log opts then outcome_bind (unlink_log m3) (\<lambda>_. Ok True) else Ok False) (\<lambda>unlinked.
                     Ok (m3, renamed, unlinked)))))))"

end
