(* ===== verification/Log_Sessions.thy ===== *)
theory Log_Sessions
  imports Log_Manager
begin

text \<open>
  What reaches the disk: sessions of the log manager with its writer thread, failing
  writes and crashes, and what the next session reads back.
\<close>

section \<open>Prefixes of a log\<close>

text \<open>A log cut off anywhere is the log of a prefix of its entries and a torn rest.\<close>

lemma prefix_log_cut:
  assumes "\<forall>e \<in> set es. ok_entry e" "prefix bs (concat (map wire_entry es))"
  shows "\<exists>k \<le> length es. \<exists>tail. bs = concat (map wire_entry (take k es)) @ tail \<and> log_tail tail"
  using assms
proof (induction es arbitrary: bs)
  case Nil
  then show ?case by (auto simp: log_tail_def)
next
  case (Cons e es)
  from Cons.prems(2) consider "prefix bs (wire_entry e)" "bs \<noteq> wire_entry e"
    | rest where "bs = wire_entry e @ rest" "prefix rest (concat (map wire_entry es))"
    by (cases "bs = wire_entry e") (auto simp: prefix_append)
  then show ?case
  proof cases
    case 1
    then obtain zs where "wire_entry e = bs @ zs" "zs \<noteq> []" by (auto elim: prefixE)
    then have "log_tail bs" using Cons.prems(1) by (auto simp: log_tail_def torn_def)
    then show ?thesis by (intro exI [of _ 0]) simp
  next
    case 2
    with Cons.IH [of rest] Cons.prems(1) obtain k tail where
      "k \<le> length es" "rest = concat (map wire_entry (take k es)) @ tail" "log_tail tail" by auto
    then show ?thesis using 2 by (intro exI [of _ "Suc k"]) simp
  qed
qed

section \<open>Sessions\<close>

text \<open>What happens between the header and the end of a session: entries are added by receiver
  threads, and the writer thread wakes up.\<close>

datatype log_action = Log_creation int string int int | Log_block int int int int | Log_resize int int int
  | Log_invalidation int int | Writer_wakes "int \<Rightarrow> int"

fun log_action_step :: "log_action \<Rightarrow> LogManager \<Rightarrow> LogManager outcome" where
  "log_action_step (Log_creation ts name k sz) m = addFileCreationEntry ts name k sz m"
| "log_action_step (Log_block ts k off sz) m = addBlockWriteEntry ts k off sz m"
| "log_action_step (Log_resize ts k sz) m = addFileResizeEntry ts k sz m"
| "log_action_step (Log_invalidation ts k) m = addFileInvalidationEntry ts k m"
| "log_action_step (Writer_wakes w) m = Ok (if lm_writer m = Running then writer_iteration w m else m)"

fun log_session :: "log_action list \<Rightarrow> LogManager \<Rightarrow> LogManager outcome" where
  "log_session [] m = Ok m"
| "log_session (a # as) m = outcome_bind (log_action_step a m) (log_session as)"

fun action_entries :: "log_action \<Rightarrow> LogEntry list" where
  "action_entries (Log_creation ts name k sz) = [FileCreation ts name k sz]"
| "action_entries (Log_block ts k off sz) = [BlockWrite ts k off sz]"
| "action_entries (Log_resize ts k sz) = [FileResize ts k sz]"
| "action_entries (Log_invalidation ts k) = [FileInvalidation ts k]"
| "action_entries (Writer_wakes w) = []"

definition session_entries :: "log_action list \<Rightarrow> LogEntry list" where
  "session_entries as = concat (map action_entries as)"

definition logging :: "LogManager \<Rightarrow> bool" where
  "logging m \<longleftrightarrow> lm_fd m \<and> lm_headerWritten m \<and> \<not> lm_finished m \<and> lm_rootDir m \<noteq> [] \<and> lm_pos m = length (lm_file m)"

abbreviation wire_log :: "LogEntry list \<Rightarrow> bytes" where
  "wire_log es \<equiv> concat (map wire_entry es)"

lemma encode_entry_buf: "ok_entry e \<Longrightarrow> encode_log_entry e entry_buf = Ok (wire_entry e)"
  using encode_log_entry_wire [of e entry_buf] by (auto simp: ok_entry_def)

lemma add_entry_step:
  assumes "lm_fd m" "lm_headerWritten m" "action_entries a = [e]" "ok_entry e"
  shows "log_action_step a m = Ok (m\<lparr>lm_entries := lm_entries m @ [wire_entry e]\<rparr>)"
  using assms encode_entry_buf [of e]
  by (cases a) (auto simp: addFileCreationEntry_def addBlockWriteEntry_def addFileResizeEntry_def
      addFileInvalidationEntry_def buffer_entry_def)

text \<open>Of the bytes written, the file gets a prefix, and the thread goes on only after all of them.\<close>

lemma writer_iteration_writes:
  assumes "logging m"
  obtains bs where "writer_iteration w m = m\<lparr>lm_entries := [], lm_file := lm_file m @ bs, lm_pos := length (lm_file m @ bs),
      lm_writer := lm_writer (writer_iteration w m)\<rparr>" "prefix bs (concat (lm_entries m))"
    "lm_writer (writer_iteration w m) = lm_writer m \<and> bs = concat (lm_entries m) \<or> lm_writer (writer_iteration w m) = Returned"
proof -
  define buf where "buf = concat (lm_entries m)"
  define bs where "bs = (if buf = [] then [] else take (nat (w (int (length buf)))) buf)"
  have m: "lm_fd m" "lm_pos m = length (lm_file m)" using assms by (simp_all add: logging_def)
  have "writer_iteration w m = m\<lparr>lm_entries := [], lm_file := lm_file m @ bs, lm_pos := length (lm_file m @ bs),
      lm_writer := if buf \<noteq> [] \<and> w (int (length buf)) \<noteq> int (length buf) \<or> lm_finished m then Returned else lm_writer m\<rparr>"
    using m by (simp add: writer_iteration_def writeEntriesToDiskNoLock_def sys_write_def Let_def bs_def flip: buf_def)
  moreover have "prefix bs buf" by (simp add: bs_def take_is_prefix)
  moreover have "bs = buf" if "\<not> (buf \<noteq> [] \<and> w (int (length buf)) \<noteq> int (length buf))"
    using that by (auto simp: bs_def)
  ultimately show ?thesis using that [of bs] by (simp add: buf_def)
qed

text \<open>Invariant of a session: \<open>base\<close> is the log when it begins, \<open>es\<close> what has been added since.\<close>

definition session_inv :: "bytes \<Rightarrow> LogEntry list \<Rightarrow> LogManager \<Rightarrow> bool" where
  "session_inv base es m \<longleftrightarrow> logging m \<and> (\<exists>bs. lm_file m = base @ bs \<and>
     (lm_writer m = Running \<and> bs @ concat (lm_entries m) = wire_log es \<or>
      lm_writer m = Returned \<and> prefix bs (wire_log es)))"

lemma session_step:
  assumes "session_inv base es m" "\<forall>e \<in> set (action_entries a). ok_entry e"
  shows "\<exists>m'. log_action_step a m = Ok m' \<and> session_inv base (es @ action_entries a) m'"
proof (cases "action_entries a")
  case Nil
  then obtain w where a: "a = Writer_wakes w" by (cases a) auto
  show ?thesis
  proof (cases "lm_writer m = Running")
    case True
    then obtain bs where bs: "lm_file m = base @ bs" "bs @ concat (lm_entries m) = wire_log es" and m: "logging m"
      using assms(1) by (auto simp: session_inv_def)
    obtain cs where cs: "writer_iteration w m = m\<lparr>lm_entries := [], lm_file := lm_file m @ cs, lm_pos := length (lm_file m @ cs),
        lm_writer := lm_writer (writer_iteration w m)\<rparr>" "prefix cs (concat (lm_entries m))"
      "lm_writer (writer_iteration w m) = lm_writer m \<and> cs = concat (lm_entries m) \<or> lm_writer (writer_iteration w m) = Returned"
      using writer_iteration_writes [OF m] by blast
    have "prefix (bs @ cs) (wire_log es)" using cs(2) by (simp flip: bs(2))
    then have "session_inv base es (writer_iteration w m)" using m bs cs(3) True
      unfolding session_inv_def by (subst (1 2 3 4) cs(1)) (auto simp: logging_def)
    then show ?thesis using a True Nil by simp
  next
    case False
    then show ?thesis using assms(1) a by simp
  qed
next
  case (Cons e es')
  then have one: "action_entries a = [e]" "ok_entry e" using assms(2) by (cases a; simp)+
  have "lm_fd m" "lm_headerWritten m" using assms(1) by (auto simp: session_inv_def logging_def)
  from add_entry_step [OF this one] show ?thesis using assms(1) one
    by (auto simp: session_inv_def logging_def)
qed

lemma session_runs:
  assumes "session_inv base es m" "\<forall>e \<in> set (session_entries as). ok_entry e"
  shows "\<exists>m'. log_session as m = Ok m' \<and> session_inv base (es @ session_entries as) m'"
  using assms
proof (induction as arbitrary: es m)
  case (Cons a as)
  have ok: "\<forall>e \<in> set (action_entries a). ok_entry e" "\<forall>e \<in> set (session_entries as). ok_entry e"
    using Cons.prems(2) by (auto simp: session_entries_def)
  obtain m1 where m1: "log_action_step a m = Ok m1" "session_inv base (es @ action_entries a) m1"
    using session_step [OF Cons.prems(1) ok(1)] by blast
  from Cons.IH [OF m1(2) ok(2)] m1(1) show ?case by (simp add: session_entries_def)
qed (simp add: session_entries_def)

section \<open>Logs that match the disk\<close>

text \<open>
  A log is consistent with the disk at the time it is read if ids are not used twice,
  blocks belong to created files and end within the file on disk, and files grow on
  resize. \<open>s\<close> maps the known ids to the logged size and the size on disk, \<open>None\<close> for a
  file that failed the check of its size.
\<close>

definition size_on_disk :: "log_env \<Rightarrow> string \<Rightarrow> string \<Rightarrow> int \<Rightarrow> int option" where
  "size_on_disk env root name sz = (if usable_on_disk env root name sz then le_stat env (root @ name) else None)"

type_synonym disk_view = "int set \<times> (int \<rightharpoonup> int \<times> int option)"

fun consistent_entry :: "log_env \<Rightarrow> string \<Rightarrow> LogEntry \<Rightarrow> disk_view \<Rightarrow> bool" where
  "consistent_entry env root (FileCreation ts name k sz) (used, s) \<longleftrightarrow> k \<notin> used"
| "consistent_entry env root (BlockWrite ts k off sz) (used, s) \<longleftrightarrow>
     (case s k of None \<Rightarrow> False | Some (_, None) \<Rightarrow> True | Some (_, Some d) \<Rightarrow> off + sz \<le> d)"
| "consistent_entry env root (FileResize ts k sz) (used, s) \<longleftrightarrow>
     (case s k of Some (old, Some d) \<Rightarrow> old \<le> sz \<and> (le_preallocate env \<longrightarrow> sz \<le> d) | _ \<Rightarrow> False)"
| "consistent_entry env root (FileInvalidation ts k) (used, s) \<longleftrightarrow> s k \<noteq> None"
| "consistent_entry env root e v \<longleftrightarrow> False"

fun view_after :: "log_env \<Rightarrow> string \<Rightarrow> LogEntry \<Rightarrow> disk_view \<Rightarrow> disk_view" where
  "view_after env root (FileCreation ts name k sz) (used, s) = (insert k used, s(k \<mapsto> (sz, size_on_disk env root name sz)))"
| "view_after env root (FileResize ts k sz) (used, s) =
     (used, case s k of None \<Rightarrow> s | Some (_, d) \<Rightarrow> s(k \<mapsto> (sz, d)))"
| "view_after env root (FileInvalidation ts k) (used, s) = (used, s(k := None))"
| "view_after env root e v = v"

fun consistent_log :: "log_env \<Rightarrow> string \<Rightarrow> LogEntry list \<Rightarrow> disk_view \<Rightarrow> bool" where
  "consistent_log env root [] v = True"
| "consistent_log env root (e # es) v = (consistent_entry env root e v \<and> consistent_log env root es (view_after env root e v))"

lemma consistent_log_take: "consistent_log env root es v \<Longrightarrow> consistent_log env root (take k es) v"
  by (induction es arbitrary: k v) (auto simp: take_Cons split: nat.splits)

text \<open>The parser agrees with the view on the files that are usable and on the ids that are not.\<close>

fun agree_at :: "LogParser \<Rightarrow> int \<Rightarrow> (int \<times> int option) option \<Rightarrow> bool" where
  "agree_at p k None \<longleftrightarrow> map_of (lp_fileInfoMap p) k = None \<and> k \<notin> set (lp_invalidSeqIds p)"
| "agree_at p k (Some (old, None)) \<longleftrightarrow> map_of (lp_fileInfoMap p) k = None \<and> k \<in> set (lp_invalidSeqIds p)"
| "agree_at p k (Some (old, Some d)) \<longleftrightarrow> k \<notin> set (lp_invalidSeqIds p) \<and> map_of (lp_seqIdToSizeMap p) k = Some old \<and>
     map_option fc_fileSize (map_of (lp_fileInfoMap p) k) = Some d"

definition agrees :: "string \<Rightarrow> LogParser \<Rightarrow> disk_view \<Rightarrow> bool" where
  "agrees root p = (\<lambda>(used, s).
     lp_headerParsed p \<and> \<not> lp_parseOnly p \<and> lp_rootDir p = root \<and>
     dom (map_of (lp_seqIdToSizeMap p)) \<subseteq> used \<and> dom (map_of (lp_fileInfoMap p)) \<subseteq> used \<and>
     set (lp_invalidSeqIds p) \<subseteq> used \<and> (\<forall>k. agree_at p k (s k)))"

definition same_except :: "int \<Rightarrow> LogParser \<Rightarrow> LogParser \<Rightarrow> bool" where
  "same_except k p p' \<longleftrightarrow> lp_headerParsed p' = lp_headerParsed p \<and> lp_parseOnly p' = lp_parseOnly p \<and> lp_rootDir p' = lp_rootDir p \<and>
     (\<forall>i. i \<noteq> k \<longrightarrow> map_of (lp_fileInfoMap p') i = map_of (lp_fileInfoMap p) i \<and>
        map_of (lp_seqIdToSizeMap p') i = map_of (lp_seqIdToSizeMap p) i \<and>
        (i \<in> set (lp_invalidSeqIds p') \<longleftrightarrow> i \<in> set (lp_invalidSeqIds p)))"

lemma agrees_update:
  assumes p: "agrees root p (used, s)" and same: "same_except k p p'" and k: "agree_at p' k v" "k \<in> used'" "used \<subseteq> used'"
  shows "agrees root p' (used', s(k := v))"
proof -
  have "agree_at p' i u = agree_at p i u" if "i \<noteq> k" for i u
    using same that by (cases "(p, i, u)" rule: agree_at.cases) (auto simp: same_except_def)
  moreover have "map_of (lp_seqIdToSizeMap p') i = None \<and> map_of (lp_fileInfoMap p') i = None \<and> i \<notin> set (lp_invalidSeqIds p')"
    if "i \<notin> used'" for i
  proof -
    have i: "i \<notin> used" "i \<noteq> k" using that k(2,3) by auto
    then have "i \<notin> dom (map_of (lp_seqIdToSizeMap p))" "i \<notin> dom (map_of (lp_fileInfoMap p))" "i \<notin> set (lp_invalidSeqIds p)"
      using p unfolding agrees_def by auto
    then show ?thesis using same i(2) by (simp add: same_except_def domIff)
  qed
  then have "dom (map_of (lp_seqIdToSizeMap p')) \<subseteq> used'" "dom (map_of (lp_fileInfoMap p')) \<subseteq> used'"
    "set (lp_invalidSeqIds p') \<subseteq> used'" by (auto intro: ccontr)
  ultimately show ?thesis using p same k(1) unfolding agrees_def same_except_def by auto
qed

lemma agrees_known:
  assumes "agrees root p (used, s)" "s k \<noteq> None"
  shows "k \<in> used"
proof -
  have "agree_at p k (s k)" and used: "dom (map_of (lp_fileInfoMap p)) \<subseteq> used" "set (lp_invalidSeqIds p) \<subseteq> used"
    using assms(1) unfolding agrees_def by auto
  then show ?thesis using assms(2) by (cases "(p, k, s k)" rule: agree_at.cases) auto
qed

lemma creation_agrees:
  assumes p: "agrees root p (used, s)" and k: "k \<notin> used" and env: "\<not> le_resumeUsingDirTree env"
  shows "\<exists>p'. apply_creation env (ts, name, k, sz) p = (OK, p') \<and>
    agrees root p' (view_after env root (FileCreation ts name k sz) (used, s))"
proof -
  note A = p [unfolded agrees_def, simplified]
  have none: "map_of (lp_fileInfoMap p) k = None" "map_of (lp_seqIdToSizeMap p) k = None" "k \<notin> set (lp_invalidSeqIds p)"
    using A k by (auto simp: dom_def)
  then have new: "k \<notin> fst ` set (lp_fileInfoMap p)" "k \<notin> fst ` set (lp_seqIdToSizeMap p)" by (simp_all add: map_of_eq_None_iff)
  obtain p' where "apply_creation env (ts, name, k, sz) p = (OK, p')" "same_except k p p'"
    "agree_at p' k (Some (sz, size_on_disk env root name sz))"
  proof (cases "size_on_disk env root name sz")
    case None
    then show ?thesis using A new none env that [of "p\<lparr>lp_invalidSeqIds := List.insert k (lp_invalidSeqIds p)\<rparr>"]
      by (auto simp: apply_creation_def size_on_disk_def usable_on_disk_def same_except_def split: option.splits if_splits)
  next
    case (Some d)
    define p' where "p' = p\<lparr>lp_fileInfoMap := (k, \<lparr>fc_seqId = k, fc_fileName = name, fc_fileSize = d, fc_chunks = []\<rparr>) # lp_fileInfoMap p,
      lp_seqIdToSizeMap := (k, sz) # lp_seqIdToSizeMap p\<rparr>"
    have "apply_creation env (ts, name, k, sz) p = (OK, p')"
      using Some A new none(3) env unfolding p'_def
      by (auto simp: apply_creation_def size_on_disk_def usable_on_disk_def emplace_def simp del: image_iff
          split: option.splits if_splits)
    then show ?thesis using that [of p'] Some none(3) by (simp add: same_except_def p'_def)
  qed
  then show ?thesis
    using agrees_update [OF p, of k p' "Some (sz, size_on_disk env root name sz)" "insert k used"] by auto
qed

lemma block_agrees:
  assumes p: "agrees root p (used, s)" and k: "consistent_entry env root (BlockWrite ts k off sz) (used, s)"
    and env: "\<not> le_resumeUsingDirTree env"
  shows "\<exists>p'. apply_block env (ts, k, off, sz) p = (OK, p') \<and> agrees root p' (used, s)"
proof -
  have A: "\<not> lp_parseOnly p" "agree_at p k (s k)" using p unfolding agrees_def by auto
  obtain old disk where sk: "s k = Some (old, disk)" using k by (auto split: option.splits)
  show ?thesis
  proof (cases disk)
    case None
    then show ?thesis using A sk env p by (simp add: apply_block_def)
  next
    case (Some d)
    then obtain f where f: "map_of (lp_fileInfoMap p) k = Some f" "fc_fileSize f = d" "k \<notin> set (lp_invalidSeqIds p)"
      and size: "map_of (lp_seqIdToSizeMap p) k = Some old" using A(2) sk by auto
    define p' where "p' = p\<lparr>lp_fileInfoMap := AList.update k (addChunk (mkInterval off (off + sz)) f) (lp_fileInfoMap p)\<rparr>"
    have "apply_block env (ts, k, off, sz) p = (OK, p')"
      using f A(1) env k sk Some by (simp add: apply_block_def p'_def)
    moreover have "same_except k p p'" "agree_at p' k (s k)"
      using f size sk Some by (simp_all add: p'_def same_except_def update_conv' addChunk_def)
    moreover from this have "agrees root p' (used, s(k := s k))"
      using agrees_update [OF p, of k p' "s k" used] agrees_known [OF p, of k] sk by (simp del: fun_upd_triv)
    ultimately show ?thesis by simp
  qed
qed

lemma resize_agrees:
  assumes p: "agrees root p (used, s)" and k: "consistent_entry env root (FileResize ts k sz) (used, s)"
    and env: "\<not> le_resumeUsingDirTree env"
  shows "\<exists>p'. apply_resize env (ts, k, sz) p = Ok (OK, p') \<and> agrees root p' (view_after env root (FileResize ts k sz) (used, s))"
proof -
  have A: "\<not> lp_parseOnly p" "agree_at p k (s k)" using p unfolding agrees_def by auto
  obtain old d where sk: "s k = Some (old, Some d)" "old \<le> sz" "le_preallocate env \<longrightarrow> sz \<le> d"
    using k by (auto split: option.splits)
  then obtain f where f: "map_of (lp_fileInfoMap p) k = Some f" "fc_fileSize f = d" "k \<notin> set (lp_invalidSeqIds p)"
    and size: "map_of (lp_seqIdToSizeMap p) k = Some old" using A(2) by auto
  define p' where "p' = p\<lparr>lp_seqIdToSizeMap := AList.update k sz (lp_seqIdToSizeMap p)\<rparr>"
  have "apply_resize env (ts, k, sz) p = Ok (OK, p')" using f size A(1) env sk by (auto simp: apply_resize_def p'_def)
  moreover have "same_except k p p'" "agree_at p' k (Some (sz, Some d))"
    using f by (simp_all add: p'_def same_except_def update_conv')
  ultimately show ?thesis using agrees_update [OF p] agrees_known [OF p, of k] sk by simp
qed

lemma invalidation_agrees:
  assumes p: "agrees root p (used, s)" and k: "s k \<noteq> None" and env: "\<not> le_resumeUsingDirTree env"
  shows "\<exists>p'. apply_invalidation env (ts, k) p = (OK, p') \<and> agrees root p' (used, s(k := None))"
proof -
  have A: "\<not> lp_parseOnly p" "agree_at p k (s k)" using p unfolding agrees_def by auto
  define p' where "p' = p\<lparr>lp_fileInfoMap := AList.delete k (lp_fileInfoMap p), lp_invalidSeqIds := removeAll k (lp_invalidSeqIds p)\<rparr>"
  have "map_of (lp_fileInfoMap p) k \<noteq> None \<or> k \<in> set (lp_invalidSeqIds p)"
    using A(2) k by (cases "(p, k, s k)" rule: agree_at.cases) auto
  then have "apply_invalidation env (ts, k) p = (OK, p')"
    using A(1) env by (auto simp: apply_invalidation_def p'_def map_of_eq_None_iff)
  moreover have "same_except k p p'" "agree_at p' k None"
    by (simp_all add: p'_def same_except_def delete_conv')
  ultimately show ?thesis using agrees_update [OF p] agrees_known [OF p k] by simp
qed

lemma replay_consistent:
  assumes "agrees root p v" "consistent_log env root es v" "\<not> le_resumeUsingDirTree env"
  shows "\<exists>p'. replay env es OK ip p = Ok (Some OK, ip, p')"
  using assms
proof (induction es arbitrary: p v)
  case (Cons e es)
  obtain used s where v: "v = (used, s)" by (cases v)
  have h: "lp_headerParsed p" using Cons.prems(1) unfolding v agrees_def by simp
  have c: "consistent_entry env root e (used, s)" "consistent_log env root es (view_after env root e (used, s))"
    using Cons.prems(2) by (simp_all add: v)
  note P = Cons.prems(1) [unfolded v]
  have "\<exists>p'. replay_entry env e ip p = Ok (OK, ip, p') \<and> agrees root p' (view_after env root e (used, s))"
  proof (cases e)
    case (FileCreation ts name k sz)
    then show ?thesis using creation_agrees [OF P _ Cons.prems(3), of k ts name sz] c(1) h by (auto split: prod.splits)
  next
    case (BlockWrite ts k off sz)
    then show ?thesis using block_agrees [OF P _ Cons.prems(3), of ts k off sz] c(1) h by (auto split: prod.splits)
  next
    case (FileResize ts k sz)
    then show ?thesis using resize_agrees [OF P _ Cons.prems(3), of ts k sz] c(1) h by (auto split: prod.splits)
  next
    case (FileInvalidation ts k)
    then show ?thesis using invalidation_agrees [OF P _ Cons.prems(3), of k ts] c(1) h by (auto split: prod.splits)
  qed (use c(1) in auto)
  then obtain p' where p': "replay_entry env e ip p = Ok (OK, ip, p')" "agrees root p' (view_after env root e (used, s))" by blast
  from Cons.IH [OF p'(2) c(2) Cons.prems(3)] p'(1) show ?case by simp
qed simp

section \<open>From one session to the next\<close>

text \<open>A new log is opened and parsed, the session starts with the first connection, and the
  header is written when a resuming sender asks for its chunks.\<close>

definition begin_session :: "manager_env \<Rightarrow> int \<Rightarrow> string \<Rightarrow> string \<Rightarrow> bool \<Rightarrow> LogManager \<Rightarrow> LogManager outcome" where
  "begin_session env ts rid ip isBlockMode m =
     outcome_bind (openLog env No_entry True True [] m) (\<lambda>(_, m1).
     outcome_bind (parseAndMatch env ts (\<lambda>n. n) (\<lambda>n. n) rid (getTransferConfig env) m1) (\<lambda>(_, infos, m2).
     outcome_bind (startSessionLog env ts (\<lambda>n. n) (\<lambda>n. n) ip (infos, m2)) (\<lambda>(_, m3).
     addTransferLogHeader env ts (\<lambda>n. n) (\<lambda>n. n) isBlockMode True m3)))"

definition log_mode :: "manager_env \<Rightarrow> bool" where
  "log_mode env \<longleftrightarrow> me_enable_download_resumption env \<and> \<not> le_resumeUsingDirTree (me_log env) \<and> 0 \<le> me_write_interval_ms env \<and>
     \<not> le_readFails (me_log env) 0"

lemma begin_session_inv:
  assumes env: "log_mode env" and h: "ok_entry (LogHeader ts rid ip (getTransferConfig env))" and root: "root \<noteq> []"
  shows "\<exists>m. begin_session env ts rid ip isBlockMode (newLogManager root st cfg) = Ok m \<and>
    session_inv (wire_entry (LogHeader ts rid ip (getTransferConfig env))) [] m \<and> lm_writer m = Running"
proof -
  have parse: "parseLog (me_log env) ts [] [] p = Ok (OK, [], [], [])" if "lp_fileInfoMap p = []" "lp_invalidSeqIds p = []" for p
    using env that by (simp add: parseLog_def parse_loop.simps log_mode_def)
  have enc: "encodeLogHeader ts rid ip (getTransferConfig env) entry_buf = Ok (wire_entry (LogHeader ts rid ip (getTransferConfig env)))"
    using encode_entry_buf [OF h] by simp
  show ?thesis using env root parse [of "newParser _ _ _ _"]
    by (simp add: begin_session_def openLog_def newLogManager_def log_mode_def parseAndMatch_def parseVerifyAndFix_def
        newParser_def startSessionLog_def startThread_def verifySenderIp_def addTransferLogHeader_def writeLogHeader_def enc
        sys_write_def fsyncLog_def session_inv_def logging_def) blast
qed

text \<open>What a parser finds in a log that was cut off somewhere after its header.\<close>

lemma parse_cut_log:
  assumes es: "\<forall>e \<in> set es. ok_entry e" "ok_entry (LogHeader ts rid ip config)" "ip \<noteq> []"
    and bs: "prefix bs (wire_log es)"
    and env: "\<And>k. \<not> le_readFails env k" "le_truncateOk env" "le_appendOk env" "\<not> le_resumeUsingDirTree env"
    and c: "consistent_log env root es ({}, Map.empty)" and ts2: "nonneg_i64 ts2"
  shows "\<exists>k \<le> length es. (bs = wire_log es \<longrightarrow> k = length es) \<and>
    (\<exists>infos log. parseLog env ts2 (wire_entry (LogHeader ts rid ip config) @ bs) ip0 (newParser root rid config False) = Ok (OK, ip, infos, log) \<and>
       fold (absorb env root rid config) (take k es) (Some Map.empty) = Some (map_of (map (\<lambda>f. (fc_seqId f, abs_file f)) infos)))"
proof -
  let ?h = "LogHeader ts rid ip config" and ?p = "newParser root rid config False"
  obtain k tail where k: "k \<le> length es" "bs = wire_log (take k es) @ tail" "log_tail tail" "bs = wire_log es \<longrightarrow> k = length es"
  proof (cases "bs = wire_log es")
    case True
    then show ?thesis using that [of "length es" "[]"] by (simp add: log_tail_def)
  next
    case False
    then show ?thesis using prefix_log_cut [OF es(1) bs] that by blast
  qed
  define hs where "hs = ?h # take k es"
  have hs: "\<forall>e \<in> set hs. ok_entry e" using es(1,2) by (auto simp: hs_def dest: in_set_takeD)
  have content: "wire_entry ?h @ bs = written_log entry_buf hs @ tail"
    using written_log_wire [OF _ hs] k(2) by (simp add: hs_def kMaxEntryLength_def PATH_MAX_def)
  have "agrees root (?p\<lparr>lp_headerParsed := True\<rparr>) ({}, Map.empty)" by (simp add: agrees_def newParser_def)
  from replay_consistent [OF this consistent_log_take [OF c] env(4)] es(3)
  obtain p' where p': "replay env hs OK ip0 ?p = Ok (Some OK, ip, p')"
    by (auto simp: hs_def apply_header_def newParser_def)
  have len: "int (length entry_buf) = kMaxEntryLength" by (simp add: kMaxEntryLength_def PATH_MAX_def)
  from parseLog_written [OF len hs k(3) env(1,2) ts2 p'] env(3)
  obtain infos log where parse: "parseLog env ts2 (written_log entry_buf hs @ tail) ip0 ?p = Ok (OK, ip, infos, log)"
    by (cases "lp_invalidSeqIds p' = []") (auto simp: Let_def)
  from parse_refines_abstract [OF len hs k(3) env(1,2) ts2 parse]
  have "fold (absorb env root rid config) (take k es) (Some Map.empty) = Some (map_of (map (\<lambda>f. (fc_seqId f, abs_file f)) infos))"
    by (simp add: hs_def)
  with k(1,4) parse content show ?thesis by auto
qed

text \<open>C7: resumption after a crash. A receiver opens a new log, starts a session and logs
  what it writes while the writer thread copies the entries to disk, with writes
  that may fail or be cut short at any time. Whatever part of the log is on disk when
  the receiver dies, the next session accepts it, if it still matches the disk, and
  gets the files of the abstract log after some prefix of the entries: no byte is taken
  as received that was not logged. If the writer thread lost nothing and nothing is
  buffered, the prefix is the whole session.\<close>

theorem crash_recovery:
  assumes mode: "log_mode env" "ok_entry (LogHeader ts rid ip (getTransferConfig env))" "ip \<noteq> []" "root \<noteq> []"
    and run: "outcome_bind (begin_session env ts rid ip isBlockMode (newLogManager root st cfg)) (log_session as) = Ok m"
      "\<forall>e \<in> set (session_entries as). ok_entry e"
    and disk: "\<And>k. \<not> le_readFails env2 k" "le_truncateOk env2" "le_appendOk env2" "\<not> le_resumeUsingDirTree env2"
      "consistent_log env2 root2 (session_entries as) ({}, Map.empty)" "nonneg_i64 ts2"
  shows "\<exists>k \<le> length (session_entries as). (lm_writer m = Running \<and> lm_entries m = [] \<longrightarrow> k = length (session_entries as)) \<and>
    (\<exists>infos log. parseLog env2 ts2 (lm_file m) ip0 (newParser root2 rid (getTransferConfig env) False) = Ok (OK, ip, infos, log) \<and>
       fold (absorb env2 root2 rid (getTransferConfig env)) (take k (session_entries as)) (Some Map.empty)
         = Some (map_of (map (\<lambda>f. (fc_seqId f, abs_file f)) infos)))"
proof -
  let ?h = "LogHeader ts rid ip (getTransferConfig env)" and ?es = "session_entries as"
  obtain m0 where m0: "begin_session env ts rid ip isBlockMode (newLogManager root st cfg) = Ok m0" "session_inv (wire_entry ?h) [] m0"
    using begin_session_inv [OF mode(1,2,4)] by blast
  have "session_inv (wire_entry ?h) ?es m" using session_runs [OF m0(2) run(2)] run(1) m0(1) by simp
  then obtain bs where bs: "lm_file m = wire_entry ?h @ bs"
    "lm_writer m = Running \<and> bs @ concat (lm_entries m) = wire_log ?es \<or> lm_writer m = Returned \<and> prefix bs (wire_log ?es)"
    by (auto simp: session_inv_def)
  then have "prefix bs (wire_log ?es)" "lm_writer m = Running \<and> lm_entries m = [] \<longrightarrow> bs = wire_log ?es"
    by (metis prefixI, auto)
  with parse_cut_log [OF run(2) mode(2,3) _ disk(1-6), of bs ip0] show ?thesis unfolding bs(1) by blast
qed

lemma writer_keeps_running:
  "session_inv base es m \<Longrightarrow> lm_writer m = Running \<Longrightarrow> (\<And>w. a = Writer_wakes w \<Longrightarrow> \<forall>n. w n = n) \<Longrightarrow>
   log_action_step a m = Ok m' \<Longrightarrow> lm_writer m' = Running"
  by (cases a) (auto simp: addFileCreationEntry_def addBlockWriteEntry_def addFileResizeEntry_def session_inv_def logging_def
      addFileInvalidationEntry_def buffer_entry_def writer_iteration_def writeEntriesToDiskNoLock_def sys_write_def Let_def
      split: outcome.splits if_splits prod.splits)

definition writes_succeed :: "log_action list \<Rightarrow> bool" where
  "writes_succeed as \<longleftrightarrow> (\<forall>w n. Writer_wakes w \<in> set as \<longrightarrow> w n = n)"

lemma session_keeps_running:
  assumes "session_inv base es m" "lm_writer m = Running" "writes_succeed as" "\<forall>e \<in> set (session_entries as). ok_entry e"
    "log_session as m = Ok m'"
  shows "lm_writer m' = Running"
  using assms
proof (induction as arbitrary: es m)
  case (Cons a as)
  have ok: "\<forall>e \<in> set (action_entries a). ok_entry e" "\<forall>e \<in> set (session_entries as). ok_entry e" "writes_succeed as"
    using Cons.prems(3,4) by (auto simp: session_entries_def writes_succeed_def)
  obtain m1 where m1: "log_action_step a m = Ok m1" "session_inv base (es @ action_entries a) m1"
    using session_step [OF Cons.prems(1) ok(1)] by blast
  have "lm_writer m1 = Running"
    using writer_keeps_running [OF Cons.prems(1,2) _ m1(1)] Cons.prems(3) by (auto simp: writes_succeed_def)
  with Cons.IH [OF m1(2) _ ok(3,2)] Cons.prems(5) m1(1) show ?case by simp
qed simp

text \<open>C21: nothing is lost in a clean shutdown. If no write fails, closing the log stops the
  writer thread, closes the file, and the file then holds the header and every entry of
  the session, in the order in which they were added.\<close>

theorem closeLog_flushes:
  assumes mode: "log_mode env" "ok_entry (LogHeader ts rid ip (getTransferConfig env))" "root \<noteq> []" "me_sameInode env"
    and run: "outcome_bind (begin_session env ts rid ip isBlockMode (newLogManager root st cfg)) (log_session as) = Ok m"
      "\<forall>e \<in> set (session_entries as). ok_entry e" "writes_succeed as"
  shows "\<exists>m'. closeLog env (\<lambda>n. n) m = Ok m' \<and> \<not> lm_fd m' \<and> lm_entries m' = [] \<and> lm_writer m' = Not_joinable \<and>
    lm_file m' = written_log entry_buf (LogHeader ts rid ip (getTransferConfig env) # session_entries as)"
proof -
  let ?h = "LogHeader ts rid ip (getTransferConfig env)" and ?es = "session_entries as"
  obtain m0 where m0: "begin_session env ts rid ip isBlockMode (newLogManager root st cfg) = Ok m0"
    "session_inv (wire_entry ?h) [] m0" "lm_writer m0 = Running" using begin_session_inv [OF mode(1-3)] by blast
  have s: "log_session as m0 = Ok m" using run(1) m0(1) by simp
  have inv: "session_inv (wire_entry ?h) ?es m" using session_runs [OF m0(2) run(2)] s by simp
  have w: "lm_writer m = Running" by (rule session_keeps_running [OF m0(2,3) run(3,2) s])
  have "written_log entry_buf (?h # ?es) = wire_log (?h # ?es)"
    using mode(2) run(2) by (intro written_log_wire) (auto simp: kMaxEntryLength_def PATH_MAX_def)
  then show ?thesis using inv w mode(1,4)
    by (auto simp: session_inv_def logging_def closeLog_def close_fd_def checkLog_def getFullPath_def shutdownThread_def
        writer_iteration_def writeEntriesToDiskNoLock_def sys_write_def Let_def log_mode_def
        simp del: concat_eq_Nil_conv)
qed

section \<open>Two errors\<close>

lemma idle_writer_step:
  assumes "lm_writer m = Not_joinable" "log_action_step a m = Ok m'"
  shows "lm_writer m' = Not_joinable \<and> lm_file m' = lm_file m"
  using assms
  by (cases a) (auto simp: addFileCreationEntry_def addBlockWriteEntry_def addFileResizeEntry_def
      addFileInvalidationEntry_def buffer_entry_def split: outcome.splits if_splits)

lemma idle_writer_session:
  "lm_writer m = Not_joinable \<Longrightarrow> log_session as m = Ok m' \<Longrightarrow> lm_writer m' = Not_joinable \<and> lm_file m' = lm_file m"
  by (induction as arbitrary: m) (auto dest: idle_writer_step)

lemma idle_writer_close:
  "lm_writer m = Not_joinable \<Longrightarrow> closeLog env w m = Ok m' \<Longrightarrow> lm_writer m' = Not_joinable \<and> lm_file m' = lm_file m"
  by (auto simp: closeLog_def close_fd_def shutdownThread_def split: if_splits)

lemma sys_write_writer: "sys_write w sz bs m = (n, m') \<Longrightarrow> lm_writer m' = lm_writer m"
  by (auto simp: sys_write_def Let_def split: if_splits)

lemma idle_writer_invalidate:
  assumes "lm_writer m = Not_joinable" "invalidateDirectory env ts w w' m = Ok m'"
  shows "lm_writer m' = Not_joinable"
proof (cases "lm_fd m")
  case True
  then obtain sz bs where enc: "encoded (encodeDirectoryInvalidationEntry ts entry_buf) = Ok (sz, bs)"
    using assms(2) by (auto simp: invalidateDirectory_def)
  obtain n m1 where 1: "sys_write w sz bs (m\<lparr>lm_resumptionStatus := INCONSISTENT_DIRECTORY\<rparr>) = (n, m1)" by fastforce
  then have 2: "(if n \<noteq> sz then closeLog env w' m1 else Ok m1) = Ok m'"
    using assms(2) True enc by (auto simp: invalidateDirectory_def fsyncLog_def split: if_splits)
  have "lm_writer m1 = Not_joinable" using sys_write_writer [OF 1] assms(1) by simp
  then show ?thesis using 2 idle_writer_close by (auto split: if_splits)
qed (use assms in \<open>simp add: invalidateDirectory_def\<close>)

lemma idle_writer_write_header:
  assumes "lm_writer m = Not_joinable" "writeLogHeader env ts w w' m = Ok m'"
  shows "lm_writer m' = Not_joinable"
proof (cases "lm_fd m")
  case True
  then obtain sz bs where enc:
    "encoded (encodeLogHeader ts (lm_recoveryId m) (lm_senderIp m) (lm_config m) entry_buf) = Ok (sz, bs)"
    using assms(2) by (auto simp: writeLogHeader_def)
  obtain n m1 where 1: "sys_write w sz bs m = (n, m1)" by fastforce
  then have 2: "closeLog env w' m1 = Ok m' \<or> m' = m1\<lparr>lm_resumptionStatus := OK, lm_headerWritten := True\<rparr>"
    using assms(2) True enc by (auto simp: writeLogHeader_def fsyncLog_def split: if_splits)
  have "lm_writer m1 = Not_joinable" using sys_write_writer [OF 1] assms(1) by simp
  then show ?thesis using 2 idle_writer_close by auto
qed (use assms in \<open>simp add: writeLogHeader_def\<close>)

lemma idle_writer_verify:
  "lm_writer m = Not_joinable \<Longrightarrow> verifySenderIp env ts w w' ip m = Ok (b, m') \<Longrightarrow> lm_writer m' = Not_joinable"
  by (auto simp: verifySenderIp_def split: if_splits dest: idle_writer_invalidate)

lemma idle_writer_header:
  "lm_writer m = Not_joinable \<Longrightarrow> addTransferLogHeader env ts w w' b r m = Ok m' \<Longrightarrow> lm_writer m' = Not_joinable"
  by (auto simp: addTransferLogHeader_def split: if_splits dest: idle_writer_invalidate idle_writer_write_header)


text \<open>C38: a failed write of a directory invalidation ends the process: the log is closed and
  then synced, and the sync checks that it is open.\<close>

theorem failed_invalidation_aborts:
  assumes "lm_fd m" "nonneg_i64 ts" "\<forall>n. w n \<noteq> n"
  shows "invalidateDirectory env ts w w' m = Abort"
proof -
  have "ok_entry (DirectoryInvalidation ts)" using assms(2) by (intro small_entry_ok) simp_all
  from encode_entry_buf [OF this]
  have enc: "encodeDirectoryInvalidationEntry ts entry_buf = Ok (wire_entry (DirectoryInvalidation ts))" by simp
  have "outcome_bind (closeLog env w' m1) fsyncLog = Abort" for m1
    by (cases "closeLog env w' m1") (auto simp: closeLog_def close_fd_def checkLog_def getFullPath_def fsyncLog_def split: if_splits)
  then show ?thesis using assms(1,3) by (simp add: invalidateDirectory_def enc sys_write_def Let_def)
qed

section \<open>An example session\<close>

definition example_manager_env :: manager_env where
  "example_manager_env = \<lparr>me_log = example_log_env, me_enable_download_resumption = True, me_disable_sender_verification = False,
     me_write_interval_ms = 100, me_sameInode = True\<rparr>"

definition example_actions :: "log_action list" where
  "example_actions = [Log_creation 2 ''f'' 0 10, Writer_wakes (\<lambda>n. n), Log_block 3 0 0 4, Log_creation 5 ''g'' 1 3]"

lemma example_session_ok:
  "log_mode example_manager_env" "me_sameInode example_manager_env"
  "ok_entry (LogHeader 1 ''id'' ''ip'' (getTransferConfig example_manager_env))"
  "\<forall>e \<in> set (session_entries example_actions). ok_entry e" "writes_succeed example_actions"
  "consistent_log example_log_env ''/d/'' (session_entries example_actions) ({}, Map.empty)"
  by (simp_all add: log_mode_def example_manager_env_def example_log_env_def example_actions_def session_entries_def
      writes_succeed_def nonneg_i64_def short_string_def getTransferConfig_def small_entry_ok size_on_disk_def usable_on_disk_def)

lemma example_session_runs:
  "\<exists>m. outcome_bind (begin_session example_manager_env 1 ''id'' ''ip'' True (newLogManager ''/d'' OK 0)) (log_session example_actions) = Ok m"
  using begin_session_inv [OF example_session_ok(1,3), of "''/d''" True OK 0] session_runs [OF _ example_session_ok(4)] by fastforce

theorem crash_recovery_witness:
  "\<exists>m k infos log. outcome_bind (begin_session example_manager_env 1 ''id'' ''ip'' True (newLogManager ''/d'' OK 0)) (log_session example_actions) = Ok m \<and>
    k \<le> length (session_entries example_actions) \<and>
    parseLog example_log_env 6 (lm_file m) [] (newParser ''/d/'' ''id'' (getTransferConfig example_manager_env) False) = Ok (OK, ''ip'', infos, log) \<and>
    fold (absorb example_log_env ''/d/'' ''id'' (getTransferConfig example_manager_env)) (take k (session_entries example_actions)) (Some Map.empty)
      = Some (map_of (map (\<lambda>f. (fc_seqId f, abs_file f)) infos))"
proof -
  obtain m where m: "outcome_bind (begin_session example_manager_env 1 ''id'' ''ip'' True (newLogManager ''/d'' OK 0)) (log_session example_actions) = Ok m"
    using example_session_runs by blast
  have "le_appendOk example_log_env" "\<not> le_resumeUsingDirTree example_log_env" "nonneg_i64 6"
    by (simp_all add: example_log_env_def nonneg_i64_def)
  from crash_recovery [OF example_session_ok(1,3) _ _ m example_session_ok(4) example_env_ok(1,2) this(1,2) example_session_ok(6) this(3), of "[]"] m
  show ?thesis by blast
qed

theorem closeLog_flushes_witness:
  "\<exists>m m'. outcome_bind (begin_session example_manager_env 1 ''id'' ''ip'' True (newLogManager ''/d'' OK 0)) (log_session example_actions) = Ok m \<and>
    closeLog example_manager_env (\<lambda>n. n) m = Ok m' \<and> \<not> lm_fd m' \<and> lm_entries m' = [] \<and> lm_writer m' = Not_joinable \<and>
    lm_file m' = written_log entry_buf (LogHeader 1 ''id'' ''ip'' (getTransferConfig example_manager_env) # session_entries example_actions)"
proof -
  obtain m where m: "outcome_bind (begin_session example_manager_env 1 ''id'' ''ip'' True (newLogManager ''/d'' OK 0)) (log_session example_actions) = Ok m"
    using example_session_runs by blast
  from closeLog_flushes [OF example_session_ok(1,3) _ example_session_ok(2) m example_session_ok(4,5)] m show ?thesis by blast
qed

definition inconsistent_manager :: LogManager where
  "inconsistent_manager = (newLogManager ''/d'' INCONSISTENT_DIRECTORY 0)\<lparr>lm_fd := True\<rparr>"


theorem failed_invalidation_aborts_witness:
  "lm_fd inconsistent_manager \<and> nonneg_i64 1 \<and> invalidateDirectory example_manager_env 1 (\<lambda>n. -1 - n) (\<lambda>n. n) inconsistent_manager = Abort"
proof -
  have "lm_fd inconsistent_manager" "nonneg_i64 1" "\<forall>n. -1 - n \<noteq> (n :: int)"
    by (simp_all add: inconsistent_manager_def nonneg_i64_def) presburger
  then show ?thesis using failed_invalidation_aborts [of inconsistent_manager 1 "\<lambda>n. -1 - n"] by blast
qed

end
