(* ===== verification/File_Creator.thy ===== *)
theory File_Creator
  imports Log_Manager
begin

text \<open>
  Creating and opening the files of a transfer (\<open>util/FileCreator\<close>): which paths of a sender
  are accepted, how directories and files are created below the root directory, how a
  file gets its size, and how the receiver threads that write blocks of one file agree
  on the thread that allocates it. The file system is a parameter: the results of the
  calls are arguments, and the calls made are recorded.
\<close>

section \<open>Path safety\<close>

text \<open>\<open>std::string::find\<close> of a character; \<open>None\<close> is \<open>npos\<close>.\<close>

definition str_find :: "char \<Rightarrow> string \<Rightarrow> nat \<Rightarrow> nat option" where
  "str_find c s start =
     (let n = start + length (takeWhile (\<lambda>x. x \<noteq> c) (drop start s)) in if n < length s then Some n else None)"

function safe_components :: "string \<Rightarrow> nat \<Rightarrow> bool" where
  "safe_components relPath start =
     (let fin = (case str_find (CHR ''/'') relPath start of None \<Rightarrow> length relPath | Some n \<Rightarrow> n);
          component = take (fin - start) (drop start relPath)
      in if component = [] \<or> component = ''.'' \<or> component = ''..'' then False
         else if fin = length relPath then True
         else safe_components relPath (fin + 1))"
  by pat_completeness auto
termination
  by (relation "measure (\<lambda>(p, start). Suc (length p) - start)")
    (auto simp: str_find_def Let_def split: option.splits if_splits)

declare safe_components.simps [simp del]

definition isSafeRelativePath :: "string \<Rightarrow> bool" where
  "isSafeRelativePath relPath =
     (if relPath = [] \<or> hd relPath = CHR ''/'' \<or> str_find (char_of (0 :: nat)) relPath 0 \<noteq> None then False
      else safe_components relPath 0)"

section \<open>Directories and files\<close>

datatype mkdir_result = Made | Already_there | Mkdir_failed

datatype fs_call = Mkdir string | Open_file string bool bool | Unlink string

record creator_env =
  ce_mkdir :: "string \<Rightarrow> mkdir_result"
  ce_open :: "nat \<Rightarrow> bool"
  ce_overwrite :: bool
  ce_enable_download_resumption :: bool
  ce_logBased :: bool
  ce_preallocate :: bool

record FileCreator =
  cr_rootDir :: string
  cr_createdDirs :: "string list"
  cr_fileStatusMap :: "int \<rightharpoonup> int"
  cr_skipWrites :: bool
  cr_calls :: "fs_call list"

definition addTrailingSlash :: "string \<Rightarrow> string" where
  "addTrailingSlash path = (if path \<noteq> [] \<and> last path = CHR ''/'' then path else path @ ''/'')"

definition fullPath :: "string \<Rightarrow> FileCreator \<Rightarrow> string" where
  "fullPath relPath c = cr_rootDir c @ relPath"

definition fs_record :: "fs_call \<Rightarrow> FileCreator \<Rightarrow> FileCreator" where
  "fs_record call c = c\<lparr>cr_calls := cr_calls c @ [call]\<rparr>"

text \<open>The loop that looks for the slash before position \<open>i\<close>; the result is the length of the
  directory part.\<close>

fun last_slash :: "string \<Rightarrow> nat \<Rightarrow> nat" where
  "last_slash s 0 = 0"
| "last_slash s (Suc i) = (if s ! i \<noteq> CHR ''/'' then last_slash s i else Suc i)"

lemma last_slash_le: "last_slash s i \<le> i"
  by (induction s i rule: last_slash.induct) auto

definition make_dir :: "creator_env \<Rightarrow> string \<Rightarrow> FileCreator \<Rightarrow> bool \<times> FileCreator" where
  "make_dir env dir c =
     (let path = fullPath dir c; c1 = fs_record (Mkdir path) c
      in if ce_mkdir env path = Mkdir_failed then (False, c1)
         else (True, c1\<lparr>cr_createdDirs := List.insert dir (cr_createdDirs c1)\<rparr>))"

function createDirRecursively :: "creator_env \<Rightarrow> bool \<Rightarrow> string \<Rightarrow> FileCreator \<Rightarrow> (bool \<times> FileCreator) outcome" where
  "createDirRecursively env force dir c =
     (if cr_skipWrites c then Ok (False, c)
      else if \<not> force \<and> dir \<in> set (cr_createdDirs c) then Ok (True, c)
      else if dir = [] \<or> last dir \<noteq> CHR ''/'' then Abort
      else let lastIndex = last_slash dir (length dir - 1)
           in outcome_bind (if lastIndex > 0 then createDirRecursively env force (take lastIndex dir) c else Ok (True, c))
                (\<lambda>(parent, c1). if \<not> parent then Ok (False, c1) else Ok (make_dir env dir c1)))"
  by pat_completeness auto
termination
  by (relation "measure (\<lambda>(_, _, dir, _). length dir)") (auto simp: le_less_trans [OF last_slash_le])

declare createDirRecursively.simps [simp del]

text \<open>The constructor creates the root directory with an empty root and clears the cache.\<close>

definition newFileCreator :: "creator_env \<Rightarrow> string \<Rightarrow> bool \<Rightarrow> FileCreator outcome" where
  "newFileCreator env rootDir skipWrites =
     (if rootDir = [] then Abort
      else outcome_bind (createDirRecursively env False (addTrailingSlash rootDir)
             \<lparr>cr_rootDir = [], cr_createdDirs = [], cr_fileStatusMap = Map.empty, cr_skipWrites = skipWrites, cr_calls = []\<rparr>)
             (\<lambda>(_, c). Ok (c\<lparr>cr_createdDirs := [], cr_rootDir := addTrailingSlash rootDir\<rparr>)))"

definition path_checks :: "string \<Rightarrow> bool" where
  "path_checks relPath \<longleftrightarrow> relPath \<noteq> [] \<and> hd relPath \<noteq> CHR ''/'' \<and> last relPath \<noteq> CHR ''/''"

definition openExistingFile :: "creator_env \<Rightarrow> string \<Rightarrow> FileCreator \<Rightarrow> (bool \<times> FileCreator) outcome" where
  "openExistingFile env relPath c =
     (if \<not> path_checks relPath then Abort
      else Ok (ce_open env 0, fs_record (Open_file (fullPath relPath c) False False) c))"

definition createDirWithRetry :: "creator_env \<Rightarrow> string \<Rightarrow> FileCreator \<Rightarrow> (bool \<times> FileCreator) outcome" where
  "createDirWithRetry env dir c =
     outcome_bind (createDirRecursively env False dir c) (\<lambda>(dirSuccess1, c1).
       if dirSuccess1 then Ok (True, c1) else createDirRecursively env True dir c1)"

text \<open>The open call creates the file and truncates it or, without truncation, is exclusive.\<close>

definition openCreated :: "creator_env \<Rightarrow> string \<Rightarrow> string \<Rightarrow> FileCreator \<Rightarrow> (bool \<times> FileCreator) outcome" where
  "openCreated env relPath dir c =
     (let call = Open_file (fullPath relPath c) True (ce_overwrite env \<or> ce_enable_download_resumption env);
          c1 = fs_record call c
      in if ce_open env 1 then Ok (True, c1)
         else if dir = [] then Ok (False, c1)
         else outcome_bind (createDirRecursively env True dir c1) (\<lambda>(dirSuccess, c2).
              if \<not> dirSuccess then Ok (False, c2) else Ok (ce_open env 2, fs_record call c2)))"

definition createFile :: "creator_env \<Rightarrow> string \<Rightarrow> FileCreator \<Rightarrow> (bool \<times> FileCreator) outcome" where
  "createFile env relPath c =
     (if \<not> path_checks relPath then Abort
      else if cr_skipWrites c then Ok (False, c)
      else let p = last_slash relPath (length relPath); dir = take p relPath
           in outcome_bind (if p = 0 then Ok (True, c) else createDirWithRetry env dir c) (\<lambda>(dirSuccess, c1).
                if \<not> dirSuccess then Ok (False, c1) else openCreated env relPath dir c1))"

section \<open>Setting the size of a file\<close>

text \<open>The argument is the size on disk, \<open>None\<close> if \<open>fstat\<close> fails; \<open>Some\<close> new size is success.\<close>

definition setFileSize :: "bool \<Rightarrow> bool \<Rightarrow> bool \<Rightarrow> int option \<Rightarrow> int \<Rightarrow> int option" where
  "setFileSize preallocate truncateOk fallocateOk onDisk fileSize =
     (case onDisk of
        None \<Rightarrow> None
      | Some st_size \<Rightarrow>
          if st_size > fileSize \<and> \<not> truncateOk then None
          else let sz = (if st_size > fileSize then if preallocate then fileSize else 0 else st_size)
               in if fileSize = 0 then Some sz
                  else if \<not> preallocate then Some sz
                  else if fallocateOk then Some (max sz fileSize) else None)"

text \<open>What the transfer log gets for a file that was opened and sized.\<close>

datatype log_call = Call_creation string int int | Call_resize int int | Call_invalidation int

definition size_log_calls :: "creator_env \<Rightarrow> BlockDetails \<Rightarrow> log_call list outcome" where
  "size_log_calls env bd =
     (let doCreate = (bd_allocationStatus bd = NOT_EXISTS); isTooLarge = (bd_allocationStatus bd = EXISTS_TOO_LARGE)
      in if \<not> ce_logBased env then Ok []
         else let inval = (if isTooLarge then [Call_invalidation (bd_prevSeqId bd)] else [])
              in if isTooLarge \<or> doCreate then Ok (inval @ [Call_creation (bd_fileName bd) (bd_seqId bd) (bd_fileSize bd)])
                 else if bd_allocationStatus bd \<noteq> EXISTS_TOO_SMALL then Abort
                 else Ok [Call_resize (bd_seqId bd) (bd_fileSize bd)])"

definition openAndSetSize ::
  "creator_env \<Rightarrow> bool \<Rightarrow> bool \<Rightarrow> int option \<Rightarrow> BlockDetails \<Rightarrow> FileCreator \<Rightarrow> (bool \<times> log_call list \<times> FileCreator) outcome" where
  "openAndSetSize env truncateOk fallocateOk onDisk bd c =
     outcome_bind (if bd_allocationStatus bd = NOT_EXISTS then createFile env (bd_fileName bd) c
                   else openExistingFile env (bd_fileName bd) c)
       (\<lambda>(opened, c1).
          if \<not> opened then Ok (False, [], c1)
          else if bd_allocationStatus bd = EXISTS_CORRECT_SIZE then Ok (True, [], c1)
          else case setFileSize (ce_preallocate env) truncateOk fallocateOk onDisk (bd_fileSize bd) of
                 None \<Rightarrow> Ok (False, [], c1)
               | Some _ \<Rightarrow> outcome_bind (size_log_calls env bd) (\<lambda>calls. Ok (True, calls, c1)))"

section \<open>Agreeing on the allocating thread\<close>

definition ALLOCATED :: int where "ALLOCATED = -1"
definition FAILED_ALLOCATION :: int where "FAILED_ALLOCATION = -2"

datatype open_decision = Delete_file | Allocate | Give_up | Wait_for int | Open_existing

text \<open>What \<open>openForBlocks\<close> decides under its spin lock; \<open>m\<close> is \<open>fileStatusMap_\<close>.\<close>

definition openForBlocks :: "int \<Rightarrow> BlockDetails \<Rightarrow> (int \<rightharpoonup> int) \<Rightarrow> open_decision \<times> (int \<rightharpoonup> int)" where
  "openForBlocks threadIndex bd m =
     (if bd_allocationStatus bd = TO_BE_DELETED then (Delete_file, m)
      else let m1 = (if bd_allocationStatus bd = EXISTS_CORRECT_SIZE \<and> m (bd_seqId bd) = None
                     then m(bd_seqId bd \<mapsto> ALLOCATED) else m)
           in case m1 (bd_seqId bd) of
                None \<Rightarrow> (Allocate, m1(bd_seqId bd \<mapsto> threadIndex))
              | Some statusOrThreadIdx \<Rightarrow>
                  if statusOrThreadIdx = FAILED_ALLOCATION then (Give_up, m1)
                  else if statusOrThreadIdx \<noteq> ALLOCATED then (Wait_for statusOrThreadIdx, m1)
                  else (Open_existing, m1))"

text \<open>The end of \<open>openForFirstBlock\<close>; \<open>Abort\<close> is the check that the file is in the map.\<close>

definition finishAllocation :: "bool \<Rightarrow> int \<Rightarrow> (int \<rightharpoonup> int) \<Rightarrow> (int \<rightharpoonup> int) outcome" where
  "finishAllocation opened seqId m =
     (if m seqId = None then Abort else Ok (m(seqId \<mapsto> if opened then ALLOCATED else FAILED_ALLOCATION)))"

text \<open>One turn of the loop of \<open>waitForAllocationFinish\<close>: \<open>None\<close> means wait.\<close>

definition checkAllocation :: "int \<Rightarrow> (int \<rightharpoonup> int) \<Rightarrow> bool option outcome" where
  "checkAllocation seqId m =
     (case m seqId of
        None \<Rightarrow> Abort
      | Some st \<Rightarrow> Ok (if st = ALLOCATED then Some True else if st = FAILED_ALLOCATION then Some False else None))"

end
