(* ===== verification/File_Creator_Laws.thy ===== *)
theory File_Creator_Laws
  imports File_Creator
begin

text \<open>
  Correctness of the file creator: accepted paths name files below the root directory and
  every file system call stays there, and a file gets the size it should have.
\<close>

section \<open>Accepted paths\<close>

text \<open>The components of a path, and the directory a path leads to from a directory, which is
  given as the list of names below the file system root.\<close>

fun split_slash :: "string \<Rightarrow> string list" where
  "split_slash [] = [[]]"
| "split_slash (c # cs) =
     (if c = CHR ''/'' then [] # split_slash cs
      else case split_slash cs of [] \<Rightarrow> [[c]] | w # ws \<Rightarrow> (c # w) # ws)"

fun walk :: "string list \<Rightarrow> string list \<Rightarrow> string list" where
  "walk dir [] = dir"
| "walk dir (c # cs) =
     walk (if c = [] \<or> c = ''.'' then dir else if c = ''..'' then butlast dir else dir @ [c]) cs"

definition plain :: "string \<Rightarrow> bool" where
  "plain c \<longleftrightarrow> c \<noteq> [] \<and> c \<noteq> ''.'' \<and> c \<noteq> ''..''"

lemma split_slash_not_Nil [simp]: "split_slash s \<noteq> []"
  by (induction s) (auto split: list.splits)

lemma split_slash_append: "split_slash (xs @ CHR ''/'' # ys) = split_slash xs @ split_slash ys"
  by (induction xs) (auto split: list.splits)

lemma split_slash_single: "CHR ''/'' \<notin> set xs \<Longrightarrow> split_slash xs = [xs]"
  by (induction xs) auto

lemma walk_append [simp]: "walk dir (xs @ ys) = walk (walk dir xs) ys"
  by (induction xs arbitrary: dir) auto

lemma walk_plain: "list_all plain cs \<Longrightarrow> walk dir cs = dir @ cs"
  by (induction cs arbitrary: dir) (auto simp: plain_def)

lemma length_walk: "length (walk dir cs) \<le> length dir + length cs"
proof (induction cs arbitrary: dir)
  case (Cons c cs)
  show ?case
    using Cons.IH [of "if c = [] \<or> c = ''.'' then dir else if c = ''..'' then butlast dir else dir @ [c]"]
    by (auto split: if_splits)
qed simp

lemma walk_keeps_plain: "length (walk dir cs) = length dir + length cs \<Longrightarrow> list_all plain cs"
proof (induction cs arbitrary: dir)
  case (Cons c cs)
  show ?case
  proof (cases "plain c")
    case True
    then show ?thesis using Cons.IH [of "dir @ [c]"] Cons.prems by (simp add: plain_def)
  next
    case False
    define dir' where "dir' = (if c = [] \<or> c = ''.'' then dir else butlast dir)"
    have "walk dir (c # cs) = walk dir' cs" using False by (auto simp: plain_def dir'_def)
    then show ?thesis using length_walk [of dir' cs] Cons.prems by (auto simp: dir'_def split: if_splits)
  qed
qed simp

lemma str_find_cases:
  assumes "start \<le> length s"
  obtains "str_find c s start = None" "c \<notin> set (drop start s)"
  | w rest where "str_find c s start = Some (start + length w)" "drop start s = w @ c # rest" "c \<notin> set w"
      "start + length w < length s" "rest = drop (start + length w + 1) s"
proof (cases "c \<in> set (drop start s)")
  case True
  then obtain w rest where w: "drop start s = w @ c # rest" "c \<notin> set w" by (meson split_list_first)
  have tw: "takeWhile (\<lambda>x. x \<noteq> c) (drop start s) = w" unfolding w(1) using w(2) by (auto simp: takeWhile_tail)
  have len: "start + length w < length s" using arg_cong [OF w(1), of length] assms by simp
  have "drop (start + length w + 1) s = drop (length w + 1) (drop start s)" by (simp add: add_ac)
  then have "rest = drop (start + length w + 1) s" unfolding w(1) by simp
  then show ?thesis using that(2) [OF _ w len] len tw by (simp add: str_find_def Let_def)
next
  case False
  then have tw: "takeWhile (\<lambda>x. x \<noteq> c) (drop start s) = drop start s" by (auto simp: takeWhile_eq_all_conv)
  have "str_find c s start = None" unfolding str_find_def tw using assms by (simp add: Let_def)
  then show ?thesis using that(1) False by blast
qed

lemma str_find_None: "start \<le> length s \<Longrightarrow> str_find c s start = None \<longleftrightarrow> c \<notin> set (drop start s)"
proof (erule str_find_cases [of _ _ c])
  fix w rest
  assume "str_find c s start = Some (start + length w)" "drop start s = w @ c # rest"
  moreover from this(2) have "c \<in> set (drop start s)" by simp
  ultimately show "str_find c s start = None \<longleftrightarrow> c \<notin> set (drop start s)" by simp
qed simp

lemma not_plain: "c = [] \<or> c = ''.'' \<or> c = ''..'' \<longleftrightarrow> \<not> plain c"
  by (auto simp: plain_def)

lemma safe_components_split:
  "start \<le> length p \<Longrightarrow> safe_components p start \<longleftrightarrow> list_all plain (split_slash (drop start p))"
proof (induction p start rule: safe_components.induct)
  case (1 p start)
  from 1(2) show ?case
  proof (cases rule: str_find_cases [where c = "CHR ''/''"])
    case 1
    then show ?thesis by (subst safe_components.simps) (simp add: Let_def split_slash_single not_plain)
  next
    case (2 w rest)
    then have "take (length w) (drop start p) = w" by simp
    moreover have "split_slash (drop start p) = w # split_slash rest"
      using 2 by (simp add: split_slash_append split_slash_single)
    ultimately show ?thesis using 2 "1.IH" [OF refl refl]
      by (subst safe_components.simps) (simp add: Let_def not_plain)
  qed
qed

text \<open>C19: the check on the paths a sender sends is exact. A path is accepted if and only if it
  has no null character and, from any directory, leads to a place below that
  directory by its own components: no component is empty, dot or dot-dot.\<close>

theorem isSafeRelativePath_exact:
  "isSafeRelativePath p \<longleftrightarrow>
     char_of (0 :: nat) \<notin> set p \<and> (\<forall>dir. walk dir (split_slash p) = dir @ split_slash p)"
proof -
  have "str_find (char_of (0 :: nat)) p 0 = None \<longleftrightarrow> char_of (0 :: nat) \<notin> set p"
    using str_find_None [of 0 p] by simp
  moreover have "list_all plain (split_slash p) \<longleftrightarrow> (\<forall>dir. walk dir (split_slash p) = dir @ split_slash p)"
    using walk_plain walk_keeps_plain by (metis length_append)
  moreover have "list_all plain (split_slash p) \<Longrightarrow> p \<noteq> [] \<and> hd p \<noteq> CHR ''/''"
    by (cases p) (auto simp: plain_def)
  ultimately show ?thesis
    using safe_components_split [of 0 p] by (auto simp: isSafeRelativePath_def)
qed

section \<open>Calls stay below the root directory\<close>

fun call_path :: "fs_call \<Rightarrow> string" where
  "call_path (Mkdir path) = path"
| "call_path (Open_file path _ _) = path"
| "call_path (Unlink path) = path"

definition below :: "string \<Rightarrow> string \<Rightarrow> bool" where
  "below root path \<longleftrightarrow> (\<exists>q w. path = root @ q \<and> w \<noteq> [] \<and> (\<forall>dir. walk dir (split_slash q) = dir @ w))"

definition safe_path :: "string \<Rightarrow> bool" where
  "safe_path p \<longleftrightarrow> list_all plain (split_slash p)"

lemma isSafe_safe_path: "isSafeRelativePath p \<Longrightarrow> safe_path p"
  using safe_components_split [of 0 p] by (simp add: isSafeRelativePath_def safe_path_def split: if_splits)

lemma safe_path_below: "safe_path p \<Longrightarrow> below root (root @ p)"
  unfolding below_def safe_path_def by (metis split_slash_not_Nil walk_plain)

text \<open>A directory part of a path: a prefix that ends with a slash.\<close>

definition dir_of :: "string \<Rightarrow> string \<Rightarrow> bool" where
  "dir_of p d \<longleftrightarrow> d \<noteq> [] \<and> last d = CHR ''/'' \<and> prefix d p"

lemma dir_below:
  assumes "safe_path p" "dir_of p d"
  shows "below root (root @ d)"
proof -
  obtain r where r: "p = d @ r" using assms(2) by (auto simp: dir_of_def elim: prefixE)
  define q where "q = butlast d"
  have d: "d = q @ ''/''" using assms(2) append_butlast_last_id [of d] by (simp add: dir_of_def q_def)
  then have d: "d = q @ ''/''" "p = q @ CHR ''/'' # r" using r by simp_all
  then have "list_all plain (split_slash q)" using assms(1) by (simp add: safe_path_def split_slash_append)
  then have "walk dir (split_slash d) = dir @ split_slash q" for dir
    using split_slash_append [of q "[]"] by (simp add: d(1) walk_plain)
  then show ?thesis unfolding below_def using split_slash_not_Nil by blast
qed

lemma safe_path_checks: "safe_path p \<Longrightarrow> path_checks p"
proof -
  assume safe: "safe_path p"
  have "p \<noteq> []" "hd p \<noteq> CHR ''/''" using safe by (cases p; auto simp: safe_path_def plain_def)+
  moreover have "last p \<noteq> CHR ''/''"
  proof
    assume "last p = CHR ''/''"
    then have "p = butlast p @ CHR ''/'' # []" using \<open>p \<noteq> []\<close> by (metis append_butlast_last_id)
    then have "split_slash p = split_slash (butlast p) @ [[]]" using split_slash_append by (metis split_slash.simps(1))
    then show False using safe by (simp add: safe_path_def plain_def)
  qed
  ultimately show ?thesis by (simp add: path_checks_def)
qed

lemma last_slash_dir:
  assumes "0 < last_slash s i" "i \<le> length s"
  shows "dir_of s (take (last_slash s i) s)"
proof -
  define n where "n = last_slash s i - 1"
  have n: "last_slash s i = Suc n" "n < length s"
    using assms last_slash_le [of s i] by (auto simp: n_def)
  have "s ! n = CHR ''/''" using assms(1) n(1) by (induction s i rule: last_slash.induct) (auto split: if_splits)
  then have "last (take (Suc n) s) = CHR ''/''" using n(2) by (simp add: take_Suc_conv_app_nth)
  then show ?thesis using n(2) by (auto simp: dir_of_def n(1) take_is_prefix)
qed

lemma dir_of_trans: "dir_of p d \<Longrightarrow> dir_of d e \<Longrightarrow> dir_of p e"
  by (auto simp: dir_of_def)

text \<open>What a call of the creator may do to it.\<close>

definition extends_below :: "FileCreator \<Rightarrow> FileCreator \<Rightarrow> bool" where
  "extends_below c c' \<longleftrightarrow> cr_rootDir c' = cr_rootDir c \<and> cr_skipWrites c' = cr_skipWrites c \<and>
     (\<exists>calls. cr_calls c' = cr_calls c @ calls \<and> (\<forall>x \<in> set calls. below (cr_rootDir c) (call_path x)))"

lemma extends_below_refl [simp]: "extends_below c c"
  by (simp add: extends_below_def)

lemma extends_below_trans: "extends_below a b \<Longrightarrow> extends_below b c \<Longrightarrow> extends_below a c"
  by (auto simp: extends_below_def)

lemma extends_below_record: "below (cr_rootDir c) (call_path x) \<Longrightarrow> extends_below c (fs_record x c)"
  by (simp add: extends_below_def fs_record_def)

lemma make_dir_below:
  assumes "safe_path p" "dir_of p dir"
  shows "extends_below c (snd (make_dir env dir c))"
proof -
  have "extends_below c (fs_record (Mkdir (fullPath dir c)) c)"
    by (rule extends_below_record) (simp add: fullPath_def dir_below [OF assms])
  then show ?thesis by (auto simp: make_dir_def Let_def extends_below_def)
qed

lemma createDir_below:
  assumes "safe_path p" "dir_of p dir"
  shows "\<exists>ok c'. createDirRecursively env force dir c = Ok (ok, c') \<and> extends_below c c'"
  using assms(2)
proof (induction env force dir c rule: createDirRecursively.induct)
  case (1 env force dir c)
  have d: "dir \<noteq> []" "last dir = CHR ''/''" using 1(2) by (auto simp: dir_of_def)
  define i where "i = last_slash dir (length dir - 1)"
  define parent where "parent = (if i > 0 then createDirRecursively env force (take i dir) c else Ok (True, c))"
  show ?case
  proof (cases "cr_skipWrites c \<or> \<not> force \<and> dir \<in> set (cr_createdDirs c)")
    case True
    then show ?thesis by (subst createDirRecursively.simps) auto
  next
    case False
    have eq: "createDirRecursively env force dir c =
        outcome_bind parent (\<lambda>(ok, c1). if \<not> ok then Ok (False, c1) else Ok (make_dir env dir c1))"
    proof -
      have nf: "\<not> cr_skipWrites c" "\<not> (\<not> force \<and> dir \<in> set (cr_createdDirs c))" "\<not> (dir = [] \<or> last dir \<noteq> CHR ''/'')"
        using False d by auto
      show ?thesis by (subst createDirRecursively.simps) (simp only: nf if_False Let_def i_def parent_def)
    qed
    have "\<exists>ok c1. parent = Ok (ok, c1) \<and> extends_below c c1"
    proof (cases "i > 0")
      case True
      from last_slash_dir [of dir "length dir - 1"] True have "dir_of dir (take i dir)" by (simp add: i_def)
      from 1(1) [OF _ _ _ i_def True dir_of_trans [OF 1(2) this]] show ?thesis using False d True by (auto simp: parent_def)
    qed (auto simp: parent_def)
    then obtain ok c1 where c1: "parent = Ok (ok, c1)" "extends_below c c1" by blast
    show ?thesis
      using c1 extends_below_trans [OF c1(2) make_dir_below [OF assms(1) 1(2), of c1 env]] unfolding eq
      by (cases "make_dir env dir c1"; cases ok) auto
  qed
qed

lemma createDirWithRetry_below:
  assumes "safe_path p" "dir_of p dir"
  shows "\<exists>ok c'. createDirWithRetry env dir c = Ok (ok, c') \<and> extends_below c c'"
proof -
  obtain ok1 c1 where 1: "createDirRecursively env False dir c = Ok (ok1, c1)" "extends_below c c1"
    using createDir_below [OF assms] by blast
  obtain ok2 c2 where 2: "createDirRecursively env True dir c1 = Ok (ok2, c2)" "extends_below c1 c2"
    using createDir_below [OF assms] by blast
  show ?thesis using 1 2 extends_below_trans [OF 1(2) 2(2)] by (cases ok1) (auto simp: createDirWithRetry_def)
qed

lemma openCreated_below:
  assumes "safe_path p" "dir \<noteq> [] \<Longrightarrow> dir_of p dir"
  shows "\<exists>ok c'. openCreated env p dir c = Ok (ok, c') \<and> extends_below c c'"
proof -
  define call where "call = Open_file (fullPath p c) True (ce_overwrite env \<or> ce_enable_download_resumption env)"
  have path: "below (cr_rootDir c) (call_path call)" using safe_path_below [OF assms(1)] by (simp add: call_def fullPath_def)
  have 1: "extends_below c (fs_record call c)" by (rule extends_below_record [OF path])
  show ?thesis
  proof (cases "ce_open env 1 \<or> dir = []")
    case True
    then show ?thesis using 1 by (auto simp: openCreated_def Let_def call_def)
  next
    case False
    then obtain ok c2 where 2: "createDirRecursively env True dir (fs_record call c) = Ok (ok, c2)" "extends_below (fs_record call c) c2"
      using createDir_below [OF assms(1) assms(2)] by blast
    have 3: "extends_below c c2" by (rule extends_below_trans [OF 1 2(2)])
    then have "extends_below c2 (fs_record call c2)" using path by (intro extends_below_record) (simp add: extends_below_def)
    from extends_below_trans [OF 3 this] show ?thesis using False 2(1) 3
      by (cases ok) (auto simp: openCreated_def Let_def call_def)
  qed
qed

lemma createFile_below:
  assumes "safe_path p"
  shows "\<exists>ok c'. createFile env p c = Ok (ok, c') \<and> extends_below c c'"
proof (cases "cr_skipWrites c")
  case True
  then show ?thesis using safe_path_checks [OF assms] by (auto simp: createFile_def)
next
  case False
  define n where "n = last_slash p (length p)"
  have dir: "dir_of p (take n p)" if "n \<noteq> 0" using last_slash_dir [of p "length p"] that by (simp add: n_def)
  have eq: "createFile env p c = outcome_bind (if n = 0 then Ok (True, c) else createDirWithRetry env (take n p) c)
      (\<lambda>(ok, c1). if \<not> ok then Ok (False, c1) else openCreated env p (take n p) c1)"
    unfolding createFile_def Let_def n_def using False safe_path_checks [OF assms] by simp
  obtain ok1 c1 where 1: "(if n = 0 then Ok (True, c) else createDirWithRetry env (take n p) c) = Ok (ok1, c1)" "extends_below c c1"
    using createDirWithRetry_below [OF assms dir, of env c] by (cases "n = 0") auto
  obtain ok2 c2 where 2: "openCreated env p (take n p) c1 = Ok (ok2, c2)" "extends_below c1 c2"
    using openCreated_below [OF assms, of "take n p"] dir by fastforce
  show ?thesis unfolding eq using 1 2 extends_below_trans [OF 1(2) 2(2)] by (cases ok1) auto
qed

text \<open>C11: no block header can make the receiver touch a file outside its directory. For an
  accepted path, opening the file and setting its size passes all checks of the file
  creator, and every directory that is made and every file that is created or opened
  on the way, with retries, lies below the root directory.\<close>

theorem openAndSetSize_below_root:
  assumes "isSafeRelativePath (bd_fileName bd)"
    "bd_allocationStatus bd \<in> {NOT_EXISTS, EXISTS_CORRECT_SIZE, EXISTS_TOO_SMALL, EXISTS_TOO_LARGE}"
  shows "\<exists>opened logged c' calls. openAndSetSize env truncateOk fallocateOk onDisk bd c = Ok (opened, logged, c') \<and>
    cr_calls c' = cr_calls c @ calls \<and> (\<forall>x \<in> set calls. below (cr_rootDir c) (call_path x))"
proof -
  have safe: "safe_path (bd_fileName bd)" using isSafe_safe_path [OF assms(1)] .
  have "\<exists>ok c1. (if bd_allocationStatus bd = NOT_EXISTS then createFile env (bd_fileName bd) c
      else openExistingFile env (bd_fileName bd) c) = Ok (ok, c1) \<and> extends_below c c1"
    using createFile_below [OF safe] safe_path_checks [OF safe] safe_path_below [OF safe]
    by (auto simp: openExistingFile_def fullPath_def intro!: extends_below_record)
  then obtain ok c1 where 1: "(if bd_allocationStatus bd = NOT_EXISTS then createFile env (bd_fileName bd) c
      else openExistingFile env (bd_fileName bd) c) = Ok (ok, c1)" "extends_below c c1" by blast
  have logged: "\<exists>cs. size_log_calls env bd = Ok cs" if "bd_allocationStatus bd \<noteq> EXISTS_CORRECT_SIZE"
    using that assms(2) by (auto simp: size_log_calls_def Let_def)
  show ?thesis
    using logged 1(2) unfolding openAndSetSize_def 1(1) by (auto simp: extends_below_def split: option.splits)
qed

text \<open>C39: an allocation status outside the enumeration, which a header can carry in its three
  bits, ends the receiver process with a failed check once the file has been opened and
  sized, if the receiver keeps a transfer log.\<close>

theorem unknown_status_aborts:
  assumes "bd_allocationStatus bd = OTHER_STATUS n" "isSafeRelativePath (bd_fileName bd)" "ce_logBased env" "ce_open env 0"
    "setFileSize (ce_preallocate env) truncateOk fallocateOk onDisk (bd_fileSize bd) = Some sz"
  shows "openAndSetSize env truncateOk fallocateOk onDisk bd c = Abort"
  using assms safe_path_checks [OF isSafe_safe_path [OF assms(2)]]
  by (simp add: openAndSetSize_def openExistingFile_def size_log_calls_def Let_def)

section \<open>File sizes\<close>

text \<open>When \<open>setFileSize\<close> succeeds on a file of a given size, a preallocated file has exactly the
  size it should have and a file that is not preallocated is at most that large; it
  keeps its bytes unless it was too large, and then without preallocation it is
  emptied.\<close>

lemma setFileSize_result:
  assumes "setFileSize preallocate truncateOk fallocateOk (Some st_size) fileSize = Some sz" "0 \<le> fileSize" "0 \<le> st_size"
  shows "(preallocate \<longrightarrow> sz = fileSize) \<and> sz \<le> fileSize \<and>
    (\<not> preallocate \<longrightarrow> sz = (if st_size > fileSize then 0 else st_size))"
  using assms by (auto simp: setFileSize_def Let_def split: if_splits)

section \<open>Examples\<close>

definition example_creator_env :: creator_env where
  "example_creator_env = \<lparr>ce_mkdir = (\<lambda>_. Made), ce_open = (\<lambda>n. n = 0 \<or> n = 2), ce_overwrite = False,
     ce_enable_download_resumption = True, ce_logBased = True, ce_preallocate = True\<rparr>"

definition example_creator :: FileCreator where
  "example_creator = \<lparr>cr_rootDir = ''/d/'', cr_createdDirs = [], cr_fileStatusMap = Map.empty, cr_skipWrites = False, cr_calls = []\<rparr>"

definition example_block :: "FileAllocationStatus \<Rightarrow> BlockDetails" where
  "example_block st = \<lparr>bd_fileName = ''a/b'', bd_seqId = 1, bd_fileSize = 10, bd_offset = 0, bd_dataSize = 4,
     bd_allocationStatus = st, bd_prevSeqId = 0\<rparr>"

lemma example_block_safe: "isSafeRelativePath (bd_fileName (example_block st))"
proof -
  have "split_slash ''a/b'' = [''a'', ''b'']" by simp
  then have "safe_components ''a/b'' 0" using safe_components_split [of 0 "''a/b''"] by (simp add: plain_def)
  then show ?thesis by (simp add: isSafeRelativePath_def example_block_def str_find_None char_of_def)
qed

theorem openAndSetSize_below_root_witness:
  "\<exists>opened logged c' calls. openAndSetSize example_creator_env True True (Some 0) (example_block NOT_EXISTS) example_creator = Ok (opened, logged, c') \<and>
    cr_calls c' = cr_calls example_creator @ calls \<and> (\<forall>x \<in> set calls. below (cr_rootDir example_creator) (call_path x))"
  by (rule openAndSetSize_below_root [OF example_block_safe]) (simp add: example_block_def)

theorem unknown_status_aborts_witness:
  "openAndSetSize example_creator_env True True (Some 0) (example_block (OTHER_STATUS 7)) example_creator = Abort"
  by (rule unknown_status_aborts [OF _ example_block_safe, where n = 7 and sz = 10])
    (simp_all add: example_block_def example_creator_env_def setFileSize_def)

end
