(* ===== verification/Allocation_Protocol.thy ===== *)
theory Allocation_Protocol
  imports File_Creator
begin

text \<open>
  How receiver threads that open blocks of the same file agree on the thread that creates
  and sizes it (\<open>openForBlocks\<close>, \<open>openForFirstBlock\<close> and \<open>waitForAllocationFinish\<close> of
  \<open>util/FileCreator.cpp\<close>), as an interleaving of the steps the two locks make atomic: the spin
  lock protects the status map, the allocation mutex a waiter's check and sleep and the
  notification.
\<close>

section \<open>Steps\<close>

text \<open>
  Where a thread is: allocating file \<open>k\<close>; about to notify; about to take the mutex, having
  seen thread \<open>i\<close> in the map; holding the mutex after it saw the allocation unfinished;
  asleep on the condition variable of thread \<open>i\<close>; or with its result.
\<close>

datatype alloc_pc = Idle | Allocating int | Notifying int bool | Wait_mutex int int | Checked int int
  | Sleeping int int | Finished bool

record alloc_state =
  al_status :: "int \<rightharpoonup> int"
  al_mutex :: "nat option"
  al_pc :: "nat \<Rightarrow> alloc_pc"

fun after_decision :: "int \<Rightarrow> open_decision \<Rightarrow> alloc_pc" where
  "after_decision k Delete_file = Finished False"
| "after_decision k Allocate = Allocating k"
| "after_decision k Give_up = Finished False"
| "after_decision k (Wait_for i) = Wait_mutex k i"
| "after_decision k Open_existing = Finished True"

definition wake_up :: "nat \<Rightarrow> (nat \<Rightarrow> alloc_pc) \<Rightarrow> nat \<Rightarrow> alloc_pc" where
  "wake_up t pc u = (case pc u of Sleeping k i \<Rightarrow> if i = int t then Wait_mutex k i else Sleeping k i | x \<Rightarrow> x)"

text \<open>Steps of calls that are under way, for threads \<open>0 ..< n\<close>.\<close>

inductive alloc_progress :: "nat \<Rightarrow> alloc_state \<Rightarrow> alloc_state \<Rightarrow> bool" for n where
  finish: "t < n \<Longrightarrow> al_pc s t = Allocating k \<Longrightarrow> finishAllocation opened k (al_status s) = Ok m \<Longrightarrow>
    alloc_progress n s (s\<lparr>al_status := m, al_pc := (al_pc s)(t := Notifying k opened)\<rparr>)"
| notify: "t < n \<Longrightarrow> al_pc s t = Notifying k opened \<Longrightarrow> al_mutex s = None \<Longrightarrow>
    alloc_progress n s (s\<lparr>al_pc := (wake_up t (al_pc s))(t := Finished opened)\<rparr>)"
| check_done: "t < n \<Longrightarrow> al_pc s t = Wait_mutex k i \<Longrightarrow> al_mutex s = None \<Longrightarrow>
    checkAllocation k (al_status s) = Ok (Some b) \<Longrightarrow> alloc_progress n s (s\<lparr>al_pc := (al_pc s)(t := Finished b)\<rparr>)"
| check_wait: "t < n \<Longrightarrow> al_pc s t = Wait_mutex k i \<Longrightarrow> al_mutex s = None \<Longrightarrow>
    checkAllocation k (al_status s) = Ok None \<Longrightarrow>
    alloc_progress n s (s\<lparr>al_mutex := Some t, al_pc := (al_pc s)(t := Checked k i)\<rparr>)"
| fall_asleep: "t < n \<Longrightarrow> al_pc s t = Checked k i \<Longrightarrow>
    alloc_progress n s (s\<lparr>al_mutex := None, al_pc := (al_pc s)(t := Sleeping k i)\<rparr>)"

text \<open>Any step: progress, a new call, a return, or a spurious wake-up.\<close>

inductive alloc_step :: "nat \<Rightarrow> alloc_state \<Rightarrow> alloc_state \<Rightarrow> bool" for n where
  progress: "alloc_progress n s s' \<Longrightarrow> alloc_step n s s'"
| call: "t < n \<Longrightarrow> al_pc s t = Idle \<Longrightarrow> openForBlocks (int t) bd (al_status s) = (d, m) \<Longrightarrow>
    alloc_step n s (s\<lparr>al_status := m, al_pc := (al_pc s)(t := after_decision (bd_seqId bd) d)\<rparr>)"
| return: "t < n \<Longrightarrow> al_pc s t = Finished b \<Longrightarrow> alloc_step n s (s\<lparr>al_pc := (al_pc s)(t := Idle)\<rparr>)"
| spurious: "t < n \<Longrightarrow> al_pc s t = Sleeping k i \<Longrightarrow> alloc_step n s (s\<lparr>al_pc := (al_pc s)(t := Wait_mutex k i)\<rparr>)"

definition alloc_start :: alloc_state where
  "alloc_start = \<lparr>al_status = Map.empty, al_mutex = None, al_pc = (\<lambda>_. Idle)\<rparr>"

section \<open>Invariant\<close>

fun pc_ok :: "alloc_state \<Rightarrow> nat \<Rightarrow> alloc_pc \<Rightarrow> bool" where
  "pc_ok s t (Allocating k) \<longleftrightarrow> al_status s k = Some (int t)"
| "pc_ok s t (Notifying k opened) \<longleftrightarrow> al_status s k = Some (if opened then ALLOCATED else FAILED_ALLOCATION)"
| "pc_ok s t (Wait_mutex k i) \<longleftrightarrow> al_status s k \<in> {Some i, Some ALLOCATED, Some FAILED_ALLOCATION}"
| "pc_ok s t (Checked k i) \<longleftrightarrow> al_mutex s = Some t \<and>
     (\<exists>u. i = int u \<and> (al_pc s u = Allocating k \<or> (\<exists>b. al_pc s u = Notifying k b)))"
| "pc_ok s t (Sleeping k i) \<longleftrightarrow> (\<exists>u. i = int u \<and> (al_pc s u = Allocating k \<or> (\<exists>b. al_pc s u = Notifying k b)))"
| "pc_ok s t _ \<longleftrightarrow> True"

definition alloc_inv :: "nat \<Rightarrow> alloc_state \<Rightarrow> bool" where
  "alloc_inv n s \<longleftrightarrow> (\<forall>t. pc_ok s t (al_pc s t)) \<and> (\<forall>t \<ge> n. al_pc s t = Idle) \<and>
     (\<forall>k v. al_status s k = Some v \<longrightarrow> v = ALLOCATED \<or> v = FAILED_ALLOCATION \<or> (\<exists>t. v = int t \<and> al_pc s t = Allocating k)) \<and>
     (\<forall>t. al_mutex s = Some t \<longrightarrow> (\<exists>k i. al_pc s t = Checked k i))"

lemma int_not_status [simp]: "int t \<noteq> ALLOCATED" "int t \<noteq> FAILED_ALLOCATION" "ALLOCATED \<noteq> int t" "FAILED_ALLOCATION \<noteq> int t"
  "ALLOCATED \<noteq> FAILED_ALLOCATION" "FAILED_ALLOCATION \<noteq> ALLOCATED"
  by (simp_all add: ALLOCATED_def FAILED_ALLOCATION_def)

lemma alloc_start_inv: "alloc_inv n alloc_start"
  by (simp add: alloc_inv_def alloc_start_def)

definition busy :: "alloc_state \<Rightarrow> nat \<Rightarrow> int \<Rightarrow> bool" where
  "busy s u k \<longleftrightarrow> al_pc s u = Allocating k \<or> (\<exists>b. al_pc s u = Notifying k b)"

lemma alloc_invD:
  assumes "alloc_inv n s"
  shows "pc_ok s t (al_pc s t)" "n \<le> t \<Longrightarrow> al_pc s t = Idle"
    "al_status s k = Some v \<Longrightarrow> v = ALLOCATED \<or> v = FAILED_ALLOCATION \<or> (\<exists>t. v = int t \<and> al_pc s t = Allocating k)"
    "al_mutex s = Some t \<Longrightarrow> \<exists>k i. al_pc s t = Checked k i"
  using assms unfolding alloc_inv_def by blast+

text \<open>What a thread that does not move needs of a step of others.\<close>

lemma pc_ok_frame:
  assumes "pc_ok s u x"
    and "\<And>k. al_status s k \<noteq> al_status s' k \<Longrightarrow> (al_status s k = None \<or> (\<exists>t. al_status s k = Some (int t) \<and> t \<noteq> u)) \<and>
            (al_status s k \<noteq> None \<longrightarrow> al_status s' k \<in> {Some ALLOCATED, Some FAILED_ALLOCATION})"
    and "al_mutex s = Some u \<Longrightarrow> al_mutex s' = Some u"
    and "\<And>k i w. x = Checked k i \<or> x = Sleeping k i \<Longrightarrow> busy s w k \<Longrightarrow> i = int w \<Longrightarrow> busy s' w k"
  shows "pc_ok s' u x"
proof (cases x)
  case (Allocating k)
  then show ?thesis using assms(1) assms(2) [of k] by fastforce
next
  case (Notifying k b)
  then show ?thesis using assms(1) assms(2) [of k] by (cases "al_status s k = al_status s' k") (auto split: if_splits)
next
  case (Wait_mutex k i)
  then show ?thesis using assms(1) assms(2) [of k] by (cases "al_status s k = al_status s' k") auto
next
  case (Checked k i)
  then show ?thesis using assms(1,3) assms(4) [of k i] unfolding busy_def by auto
next
  case (Sleeping k i)
  then show ?thesis using assms(1) assms(4) [of k i] unfolding busy_def by auto
qed simp_all

lemma alloc_inv_step:
  assumes inv: "alloc_inv n s"
    and pcs: "\<And>u. pc_ok s' u (al_pc s' u)" "\<And>u. n \<le> u \<Longrightarrow> al_pc s' u = al_pc s u"
    and keep: "\<And>u j. al_pc s u = Allocating j \<Longrightarrow> al_pc s' u = Allocating j \<or> al_status s' j \<in> {Some ALLOCATED, Some FAILED_ALLOCATION}"
    and status: "\<And>j v. al_status s' j = Some v \<Longrightarrow> al_status s j = Some v \<or> v = ALLOCATED \<or> v = FAILED_ALLOCATION \<or>
      (\<exists>t. v = int t \<and> al_pc s' t = Allocating j)"
    and mutex: "\<And>u. al_mutex s' = Some u \<Longrightarrow> \<exists>k i. al_pc s' u = Checked k i"
  shows "alloc_inv n s'"
proof -
  have "v = ALLOCATED \<or> v = FAILED_ALLOCATION \<or> (\<exists>t. v = int t \<and> al_pc s' t = Allocating j)"
    if v: "al_status s' j = Some v" for j v
  proof (cases "al_status s j = Some v")
    case True
    from alloc_invD(3) [OF inv True] show ?thesis using keep v by fastforce
  qed (use status [OF v] in blast)
  then show ?thesis unfolding alloc_inv_def using pcs mutex alloc_invD(2) [OF inv] by simp
qed

lemma finish_inv:
  assumes inv: "alloc_inv n s" and t: "t < n" "al_pc s t = Allocating k" and m: "finishAllocation opened k (al_status s) = Ok m"
  shows "alloc_inv n (s\<lparr>al_status := m, al_pc := (al_pc s)(t := Notifying k opened)\<rparr>)" (is "alloc_inv n ?s'")
proof -
  note I = alloc_invD [OF inv]
  have k: "al_status s k = Some (int t)" using I(1) [of t] t(2) by simp
  have m': "m = (al_status s)(k \<mapsto> if opened then ALLOCATED else FAILED_ALLOCATION)"
    using m k by (simp add: finishAllocation_def)
  have "pc_ok ?s' u (al_pc s u)" if "u \<noteq> t" for u
    by (rule pc_ok_frame [OF I(1)]) (use that k m' t in \<open>auto simp: busy_def split: if_splits\<close>)
  moreover have "\<exists>k i. al_pc ?s' u = Checked k i" if "al_mutex s = Some u" for u using I(4) [OF that] t(2) by auto
  ultimately show ?thesis using t by (intro alloc_inv_step [OF inv]) (auto simp: m' split: if_splits)
qed

lemma notify_inv:
  assumes inv: "alloc_inv n s" and t: "t < n" "al_pc s t = Notifying k opened" and mutex: "al_mutex s = None"
  shows "alloc_inv n (s\<lparr>al_pc := (wake_up t (al_pc s))(t := Finished opened)\<rparr>)" (is "alloc_inv n ?s'")
proof -
  note I = alloc_invD [OF inv]
  have other: "pc_ok ?s' u (wake_up t (al_pc s) u)" if "u \<noteq> t" for u
  proof (cases "\<exists>j. al_pc s u = Sleeping j (int t)")
    case True
    then obtain j where j: "al_pc s u = Sleeping j (int t)" by blast
    then have "busy s t j" using I(1) [of u] by (auto simp: busy_def)
    then have "j = k" using t(2) by (simp add: busy_def)
    then show ?thesis using I(1) [of t] t(2) j by (simp add: wake_up_def split: if_splits)
  next
    case False
    then have same: "wake_up t (al_pc s) u = al_pc s u" by (auto simp: wake_up_def split: alloc_pc.splits)
    have keep: "busy ?s' w j" if "busy s w j" "w \<noteq> t" for w j
      using that by (auto simp: busy_def wake_up_def)
    show ?thesis unfolding same
    proof (rule pc_ok_frame [OF I(1)])
      fix j i w assume "al_pc s u = Checked j i \<or> al_pc s u = Sleeping j i" "busy s w j" "i = int w"
      moreover have "al_pc s u \<noteq> Checked j i" using I(1) [of u] mutex by auto
      ultimately have "al_pc s u = Sleeping j (int w)" by auto
      then have "w \<noteq> t" using False by auto
      then show "busy ?s' w j" using keep \<open>busy s w j\<close> by blast
    qed (use mutex in auto)
  qed
  have "al_pc ?s' u = Allocating j" if "al_pc s u = Allocating j" for u j using that t(2) by (auto simp: wake_up_def)
  then show ?thesis using t mutex other by (intro alloc_inv_step [OF inv]) (auto simp: wake_up_def I(2))
qed

lemma check_done_inv:
  assumes inv: "alloc_inv n s" and t: "t < n" "al_pc s t = Wait_mutex k i"
  shows "alloc_inv n (s\<lparr>al_pc := (al_pc s)(t := Finished b)\<rparr>)" (is "alloc_inv n ?s'")
proof -
  note I = alloc_invD [OF inv]
  have "pc_ok ?s' u (al_pc s u)" if "u \<noteq> t" for u
    by (rule pc_ok_frame [OF I(1)]) (use t in \<open>auto simp: busy_def\<close>)
  moreover have "\<exists>k i. al_pc ?s' u = Checked k i" if "al_mutex s = Some u" for u using I(4) [OF that] t(2) by auto
  ultimately show ?thesis using t by (intro alloc_inv_step [OF inv]) auto
qed

lemma check_wait_inv:
  assumes inv: "alloc_inv n s" and t: "t < n" "al_pc s t = Wait_mutex k i" and mutex: "al_mutex s = None"
    and w: "checkAllocation k (al_status s) = Ok None"
  shows "alloc_inv n (s\<lparr>al_mutex := Some t, al_pc := (al_pc s)(t := Checked k i)\<rparr>)" (is "alloc_inv n ?s'")
proof -
  note I = alloc_invD [OF inv]
  have "pc_ok ?s' u (al_pc s u)" if "u \<noteq> t" for u
    by (rule pc_ok_frame [OF I(1)]) (use t mutex in \<open>auto simp: busy_def\<close>)
  moreover have "pc_ok ?s' t (Checked k i)"
  proof -
    have "al_status s k = Some i" "i \<noteq> ALLOCATED" "i \<noteq> FAILED_ALLOCATION"
      using w I(1) [of t] t(2) by (auto simp: checkAllocation_def split: if_splits)
    then obtain u where "i = int u" "al_pc s u = Allocating k" using I(3) by blast
    then show ?thesis using t(2) by auto
  qed
  ultimately show ?thesis using t by (intro alloc_inv_step [OF inv]) auto
qed

lemma fall_asleep_inv:
  assumes inv: "alloc_inv n s" and t: "t < n" "al_pc s t = Checked k i"
  shows "alloc_inv n (s\<lparr>al_mutex := None, al_pc := (al_pc s)(t := Sleeping k i)\<rparr>)" (is "alloc_inv n ?s'")
proof -
  note I = alloc_invD [OF inv]
  have mutex: "al_mutex s = Some t" using I(1) [of t] t(2) by simp
  have "pc_ok ?s' u (al_pc s u)" if "u \<noteq> t" for u
    by (rule pc_ok_frame [OF I(1)]) (use t mutex that in \<open>auto simp: busy_def\<close>)
  moreover have "pc_ok ?s' t (Sleeping k i)" using I(1) [of t] t(2) by force
  ultimately show ?thesis using t by (intro alloc_inv_step [OF inv]) auto
qed

lemma spurious_inv:
  assumes inv: "alloc_inv n s" and t: "t < n" "al_pc s t = Sleeping k i"
  shows "alloc_inv n (s\<lparr>al_pc := (al_pc s)(t := Wait_mutex k i)\<rparr>)" (is "alloc_inv n ?s'")
proof -
  note I = alloc_invD [OF inv]
  have "pc_ok ?s' u (al_pc s u)" if "u \<noteq> t" for u
    by (rule pc_ok_frame [OF I(1)]) (use t in \<open>auto simp: busy_def\<close>)
  moreover have "\<exists>k i. al_pc ?s' u = Checked k i" if "al_mutex s = Some u" for u using I(4) [OF that] t(2) by auto
  moreover have "pc_ok ?s' t (Wait_mutex k i)"
  proof -
    obtain u where u: "i = int u" "al_pc s u = Allocating k \<or> (\<exists>b. al_pc s u = Notifying k b)" using I(1) [of t] t(2) by auto
    then show ?thesis using I(1) [of u] by (auto split: if_splits)
  qed
  ultimately show ?thesis using t by (intro alloc_inv_step [OF inv]) auto
qed

lemma return_inv:
  assumes inv: "alloc_inv n s" and t: "t < n" "al_pc s t = Finished b"
  shows "alloc_inv n (s\<lparr>al_pc := (al_pc s)(t := Idle)\<rparr>)" (is "alloc_inv n ?s'")
proof -
  note I = alloc_invD [OF inv]
  have "pc_ok ?s' u (al_pc s u)" if "u \<noteq> t" for u
    by (rule pc_ok_frame [OF I(1)]) (use t in \<open>auto simp: busy_def\<close>)
  moreover have "\<exists>k i. al_pc ?s' u = Checked k i" if "al_mutex s = Some u" for u using I(4) [OF that] t(2) by auto
  ultimately show ?thesis using t by (intro alloc_inv_step [OF inv]) auto
qed

lemma call_inv:
  assumes inv: "alloc_inv n s" and t: "t < n" "al_pc s t = Idle" and d: "openForBlocks (int t) bd (al_status s) = (d, m)"
  shows "alloc_inv n (s\<lparr>al_status := m, al_pc := (al_pc s)(t := after_decision (bd_seqId bd) d)\<rparr>)" (is "alloc_inv n ?s'")
proof -
  note I = alloc_invD [OF inv]
  let ?k = "bd_seqId bd"
  have m: "m j = al_status s j" if "j \<noteq> ?k" for j using d that by (auto simp: openForBlocks_def Let_def split: if_splits option.splits)
  have cases: "m ?k = al_status s ?k \<and> d \<noteq> Allocate \<or> al_status s ?k = None \<and> (m ?k = Some ALLOCATED \<and> d = Open_existing \<or> m ?k = Some (int t) \<and> d = Allocate)"
    using d by (auto simp: openForBlocks_def Let_def split: if_splits option.splits)
  have "pc_ok ?s' u (al_pc s u)" if "u \<noteq> t" for u
  proof (rule pc_ok_frame [OF I(1)])
    fix j assume "al_status s j \<noteq> al_status ?s' j"
    then show "(al_status s j = None \<or> (\<exists>w. al_status s j = Some (int w) \<and> w \<noteq> u)) \<and>
        (al_status s j \<noteq> None \<longrightarrow> al_status ?s' j \<in> {Some ALLOCATED, Some FAILED_ALLOCATION})"
      using m [of j] cases by (cases "j = ?k") auto
  qed (use t in \<open>auto simp: busy_def\<close>)
  moreover have "pc_ok ?s' t (after_decision ?k d)"
    using d by (auto simp: openForBlocks_def Let_def split: if_splits option.splits)
  moreover have "al_status s j = Some v \<or> v = ALLOCATED \<or> v = int t \<and> j = ?k \<and> d = Allocate" if "m j = Some v" for j v
    using that m [of j] cases by (cases "j = ?k") auto
  moreover have "\<exists>k i. al_pc ?s' u = Checked k i" if "al_mutex s = Some u" for u using I(4) [OF that] t(2) by auto
  ultimately show ?thesis using t by (intro alloc_inv_step [OF inv]) (auto, metis after_decision.simps(2))
qed

lemma alloc_step_inv: "alloc_step n s s' \<Longrightarrow> alloc_inv n s \<Longrightarrow> alloc_inv n s'"
  by (auto elim!: alloc_step.cases alloc_progress.cases
      intro: finish_inv notify_inv check_done_inv check_wait_inv fall_asleep_inv call_inv return_inv spurious_inv)

lemma alloc_reachable_inv: "(alloc_step n)\<^sup>*\<^sup>* alloc_start s \<Longrightarrow> alloc_inv n s"
  by (induction rule: rtranclp_induct) (auto simp: alloc_start_inv intro: alloc_step_inv)

section \<open>Properties\<close>

lemma alloc_enabled:
  assumes inv: "alloc_inv n s"
  shows "(\<forall>t. al_pc s t = Idle \<or> (\<exists>b. al_pc s t = Finished b)) \<or> (\<exists>s'. alloc_progress n s s')"
proof -
  note I = alloc_invD [OF inv]
  have lt: "t < n" if "al_pc s t \<noteq> Idle" for t using I(2) [of t] that by (meson leI)
  have allocating: "\<exists>s'. alloc_progress n s s'" if "al_pc s t = Allocating k" for t k
    using alloc_progress.finish [OF _ that] I(1) [of t] lt [of t] that by (auto simp: finishAllocation_def)
  have free: "\<exists>s'. alloc_progress n s s'" if "al_pc s t \<noteq> Idle" "\<And>b. al_pc s t \<noteq> Finished b" "al_mutex s = None" for t
  proof (cases "al_pc s t")
    case (Sleeping k i)
    then obtain u where "al_pc s u = Allocating k \<or> (\<exists>b. al_pc s u = Notifying k b)" using I(1) [of t] by auto
    then show ?thesis using allocating alloc_progress.notify [OF lt _ that(3)] by (metis alloc_pc.distinct(3))
  next
    case (Wait_mutex k i)
    then obtain r where r: "checkAllocation k (al_status s) = Ok r" using I(1) [of t] by (auto simp: checkAllocation_def)
    from Wait_mutex have "t < n" using lt by simp
    then show ?thesis using r alloc_progress.check_done [OF _ Wait_mutex that(3)] alloc_progress.check_wait [OF _ Wait_mutex that(3)]
      by (cases r) blast+
  next
    case (Notifying k b)
    then show ?thesis using alloc_progress.notify [OF lt Notifying that(3)] by fastforce
  next
    case (Checked k i)
    then show ?thesis using I(1) [of t] that(3) by simp
  qed (use that allocating in auto)
  have held: "\<exists>s'. alloc_progress n s s'" if "al_mutex s = Some t" for t
    using I(4) [OF that] lt [of t] alloc_progress.fall_asleep by fastforce
  show ?thesis using free held by (cases "al_mutex s") blast+
qed

text \<open>C9: in every interleaving, each file is allocated by at most one thread at a time, no
  check on the status map fails, a thread that sleeps on a condition variable waits for a
  thread that has not sent its notification yet, so no wake-up is lost, and while any call
  waits or allocates, some thread can take a step.\<close>

theorem allocation_safe:
  assumes "(alloc_step n)\<^sup>*\<^sup>* alloc_start s"
  shows "(\<forall>t u k. al_pc s t = Allocating k \<and> al_pc s u = Allocating k \<longrightarrow> t = u) \<and>
    (\<forall>t k opened. al_pc s t = Allocating k \<longrightarrow> finishAllocation opened k (al_status s) \<noteq> Abort) \<and>
    (\<forall>t k i. al_pc s t = Wait_mutex k i \<longrightarrow> checkAllocation k (al_status s) \<noteq> Abort) \<and>
    (\<forall>t k i. al_pc s t = Sleeping k i \<longrightarrow> (\<exists>u. i = int u \<and> (al_pc s u = Allocating k \<or> (\<exists>b. al_pc s u = Notifying k b)))) \<and>
    ((\<forall>t. al_pc s t = Idle \<or> (\<exists>b. al_pc s t = Finished b)) \<or> (\<exists>s'. alloc_progress n s s'))"
proof -
  have inv: "alloc_inv n s" by (rule alloc_reachable_inv [OF assms])
  note I = alloc_invD(1) [OF inv]
  have alloc: "al_status s k = Some (int t)" if "al_pc s t = Allocating k" for t k using I [of t] that by simp
  have "t = u" if "al_pc s t = Allocating k" "al_pc s u = Allocating k" for t u k
    using alloc [OF that(1)] alloc [OF that(2)] by simp
  moreover have "finishAllocation opened k (al_status s) \<noteq> Abort" if "al_pc s t = Allocating k" for t k opened
    using alloc [OF that] by (simp add: finishAllocation_def)
  moreover have "checkAllocation k (al_status s) \<noteq> Abort" if "al_pc s t = Wait_mutex k i" for t k i
    using I [of t] that by (auto simp: checkAllocation_def)
  moreover have "\<exists>u. i = int u \<and> (al_pc s u = Allocating k \<or> (\<exists>b. al_pc s u = Notifying k b))" if "al_pc s t = Sleeping k i" for t k i
    using I [of t] that by simp
  ultimately show ?thesis using alloc_enabled [OF inv] by blast
qed

text \<open>Weights that decrease with every step: a notification may wake all other threads.\<close>

fun alloc_weight :: "nat \<Rightarrow> alloc_pc \<Rightarrow> nat" where
  "alloc_weight n (Allocating k) = 2 * n + 2"
| "alloc_weight n (Notifying k b) = 2 * n + 1"
| "alloc_weight n (Wait_mutex k i) = 2"
| "alloc_weight n (Checked k i) = 1"
| "alloc_weight n _ = 0"

definition alloc_measure :: "nat \<Rightarrow> alloc_state \<Rightarrow> nat" where
  "alloc_measure n s = (\<Sum>t < n. alloc_weight n (al_pc s t))"

lemma alloc_measure_update:
  assumes "t < n" "alloc_weight n x < alloc_weight n (al_pc s t)" "al_pc s' = (al_pc s)(t := x)"
  shows "alloc_measure n s' < alloc_measure n s"
  unfolding alloc_measure_def using assms by (intro sum_strict_mono_ex1) auto

lemma alloc_measure_notify:
  assumes "t < n" "al_pc s t = Notifying k b" "al_pc s' = (wake_up t (al_pc s))(t := Finished b)"
  shows "alloc_measure n s' < alloc_measure n s"
proof -
  let ?w = "\<lambda>s u. alloc_weight n (al_pc s u)"
  have "(\<Sum>u \<in> {..<n} - {t}. ?w s' u) \<le> (\<Sum>u \<in> {..<n} - {t}. ?w s u + 2)"
    using assms(3) by (intro sum_mono) (auto simp: wake_up_def split: alloc_pc.splits)
  also have "\<dots> = (\<Sum>u \<in> {..<n} - {t}. ?w s u) + 2 * (n - 1)" using assms(1) by (simp add: sum.distrib del: add_2_eq_Suc')
  finally have "(\<Sum>u \<in> {..<n} - {t}. ?w s' u) \<le> (\<Sum>u \<in> {..<n} - {t}. ?w s u) + 2 * (n - 1)" .
  moreover have "alloc_measure n r = ?w r t + (\<Sum>u \<in> {..<n} - {t}. ?w r u)" for r
    unfolding alloc_measure_def using assms(1) by (simp add: sum.remove)
  ultimately show ?thesis using assms by simp
qed

lemma alloc_progress_decreases: "alloc_progress n s s' \<Longrightarrow> alloc_measure n s' < alloc_measure n s"
proof (induction rule: alloc_progress.induct)
  case (notify t s k opened)
  then show ?case by (intro alloc_measure_notify) auto
qed (rule alloc_measure_update; auto)+

text \<open>C22: every wait ends. Without new calls and spurious wake-ups only finitely many steps are
  possible from any state, and in a reachable state in which none is left every call
  has its result.\<close>

theorem allocation_waits_end:
  "wfP (\<lambda>s' s. alloc_progress n s s') \<and>
   (\<forall>s. (alloc_step n)\<^sup>*\<^sup>* alloc_start s \<and> (\<forall>s'. \<not> alloc_progress n s s') \<longrightarrow>
      (\<forall>t. al_pc s t = Idle \<or> (\<exists>b. al_pc s t = Finished b)))"
proof -
  have "wfP (\<lambda>s' s. alloc_progress n s s')"
    by (rule wfp_if_convertible_to_nat [of _ "alloc_measure n"]) (rule alloc_progress_decreases)
  then show ?thesis using alloc_enabled alloc_reachable_inv by blast
qed

text \<open>A run in which a second thread falls asleep before the first is done.\<close>

definition example_state :: alloc_state where
  "example_state = \<lparr>al_status = [1 \<mapsto> 0], al_mutex = None, al_pc = (\<lambda>_. Idle)(0 := Allocating 1, 1 := Sleeping 1 0)\<rparr>"

lemma example_state_reachable: "(alloc_step 2)\<^sup>*\<^sup>* alloc_start example_state"
proof -
  define bd where "bd = \<lparr>bd_fileName = ''a'', bd_seqId = 1, bd_fileSize = 10, bd_offset = 0, bd_dataSize = 4,
     bd_allocationStatus = NOT_EXISTS, bd_prevSeqId = 0\<rparr>"
  define s1 where "s1 = alloc_start\<lparr>al_status := [1 \<mapsto> 0], al_pc := (al_pc alloc_start)(0 := Allocating 1)\<rparr>"
  define s2 where "s2 = s1\<lparr>al_status := [1 \<mapsto> 0], al_pc := (al_pc s1)(1 := Wait_mutex 1 0)\<rparr>"
  define s3 where "s3 = s2\<lparr>al_mutex := Some 1, al_pc := (al_pc s2)(1 := Checked 1 0)\<rparr>"
  have "alloc_step 2 alloc_start s1"
    using alloc_step.call [of 0 2 alloc_start bd Allocate "[1 \<mapsto> 0]"] by (simp add: s1_def alloc_start_def bd_def openForBlocks_def)
  moreover have "alloc_step 2 s1 s2"
    using alloc_step.call [of 1 2 s1 bd "Wait_for 0" "[1 \<mapsto> 0]"]
    by (simp add: s2_def s1_def alloc_start_def bd_def openForBlocks_def ALLOCATED_def FAILED_ALLOCATION_def)
  moreover have "alloc_step 2 s2 s3"
    using alloc_progress.check_wait [of 1 2 s2 1 0] unfolding s3_def
    by (intro alloc_step.progress) (simp add: s2_def s1_def alloc_start_def checkAllocation_def ALLOCATED_def FAILED_ALLOCATION_def)
  moreover have "alloc_step 2 s3 example_state"
    using alloc_progress.fall_asleep [of 1 2 s3 1 0]
    by (intro alloc_step.progress) (simp add: s3_def s2_def s1_def alloc_start_def example_state_def fun_upd_twist)
  ultimately show ?thesis by (meson converse_rtranclp_into_rtranclp rtranclp.rtrancl_refl)
qed

theorem allocation_safe_witness:
  "(alloc_step 2)\<^sup>*\<^sup>* alloc_start example_state \<and> al_pc example_state 1 = Sleeping 1 0 \<and>
   (\<exists>u. (0 :: int) = int u \<and> (al_pc example_state u = Allocating 1 \<or> (\<exists>b. al_pc example_state u = Notifying 1 b)))"
proof -
  have "al_pc example_state 1 = Sleeping 1 0" by (simp add: example_state_def)
  then show ?thesis using allocation_safe [OF example_state_reachable] example_state_reachable by blast
qed

theorem allocation_waits_end_witness:
  "(alloc_step 2)\<^sup>*\<^sup>* alloc_start alloc_start \<and> (\<forall>s'. \<not> alloc_progress 2 alloc_start s') \<and>
   (al_pc alloc_start 0 = Idle \<or> (\<exists>b. al_pc alloc_start 0 = Finished b))"
proof -
  have "\<not> alloc_progress 2 alloc_start s'" for s' by (auto elim!: alloc_progress.cases simp: alloc_start_def)
  then show ?thesis using allocation_waits_end [of 2] by blast
qed

end
