(* ===== verification/Threads_Controller.thy ===== *)
theory Threads_Controller
  imports Wdt_Prelude
begin

text \<open>
  \<open>util/ThreadsController\<close>: the primitives the threads of a transfer meet at. A method that runs
  under a lock is one step; a wait is a state of the waiting thread. The barrier and the funnel
  are put into systems of threads, whose runs are all interleavings of their calls.
\<close>

section \<open>Once only functions\<close>

record ExecuteOnceFunc =
  eo_numHits :: int
  eo_execFirst :: bool
  eo_numThreads :: int

definition newExecuteOnce :: "int \<Rightarrow> bool \<Rightarrow> ExecuteOnceFunc" where
  "newExecuteOnce numThreads execFirst = \<lparr>eo_numHits = 0, eo_execFirst = execFirst, eo_numThreads = numThreads\<rparr>"

text \<open>Whether this call runs the function.\<close>

definition once_execute :: "ExecuteOnceFunc \<Rightarrow> (bool \<times> ExecuteOnceFunc) outcome" where
  "once_execute x =
     (let hits = eo_numHits x + 1
      in if \<not> hits \<le> eo_numThreads x then Abort
         else Ok (hits = (if eo_execFirst x then 1 else eo_numThreads x), x\<lparr>eo_numHits := hits\<rparr>))"

definition once_reset :: "ExecuteOnceFunc \<Rightarrow> ExecuteOnceFunc" where
  "once_reset x = x\<lparr>eo_numHits := 0\<rparr>"

section \<open>Waiting on a condition\<close>

text \<open>
  \<open>wait\<close> of a guard: each result of \<open>wait_for\<close> tells whether the thread was notified and whether
  the transfer is aborted; the value is whether the wait ended before the time.
\<close>

fun guard_wait :: "int \<Rightarrow> (bool \<times> bool) list \<Rightarrow> int \<Rightarrow> bool" where
  "guard_wait abortCheckInterval [] remainingTime = False"
| "guard_wait abortCheckInterval ((notified, aborted) # results) remainingTime =
     (if remainingTime \<le> 0 then False
      else if notified then True
      else if aborted then True
      else guard_wait abortCheckInterval results
             (remainingTime - (if abortCheckInterval > 0 then min remainingTime abortCheckInterval else remainingTime)))"

section \<open>Barrier\<close>

record Barrier =
  ba_numHits :: int
  ba_numThreads :: int
  ba_isComplete :: bool

definition newBarrier :: "int \<Rightarrow> Barrier" where
  "newBarrier numThreads = \<lparr>ba_numHits = 0, ba_numThreads = numThreads, ba_isComplete = False\<rparr>"

definition checkForFinish :: "Barrier \<Rightarrow> Barrier outcome" where
  "checkForFinish b =
     (if \<not> ba_numThreads b \<ge> ba_numHits b then Abort
      else Ok (if ba_numHits b = ba_numThreads b then b\<lparr>ba_isComplete := True\<rparr> else b))"

text \<open>\<open>execute\<close> up to its wait; the thread waits while the barrier is not complete.\<close>

definition barrier_execute :: "Barrier \<Rightarrow> Barrier outcome" where
  "barrier_execute b =
     (if ba_isComplete b then Abort else checkForFinish (b\<lparr>ba_numHits := ba_numHits b + 1\<rparr>))"

definition barrier_deRegister :: "Barrier \<Rightarrow> Barrier outcome" where
  "barrier_deRegister b =
     (if ba_isComplete b then Ok b else checkForFinish (b\<lparr>ba_numThreads := ba_numThreads b - 1\<rparr>))"

section \<open>Funnel\<close>

datatype FunnelStatus = FUNNEL_START | FUNNEL_PROGRESS | FUNNEL_END

definition funnel_getStatus :: "FunnelStatus \<Rightarrow> FunnelStatus \<times> FunnelStatus" where
  "funnel_getStatus s = (if s = FUNNEL_START then (FUNNEL_START, FUNNEL_PROGRESS) else (s, s))"

definition funnel_waits :: "FunnelStatus \<Rightarrow> bool" where
  "funnel_waits s \<longleftrightarrow> s = FUNNEL_PROGRESS"

definition notifySuccess :: "FunnelStatus \<Rightarrow> FunnelStatus" where
  "notifySuccess s = FUNNEL_END"

definition notifyFail :: "FunnelStatus \<Rightarrow> FunnelStatus" where
  "notifyFail s = FUNNEL_START"

section \<open>Controller\<close>

datatype ThreadStatus = INIT | RUNNING | WAITING | FINISHED

record ThreadsController =
  tc_totalThreads :: nat
  tc_states :: "nat \<rightharpoonup> ThreadStatus"
  tc_execAtStart :: ExecuteOnceFunc
  tc_execAtEnd :: ExecuteOnceFunc
  tc_funnels :: "FunnelStatus list"
  tc_numConditions :: nat
  tc_barriers :: "Barrier list"

definition newController :: "nat \<Rightarrow> ThreadsController" where
  "newController totalThreads =
     \<lparr>tc_totalThreads = totalThreads, tc_states = (\<lambda>i. if i < totalThreads then Some INIT else None),
      tc_execAtStart = newExecuteOnce (int totalThreads) True, tc_execAtEnd = newExecuteOnce (int totalThreads) False,
      tc_funnels = [], tc_numConditions = 0, tc_barriers = []\<rparr>"

definition registerThread :: "nat \<Rightarrow> ThreadsController \<Rightarrow> ThreadsController outcome" where
  "registerThread i c =
     (if tc_states c i = None then Abort else Ok (c\<lparr>tc_states := (tc_states c)(i \<mapsto> RUNNING)\<rparr>))"

fun deRegister_all :: "Barrier list \<Rightarrow> Barrier list outcome" where
  "deRegister_all [] = Ok []"
| "deRegister_all (b # bs) = outcome_bind (barrier_deRegister b) (\<lambda>b1. outcome_bind (deRegister_all bs) (\<lambda>bs1. Ok (b1 # bs1)))"

definition deRegisterThread :: "nat \<Rightarrow> ThreadsController \<Rightarrow> ThreadsController outcome" where
  "deRegisterThread i c =
     (if tc_states c i = None then Abort
      else outcome_bind (deRegister_all (tc_barriers c)) (\<lambda>bs.
             Ok (c\<lparr>tc_states := (tc_states c)(i \<mapsto> FINISHED), tc_barriers := bs\<rparr>)))"

definition getState :: "nat \<Rightarrow> ThreadsController \<Rightarrow> ThreadStatus outcome" where
  "getState i c = (case tc_states c i of None \<Rightarrow> Abort | Some s \<Rightarrow> Ok s)"

definition markState :: "nat \<Rightarrow> ThreadStatus \<Rightarrow> ThreadsController \<Rightarrow> ThreadsController" where
  "markState i s c = c\<lparr>tc_states := (tc_states c)(i \<mapsto> s)\<rparr>"

text \<open>The keys of the map are the indices of the threads.\<close>

definition hasThreads :: "nat option \<Rightarrow> ThreadStatus \<Rightarrow> ThreadsController \<Rightarrow> bool" where
  "hasThreads but s c = list_ex (\<lambda>i. Some i \<noteq> but \<and> tc_states c i = Some s) [0 ..< tc_totalThreads c]"

definition numRunningThreads :: "ThreadsController \<Rightarrow> nat" where
  "numRunningThreads c = length (filter (\<lambda>i. tc_states c i = Some RUNNING) [0 ..< tc_totalThreads c])"

definition getBarrier :: "nat \<Rightarrow> ThreadsController \<Rightarrow> Barrier outcome" where
  "getBarrier i c = (if i < length (tc_barriers c) then Ok (tc_barriers c ! i) else Abort)"

definition getFunnel :: "nat \<Rightarrow> ThreadsController \<Rightarrow> FunnelStatus outcome" where
  "getFunnel i c = (if i < length (tc_funnels c) then Ok (tc_funnels c ! i) else Abort)"

definition getCondition :: "nat \<Rightarrow> ThreadsController \<Rightarrow> unit outcome" where
  "getCondition i c = (if i < tc_numConditions c then Ok () else Abort)"

definition setNumBarriers :: "nat \<Rightarrow> ThreadsController \<Rightarrow> ThreadsController" where
  "setNumBarriers n c = c\<lparr>tc_barriers := replicate n (newBarrier (int (tc_totalThreads c)))\<rparr>"

definition setNumConditions :: "nat \<Rightarrow> ThreadsController \<Rightarrow> ThreadsController" where
  "setNumConditions n c = c\<lparr>tc_numConditions := n\<rparr>"

definition setNumFunnels :: "nat \<Rightarrow> ThreadsController \<Rightarrow> ThreadsController" where
  "setNumFunnels n c = c\<lparr>tc_funnels := replicate n FUNNEL_START\<rparr>"

definition resetController :: "ThreadsController \<Rightarrow> ThreadsController" where
  "resetController c =
     (let c1 = setNumFunnels (length (tc_funnels c)) (setNumConditions (tc_numConditions c) (setNumBarriers (length (tc_barriers c)) c))
      in c1\<lparr>tc_execAtStart := once_reset (tc_execAtStart c1), tc_execAtEnd := once_reset (tc_execAtEnd c1),
            tc_states := (\<lambda>i. map_option (\<lambda>_. RUNNING) (tc_states c1 i))\<rparr>)"

section \<open>Executing once\<close>

text \<open>The calls of \<open>n\<close> threads: who runs the function.\<close>

fun once_run :: "nat \<Rightarrow> ExecuteOnceFunc \<Rightarrow> bool list outcome" where
  "once_run 0 x = Ok []"
| "once_run (Suc n) x = outcome_bind (once_execute x) (\<lambda>(ran, x1). outcome_bind (once_run n x1) (\<lambda>rs. Ok (ran # rs)))"

lemma once_run_from:
  "eo_numHits x = int k \<Longrightarrow> eo_numThreads x = int (k + n) \<Longrightarrow>
   once_run n x = Ok (map (\<lambda>i. i = (if eo_execFirst x then 0 else eo_numThreads x - 1)) (map int [k ..< k + n]))"
proof (induction n arbitrary: k x)
  case (Suc n)
  let ?x = "x\<lparr>eo_numHits := int k + 1\<rparr>"
  have "once_run n ?x = Ok (map (\<lambda>i. i = (if eo_execFirst x then 0 else eo_numThreads x - 1)) (map int [Suc k ..< Suc k + n]))"
    using Suc.IH [of ?x "Suc k"] Suc.prems by simp
  then show ?case using Suc.prems by (simp add: once_execute_def Let_def upt_conv_Cons del: upt_Suc)
qed simp

lemma once_run_first: "0 < n \<Longrightarrow> once_run n (newExecuteOnce (int n) True) = Ok (True # replicate (n - 1) False)"
proof -
  assume n: "0 < n"
  have "map (\<lambda>i. i = (0 :: int)) (map int [0 ..< n]) = True # replicate (n - 1) False"
    using n by (auto simp: list_eq_iff_nth_eq nth_Cons split: nat.splits)
  then show ?thesis using once_run_from [of "newExecuteOnce (int n) True" 0 n] by (simp add: newExecuteOnce_def)
qed

lemma once_run_last: "0 < n \<Longrightarrow> once_run n (newExecuteOnce (int n) False) = Ok (replicate (n - 1) False @ [True])"
proof -
  assume n: "0 < n"
  have "map (\<lambda>i. i = int n - 1) (map int [0 ..< n]) = replicate (n - 1) False @ [True]"
    using n by (auto simp: list_eq_iff_nth_eq nth_append)
  then show ?thesis using once_run_from [of "newExecuteOnce (int n) False" 0 n] by (simp add: newExecuteOnce_def)
qed

section \<open>Threads at a barrier\<close>

datatype barrier_phase = Active | At_barrier | Passed | Gone

inductive barrier_step :: "Barrier \<times> barrier_phase list \<Rightarrow> Barrier \<times> barrier_phase list \<Rightarrow> bool" where
  arrive: "i < length ps \<Longrightarrow> ps ! i = Active \<Longrightarrow> barrier_execute b = Ok b' \<Longrightarrow>
    barrier_step (b, ps) (b', ps[i := if ba_isComplete b' then Passed else At_barrier])"
| wake: "i < length ps \<Longrightarrow> ps ! i = At_barrier \<Longrightarrow> ba_isComplete b \<Longrightarrow> barrier_step (b, ps) (b, ps[i := Passed])"
| leave: "i < length ps \<Longrightarrow> ps ! i \<in> {Active, Passed} \<Longrightarrow> barrier_deRegister b = Ok b' \<Longrightarrow> barrier_step (b, ps) (b', ps[i := Gone])"

text \<open>A failed check in a call a thread may make.\<close>

definition barrier_check_fails :: "Barrier \<times> barrier_phase list \<Rightarrow> bool" where
  "barrier_check_fails s \<longleftrightarrow>
     (\<exists>i < length (snd s). snd s ! i = Active \<and> barrier_execute (fst s) = Abort \<or>
        snd s ! i \<in> {Active, Passed} \<and> barrier_deRegister (fst s) = Abort)"

definition phase_count :: "barrier_phase set \<Rightarrow> barrier_phase list \<Rightarrow> nat" where
  "phase_count S ps = length (filter (\<lambda>p. p \<in> S) ps)"

lemma phase_count_pos: "i < length ps \<Longrightarrow> ps ! i \<in> S \<Longrightarrow> 0 < phase_count S ps"
  unfolding phase_count_def length_greater_0_conv filter_empty_conv using nth_mem by blast

lemma phase_count_zero: "phase_count S ps = 0 \<longleftrightarrow> (\<forall>p \<in> set ps. p \<notin> S)"
  by (simp add: phase_count_def filter_empty_conv)

lemma phase_count_update:
  "i < length ps \<Longrightarrow> phase_count S (ps[i := p]) + (if ps ! i \<in> S then 1 else 0) = phase_count S ps + (if p \<in> S then 1 else 0)"
proof (induction ps arbitrary: i)
  case (Cons q ps)
  show ?case
  proof (cases i)
    case (Suc j)
    then show ?thesis using Cons.IH [of j] Cons.prems by (simp add: phase_count_def)
  qed (simp add: phase_count_def)
qed simp

text \<open>
  While the barrier is closed its counters are the numbers of waiting and of remaining threads;
  once it is open no thread is on its way to it.
\<close>

definition barrier_inv :: "Barrier \<times> barrier_phase list \<Rightarrow> bool" where
  "barrier_inv s \<longleftrightarrow>
     (case s of (b, ps) \<Rightarrow>
        if ba_isComplete b then phase_count {Active} ps = 0
        else phase_count {Passed} ps = 0 \<and> ba_numHits b = int (phase_count {At_barrier} ps) \<and>
             ba_numThreads b = int (phase_count {At_barrier} ps + phase_count {Active} ps) \<and> 0 < phase_count {Active} ps)"

lemma barrier_inv_start: "0 < n \<Longrightarrow> barrier_inv (newBarrier (int n), replicate n Active)"
  by (simp add: barrier_inv_def newBarrier_def phase_count_def)

lemma barrier_inv_arrive:
  assumes inv: "barrier_inv (b, ps)" and i: "i < length ps" "ps ! i = Active"
  shows "\<exists>b'. barrier_execute b = Ok b' \<and> barrier_inv (b', ps[i := if ba_isComplete b' then Passed else At_barrier])"
proof -
  have act: "0 < phase_count {Active} ps" using i by (simp add: phase_count_pos)
  then have b: "\<not> ba_isComplete b" "phase_count {Passed} ps = 0" "ba_numHits b = int (phase_count {At_barrier} ps)"
    "ba_numThreads b = int (phase_count {At_barrier} ps + phase_count {Active} ps)"
    using inv by (auto simp: barrier_inv_def split: if_splits)
  have upd: "phase_count {Active} (ps[i := p]) + 1 = phase_count {Active} ps" if "p \<noteq> Active" for p
    using phase_count_update [OF i(1), of "{Active}" p] i(2) that by simp
  have at: "phase_count {At_barrier} (ps[i := At_barrier]) = phase_count {At_barrier} ps + 1" "phase_count {Passed} (ps[i := At_barrier]) = phase_count {Passed} ps"
    using phase_count_update [OF i(1), of "{At_barrier}" At_barrier] phase_count_update [OF i(1), of "{Passed}" At_barrier] i(2) by simp_all
  show ?thesis
  proof (cases "phase_count {Active} ps = 1")
    case True
    then show ?thesis using b upd [of Passed] by (simp add: barrier_execute_def checkForFinish_def barrier_inv_def)
  next
    case False
    then show ?thesis using act b at upd [of At_barrier] by (simp add: barrier_execute_def checkForFinish_def barrier_inv_def)
  qed
qed

lemma barrier_inv_leave:
  assumes inv: "barrier_inv (b, ps)" and i: "i < length ps" "ps ! i \<in> {Active, Passed}"
  shows "\<exists>b'. barrier_deRegister b = Ok b' \<and> barrier_inv (b', ps[i := Gone])"
proof (cases "ba_isComplete b")
  case True
  then have "phase_count {Active} (ps[i := Gone]) = 0"
    using inv phase_count_update [OF i(1), of "{Active}" Gone] by (simp add: barrier_inv_def)
  then show ?thesis using True by (simp add: barrier_deRegister_def barrier_inv_def)
next
  case False
  then have b: "phase_count {Passed} ps = 0" "ba_numHits b = int (phase_count {At_barrier} ps)"
    "ba_numThreads b = int (phase_count {At_barrier} ps + phase_count {Active} ps)" "0 < phase_count {Active} ps"
    using inv by (simp_all add: barrier_inv_def)
  have act: "ps ! i = Active" using i b(1) phase_count_pos [OF i(1), of "{Passed}"] by auto
  have upd: "phase_count {Active} (ps[i := Gone]) + 1 = phase_count {Active} ps" "phase_count {At_barrier} (ps[i := Gone]) = phase_count {At_barrier} ps"
    "phase_count {Passed} (ps[i := Gone]) = 0"
    using phase_count_update [OF i(1), of "{Active}" Gone] phase_count_update [OF i(1), of "{At_barrier}" Gone]
      phase_count_update [OF i(1), of "{Passed}" Gone] act b(1) by simp_all
  show ?thesis
  proof (cases "phase_count {Active} ps = 1")
    case True
    then show ?thesis using False b upd by (simp add: barrier_deRegister_def checkForFinish_def barrier_inv_def)
  next
    case nz: False
    then show ?thesis using False b upd by (simp add: barrier_deRegister_def checkForFinish_def barrier_inv_def)
  qed
qed

lemma barrier_inv_step:
  assumes "barrier_step s s'" "barrier_inv s"
  shows "barrier_inv s'"
  using assms
proof (induction rule: barrier_step.induct)
  case (arrive i ps b b')
  then show ?case using barrier_inv_arrive [of b ps i] by auto
next
  case (wake i ps b)
  then show ?case using phase_count_update [of i ps "{Active}" Passed] by (simp add: barrier_inv_def)
next
  case (leave i ps b b')
  then show ?case using barrier_inv_leave [of b ps i] by auto
qed

lemma barrier_inv_run: "barrier_step\<^sup>*\<^sup>* s s' \<Longrightarrow> barrier_inv s \<Longrightarrow> barrier_inv s'"
  by (induction rule: rtranclp_induct) (auto intro: barrier_inv_step)

lemma barrier_inv_open: "barrier_inv (b, ps) \<Longrightarrow> ba_isComplete b \<longleftrightarrow> Active \<notin> set ps"
  using phase_count_zero [of "{Active}" ps] by (auto simp: barrier_inv_def split: if_splits)

text \<open>C24: The barrier, for every interleaving of the calls of \<open>n\<close> threads, each of which arrives at most once and
  may leave instead (an ending thread takes itself out of all barriers): no check of the barrier ever fails, and the barrier is open
  exactly when every thread has arrived or left, so that no thread passes too early and none waits for ever.\<close>

theorem barrier_correct:
  assumes "0 < n" "barrier_step\<^sup>*\<^sup>* (newBarrier (int n), replicate n Active) (b, ps)"
  shows "\<not> barrier_check_fails (b, ps) \<and> (ba_isComplete b \<longleftrightarrow> Active \<notin> set ps) \<and> (Passed \<in> set ps \<longrightarrow> ba_isComplete b)"
proof (intro conjI)
  have inv: "barrier_inv (b, ps)" by (rule barrier_inv_run [OF assms(2) barrier_inv_start [OF assms(1)]])
  show "ba_isComplete b \<longleftrightarrow> Active \<notin> set ps" by (rule barrier_inv_open [OF inv])
  show "Passed \<in> set ps \<longrightarrow> ba_isComplete b" using inv by (auto simp: barrier_inv_def phase_count_zero split: if_splits)
  show "\<not> barrier_check_fails (b, ps)"
    using barrier_inv_arrive [OF inv] barrier_inv_leave [OF inv] by (force simp: barrier_check_fails_def)
qed

theorem barrier_correct_witness:
  "barrier_step\<^sup>*\<^sup>* (newBarrier (int 2), replicate 2 Active)
     (\<lparr>ba_numHits = 1, ba_numThreads = 1, ba_isComplete = True\<rparr>, [At_barrier, Gone]) \<and>
   \<not> barrier_check_fails (\<lparr>ba_numHits = 1, ba_numThreads = 1, ba_isComplete = True\<rparr>, [At_barrier, Gone])"
proof -
  let ?b1 = "\<lparr>ba_numHits = 1, ba_numThreads = 2, ba_isComplete = False\<rparr>"
  let ?b2 = "\<lparr>ba_numHits = 1, ba_numThreads = 1, ba_isComplete = True\<rparr>"
  have "barrier_step (newBarrier (int 2), replicate 2 Active) (?b1, [At_barrier, Active])"
    using arrive [of 0 "replicate 2 Active" "newBarrier (int 2)" ?b1]
    by (simp add: barrier_execute_def checkForFinish_def newBarrier_def numeral_2_eq_2)
  moreover have "barrier_step (?b1, [At_barrier, Active]) (?b2, [At_barrier, Gone])"
    using leave [of 1 "[At_barrier, Active]" ?b1 ?b2] by (simp add: barrier_deRegister_def checkForFinish_def)
  ultimately have run: "barrier_step\<^sup>*\<^sup>* (newBarrier (int 2), replicate 2 Active) (?b2, [At_barrier, Gone])" by (simp add: converse_rtranclp_into_rtranclp)
  then show ?thesis using barrier_correct [of 2 ?b2 "[At_barrier, Gone]"] by simp
qed

section \<open>Threads in a funnel\<close>

text \<open>
  A thread asks for the status and executes, waits or goes on; a wait ends when the thread is
  notified or the time is over, and the thread asks again.
\<close>

datatype funnel_phase = Asks | Executes | Waits | Done

inductive funnel_step :: "FunnelStatus \<times> funnel_phase list \<Rightarrow> FunnelStatus \<times> funnel_phase list \<Rightarrow> bool" where
  ask: "i < length ps \<Longrightarrow> ps ! i = Asks \<Longrightarrow> funnel_getStatus f = (r, f') \<Longrightarrow>
    funnel_step (f, ps) (f', ps[i := case r of FUNNEL_START \<Rightarrow> Executes | FUNNEL_PROGRESS \<Rightarrow> Waits | FUNNEL_END \<Rightarrow> Done])"
| wait_ends: "i < length ps \<Longrightarrow> ps ! i = Waits \<Longrightarrow> funnel_step (f, ps) (f, ps[i := Asks])"
| succeeds: "i < length ps \<Longrightarrow> ps ! i = Executes \<Longrightarrow> funnel_step (f, ps) (notifySuccess f, ps[i := Done])"
| fails: "i < length ps \<Longrightarrow> ps ! i = Executes \<Longrightarrow> funnel_step (f, ps) (notifyFail f, ps[i := Asks])"

definition executing :: "funnel_phase list \<Rightarrow> nat set" where
  "executing ps = {i. i < length ps \<and> ps ! i = Executes}"

definition funnel_inv :: "FunnelStatus \<times> funnel_phase list \<Rightarrow> bool" where
  "funnel_inv s \<longleftrightarrow> (if fst s = FUNNEL_PROGRESS then \<exists>i. executing (snd s) = {i} else executing (snd s) = {})"

lemma executing_update:
  "i < length ps \<Longrightarrow> executing (ps[i := p]) = (if p = Executes then insert i (executing ps) else executing ps - {i})"
  by (auto simp: executing_def nth_list_update)

lemma funnel_inv_step: "funnel_step s s' \<Longrightarrow> funnel_inv s \<Longrightarrow> funnel_inv s'"
proof (induction rule: funnel_step.induct)
  case (ask i ps f r f')
  then have i: "i \<notin> executing ps" by (simp add: executing_def)
  show ?case
  proof (cases "f = FUNNEL_START")
    case True
    then show ?thesis using ask by (auto simp: funnel_inv_def funnel_getStatus_def executing_update)
  next
    case False
    then have "r = f" "f' = f" using ask.hyps(3) by (auto simp: funnel_getStatus_def)
    then show ?thesis using ask i False
      by (cases f) (auto simp: funnel_inv_def executing_update)
  qed
next
  case (wait_ends i ps f)
  then have "i \<notin> executing ps" by (simp add: executing_def)
  then show ?case using wait_ends by (auto simp: funnel_inv_def executing_update split: if_splits)
next
  case (succeeds i ps f)
  then have "i \<in> executing ps" by (simp add: executing_def)
  then show ?case using succeeds by (auto simp: funnel_inv_def executing_update notifySuccess_def split: if_splits)
next
  case (fails i ps f)
  then have "i \<in> executing ps" by (simp add: executing_def)
  then show ?case using fails by (auto simp: funnel_inv_def executing_update notifyFail_def split: if_splits)
qed

lemma funnel_inv_run: "funnel_step\<^sup>*\<^sup>* s s' \<Longrightarrow> funnel_inv s \<Longrightarrow> funnel_inv s'"
  by (induction rule: rtranclp_induct) (auto intro: funnel_inv_step)

lemma funnel_exclusive:
  assumes "funnel_step\<^sup>*\<^sup>* (FUNNEL_START, replicate n Asks) (f, ps)" "i < length ps" "j < length ps" "ps ! i = Executes" "ps ! j = Executes"
  shows "i = j \<and> f = FUNNEL_PROGRESS"
proof -
  have "funnel_inv (FUNNEL_START, replicate n Asks)" by (simp add: funnel_inv_def executing_def)
  then have "funnel_inv (f, ps)" by (rule funnel_inv_run [OF assms(1)])
  moreover have "i \<in> executing ps" "j \<in> executing ps" using assms(2-) by (simp_all add: executing_def)
  ultimately show ?thesis by (auto simp: funnel_inv_def split: if_splits)
qed

lemma funnel_end_stable: "funnel_step (FUNNEL_END, ps) (f', ps') \<Longrightarrow> funnel_inv (FUNNEL_END, ps) \<Longrightarrow> f' = FUNNEL_END"
  by (auto elim!: funnel_step.cases simp: funnel_inv_def funnel_getStatus_def executing_def)

end
