(* ===== verification/Wdt_Thread.thy ===== *)
theory Wdt_Thread
  imports Threads_Controller Protocol_Codec
begin

text \<open>
  What sender and receiver threads share (\<open>WdtThread\<close>): the kind of footer, and the form of their state functions,
  which work through a list of actions with early returns to another state.
\<close>

datatype FooterType = NO_FOOTER | CHECKSUM_FOOTER

definition newBlockDetails :: BlockDetails where
  "newBlockDetails = \<lparr>bd_fileName = [], bd_seqId = 0, bd_fileSize = 0, bd_offset = 0, bd_dataSize = 0,
     bd_allocationStatus = NOT_EXISTS, bd_prevSeqId = 0\<rparr>"

definition newSettings :: Settings where
  "newSettings = \<lparr>st_readTimeoutMillis = 0, st_writeTimeoutMillis = 0, st_transferId = [CHR 0x00], st_enableChecksum = False,
     st_sendFileChunks = False, st_blockModeDisabled = False, st_enableHeartBeat = False\<rparr>"

text \<open>Numbers in little endian order at a position of a buffer, and error codes; a byte that is no enumerator is taken for ERROR.\<close>

definition load_int16 :: "bytes \<Rightarrow> nat \<Rightarrow> int" where
  "load_int16 buf i = sint (word_cat (buf ! Suc i) (buf ! i) :: 16 word)"

definition load_int32 :: "bytes \<Rightarrow> nat \<Rightarrow> int" where
  "load_int32 buf i = sint (word_rcat [buf ! (i + 3), buf ! (i + 2), buf ! (i + 1), buf ! i] :: 32 word)"

definition code_of_byte :: "byte \<Rightarrow> ErrorCode" where
  "code_of_byte b = (case errorCode_of_num (unat b) of None \<Rightarrow> ERROR | Some c \<Rightarrow> c)"

section \<open>State functions with early returns\<close>

text \<open>An action returns from the state function, or continues with a value; \<open>Abort\<close> is a failed check.\<close>

datatype ('st, 'a) step = Return 'st | Continue 'a

type_synonym ('t, 'st, 'a) thread_op = "'t \<Rightarrow> (('st, 'a) step \<times> 't) outcome"

definition andThen :: "('t, 'st, 'a) thread_op \<Rightarrow> ('a \<Rightarrow> ('t, 'st, 'b) thread_op) \<Rightarrow> ('t, 'st, 'b) thread_op" where
  "andThen h f t =
     outcome_bind (h t) (\<lambda>(r, t1). case r of Return st \<Rightarrow> Ok (Return st, t1) | Continue x \<Rightarrow> f x t1)"

definition proceed :: "'a \<Rightarrow> ('t, 'st, 'a) thread_op" where
  "proceed x t = Ok (Continue x, t)"

definition goto :: "'st \<Rightarrow> ('t, 'st, 'a) thread_op" where
  "goto st t = Ok (Return st, t)"

definition modify :: "('t \<Rightarrow> 't) \<Rightarrow> ('t, 'st, unit) thread_op" where
  "modify f t = Ok (Continue (), f t)"

text \<open>A scope guard runs on every early return and is dismissed at the end of its scope.\<close>

definition guarded :: "('t \<Rightarrow> 't) \<Rightarrow> ('t, 'st, 'a) thread_op \<Rightarrow> ('t, 'st, 'a) thread_op" where
  "guarded g h t = outcome_bind (h t) (\<lambda>(r, t1). Ok (r, case r of Return _ \<Rightarrow> g t1 | Continue _ \<Rightarrow> t1))"

lemma andThen_assoc: "andThen (andThen f g) h = andThen f (\<lambda>x. andThen (g x) h)"
proof (rule ext)
  fix t
  show "andThen (andThen f g) h t = andThen f (\<lambda>x. andThen (g x) h) t"
  proof (cases "f t")
    case (Ok y)
    then show ?thesis by (cases y; cases "fst y") (simp_all add: andThen_def)
  qed (simp_all add: andThen_def)
qed

lemma andThen_Continue: "h t = Ok (Continue x, t1) \<Longrightarrow> andThen h f t = f x t1"
  by (simp add: andThen_def)

lemma andThen_Return: "h t = Ok (Return st, t1) \<Longrightarrow> andThen h f t = Ok (Return st, t1)"
  by (simp add: andThen_def)

section \<open>Relations kept by every step\<close>

text \<open>However a step from \<open>t\<close> on ends, the thread is \<open>R\<close>-related to \<open>t\<close>, and a state it goes to is in \<open>P\<close>.\<close>

definition stays :: "('t \<Rightarrow> 't \<Rightarrow> bool) \<Rightarrow> ('st \<Rightarrow> bool) \<Rightarrow> 't \<Rightarrow> (('st, 'a) step \<times> 't) outcome \<Rightarrow> bool" where
  "stays R P t x \<longleftrightarrow> (\<forall>r t'. x = Ok (r, t') \<longrightarrow> R t t' \<and> (\<forall>st. r = Return st \<longrightarrow> P st))"

lemma stays_stop [simp]: "stays R P t Fail" "stays R P t Abort"
  by (simp_all add: stays_def)

lemma stays_Ok: "R t t' \<Longrightarrow> (\<And>st. r = Return st \<Longrightarrow> P st) \<Longrightarrow> stays R P t (Ok (r, t'))"
  by (simp add: stays_def)

lemma stays_bind: "(\<And>y. x = Ok y \<Longrightarrow> stays R P t (f y)) \<Longrightarrow> stays R P t (outcome_bind x f)"
  by (cases x) simp_all

lemma stays_simple:
  "R t t0 \<Longrightarrow> stays R P t (proceed x t0)" "R t t0 \<Longrightarrow> P st \<Longrightarrow> stays R P t (goto st t0)" "R t (f t0) \<Longrightarrow> stays R P t (modify f t0)"
  by (simp_all add: stays_def proceed_def goto_def modify_def)

lemma andThen_ContinueD: "andThen h f t = Ok (Continue y, t') \<Longrightarrow> \<exists>x t1. h t = Ok (Continue x, t1) \<and> f x t1 = Ok (Continue y, t')"
  by (cases "h t") (auto simp: andThen_def split: step.splits)

locale kept_relation =
  fixes R :: "'t \<Rightarrow> 't \<Rightarrow> bool"
  assumes R_refl [simp]: "R t t" and R_trans: "R t t1 \<Longrightarrow> R t1 t2 \<Longrightarrow> R t t2"
begin

lemma stays_from: "R t t1 \<Longrightarrow> stays R P t1 x \<Longrightarrow> stays R P t x"
  unfolding stays_def using R_trans by blast

text \<open>The second action may use what the first has returned.\<close>

lemma stays_andThen_value:
  assumes "R t t0" "stays R P t0 (h t0)" "\<And>x t1. h t0 = Ok (Continue x, t1) \<Longrightarrow> R t0 t1 \<Longrightarrow> stays R P t1 (f x t1)"
  shows "stays R P t (andThen h f t0)"
proof (cases "h t0")
  case (Ok y)
  obtain r t1 where y: "y = (r, t1)" by fastforce
  have t1: "R t0 t1" using assms(2) Ok y by (simp add: stays_def)
  have "stays R P t0 (andThen h f t0)"
  proof (cases r)
    case (Return st)
    then show ?thesis using assms(2) Ok y by (simp add: andThen_Return stays_def)
  next
    case (Continue x)
    then show ?thesis using stays_from [OF t1 assms(3) [OF _ t1]] Ok y by (simp add: andThen_Continue)
  qed
  then show ?thesis by (rule stays_from [OF assms(1)])
qed (simp_all add: andThen_def)

lemma stays_andThen:
  "R t t0 \<Longrightarrow> stays R P t0 (h t0) \<Longrightarrow> (\<And>x t1. R t0 t1 \<Longrightarrow> stays R P t1 (f x t1)) \<Longrightarrow> stays R P t (andThen h f t0)"
  by (rule stays_andThen_value)

lemma stays_guarded:
  assumes "stays R P t (h t0)" "\<And>t1. R t1 (g t1)"
  shows "stays R P t (guarded g h t0)"
proof (cases "h t0")
  case (Ok y)
  obtain r t1 where "y = (r, t1)" by fastforce
  then show ?thesis using assms(1) Ok R_trans [OF _ assms(2)] by (cases r) (auto simp: stays_def guarded_def)
qed (simp_all add: guarded_def)

end

end
