(* ===== verification/Sender_Thread.thy ===== *)
theory Sender_Thread
  imports Wdt_Thread Transfer_History Protocol_Laws
begin

text \<open>
  \<open>SenderThread\<close>: the state machine of a sender thread, one definition per state. The socket is the
  interface \<open>IClientSocket\<close>, a record of its methods. What the thread asks its surroundings is answered by
  an environment indexed by a counter of questions; whenever the thread looks at the abort code or waits, the other
  threads may have changed what they share. A loop that may run for ever has fuel; \<open>Fail\<close> is a function that
  has not returned.
\<close>

section \<open>State\<close>

datatype SenderState = CONNECT | READ_LOCAL_CHECKPOINT | SEND_SETTINGS | SEND_BLOCKS | SEND_DONE_CMD | SEND_SIZE_CMD
  | CHECK_FOR_ABORT | READ_FILE_CHUNKS | READ_RECEIVER_CMD | PROCESS_DONE_CMD | PROCESS_WAIT_CMD | PROCESS_ERR_CMD
  | PROCESS_ABORT_CMD | PROCESS_VERSION_MISMATCH | END

datatype ProtoNegotiationStatus = V_MISMATCH_WAIT | V_MISMATCH_RESOLVED | V_MISMATCH_FAILED

text \<open>
  The methods of a client socket. A read delivers the bytes read, none at the end of the stream, or
  \<open>None\<close> for an error.
\<close>

record 's IClientSocket =
  ci_connect :: "'s \<Rightarrow> (ErrorCode \<times> 's) outcome"
  ci_read :: "int \<Rightarrow> bool \<Rightarrow> 's \<Rightarrow> (bytes option \<times> 's) outcome"
  ci_readWithTimeout :: "int \<Rightarrow> int \<Rightarrow> 's \<Rightarrow> (bytes option \<times> 's) outcome"
  ci_write :: "bytes \<Rightarrow> bool \<Rightarrow> 's \<Rightarrow> (int \<times> 's) outcome"
  ci_shutdownWrites :: "'s \<Rightarrow> ErrorCode \<times> 's"
  ci_expectEndOfStream :: "'s \<Rightarrow> ErrorCode \<times> 's"
  ci_closeNoCheck :: "'s \<Rightarrow> 's"
  ci_nonRetryableErrCode :: "'s \<Rightarrow> ErrorCode"
  ci_readErrCode :: "'s \<Rightarrow> ErrorCode"
  ci_unackedBytes :: "'s \<Rightarrow> int \<times> 's"
  ci_encryptionType :: "'s \<Rightarrow> EncryptionType"

text \<open>What the threads share: the parent \<open>Sender\<close> with its queue, histories, controller and abort code.\<close>

record Sender =
  sn_queue :: DirectorySourceQueue
  sn_histories :: histories
  sn_controller :: ThreadsController
  sn_protocolVersion :: int
  sn_transferId :: string
  sn_downloadResumptionEnabled :: bool
  sn_fileChunksReceived :: bool
  sn_negotiation :: ProtoNegotiationStatus
  sn_negotiatedProtocols :: "int list"
  sn_abortCode :: ErrorCode
  sn_tls :: bool
  sn_started :: nat
  sn_ended :: nat

record sender_options =
  op_max_retries :: int
  op_max_transfer_retries :: int
  op_read_timeout_millis :: int
  op_write_timeout_millis :: int
  op_drain_extra_ms :: int
  op_enable_heart_beat :: bool
  op_enable_checksum :: bool
  op_block_size_mbytes :: int

text \<open>
  The answers of the surroundings at each question: a new socket for a port and an interval of changes of the
  initialization vector, whether heart beats are due, what the file system delivers, the time a send buffer took
  to clear, what other threads have done.
\<close>

record 's sender_env =
  xe_options :: sender_options
  xe_fuel :: nat
  xe_ivChangeInterval :: int
  xe_makeSocket :: "nat \<Rightarrow> int \<Rightarrow> int \<Rightarrow> 's option"
  xe_heartBeatDue :: "nat \<Rightarrow> bool"
  xe_queue :: "nat \<Rightarrow> queue_env"
  xe_pread :: "nat \<Rightarrow> int \<Rightarrow> int \<Rightarrow> int \<Rightarrow> bytes option"
  xe_clearTime :: "nat \<Rightarrow> int"
  xe_others :: "nat \<Rightarrow> Sender \<Rightarrow> Sender"
  xe_throttled :: bool
  xe_crc32c :: "bytes \<Rightarrow> int \<Rightarrow> int"

record 's SenderThread =
  sd_socket :: "'s option"
  sd_index :: nat
  sd_port :: int
  sd_buf :: bytes
  sd_totalSizeSent :: bool
  sd_numReconnectWithoutProgress :: int
  sd_threadProtocolVersion :: int
  sd_footerType :: FooterType
  sd_enableHeartBeat :: bool
  sd_parent :: Sender
  sd_tick :: nat

text \<open>
  The statistics of the thread are shared with its history, which refers to them.
  A negotiated protocol of -1 is none.
\<close>

definition newSenderThread :: "nat \<Rightarrow> int \<Rightarrow> string \<Rightarrow> bytes \<Rightarrow> Sender \<Rightarrow> 's SenderThread outcome" where
  "newSenderThread i port threadId buf p =
     outcome_bind (registerThread i (sn_controller p)) (\<lambda>c.
       Ok \<lparr>sd_socket = None, sd_index = i, sd_port = port, sd_buf = buf, sd_totalSizeSent = False, sd_numReconnectWithoutProgress = 0,
           sd_threadProtocolVersion = sn_protocolVersion p, sd_footerType = NO_FOOTER, sd_enableHeartBeat = False,
           sd_parent = p\<lparr>sn_controller := c, sn_histories := addThreadHistory port (newStatsId threadId) (sn_histories p)\<rparr>, sd_tick = 0\<rparr>)"

abbreviation sd_bufSize :: "'s SenderThread \<Rightarrow> int" where
  "sd_bufSize t \<equiv> int (length (sd_buf t))"

type_synonym ('a, 's) sender_op = "('s SenderThread, SenderState, 'a) thread_op"

section \<open>Parts of the state\<close>

definition upd_sender :: "(Sender \<Rightarrow> Sender) \<Rightarrow> 's SenderThread \<Rightarrow> 's SenderThread" where
  "upd_sender f t = t\<lparr>sd_parent := f (sd_parent t)\<rparr>"

definition upd_history :: "(ThreadTransferHistory \<Rightarrow> ThreadTransferHistory) \<Rightarrow> 's SenderThread \<Rightarrow> 's SenderThread" where
  "upd_history f t =
     upd_sender (\<lambda>p. p\<lparr>sn_histories := map (\<lambda>(port, h). (port, if port = sd_port t then f h else h)) (sn_histories p)\<rparr>) t"

definition thread_history :: "('s SenderThread, 'st, ThreadTransferHistory) thread_op" where
  "thread_history t = outcome_bind (getTransferHistory (sd_port t) (sn_histories (sd_parent t))) (\<lambda>h. Ok (Continue h, t))"

definition thread_stats :: "'s SenderThread \<Rightarrow> TransferStats" where
  "thread_stats t = (case map_of (sn_histories (sd_parent t)) (sd_port t) of None \<Rightarrow> newStats | Some h \<Rightarrow> h_threadStats h)"

definition on_stats :: "(TransferStats \<Rightarrow> TransferStats) \<Rightarrow> 's SenderThread \<Rightarrow> 's SenderThread" where
  "on_stats f = upd_history (\<lambda>h. h\<lparr>h_threadStats := f (h_threadStats h)\<rparr>)"

text \<open>\<open>threadStats_.setLocalErrorCode(e); return st;\<close>\<close>

definition stop_with :: "ErrorCode \<Rightarrow> SenderState \<Rightarrow> ('a, 's) sender_op" where
  "stop_with e st t = goto st (on_stats (setLocalErrorCode e) t)"

definition ask :: "(nat \<Rightarrow> 'a) \<Rightarrow> ('s SenderThread, 'st, 'a) thread_op" where
  "ask q t = Ok (Continue (q (sd_tick t)), t\<lparr>sd_tick := Suc (sd_tick t)\<rparr>)"

definition other_threads :: "'s sender_env \<Rightarrow> ('s SenderThread, 'st, unit) thread_op" where
  "other_threads e t = Ok (Continue (), upd_sender (xe_others e (sd_tick t)) (t\<lparr>sd_tick := Suc (sd_tick t)\<rparr>))"

text \<open>A method of the socket; without a socket the pointer is null.\<close>

definition sock_call :: "('s \<Rightarrow> ('a \<times> 's) outcome) \<Rightarrow> ('s SenderThread, 'st, 'a) thread_op" where
  "sock_call f t =
     (case sd_socket t of
        None \<Rightarrow> Abort
      | Some s \<Rightarrow> outcome_bind (f s) (\<lambda>(x, s1). Ok (Continue x, t\<lparr>sd_socket := Some s1\<rparr>)))"

definition num_read :: "bytes option \<Rightarrow> int" where
  "num_read r = (case r of None \<Rightarrow> -1 | Some d \<Rightarrow> int (length d))"

definition data_read :: "bytes option \<Rightarrow> bytes" where
  "data_read r = (case r of None \<Rightarrow> [] | Some d \<Rightarrow> d)"

text \<open>\<open>socket_->read(buf_ + pos, n)\<close>\<close>

definition store_read :: "nat \<Rightarrow> bytes option \<Rightarrow> 's SenderThread \<Rightarrow> 's SenderThread" where
  "store_read pos r t = (case r of None \<Rightarrow> t | Some d \<Rightarrow> t\<lparr>sd_buf := write_at pos d (sd_buf t)\<rparr>)"

definition read_into :: "'s IClientSocket \<Rightarrow> nat \<Rightarrow> int \<Rightarrow> bool \<Rightarrow> ('s SenderThread, 'st, int) thread_op" where
  "read_into V pos n tryFull =
     andThen (sock_call (ci_read V n tryFull)) (\<lambda>r. andThen (modify (store_read pos r)) (\<lambda>_. proceed (num_read r)))"

definition write_out :: "'s IClientSocket \<Rightarrow> bytes \<Rightarrow> bool \<Rightarrow> ('s SenderThread, 'st, int) thread_op" where
  "write_out V bs retry = sock_call (ci_write V bs retry)"

definition put_cmd :: "CMD_MAGIC \<Rightarrow> nat \<Rightarrow> 's SenderThread \<Rightarrow> 's SenderThread" where
  "put_cmd c pos t = t\<lparr>sd_buf := (sd_buf t)[pos := cmd_byte c]\<rparr>"

text \<open>An encoder on the buffer up to \<open>mx\<close>; whether it succeeds is not looked at.\<close>

definition encode_into :: "encoder \<Rightarrow> int \<Rightarrow> int \<Rightarrow> ('s SenderThread, 'st, int) thread_op" where
  "encode_into enc mx off t =
     (case enc mx (sd_buf t) off of (Abort, _) \<Rightarrow> Abort | (_, buf, off') \<Rightarrow> Ok (Continue off', t\<lparr>sd_buf := buf\<rparr>))"

section \<open>Abort codes\<close>

definition abort_sender :: "ErrorCode \<Rightarrow> Sender \<Rightarrow> Sender" where
  "abort_sender abortCode p =
     (if abortCode = VERSION_MISMATCH \<and> sn_abortCode p \<noteq> OK then p else p\<lparr>sn_abortCode := abortCode\<rparr>)"

definition clearAbort :: "Sender \<Rightarrow> Sender" where
  "clearAbort p = (if sn_abortCode p \<noteq> VERSION_MISMATCH then p else p\<lparr>sn_abortCode := OK\<rparr>)"

definition getThreadAbortCode :: "'s sender_env \<Rightarrow> ('s SenderThread, 'st, ErrorCode) thread_op" where
  "getThreadAbortCode e =
     andThen (other_threads e) (\<lambda>_ t.
       if sn_abortCode (sd_parent t) \<noteq> OK then proceed (sn_abortCode (sd_parent t)) t
       else andThen thread_history (\<lambda>h. proceed (if isGlobalCheckpointReceived h then GLOBAL_CHECKPOINT_ABORT else OK)) t)"

section \<open>Connecting\<close>

fun connect_attempts :: "'s IClientSocket \<Rightarrow> 's sender_env \<Rightarrow> nat \<Rightarrow> (ErrorCode, 's) sender_op" where
  "connect_attempts V e 0 = proceed CONN_ERROR"
| "connect_attempts V e (Suc n) =
     andThen (sock_call (ci_connect V)) (\<lambda>code.
       if code = OK then proceed OK
       else if code = CONN_ERROR then proceed CONN_ERROR
       else andThen (getThreadAbortCode e) (\<lambda>a. if a \<noteq> OK then proceed ABORT else connect_attempts V e n))"

definition connectToReceiver :: "'s IClientSocket \<Rightarrow> 's sender_env \<Rightarrow> (ErrorCode, 's) sender_op" where
  "connectToReceiver V e t =
     (let ivChangeInterval = (if sd_threadProtocolVersion t < PERIODIC_ENCRYPTION_IV_CHANGE_VERSION then 0 else xe_ivChangeInterval e);
          maxRetries = (if op_max_retries (xe_options e) < 1 then 1 else nat (op_max_retries (xe_options e)))
      in andThen (ask (xe_makeSocket e)) (\<lambda>make t1.
           case make (sd_port t1) ivChangeInterval of
             None \<Rightarrow> proceed ERROR t1
           | Some s \<Rightarrow>
               andThen (connect_attempts V e maxRetries) (\<lambda>code.
                 if code = OK then proceed OK else andThen (modify (\<lambda>t. t\<lparr>sd_socket := None\<rparr>)) (\<lambda>_. proceed code))
               (t1\<lparr>sd_socket := Some s\<rparr>)) t)"

definition resetSender :: "'s SenderThread \<Rightarrow> 's SenderThread" where
  "resetSender t = on_stats (setLocalErrorCode OK) (t\<lparr>sd_totalSizeSent := False\<rparr>)"

text \<open>The message about missing progress asks the socket for its port.\<close>

definition connect :: "'s IClientSocket \<Rightarrow> 's sender_env \<Rightarrow> (unit, 's) sender_op" where
  "connect V e t =
     (let code0 = (case sd_socket t of None \<Rightarrow> OK | Some s \<Rightarrow> ci_nonRetryableErrCode V s)
      in if code0 \<noteq> OK then stop_with code0 END t
         else let t1 = t\<lparr>sd_socket := map_option (ci_closeNoCheck V) (sd_socket t)\<rparr>
              in if sd_numReconnectWithoutProgress t1 \<ge> op_max_transfer_retries (xe_options e)
                 then (if sd_socket t1 = None then Abort else stop_with NO_PROGRESS END t1)
                 else andThen (connectToReceiver V e) (\<lambda>code t2.
                        if code = ABORT
                        then andThen (getThreadAbortCode e) (\<lambda>a. goto (if a = VERSION_MISMATCH then PROCESS_VERSION_MISMATCH else END))
                               (on_stats (setLocalErrorCode ABORT) t2)
                        else if code \<noteq> OK then stop_with code END t2
                        else goto (if ts_localErrCode (thread_stats t2) \<noteq> OK then READ_LOCAL_CHECKPOINT else SEND_SETTINGS) (resetSender t2))
                      (t1\<lparr>sd_socket := None\<rparr>))"

section \<open>Checkpoints and settings\<close>

definition history_step ::
  "(ThreadTransferHistory \<Rightarrow> DirectorySourceQueue \<Rightarrow> ('a \<times> ThreadTransferHistory \<times> DirectorySourceQueue) outcome) \<Rightarrow> ('s SenderThread, 'st, 'a) thread_op" where
  "history_step f =
     andThen thread_history (\<lambda>h t.
       outcome_bind (f h (sn_queue (sd_parent t))) (\<lambda>(x, h1, q1).
         Ok (Continue x, upd_sender (\<lambda>p. p\<lparr>sn_queue := q1\<rparr>) (upd_history (\<lambda>_. h1) t))))"

text \<open>A single checkpoint of the own port.\<close>

definition decode_own_checkpoint :: "int \<Rightarrow> ('s SenderThread, 'st, Checkpoint option) thread_op" where
  "decode_own_checkpoint checkpointLen t =
     (case decodeCheckpoints (sd_threadProtocolVersion t) (sd_buf t) 0 checkpointLen of
        (Abort, _) \<Rightarrow> Abort
      | (Ok [c], _) \<Rightarrow> Ok (Continue (if cp_port c = sd_port t then Some c else None), t)
      | _ \<Rightarrow> Ok (Continue None, t))"

definition readLocalCheckPoint :: "'s IClientSocket \<Rightarrow> (unit, 's) sender_op" where
  "readLocalCheckPoint V t =
     (let checkpointLen = getMaxLocalCheckpointLength (sd_threadProtocolVersion t)
      in andThen (read_into V 0 checkpointLen True) (\<lambda>numRead.
           if numRead \<noteq> checkpointLen
           then (\<lambda>t. stop_with SOCKET_READ_ERROR CONNECT (t\<lparr>sd_numReconnectWithoutProgress := sd_numReconnectWithoutProgress t + 1\<rparr>))
           else andThen (decode_own_checkpoint checkpointLen) (\<lambda>r.
             case r of
               None \<Rightarrow> stop_with PROTOCOL_ERROR END
             | Some checkpoint \<Rightarrow>
                 if cp_numBlocks checkpoint = -1 then goto READ_RECEIVER_CMD
                 else andThen (history_step (setLocalCheckpoint checkpoint)) (\<lambda>errCode.
                        if errCode = INVALID_CHECKPOINT then stop_with PROTOCOL_ERROR END
                        else andThen (modify (\<lambda>t. t\<lparr>sd_numReconnectWithoutProgress :=
                               (if errCode = NO_PROGRESS then sd_numReconnectWithoutProgress t + 1 else 0)\<rparr>)) (\<lambda>_. goto SEND_SETTINGS)))) t)"

definition isSendFileChunks :: "Sender \<Rightarrow> bool" where
  "isSendFileChunks p \<longleftrightarrow> sn_downloadResumptionEnabled p \<and> sn_protocolVersion p \<ge> DOWNLOAD_RESUMPTION_VERSION"

definition sender_settings :: "'s sender_env \<Rightarrow> 's SenderThread \<Rightarrow> Settings" where
  "sender_settings e t =
     newSettings\<lparr>st_readTimeoutMillis := op_read_timeout_millis (xe_options e), st_writeTimeoutMillis := op_write_timeout_millis (xe_options e),
       st_transferId := sn_transferId (sd_parent t), st_enableChecksum := (sd_footerType t = CHECKSUM_FOOTER),
       st_sendFileChunks := isSendFileChunks (sd_parent t), st_blockModeDisabled := (op_block_size_mbytes (xe_options e) \<le> 0),
       st_enableHeartBeat := sd_enableHeartBeat t\<rparr>"

definition sendSettings :: "'s IClientSocket \<Rightarrow> 's sender_env \<Rightarrow> (unit, 's) sender_op" where
  "sendSettings V e t =
     (let sendFileChunks = isSendFileChunks (sd_parent t);
          t1 = (put_cmd SETTINGS_CMD 0 t)\<lparr>sd_enableHeartBeat :=
                 (sd_threadProtocolVersion t \<ge> HEART_BEAT_VERSION \<and> op_enable_heart_beat (xe_options e))\<rparr>
      in andThen (encode_into (encodeSettings (sd_threadProtocolVersion t1) (sender_settings e t1)) kMaxSettings 1) (\<lambda>off t2.
           let toWrite = (if sendFileChunks then kMinBufLength else off)
           in andThen (write_out V (take (nat toWrite) (sd_buf t2)) False) (\<lambda>written.
                if written \<noteq> toWrite then stop_with SOCKET_WRITE_ERROR CONNECT
                else andThen (modify (on_stats (addHeaderBytes toWrite))) (\<lambda>_.
                  goto (if sendFileChunks then READ_FILE_CHUNKS else SEND_BLOCKS))) t2) t1)"

section \<open>Sending blocks\<close>

definition readHeartBeats :: "'s IClientSocket \<Rightarrow> 's sender_env \<Rightarrow> ('s SenderThread, 'st, ErrorCode) thread_op" where
  "readHeartBeats V e t =
     (if \<not> sd_enableHeartBeat t then proceed OK t
      else andThen (ask (xe_heartBeatDue e)) (\<lambda>due t1.
             if \<not> due then proceed OK t1
             else andThen (read_into V 0 (sd_bufSize t1) False) (\<lambda>numRead t2.
                    proceed (if numRead \<le> 0 then SOCKET_READ_ERROR
                             else if list_all (\<lambda>b. b = cmd_byte HEART_BEAT_CMD) (take (nat numRead) (sd_buf t2)) then OK
                             else PROTOCOL_ERROR) t2) t1) t)"

text \<open>
  \<open>sendOneByteSource\<close> with its local variables; returning early is \<open>Return ()\<close>. Without a throttler
  its two counters are not used.
\<close>

record 's block_send =
  bk_thread :: "'s SenderThread"
  bk_source :: ByteSource
  bk_stats :: TransferStats
  bk_checksum :: int
  bk_actualSize :: int
  bk_throttlerInstanceBytes :: int
  bk_totalThrottlerBytes :: int

definition in_thread :: "('s SenderThread, unit, 'a) thread_op \<Rightarrow> ('s block_send, unit, 'a) thread_op" where
  "in_thread h b = outcome_bind (h (bk_thread b)) (\<lambda>(r, t). Ok (r, b\<lparr>bk_thread := t\<rparr>))"

definition block_failed :: "ErrorCode \<Rightarrow> ('s block_send, unit, 'a) thread_op" where
  "block_failed e b = Ok (Return (), b\<lparr>bk_stats := incrFailedAttempts (setLocalErrorCode e (bk_stats b))\<rparr>)"

definition block_details_of :: "ByteSource \<Rightarrow> BlockDetails" where
  "block_details_of s =
     newBlockDetails\<lparr>bd_fileName := md_relPath (bs_meta s), bd_seqId := md_seqId (bs_meta s), bd_fileSize := md_size (bs_meta s),
       bd_offset := bs_offset s, bd_dataSize := bs_size s, bd_allocationStatus := md_allocationStatus (bs_meta s),
       bd_prevSeqId := md_prevSeqId (bs_meta s)\<rparr>"

text \<open>The header with its length in the third and fourth byte.\<close>

definition header_buffer :: "int \<Rightarrow> ErrorCode \<Rightarrow> BlockDetails \<Rightarrow> bytes outcome" where
  "header_buffer protocolVersion transferStatus bd =
     (case encodeHeader protocolVersion bd kMaxHeader
             ((replicate (nat kMaxHeader) 0)[0 := cmd_byte FILE_CMD, 1 := word_of_nat (errorCode_num transferStatus)]) 4 of
        (Abort, _) \<Rightarrow> Abort
      | (_, buf, off) \<Rightarrow> Ok (take (nat off) (buf[2 := word_of_int off, 3 := word_of_int (off div 256)])))"

definition count_throttled :: "'s sender_env \<Rightarrow> int \<Rightarrow> 's block_send \<Rightarrow> 's block_send" where
  "count_throttled e sz b =
     (if xe_throttled e
      then b\<lparr>bk_totalThrottlerBytes := bk_totalThrottlerBytes b + bk_throttlerInstanceBytes b + sz, bk_throttlerInstanceBytes := 0\<rparr>
      else b)"

text \<open>One round of the loop, from the data read from the source on.\<close>

definition send_piece :: "'s IClientSocket \<Rightarrow> 's sender_env \<Rightarrow> bytes \<Rightarrow> ('s block_send, unit, unit) thread_op" where
  "send_piece V e data =
     andThen (modify (\<lambda>b. count_throttled e (int (length data))
         (if sd_footerType (bk_thread b) = CHECKSUM_FOOTER then b\<lparr>bk_checksum := xe_crc32c e data (bk_checksum b)\<rparr> else b))) (\<lambda>_.
     andThen (in_thread (write_out V data True)) (\<lambda>written.
     andThen (in_thread (getThreadAbortCode e)) (\<lambda>a.
       if a \<noteq> OK then block_failed ABORT
       else if written \<noteq> int (length data) then block_failed SOCKET_WRITE_ERROR
       else modify (\<lambda>b. b\<lparr>bk_stats := addDataBytes written (bk_stats b), bk_actualSize := bk_actualSize b + written\<rparr>))))"

fun send_pieces :: "'s IClientSocket \<Rightarrow> 's sender_env \<Rightarrow> nat \<Rightarrow> ('s block_send, unit, unit) thread_op" where
  "send_pieces V e 0 b = Fail"
| "send_pieces V e (Suc n) b =
     (if source_finished (bk_source b) then proceed () b
      else andThen (in_thread (readHeartBeats V e)) (\<lambda>_.
           andThen (in_thread (ask (xe_pread e))) (\<lambda>pread b1.
             case readSource pread (sd_bufSize (bk_thread b1)) (bk_source b1) of
               (r, s) \<Rightarrow>
                 outcome_bind r (\<lambda>data.
                   let b2 = b1\<lparr>bk_source := s\<rparr>
                   in if hasError s then proceed () b2
                      else case data of
                             None \<Rightarrow> Abort
                           | Some d \<Rightarrow> if d = [] then Abort else andThen (send_piece V e d) (\<lambda>_. send_pieces V e n) b2))) b)"

definition send_footer :: "'s IClientSocket \<Rightarrow> ('s block_send, unit, unit) thread_op" where
  "send_footer V b =
     (if sd_footerType (bk_thread b) = NO_FOOTER then proceed () b
      else case encodeFooter (bk_checksum b) kMaxFooter ((replicate (nat kMaxHeader) 0)[0 := cmd_byte FOOTER_CMD]) 1 of
             (Abort, _) \<Rightarrow> Abort
           | (_, buf, toWrite) \<Rightarrow>
               andThen (in_thread (write_out V (take (nat toWrite) buf) False)) (\<lambda>written.
                 if written \<noteq> toWrite then block_failed SOCKET_WRITE_ERROR
                 else modify (\<lambda>b. b\<lparr>bk_stats := addHeaderBytes toWrite (bk_stats b)\<rparr>)) b)"

definition throttler_check :: "'s sender_env \<Rightarrow> int \<Rightarrow> ('s block_send, unit, unit) thread_op" where
  "throttler_check e headerBytes b =
     (if xe_throttled e \<and> bk_actualSize b > 0 \<and> bk_totalThrottlerBytes b \<noteq> bk_actualSize b + headerBytes then Abort else proceed () b)"

definition block_sent :: "'s block_send \<Rightarrow> 's block_send" where
  "block_sent b =
     (let s = incrStatsBlocks (setLocalErrorCode OK (bk_stats b))
      in b\<lparr>bk_stats := addEffectiveBytes (ts_headerBytes s) (ts_dataBytes s) s\<rparr>)"

definition send_body :: "'s IClientSocket \<Rightarrow> 's sender_env \<Rightarrow> bytes \<Rightarrow> int \<Rightarrow> ('s block_send, unit, unit) thread_op" where
  "send_body V e header expectedSize =
     andThen (in_thread (write_out V header False)) (\<lambda>written.
       if written \<noteq> int (length header) then block_failed SOCKET_WRITE_ERROR
       else andThen (modify (\<lambda>b. b\<lparr>bk_stats := addHeaderBytes written (bk_stats b), bk_throttlerInstanceBytes := written\<rparr>)) (\<lambda>_.
            andThen (\<lambda>b. send_pieces V e (Suc (nat (bs_size (bk_source b)))) b) (\<lambda>_ b.
              if bk_actualSize b \<noteq> expectedSize then block_failed BYTE_SOURCE_READ_ERROR b
              else andThen (throttler_check e written) (\<lambda>_. andThen (send_footer V) (\<lambda>_. modify block_sent)) b)))"

definition sendOneByteSource ::
  "'s IClientSocket \<Rightarrow> 's sender_env \<Rightarrow> ErrorCode \<Rightarrow> ByteSource \<Rightarrow> 's SenderThread \<Rightarrow> (TransferStats \<times> ByteSource \<times> 's SenderThread) outcome" where
  "sendOneByteSource V e transferStatus source t =
     outcome_bind (header_buffer (sn_protocolVersion (sd_parent t)) transferStatus (block_details_of source)) (\<lambda>header.
       outcome_bind (send_body V e header (bs_size source)
           \<lparr>bk_thread = t, bk_source = source, bk_stats = newStats, bk_checksum = 0, bk_actualSize = 0,
            bk_throttlerInstanceBytes = 0, bk_totalThrottlerBytes = 0\<rparr>) (\<lambda>(_, b).
         Ok (bk_stats b, bk_source b, bk_thread b)))"

text \<open>A thread that finds the queue empty before the discovery has finished waits for others.\<close>

definition stop_waiting :: "Sender \<Rightarrow> Sender" where
  "stop_waiting p = p\<lparr>sn_queue := (sn_queue p)\<lparr>q_numWaiters := q_numWaiters (sn_queue p) - 1\<rparr>\<rparr>"

fun take_source :: "'s sender_env \<Rightarrow> nat \<Rightarrow> ((ByteSource \<times> ErrorCode) option, 's) sender_op" where
  "take_source e 0 t = Fail"
| "take_source e (Suc n) t =
     andThen (ask (xe_queue e)) (\<lambda>env t1.
       case getNextSource env (sn_queue (sd_parent t1)) of
         (r, q) \<Rightarrow>
           let t2 = upd_sender (\<lambda>p. p\<lparr>sn_queue := q\<rparr>) t1
           in case r of
                WouldBlock \<Rightarrow> andThen (other_threads e) (\<lambda>_. andThen (modify (upd_sender stop_waiting)) (\<lambda>_. take_source e n)) t2
              | NoSource status \<Rightarrow> proceed None t2
              | GotSource s status \<Rightarrow> proceed (Some (s, status)) t2) t"

definition sendBlocks :: "'s IClientSocket \<Rightarrow> 's sender_env \<Rightarrow> (unit, 's) sender_op" where
  "sendBlocks V e t =
     (if sd_threadProtocolVersion t \<ge> RECEIVER_PROGRESS_REPORT_VERSION \<and> \<not> sd_totalSizeSent t \<and> q_initFinished (sn_queue (sd_parent t))
      then goto SEND_SIZE_CMD t
      else andThen (take_source e (xe_fuel e)) (\<lambda>r.
             case r of
               None \<Rightarrow> andThen (readHeartBeats V e) (\<lambda>_. goto SEND_DONE_CMD)
             | Some (source, transferStatus) \<Rightarrow>
                 (\<lambda>t1.
                   if hasError source then Abort
                   else outcome_bind (sendOneByteSource V e transferStatus source t1) (\<lambda>(transferStats, s1, t2).
                          andThen (history_step (addSource (closeSource (addTransferStats transferStats s1)))) (\<lambda>added.
                            if \<not> added then stop_with CONN_ERROR END
                            else goto (if ts_localErrCode transferStats \<noteq> OK then CHECK_FOR_ABORT else SEND_BLOCKS))
                          (on_stats (\<lambda>s. plusStats s transferStats) t2)))) t)"

definition sendSizeCmd :: "'s IClientSocket \<Rightarrow> (unit, 's) sender_op" where
  "sendSizeCmd V t =
     andThen (encode_into (encodeSize (q_totalFileSize (sn_queue (sd_parent t)))) kMaxSize 1) (\<lambda>off t1.
       andThen (write_out V (take (nat off) (sd_buf t1)) False) (\<lambda>written.
         if written \<noteq> off then stop_with SOCKET_WRITE_ERROR CHECK_FOR_ABORT
         else andThen (modify (\<lambda>t. on_stats (addHeaderBytes off) (t\<lparr>sd_totalSizeSent := True\<rparr>))) (\<lambda>_. goto SEND_BLOCKS)) t1)
     (put_cmd SIZE_CMD 0 t)"

definition sendDoneCmd :: "'s IClientSocket \<Rightarrow> (unit, 's) sender_op" where
  "sendDoneCmd V t =
     (let q = sn_queue (sd_parent t); (numBlocksDiscovered, transferStatus) = getNumBlocksAndStatus q;
          t0 = put_cmd DONE_CMD 0 t; t1 = t0\<lparr>sd_buf := (sd_buf t0)[1 := word_of_nat (errorCode_num transferStatus)]\<rparr>
      in andThen (encode_into (encodeDone (sd_threadProtocolVersion t1) (numBlocksDiscovered, q_totalFileSize q)) kMaxDone 2) (\<lambda>off t2.
           andThen (write_out V (take (nat kMinBufLength) (sd_buf t2)) False) (\<lambda>written.
             if written \<noteq> kMinBufLength then stop_with SOCKET_WRITE_ERROR CHECK_FOR_ABORT
             else andThen (modify (on_stats (addHeaderBytes kMinBufLength))) (\<lambda>_. goto READ_RECEIVER_CMD)) t2) t1)"

definition checkForAbort :: "'s IClientSocket \<Rightarrow> (unit, 's) sender_op" where
  "checkForAbort V =
     andThen (read_into V 0 1 True) (\<lambda>numRead t.
       if numRead \<noteq> 1 then goto CONNECT t
       else if sd_buf t ! 0 \<noteq> cmd_byte ABORT_CMD then goto CONNECT t
       else goto PROCESS_ABORT_CMD (on_stats (addHeaderBytes 1) t))"

section \<open>File chunks\<close>

text \<open>A local checkpoint of zero blocks may arrive late and is ignored.\<close>

definition readAndVerifySpuriousCheckpoint :: "'s IClientSocket \<Rightarrow> (ErrorCode, 's) sender_op" where
  "readAndVerifySpuriousCheckpoint V t =
     (let checkpointLen = getMaxLocalCheckpointLength (sd_threadProtocolVersion t)
      in andThen (read_into V 1 (checkpointLen - 1) True) (\<lambda>numRead.
           if numRead \<noteq> checkpointLen - 1
           then andThen (modify (on_stats (setLocalErrorCode SOCKET_READ_ERROR))) (\<lambda>_. proceed SOCKET_READ_ERROR)
           else andThen (decode_own_checkpoint checkpointLen) (\<lambda>r.
                  if (case r of None \<Rightarrow> False | Some c \<Rightarrow> cp_numBlocks c = 0 \<and> cp_lastBlockReceivedBytes c = 0)
                  then proceed OK
                  else andThen (modify (on_stats (setLocalErrorCode PROTOCOL_ERROR))) (\<lambda>_. proceed PROTOCOL_ERROR))) t)"

text \<open>What follows a verification of a late checkpoint.\<close>

definition after_spurious :: "SenderState \<Rightarrow> ErrorCode \<Rightarrow> (unit, 's) sender_op" where
  "after_spurious st errCode =
     (if errCode = SOCKET_READ_ERROR then goto CONNECT
      else if errCode = PROTOCOL_ERROR then goto END
      else if errCode \<noteq> OK then (\<lambda>t. Abort)
      else goto st)"

text \<open>
  The loop over the batches, each with its size in front; \<open>chunkBufSize\<close> is the size of the
  buffer they are read into. A batch larger than the buffer is written behind its end.
\<close>

fun read_batches :: "'s IClientSocket \<Rightarrow> nat \<Rightarrow> int \<Rightarrow> int \<Rightarrow> FileChunksInfo list \<Rightarrow> (FileChunksInfo list, 's) sender_op" where
  "read_batches V 0 chunkBufSize numFiles acc t = Fail"
| "read_batches V (Suc n) chunkBufSize numFiles acc t =
     (if int (length acc) > numFiles then stop_with PROTOCOL_ERROR END t
      else if int (length acc) = numFiles then proceed acc t
      else andThen (read_into V 0 4 True) (\<lambda>numRead t1.
             if numRead \<noteq> 4 then stop_with SOCKET_READ_ERROR CHECK_FOR_ABORT t1
             else let toRead = load_int32 (sd_buf t1) 0
                  in andThen (sock_call (ci_read V toRead True)) (\<lambda>r.
                       if num_read r > chunkBufSize then (\<lambda>t. Abort)
                       else if num_read r \<noteq> toRead then stop_with SOCKET_READ_ERROR CHECK_FOR_ABORT
                       else andThen (modify (on_stats (addHeaderBytes (num_read r)))) (\<lambda>_.
                              case decodeFileChunksInfoList (data_read r) 0 toRead of
                                (Ok fcis, _) \<Rightarrow> read_batches V n chunkBufSize numFiles (acc @ fcis)
                              | (Fail, _) \<Rightarrow> stop_with PROTOCOL_ERROR END
                              | (Abort, _) \<Rightarrow> (\<lambda>t. Abort))) t1) t)"

text \<open>The queue is set up again with what the receiver has.\<close>

definition setFileChunksInfo :: "FileChunksInfo list \<Rightarrow> Sender \<Rightarrow> Sender outcome" where
  "setFileChunksInfo fcis p =
     (if sn_fileChunksReceived p then Ok p
      else case setPreviouslyReceivedChunks fcis (sn_queue p) of
             None \<Rightarrow> Fail
           | Some r \<Rightarrow> outcome_bind r (\<lambda>q. Ok (p\<lparr>sn_queue := q, sn_fileChunksReceived := True\<rparr>)))"

definition receive_chunks :: "'s IClientSocket \<Rightarrow> 's sender_env \<Rightarrow> (unit, 's) sender_op" where
  "receive_chunks V e =
     andThen (read_into V 0 kChunksCmdLen True) (\<lambda>numRead t.
       if numRead \<noteq> kChunksCmdLen then stop_with SOCKET_READ_ERROR CHECK_FOR_ABORT t
       else case decodeChunksCmd (sd_buf t) 0 (sd_bufSize t) of
              (Ok (bufSize, numFiles), _) \<Rightarrow>
                andThen (modify (on_stats (addHeaderBytes numRead))) (\<lambda>_.
                  if bufSize < 0 \<or> numFiles < 0 then stop_with PROTOCOL_ERROR END
                  else andThen (read_batches V (xe_fuel e) bufSize numFiles []) (\<lambda>fcis t1.
                         outcome_bind (setFileChunksInfo fcis (sd_parent t1)) (\<lambda>p.
                           andThen (write_out V [cmd_byte ACK_CMD] False) (\<lambda>written.
                             if written \<noteq> 1 then stop_with SOCKET_WRITE_ERROR CHECK_FOR_ABORT
                             else andThen (modify (on_stats (addHeaderBytes 1))) (\<lambda>_. goto SEND_BLOCKS))
                           (put_cmd ACK_CMD 0 (t1\<lparr>sd_parent := p\<rparr>))))) t
            | _ \<Rightarrow> Abort)"

definition readFileChunks :: "'s IClientSocket \<Rightarrow> 's sender_env \<Rightarrow> (unit, 's) sender_op" where
  "readFileChunks V e =
     andThen (read_into V 0 1 True) (\<lambda>numRead.
       if numRead \<noteq> 1 then stop_with SOCKET_READ_ERROR CHECK_FOR_ABORT
       else andThen (modify (on_stats (addHeaderBytes 1))) (\<lambda>_ t.
         let cmd = sd_buf t ! 0
         in if cmd = cmd_byte ABORT_CMD then goto PROCESS_ABORT_CMD t
            else if cmd = cmd_byte WAIT_CMD then goto READ_FILE_CHUNKS t
            else if cmd = cmd_byte ACK_CMD
            then (if \<not> sn_fileChunksReceived (sd_parent t) then stop_with PROTOCOL_ERROR END t else goto SEND_BLOCKS t)
            else if cmd = cmd_byte LOCAL_CHECKPOINT_CMD
            then andThen (readAndVerifySpuriousCheckpoint V) (after_spurious READ_FILE_CHUNKS) t
            else if cmd \<noteq> cmd_byte CHUNKS_CMD then stop_with PROTOCOL_ERROR END t
            else receive_chunks V e t))"

section \<open>Answers of the receiver\<close>

text \<open>
  A read that times out is tried again as long as the number of unacknowledged bytes decreases; when
  all are acknowledged, the receiver gets as much time again.
\<close>

fun read_cmd_loop :: "'s IClientSocket \<Rightarrow> 's sender_env \<Rightarrow> nat \<Rightarrow> int \<Rightarrow> (ErrorCode, 's) sender_op" where
  "read_cmd_loop V e 0 numUnackedBytes t = Fail"
| "read_cmd_loop V e (Suc n) numUnackedBytes t =
     andThen (read_into V 0 1 True) (\<lambda>numRead.
       if numRead = 1 then proceed OK
       else andThen (getThreadAbortCode e) (\<lambda>a.
         if a \<noteq> OK then proceed ABORT
         else if numRead = 0 then proceed SOCKET_READ_ERROR
         else andThen (sock_call (\<lambda>s. Ok (ci_readErrCode V s, s))) (\<lambda>errCode.
           if errCode \<noteq> WDT_TIMEOUT then proceed SOCKET_READ_ERROR
           else andThen (sock_call (\<lambda>s. Ok (ci_unackedBytes V s))) (\<lambda>curUnackedBytes.
             if numUnackedBytes < 0 \<or> curUnackedBytes < 0 then proceed SOCKET_READ_ERROR
             else if \<not> numUnackedBytes \<ge> curUnackedBytes then (\<lambda>t. Abort)
             else if curUnackedBytes = 0
             then andThen (ask (xe_clearTime e)) (\<lambda>timeToClearSendBuffer.
                    andThen (sock_call (ci_readWithTimeout V 1 (timeToClearSendBuffer + op_drain_extra_ms (xe_options e)))) (\<lambda>r.
                      andThen (modify (store_read 0 r)) (\<lambda>_. proceed (if num_read r \<noteq> 1 then SOCKET_READ_ERROR else OK))))
             else if curUnackedBytes = numUnackedBytes then proceed SOCKET_READ_ERROR
             else read_cmd_loop V e n curUnackedBytes)))) t"

definition readNextReceiverCmd :: "'s IClientSocket \<Rightarrow> 's sender_env \<Rightarrow> (ErrorCode, 's) sender_op" where
  "readNextReceiverCmd V e =
     andThen (sock_call (\<lambda>s. Ok (ci_unackedBytes V s))) (\<lambda>numUnackedBytes.
       read_cmd_loop V e (Suc (nat numUnackedBytes)) numUnackedBytes)"

definition readReceiverCmd :: "'s IClientSocket \<Rightarrow> 's sender_env \<Rightarrow> (unit, 's) sender_op" where
  "readReceiverCmd V e =
     andThen (readNextReceiverCmd V e) (\<lambda>errCode t.
       if errCode \<noteq> OK then stop_with errCode CONNECT t
       else let cmd = sd_buf t ! 0
            in if cmd = cmd_byte ERR_CMD then goto PROCESS_ERR_CMD t
               else if cmd = cmd_byte WAIT_CMD then goto PROCESS_WAIT_CMD t
               else if cmd = cmd_byte DONE_CMD then goto PROCESS_DONE_CMD t
               else if cmd = cmd_byte ABORT_CMD then goto PROCESS_ABORT_CMD t
               else if cmd = cmd_byte LOCAL_CHECKPOINT_CMD
               then andThen (readAndVerifySpuriousCheckpoint V) (after_spurious READ_RECEIVER_CMD) t
               else if cmd = cmd_byte HEART_BEAT_CMD then goto READ_RECEIVER_CMD t
               else stop_with PROTOCOL_ERROR END t)"

definition acknowledge_all :: "('s SenderThread, 'st, unit) thread_op" where
  "acknowledge_all = history_step (\<lambda>h q. Ok ((), markAllAcknowledged h, q))"

definition processDoneCmd :: "'s IClientSocket \<Rightarrow> (unit, 's) sender_op" where
  "processDoneCmd V =
     andThen acknowledge_all (\<lambda>_.
     andThen (modify (put_cmd DONE_CMD 0)) (\<lambda>_.
     andThen (write_out V [cmd_byte DONE_CMD] False) (\<lambda>_.
     andThen (sock_call (\<lambda>s. Ok (ci_shutdownWrites V s))) (\<lambda>_.
     andThen (sock_call (\<lambda>s. Ok (ci_expectEndOfStream V s))) (\<lambda>retCode.
       if retCode \<noteq> OK then stop_with retCode CONNECT else goto END)))))"

definition processWaitCmd :: "(unit, 's) sender_op" where
  "processWaitCmd = andThen acknowledge_all (\<lambda>_. goto READ_RECEIVER_CMD)"

fun handle_checkpoints :: "Checkpoint list \<Rightarrow> Sender \<Rightarrow> Sender outcome" where
  "handle_checkpoints [] p = Ok p"
| "handle_checkpoints (c # cs) p =
     outcome_bind (handleGlobalCheckpoint c (sn_histories p) (sn_queue p)) (\<lambda>(hs, q).
       handle_checkpoints cs (p\<lparr>sn_histories := hs, sn_queue := q\<rparr>))"

definition processErrCmd :: "'s IClientSocket \<Rightarrow> (unit, 's) sender_op" where
  "processErrCmd V =
     andThen acknowledge_all (\<lambda>_.
     andThen (read_into V 0 2 True) (\<lambda>numRead t.
       if numRead \<noteq> 2 then stop_with SOCKET_READ_ERROR CONNECT t
       else let checkpointsLen = load_int16 (sd_buf t) 0
            in andThen (sock_call (ci_read V checkpointsLen True)) (\<lambda>r t1.
                 if num_read r \<noteq> checkpointsLen then stop_with SOCKET_READ_ERROR CONNECT t1
                 else case decodeCheckpoints (sd_threadProtocolVersion t1) (data_read r) 0 checkpointsLen of
                        (Ok checkpoints, _) \<Rightarrow>
                          outcome_bind (handle_checkpoints checkpoints (sd_parent t1)) (\<lambda>p. goto SEND_BLOCKS (t1\<lparr>sd_parent := p\<rparr>))
                      | (Fail, _) \<Rightarrow> stop_with PROTOCOL_ERROR END t1
                      | (Abort, _) \<Rightarrow> Abort) t))"

section \<open>Aborts and versions\<close>

definition processAbortCmd :: "'s IClientSocket \<Rightarrow> (unit, 's) sender_op" where
  "processAbortCmd V =
     andThen (modify (on_stats (setLocalErrorCode ABORT))) (\<lambda>_.
     andThen (read_into V 0 kAbortLength True) (\<lambda>numRead t.
       if numRead \<noteq> kAbortLength then goto END t
       else case decodeAbort (sd_buf t) 0 (sd_bufSize t) of
              (Ok (negotiatedProtocol, errNum, checkpoint), _) \<Rightarrow>
                let remoteError = code_of_byte (word_of_nat errNum);
                    t1 = upd_sender (abort_sender remoteError) (on_stats (setRemoteErrorCode remoteError) t)
                in if remoteError = VERSION_MISMATCH
                   then (if negotiateProtocol negotiatedProtocol (sd_threadProtocolVersion t1) = negotiatedProtocol
                         then goto PROCESS_VERSION_MISMATCH
                                (upd_sender (\<lambda>p. p\<lparr>sn_negotiatedProtocols := (sn_negotiatedProtocols p)[sd_index t1 := negotiatedProtocol]\<rparr>) t1)
                         else goto END (on_stats (setRemoteErrorCode VERSION_INCOMPATIBLE) t1))
                   else goto END t1
            | _ \<Rightarrow> Abort))"

definition setFooterType :: "'s sender_env \<Rightarrow> 's SenderThread \<Rightarrow> 's SenderThread" where
  "setFooterType e t =
     t\<lparr>sd_footerType := (if sn_protocolVersion (sd_parent t) \<ge> CHECKSUM_VERSION \<and> op_enable_checksum (xe_options e)
                         then CHECKSUM_FOOTER else NO_FOOTER)\<rparr>"

text \<open>Waiting at the barrier for the other threads.\<close>

fun wait_at_barrier :: "'s sender_env \<Rightarrow> nat \<Rightarrow> (unit, 's) sender_op" where
  "wait_at_barrier e 0 t = Fail"
| "wait_at_barrier e (Suc n) t =
     outcome_bind (getBarrier 0 (sn_controller (sd_parent t))) (\<lambda>b.
       if ba_isComplete b then proceed () t else andThen (other_threads e) (\<lambda>_. wait_at_barrier e n) t)"

definition set_barrier :: "Barrier \<Rightarrow> Sender \<Rightarrow> Sender" where
  "set_barrier b p = p\<lparr>sn_controller := (sn_controller p)\<lparr>tc_barriers := (tc_barriers (sn_controller p))[0 := b]\<rparr>\<rparr>"

definition execute_barrier :: "'s sender_env \<Rightarrow> (unit, 's) sender_op" where
  "execute_barrier e t =
     outcome_bind (getBarrier 0 (sn_controller (sd_parent t))) (\<lambda>b.
       outcome_bind (barrier_execute b) (\<lambda>b1. wait_at_barrier e (xe_fuel e) (upd_sender (set_barrier b1) t)))"

definition set_sender_funnel :: "FunnelStatus \<Rightarrow> Sender \<Rightarrow> Sender" where
  "set_sender_funnel f p = p\<lparr>sn_controller := (sn_controller p)\<lparr>tc_funnels := (tc_funnels (sn_controller p))[0 := f]\<rparr>\<rparr>"

text \<open>The versions negotiated by the threads: \<open>None\<close> if they differ.\<close>

fun agreed_protocol :: "int \<Rightarrow> int list \<Rightarrow> int option" where
  "agreed_protocol negotiated [] = Some negotiated"
| "agreed_protocol negotiated (v # vs) =
     (if v > 0 then (if negotiated > 0 \<and> negotiated \<noteq> v then None else agreed_protocol v vs) else agreed_protocol negotiated vs)"

definition resolve_mismatch :: "'s sender_env \<Rightarrow> (unit, 's) sender_op" where
  "resolve_mismatch e t =
     (let p = (sd_parent t)\<lparr>sn_negotiation := V_MISMATCH_FAILED\<rparr>
      in outcome_bind (handleVersionMismatch (sn_histories p) (sn_queue p)) (\<lambda>(code, hs, q).
           let t1 = t\<lparr>sd_parent := p\<lparr>sn_histories := hs, sn_queue := q\<rparr>\<rparr>; done = upd_sender (set_sender_funnel FUNNEL_END)
           in if code \<noteq> OK then goto END (done t1)
              else case agreed_protocol 0 (sn_negotiatedProtocols p) of
                     None \<Rightarrow> goto END (done t1)
                   | Some negotiatedProtocol \<Rightarrow>
                       if \<not> negotiatedProtocol > 0 then Abort
                       else let t2 = setFooterType e ((upd_sender (\<lambda>p. p\<lparr>sn_protocolVersion := negotiatedProtocol\<rparr>) t1)
                                       \<lparr>sd_threadProtocolVersion := negotiatedProtocol\<rparr>)
                            in goto CONNECT (done (upd_sender (\<lambda>p. clearAbort (p\<lparr>sn_negotiation := V_MISMATCH_RESOLVED\<rparr>))
                                                    (on_stats (setRemoteErrorCode OK) t2)))))"

fun mismatch_funnel :: "'s sender_env \<Rightarrow> nat \<Rightarrow> (unit, 's) sender_op" where
  "mismatch_funnel e 0 t = Fail"
| "mismatch_funnel e (Suc n) t =
     outcome_bind (getFunnel 0 (sn_controller (sd_parent t))) (\<lambda>f.
       case funnel_getStatus f of
         (status, f1) \<Rightarrow>
           let t1 = upd_sender (set_sender_funnel f1) t
           in case status of
                FUNNEL_START \<Rightarrow> resolve_mismatch e t1
              | FUNNEL_PROGRESS \<Rightarrow> andThen (other_threads e) (\<lambda>_. mismatch_funnel e n) t1
              | FUNNEL_END \<Rightarrow>
                  (case sn_negotiation (sd_parent t1) of
                     V_MISMATCH_WAIT \<Rightarrow> Abort
                   | V_MISMATCH_FAILED \<Rightarrow> goto END t1
                   | V_MISMATCH_RESOLVED \<Rightarrow>
                       goto CONNECT (on_stats (setRemoteErrorCode OK)
                         (t1\<lparr>sd_threadProtocolVersion := sn_protocolVersion (sd_parent t1)\<rparr>))))"

definition processVersionMismatch :: "'s sender_env \<Rightarrow> (unit, 's) sender_op" where
  "processVersionMismatch e t =
     (if ts_localErrCode (thread_stats t) \<noteq> ABORT then Abort
      else case sn_negotiation (sd_parent t) of
             V_MISMATCH_FAILED \<Rightarrow> Abort
           | V_MISMATCH_RESOLVED \<Rightarrow> goto END t
           | V_MISMATCH_WAIT \<Rightarrow> andThen (execute_barrier e) (\<lambda>_. mismatch_funnel e (xe_fuel e)) t)"

section \<open>The state machine\<close>

fun run_sender_state :: "'s IClientSocket \<Rightarrow> 's sender_env \<Rightarrow> SenderState \<Rightarrow> (unit, 's) sender_op" where
  "run_sender_state V e CONNECT = connect V e"
| "run_sender_state V e READ_LOCAL_CHECKPOINT = readLocalCheckPoint V"
| "run_sender_state V e SEND_SETTINGS = sendSettings V e"
| "run_sender_state V e SEND_BLOCKS = sendBlocks V e"
| "run_sender_state V e SEND_DONE_CMD = sendDoneCmd V"
| "run_sender_state V e SEND_SIZE_CMD = sendSizeCmd V"
| "run_sender_state V e CHECK_FOR_ABORT = checkForAbort V"
| "run_sender_state V e READ_FILE_CHUNKS = readFileChunks V e"
| "run_sender_state V e READ_RECEIVER_CMD = readReceiverCmd V e"
| "run_sender_state V e PROCESS_DONE_CMD = processDoneCmd V"
| "run_sender_state V e PROCESS_WAIT_CMD = processWaitCmd"
| "run_sender_state V e PROCESS_ERR_CMD = processErrCmd V"
| "run_sender_state V e PROCESS_ABORT_CMD = processAbortCmd V"
| "run_sender_state V e PROCESS_VERSION_MISMATCH = processVersionMismatch e"
| "run_sender_state V e END = goto END"

fun sender_machine :: "'s IClientSocket \<Rightarrow> 's sender_env \<Rightarrow> nat \<Rightarrow> SenderState \<Rightarrow> 's SenderThread \<Rightarrow> 's SenderThread outcome" where
  "sender_machine V e 0 st t = Fail"
| "sender_machine V e (Suc n) st t =
     (if st = END then Ok t
      else outcome_bind (getThreadAbortCode e t) (\<lambda>(r, t1).
             let abortCode = (case r of Continue c \<Rightarrow> c | Return () \<Rightarrow> OK);
                 t2 = (if abortCode \<noteq> OK then on_stats (setLocalErrorCode ABORT) t1 else t1)
             in if abortCode \<noteq> OK \<and> abortCode \<noteq> VERSION_MISMATCH then Ok t2
                else outcome_bind (run_sender_state V e (if abortCode = VERSION_MISMATCH then PROCESS_VERSION_MISMATCH else st) t2) (\<lambda>(r2, t3).
                       case r2 of Return st' \<Rightarrow> sender_machine V e n st' t3 | Continue _ \<Rightarrow> Abort)))"

text \<open>\<open>executeAtStart\<close> with \<open>startNewTransfer\<close>, \<open>executeAtEnd\<close> with \<open>endCurTransfer\<close>.\<close>

definition start_transfer :: "'s SenderThread \<Rightarrow> 's SenderThread outcome" where
  "start_transfer t =
     (let c = sn_controller (sd_parent t)
      in outcome_bind (once_execute (tc_execAtStart c)) (\<lambda>(ran, x).
           Ok (upd_sender (\<lambda>p. p\<lparr>sn_controller := c\<lparr>tc_execAtStart := x\<rparr>, sn_started := (if ran then Suc (sn_started p) else sn_started p)\<rparr>) t)))"

definition end_transfer :: "'s IClientSocket \<Rightarrow> 's SenderThread \<Rightarrow> 's SenderThread outcome" where
  "end_transfer V t =
     (let encryptionType = (case sd_socket t of None \<Rightarrow> ENC_NONE | Some s \<Rightarrow> ci_encryptionType V s);
          t1 = upd_history markNotInUse (on_stats (\<lambda>s. setEncryptionType encryptionType (setTls (sn_tls (sd_parent t)) s)) t)
      in outcome_bind (deRegisterThread (sd_index t1) (sn_controller (sd_parent t1))) (\<lambda>c.
           outcome_bind (once_execute (tc_execAtEnd c)) (\<lambda>(ran, x).
             Ok ((upd_sender (\<lambda>p. p\<lparr>sn_controller := c\<lparr>tc_execAtEnd := x\<rparr>, sn_ended := (if ran then Suc (sn_ended p) else sn_ended p)\<rparr>) t1)
                  \<lparr>sd_socket := None\<rparr>))))"

definition startSenderThread :: "'s IClientSocket \<Rightarrow> 's sender_env \<Rightarrow> nat \<Rightarrow> 's SenderThread \<Rightarrow> 's SenderThread outcome" where
  "startSenderThread V e n t =
     (if sd_buf t = [] then Ok (on_stats (setLocalErrorCode MEMORY_ALLOCATION_ERROR) t)
      else outcome_bind (start_transfer (setFooterType e t)) (\<lambda>t1.
           outcome_bind (sender_machine V e n CONNECT t1) (end_transfer V)))"

end
