(* ===== verification/Wire_Messages.thy ===== *)
theory Wire_Messages
  imports Wdt_Thread Protocol_Laws
begin

text \<open>
  The commands of a sender as byte strings: settings, total size, a block with its head and footer, and the end of
  the data. Sender and receiver are verified against these strings.
\<close>

text \<open>Lengths of two bytes.\<close>

definition int16_bytes :: "int \<Rightarrow> bytes" where
  "int16_bytes v = [word_of_int v, word_of_int (v div 256)]"

lemma word_cat_bytes: "(word_cat (a :: byte) (b :: byte) :: 16 word) = word_of_int (uint b + 256 * uint a)"
proof -
  have "concat_bit 8 (uint b) (uint a) = take_bit 8 (uint b) + push_bit 8 (uint a)" by (rule concat_bit_eq)
  also have "take_bit 8 (uint b) = uint b"
    by (rule take_bit_int_eq_self) (use unsigned_less [of b, where 'a = int] in simp_all)
  finally have "concat_bit 8 (uint b) (uint a) = uint b + 256 * uint a" by (simp add: push_bit_eq_mult)
  then show ?thesis by (simp add: word_cat_eq')
qed

lemma load_int16_bytes:
  assumes v: "0 \<le> v" "v < 2 ^ 15" and b: "drop i buf = int16_bytes v @ rest"
  shows "load_int16 buf i = v"
proof -
  have l: "Suc i < length buf" using arg_cong [OF b, of length] by (simp add: int16_bytes_def)
  have "buf ! i = word_of_int v" "buf ! Suc i = word_of_int (v div 256)"
    using b l Cons_nth_drop_Suc [of i buf] Cons_nth_drop_Suc [of "Suc i" buf] by (simp_all add: int16_bytes_def)
  moreover have "v mod 256 + 256 * (v div 256 mod 256) = v" using v by (simp add: mod_div_trivial mod_pos_pos_trivial)
  ultimately have "load_int16 buf i = sint (word_of_int v :: 16 word)"
    by (simp add: load_int16_def word_cat_bytes uint_word_of_int)
  then show ?thesis using v by (simp add: sint_sbintrunc' signed_take_bit_int_eq_self)
qed

text \<open>A file command: its head, and its head with the data.\<close>

definition file_head :: "int \<Rightarrow> byte \<Rightarrow> BlockDetails \<Rightarrow> bytes" where
  "file_head pv status bd = cmd_byte FILE_CMD # status # int16_bytes (4 + int (length (wire_header pv bd))) @ wire_header pv bd"

lemma length_file_head: "length (file_head pv status bd) = 4 + length (wire_header pv bd)"
  by (simp add: file_head_def int16_bytes_def)

text \<open>A block on the wire, with its footer if there is one; \<open>crc\<close> is the checksum function.\<close>

definition footer_msg :: "(bytes \<Rightarrow> int \<Rightarrow> int) \<Rightarrow> FooterType \<Rightarrow> bytes \<Rightarrow> bytes" where
  "footer_msg crc footer data = (if footer = CHECKSUM_FOOTER then cmd_byte FOOTER_CMD # wire_s (crc data 0) else [])"

definition block_msg :: "(bytes \<Rightarrow> int \<Rightarrow> int) \<Rightarrow> FooterType \<Rightarrow> int \<Rightarrow> BlockDetails \<times> bytes \<Rightarrow> bytes" where
  "block_msg crc footer pv b = file_head pv 0 (fst b) @ snd b @ footer_msg crc footer (snd b)"

text \<open>The last command of a sender fills the minimal length with what its buffer holds.\<close>

definition done_msg :: "int \<Rightarrow> byte \<Rightarrow> int \<times> int \<Rightarrow> bytes \<Rightarrow> bytes" where
  "done_msg pv status nb fill =
     (let m = cmd_byte DONE_CMD # status # wire_done pv nb in m @ take (nat kMinBufLength - length m) fill)"

lemma length_wire_done: "length (wire_done pv nb) \<le> 18"
  using length_wire_u(2) [of "fst nb"] length_wire_u(2) [of "snd nb"] by (simp add: wire_done_def case_prod_unfold)

lemma length_done_msg: "kMinBufLength \<le> int (length fill) \<Longrightarrow> int (length (done_msg pv status nb fill)) = kMinBufLength"
  using length_wire_done [of pv nb] by (simp add: done_msg_def kMinBufLength_def Let_def)

text \<open>Settings and the total size, sent before the blocks.\<close>

definition settings_msg :: "int \<Rightarrow> Settings \<Rightarrow> bytes" where
  "settings_msg pv s = cmd_byte SETTINGS_CMD # wire_u pv @ wire_settings_tail pv s"

definition size_msg :: "int \<Rightarrow> bytes" where
  "size_msg n = cmd_byte SIZE_CMD # wire_u n"

text \<open>A message about the total size is sent from its version on.\<close>

definition size_part :: "int \<Rightarrow> int \<Rightarrow> bytes" where
  "size_part pv n = (if pv \<ge> RECEIVER_PROGRESS_REPORT_VERSION then size_msg n else [])"

lemma length_settings_msg:
  assumes "int (length (st_transferId s)) \<le> kMaxTransferIdLength"
  shows "int (length (settings_msg pv s)) \<le> kMaxSettings"
proof -
  have "length (wire_str (st_transferId s)) \<le> 2 + length (st_transferId s)"
    using assms by (intro length_wire_str_path) (simp add: size_defs)
  then show ?thesis
    using assms length_wire_u(2) [of pv] length_wire_u(2) [of "st_readTimeoutMillis s"] length_wire_u(2) [of "st_writeTimeoutMillis s"]
    by (simp add: settings_msg_def wire_settings_tail_def size_defs)
qed

end
