(* ===== verification/Sender_Blocks.thy ===== *)
theory Sender_Blocks
  imports Sender_Thread Wire_Messages Sender_Accounting
begin

text \<open>
  What a sender thread writes: over any socket that takes the bytes it is given, a thread that nobody disturbs
  sends its settings, the total size, every block of the queue and the end of the data, and each command is exactly
  its byte string. Whatever the socket and the files do, a block is counted in one of two ways.
\<close>

section \<open>Sending over a socket\<close>

text \<open>The contract of a socket that takes what is written: \<open>outgoing s p\<close> when \<open>p\<close> has been written.\<close>

locale byte_sink =
  fixes V :: "'s IClientSocket" and outgoing :: "'s \<Rightarrow> bytes \<Rightarrow> bool"
  assumes sink_write: "outgoing s p \<Longrightarrow> bs \<noteq> [] \<Longrightarrow> \<exists>s'. ci_write V bs retry s = Ok (int (length bs), s') \<and> outgoing s' (p @ bs)"

text \<open>No other thread, no abort and no heart beat interferes.\<close>

definition undisturbed :: "'s sender_env \<Rightarrow> bool" where
  "undisturbed e \<longleftrightarrow> (\<forall>k p. xe_others e k p = p) \<and> (\<forall>k. \<not> xe_heartBeatDue e k)"

definition sending :: "('s \<Rightarrow> bytes \<Rightarrow> bool) \<Rightarrow> 's SenderThread \<Rightarrow> bytes \<Rightarrow> bool" where
  "sending outgoing t p \<longleftrightarrow> (\<exists>s. sd_socket t = Some s \<and> outgoing s p) \<and> sn_abortCode (sd_parent t) = OK \<and>
     (\<exists>h. map_of (sn_histories (sd_parent t)) (sd_port t) = Some h \<and> \<not> h_globalCheckpoint h)"

text \<open>A thread that has only used its socket and buffer.\<close>

definition alike :: "'s SenderThread \<Rightarrow> 's SenderThread \<Rightarrow> bool" where
  "alike t t' \<longleftrightarrow> sd_index t' = sd_index t \<and> sd_port t' = sd_port t \<and> length (sd_buf t') = length (sd_buf t) \<and>
     sd_totalSizeSent t' = sd_totalSizeSent t \<and> sd_numReconnectWithoutProgress t' = sd_numReconnectWithoutProgress t \<and>
     sd_threadProtocolVersion t' = sd_threadProtocolVersion t \<and> sd_footerType t' = sd_footerType t \<and>
     sd_enableHeartBeat t' = sd_enableHeartBeat t \<and> sd_parent t' = sd_parent t"

lemma alike_refl [simp]: "alike t t"
  by (simp add: alike_def)

lemma alike_trans: "alike t t' \<Longrightarrow> alike t' t'' \<Longrightarrow> alike t t''"
  by (simp add: alike_def)

lemma alike_updates [simp]:
  "alike t (t\<lparr>sd_tick := k\<rparr>)" "alike t (t\<lparr>sd_socket := s\<rparr>)" "length b = length (sd_buf t) \<Longrightarrow> alike t (t\<lparr>sd_buf := b\<rparr>)"
  by (simp_all add: alike_def)

lemma sending_updates [simp]:
  "sending outgoing (t\<lparr>sd_tick := k\<rparr>) p = sending outgoing t p" "sending outgoing (t\<lparr>sd_buf := b\<rparr>) p = sending outgoing t p"
  "sending outgoing (t\<lparr>sd_totalSizeSent := f\<rparr>) p = sending outgoing t p" "sending outgoing (t\<lparr>sd_enableHeartBeat := f\<rparr>) p = sending outgoing t p"
  by (simp_all add: sending_def)

lemma sender_parent_id [simp]: "t\<lparr>sd_parent := sd_parent t\<rparr> = t"
  by (cases t) simp

lemma abort_code_OK:
  assumes "undisturbed e" "sending outgoing t p"
  shows "getThreadAbortCode e t = Ok (Continue OK, t\<lparr>sd_tick := Suc (sd_tick t)\<rparr>)"
proof -
  have "upd_sender (xe_others e (sd_tick t)) (t\<lparr>sd_tick := k\<rparr>) = t\<lparr>sd_tick := k\<rparr>" for k
    using assms(1) by (cases t) (simp add: upd_sender_def undisturbed_def)
  then show ?thesis using assms(2)
    by (auto simp: getThreadAbortCode_def other_threads_def andThen_def proceed_def thread_history_def getTransferHistory_def sending_def
        isGlobalCheckpointReceived_def)
qed

lemma no_heart_beat:
  assumes "undisturbed e"
  shows "\<exists>k. readHeartBeats V e t = Ok (Continue OK, t\<lparr>sd_tick := k\<rparr>)"
proof (cases "sd_enableHeartBeat t")
  case True
  then show ?thesis using assms by (auto simp: readHeartBeats_def ask_def andThen_def proceed_def undisturbed_def)
next
  case False
  then show ?thesis by (intro exI [of _ "sd_tick t"]) (simp add: readHeartBeats_def proceed_def)
qed

section \<open>The head of a block\<close>

lemma header_buffer_head:
  assumes ok: "ok_header pv bd0 bd" and name: "int (length (bd_fileName bd)) \<le> PATH_MAX"
  shows "header_buffer pv status bd = Ok (file_head pv (word_of_nat (errorCode_num status)) bd)"
proof -
  let ?w = "wire_header pv bd" and ?s = "word_of_nat (errorCode_num status) :: byte"
  let ?z = "replicate (nat kMaxHeader) (0 :: byte)"
  let ?b = "?z[0 := cmd_byte FILE_CMD, 1 := ?s]"
  have big: "4 + int (length ?w) \<le> kMaxHeader" using length_wire_header [OF name, of pv] by simp
  have ib: "in_buffer kMaxHeader ?b 4" by (simp add: in_buffer_def size_defs)
  have enc: "encodeHeader pv bd kMaxHeader ?b 4 = (Ok (), write_at 4 ?w ?b, 4 + int (length ?w))"
    using enc_spec_fits [OF header.enc_wire [OF ok] ib big] by simp
  obtain z where z: "?z = 0 # 0 # 0 # 0 # z" "length z = nat kMaxHeader - 4"
    by (rule that [of "replicate (nat kMaxHeader - 4) 0"]) (simp_all add: size_defs numeral_eq_Suc)
  have "write_at 4 ?w ?b = [cmd_byte FILE_CMD, ?s, 0, 0] @ ?w @ drop (length ?w) z"
    unfolding z(1) by (simp add: write_at_def numeral_eq_Suc)
  moreover have "nat (4 + int (length ?w)) = Suc (Suc (Suc (Suc (length ?w))))" by simp
  ultimately show ?thesis
    unfolding header_buffer_def enc by (simp add: file_head_def int16_bytes_def numeral_eq_Suc)
qed

section \<open>The data of a block\<close>

text \<open>The file behind a descriptor does not change while it is read.\<close>

definition file_behind :: "'s sender_env \<Rightarrow> int \<Rightarrow> bytes \<Rightarrow> bool" where
  "file_behind e fd content \<longleftrightarrow> (\<forall>k. pread_of content (\<lambda>_. xe_pread e k fd))"

lemma readSource_fd: "readSource (\<lambda>_. pread (bs_fd s)) bufSize s = readSource pread bufSize s"
  by (simp add: readSource_def)

text \<open>A checksum can be computed piece by piece.\<close>

definition piecewise :: "(bytes \<Rightarrow> int \<Rightarrow> int) \<Rightarrow> bool" where
  "piecewise crc \<longleftrightarrow> (\<forall>a b c. crc (a @ b) c = crc b (crc a c)) \<and> (\<forall>c. crc [] c = c)"

definition checksum_of :: "'s sender_env \<Rightarrow> 's SenderThread \<Rightarrow> bytes \<Rightarrow> int \<Rightarrow> int" where
  "checksum_of e t d c = (if sd_footerType t = CHECKSUM_FOOTER then xe_crc32c e d c else c)"

lemma checksum_of_append: "piecewise (xe_crc32c e) \<Longrightarrow> checksum_of e t (a @ b) c = checksum_of e t b (checksum_of e t a c)"
  by (simp add: checksum_of_def piecewise_def)

lemma checksum_of_Nil [simp]: "piecewise (xe_crc32c e) \<Longrightarrow> checksum_of e t [] c = c"
  by (simp add: checksum_of_def piecewise_def)

text \<open>The local variables after \<open>d\<close> has been sent.\<close>

definition has_sent :: "'s sender_env \<Rightarrow> bytes \<Rightarrow> 's block_send \<Rightarrow> 's block_send \<Rightarrow> bool" where
  "has_sent e d b b' \<longleftrightarrow> alike (bk_thread b) (bk_thread b') \<and>
     bk_source b' = (bk_source b)\<lparr>bs_bytesRead := bs_bytesRead (bk_source b) + int (length d)\<rparr> \<and>
     bk_stats b' = addDataBytes (int (length d)) (bk_stats b) \<and> bk_checksum b' = checksum_of e (bk_thread b) d (bk_checksum b) \<and>
     bk_actualSize b' = bk_actualSize b + int (length d) \<and>
     (if xe_throttled e \<and> d \<noteq> []
      then bk_totalThrottlerBytes b' = bk_totalThrottlerBytes b + bk_throttlerInstanceBytes b + int (length d) \<and> bk_throttlerInstanceBytes b' = 0
      else bk_totalThrottlerBytes b' = bk_totalThrottlerBytes b \<and> bk_throttlerInstanceBytes b' = bk_throttlerInstanceBytes b)"

lemma bytesRead_id [simp]: "s\<lparr>bs_bytesRead := bs_bytesRead s\<rparr> = s"
  by (cases s) simp

lemma has_sent_Nil: "piecewise (xe_crc32c e) \<Longrightarrow> alike (bk_thread b) (bk_thread b') \<Longrightarrow> b' = b\<lparr>bk_thread := bk_thread b'\<rparr> \<Longrightarrow> has_sent e [] b b'"
  by (cases b; cases b') (simp add: has_sent_def addDataBytes_def)

lemma has_sent_append:
  assumes "has_sent e c b b1" "has_sent e d b1 b2" "piecewise (xe_crc32c e)" "c \<noteq> []"
  shows "has_sent e (c @ d) b b2"
proof -
  have "sd_footerType (bk_thread b1) = sd_footerType (bk_thread b)" using assms(1) by (simp add: has_sent_def alike_def)
  then have "bk_checksum b2 = checksum_of e (bk_thread b) (c @ d) (bk_checksum b)"
    using assms(1-3) by (simp add: has_sent_def checksum_of_append) (simp add: checksum_of_def)
  moreover have "alike (bk_thread b) (bk_thread b2)" using assms(1,2) alike_trans unfolding has_sent_def by blast
  ultimately show ?thesis using assms(1,2,4) by (auto simp: has_sent_def addDataBytes_def split: if_splits)
qed

text \<open>A source that can be read completely, and its block.\<close>

definition sendable :: "'s sender_env \<Rightarrow> int \<Rightarrow> int \<Rightarrow> (string \<Rightarrow> bytes) \<Rightarrow> ByteSource \<Rightarrow> bool" where
  "sendable e pv bufSize content s \<longleftrightarrow> readable (content (md_relPath (bs_meta s))) bufSize s \<and> bs_bytesRead s = 0 \<and>
     file_behind e (bs_fd s) (content (md_relPath (bs_meta s))) \<and> ok_header pv newBlockDetails (block_details_of s) \<and>
     int (length (md_relPath (bs_meta s))) \<le> PATH_MAX"

definition block_of :: "(string \<Rightarrow> bytes) \<Rightarrow> ByteSource \<Rightarrow> BlockDetails \<times> bytes" where
  "block_of content s = (block_details_of s, file_slice (bs_offset s) (bs_size s) (content (md_relPath (bs_meta s))))"

definition checksums_ok :: "'s sender_env \<Rightarrow> bool" where
  "checksums_ok e \<longleftrightarrow> piecewise (xe_crc32c e) \<and> (\<forall>d. is_i32 (xe_crc32c e d 0))"

context byte_sink
begin

lemma write_out_sends:
  assumes "sending outgoing t p" "bs \<noteq> []"
  shows "\<exists>t'. write_out V bs retry t = Ok (Continue (int (length bs)), t') \<and> sending outgoing t' (p @ bs) \<and> alike t t' \<and> sd_buf t' = sd_buf t"
proof -
  obtain s where s: "sd_socket t = Some s" "outgoing s p" using assms(1) by (auto simp: sending_def)
  obtain s' where s': "ci_write V bs retry s = Ok (int (length bs), s')" "outgoing s' (p @ bs)" using sink_write [OF s(2) assms(2)] by blast
  then show ?thesis using assms(1) s by (intro exI [of _ "t\<lparr>sd_socket := Some s'\<rparr>"]) (simp add: write_out_def sock_call_def sending_def)
qed

lemma send_piece_sends:
  assumes e: "undisturbed e" and b: "sending outgoing (bk_thread b) p" and d: "d \<noteq> []"
  shows "\<exists>b'. send_piece V e d b = Ok (Continue (), b') \<and> sending outgoing (bk_thread b') (p @ d) \<and>
    has_sent e d (b\<lparr>bk_source := (bk_source b)\<lparr>bs_bytesRead := bs_bytesRead (bk_source b) - int (length d)\<rparr>\<rparr>) b'"
proof -
  obtain t1 where t1: "(write_out V d True :: ('s SenderThread, unit, int) thread_op) (bk_thread b) = Ok (Continue (int (length d)), t1)" "sending outgoing t1 (p @ d)" "alike (bk_thread b) t1"
    using write_out_sends [OF b d] by blast
  let ?t2 = "t1\<lparr>sd_tick := Suc (sd_tick t1)\<rparr>"
  let ?b1 = "count_throttled e (int (length d)) (if sd_footerType (bk_thread b) = CHECKSUM_FOOTER then b\<lparr>bk_checksum := xe_crc32c e d (bk_checksum b)\<rparr> else b)"
  let ?b' = "?b1\<lparr>bk_thread := ?t2, bk_stats := addDataBytes (int (length d)) (bk_stats b), bk_actualSize := bk_actualSize b + int (length d)\<rparr>"
  have a: "(getThreadAbortCode e :: ('s SenderThread, unit, ErrorCode) thread_op) t1 = Ok (Continue OK, ?t2)" by (rule abort_code_OK [OF e t1(2)])
  have k: "bk_thread ?b1 = bk_thread b" "bk_stats ?b1 = bk_stats b" "bk_actualSize ?b1 = bk_actualSize b" by (simp_all add: count_throttled_def)
  have "send_piece V e d b = Ok (Continue (), ?b')"
    using t1(1) a k by (simp add: send_piece_def andThen_def modify_def in_thread_def)
  moreover have "alike (bk_thread b) ?t2" by (rule alike_trans [OF t1(3)]) simp
  ultimately show ?thesis using t1(2) d
    by (intro exI [of _ ?b']) (auto simp: has_sent_def count_throttled_def checksum_of_def)
qed

text \<open>The loop sends the rest of the block in as many pieces as the reads give.\<close>

lemma send_pieces_all:
  assumes e: "undisturbed e" "piecewise (xe_crc32c e)"
  shows "sending outgoing (bk_thread b) p \<Longrightarrow> readable content (sd_bufSize (bk_thread b)) (bk_source b) \<Longrightarrow>
    file_behind e (bs_fd (bk_source b)) content \<Longrightarrow> bs_size (bk_source b) - bs_bytesRead (bk_source b) \<le> int n \<Longrightarrow>
    d = file_slice (bs_offset (bk_source b) + bs_bytesRead (bk_source b)) (bs_size (bk_source b) - bs_bytesRead (bk_source b)) content \<Longrightarrow>
    \<exists>b'. send_pieces V e (Suc n) b = Ok (Continue (), b') \<and> sending outgoing (bk_thread b') (p @ d) \<and> has_sent e d b b'"
proof (induction n arbitrary: b p d)
  case 0
  then have "source_finished (bk_source b)" "d = []" by (auto simp: readable_def source_finished_def file_slice_def)
  then show ?case using 0 has_sent_Nil [OF e(2), of b b] by (auto simp: proceed_def)
next
  case (Suc n)
  let ?s = "bk_source b" and ?pos = "bs_offset (bk_source b) + bs_bytesRead (bk_source b)"
  show ?case
  proof (cases "source_finished ?s")
    case True
    then have "d = []" using Suc.prems(5) by (simp add: source_finished_def file_slice_def)
    then show ?thesis using True Suc.prems(1) has_sent_Nil [OF e(2), of b b] by (auto simp: proceed_def)
  next
    case False
    obtain k where hb: "(readHeartBeats V e :: ('s SenderThread, unit, ErrorCode) thread_op) (bk_thread b) = Ok (Continue OK, (bk_thread b)\<lparr>sd_tick := k\<rparr>)" using no_heart_beat [OF e(1)] by blast
    let ?t1 = "(bk_thread b)\<lparr>sd_tick := Suc k\<rparr>"
    obtain n1 where n1: "0 < n1" "n1 \<le> bs_size ?s - bs_bytesRead ?s"
      and r: "readSource (xe_pread e k) (sd_bufSize ?t1) ?s = (Ok (Some (file_slice ?pos n1 content)), ?s\<lparr>bs_bytesRead := bs_bytesRead ?s + n1\<rparr>)"
      using readSource_slice [OF Suc.prems(2) _ False, of "\<lambda>_. xe_pread e k (bs_fd ?s)"] Suc.prems(3)
      by (auto simp: file_behind_def readSource_fd [of "xe_pread e k"])
    let ?c = "file_slice ?pos n1 content" and ?s1 = "?s\<lparr>bs_bytesRead := bs_bytesRead ?s + n1\<rparr>"
    have c: "int (length ?c) = n1" "?c \<noteq> []" using n1 Suc.prems(2) by (auto simp: file_slice_def readable_def)
    have ne: "\<not> hasError ?s1" using Suc.prems(2) by (simp add: readable_def hasError_def)
    let ?b1 = "b\<lparr>bk_thread := ?t1, bk_source := ?s1\<rparr>"
    have "sending outgoing (bk_thread ?b1) p" using Suc.prems(1) by simp
    from send_piece_sends [OF e(1) this c(2)] obtain b2 where b2: "send_piece V e ?c ?b1 = Ok (Continue (), b2)"
      "sending outgoing (bk_thread b2) (p @ ?c)" "has_sent e ?c (b\<lparr>bk_thread := ?t1\<rparr>) b2" using c(1) by auto
    have h2: "has_sent e ?c b b2" using b2(3) by (simp add: has_sent_def alike_def checksum_of_def)
    have s2: "bk_source b2 = ?s1" "length (sd_buf (bk_thread b2)) = length (sd_buf (bk_thread b))" using h2 c(1) by (simp_all add: has_sent_def alike_def)
    have rd: "readable content (sd_bufSize (bk_thread b2)) (bk_source b2)" using Suc.prems(2) n1 s2 by (simp add: readable_def hasError_def)
    let ?d2 = "file_slice (bs_offset (bk_source b2) + bs_bytesRead (bk_source b2)) (bs_size (bk_source b2) - bs_bytesRead (bk_source b2)) content"
    have "file_behind e (bs_fd (bk_source b2)) content" "bs_size (bk_source b2) - bs_bytesRead (bk_source b2) \<le> int n"
      using Suc.prems(3,4) n1 s2(1) by simp_all
    from Suc.IH [OF b2(2) rd this refl] obtain b3 where b3: "send_pieces V e (Suc n) b2 = Ok (Continue (), b3)"
      "sending outgoing (bk_thread b3) ((p @ ?c) @ ?d2)" "has_sent e ?d2 b2 b3" by blast
    have d: "d = ?c @ ?d2" using Suc.prems(2,5) n1 s2(1) file_slice_append [of n1 "bs_size ?s - (bs_bytesRead ?s + n1)" ?pos content]
      by (simp add: readable_def algebra_simps)
    have "send_pieces V e (Suc (Suc n)) b = send_pieces V e (Suc n) b2"
      using False hb r b2(1) c(2) ne
      by (simp add: send_pieces.simps(2) [of V e "Suc n"] andThen_def in_thread_def ask_def Let_def del: send_pieces.simps)
    then show ?thesis using b3 d has_sent_append [OF h2 b3(3) e(2) c(2)] by (intro exI [of _ b3]) simp
  qed
qed

lemma send_footer_sends:
  assumes b: "sending outgoing (bk_thread b) p" and c: "is_i32 (bk_checksum b)"
    and f: "f = (if sd_footerType (bk_thread b) = CHECKSUM_FOOTER then cmd_byte FOOTER_CMD # wire_s (bk_checksum b) else [])"
  shows "\<exists>t'. send_footer V b = Ok (Continue (), b\<lparr>bk_thread := t', bk_stats := addHeaderBytes (int (length f)) (bk_stats b)\<rparr>) \<and>
    sending outgoing t' (p @ f) \<and> alike (bk_thread b) t'"
proof (cases "sd_footerType (bk_thread b)")
  case NO_FOOTER
  then show ?thesis using b f by (intro exI [of _ "bk_thread b"]) (simp add: send_footer_def proceed_def addHeaderBytes_def)
next
  case CHECKSUM_FOOTER
  let ?z = "replicate (nat kMaxHeader) (0 :: byte)" and ?w = "wire_s (bk_checksum b)"
  obtain z where z: "?z = 0 # z" by (rule that [of "replicate (nat kMaxHeader - 1) 0"]) (simp add: size_defs numeral_eq_Suc)
  have ib: "in_buffer kMaxFooter (?z[0 := cmd_byte FOOTER_CMD]) 1" by (simp add: in_buffer_def size_defs)
  have "1 + int (length ?w) \<le> kMaxFooter" using length_wire_s(2) [of "bk_checksum b"] by (simp add: size_defs)
  then have enc: "encodeFooter (bk_checksum b) kMaxFooter (?z[0 := cmd_byte FOOTER_CMD]) 1 =
      (Ok (), write_at 1 ?w (?z[0 := cmd_byte FOOTER_CMD]), 1 + int (length ?w))"
    using enc_spec_fits [OF footer_cmd.enc_wire [OF c] ib] by simp
  have ft: "take (nat (1 + int (length ?w))) (write_at 1 ?w (?z[0 := cmd_byte FOOTER_CMD])) = f" "int (length f) = 1 + int (length ?w)" "f \<noteq> []"
    using f CHECKSUM_FOOTER z by (simp_all add: write_at_def nat_add_distrib)
  obtain t' where t': "(write_out V f False :: ('s SenderThread, unit, int) thread_op) (bk_thread b) = Ok (Continue (int (length f)), t')"
    "sending outgoing t' (p @ f)" "alike (bk_thread b) t'" using write_out_sends [OF b ft(3)] by blast
  then have "send_footer V b = Ok (Continue (), b\<lparr>bk_thread := t', bk_stats := addHeaderBytes (int (length f)) (bk_stats b)\<rparr>)"
    unfolding send_footer_def enc using CHECKSUM_FOOTER ft(1,2) by (simp add: andThen_def in_thread_def modify_def)
  then show ?thesis using t'(2,3) by blast
qed

text \<open>A block that can be read completely is sent as one message, and all of it counts as effective.\<close>

lemma sendOneByteSource_sends:
  assumes e: "undisturbed e" "checksums_ok e" and t: "sending outgoing t p" and pv: "pv = sn_protocolVersion (sd_parent t)"
    and s: "sendable e pv (sd_bufSize t) content s"
  shows "\<exists>t' st. sendOneByteSource V e OK s t = Ok (st, s\<lparr>bs_bytesRead := bs_size s\<rparr>, t') \<and> alike t t' \<and>
    sending outgoing t' (p @ block_msg (xe_crc32c e) (sd_footerType t) pv (block_of content s)) \<and>
    ts_localErrCode st = OK \<and> ts_numBlocks st = 1 \<and> ts_effectiveDataBytes st = bs_size s \<and> send_result s st"
proof -
  let ?c = "content (md_relPath (bs_meta s))" and ?h = "file_head pv 0 (block_details_of s)"
  let ?d = "file_slice (bs_offset s) (bs_size s) ?c"
  have rd: "readable ?c (sd_bufSize t) s" "bs_bytesRead s = 0" "file_behind e (bs_fd s) ?c" using s by (simp_all add: sendable_def)
  have crc: "piecewise (xe_crc32c e)" "is_i32 (xe_crc32c e ?d 0)" using e(2) by (simp_all add: checksums_ok_def)
  have len: "int (length ?d) = bs_size s" using rd by (auto simp: readable_def file_slice_def)
  have hb: "header_buffer (sn_protocolVersion (sd_parent t)) OK (block_details_of s) = Ok ?h"
    using header_buffer_head [of pv newBlockDetails "block_details_of s" OK] s pv by (simp add: sendable_def block_details_of_def)
  have "?h \<noteq> []" by (simp add: file_head_def)
  from write_out_sends [OF t this, of False] obtain t1 where
    t1: "(write_out V ?h False :: ('s SenderThread, unit, int) thread_op) t = Ok (Continue (int (length ?h)), t1)" "sending outgoing t1 (p @ ?h)" "alike t t1"
    by blast
  let ?b0 = "\<lparr>bk_thread = t, bk_source = s, bk_stats = newStats, bk_checksum = 0, bk_actualSize = 0, bk_throttlerInstanceBytes = 0, bk_totalThrottlerBytes = 0\<rparr>"
  let ?b1 = "?b0\<lparr>bk_thread := t1, bk_stats := addHeaderBytes (int (length ?h)) newStats, bk_throttlerInstanceBytes := int (length ?h)\<rparr>"
  have "sending outgoing (bk_thread ?b1) (p @ ?h)" "readable ?c (sd_bufSize (bk_thread ?b1)) (bk_source ?b1)" "file_behind e (bs_fd (bk_source ?b1)) ?c"
    "bs_size (bk_source ?b1) - bs_bytesRead (bk_source ?b1) \<le> int (nat (bs_size s))"
    "?d = file_slice (bs_offset (bk_source ?b1) + bs_bytesRead (bk_source ?b1)) (bs_size (bk_source ?b1) - bs_bytesRead (bk_source ?b1)) ?c"
    using t1(2,3) rd by (simp_all add: alike_def)
  from send_pieces_all [OF e(1) crc(1) this] obtain b2 where
    b2: "send_pieces V e (Suc (nat (bs_size s))) ?b1 = Ok (Continue (), b2)" "sending outgoing (bk_thread b2) ((p @ ?h) @ ?d)" "has_sent e ?d ?b1 b2" by blast
  have al: "alike t (bk_thread b2)" using b2(3) alike_trans [OF t1(3), of "bk_thread b2"] by (simp add: has_sent_def)
  have ck: "bk_checksum b2 = (if sd_footerType t = CHECKSUM_FOOTER then xe_crc32c e ?d 0 else 0)" "sd_footerType (bk_thread b2) = sd_footerType t"
    using b2(3) t1(3) al by (simp_all add: has_sent_def checksum_of_def alike_def)
  have i32: "is_i32 (bk_checksum b2)" using ck(1) crc(2) by (simp add: is_i32_def)
  have f: "footer_msg (xe_crc32c e) (sd_footerType t) ?d =
      (if sd_footerType (bk_thread b2) = CHECKSUM_FOOTER then cmd_byte FOOTER_CMD # wire_s (bk_checksum b2) else [])" using ck by (simp add: footer_msg_def)
  let ?f = "footer_msg (xe_crc32c e) (sd_footerType t) ?d"
  obtain t3 where t3: "send_footer V b2 = Ok (Continue (), b2\<lparr>bk_thread := t3, bk_stats := addHeaderBytes (int (length ?f)) (bk_stats b2)\<rparr>)"
    "sending outgoing t3 (((p @ ?h) @ ?d) @ ?f)" "alike (bk_thread b2) t3" using send_footer_sends [OF b2(2) i32 f] by blast
  let ?b3 = "block_sent (b2\<lparr>bk_thread := t3, bk_stats := addHeaderBytes (int (length ?f)) (bk_stats b2)\<rparr>)"
  have th: "throttler_check e (int (length ?h)) b2 = Ok (Continue (), b2)" "bk_actualSize b2 = bs_size s"
    using b2(3) len by (auto simp: throttler_check_def proceed_def has_sent_def split: if_splits)
  have "send_body V e ?h (bs_size s) ?b0 = Ok (Continue (), ?b3)"
    using t1(1) b2(1) th t3(1) by (simp add: send_body_def andThen_def in_thread_def modify_def del: send_pieces.simps)
  then have "sendOneByteSource V e OK s t = Ok (bk_stats ?b3, s\<lparr>bs_bytesRead := bs_size s\<rparr>, t3)"
    using hb b2(3) rd(2) len by (simp add: sendOneByteSource_def has_sent_def block_sent_def Let_def)
  moreover have "ts_localErrCode (bk_stats ?b3) = OK" "ts_numBlocks (bk_stats ?b3) = 1" "ts_effectiveDataBytes (bk_stats ?b3) = bs_size s" "send_result s (bk_stats ?b3)"
    using b2(3) len by (simp_all add: block_sent_def Let_def has_sent_def stats_defs send_result_def)
  moreover have "alike t t3" by (rule alike_trans [OF al t3(3)])
  moreover have "sending outgoing t3 (p @ block_msg (xe_crc32c e) (sd_footerType t) pv (block_of content s))"
    using t3(2) by (simp add: block_msg_def block_of_def)
  ultimately show ?thesis by blast
qed

end

section \<open>Commands\<close>

text \<open>What the commands of a sender leave as it is; the statistics and the history of the thread and the queue change.\<close>

definition same_sender :: "'s SenderThread \<Rightarrow> 's SenderThread \<Rightarrow> bool" where
  "same_sender t t' \<longleftrightarrow> sd_index t' = sd_index t \<and> sd_port t' = sd_port t \<and> length (sd_buf t') = length (sd_buf t) \<and>
     sd_threadProtocolVersion t' = sd_threadProtocolVersion t \<and> sd_footerType t' = sd_footerType t \<and>
     sn_protocolVersion (sd_parent t') = sn_protocolVersion (sd_parent t) \<and> sn_controller (sd_parent t') = sn_controller (sd_parent t)"

lemma same_sender_trans: "same_sender t t' \<Longrightarrow> same_sender t' t'' \<Longrightarrow> same_sender t t''"
  by (simp add: same_sender_def)

lemma alike_same: "alike t t' \<Longrightarrow> same_sender t t'"
  by (simp add: same_sender_def alike_def)

lemma upd_history_sel [simp]:
  "sd_socket (upd_history f t) = sd_socket t" "sd_index (upd_history f t) = sd_index t" "sd_port (upd_history f t) = sd_port t"
  "sd_buf (upd_history f t) = sd_buf t" "sd_totalSizeSent (upd_history f t) = sd_totalSizeSent t" "sd_tick (upd_history f t) = sd_tick t"
  "sd_threadProtocolVersion (upd_history f t) = sd_threadProtocolVersion t" "sd_footerType (upd_history f t) = sd_footerType t"
  "sn_queue (sd_parent (upd_history f t)) = sn_queue (sd_parent t)" "sn_abortCode (sd_parent (upd_history f t)) = sn_abortCode (sd_parent t)"
  "sn_protocolVersion (sd_parent (upd_history f t)) = sn_protocolVersion (sd_parent t)"
  "sn_controller (sd_parent (upd_history f t)) = sn_controller (sd_parent t)"
  by (simp_all add: upd_history_def upd_sender_def)

lemma map_of_upd_history [simp]:
  "map_of (sn_histories (sd_parent (upd_history f t))) (sd_port t) = map_option f (map_of (sn_histories (sd_parent t)) (sd_port t))"
proof -
  have "map_of (map (\<lambda>(q, h). (q, if q = p then f h else h)) hs) p = map_option f (map_of hs p)" for p hs
    by (induction hs) auto
  then show ?thesis by (simp add: upd_history_def upd_sender_def)
qed

definition own_history :: "'s SenderThread \<Rightarrow> ByteSource list" where
  "own_history t = (case map_of (sn_histories (sd_parent t)) (sd_port t) of None \<Rightarrow> [] | Some h \<Rightarrow> h_history h)"

lemma alike_history: "alike t t' \<Longrightarrow> own_history t' = own_history t"
  by (simp add: alike_def own_history_def)

lemma on_stats_keeps [simp]:
  "sending outgoing (on_stats f t) p = sending outgoing t p" "own_history (on_stats f t) = own_history t" "same_sender t (on_stats f t)"
  by (auto simp: on_stats_def sending_def own_history_def same_sender_def split: option.splits)

lemma on_stats_sel [simp]:
  "sd_socket (on_stats f t) = sd_socket t" "sd_port (on_stats f t) = sd_port t" "sd_buf (on_stats f t) = sd_buf t"
  "sd_totalSizeSent (on_stats f t) = sd_totalSizeSent t" "sn_queue (sd_parent (on_stats f t)) = sn_queue (sd_parent t)"
  "sn_abortCode (sd_parent (on_stats f t)) = sn_abortCode (sd_parent t)"
  by (simp_all add: on_stats_def)

lemma encode_into_fits:
  assumes "enc_spec enc w" "in_buffer mx (sd_buf t) off" "off + int (length w) \<le> mx"
  shows "encode_into enc mx off t = Ok (Continue (off + int (length w)), t\<lparr>sd_buf := write_at (nat off) w (sd_buf t)\<rparr>)"
  using enc_spec_fits [OF assms] by (simp add: encode_into_def)

lemma take_command:
  assumes "length w < length buf"
  shows "take (nat (1 + int (length w))) (write_at 1 w (buf[0 := c])) = c # w"
  using assms by (cases buf) (simp_all add: write_at_def nat_add_distrib)

text \<open>The settings a thread announces.\<close>

definition with_heart_beat :: "'s sender_env \<Rightarrow> 's SenderThread \<Rightarrow> 's SenderThread" where
  "with_heart_beat e t = t\<lparr>sd_enableHeartBeat := (sd_threadProtocolVersion t \<ge> HEART_BEAT_VERSION \<and> op_enable_heart_beat (xe_options e))\<rparr>"

definition announced :: "'s sender_env \<Rightarrow> 's SenderThread \<Rightarrow> Settings" where
  "announced e t = sender_settings e (with_heart_beat e t)"

text \<open>A queued source that opens and can be read whenever it is taken.\<close>

definition queued_ok :: "'s sender_env \<Rightarrow> int \<Rightarrow> int \<Rightarrow> (string \<Rightarrow> bytes) \<Rightarrow> ByteSource \<Rightarrow> bool" where
  "queued_ok e pv bufSize content s \<longleftrightarrow>
     (\<forall>k. \<exists>s'. openSource (env_openForRead (xe_queue e k)) s = (OK, s') \<and> sendable e pv bufSize content s')"

lemma open_block: "openSource f s = (c, s') \<Longrightarrow> block_of content s' = block_of content s"
  by (auto simp: openSource_def Let_def block_of_def block_details_of_def closeSource_def split: if_splits)

lemma closed_block: "block_of content (closeSource (addTransferStats st (s\<lparr>bs_bytesRead := n\<rparr>))) = block_of content s"
  by (simp add: block_of_def block_details_of_def closeSource_def addTransferStats_def)

context byte_sink
begin

text \<open>A state function of a machine that is not disturbed.\<close>

lemma sender_step_machine:
  assumes "undisturbed e" "sending outgoing t p" "st \<noteq> END" "run_sender_state V e st (t\<lparr>sd_tick := Suc (sd_tick t)\<rparr>) = Ok (Return st', t')"
  shows "sender_machine V e (Suc n) st t = sender_machine V e n st' t'"
proof -
  have "(getThreadAbortCode e :: ('s SenderThread, unit, ErrorCode) thread_op) t = Ok (Continue OK, t\<lparr>sd_tick := Suc (sd_tick t)\<rparr>)"
    by (rule abort_code_OK [OF assms(1,2)])
  then show ?thesis using assms(3,4) by simp
qed

lemma sendSettings_sends:
  assumes t: "sending outgoing t p" "pv = sd_threadProtocolVersion t" "0 \<le> pv" "\<not> isSendFileChunks (sd_parent t)" "kMaxSettings \<le> sd_bufSize t"
    and ok: "ok_settings pv newSettings (announced e t)" "int (length (sn_transferId (sd_parent t))) \<le> kMaxTransferIdLength"
  shows "\<exists>t'. sendSettings V e t = Ok (Return SEND_BLOCKS, t') \<and> sending outgoing t' (p @ settings_msg pv (announced e t)) \<and>
    same_sender t t' \<and> own_history t' = own_history t \<and> sn_queue (sd_parent t') = sn_queue (sd_parent t) \<and> sd_totalSizeSent t' = sd_totalSizeSent t"
proof -
  let ?s = "announced e t" and ?m = "settings_msg pv (announced e t)" and ?w = "wire_u pv @ wire_settings_tail pv (announced e t)"
  let ?t1 = "put_cmd SETTINGS_CMD 0 (with_heart_beat e t)"
  let ?t2 = "?t1\<lparr>sd_buf := write_at 1 ?w (sd_buf ?t1)\<rparr>"
  have e1: "(put_cmd SETTINGS_CMD 0 t)\<lparr>sd_enableHeartBeat := (sd_threadProtocolVersion t \<ge> HEART_BEAT_VERSION \<and> op_enable_heart_beat (xe_options e))\<rparr> = ?t1"
    by (simp add: put_cmd_def with_heart_beat_def)
  have s1: "sender_settings e ?t1 = ?s" by (simp add: announced_def sender_settings_def put_cmd_def)
  have m: "?m = cmd_byte SETTINGS_CMD # ?w" by (simp add: settings_msg_def)
  have len: "int (length ?m) \<le> kMaxSettings" by (rule length_settings_msg) (use ok(2) in \<open>simp add: announced_def with_heart_beat_def sender_settings_def\<close>)
  have "in_buffer kMaxSettings (sd_buf ?t1) 1" using t(5) by (simp add: in_buffer_def put_cmd_def with_heart_beat_def size_defs)
  from encode_into_fits [OF encodeSettings_spec [OF ok(1) t(3)] this] len m
  have enc: "(encode_into (encodeSettings pv ?s) kMaxSettings 1 :: (int, 's) sender_op) ?t1 = Ok (Continue (1 + int (length ?w)), ?t2)" by simp
  have tk: "take (nat (1 + int (length ?w))) (sd_buf ?t2) = ?m" using take_command [of ?w "sd_buf t" "cmd_byte SETTINGS_CMD"] len t(5) m by (simp add: put_cmd_def with_heart_beat_def)
  have "sending outgoing ?t2 p" "?m \<noteq> []" using t(1) m by (simp_all add: put_cmd_def with_heart_beat_def)
  from write_out_sends [OF this, of False] obtain t3 where
    t3: "(write_out V ?m False :: (int, 's) sender_op) ?t2 = Ok (Continue (int (length ?m)), t3)" "sending outgoing t3 (p @ ?m)" "alike ?t2 t3" by blast
  let ?n = "1 + int (length ?w)"
  have "sendSettings V e t = Ok (Return SEND_BLOCKS, on_stats (addHeaderBytes ?n) t3)"
    using enc t3(1) tk t(2,4) m unfolding sendSettings_def Let_def e1 s1
    by (simp add: andThen_def modify_def goto_def put_cmd_def with_heart_beat_def)
  moreover have "same_sender t t3" "own_history t3 = own_history t" "sn_queue (sd_parent t3) = sn_queue (sd_parent t)" "sd_totalSizeSent t3 = sd_totalSizeSent t"
    using t3(3) len t(5) m by (auto simp: same_sender_def alike_def own_history_def put_cmd_def with_heart_beat_def)
  moreover from this(1) have "same_sender t (on_stats (addHeaderBytes ?n) t3)" using same_sender_trans on_stats_keeps(3) by blast
  ultimately show ?thesis using t3(2) by (intro exI [of _ "on_stats (addHeaderBytes ?n) t3"]) simp
qed

lemma sendSizeCmd_sends:
  assumes t: "sending outgoing t p" "kMaxSize \<le> sd_bufSize t" and n: "n = q_totalFileSize (sn_queue (sd_parent t))" "nonneg_i64 n"
  shows "\<exists>t'. sendSizeCmd V t = Ok (Return SEND_BLOCKS, t') \<and> sending outgoing t' (p @ size_msg n) \<and>
    same_sender t t' \<and> own_history t' = own_history t \<and> sn_queue (sd_parent t') = sn_queue (sd_parent t) \<and> sd_totalSizeSent t'"
proof -
  let ?w = "wire_u n" and ?t1 = "put_cmd SIZE_CMD 0 t"
  let ?t2 = "?t1\<lparr>sd_buf := write_at 1 ?w (sd_buf ?t1)\<rparr>" and ?m = "size_msg n" and ?l = "1 + int (length (wire_u n))"
  have len: "1 + int (length ?w) \<le> kMaxSize" using length_wire_u(2) [of n] by (simp add: size_defs)
  have "in_buffer kMaxSize (sd_buf ?t1) 1" using t(2) by (simp add: in_buffer_def put_cmd_def size_defs)
  from encode_into_fits [OF size_cmd.enc_wire [OF n(2)] this len]
  have enc: "(encode_into (encodeSize n) kMaxSize 1 :: (int, 's) sender_op) ?t1 = Ok (Continue ?l, ?t2)" by simp
  have tk: "take (nat ?l) (sd_buf ?t2) = ?m" using take_command [of ?w "sd_buf t" "cmd_byte SIZE_CMD"] len t(2) by (simp add: put_cmd_def size_msg_def)
  have "sending outgoing ?t2 p" "?m \<noteq> []" using t(1) by (simp_all add: put_cmd_def size_msg_def)
  from write_out_sends [OF this, of False] obtain t3 where
    t3: "(write_out V ?m False :: (int, 's) sender_op) ?t2 = Ok (Continue (int (length ?m)), t3)" "sending outgoing t3 (p @ ?m)" "alike ?t2 t3" by blast
  let ?t' = "on_stats (addHeaderBytes ?l) (t3\<lparr>sd_totalSizeSent := True\<rparr>)"
  have "sendSizeCmd V t = Ok (Return SEND_BLOCKS, ?t')"
    using enc t3(1) tk n(1) by (simp add: sendSizeCmd_def andThen_def modify_def goto_def size_msg_def)
  moreover have "same_sender t (t3\<lparr>sd_totalSizeSent := True\<rparr>)" "own_history t3 = own_history t" "sn_queue (sd_parent t3) = sn_queue (sd_parent t)"
    using t3(3) len t(2) by (auto simp: same_sender_def alike_def own_history_def put_cmd_def)
  moreover from this(1) have "same_sender t ?t'" using same_sender_trans on_stats_keeps(3) by blast
  moreover have "own_history (t3\<lparr>sd_totalSizeSent := True\<rparr>) = own_history t3" by (simp add: own_history_def)
  ultimately show ?thesis using t3(2) by (intro exI [of _ ?t']) simp
qed

lemma sendDoneCmd_sends:
  assumes t: "sending outgoing t p" "kMinBufLength \<le> sd_bufSize t" "pv = sd_threadProtocolVersion t"
    and q: "q = sn_queue (sd_parent t)" "ok_done pv b0 (q_numBlocks q, q_totalFileSize q)" "q_failedSourceStats q = []" "q_failedDirectories q = []"
  shows "\<exists>t' fill. sendDoneCmd V t = Ok (Return READ_RECEIVER_CMD, t') \<and>
    sending outgoing t' (p @ done_msg pv 0 (q_numBlocks q, q_totalFileSize q) fill) \<and> int (length (done_msg pv 0 (q_numBlocks q, q_totalFileSize q) fill)) = kMinBufLength \<and>
    same_sender t t' \<and> own_history t' = own_history t \<and> sn_queue (sd_parent t') = q"
proof -
  let ?nb = "(q_numBlocks q, q_totalFileSize q)" and ?buf = "(sd_buf t)[0 := cmd_byte DONE_CMD, 1 := 0]"
  let ?w = "wire_done pv ?nb" and ?t1 = "t\<lparr>sd_buf := ?buf\<rparr>"
  let ?t2 = "?t1\<lparr>sd_buf := write_at 2 ?w ?buf\<rparr>" and ?fill = "drop (2 + length ?w) (sd_buf t)" and ?l = "2 + int (length ?w)"
  let ?m = "done_msg pv 0 ?nb ?fill"
  have len: "?l \<le> kMaxDone" "kMaxDone \<le> kMinBufLength" "nat kMinBufLength = 256" using length_wire_done [of pv ?nb] by (simp_all add: size_defs)
  have "in_buffer kMaxDone (sd_buf ?t1) 2" using t(2) len by (simp add: in_buffer_def size_defs)
  from encode_into_fits [OF done_cmd.enc_wire [OF q(2)] this len(1)]
  have enc: "(encode_into (encodeDone pv ?nb) kMaxDone 2 :: (int, 's) sender_op) ?t1 = Ok (Continue ?l, ?t2)" by simp
  have "2 \<le> length (sd_buf t)" using t(2) by (simp add: size_defs)
  then obtain x y z where xyz: "sd_buf t = x # y # z" by (cases "sd_buf t"; cases "tl (sd_buf t)") auto
  have tk: "take (nat kMinBufLength) (sd_buf ?t2) = ?m" using len by (simp add: xyz write_at_def done_msg_def Let_def numeral_eq_Suc)
  have ml: "int (length ?m) = kMinBufLength" unfolding tk [symmetric] using t(2) len by (simp add: size_defs)
  then have "sending outgoing ?t2 p" "?m \<noteq> []" using t(1) by (auto simp: size_defs)
  from write_out_sends [OF this, of False] obtain t3 where
    t3: "(write_out V ?m False :: (int, 's) sender_op) ?t2 = Ok (Continue (int (length ?m)), t3)" "sending outgoing t3 (p @ ?m)" "alike ?t2 t3" by blast
  let ?t' = "on_stats (addHeaderBytes kMinBufLength) t3"
  have st: "getNumBlocksAndStatus q = (q_numBlocks q, OK)" using q(3,4) by (simp add: getNumBlocksAndStatus_def)
  have "sendDoneCmd V t = Ok (Return READ_RECEIVER_CMD, ?t')"
    using enc t3(1) ml tk unfolding sendDoneCmd_def Let_def q(1) [symmetric] st
    by (simp add: andThen_def modify_def goto_def put_cmd_def t(3))
  moreover have "same_sender t t3" "own_history t3 = own_history t" "sn_queue (sd_parent t3) = q"
    using t3(3) len t(2) q(1) by (auto simp: same_sender_def alike_def own_history_def)
  moreover from this(1) have "same_sender t ?t'" using same_sender_trans on_stats_keeps(3) by blast
  ultimately show ?thesis using t3(2) ml by (intro exI [of _ ?t'] exI [of _ ?fill]) simp
qed

lemma sendBlocks_sends:
  assumes e: "undisturbed e" "checksums_ok e" "0 < xe_fuel e" and t: "sending outgoing t p" "pv = sn_protocolVersion (sd_parent t)"
    and sz: "sd_totalSizeSent t \<or> sd_threadProtocolVersion t < RECEIVER_PROGRESS_REPORT_VERSION"
    and q: "q = sn_queue (sd_parent t)" "q_sourceQueue q = s # ss" "q_failedSourceStats q = []" "q_failedDirectories q = []"
    and s: "queued_ok e pv (sd_bufSize t) content s"
  shows "\<exists>t' x. sendBlocks V e t = Ok (Return SEND_BLOCKS, t') \<and>
    sending outgoing t' (p @ block_msg (xe_crc32c e) (sd_footerType t) pv (block_of content s)) \<and> same_sender t t' \<and>
    sd_totalSizeSent t' = sd_totalSizeSent t \<and> sn_queue (sd_parent t') = q\<lparr>q_sourceQueue := ss, q_numBlocksDequeued := q_numBlocksDequeued q + 1\<rparr> \<and>
    own_history t' = own_history t @ [x] \<and> block_of content x = block_of content s"
proof -
  let ?k = "sd_tick t" and ?q1 = "q\<lparr>q_sourceQueue := ss, q_numBlocksDequeued := q_numBlocksDequeued q + 1\<rparr>"
  let ?t1 = "upd_sender (\<lambda>p. p\<lparr>sn_queue := ?q1\<rparr>) (t\<lparr>sd_tick := Suc ?k\<rparr>)"
  obtain s' where s': "openSource (env_openForRead (xe_queue e ?k)) s = (OK, s')" "sendable e pv (sd_bufSize t) content s'"
    using s by (auto simp: queued_ok_def)
  have "getNextSource (xe_queue e ?k) q = (GotSource s' OK, ?q1)"
    using getNextSource_cases [OF q(2) s'(1)] q(3,4) by (simp add: queue_status_def)
  then have take: "take_source e (xe_fuel e) t = Ok (Continue (Some (s', OK)), ?t1)"
    using e(3) q(1) by (cases "xe_fuel e") (simp_all add: andThen_def ask_def proceed_def upd_sender_def)
  have t1: "sending outgoing ?t1 p" "pv = sn_protocolVersion (sd_parent ?t1)" "sendable e pv (sd_bufSize ?t1) content s'" "\<not> hasError s'"
    "same_sender t ?t1" "own_history ?t1 = own_history t" "sd_footerType ?t1 = sd_footerType t" "sd_totalSizeSent ?t1 = sd_totalSizeSent t"
    using t s'(2) by (auto simp: upd_sender_def sending_def sendable_def readable_def same_sender_def own_history_def)
  let ?m = "block_msg (xe_crc32c e) (sd_footerType t) pv (block_of content s)"
  obtain t2 st where t2: "sendOneByteSource V e OK s' ?t1 = Ok (st, s'\<lparr>bs_bytesRead := bs_size s'\<rparr>, t2)" "alike ?t1 t2" "sending outgoing t2 (p @ ?m)"
    "ts_localErrCode st = OK" using sendOneByteSource_sends [OF e(1,2) t1(1-3)] t1(7) open_block [OF s'(1)] by force
  let ?x = "closeSource (addTransferStats st (s'\<lparr>bs_bytesRead := bs_size s'\<rparr>))" and ?t3 = "on_stats (\<lambda>s. plusStats s st) t2"
  obtain h where h: "map_of (sn_histories (sd_parent ?t3)) (sd_port ?t3) = Some h" "\<not> h_globalCheckpoint h"
    using t2(3) on_stats_keeps(1) [of outgoing "\<lambda>s. plusStats s st" t2] by (auto simp: sending_def)
  let ?h1 = "h\<lparr>h_history := h_history h @ [?x]\<rparr>" and ?q2 = "sn_queue (sd_parent ?t3)"
  let ?t4 = "upd_sender (\<lambda>p. p\<lparr>sn_queue := ?q2\<rparr>) (upd_history (\<lambda>_. ?h1) ?t3)"
  have "(history_step (addSource ?x) :: (bool, 's) sender_op) ?t3 = Ok (Continue True, ?t4)"
    using h by (simp add: history_step_def thread_history_def andThen_def getTransferHistory_def addSource_def)
  then have "sendBlocks V e t = Ok (Return SEND_BLOCKS, ?t4)"
    using sz take t1(4) t2(1,4) by (auto simp: sendBlocks_def andThen_def goto_def)
  moreover have "sd_port ?t4 = sd_port t2" "map_of (sn_histories (sd_parent ?t4)) (sd_port ?t4) = Some ?h1"
    using h map_of_upd_history [of "\<lambda>_. ?h1" ?t3] by (simp_all add: upd_sender_def)
  then have "sending outgoing ?t4 (p @ ?m)" "own_history ?t4 = own_history ?t3 @ [?x]"
    using t2(3) h by (simp_all add: sending_def own_history_def upd_sender_def)
  moreover have "own_history ?t3 = own_history t" "sn_queue (sd_parent ?t4) = ?q1" "sd_totalSizeSent ?t4 = sd_totalSizeSent t"
    using t1(6,8) alike_history [OF t2(2)] t2(2) by (simp_all add: alike_def upd_sender_def)
  moreover have "same_sender t2 ?t4" by (simp add: same_sender_def upd_sender_def on_stats_def)
  then have "same_sender t ?t4" using same_sender_trans [OF t1(5) same_sender_trans [OF alike_same [OF t2(2)]]] by blast
  ultimately show ?thesis using closed_block open_block [OF s'(1)] by (intro exI [of _ ?t4] exI [of _ ?x]) simp
qed

lemma sendBlocks_none:
  assumes e: "undisturbed e" "0 < xe_fuel e" and t: "sending outgoing t p"
    and sz: "sd_totalSizeSent t \<or> sd_threadProtocolVersion t < RECEIVER_PROGRESS_REPORT_VERSION"
    and q: "q = sn_queue (sd_parent t)" "q_sourceQueue q = []" "q_initFinished q"
  shows "\<exists>t'. sendBlocks V e t = Ok (Return SEND_DONE_CMD, t') \<and> sending outgoing t' p \<and> alike t t'"
proof -
  let ?t1 = "t\<lparr>sd_tick := Suc (sd_tick t)\<rparr>"
  have "upd_sender (\<lambda>p. p\<lparr>sn_queue := q\<rparr>) ?t1 = ?t1" using q(1) by (cases t) (simp add: upd_sender_def)
  then have take: "take_source e (xe_fuel e) t = Ok (Continue None, ?t1)"
    using e(2) q getNextSource_Nil [OF q(2), of "xe_queue e (sd_tick t)"] by (cases "xe_fuel e") (simp_all add: andThen_def ask_def proceed_def)
  obtain k where "(readHeartBeats V e :: (ErrorCode, 's) sender_op) ?t1 = Ok (Continue OK, ?t1\<lparr>sd_tick := k\<rparr>)" using no_heart_beat [OF e(1)] by blast
  then have "sendBlocks V e t = Ok (Return SEND_DONE_CMD, ?t1\<lparr>sd_tick := k\<rparr>)"
    using sz take by (auto simp: sendBlocks_def andThen_def goto_def)
  then show ?thesis using t by (intro exI [of _ "?t1\<lparr>sd_tick := k\<rparr>"]) simp
qed

text \<open>The whole queue.\<close>

lemma sends_queue:
  assumes e: "undisturbed e" "checksums_ok e" "0 < xe_fuel e"
  shows "sending outgoing t p \<Longrightarrow> pv = sn_protocolVersion (sd_parent t) \<Longrightarrow>
    sd_totalSizeSent t \<or> sd_threadProtocolVersion t < RECEIVER_PROGRESS_REPORT_VERSION \<Longrightarrow>
    q = sn_queue (sd_parent t) \<Longrightarrow> q_sourceQueue q = ss \<Longrightarrow> q_failedSourceStats q = [] \<Longrightarrow> q_failedDirectories q = [] \<Longrightarrow>
    list_all (queued_ok e pv (sd_bufSize t) content) ss \<Longrightarrow>
    \<exists>t' xs. (\<forall>n. sender_machine V e (length ss + n) SEND_BLOCKS t = sender_machine V e n SEND_BLOCKS t') \<and>
      sending outgoing t' (p @ concat (map (block_msg (xe_crc32c e) (sd_footerType t) pv) (map (block_of content) ss))) \<and> same_sender t t' \<and>
      sd_totalSizeSent t' = sd_totalSizeSent t \<and>
      sn_queue (sd_parent t') = q\<lparr>q_sourceQueue := [], q_numBlocksDequeued := q_numBlocksDequeued q + int (length ss)\<rparr> \<and>
      own_history t' = own_history t @ xs \<and> map (block_of content) xs = map (block_of content) ss"
proof (induction ss arbitrary: t p q)
  case Nil
  moreover have "q\<lparr>q_sourceQueue := [], q_numBlocksDequeued := q_numBlocksDequeued q\<rparr> = q" using Nil(5) by (cases q) simp
  ultimately show ?case by (intro exI [of _ t] exI [of _ "[]"]) (simp add: same_sender_def)
next
  case (Cons s ss)
  let ?t0 = "t\<lparr>sd_tick := Suc (sd_tick t)\<rparr>"
  have "sending outgoing ?t0 p" "pv = sn_protocolVersion (sd_parent ?t0)" "sd_totalSizeSent ?t0 \<or> sd_threadProtocolVersion ?t0 < RECEIVER_PROGRESS_REPORT_VERSION"
    "q = sn_queue (sd_parent ?t0)" "queued_ok e pv (sd_bufSize ?t0) content s" using Cons.prems by simp_all
  from sendBlocks_sends [OF e this(1-4) Cons.prems(5-7) this(5)] obtain t1 x where
    t1: "sendBlocks V e ?t0 = Ok (Return SEND_BLOCKS, t1)" "sending outgoing t1 (p @ block_msg (xe_crc32c e) (sd_footerType t) pv (block_of content s))"
      "same_sender ?t0 t1" "sd_totalSizeSent t1 = sd_totalSizeSent t"
      "sn_queue (sd_parent t1) = q\<lparr>q_sourceQueue := ss, q_numBlocksDequeued := q_numBlocksDequeued q + 1\<rparr>"
      "own_history t1 = own_history ?t0 @ [x]" "block_of content x = block_of content s" by auto
  have k: "sd_footerType t1 = sd_footerType t" "length (sd_buf t1) = length (sd_buf t)" "sd_threadProtocolVersion t1 = sd_threadProtocolVersion t"
    "pv = sn_protocolVersion (sd_parent t1)" "same_sender t t1" using t1(3) Cons.prems(2) by (simp_all add: same_sender_def)
  let ?q1 = "q\<lparr>q_sourceQueue := ss, q_numBlocksDequeued := q_numBlocksDequeued q + 1\<rparr>"
  have "sd_totalSizeSent t1 \<or> sd_threadProtocolVersion t1 < RECEIVER_PROGRESS_REPORT_VERSION" "?q1 = sn_queue (sd_parent t1)" "q_sourceQueue ?q1 = ss"
    "q_failedSourceStats ?q1 = []" "q_failedDirectories ?q1 = []" "list_all (queued_ok e pv (sd_bufSize t1) content) ss"
    using Cons.prems t1(4,5) k(2,3) by simp_all
  from Cons.IH [OF t1(2) k(4) this] obtain t' xs where
    t': "\<forall>n. sender_machine V e (length ss + n) SEND_BLOCKS t1 = sender_machine V e n SEND_BLOCKS t'" "same_sender t1 t'" "sd_totalSizeSent t' = sd_totalSizeSent t1"
      "sending outgoing t' ((p @ block_msg (xe_crc32c e) (sd_footerType t) pv (block_of content s)) @
        concat (map (block_msg (xe_crc32c e) (sd_footerType t1) pv) (map (block_of content) ss)))"
      "sn_queue (sd_parent t') = ?q1\<lparr>q_sourceQueue := [], q_numBlocksDequeued := q_numBlocksDequeued ?q1 + int (length ss)\<rparr>"
      "own_history t' = own_history t1 @ xs" "map (block_of content) xs = map (block_of content) ss" by blast
  have "sender_machine V e (Suc m) SEND_BLOCKS t = sender_machine V e m SEND_BLOCKS t1" for m
    by (rule sender_step_machine [OF e(1) Cons.prems(1)]) (simp_all add: t1(1))
  moreover have "own_history ?t0 = own_history t" by (simp add: own_history_def)
  ultimately show ?case using t' t1(4,6,7) k(1) same_sender_trans [OF k(5) t'(2)]
    by (intro exI [of _ t'] exI [of _ "x # xs"]) (simp add: ac_simps del: sender_machine.simps)
qed

text \<open>Before the blocks: the settings, and the total size once the discovery has finished.\<close>

lemma sends_size:
  assumes e: "undisturbed e" and t: "sending outgoing t p" "pv = sd_threadProtocolVersion t" "\<not> sd_totalSizeSent t" "kMaxSize \<le> sd_bufSize t"
    and q: "q = sn_queue (sd_parent t)" "q_initFinished q" "nonneg_i64 (q_totalFileSize q)"
  shows "\<exists>t' k. (\<forall>n. sender_machine V e (k + n) SEND_BLOCKS t = sender_machine V e n SEND_BLOCKS t') \<and>
    sending outgoing t' (p @ size_part pv (q_totalFileSize q)) \<and> same_sender t t' \<and> own_history t' = own_history t \<and> sn_queue (sd_parent t') = q \<and>
    (sd_totalSizeSent t' \<or> pv < RECEIVER_PROGRESS_REPORT_VERSION)"
proof (cases "pv \<ge> RECEIVER_PROGRESS_REPORT_VERSION")
  case False
  then show ?thesis using t q by (intro exI [of _ t] exI [of _ 0]) (simp add: size_part_def same_sender_def)
next
  case True
  let ?t0 = "t\<lparr>sd_tick := Suc (sd_tick t)\<rparr>" and ?t1 = "t\<lparr>sd_tick := Suc (Suc (sd_tick t))\<rparr>"
  have "sendBlocks V e ?t0 = Ok (Return SEND_SIZE_CMD, ?t0)" using True t(2,3) q by (simp add: sendBlocks_def goto_def)
  then have m1: "sender_machine V e (Suc m) SEND_BLOCKS t = sender_machine V e m SEND_SIZE_CMD ?t0" for m
    by (intro sender_step_machine [OF e t(1)]) simp_all
  have "sending outgoing ?t1 p" "kMaxSize \<le> sd_bufSize ?t1" "q_totalFileSize q = q_totalFileSize (sn_queue (sd_parent ?t1))" using t q by simp_all
  from sendSizeCmd_sends [OF this q(3)] obtain t2 where t2: "sendSizeCmd V ?t1 = Ok (Return SEND_BLOCKS, t2)"
    "sending outgoing t2 (p @ size_msg (q_totalFileSize q))" "same_sender ?t1 t2" "own_history t2 = own_history ?t1" "sn_queue (sd_parent t2) = sn_queue (sd_parent ?t1)" "sd_totalSizeSent t2" by blast
  have "sender_machine V e (Suc m) SEND_SIZE_CMD ?t0 = sender_machine V e m SEND_BLOCKS t2" for m
    by (rule sender_step_machine [OF e, of _ p]) (simp_all add: t(1) t2(1))
  then have "sender_machine V e (2 + n) SEND_BLOCKS t = sender_machine V e n SEND_BLOCKS t2" for n using m1 [of "Suc n"] by (simp del: sender_machine.simps)
  moreover have "same_sender t t2" "own_history t2 = own_history t" using t2(3,4) by (simp_all add: same_sender_def own_history_def)
  ultimately show ?thesis using True t2(2,5,6) q(1) by (intro exI [of _ t2] exI [of _ 2]) (simp add: size_part_def del: sender_machine.simps)
qed

text \<open>After the last block: the end of the data.\<close>

lemma sends_end:
  assumes e: "undisturbed e" "0 < xe_fuel e" and t: "sending outgoing t p" "pv = sd_threadProtocolVersion t" "kMinBufLength \<le> sd_bufSize t"
    and sz: "sd_totalSizeSent t \<or> sd_threadProtocolVersion t < RECEIVER_PROGRESS_REPORT_VERSION"
    and q: "q = sn_queue (sd_parent t)" "q_sourceQueue q = []" "q_initFinished q" "ok_done pv b0 (q_numBlocks q, q_totalFileSize q)"
      "q_failedSourceStats q = []" "q_failedDirectories q = []"
  shows "\<exists>t' fill. (\<forall>n. sender_machine V e (2 + n) SEND_BLOCKS t = sender_machine V e n READ_RECEIVER_CMD t') \<and>
    sending outgoing t' (p @ done_msg pv 0 (q_numBlocks q, q_totalFileSize q) fill) \<and>
    int (length (done_msg pv 0 (q_numBlocks q, q_totalFileSize q) fill)) = kMinBufLength \<and>
    own_history t' = own_history t \<and> sn_queue (sd_parent t') = q"
proof -
  let ?t0 = "t\<lparr>sd_tick := Suc (sd_tick t)\<rparr>"
  have "sending outgoing ?t0 p" "sd_totalSizeSent ?t0 \<or> sd_threadProtocolVersion ?t0 < RECEIVER_PROGRESS_REPORT_VERSION" "q = sn_queue (sd_parent ?t0)"
    using t(1) sz q(1) by simp_all
  from sendBlocks_none [OF e this q(2,3)] obtain t1 where
    t1: "sendBlocks V e ?t0 = Ok (Return SEND_DONE_CMD, t1)" "sending outgoing t1 p" "alike ?t0 t1" by blast
  let ?t1 = "t1\<lparr>sd_tick := Suc (sd_tick t1)\<rparr>"
  have "sending outgoing ?t1 p" "kMinBufLength \<le> sd_bufSize ?t1" "pv = sd_threadProtocolVersion ?t1" "q = sn_queue (sd_parent ?t1)"
    using t1(2,3) t q(1) by (simp_all add: alike_def)
  from sendDoneCmd_sends [OF this q(4-6)] obtain t2 fill where
    t2: "sendDoneCmd V ?t1 = Ok (Return READ_RECEIVER_CMD, t2)" "sending outgoing t2 (p @ done_msg pv 0 (q_numBlocks q, q_totalFileSize q) fill)"
      "int (length (done_msg pv 0 (q_numBlocks q, q_totalFileSize q) fill)) = kMinBufLength" "own_history t2 = own_history ?t1" "sn_queue (sd_parent t2) = q" by blast
  have "sender_machine V e (Suc m) SEND_BLOCKS t = sender_machine V e m SEND_DONE_CMD t1" for m
    by (rule sender_step_machine [OF e(1) t(1)]) (simp_all add: t1(1))
  moreover have "sender_machine V e (Suc m) SEND_DONE_CMD t1 = sender_machine V e m READ_RECEIVER_CMD t2" for m
    by (rule sender_step_machine [OF e(1) t1(2)]) (simp_all add: t2(1))
  moreover have "own_history ?t1 = own_history t" using t1(3) by (simp add: own_history_def alike_def)
  ultimately show ?thesis using t2(2-5) by (intro exI [of _ t2] exI [of _ fill]) (simp del: sender_machine.simps)
qed

text \<open>A whole transfer over one connection.\<close>

theorem sends_session:
  assumes e: "undisturbed e" "checksums_ok e" "0 < xe_fuel e"
    and t: "sending outgoing t p" "pv = sd_threadProtocolVersion t" "pv = sn_protocolVersion (sd_parent t)" "0 \<le> pv" "\<not> sd_totalSizeSent t" "kMaxSettings \<le> sd_bufSize t"
    and st: "\<not> isSendFileChunks (sd_parent t)" "ok_settings pv newSettings (announced e t)" "int (length (sn_transferId (sd_parent t))) \<le> kMaxTransferIdLength"
    and q: "q = sn_queue (sd_parent t)" "q_initFinished q" "nonneg_i64 (q_totalFileSize q)" "ok_done pv b0 (q_numBlocks q, q_totalFileSize q)"
      "q_failedSourceStats q = []" "q_failedDirectories q = []" "list_all (queued_ok e pv (sd_bufSize t) content) (q_sourceQueue q)"
  shows "\<exists>t' k fill xs. (\<forall>n. sender_machine V e (k + n) SEND_SETTINGS t = sender_machine V e n READ_RECEIVER_CMD t') \<and>
    sending outgoing t' (p @ settings_msg pv (announced e t) @ size_part pv (q_totalFileSize q) @
      concat (map (block_msg (xe_crc32c e) (sd_footerType t) pv) (map (block_of content) (q_sourceQueue q))) @
      done_msg pv 0 (q_numBlocks q, q_totalFileSize q) fill) \<and>
    int (length (done_msg pv 0 (q_numBlocks q, q_totalFileSize q) fill)) = kMinBufLength \<and>
    q_sourceQueue (sn_queue (sd_parent t')) = [] \<and> own_history t' = own_history t @ xs \<and> map (block_of content) xs = map (block_of content) (q_sourceQueue q)"
proof -
  let ?t0 = "t\<lparr>sd_tick := Suc (sd_tick t)\<rparr>" and ?ss = "q_sourceQueue q"
  have big: "kMaxSize \<le> kMaxSettings" "kMinBufLength \<le> kMaxSettings" by (simp_all add: size_defs)
  have an: "announced e ?t0 = announced e t" by (simp add: announced_def with_heart_beat_def sender_settings_def)
  have "sending outgoing ?t0 p" "pv = sd_threadProtocolVersion ?t0" "\<not> isSendFileChunks (sd_parent ?t0)" "kMaxSettings \<le> sd_bufSize ?t0"
    "ok_settings pv newSettings (announced e ?t0)" "int (length (sn_transferId (sd_parent ?t0))) \<le> kMaxTransferIdLength" using t st an by simp_all
  from sendSettings_sends [OF this(1,2) t(4) this(3-6)] an obtain t1 where
    t1: "sendSettings V e ?t0 = Ok (Return SEND_BLOCKS, t1)" "sending outgoing t1 (p @ settings_msg pv (announced e t))" "same_sender ?t0 t1"
      "own_history t1 = own_history ?t0" "sn_queue (sd_parent t1) = q" "\<not> sd_totalSizeSent t1" using q(1) t(5) by auto
  have m1: "sender_machine V e (Suc m) SEND_SETTINGS t = sender_machine V e m SEND_BLOCKS t1" for m
    by (rule sender_step_machine [OF e(1) t(1)]) (simp_all add: t1(1))
  have k1: "pv = sd_threadProtocolVersion t1" "length (sd_buf t1) = length (sd_buf t)" "sd_footerType t1 = sd_footerType t" "pv = sn_protocolVersion (sd_parent t1)"
    using t1(3) t(2,3) by (simp_all add: same_sender_def)
  have "kMaxSize \<le> sd_bufSize t1" using t(6) k1(2) big by simp
  from sends_size [OF e(1) t1(2) k1(1) t1(6) this t1(5) [symmetric] q(2,3)] obtain t2 k where
    t2: "\<forall>n. sender_machine V e (k + n) SEND_BLOCKS t1 = sender_machine V e n SEND_BLOCKS t2" "same_sender t1 t2" "own_history t2 = own_history t1"
      "sending outgoing t2 ((p @ settings_msg pv (announced e t)) @ size_part pv (q_totalFileSize q))" "sn_queue (sd_parent t2) = q"
      "sd_totalSizeSent t2 \<or> pv < RECEIVER_PROGRESS_REPORT_VERSION" by blast
  have k2: "pv = sd_threadProtocolVersion t2" "length (sd_buf t2) = length (sd_buf t)" "sd_footerType t2 = sd_footerType t" "pv = sn_protocolVersion (sd_parent t2)"
    using t2(2) k1 by (simp_all add: same_sender_def)
  have "sd_totalSizeSent t2 \<or> sd_threadProtocolVersion t2 < RECEIVER_PROGRESS_REPORT_VERSION" "list_all (queued_ok e pv (sd_bufSize t2) content) ?ss"
    using t2(6) k2 q(7) by simp_all
  from sends_queue [OF e t2(4) k2(4) this(1) t2(5) [symmetric] refl q(5,6) this(2)] obtain t3 xs where
    t3: "\<forall>n. sender_machine V e (length ?ss + n) SEND_BLOCKS t2 = sender_machine V e n SEND_BLOCKS t3" "same_sender t2 t3" "sd_totalSizeSent t3 = sd_totalSizeSent t2"
      "sending outgoing t3 (((p @ settings_msg pv (announced e t)) @ size_part pv (q_totalFileSize q)) @
        concat (map (block_msg (xe_crc32c e) (sd_footerType t2) pv) (map (block_of content) ?ss)))"
      "sn_queue (sd_parent t3) = q\<lparr>q_sourceQueue := [], q_numBlocksDequeued := q_numBlocksDequeued q + int (length ?ss)\<rparr>"
      "own_history t3 = own_history t2 @ xs" "map (block_of content) xs = map (block_of content) ?ss" by blast
  let ?q = "sn_queue (sd_parent t3)"
  have k3: "pv = sd_threadProtocolVersion t3" "kMinBufLength \<le> sd_bufSize t3" "sd_totalSizeSent t3 \<or> sd_threadProtocolVersion t3 < RECEIVER_PROGRESS_REPORT_VERSION"
    using t3(2,3) t2(6) k2 t(6) big by (auto simp: same_sender_def)
  have q3: "q_sourceQueue ?q = []" "q_initFinished ?q" "ok_done pv b0 (q_numBlocks ?q, q_totalFileSize ?q)" "q_failedSourceStats ?q = []" "q_failedDirectories ?q = []"
    "q_numBlocks ?q = q_numBlocks q" "q_totalFileSize ?q = q_totalFileSize q" using t3(5) q by simp_all
  from sends_end [OF e(1,3) t3(4) k3 refl q3(1-5)] obtain t4 fill where
    t4: "\<forall>n. sender_machine V e (2 + n) SEND_BLOCKS t3 = sender_machine V e n READ_RECEIVER_CMD t4" "own_history t4 = own_history t3" "sn_queue (sd_parent t4) = ?q"
      "sending outgoing t4 ((((p @ settings_msg pv (announced e t)) @ size_part pv (q_totalFileSize q)) @
        concat (map (block_msg (xe_crc32c e) (sd_footerType t2) pv) (map (block_of content) ?ss))) @ done_msg pv 0 (q_numBlocks q, q_totalFileSize q) fill)"
      "int (length (done_msg pv 0 (q_numBlocks q, q_totalFileSize q) fill)) = kMinBufLength" unfolding q3(6,7) by blast
  have "sender_machine V e (Suc (k + (length ?ss + 2)) + n) SEND_SETTINGS t = sender_machine V e n READ_RECEIVER_CMD t4" for n
    using m1 [of "k + (length ?ss + (2 + n))"] t2(1) [rule_format, of "length ?ss + (2 + n)"] t3(1) [rule_format, of "2 + n"] t4(1)
    by (simp add: add.assoc del: sender_machine.simps)
  moreover have "own_history t1 = own_history t" using t1(4) by (simp add: own_history_def)
  ultimately show ?thesis using t4(2-5) t3(6,7) t2(3) q3(1) k2(3)
    by (intro exI [of _ t4] exI [of _ "Suc (k + (length ?ss + 2))"] exI [of _ fill] exI [of _ xs]) (simp del: sender_machine.simps)
qed

end

end
