(* ===== verification/Wdt_Uri.thy ===== *)
theory Wdt_Uri
  imports Error_Codes "HOL-Library.Char_ord" "HOL-Library.List_Lexorder"
begin

text \<open>
  Connection URLs (\<open>WdtUri\<close> of \<open>WdtTransferRequest.cpp\<close>): escaping, printing and parsing.
  The conversions and the splitting of ranges are \<open>folly\<close> functions and parameters of the
  model; \<open>folly_ok\<close> collects what their documentation promises. A \<open>std::map\<close> is the list of
  its pairs in key order.
\<close>

section \<open>The functions of folly that are used\<close>

record folly =
  fo_split_step :: "char \<Rightarrow> string \<Rightarrow> string \<times> string"
  fo_to_int32 :: "string \<Rightarrow> int option"
  fo_to_int64 :: "string \<Rightarrow> int option"
  fo_to_bool :: "string \<Rightarrow> bool option"
  fo_int_str :: "int \<Rightarrow> string"
  fo_bool_str :: "bool \<Rightarrow> string"

definition int32 :: "int \<Rightarrow> bool" where "int32 n \<longleftrightarrow> - (2 ^ 31) \<le> n \<and> n < 2 ^ 31"
definition int64 :: "int \<Rightarrow> bool" where "int64 n \<longleftrightarrow> - (2 ^ 63) \<le> n \<and> n < 2 ^ 63"

definition decimal_char :: "char \<Rightarrow> bool" where
  "decimal_char c \<longleftrightarrow> c = CHR ''-'' \<or> (of_char (CHR ''0'') \<le> (of_char c :: nat) \<and> (of_char c :: nat) \<le> of_char (CHR ''9''))"

text \<open>
  \<open>split_step\<close> returns the part before the first delimiter and leaves what is behind it;
  printed numbers are non-empty decimal strings and are read back, and so are booleans.
\<close>

definition folly_ok :: "folly \<Rightarrow> bool" where
  "folly_ok fo \<longleftrightarrow>
     (\<forall>c s. fo_split_step fo c s = (takeWhile (\<lambda>x. x \<noteq> c) s, drop 1 (dropWhile (\<lambda>x. x \<noteq> c) s))) \<and>
     (\<forall>n. int32 n \<longrightarrow> fo_to_int32 fo (fo_int_str fo n) = Some n) \<and>
     (\<forall>n. int64 n \<longrightarrow> fo_to_int64 fo (fo_int_str fo n) = Some n) \<and>
     (\<forall>n. fo_int_str fo n \<noteq> [] \<and> list_all decimal_char (fo_int_str fo n)) \<and>
     (\<forall>b. fo_to_bool fo (fo_bool_str fo b) = Some b \<and> fo_bool_str fo b \<noteq> [])"

section \<open>Escaping\<close>

definition toHex :: "nat \<Rightarrow> char outcome" where
  "toHex v = (if \<not> v < 16 then Abort
              else if v \<le> 9 then Ok (char_of (of_char (CHR ''0'') + v))
              else Ok (char_of (of_char (CHR ''a'') + v - 10)))"

definition fromHex :: "char \<Rightarrow> int" where
  "fromHex c =
     (let n = of_char c :: int
      in if n < of_char (CHR ''0'') \<or> (n > of_char (CHR ''9'') \<and> (n < of_char (CHR ''a'') \<or> n > of_char (CHR ''f''))) then -1
         else if n \<le> of_char (CHR ''9'') then n - of_char (CHR ''0'')
         else n - of_char (CHR ''a'') + 10)"

definition in_range :: "char \<Rightarrow> char \<Rightarrow> char \<Rightarrow> bool" where
  "in_range lo hi c \<longleftrightarrow> (of_char lo :: nat) \<le> of_char c \<and> (of_char c :: nat) \<le> of_char hi"

definition plain_char :: "char \<Rightarrow> bool" where
  "plain_char c \<longleftrightarrow> c \<in> set '',:._+-'' \<or> in_range (CHR ''A'') (CHR ''Z'') c \<or> in_range (CHR ''a'') (CHR ''z'') c \<or>
     in_range (CHR ''0'') (CHR ''9'') c"

fun escape :: "string \<Rightarrow> string outcome" where
  "escape [] = Ok []"
| "escape (c # cs) =
     outcome_bind
       (if plain_char c then Ok [c]
        else outcome_bind (toHex (of_char c div 16)) (\<lambda>h. outcome_bind (toHex (of_char c mod 16)) (\<lambda>l. Ok [CHR ''%'', h, l])))
       (\<lambda>p. outcome_bind (escape cs) (\<lambda>rest. Ok (p @ rest)))"

text \<open>The result carries what has been decoded when a malformed sequence is met.\<close>

fun unescape :: "string \<Rightarrow> string \<Rightarrow> bool \<times> string" where
  "unescape res [] = (True, res)"
| "unescape res (c # cs) =
     (if c \<noteq> CHR ''%'' then unescape (res @ [c]) cs
      else case cs of
             a # b # rest \<Rightarrow>
               if fromHex a < 0 \<or> fromHex b < 0 then (False, res)
               else unescape (res @ [char_of (nat (fromHex a * 16 + fromHex b))]) rest
           | _ \<Rightarrow> (False, res))"

section \<open>Printing\<close>

record WdtUri =
  u_hostName :: string
  u_port :: int
  u_queryParams :: "(string \<times> string) list"

definition emptyUri :: WdtUri where
  "emptyUri = \<lparr>u_hostName = [], u_port = -1, u_queryParams = []\<rparr>"

fun params_insert :: "'k::linorder \<Rightarrow> 'v \<Rightarrow> ('k \<times> 'v) list \<Rightarrow> ('k \<times> 'v) list" where
  "params_insert k v [] = [(k, v)]"
| "params_insert k v ((k', v') # m) =
     (if k = k' then (k, v) # m else if k < k' then (k, v) # (k', v') # m else (k', v') # params_insert k v m)"

definition setQueryParam :: "string \<Rightarrow> string \<Rightarrow> WdtUri \<Rightarrow> WdtUri" where
  "setQueryParam k v u = u\<lparr>u_queryParams := params_insert k v (u_queryParams u)\<rparr>"

definition getQueryParam :: "string \<Rightarrow> WdtUri \<Rightarrow> string" where
  "getQueryParam k u = (case map_of (u_queryParams u) k of None \<Rightarrow> [] | Some v \<Rightarrow> v)"

fun print_params :: "char \<Rightarrow> (string \<times> string) list \<Rightarrow> string outcome" where
  "print_params prefix_char [] = Ok []"
| "print_params prefix_char ((k, v) # ps) =
     (if v = [] then print_params prefix_char ps
      else outcome_bind (escape v) (\<lambda>value.
           outcome_bind (print_params (CHR ''&'') ps) (\<lambda>rest. Ok (prefix_char # k @ ''='' @ value @ rest))))"

definition generateUrl :: "folly \<Rightarrow> WdtUri \<Rightarrow> string outcome" where
  "generateUrl fo u =
     (let host = (if CHR '':'' \<in> set (u_hostName u) then ''['' @ u_hostName u @ '']'' else u_hostName u);
          port = (if u_port u > 0 then '':'' @ fo_int_str fo (u_port u) else [])
      in outcome_bind (print_params (CHR ''?'') (u_queryParams u)) (\<lambda>ps. Ok (''wdt://'' @ host @ port @ ps)))"

section \<open>Parsing\<close>

text \<open>The parameters behind the question mark; the loop may not end for a \<open>split_step\<close> that does
  not advance.\<close>

partial_function (option) parse_params ::
  "folly \<Rightarrow> string \<Rightarrow> ErrorCode \<times> (string \<times> string) list \<Rightarrow> (ErrorCode \<times> (string \<times> string) list) option" where
  "parse_params fo piece r =
     (if piece = [] then Some r
      else let (kv0, rest0) = fo_split_step fo (CHR ''&'') piece;
               (kv, rest) = (if kv0 = [] then (rest0, []) else (kv0, rest0));
               (key, value) = fo_split_step fo (CHR ''='') kv
           in if key = [] then Some (URI_PARSE_ERROR, snd r)
              else let (ok, v) = unescape [] value
                   in parse_params fo rest (if ok then fst r else URI_PARSE_ERROR, params_insert key v (snd r)))"

text \<open>\<open>assign\<close> from a character pointer stops at a null character.\<close>

definition assign_prefix :: "string \<Rightarrow> nat \<Rightarrow> string" where
  "assign_prefix s n = take n (takeWhile (\<lambda>c. c \<noteq> char_of (0 :: nat)) s)"

text \<open>The host name and the rest of the URL; \<open>None\<close> for a missing bracket.\<close>

definition parse_host :: "string \<Rightarrow> (string \<times> string) option" where
  "parse_host piece =
     (if hd piece = CHR ''[''
      then let p = tl piece; n = length (takeWhile (\<lambda>c. c \<noteq> CHR '']'') p)
           in if n = length p then None else Some (assign_prefix p n, drop (n + 1) p)
      else let n = length (takeWhile (\<lambda>c. c \<noteq> CHR '':'' \<and> c \<noteq> CHR ''?'') piece)
           in Some (assign_prefix piece n, drop n piece))"

text \<open>The port and what is behind it; the status is changed if the port cannot be read.\<close>

definition parse_port :: "folly \<Rightarrow> string \<Rightarrow> ErrorCode \<Rightarrow> ErrorCode \<times> int \<times> string" where
  "parse_port fo piece status =
     (if piece \<noteq> [] \<and> hd piece = CHR '':''
      then let p = tl piece; n = length (takeWhile (\<lambda>c. c \<noteq> CHR ''?'') p)
           in case fo_to_int32 fo (assign_prefix p n) of
                None \<Rightarrow> (URI_PARSE_ERROR, -1, drop n p)
              | Some v \<Rightarrow> (status, v, drop n p)
      else (status, -1, piece))"

definition process_uri :: "folly \<Rightarrow> string \<Rightarrow> (ErrorCode \<times> WdtUri) option" where
  "process_uri fo url =
     (if length url < 6 \<or> take 6 url \<noteq> ''wdt://'' \<or> drop 6 url = [] then Some (URI_PARSE_ERROR, emptyUri)
      else case parse_host (drop 6 url) of
             None \<Rightarrow> Some (URI_PARSE_ERROR, emptyUri)
           | Some (host, piece) \<Rightarrow>
               (let u = emptyUri\<lparr>u_hostName := host\<rparr>; status = (if host = [] then URI_PARSE_ERROR else OK)
                in if piece = [] then Some (status, u)
                   else case parse_port fo piece status of
                          (status1, port, piece1) \<Rightarrow>
                            let u1 = u\<lparr>u_port := port\<rparr>
                            in if piece1 = [] then Some (status1, u1)
                               else if hd piece1 \<noteq> CHR ''?'' then Some (URI_PARSE_ERROR, u1)
                               else case parse_params fo (tl piece1) (status1, []) of
                                      None \<Rightarrow> None
                                    | Some (status2, ps) \<Rightarrow> Some (status2, u1\<lparr>u_queryParams := ps\<rparr>)))"

section \<open>Escaping loses nothing\<close>

definition hex_ok :: "nat \<Rightarrow> bool" where
  "hex_ok v = (case toHex v of Ok c \<Rightarrow> fromHex c = int v \<and> c \<noteq> CHR ''%'' \<and> plain_char c | _ \<Rightarrow> False)"

lemma hex_digits: "list_all hex_ok [0 ..< 16]"
  by code_simp

lemma toHex_fromHex:
  assumes "v < 16"
  obtains c where "toHex v = Ok c" "fromHex c = int v" "plain_char c"
proof -
  have "hex_ok v" using hex_digits assms by (simp add: list_all_iff)
  then show ?thesis using that by (auto simp: hex_ok_def split: outcome.splits)
qed

lemma plain_not_percent: "\<not> plain_char (CHR ''%'')"
  by code_simp

definition escaped_char :: "char \<Rightarrow> bool" where
  "escaped_char c \<longleftrightarrow> plain_char c \<or> c = CHR ''%''"

lemma escape_unescape:
  "\<exists>e. escape s = Ok e \<and> list_all escaped_char e \<and> (e = [] \<longleftrightarrow> s = []) \<and> (\<forall>res. unescape res e = (True, res @ s))"
proof (induction s)
  case (Cons c cs)
  then obtain e where e: "escape cs = Ok e" "list_all escaped_char e" "\<And>res. unescape res e = (True, res @ cs)" by blast
  show ?case
  proof (cases "plain_char c")
    case True
    then have "escaped_char c" "c \<noteq> CHR ''%''" using plain_not_percent by (auto simp: escaped_char_def)
    then show ?thesis using e True by simp
  next
    case False
    have "of_char c div 16 < (16 :: nat)" "of_char c mod 16 < (16 :: nat)" using of_char_less_256 [of c] by (simp_all add: less_mult_imp_div_less)
    then obtain h l where h: "toHex (of_char c div 16) = Ok h" "fromHex h = int (of_char c div 16)" "plain_char h"
      and l: "toHex (of_char c mod 16) = Ok l" "fromHex l = int (of_char c mod 16)" "plain_char l" using toHex_fromHex by metis
    have "fromHex h * 16 + fromHex l = int (of_char c div 16 * 16 + of_char c mod 16)"
      unfolding h(2) l(2) by (simp only: of_nat_add of_nat_mult of_nat_numeral)
    then have "nat (fromHex h * 16 + fromHex l) = of_char c" by (simp only: div_mult_mod_eq nat_int)
    then have "char_of (nat (fromHex h * 16 + fromHex l)) = c" by (metis char_of_char)
    moreover have "escaped_char (CHR ''%'')" "escaped_char h" "escaped_char l" using h(3) l(3) by (simp_all add: escaped_char_def)
    ultimately show ?thesis using e h l False by simp
  qed
qed simp

text \<open>Any string, binary data included, survives escaping: escaping never fails and
  unescaping its result gives the string back.\<close>

theorem unescape_escape: "\<exists>e. escape s = Ok e \<and> unescape [] e = (True, s)"
  using escape_unescape [of s] by auto

section \<open>Printing and parsing\<close>

definition key_ok :: "string \<Rightarrow> bool" where
  "key_ok k \<longleftrightarrow> k \<noteq> [] \<and> CHR ''&'' \<notin> set k \<and> CHR ''='' \<notin> set k"

definition key_less :: "string \<times> string \<Rightarrow> string \<times> string \<Rightarrow> bool" where
  "key_less p q \<longleftrightarrow> fst p < fst q"

definition map_order :: "(string \<times> string) list \<Rightarrow> bool" where
  "map_order ps \<longleftrightarrow> sorted_wrt key_less ps"

definition set_params :: "(string \<times> string) list \<Rightarrow> (string \<times> string) list" where
  "set_params ps = filter (\<lambda>p. snd p \<noteq> []) ps"

lemma escaped_delimiters: "escaped_char c \<Longrightarrow> c \<noteq> CHR ''&'' \<and> c \<noteq> CHR ''=''"
proof -
  have "\<not> escaped_char (CHR ''&'')" "\<not> escaped_char (CHR ''='')" by code_simp+
  then show "escaped_char c \<Longrightarrow> c \<noteq> CHR ''&'' \<and> c \<noteq> CHR ''=''" by auto
qed

lemma split_step_at:
  assumes "folly_ok fo" "c \<notin> set xs"
  shows "fo_split_step fo c (xs @ c # ys) = (xs, ys)" "fo_split_step fo c xs = (xs, [])"
proof -
  have s: "fo_split_step fo c s = (takeWhile (\<lambda>x. x \<noteq> c) s, drop 1 (dropWhile (\<lambda>x. x \<noteq> c) s))" for s
    using assms(1) by (simp add: folly_ok_def)
  have all: "\<forall>x \<in> set xs. x \<noteq> c" using assms(2) by auto
  then show "fo_split_step fo c (xs @ c # ys) = (xs, ys)" by (simp add: s takeWhile_append2 dropWhile_append2)
  from all have "takeWhile (\<lambda>x. x \<noteq> c) xs = xs" "dropWhile (\<lambda>x. x \<noteq> c) xs = []"
    by (simp_all add: takeWhile_eq_all_conv dropWhile_eq_Nil_conv)
  then show "fo_split_step fo c xs = (xs, [])" unfolding s by (simp only: drop_Nil)
qed

text \<open>One parameter and what follows it.\<close>

lemma parse_params_step:
  assumes fo: "folly_ok fo" and k: "key_ok k" and e: "list_all escaped_char e" "unescape [] e = (True, v)"
    and rest: "rest = [] \<or> (\<exists>ys. rest = CHR ''&'' # ys)"
  shows "parse_params fo (k @ ''='' @ e @ rest) (st, acc) = parse_params fo (tl rest) (st, params_insert k v acc)"
proof -
  have amp: "CHR ''&'' \<notin> set (k @ CHR ''='' # e)" using k e(1) escaped_delimiters by (auto simp: key_ok_def list_all_iff)
  have eq: "CHR ''='' \<notin> set k" "k \<noteq> []" using k by (auto simp: key_ok_def)
  have 1: "fo_split_step fo (CHR ''&'') (k @ CHR ''='' # e @ rest) = (k @ CHR ''='' # e, tl rest)"
    using rest split_step_at [OF fo amp] by auto
  have 2: "fo_split_step fo (CHR ''='') (k @ CHR ''='' # e) = (k, e)" by (rule split_step_at(1) [OF fo eq(1)])
  show ?thesis by (subst parse_params.simps) (simp add: 1 2 eq e(2))
qed

lemma params_roundtrip:
  assumes fo: "folly_ok fo" and ks: "\<forall>p \<in> set ps. key_ok (fst p)"
  shows "\<exists>s. print_params c ps = Ok s \<and> (s = [] \<or> hd s = c) \<and> (s = [] \<longleftrightarrow> set_params ps = []) \<and>
    (\<forall>st acc. parse_params fo (tl s) (st, acc) = Some (st, foldl (\<lambda>m (k, v). params_insert k v m) acc (set_params ps)))"
  using ks
proof (induction ps arbitrary: c)
  case Nil
  then show ?case by (simp add: parse_params.simps set_params_def)
next
  case (Cons p ps)
  obtain k v where p: "p = (k, v)" by (cases p)
  show ?case
  proof (cases "v = []")
    case True
    then show ?thesis using Cons p by (simp add: set_params_def)
  next
    case False
    obtain e where e: "escape v = Ok e" "list_all escaped_char e" "unescape [] e = (True, v)"
      using escape_unescape [of v] by auto
    obtain s where s: "print_params (CHR ''&'') ps = Ok s" "s = [] \<or> hd s = CHR ''&''"
      "\<And>st acc. parse_params fo (tl s) (st, acc) = Some (st, foldl (\<lambda>m (k, v). params_insert k v m) acc (set_params ps))"
      using Cons.IH [of "CHR ''&''"] Cons.prems by auto
    have "s = [] \<or> (\<exists>ys. s = CHR ''&'' # ys)" using s(2) by (metis list.collapse)
    from parse_params_step [OF fo _ e(2,3) this] have
      "parse_params fo (k @ ''='' @ e @ s) (st, acc) = parse_params fo (tl s) (st, params_insert k v acc)" for st acc
      using Cons.prems p by simp
    then show ?thesis using False p e(1) s by (simp add: set_params_def)
  qed
qed

lemma params_insert_last: "\<forall>p \<in> set acc. fst p < k \<Longrightarrow> params_insert k v acc = acc @ [(k, v)]"
  by (induction acc) auto

lemma insert_all_sorted: "map_order (acc @ ps) \<Longrightarrow> foldl (\<lambda>m (k, v). params_insert k v m) acc ps = acc @ ps"
proof (induction ps arbitrary: acc)
  case (Cons p ps)
  obtain k v where p: "p = (k, v)" by (cases p)
  have "\<forall>q \<in> set acc. fst q < k" using Cons.prems p by (auto simp: map_order_def key_less_def sorted_wrt_append)
  then show ?case using Cons.IH [of "acc @ [p]"] Cons.prems p by (simp add: params_insert_last)
qed simp

text \<open>Host names that can be printed: with a colon they are bracketed.\<close>

definition host_ok :: "string \<Rightarrow> bool" where
  "host_ok h \<longleftrightarrow> h \<noteq> [] \<and> char_of (0 :: nat) \<notin> set h \<and>
     (if CHR '':'' \<in> set h then CHR '']'' \<notin> set h else CHR ''?'' \<notin> set h \<and> hd h \<noteq> CHR ''['')"

lemma parse_host_printed:
  assumes "host_ok h" "s = [] \<or> hd s = CHR '':'' \<or> hd s = CHR ''?''"
  shows "parse_host ((if CHR '':'' \<in> set h then ''['' @ h @ '']'' else h) @ s) = Some (h, s)"
proof -
  have no_nul: "assign_prefix (h @ r) (length h) = h" for r
  proof -
    have "takeWhile (\<lambda>c. c \<noteq> char_of (0 :: nat)) (h @ r) = h @ takeWhile (\<lambda>c. c \<noteq> char_of (0 :: nat)) r"
      using assms(1) by (intro takeWhile_append2) (auto simp: host_ok_def)
    then show ?thesis by (simp add: assign_prefix_def)
  qed
  show ?thesis
  proof (cases "CHR '':'' \<in> set h")
    case True
    then have "\<forall>x \<in> set h. x \<noteq> CHR '']''" using assms(1) by (auto simp: host_ok_def)
    then have "takeWhile (\<lambda>c. c \<noteq> CHR '']'') (h @ CHR '']'' # s) = h" by (simp add: takeWhile_append2)
    then show ?thesis using True no_nul [of "CHR '']'' # s"] by (simp add: parse_host_def Let_def)
  next
    case False
    let ?P = "\<lambda>c. c \<noteq> CHR '':'' \<and> c \<noteq> CHR ''?''"
    have "\<forall>x \<in> set h. ?P x" using assms(1) False by (auto simp: host_ok_def)
    then have "takeWhile ?P (h @ s) = h @ takeWhile ?P s" by (intro takeWhile_append2) auto
    moreover have "takeWhile ?P s = []" using assms(2) by (cases s) auto
    ultimately have "takeWhile ?P (h @ s) = h" by simp
    moreover have "hd (h @ s) \<noteq> CHR ''[''" using assms(1) False by (simp add: host_ok_def)
    ultimately show ?thesis using False no_nul [of s] by (simp add: parse_host_def Let_def)
  qed
qed

lemma parse_port_printed:
  assumes fo: "folly_ok fo" and port: "0 < p" "int32 p" and s: "s = [] \<or> hd s = CHR ''?''"
  shows "parse_port fo (CHR '':'' # fo_int_str fo p @ s) st = (st, p, s)"
proof -
  let ?d = "fo_int_str fo p"
  have dec: "\<not> decimal_char (CHR ''?'')" "\<not> decimal_char (char_of (0 :: nat))" by code_simp+
  have "list_all decimal_char ?d" using fo by (simp add: folly_ok_def)
  then have d: "\<forall>x \<in> set ?d. x \<noteq> CHR ''?''" "\<forall>x \<in> set ?d. x \<noteq> char_of (0 :: nat)" using dec by (auto simp: list_all_iff)
  have "takeWhile (\<lambda>c. c \<noteq> CHR ''?'') (?d @ s) = ?d @ takeWhile (\<lambda>c. c \<noteq> CHR ''?'') s"
    using d(1) by (intro takeWhile_append2) auto
  moreover have "takeWhile (\<lambda>c. c \<noteq> CHR ''?'') s = []" using s by (cases s) auto
  moreover have "takeWhile (\<lambda>c. c \<noteq> char_of (0 :: nat)) (?d @ s) = ?d @ takeWhile (\<lambda>c. c \<noteq> char_of (0 :: nat)) s"
    using d(2) by (intro takeWhile_append2) auto
  ultimately show ?thesis using fo port(2) by (simp add: parse_port_def Let_def assign_prefix_def folly_ok_def)
qed

lemma uri_roundtrip:
  assumes fo: "folly_ok fo" and h: "host_ok (u_hostName u)" and port: "u_port u = -1 \<or> 0 < u_port u \<and> int32 (u_port u)"
    and ps: "\<forall>p \<in> set (u_queryParams u). key_ok (fst p)" "map_order (u_queryParams u)"
  shows "\<exists>url. generateUrl fo u = Ok url \<and> process_uri fo url = Some (OK, u\<lparr>u_queryParams := set_params (u_queryParams u)\<rparr>)"
proof -
  let ?ps = "u_queryParams u"
  obtain s where s: "print_params (CHR ''?'') ?ps = Ok s" "s = [] \<or> hd s = CHR ''?''" "s = [] \<longleftrightarrow> set_params ?ps = []"
    "\<And>st acc. parse_params fo (tl s) (st, acc) = Some (st, foldl (\<lambda>m (k, v). params_insert k v m) acc (set_params ?ps))"
    using params_roundtrip [OF fo ps(1), of "CHR ''?''"] by auto
  have "map_order (set_params ?ps)" using ps(2) by (simp add: map_order_def set_params_def sorted_wrt_filter)
  then have parsed: "parse_params fo (tl s) (OK, []) = Some (OK, set_params ?ps)"
    using insert_all_sorted [of "[]"] s(4) by simp
  define host where "host = (if CHR '':'' \<in> set (u_hostName u) then ''['' @ u_hostName u @ '']'' else u_hostName u)"
  define tail where "tail = (if u_port u > 0 then '':'' @ fo_int_str fo (u_port u) else []) @ s"
  have url: "generateUrl fo u = Ok (''wdt://'' @ host @ tail)"
    by (simp add: generateUrl_def Let_def s(1) host_def tail_def)
  have "tail = [] \<or> hd tail = CHR '':'' \<or> hd tail = CHR ''?''" using s(2) by (auto simp: tail_def)
  from parse_host_printed [OF h this] have ph: "parse_host (host @ tail) = Some (u_hostName u, tail)" by (simp add: host_def)
  have ne: "host @ tail \<noteq> []" "u_hostName u \<noteq> []" using h by (auto simp: host_def host_ok_def)
  have pp: "parse_port fo tail OK = (OK, u_port u, s)" if "tail \<noteq> []"
    using parse_port_printed [OF fo _ _ s(2), of "u_port u" OK] port s(2) that
    by (cases "u_port u > 0") (auto simp: tail_def parse_port_def)
  have "process_uri fo (''wdt://'' @ host @ tail) = Some (OK, u\<lparr>u_queryParams := set_params ?ps\<rparr>)"
  proof (cases "tail = []")
    case True
    then have "u_port u = -1" "set_params ?ps = []" using port s(3) by (auto simp: tail_def split: if_splits)
    then show ?thesis using True ph ne by (cases u) (simp add: process_uri_def Let_def emptyUri_def)
  next
    case False
    show ?thesis
    proof (cases "s = []")
      case True
      then show ?thesis using False pp ph ne s(3) by (cases u) (simp add: process_uri_def Let_def emptyUri_def)
    next
      case no: False
      then show ?thesis using False pp ph ne s(2) parsed by (cases u) (simp add: process_uri_def Let_def emptyUri_def)
    qed
  qed
  then show ?thesis using url by blast
qed

end
