(* ===== verification/Transfer_Request.thy ===== *)
theory Transfer_Request
  imports Wdt_Uri Protocol_Codec
begin

text \<open>
  Transfer requests and their connection URLs (\<open>WdtTransferRequest.cpp\<close>), with the
  serialization of encryption parameters (\<open>util/EncryptionUtils.cpp\<close>). A request that a
  receiver prints is the request a sender reads from the URL.
\<close>

section \<open>Encryption parameters\<close>

text \<open>The type is an \<open>int\<close> of 32 bits while it is read.\<close>

record EncryptionParams =
  ep_type :: int
  ep_data :: string

definition ENC_NONE_num :: int where "ENC_NONE_num = 0"
definition NUM_ENC_TYPES_num :: int where "NUM_ENC_TYPES_num = 3"

definition noEncryption :: EncryptionParams where
  "noEncryption = \<lparr>ep_type = ENC_NONE_num, ep_data = []\<rparr>"

definition newEncryptionParams :: "int \<Rightarrow> string \<Rightarrow> EncryptionParams" where
  "newEncryptionParams typ data = (if typ \<ge> NUM_ENC_TYPES_num then noEncryption else \<lparr>ep_type = typ, ep_data = data\<rparr>)"

definition isSet :: "EncryptionParams \<Rightarrow> bool" where
  "isSet e \<longleftrightarrow> ep_type e \<noteq> ENC_NONE_num"

definition encryptionTypeToStr :: "(int \<Rightarrow> string) \<Rightarrow> int \<Rightarrow> string" where
  "encryptionTypeToStr to_str typ =
     (if typ \<ge> NUM_ENC_TYPES_num then to_str typ else [''none'', ''aes128ctr'', ''aes128gcm''] ! nat typ)"

definition encryptionTypeToTagLen :: "int \<Rightarrow> int" where
  "encryptionTypeToTagLen typ = (if typ = 2 then kAESBlockSize else 0)"

definition parseEncryptionType :: "string \<Rightarrow> int" where
  "parseEncryptionType str =
     (if str = ''aes128gcm'' then 2 else if str = ''aes128ctr'' then 1 else if str = ''none'' then 0 else 0)"

fun hex_string :: "string \<Rightarrow> string outcome" where
  "hex_string [] = Ok []"
| "hex_string (c # cs) =
     outcome_bind (toHex (of_char c div 16)) (\<lambda>h. outcome_bind (toHex (of_char c mod 16)) (\<lambda>l.
     outcome_bind (hex_string cs) (\<lambda>rest. Ok (h # l # rest))))"

definition getUrlSafeString :: "EncryptionParams \<Rightarrow> string outcome" where
  "getUrlSafeString e =
     outcome_bind (toHex (nat (ep_type e))) (\<lambda>t. outcome_bind (hex_string (ep_data e)) (\<lambda>h. Ok (t # CHR '':'' # h)))"

datatype hex_state = IN_TYPE | FIRST_HEX | LEFT_HEX | RIGHT_HEX

definition to_int32 :: "int \<Rightarrow> int" where
  "to_int32 n = (n + 2 ^ 31) mod 2 ^ 32 - 2 ^ 31"

text \<open>The loop over the characters: whether it ran to the end, the state, the type and the data.\<close>

fun unserialize_loop :: "string \<Rightarrow> hex_state \<Rightarrow> int \<Rightarrow> int \<Rightarrow> string \<Rightarrow> bool \<times> hex_state \<times> int \<times> string" where
  "unserialize_loop [] state typ byte data = (True, state, typ, data)"
| "unserialize_loop (c # cs) state typ byte data =
     (if state = IN_TYPE \<and> c = CHR '':''
      then (if typ = 0 then (False, state, typ, data) else unserialize_loop cs FIRST_HEX typ byte data)
      else let v = fromHex c
           in if v < 0 then (False, state, typ, data)
              else if state = IN_TYPE then unserialize_loop cs state (to_int32 (typ * 16 + v)) byte data
              else if state \<noteq> RIGHT_HEX then unserialize_loop cs RIGHT_HEX typ (v * 16) data
              else unserialize_loop cs LEFT_HEX typ 0 (data @ [char_of (nat (byte + v))]))"

text \<open>After an error the data read so far stays, with type none.\<close>

definition unserialize :: "string \<Rightarrow> ErrorCode \<times> EncryptionParams" where
  "unserialize input =
     (case unserialize_loop input IN_TYPE 0 0 [] of
        (finished, state, typ, data) \<Rightarrow>
          if \<not> finished \<or> state = IN_TYPE \<or> state \<noteq> LEFT_HEX \<or> typ \<le> ENC_NONE_num \<or> typ \<ge> NUM_ENC_TYPES_num
          then (ERROR, \<lparr>ep_type = ENC_NONE_num, ep_data = data\<rparr>)
          else (OK, \<lparr>ep_type = typ, ep_data = data\<rparr>))"

section \<open>Requests\<close>

record WdtTransferRequest =
  r_transferId :: string
  r_encryptionData :: EncryptionParams
  r_protocolVersion :: int
  r_ports :: "int list"
  r_hostName :: string
  r_destIdentifier :: string
  r_wdtNamespace :: string
  r_directory :: string
  r_downloadResumptionEnabled :: bool
  r_tls :: bool
  r_ivChangeInterval :: int
  r_errorCode :: ErrorCode

text \<open>\<open>pv\<close> is the protocol version of the build.\<close>

definition emptyRequest :: "int \<Rightarrow> WdtTransferRequest" where
  "emptyRequest pv =
     \<lparr>r_transferId = [], r_encryptionData = noEncryption, r_protocolVersion = pv, r_ports = [], r_hostName = [],
      r_destIdentifier = [], r_wdtNamespace = [], r_directory = [], r_downloadResumptionEnabled = False, r_tls = False,
      r_ivChangeInterval = 0, r_errorCode = OK\<rparr>"

definition genPortsVector :: "int \<Rightarrow> int \<Rightarrow> int list" where
  "genPortsVector startPort numPorts = map (\<lambda>i. to_int32 (startPort + int i)) [0 ..< nat numPorts]"

definition newRequest :: "int \<Rightarrow> int \<Rightarrow> int \<Rightarrow> string \<Rightarrow> WdtTransferRequest" where
  "newRequest pv startPort numPorts directory =
     (emptyRequest pv)\<lparr>r_directory := directory,
        r_ports := (if startPort \<noteq> 0 then genPortsVector startPort numPorts else replicate (nat numPorts) 0)\<rparr>"

fun has_holes :: "int \<Rightarrow> int list \<Rightarrow> bool" where
  "has_holes prevPort [] = False"
| "has_holes prevPort (p # ps) = (if p \<noteq> to_int32 (prevPort + 1) then True else has_holes p ps)"

fun getSerializedPortsList :: "folly \<Rightarrow> int list \<Rightarrow> string" where
  "getSerializedPortsList fo [] = []"
| "getSerializedPortsList fo [p] = fo_int_str fo p"
| "getSerializedPortsList fo (p # ps) = fo_int_str fo p @ '','' @ getSerializedPortsList fo ps"

definition serializePorts :: "folly \<Rightarrow> WdtTransferRequest \<Rightarrow> WdtUri \<Rightarrow> WdtUri" where
  "serializePorts fo r u =
     (case r_ports r of
        [] \<Rightarrow> u
      | p # ps \<Rightarrow>
          if has_holes p ps then setQueryParam ''ports'' (getSerializedPortsList fo (r_ports r)) u
          else setQueryParam ''num_ports'' (fo_int_str fo (int (length (r_ports r)))) (u\<lparr>u_port := p\<rparr>))"

text \<open>\<open>logSafe\<close> is the printed form of the encryption parameters for logs, with a hash of the key.\<close>

definition generateUrlInternal :: "folly \<Rightarrow> (EncryptionParams \<Rightarrow> string) \<Rightarrow> bool \<Rightarrow> bool \<Rightarrow> WdtTransferRequest \<Rightarrow> string outcome" where
  "generateUrlInternal fo logSafe genFull forLogging r =
     (if r_errorCode r \<noteq> OK then Ok (errorCodeToStr (\<lambda>n. fo_int_str fo (int n)) (errorCode_num (r_errorCode r)))
      else let u1 = emptyUri\<lparr>u_hostName := r_hostName r\<rparr>;
               u2 = setQueryParam ''id'' (r_transferId r) u1;
               u3 = setQueryParam ''ns'' (r_wdtNamespace r) u2;
               u4 = setQueryParam ''dstid'' (r_destIdentifier r) u3;
               u5 = setQueryParam ''recpv'' (fo_int_str fo (r_protocolVersion r)) u4;
               u6 = setQueryParam ''iv_change_int'' (fo_int_str fo (r_ivChangeInterval r)) u5;
               u7 = (if r_downloadResumptionEnabled r then setQueryParam ''dr'' (fo_bool_str fo True) u6 else u6);
               u8 = serializePorts fo r u7;
               u9 = (if genFull then setQueryParam ''dir'' (r_directory r) u8 else u8)
           in outcome_bind
                (if isSet (r_encryptionData r)
                 then (if forLogging then Ok (setQueryParam ''Enc'' (logSafe (r_encryptionData r)) u9)
                       else outcome_bind (getUrlSafeString (r_encryptionData r)) (\<lambda>s. Ok (setQueryParam ''Enc'' s u9)))
                 else Ok u9)
                (\<lambda>u10. generateUrl fo (setQueryParam ''tls'' (fo_bool_str fo (r_tls r)) u10)))"

definition genWdtUrlWithSecret :: "folly \<Rightarrow> (EncryptionParams \<Rightarrow> string) \<Rightarrow> WdtTransferRequest \<Rightarrow> string outcome" where
  "genWdtUrlWithSecret fo logSafe r = generateUrlInternal fo logSafe False False r"

section \<open>Reading a request from a URL\<close>

partial_function (option) parse_ports ::
  "folly \<Rightarrow> string \<Rightarrow> int list \<times> ErrorCode \<Rightarrow> (int list \<times> ErrorCode) option" where
  "parse_ports fo portsList r =
     (let (portNum, rest) = fo_split_step fo (CHR '','') portsList;
          r1 = (if portNum = [] then r
                else case fo_to_int32 fo portNum of
                       None \<Rightarrow> (fst r, URI_PARSE_ERROR)
                     | Some p \<Rightarrow> (fst r @ [p], snd r))
      in if rest = [] then Some r1 else parse_ports fo rest r1)"

text \<open>A value that is read if it is present; a failed conversion sets the error code.\<close>

definition read_param :: "(string \<Rightarrow> 'a option) \<Rightarrow> string \<Rightarrow> 'a \<times> ErrorCode \<Rightarrow> 'a \<times> ErrorCode" where
  "read_param conv s = (\<lambda>(old, err).
     if s = [] then (old, err) else case conv s of None \<Rightarrow> (old, URI_PARSE_ERROR) | Some v \<Rightarrow> (v, err))"

text \<open>The alternative to a list of ports: a first port and a number.\<close>

definition other_ports :: "folly \<Rightarrow> WdtUri \<Rightarrow> ErrorCode \<Rightarrow> int list \<times> ErrorCode" where
  "other_ports fo u err =
     (let startPortStr = getQueryParam ''start_port'' u; numPortsStr = getQueryParam ''num_ports'' u;
          (startPort, err1) =
            (if u_port u \<le> 0
             then if startPortStr = [] then (u_port u, INVALID_REQUEST)
                  else case fo_to_int32 fo startPortStr of None \<Rightarrow> (u_port u, URI_PARSE_ERROR) | Some p \<Rightarrow> (p, err)
             else (u_port u, err));
          (numPorts, err2) =
            (if numPortsStr = [] then (0, INVALID_REQUEST)
             else case fo_to_int32 fo numPortsStr of None \<Rightarrow> (0, URI_PARSE_ERROR) | Some n \<Rightarrow> (n, err1))
      in (if err2 = OK then genPortsVector startPort numPorts else [], err2))"

definition requestFromUrl :: "folly \<Rightarrow> int \<Rightarrow> string \<Rightarrow> WdtTransferRequest option" where
  "requestFromUrl fo pv uriString =
     (case process_uri fo uriString of
        None \<Rightarrow> None
      | Some (err0, u) \<Rightarrow>
          (let encStr = getQueryParam ''Enc'' u;
               (enc, err1) = (if encStr = [] then (noEncryption, err0)
                              else case unserialize encStr of
                                     (code, e) \<Rightarrow> (e, if code \<noteq> OK then getMoreInterestingError code err0 else err0));
               (tls, err2) = read_param (fo_to_bool fo) (getQueryParam ''tls'' u) (False, err1);
               (dr, err3) = read_param (fo_to_bool fo) (getQueryParam ''dr'' u) (False, err2);
               (recpv, err4) = read_param (fo_to_int64 fo) (getQueryParam ''recpv'' u) (pv, err3);
               (iv, err5) = read_param (fo_to_int64 fo) (getQueryParam ''iv_change_int'' u) (0, err4)
           in case parse_ports fo (getQueryParam ''ports'' u) ([], err5) of
                None \<Rightarrow> None
              | Some (ports, err6) \<Rightarrow>
                  (let (ports', err7) = (if ports \<noteq> [] then (ports, err6) else other_ports fo u err6)
                   in Some \<lparr>r_transferId = getQueryParam ''id'' u, r_encryptionData = enc, r_protocolVersion = recpv,
                            r_ports = ports', r_hostName = u_hostName u, r_destIdentifier = getQueryParam ''dstid'' u,
                            r_wdtNamespace = getQueryParam ''ns'' u, r_directory = getQueryParam ''dir'' u,
                            r_downloadResumptionEnabled = dr, r_tls = tls, r_ivChangeInterval = iv, r_errorCode = err7\<rparr>)))"

section \<open>Round trips\<close>

lemma hex_string_unserialize:
  "\<exists>h. hex_string s = Ok h \<and> (h = [] \<longleftrightarrow> s = []) \<and> (\<forall>st typ data. st \<in> {FIRST_HEX, LEFT_HEX} \<longrightarrow>
     unserialize_loop h st typ 0 data = (True, if s = [] then st else LEFT_HEX, typ, data @ s))"
proof (induction s)
  case (Cons c cs)
  then obtain h where h: "hex_string cs = Ok h"
    "\<And>st typ data. st \<in> {FIRST_HEX, LEFT_HEX} \<Longrightarrow> unserialize_loop h st typ 0 data = (True, if cs = [] then st else LEFT_HEX, typ, data @ cs)"
    by blast
  have "of_char c div 16 < (16 :: nat)" "of_char c mod 16 < (16 :: nat)"
    using of_char_less_256 [of c] by (simp_all add: less_mult_imp_div_less)
  then obtain a b where a: "toHex (of_char c div 16) = Ok a" "fromHex a = int (of_char c div 16)"
    and b: "toHex (of_char c mod 16) = Ok b" "fromHex b = int (of_char c mod 16)" using toHex_fromHex by metis
  have "fromHex a * 16 + fromHex b = int (of_char c div 16 * 16 + of_char c mod 16)"
    unfolding a(2) b(2) by (simp only: of_nat_add of_nat_mult of_nat_numeral)
  then have "nat (fromHex a * 16 + fromHex b) = of_char c" by (simp only: div_mult_mod_eq nat_int)
  then have "char_of (nat (fromHex a * 16 + fromHex b)) = c" by (metis char_of_char)
  moreover have "0 \<le> fromHex a" "0 \<le> fromHex b" using a(2) b(2) by simp_all
  ultimately show ?case using a(1) b(1) h by (auto simp: Let_def)
qed simp

definition encryption_ok :: "EncryptionParams \<Rightarrow> bool" where
  "encryption_ok e \<longleftrightarrow> e = noEncryption \<or> ep_type e \<in> {1, 2} \<and> ep_data e \<noteq> []"

lemma encryption_roundtrip:
  assumes "ep_type e \<in> {1, 2}" "ep_data e \<noteq> []"
  shows "\<exists>s. getUrlSafeString e = Ok s \<and> s \<noteq> [] \<and> unserialize s = (OK, e)"
proof -
  obtain h where h: "hex_string (ep_data e) = Ok h"
    "\<And>typ. unserialize_loop h FIRST_HEX typ 0 [] = (True, LEFT_HEX, typ, ep_data e)"
    using hex_string_unserialize [of "ep_data e"] assms(2) by auto
  have "nat (ep_type e) < 16" "int (nat (ep_type e)) = ep_type e" using assms(1) by auto
  then obtain c where c: "toHex (nat (ep_type e)) = Ok c" "fromHex c = ep_type e" using toHex_fromHex by metis
  have "c \<noteq> CHR '':''"
  proof
    assume "c = CHR '':''"
    moreover have "fromHex (CHR '':'') = -1" by code_simp
    ultimately show False using c(2) assms(1) by auto
  qed
  then have "unserialize (c # CHR '':'' # h) = (OK, e)"
    using c(2) assms(1) h(2) by (cases e) (auto simp: unserialize_def Let_def ENC_NONE_num_def NUM_ENC_TYPES_num_def to_int32_def)
  then show ?thesis using c(1) h(1) by (simp add: getUrlSafeString_def)
qed

definition uri_wf :: "WdtUri \<Rightarrow> bool" where
  "uri_wf u \<longleftrightarrow> map_order (u_queryParams u) \<and> (\<forall>p \<in> set (u_queryParams u). key_ok (fst p))"

lemma set_params_insert: "fst ` set (params_insert k v m) = insert k (fst ` set m)"
  by (induction k v m rule: params_insert.induct) auto

lemma params_insert_order: "map_order m \<Longrightarrow> map_order (params_insert k v m)"
proof (induction k v m rule: params_insert.induct)
  case (2 k v k' v' m)
  have lt: "k' < fst q" if "q \<in> set m" for q using 2(2) that by (simp add: map_order_def key_less_def)
  show ?case
  proof (cases "k < k' \<or> k = k'")
    case True
    then have "k < fst q" if "q \<in> set m" for q using lt [OF that] by (auto intro: less_trans)
    then show ?thesis using True 2(2) by (auto simp: map_order_def key_less_def)
  next
    case False
    then have "map_order (params_insert k v m)" using 2 by (auto simp: map_order_def)
    moreover have "k' < fst q" if "q \<in> set (params_insert k v m)" for q
    proof -
      have "fst q \<in> insert k (fst ` set m)" using that set_params_insert [of k v m] by (metis image_eqI)
      then show ?thesis using lt False by auto
    qed
    ultimately show ?thesis using False by (simp add: map_order_def key_less_def)
  qed
qed (simp add: map_order_def)

lemma map_of_params_insert: "map_order m \<Longrightarrow> map_of (params_insert k v m) = (map_of m)(k \<mapsto> v)"
  by (induction k v m rule: params_insert.induct) (auto simp: map_order_def key_less_def fun_eq_iff)

lemma uri_wf_set [simp]: "uri_wf u \<Longrightarrow> key_ok k \<Longrightarrow> uri_wf (setQueryParam k v u)"
proof -
  assume u: "uri_wf u" and k: "key_ok k"
  have "key_ok (fst q)" if "q \<in> set (params_insert k v (u_queryParams u))" for q
  proof -
    have "fst q \<in> insert k (fst ` set (u_queryParams u))" using that set_params_insert [of k v "u_queryParams u"] by (metis image_eqI)
    then show ?thesis using u k by (auto simp: uri_wf_def)
  qed
  then show ?thesis using u params_insert_order by (simp add: uri_wf_def setQueryParam_def)
qed

lemma getQueryParam_set [simp]:
  "uri_wf u \<Longrightarrow> getQueryParam k (setQueryParam k' v u) = (if k = k' then v else getQueryParam k u)"
  by (simp add: getQueryParam_def setQueryParam_def map_of_params_insert uri_wf_def)

lemma uri_set_fields [simp]:
  "u_hostName (setQueryParam k v u) = u_hostName u" "u_port (setQueryParam k v u) = u_port u"
  "uri_wf (u\<lparr>u_port := p\<rparr>) = uri_wf u" "getQueryParam k (u\<lparr>u_port := p\<rparr>) = getQueryParam k u"
  "uri_wf (emptyUri\<lparr>u_hostName := h\<rparr>)" "getQueryParam k (emptyUri\<lparr>u_hostName := h\<rparr>) = []"
  "u_port (emptyUri\<lparr>u_hostName := h\<rparr>) = -1"
  by (simp_all add: setQueryParam_def uri_wf_def getQueryParam_def emptyUri_def map_order_def)

text \<open>Dropping empty values does not change what a lookup returns.\<close>

lemma getQueryParam_set_params:
  assumes "map_order (u_queryParams u)"
  shows "getQueryParam k (u\<lparr>u_queryParams := set_params (u_queryParams u)\<rparr>) = getQueryParam k u"
proof -
  have "(case map_of (set_params ps) k of None \<Rightarrow> [] | Some v \<Rightarrow> v) = (case map_of ps k of None \<Rightarrow> [] | Some v \<Rightarrow> v)"
    if "map_order ps" for ps
    using that
  proof (induction ps)
    case (Cons p ps)
    obtain k' v where p: "p = (k', v)" by (cases p)
    have IH: "(case map_of (set_params ps) k of None \<Rightarrow> [] | Some v \<Rightarrow> v) = (case map_of ps k of None \<Rightarrow> [] | Some v \<Rightarrow> v)"
      using Cons by (simp add: map_order_def)
    have "map_of (set_params ps) k = None" if "k = k'"
    proof -
      have "k \<notin> fst ` set (set_params ps)" using Cons.prems p that by (auto simp: map_order_def key_less_def set_params_def)
      then show ?thesis by (simp add: map_of_eq_None_iff)
    qed
    then show ?case using IH p by (auto simp: set_params_def)
  qed (simp add: set_params_def)
  then show ?thesis using assms by (simp add: getQueryParam_def)
qed

lemma to_int32_id: "int32 n \<Longrightarrow> to_int32 n = n"
  by (simp add: to_int32_def int32_def)

lemma no_holes_ports:
  "int32 p \<Longrightarrow> list_all int32 ps \<Longrightarrow> \<not> has_holes p ps \<Longrightarrow> genPortsVector p (int (length (p # ps))) = p # ps"
proof (induction p ps rule: has_holes.induct)
  case (1 p)
  then show ?case by (simp add: genPortsVector_def to_int32_id)
next
  case (2 p q ps)
  have q: "q = to_int32 (p + 1)" "\<not> has_holes q ps" using 2(4) by (auto split: if_splits)
  have shift: "to_int32 (q + int i) = to_int32 (p + int (Suc i))" for i
    unfolding q(1) to_int32_def by (simp add: algebra_simps mod_simps)
  have "genPortsVector q (int (length (q # ps))) = q # ps" using 2 q by (auto split: if_splits)
  then have "map (\<lambda>i. to_int32 (q + int i)) [0 ..< length (q # ps)] = q # ps" by (simp only: genPortsVector_def nat_int)
  then have "map (\<lambda>i. to_int32 (p + int (Suc i))) [0 ..< length (q # ps)] = q # ps" by (simp only: shift)
  moreover have "genPortsVector p (int (Suc n)) = to_int32 p # map (\<lambda>i. to_int32 (p + int (Suc i))) [0 ..< n]" for n
    unfolding genPortsVector_def nat_int map_upt_Suc by simp
  ultimately show ?case using to_int32_id [OF 2(2)] by (metis list.size(4) add_Suc_right add.right_neutral)
qed

lemma parse_ports_printed:
  assumes fo: "folly_ok fo"
  shows "list_all int32 ps \<Longrightarrow> ps \<noteq> [] \<Longrightarrow> parse_ports fo (getSerializedPortsList fo ps) (acc, err) = Some (acc @ ps, err)"
proof (induction ps arbitrary: acc)
  case (Cons p ps)
  have nc: "\<not> decimal_char (CHR '','')" by code_simp
  have p: "CHR '','' \<notin> set (fo_int_str fo p)" "fo_int_str fo p \<noteq> []" "fo_to_int32 fo (fo_int_str fo p) = Some p"
    using fo nc Cons.prems by (auto simp: folly_ok_def list_all_iff)
  show ?case
  proof (cases ps)
    case Nil
    then show ?thesis using p split_step_at(2) [OF fo p(1)] by (simp add: parse_ports.simps)
  next
    case (Cons q qs)
    have "fo_int_str fo q \<noteq> []" using fo by (simp add: folly_ok_def)
    then have rest: "getSerializedPortsList fo ps \<noteq> []" using Cons by (cases qs) auto
    have "fo_split_step fo (CHR '','') (getSerializedPortsList fo (p # ps)) = (fo_int_str fo p, getSerializedPortsList fo ps)"
      using split_step_at(1) [OF fo p(1)] Cons by simp
    then show ?thesis using Cons.IH [of "acc @ [p]"] Cons.prems p rest Cons
      by (subst parse_ports.simps) (simp add: del: getSerializedPortsList.simps)
  qed
qed simp

text \<open>Requests whose fields are in range; every string but the host name is arbitrary.\<close>

definition request_ok :: "WdtTransferRequest \<Rightarrow> bool" where
  "request_ok r \<longleftrightarrow> r_errorCode r = OK \<and> host_ok (r_hostName r) \<and> encryption_ok (r_encryptionData r) \<and>
     int64 (r_protocolVersion r) \<and> int64 (r_ivChangeInterval r) \<and>
     r_ports r \<noteq> [] \<and> list_all int32 (r_ports r) \<and> 0 < hd (r_ports r) \<and> int (length (r_ports r)) < 2 ^ 31"

text \<open>The URI of a request without its encryption parameters.\<close>

definition request_uri :: "folly \<Rightarrow> WdtTransferRequest \<Rightarrow> WdtUri" where
  "request_uri fo r =
     serializePorts fo r
       ((\<lambda>u. if r_downloadResumptionEnabled r then setQueryParam ''dr'' (fo_bool_str fo True) u else u)
         (setQueryParam ''iv_change_int'' (fo_int_str fo (r_ivChangeInterval r))
           (setQueryParam ''recpv'' (fo_int_str fo (r_protocolVersion r))
             (setQueryParam ''dstid'' (r_destIdentifier r)
               (setQueryParam ''ns'' (r_wdtNamespace r)
                 (setQueryParam ''id'' (r_transferId r) (emptyUri\<lparr>u_hostName := r_hostName r\<rparr>)))))))"

lemma keys_ok [simp]:
  "key_ok ''id''" "key_ok ''ns''" "key_ok ''dstid''" "key_ok ''recpv''" "key_ok ''iv_change_int''" "key_ok ''dr''"
  "key_ok ''ports''" "key_ok ''num_ports''" "key_ok ''Enc''" "key_ok ''tls''"
  by (simp_all add: key_ok_def)

lemma request_uri_wf: "uri_wf (request_uri fo r)"
  by (simp add: request_uri_def serializePorts_def split: list.splits)

lemma request_uri_params:
  "getQueryParam ''id'' (request_uri fo r) = r_transferId r" "getQueryParam ''ns'' (request_uri fo r) = r_wdtNamespace r"
  "getQueryParam ''dstid'' (request_uri fo r) = r_destIdentifier r"
  "getQueryParam ''recpv'' (request_uri fo r) = fo_int_str fo (r_protocolVersion r)"
  "getQueryParam ''iv_change_int'' (request_uri fo r) = fo_int_str fo (r_ivChangeInterval r)"
  "getQueryParam ''dr'' (request_uri fo r) = (if r_downloadResumptionEnabled r then fo_bool_str fo True else [])"
  "getQueryParam ''Enc'' (request_uri fo r) = []" "getQueryParam ''dir'' (request_uri fo r) = []"
  "u_hostName (request_uri fo r) = r_hostName r"
  by (simp_all add: request_uri_def serializePorts_def split: list.splits)

lemma request_uri_ports:
  assumes r: "r_ports r = p # ps"
  shows "u_port (request_uri fo r) = (if has_holes p ps then -1 else p)"
    "getQueryParam ''ports'' (request_uri fo r) = (if has_holes p ps then getSerializedPortsList fo (p # ps) else [])"
    "getQueryParam ''num_ports'' (request_uri fo r) = (if has_holes p ps then [] else fo_int_str fo (int (length (p # ps))))"
  by (simp_all add: request_uri_def serializePorts_def r)

text \<open>What a parsed URI gives, from its parameters.\<close>

lemma request_ports_read:
  assumes fo: "folly_ok fo" and r: "request_ok r"
    and u: "u_port u = u_port (request_uri fo r)" "getQueryParam ''ports'' u = getQueryParam ''ports'' (request_uri fo r)"
      "getQueryParam ''num_ports'' u = getQueryParam ''num_ports'' (request_uri fo r)"
  shows "\<exists>ports. parse_ports fo (getQueryParam ''ports'' u) ([], OK) = Some (ports, OK) \<and>
    (if ports \<noteq> [] then (ports, OK) else other_ports fo u OK) = (r_ports r, OK)"
proof -
  obtain p ps where ps: "r_ports r = p # ps" using r by (auto simp: request_ok_def neq_Nil_conv)
  have p: "int32 p" "list_all int32 ps" "0 < p" "int32 (int (length (p # ps)))"
    using r by (auto simp: request_ok_def ps int32_def)
  show ?thesis
  proof (cases "has_holes p ps")
    case True
    then show ?thesis using parse_ports_printed [OF fo, of "p # ps" "[]" OK] p u(2) ps request_uri_ports(2) [OF ps] by simp
  next
    case False
    have "parse_ports fo [] ([], OK) = Some ([], OK)" using split_step_at(2) [OF fo] by (simp add: parse_ports.simps)
    moreover have "fo_int_str fo (int (length (p # ps))) \<noteq> []" "fo_to_int32 fo (fo_int_str fo (int (length (p # ps)))) = Some (int (length (p # ps)))"
      using fo p(4) by (auto simp: folly_ok_def)
    ultimately show ?thesis using False u p ps request_uri_ports [OF ps] no_holes_ports [OF p(1,2) False]
      by (simp add: other_ports_def Let_def del: length_Cons)
  qed
qed

lemma request_url_printed:
  assumes r: "request_ok r"
  shows "\<exists>enc. genWdtUrlWithSecret fo logSafe r = generateUrl fo (setQueryParam ''tls'' (fo_bool_str fo (r_tls r))
      (if enc = [] then request_uri fo r else setQueryParam ''Enc'' enc (request_uri fo r))) \<and>
    (if enc = [] then (OK, noEncryption) else unserialize enc) = (OK, r_encryptionData r)"
proof (cases "r_encryptionData r = noEncryption")
  case True
  then have "\<not> isSet (r_encryptionData r)" by (simp add: isSet_def noEncryption_def)
  then show ?thesis using True r
    by (intro exI [of _ "[]"]) (simp add: genWdtUrlWithSecret_def generateUrlInternal_def request_uri_def request_ok_def Let_def)
next
  case False
  then have e: "ep_type (r_encryptionData r) \<in> {1, 2}" "ep_data (r_encryptionData r) \<noteq> []"
    using r by (auto simp: request_ok_def encryption_ok_def)
  then obtain s where s: "getUrlSafeString (r_encryptionData r) = Ok s" "s \<noteq> []" "unserialize s = (OK, r_encryptionData r)"
    using encryption_roundtrip by blast
  have "isSet (r_encryptionData r)" using e(1) by (auto simp: isSet_def ENC_NONE_num_def)
  then show ?thesis using s r
    by (intro exI [of _ s]) (simp add: genWdtUrlWithSecret_def generateUrlInternal_def request_uri_def request_ok_def Let_def)
qed

text \<open>C16: a connection URL carries the whole request. Printing a valid request, with its
  encryption key and any strings, never fails, and the sender that reads the URL gets
  the same request without the local directory.\<close>

theorem request_url_roundtrip:
  assumes fo: "folly_ok fo" and r: "request_ok r"
  shows "\<exists>url. genWdtUrlWithSecret fo logSafe r = Ok url \<and> requestFromUrl fo pv url = Some (r\<lparr>r_directory := []\<rparr>)"
proof -
  let ?E = "\<lambda>enc. if enc = [] then request_uri fo r else setQueryParam ''Enc'' enc (request_uri fo r)"
  obtain enc where gen: "genWdtUrlWithSecret fo logSafe r = generateUrl fo (setQueryParam ''tls'' (fo_bool_str fo (r_tls r)) (?E enc))"
    and enc: "(if enc = [] then (OK, noEncryption) else unserialize enc) = (OK, r_encryptionData r)"
    using request_url_printed [OF r] by blast
  define u where "u = setQueryParam ''tls'' (fo_bool_str fo (r_tls r)) (?E enc)"
  have wf: "uri_wf u" using request_uri_wf by (simp add: u_def)
  obtain p ps where ps: "r_ports r = p # ps" using r by (auto simp: request_ok_def neq_Nil_conv)
  have port: "u_port u = u_port (request_uri fo r)" "u_port u = -1 \<or> 0 < u_port u \<and> int32 (u_port u)"
    using r request_uri_ports(1) [OF ps] by (auto simp: u_def request_ok_def ps)
  have host: "host_ok (u_hostName u)" using r by (simp add: u_def request_uri_params request_ok_def)
  define u' where "u' = u\<lparr>u_queryParams := set_params (u_queryParams u)\<rparr>"
  obtain url where url: "generateUrl fo u = Ok url" "process_uri fo url = Some (OK, u')"
    using uri_roundtrip [OF fo host port(2)] wf unfolding uri_wf_def u'_def by blast
  have get: "getQueryParam k u' = getQueryParam k u" for k
    unfolding u'_def using getQueryParam_set_params wf by (simp add: uri_wf_def)
  have params: "getQueryParam k u' = (if k = ''tls'' then fo_bool_str fo (r_tls r) else if k = ''Enc'' then enc else getQueryParam k (request_uri fo r))" for k
    unfolding get using request_uri_wf request_uri_params(7) by (simp add: u_def)
  have fields: "u_hostName u' = r_hostName r" "u_port u' = u_port (request_uri fo r)"
    using port(1) by (simp_all add: u'_def u_def request_uri_params)
  obtain ports where ports: "parse_ports fo (getQueryParam ''ports'' u') ([], OK) = Some (ports, OK)"
    "(if ports \<noteq> [] then (ports, OK) else other_ports fo u' OK) = (r_ports r, OK)"
    using request_ports_read [OF fo r fields(2)] by (auto simp: params)
  have encp: "(if enc = [] then (noEncryption, OK) else case unserialize enc of
      (code, e) \<Rightarrow> (e, if code \<noteq> OK then getMoreInterestingError code OK else OK)) = (r_encryptionData r, OK)"
    using enc by (auto split: if_splits)
  have conv: "read_param (fo_to_bool fo) (fo_bool_str fo b) (x, OK) = (b, OK)"
    "int64 n \<Longrightarrow> read_param (fo_to_int64 fo) (fo_int_str fo n) (y, OK) = (n, OK)" "read_param g [] (z, OK) = (z, OK)" for b x n y z g
    using fo by (auto simp: read_param_def folly_ok_def)
  have dr: "read_param (fo_to_bool fo) (if r_downloadResumptionEnabled r then fo_bool_str fo True else []) (False, OK)
      = (r_downloadResumptionEnabled r, OK)" by (simp add: conv)
  have "requestFromUrl fo pv url = Some \<lparr>r_transferId = r_transferId r, r_encryptionData = r_encryptionData r,
      r_protocolVersion = r_protocolVersion r, r_ports = r_ports r, r_hostName = r_hostName r, r_destIdentifier = r_destIdentifier r,
      r_wdtNamespace = r_wdtNamespace r, r_directory = [], r_downloadResumptionEnabled = r_downloadResumptionEnabled r,
      r_tls = r_tls r, r_ivChangeInterval = r_ivChangeInterval r, r_errorCode = OK\<rparr>"
    using r ports by (simp add: requestFromUrl_def url(2) params request_uri_params encp conv dr fields request_ok_def del: if_split_asm)
  moreover have "r\<lparr>r_directory := []\<rparr> = \<lparr>r_transferId = r_transferId r, r_encryptionData = r_encryptionData r,
      r_protocolVersion = r_protocolVersion r, r_ports = r_ports r, r_hostName = r_hostName r, r_destIdentifier = r_destIdentifier r,
      r_wdtNamespace = r_wdtNamespace r, r_directory = [], r_downloadResumptionEnabled = r_downloadResumptionEnabled r,
      r_tls = r_tls r, r_ivChangeInterval = r_ivChangeInterval r, r_errorCode = OK\<rparr>"
    using r by (cases r) (simp add: request_ok_def)
  ultimately have "requestFromUrl fo pv url = Some (r\<lparr>r_directory := []\<rparr>)" by (simp only:)
  then show ?thesis using gen url(1) by (auto simp: u_def)
qed

section \<open>An example\<close>

definition digit :: "nat \<Rightarrow> char" where
  "digit d = char_of (48 + d)"

fun nat_str :: "nat \<Rightarrow> string" where
  "nat_str n = (if n < 10 then [digit n] else nat_str (n div 10) @ [digit (n mod 10)])"

declare nat_str.simps [simp del]

definition str_nat :: "string \<Rightarrow> nat" where
  "str_nat s = foldl (\<lambda>a c. a * 10 + (of_char c - 48)) 0 s"

definition int_str :: "int \<Rightarrow> string" where
  "int_str n = (if n < 0 then CHR ''-'' # nat_str (nat (- n)) else nat_str (nat n))"

definition str_int :: "string \<Rightarrow> int option" where
  "str_int s = Some (if s \<noteq> [] \<and> hd s = CHR ''-'' then - int (str_nat (tl s)) else int (str_nat s))"

definition example_folly :: folly where
  "example_folly = \<lparr>fo_split_step = (\<lambda>c s. (takeWhile (\<lambda>x. x \<noteq> c) s, drop 1 (dropWhile (\<lambda>x. x \<noteq> c) s))),
     fo_to_int32 = str_int, fo_to_int64 = str_int, fo_to_bool = (\<lambda>s. Some (s = ''1'')), fo_int_str = int_str,
     fo_bool_str = (\<lambda>b. if b then ''1'' else ''0'')\<rparr>"

lemma digit_ok: "d < 10 \<Longrightarrow> of_char (digit d) = 48 + d \<and> decimal_char (digit d) \<and> digit d \<noteq> CHR ''-''"
proof -
  have "list_all (\<lambda>d. of_char (digit d) = 48 + d \<and> decimal_char (digit d) \<and> digit d \<noteq> CHR ''-'') [0 ..< 10]" by code_simp
  then show "d < 10 \<Longrightarrow> of_char (digit d) = 48 + d \<and> decimal_char (digit d) \<and> digit d \<noteq> CHR ''-''" by (simp add: list_all_iff)
qed

lemma nat_str_ok: "str_nat (nat_str n) = n \<and> nat_str n \<noteq> [] \<and> list_all (\<lambda>c. decimal_char c \<and> c \<noteq> CHR ''-'') (nat_str n)"
proof (induction n rule: nat_str.induct)
  case (1 n)
  show ?case
  proof (cases "n < 10")
    case True
    then show ?thesis using digit_ok [of n] by (simp add: nat_str.simps [of n] str_nat_def)
  next
    case False
    then show ?thesis using 1 digit_ok [of "n mod 10"] by (simp add: nat_str.simps [of n] str_nat_def)
  qed
qed

lemma example_folly_ok: "folly_ok example_folly"
proof -
  have hd: "hd (nat_str n) \<noteq> CHR ''-''" for n using nat_str_ok [of n] by (cases "nat_str n") auto
  have "str_int (int_str n) = Some n" for n using nat_str_ok hd by (simp add: str_int_def int_str_def)
  moreover have "int_str n \<noteq> [] \<and> list_all decimal_char (int_str n)" for n
    using nat_str_ok [of "nat n"] nat_str_ok [of "nat (- n)"] by (auto simp: int_str_def list_all_iff decimal_char_def)
  ultimately show ?thesis by (simp add: folly_ok_def example_folly_def)
qed

definition example_request :: WdtTransferRequest where
  "example_request = \<lparr>r_transferId = ''a&b=c'', r_encryptionData = \<lparr>ep_type = 2, ep_data = ''key''\<rparr>, r_protocolVersion = 32,
     r_ports = [22356, 22357], r_hostName = ''::1'', r_destIdentifier = [], r_wdtNamespace = ''ns'', r_directory = ''/tmp'',
     r_downloadResumptionEnabled = True, r_tls = False, r_ivChangeInterval = 0, r_errorCode = OK\<rparr>"

theorem request_url_roundtrip_witness:
  "folly_ok example_folly \<and> request_ok example_request \<and>
   (\<exists>url. genWdtUrlWithSecret example_folly (\<lambda>_. []) example_request = Ok url \<and>
      requestFromUrl example_folly 0 url = Some (example_request\<lparr>r_directory := []\<rparr>))"
proof -
  have "request_ok example_request"
    by (simp add: request_ok_def example_request_def host_ok_def encryption_ok_def int32_def int64_def char_of_def)
  then show ?thesis using request_url_roundtrip [OF example_folly_ok] example_folly_ok by blast
qed

end
