(* ===== verification/Aes_Cipher.thy ===== *)
theory Aes_Cipher
  imports Transfer_Request
begin

text \<open>
  The encryptor and decryptor of \<open>util/EncryptionUtils.cpp\<close>. The EVP functions of OpenSSL and
  its random bytes are parameters; \<open>evp_ok\<close> states what their documentation promises of a
  stream cipher: data may be processed in any pieces, decryption undoes encryption, and the
  tag over the same data is accepted.
\<close>

record 'c evp =
  ev_enc_init :: "int \<Rightarrow> bytes \<Rightarrow> bytes \<Rightarrow> 'c option"
  ev_dec_init :: "int \<Rightarrow> bytes \<Rightarrow> bytes \<Rightarrow> 'c option"
  ev_enc_update :: "'c \<Rightarrow> bytes \<Rightarrow> (bytes \<times> 'c) option"
  ev_dec_update :: "'c \<Rightarrow> bytes \<Rightarrow> (bytes \<times> 'c) option"
  ev_copy :: "'c \<Rightarrow> 'c option"
  ev_enc_final :: "'c \<Rightarrow> bool"
  ev_get_tag :: "'c \<Rightarrow> bytes option"
  ev_dec_final :: "'c \<Rightarrow> bytes option \<Rightarrow> bool"

record 'c aes =
  ae_type :: int
  ae_ctx :: "'c option"
  ae_started :: bool
  ae_numProcessed :: int

definition newAes :: "'c aes" where
  "newAes = \<lparr>ae_type = ENC_NONE_num, ae_ctx = None, ae_started = False, ae_numProcessed = 0\<rparr>"

text \<open>\<open>RAND_bytes\<close> delivers the random bytes, or \<open>None\<close> if it fails.\<close>

definition generateEncryptionParams :: "int \<Rightarrow> bytes option \<Rightarrow> EncryptionParams outcome" where
  "generateEncryptionParams typ rand =
     (if typ = ENC_NONE_num then Ok noEncryption
      else if \<not> (typ > ENC_NONE_num \<and> typ < NUM_ENC_TYPES_num) then Abort
      else case rand of None \<Rightarrow> Ok noEncryption | Some key \<Rightarrow> Ok (newEncryptionParams typ (string_of key)))"

definition has_cipher :: "int \<Rightarrow> bool" where
  "has_cipher typ \<longleftrightarrow> typ = 1 \<or> typ = 2"

text \<open>Starting an encryptor delivers the initialization vector, \<open>None\<close> if it returns false.\<close>

definition encryptor_start ::
  "'c evp \<Rightarrow> EncryptionParams \<Rightarrow> bytes option \<Rightarrow> 'c aes \<Rightarrow> (bytes option \<times> 'c aes) outcome" where
  "encryptor_start ev params rand a =
     (if ae_started a then Abort
      else let a1 = a\<lparr>ae_ctx := None, ae_type := ep_type params\<rparr>; key = bytes_of (ep_data params)
           in if int (length key) \<noteq> kAESBlockSize then Ok (None, a1)
              else case rand of
                     None \<Rightarrow> Ok (None, a1)
                   | Some iv \<Rightarrow>
                       if \<not> has_cipher (ep_type params) then Ok (None, a1)
                       else case ev_enc_init ev (ep_type params) key iv of
                              None \<Rightarrow> Ok (None, a1)
                            | Some c \<Rightarrow> Ok (Some iv, a1\<lparr>ae_ctx := Some c, ae_started := True\<rparr>))"

definition decryptor_start ::
  "'c evp \<Rightarrow> EncryptionParams \<Rightarrow> bytes \<Rightarrow> 'c aes \<Rightarrow> (bool \<times> 'c aes) outcome" where
  "decryptor_start ev params iv a =
     (if ae_started a then Abort
      else let a1 = a\<lparr>ae_ctx := None, ae_type := ep_type params\<rparr>; key = bytes_of (ep_data params)
           in if int (length key) \<noteq> kAESBlockSize \<or> int (length iv) \<noteq> kAESBlockSize
                \<or> \<not> has_cipher (ep_type params) then Ok (False, a1)
              else case ev_dec_init ev (ep_type params) key iv of
                     None \<Rightarrow> Ok (False, a1)
                   | Some c \<Rightarrow> Ok (True, a1\<lparr>ae_ctx := Some c, ae_started := True\<rparr>))"

text \<open>\<open>encrypt\<close> and \<open>decrypt\<close> differ in the EVP function; \<open>None\<close> is the result false.\<close>

definition aes_process ::
  "('c \<Rightarrow> bytes \<Rightarrow> (bytes \<times> 'c) option) \<Rightarrow> bytes \<Rightarrow> 'c aes \<Rightarrow> (bytes option \<times> 'c aes) outcome" where
  "aes_process update data a =
     (if \<not> ae_started a then Abort
      else case ae_ctx a of
             None \<Rightarrow> Abort
           | Some c \<Rightarrow>
               (case update c data of
                  None \<Rightarrow> Ok (None, a)
                | Some (out, c') \<Rightarrow>
                    if length out \<noteq> length data then Abort
                    else Ok (Some out, a\<lparr>ae_ctx := Some c', ae_numProcessed := ae_numProcessed a + int (length data)\<rparr>)))"

definition aes_encrypt :: "'c evp \<Rightarrow> bytes \<Rightarrow> 'c aes \<Rightarrow> (bytes option \<times> 'c aes) outcome" where
  "aes_encrypt ev = aes_process (ev_enc_update ev)"

definition aes_decrypt :: "'c evp \<Rightarrow> bytes \<Rightarrow> 'c aes \<Rightarrow> (bytes option \<times> 'c aes) outcome" where
  "aes_decrypt ev = aes_process (ev_dec_update ev)"

text \<open>The status and the tag, which is empty for a cipher without tags.\<close>

definition encryptor_finishInternal :: "'c evp \<Rightarrow> int \<Rightarrow> 'c option \<Rightarrow> bool \<times> bytes" where
  "encryptor_finishInternal ev typ ctx =
     (case ctx of
        None \<Rightarrow> (False, [])
      | Some c \<Rightarrow>
          if \<not> ev_enc_final ev c then (False, [])
          else if encryptionTypeToTagLen typ = 0 then (True, [])
          else (True, case ev_get_tag ev c of None \<Rightarrow> [] | Some tag \<Rightarrow> tag))"

definition encryptor_finish :: "'c evp \<Rightarrow> 'c aes \<Rightarrow> (bool \<times> bytes) \<times> 'c aes" where
  "encryptor_finish ev a =
     (if \<not> ae_started a then ((True, []), a)
      else (encryptor_finishInternal ev (ae_type a) (ae_ctx a), a\<lparr>ae_started := False\<rparr>))"

definition cloneCtx :: "'c evp \<Rightarrow> 'c aes \<Rightarrow> 'c option outcome" where
  "cloneCtx ev a =
     (if encryptionTypeToTagLen (ae_type a) = 0 then Abort
      else Ok (case ae_ctx a of None \<Rightarrow> None | Some c \<Rightarrow> ev_copy ev c))"

definition computeCurrentTag :: "'c evp \<Rightarrow> 'c aes \<Rightarrow> bytes outcome" where
  "computeCurrentTag ev a =
     outcome_bind (cloneCtx ev a) (\<lambda>c. Ok (if c = None then [] else snd (encryptor_finishInternal ev (ae_type a) c)))"

definition decryptor_finishInternal :: "'c evp \<Rightarrow> int \<Rightarrow> 'c option \<Rightarrow> bytes \<Rightarrow> bool" where
  "decryptor_finishInternal ev typ ctx tag =
     (case ctx of
        None \<Rightarrow> False
      | Some c \<Rightarrow>
          if encryptionTypeToTagLen typ = 0 then ev_dec_final ev c None
          else if int (length tag) \<noteq> encryptionTypeToTagLen typ then False
          else ev_dec_final ev c (Some tag))"

definition decryptor_finish :: "'c evp \<Rightarrow> bytes \<Rightarrow> 'c aes \<Rightarrow> bool \<times> 'c aes" where
  "decryptor_finish ev tag a =
     (if \<not> ae_started a then (True, a)
      else (decryptor_finishInternal ev (ae_type a) (ae_ctx a) tag, a\<lparr>ae_started := False\<rparr>))"

definition verifyTag :: "'c evp \<Rightarrow> bytes \<Rightarrow> 'c aes \<Rightarrow> bool outcome" where
  "verifyTag ev tag a =
     (if ae_type a \<noteq> 2 then Abort
      else outcome_bind (cloneCtx ev a) (\<lambda>c. Ok (c \<noteq> None \<and> decryptor_finishInternal ev (ae_type a) c tag)))"

section \<open>What the cipher promises\<close>

text \<open>\<open>R\<close> relates an encryption and a decryption context that have processed the same data.\<close>

definition evp_ok :: "'c evp \<Rightarrow> ('c \<Rightarrow> 'c \<Rightarrow> bool) \<Rightarrow> bool" where
  "evp_ok ev R \<longleftrightarrow>
     (\<forall>typ key iv. has_cipher typ \<longrightarrow> length key = 16 \<longrightarrow> length iv = 16 \<longrightarrow>
        (\<exists>c d. ev_enc_init ev typ key iv = Some c \<and> ev_dec_init ev typ key iv = Some d \<and> R c d)) \<and>
     (\<forall>c d p. R c d \<longrightarrow> (\<exists>x c' d'. ev_enc_update ev c p = Some (x, c') \<and> length x = length p \<and>
        ev_dec_update ev d x = Some (p, d') \<and> R c' d')) \<and>
     (\<forall>c d p q x c' y c''. R c d \<longrightarrow> ev_enc_update ev c p = Some (x, c') \<longrightarrow> ev_enc_update ev c' q = Some (y, c'') \<longrightarrow>
        ev_enc_update ev c (p @ q) = Some (x @ y, c'')) \<and>
     (\<forall>c d. R c d \<longrightarrow> ev_enc_update ev c [] = Some ([], c) \<and> ev_enc_final ev c \<and> ev_dec_final ev d None) \<and>
     (\<forall>c d. R c d \<longrightarrow> (\<exists>tag. ev_get_tag ev c = Some tag \<and> length tag = 16 \<and> ev_dec_final ev d (Some tag))) \<and>
     (\<forall>c d. R c d \<longrightarrow> ev_copy ev c = Some c \<and> ev_copy ev d = Some d)"

end
