(* ===== verification/Wdt_Socket.thy ===== *)
theory Wdt_Socket
  imports Aes_Cipher
begin

text \<open>
  The socket of \<open>util/WdtSocket.cpp\<close>: reading and writing with retries, abort checks and
  timeouts, the exchange of encryption settings, encryption with a tag every so many bytes,
  changes of the initialization vector, and the end of a stream. The kernel is a parameter:
  the bytes on the wire and a list of results of the system calls.
\<close>

section \<open>System calls\<close>

text \<open>
  What a call of \<open>::read\<close> or \<open>::write\<close> does: transfer up to some number of bytes, report the
  end of the stream, or fail with an error that is retried or not. The flag tells whether the
  check behind the call finds the transfer aborted or the time over. Behind the last result
  every call transfers all it can.
\<close>

datatype net_call = Net_data nat | Net_eof | Net_again | Net_error

type_synonym net_calls = "(net_call \<times> bool) list"

datatype io_end = Io_done | Io_timeout | Io_error

text \<open>The return value: the number of bytes, or -1 if there are none because of an error.\<close>

definition io_value :: "io_end \<Rightarrow> bytes \<Rightarrow> int" where
  "io_value e done = (if done = [] \<and> e \<noteq> Io_done then -1 else int (length done))"

text \<open>\<open>ioWithAbortCheck\<close> with \<open>::read\<close>: \<open>m\<close> bytes are still wanted, \<open>done\<close> have been read.\<close>

fun io_read :: "net_calls \<Rightarrow> bool \<Rightarrow> nat \<Rightarrow> bytes \<Rightarrow> bytes \<Rightarrow> io_end \<times> bytes \<times> bytes \<times> net_calls" where
  "io_read [] tryFull m done wire = (Io_done, done @ take m wire, drop m wire, [])"
| "io_read ((e, stop) # calls) tryFull m done wire =
     (if m = 0 then (Io_done, done, wire, (e, stop) # calls)
      else case e of
        Net_error \<Rightarrow> (Io_error, done, wire, calls)
      | Net_eof \<Rightarrow> (Io_done, done, wire, calls)
      | Net_again \<Rightarrow> if stop then (Io_timeout, done, wire, calls) else io_read calls tryFull m done wire
      | Net_data k \<Rightarrow>
          let got = take (min k m) wire
          in if got = [] then (Io_done, done, wire, calls)
             else if \<not> tryFull \<or> stop then (Io_done, done @ got, drop (length got) wire, calls)
             else io_read calls tryFull (m - length got) (done @ got) (drop (length got) wire))"

text \<open>The same with \<open>::write\<close>, which tries to write everything: the end, what was written and the
  results left.\<close>

fun io_write :: "net_calls \<Rightarrow> bytes \<Rightarrow> bytes \<Rightarrow> io_end \<times> bytes \<times> net_calls" where
  "io_write [] done buf = (Io_done, done @ buf, [])"
| "io_write ((e, stop) # calls) done buf =
     (if buf = [] then (Io_done, done, (e, stop) # calls)
      else case e of
        Net_error \<Rightarrow> (Io_error, done, calls)
      | Net_eof \<Rightarrow> (Io_done, done, calls)
      | Net_again \<Rightarrow> if stop then (Io_timeout, done, calls) else io_write calls done buf
      | Net_data k \<Rightarrow>
          if k = 0 then (Io_done, done, calls)
          else if stop then (Io_done, done @ take k buf, calls)
          else io_write calls (done @ take k buf) (drop k buf))"

section \<open>State\<close>

text \<open>
  \<open>sk_in\<close> holds the bytes that will arrive, \<open>sk_out\<close> those sent so far; \<open>sk_ivs\<close> the random
  initialization vectors to come; \<open>sk_verified\<close> counts the calls of the callback for a
  verified tag.
\<close>

record 'c WdtSocket =
  sk_params :: EncryptionParams
  sk_ivChangeInterval :: int
  sk_encryptionSettingsWritten :: bool
  sk_encryptionSettingsRead :: bool
  sk_encryptor :: "'c aes"
  sk_decryptor :: "'c aes"
  sk_buf :: bytes
  sk_readTagInterval :: int
  sk_writeTagInterval :: int
  sk_totalRead :: int
  sk_totalWritten :: int
  sk_supportUnencryptedPeer :: bool
  sk_readErrorCode :: ErrorCode
  sk_writeErrorCode :: ErrorCode
  sk_writesFinalized :: bool
  sk_readsFinalized :: bool
  sk_in :: bytes
  sk_reads :: net_calls
  sk_out :: bytes
  sk_writes :: net_calls
  sk_ivs :: "nat \<Rightarrow> bytes option"
  sk_verified :: nat

definition newSocket :: "EncryptionParams \<Rightarrow> int \<Rightarrow> int \<Rightarrow> bytes \<Rightarrow> bytes \<Rightarrow> net_calls \<Rightarrow> net_calls \<Rightarrow> (nat \<Rightarrow> bytes option) \<Rightarrow> 'c WdtSocket" where
  "newSocket params ivChangeInterval tagIntervalOption buf wire reads writes ivs =
     \<lparr>sk_params = params, sk_ivChangeInterval = ivChangeInterval, sk_encryptionSettingsWritten = False,
      sk_encryptionSettingsRead = False, sk_encryptor = newAes, sk_decryptor = newAes, sk_buf = buf,
      sk_readTagInterval = 0,
      sk_writeTagInterval = (if encryptionTypeToTagLen (ep_type params) \<noteq> 0 then tagIntervalOption else 0),
      sk_totalRead = 0, sk_totalWritten = 0, sk_supportUnencryptedPeer = False, sk_readErrorCode = OK,
      sk_writeErrorCode = OK, sk_writesFinalized = False, sk_readsFinalized = False, sk_in = wire, sk_reads = reads,
      sk_out = [], sk_writes = writes, sk_ivs = ivs, sk_verified = 0\<rparr>"

text \<open>Every operation delivers its result with the socket it leaves; \<open>Abort\<close> is a failed check.\<close>

type_synonym ('a, 'c) sock_op = "'c WdtSocket \<Rightarrow> ('a \<times> 'c WdtSocket) outcome"

definition readInternal :: "nat \<Rightarrow> bool \<Rightarrow> 'c WdtSocket \<Rightarrow> (int \<times> bytes) \<times> 'c WdtSocket" where
  "readInternal nbyte tryFull s =
     (case io_read (sk_reads s) tryFull nbyte [] (sk_in s) of
        (e, data, wire, calls) \<Rightarrow>
          ((io_value e data, data),
           s\<lparr>sk_in := wire, sk_reads := calls,
             sk_readErrorCode := (if io_value e data = 0 then SOCKET_READ_ERROR
                                  else if io_value e data < 0 then (if e = Io_timeout then WDT_TIMEOUT else SOCKET_READ_ERROR)
                                  else OK)\<rparr>))"

text \<open>The loop of \<open>writeInternal\<close>: what is sent, and the results left.\<close>

function write_loop :: "bool \<Rightarrow> net_calls \<Rightarrow> bytes \<Rightarrow> bytes \<times> net_calls" where
  "write_loop retry calls buf =
     (if buf = [] then ([], calls)
      else case io_write calls [] buf of
        (e, w, calls') \<Rightarrow>
          if io_value e w \<le> 0 then ([], calls')
          else if \<not> retry then (w, calls')
          else (case write_loop retry calls' (drop (length w) buf) of (w', calls'') \<Rightarrow> (w @ w', calls'')))"
  by pat_completeness auto
termination
  by (relation "measure (\<lambda>(_, _, buf). length buf)") (auto simp: io_value_def split: if_splits)

declare write_loop.simps [simp del]

definition writeInternal :: "bytes \<Rightarrow> bool \<Rightarrow> 'c WdtSocket \<Rightarrow> int \<times> 'c WdtSocket" where
  "writeInternal buf retry s =
     (case write_loop retry (sk_writes s) buf of
        (w, calls) \<Rightarrow>
          let s1 = s\<lparr>sk_out := sk_out s @ w, sk_writes := calls\<rparr>
          in if length w \<noteq> length buf then (-1, s1\<lparr>sk_writeErrorCode := SOCKET_WRITE_ERROR\<rparr>)
             else (int (length w), s1))"

section \<open>Encryption settings\<close>

definition read_error :: "ErrorCode \<Rightarrow> 'c WdtSocket \<Rightarrow> 'c WdtSocket" where
  "read_error e s = s\<lparr>sk_readErrorCode := e\<rparr>"

definition write_error :: "ErrorCode \<Rightarrow> 'c WdtSocket \<Rightarrow> 'c WdtSocket" where
  "write_error e s = s\<lparr>sk_writeErrorCode := e\<rparr>"

text \<open>The checks on decoded settings and the start of the decryptor.\<close>

definition accept_settings :: "'c evp \<Rightarrow> int \<Rightarrow> string \<Rightarrow> int \<Rightarrow> 'c WdtSocket \<Rightarrow> 'c WdtSocket outcome" where
  "accept_settings ev encryptionType iv tagInterval s0 =
     (let s = s0\<lparr>sk_readTagInterval := tagInterval\<rparr>
      in if encryptionType \<noteq> ep_type (sk_params s) \<or> tagInterval < 0
           \<or> (tagInterval > 0 \<and> encryptionTypeToTagLen encryptionType = 0)
         then Ok (read_error PROTOCOL_ERROR s)
         else outcome_bind (decryptor_start ev (sk_params s) (bytes_of iv) (sk_decryptor s)) (\<lambda>(ok, a).
                let s1 = s\<lparr>sk_decryptor := a\<rparr>
                in if \<not> ok then Ok (read_error ENCRYPTION_ERROR s1) else Ok (s1\<lparr>sk_encryptionSettingsRead := True\<rparr>)))"

definition read_settings :: "'c evp \<Rightarrow> 'c WdtSocket \<Rightarrow> 'c WdtSocket outcome" where
  "read_settings ev s =
     (case readInternal (nat (kEncryptionCmdLen - 1)) True s of
        ((numRead, data), s1) \<Rightarrow>
          let s2 = s1\<lparr>sk_buf := write_at 0 data (sk_buf s1)\<rparr>
          in if numRead \<noteq> kEncryptionCmdLen - 1 then Ok (read_error SOCKET_READ_ERROR s2)
             else case decodeEncryptionSettings (sk_buf s2) 0 kEncryptionCmdLen of
                    (Ok (encryptionType, iv, tagInterval), _) \<Rightarrow> accept_settings ev encryptionType iv tagInterval s2
                  | (Fail, _) \<Rightarrow> Ok (read_error PROTOCOL_ERROR s2)
                  | (Abort, _) \<Rightarrow> Abort)"

definition readEncryptionSettingsOnce :: "'c evp \<Rightarrow> 'c WdtSocket \<Rightarrow> 'c WdtSocket outcome" where
  "readEncryptionSettingsOnce ev s =
     (if \<not> isSet (sk_params s) \<or> sk_encryptionSettingsRead s then Ok s
      else if ep_data (sk_params s) = [] then Abort
      else case readInternal 1 True s of
             ((numRead, data), s1) \<Rightarrow>
               let s2 = s1\<lparr>sk_buf := write_at 0 data (sk_buf s1)\<rparr>
               in if numRead \<noteq> 1 then Ok s2
                  else if sk_buf s2 ! 0 \<noteq> cmd_byte ENCRYPTION_CMD then Ok (read_error UNEXPECTED_CMD_ERROR s2)
                  else read_settings ev s2)"

text \<open>The generator of initialization vectors delivers \<open>None\<close> when it fails.\<close>

definition start_encryptor :: "'c evp \<Rightarrow> (bytes option, 'c) sock_op" where
  "start_encryptor ev s =
     outcome_bind (encryptor_start ev (sk_params s) (sk_ivs s 0) (sk_encryptor s)) (\<lambda>(iv, a).
       Ok (iv, s\<lparr>sk_encryptor := a, sk_ivs := (\<lambda>n. sk_ivs s (Suc n))\<rparr>))"

definition writeEncryptionSettingsOnce :: "'c evp \<Rightarrow> 'c WdtSocket \<Rightarrow> 'c WdtSocket outcome" where
  "writeEncryptionSettingsOnce ev s =
     (if \<not> isSet (sk_params s) \<or> sk_encryptionSettingsWritten s then Ok s
      else if ep_data (sk_params s) = [] then Abort
      else outcome_bind (start_encryptor ev s) (\<lambda>(iv, s1).
        case iv of
          None \<Rightarrow> Ok (write_error ENCRYPTION_ERROR s1)
        | Some v \<Rightarrow>
            let buf0 = (sk_buf s1)[0 := cmd_byte ENCRYPTION_CMD]
            in case encodeEncryptionSettings (ep_type (sk_params s1), string_of v, sk_writeTagInterval s1)
                      (1 + kEncryptionCmdLen) buf0 1 of
                 (Abort, _) \<Rightarrow> Abort
               | (_, buf, off) \<Rightarrow>
                   (case writeInternal (take (nat off) buf) False (s1\<lparr>sk_buf := buf\<rparr>) of
                      (written, s2) \<Rightarrow>
                        if written \<noteq> off then Ok s2 else Ok (s2\<lparr>sk_encryptionSettingsWritten := True\<rparr>))))"

section \<open>Reading\<close>

definition checkAndChangeDecryptionIv :: "'c evp \<Rightarrow> bytes \<Rightarrow> (bool, 'c) sock_op" where
  "checkAndChangeDecryptionIv ev tag s =
     (if sk_ivChangeInterval s = 0 then Ok (True, s)
      else if ae_numProcessed (sk_decryptor s) + sk_readTagInterval s \<le> sk_ivChangeInterval s then Ok (True, s)
      else case readInternal (nat kAESBlockSize) True s of
             ((numRead, iv), s1) \<Rightarrow>
               if numRead \<noteq> kAESBlockSize then Ok (False, s1)
               else case decryptor_finish ev tag (sk_decryptor s1) of
                      (ok, a) \<Rightarrow>
                        if \<not> ok then Ok (False, s1\<lparr>sk_decryptor := a\<rparr>)
                        else outcome_bind (decryptor_start ev (sk_params s1) iv newAes) (\<lambda>(started, a').
                               Ok (started, s1\<lparr>sk_decryptor := a'\<rparr>)))"

text \<open>An empty tag is a failure.\<close>

definition readEncryptionTag :: "'c WdtSocket \<Rightarrow> bytes \<times> 'c WdtSocket" where
  "readEncryptionTag s =
     (let toRead = encryptionTypeToTagLen (ep_type (sk_params s))
      in case readInternal (nat toRead) True s of
           ((numRead, tag), s1) \<Rightarrow> if numRead \<noteq> toRead then ([], read_error ENCRYPTION_ERROR s1) else (tag, s1))"

definition computeNextTagOffset :: "int \<Rightarrow> int \<Rightarrow> int" where
  "computeNextTagOffset totalProcessed tagInterval =
     (if totalProcessed = 0 then tagInterval
      else let nextTagOffset = tagInterval - totalProcessed mod tagInterval
           in if nextTagOffset = tagInterval then 0 else nextTagOffset)"

text \<open>The readers deliver the return value and the bytes put into the buffer.\<close>

definition readAndDecrypt :: "'c evp \<Rightarrow> int \<Rightarrow> bool \<Rightarrow> (int \<times> bytes, 'c) sock_op" where
  "readAndDecrypt ev nbyte tryFull s =
     (if \<not> (nbyte > 0) \<or> \<not> isSet (sk_params s) then Abort
      else case readInternal (nat nbyte) tryFull s of
             ((numRead, data), s1) \<Rightarrow>
               if numRead \<le> 0 then Ok ((numRead, []), s1)
               else outcome_bind (aes_decrypt ev data (sk_decryptor s1)) (\<lambda>(out, a).
                      let s2 = s1\<lparr>sk_decryptor := a\<rparr>
                      in case out of
                           None \<Rightarrow> Ok ((-1, []), read_error ENCRYPTION_ERROR s2)
                         | Some plain \<Rightarrow> Ok ((numRead, plain), s2)))"

definition add_totalRead :: "int \<Rightarrow> 'c WdtSocket \<Rightarrow> 'c WdtSocket" where
  "add_totalRead n s = s\<lparr>sk_totalRead := sk_totalRead s + n\<rparr>"

text \<open>Reading and verifying the tag and, if it is time, the new initialization vector.\<close>

definition read_tag_and_iv :: "'c evp \<Rightarrow> (bool, 'c) sock_op" where
  "read_tag_and_iv ev s =
     (if sk_totalRead s mod sk_readTagInterval s \<noteq> 0 then Abort
      else case readEncryptionTag s of
             (tag, s1) \<Rightarrow>
               if tag = [] then Ok (False, s1)
               else outcome_bind (verifyTag ev tag (sk_decryptor s1)) (\<lambda>ok.
                      if \<not> ok then Ok (False, read_error ENCRYPTION_ERROR s1)
                      else let s2 = s1\<lparr>sk_verified := Suc (sk_verified s1)\<rparr>
                           in outcome_bind (checkAndChangeDecryptionIv ev tag s2) (\<lambda>(changed, s3).
                                if \<not> changed then Ok (False, read_error ENCRYPTION_ERROR s3) else Ok (True, s3))))"

text \<open>The last part of a read; \<open>got\<close> holds what has been read before the tag.\<close>

definition read_rest :: "'c evp \<Rightarrow> int \<Rightarrow> bool \<Rightarrow> bytes \<Rightarrow> (int \<times> bytes, 'c) sock_op" where
  "read_rest ev nbyte tryFull got s =
     outcome_bind (readAndDecrypt ev (nbyte - int (length got)) tryFull s) (\<lambda>((ret, data), s1).
       if ret \<le> 0 then Ok ((if got \<noteq> [] then int (length got) else ret, got), s1)
       else Ok ((int (length got) + ret, got @ data), add_totalRead ret s1))"

definition tag_then_rest :: "'c evp \<Rightarrow> int \<Rightarrow> bool \<Rightarrow> bytes \<Rightarrow> (int \<times> bytes, 'c) sock_op" where
  "tag_then_rest ev nbyte tryFull got s =
     outcome_bind (read_tag_and_iv ev s) (\<lambda>(ok, s1). if \<not> ok then Ok ((-1, []), s1) else read_rest ev nbyte tryFull got s1)"

definition readAndDecryptWithTag :: "'c evp \<Rightarrow> int \<Rightarrow> bool \<Rightarrow> (int \<times> bytes, 'c) sock_op" where
  "readAndDecryptWithTag ev nbyte tryFull s =
     (if \<not> (sk_readTagInterval s > 0) \<or> nbyte > sk_readTagInterval s then Abort
      else let nextTagOffset = computeNextTagOffset (sk_totalRead s) (sk_readTagInterval s)
           in if nextTagOffset \<ge> nbyte then read_rest ev nbyte tryFull [] s
              else if nextTagOffset > 0
              then outcome_bind (readAndDecrypt ev nextTagOffset tryFull s) (\<lambda>((ret, data), s1).
                     if ret \<le> 0 then Ok ((ret, []), s1)
                     else let s2 = add_totalRead ret s1
                          in if ret < nextTagOffset then Ok ((ret, data), s2)
                             else if ret \<noteq> nextTagOffset then Abort
                             else tag_then_rest ev nbyte tryFull data s2)
              else tag_then_rest ev nbyte tryFull [] s)"

text \<open>The loop that reads in pieces of the tag interval; \<open>remaining\<close> bytes are wanted.\<close>

function read_tagged :: "'c evp \<Rightarrow> int \<Rightarrow> bool \<Rightarrow> bytes \<Rightarrow> (int \<times> bytes, 'c) sock_op" where
  "read_tagged ev remaining tryFull got s =
     (if remaining \<le> 0 then Ok ((int (length got), got), s)
      else let toRead = min remaining (sk_readTagInterval s)
           in outcome_bind (readAndDecryptWithTag ev toRead tryFull s) (\<lambda>((ret, data), s1).
                if ret \<le> 0 then Ok ((if got \<noteq> [] then int (length got) else ret, got), s1)
                else if ret < toRead then Ok ((int (length got) + ret, got @ data), s1)
                else read_tagged ev (remaining - ret) tryFull (got @ data) s1))"
  by pat_completeness auto
termination
  by (relation "measure (\<lambda>(_, remaining, _). nat remaining)") auto

declare read_tagged.simps [simp del]

definition read_body :: "'c evp \<Rightarrow> int \<Rightarrow> bool \<Rightarrow> bytes \<Rightarrow> (int \<times> bytes, 'c) sock_op" where
  "read_body ev nbyte tryFull first s =
     (if \<not> isSet (sk_params s)
      then (case readInternal (nat (nbyte - int (length first))) tryFull s of
              ((ret, data), s1) \<Rightarrow>
                if ret \<ge> 0 then Ok ((int (length first) + ret, first @ data), s1)
                else Ok ((if first \<noteq> [] then int (length first) else -1, first), s1))
      else if first \<noteq> [] then Abort
      else if sk_readTagInterval s \<le> 0 then readAndDecrypt ev nbyte tryFull s
      else read_tagged ev nbyte tryFull [] s)"

definition readWithTimeout :: "'c evp \<Rightarrow> int \<Rightarrow> bool \<Rightarrow> (int \<times> bytes, 'c) sock_op" where
  "readWithTimeout ev nbyte tryFull s =
     (if \<not> (nbyte > 0) then Abort
      else if sk_readErrorCode s \<noteq> OK \<and> sk_readErrorCode s \<noteq> WDT_TIMEOUT then Ok ((-1, []), s)
      else outcome_bind (readEncryptionSettingsOnce ev (read_error OK s)) (\<lambda>s1.
        if sk_supportUnencryptedPeer s1 \<and> sk_readErrorCode s1 = UNEXPECTED_CMD_ERROR
        then read_body ev nbyte tryFull [sk_buf s1 ! 0] ((read_error OK s1)\<lparr>sk_params := noEncryption\<rparr>)
        else if sk_readErrorCode s1 \<noteq> OK then Ok ((-1, []), s1)
        else read_body ev nbyte tryFull [] s1))"

section \<open>Writing\<close>

definition encryptAndWrite :: "'c evp \<Rightarrow> bytes \<Rightarrow> bool \<Rightarrow> (int, 'c) sock_op" where
  "encryptAndWrite ev buf retry s =
     (if buf = [] \<or> \<not> isSet (sk_params s) then Abort
      else outcome_bind (aes_encrypt ev buf (sk_encryptor s)) (\<lambda>(out, a).
        let s1 = s\<lparr>sk_encryptor := a\<rparr>
        in case out of
             None \<Rightarrow> Ok (-1, write_error ENCRYPTION_ERROR s1)
           | Some cipher \<Rightarrow>
               (case writeInternal cipher retry s1 of
                  (written, s2) \<Rightarrow> Ok (written, if written \<noteq> int (length buf) then write_error SOCKET_WRITE_ERROR s2 else s2))))"

definition checkAndChangeEncryptionIv :: "'c evp \<Rightarrow> (bool, 'c) sock_op" where
  "checkAndChangeEncryptionIv ev s =
     (if sk_ivChangeInterval s = 0 then Ok (True, s)
      else if ae_numProcessed (sk_encryptor s) + sk_writeTagInterval s \<le> sk_ivChangeInterval s then Ok (True, s)
      else outcome_bind (start_encryptor ev (s\<lparr>sk_encryptor := newAes\<rparr>)) (\<lambda>(iv, s1).
        case iv of
          None \<Rightarrow> Ok (False, s1)
        | Some v \<Rightarrow>
            if int (length v) \<noteq> kAESBlockSize then Abort
            else (case writeInternal v False s1 of (written, s2) \<Rightarrow> Ok (written = kAESBlockSize, s2))))"

definition writeEncryptionTag :: "'c evp \<Rightarrow> (bool, 'c) sock_op" where
  "writeEncryptionTag ev s =
     outcome_bind (computeCurrentTag ev (sk_encryptor s)) (\<lambda>tag.
       if tag = [] then Ok (False, write_error ENCRYPTION_ERROR s)
       else (case writeInternal tag False s of (written, s1) \<Rightarrow> Ok (written = int (length tag), s1)))"

definition add_totalWritten :: "int \<Rightarrow> 'c WdtSocket \<Rightarrow> 'c WdtSocket" where
  "add_totalWritten n s = s\<lparr>sk_totalWritten := sk_totalWritten s + n\<rparr>"

definition write_tag_and_iv :: "'c evp \<Rightarrow> (bool, 'c) sock_op" where
  "write_tag_and_iv ev s =
     (if sk_totalWritten s mod sk_writeTagInterval s \<noteq> 0 then Abort
      else outcome_bind (writeEncryptionTag ev s) (\<lambda>(ok, s1).
        if \<not> ok then Ok (False, s1)
        else outcome_bind (checkAndChangeEncryptionIv ev s1) (\<lambda>(changed, s2).
          if \<not> changed then Ok (False, write_error ENCRYPTION_ERROR s2) else Ok (True, s2))))"

definition write_piece :: "'c evp \<Rightarrow> bytes \<Rightarrow> bool \<Rightarrow> (bool, 'c) sock_op" where
  "write_piece ev buf retry s =
     outcome_bind (encryptAndWrite ev buf retry s) (\<lambda>(ret, s1).
       if ret \<noteq> int (length buf) then Ok (False, s1) else Ok (True, add_totalWritten ret s1))"

definition encryptAndWriteWithTag :: "'c evp \<Rightarrow> bytes \<Rightarrow> bool \<Rightarrow> (int, 'c) sock_op" where
  "encryptAndWriteWithTag ev buf retry s =
     (let nbyte = int (length buf)
      in if \<not> (sk_writeTagInterval s > 0) \<or> nbyte > sk_writeTagInterval s then Abort
         else let nextTagOffset = computeNextTagOffset (sk_totalWritten s) (sk_writeTagInterval s)
              in if nextTagOffset \<ge> nbyte
                 then outcome_bind (write_piece ev buf retry s) (\<lambda>(ok, s1). Ok (if ok then nbyte else -1, s1))
                 else let n = nat nextTagOffset
                      in outcome_bind (if n = 0 then Ok (True, s) else write_piece ev (take n buf) retry s) (\<lambda>(ok, s1).
                           if \<not> ok then Ok (-1, s1)
                           else outcome_bind (write_tag_and_iv ev s1) (\<lambda>(ok2, s2).
                             if \<not> ok2 then Ok (-1, s2)
                             else outcome_bind (write_piece ev (drop n buf) retry s2) (\<lambda>(ok3, s3).
                               Ok (if ok3 then nbyte else -1, s3)))))"

text \<open>The loop that writes in pieces of the tag interval.\<close>

function write_tagged :: "'c evp \<Rightarrow> bytes \<Rightarrow> bool \<Rightarrow> (int, 'c) sock_op" where
  "write_tagged ev buf retry s =
     (if buf = [] then Ok (0, s)
      else let n = nat (min (int (length buf)) (sk_writeTagInterval s)); piece = take n buf
           in outcome_bind (encryptAndWriteWithTag ev piece retry s) (\<lambda>(ret, s1).
                if ret \<noteq> int n \<or> n = 0 then Ok (-1, s1)
                else outcome_bind (write_tagged ev (drop n buf) retry s1) (\<lambda>(ret2, s2).
                       Ok (if ret2 < 0 then ret2 else ret + ret2, s2))))"
  by pat_completeness auto
termination
  by (relation "measure (\<lambda>(_, buf, _). length buf)") auto

declare write_tagged.simps [simp del]

definition sock_write :: "'c evp \<Rightarrow> bytes \<Rightarrow> bool \<Rightarrow> (int, 'c) sock_op" where
  "sock_write ev buf retry s =
     (if buf = [] then Abort
      else if sk_writeErrorCode s \<noteq> OK then Ok (-1, s)
      else outcome_bind (writeEncryptionSettingsOnce ev s) (\<lambda>s1.
        if sk_writeErrorCode s1 \<noteq> OK then Ok (-1, s1)
        else if \<not> isSet (sk_params s1) then Ok (writeInternal buf retry s1)
        else if sk_writeTagInterval s1 \<le> 0 then encryptAndWrite ev buf retry s1
        else write_tagged ev buf retry s1))"

section \<open>The end of a stream\<close>

definition finalizeReads :: "'c evp \<Rightarrow> bool \<Rightarrow> 'c WdtSocket \<Rightarrow> ErrorCode \<times> 'c WdtSocket" where
  "finalizeReads ev doTagIOs s =
     (let toRead = encryptionTypeToTagLen (ep_type (sk_params s));
          (tag, s1) = (if toRead \<noteq> 0 \<and> doTagIOs then readEncryptionTag s else ([], s));
          code = (if toRead \<noteq> 0 \<and> doTagIOs \<and> tag = [] then ENCRYPTION_ERROR else OK);
          (ok, a) = decryptor_finish ev tag (sk_decryptor s1)
      in (if \<not> ok then ENCRYPTION_ERROR else code, s1\<lparr>sk_decryptor := a, sk_readsFinalized := True\<rparr>))"

definition finalizeWrites :: "'c evp \<Rightarrow> bool \<Rightarrow> 'c WdtSocket \<Rightarrow> ErrorCode \<times> 'c WdtSocket" where
  "finalizeWrites ev doTagIOs s =
     (let ((ok, tag), a) = encryptor_finish ev (sk_encryptor s);
          code = (if \<not> ok then ENCRYPTION_ERROR else OK); s1 = s\<lparr>sk_encryptor := a\<rparr>;
          (code2, s2) = (if tag \<noteq> [] \<and> doTagIOs
                         then (case writeInternal tag False s1 of
                                 (written, s2) \<Rightarrow> (if written \<noteq> int (length tag) then ENCRYPTION_ERROR else code, s2))
                         else (code, s1))
      in (code2, s2\<lparr>sk_writesFinalized := True\<rparr>))"

text \<open>\<open>shutdownOk\<close> is the result of \<open>::shutdown\<close>.\<close>

definition shutdownWrites :: "'c evp \<Rightarrow> bool \<Rightarrow> 'c WdtSocket \<Rightarrow> ErrorCode \<times> 'c WdtSocket" where
  "shutdownWrites ev shutdownOk s =
     (case finalizeWrites ev True s of (code, s1) \<Rightarrow> (if \<not> shutdownOk \<and> code = OK then ERROR else code, s1))"

definition expectEndOfStream :: "'c evp \<Rightarrow> 'c WdtSocket \<Rightarrow> ErrorCode \<times> 'c WdtSocket" where
  "expectEndOfStream ev s = finalizeReads ev True s"

definition getNonRetryableErrCode :: "'c WdtSocket \<Rightarrow> ErrorCode" where
  "getNonRetryableErrCode s =
     (let e1 = (if sk_readErrorCode s \<notin> {OK, SOCKET_READ_ERROR, WDT_TIMEOUT, ENCRYPTION_ERROR}
                then getMoreInterestingError OK (sk_readErrorCode s) else OK)
      in if sk_writeErrorCode s \<notin> {OK, SOCKET_WRITE_ERROR, ENCRYPTION_ERROR}
         then getMoreInterestingError e1 (sk_writeErrorCode s) else e1)"

text \<open>Closing an open connection; \<open>closeOk\<close> is the result of \<open>::close\<close>.\<close>

definition closeConnectionInternal :: "'c evp \<Rightarrow> bool \<Rightarrow> bool \<Rightarrow> 'c WdtSocket \<Rightarrow> ErrorCode \<times> 'c WdtSocket" where
  "closeConnectionInternal ev doTagIOs closeOk s =
     (let e0 = getNonRetryableErrCode s;
          (e1, s1) = (if \<not> sk_writesFinalized s
                      then (case finalizeWrites ev doTagIOs s of (c, s1) \<Rightarrow> (getMoreInterestingError e0 c, s1)) else (e0, s));
          (e2, s2) = (if \<not> sk_readsFinalized s1
                      then (case finalizeReads ev doTagIOs s1 of (c, s2) \<Rightarrow> (getMoreInterestingError e1 c, s2)) else (e1, s1));
          e3 = (if \<not> closeOk then getMoreInterestingError ERROR e2 else e2)
      in (e3, s2\<lparr>sk_readErrorCode := OK, sk_writeErrorCode := OK, sk_encryptionSettingsRead := False,
                sk_encryptionSettingsWritten := False, sk_writesFinalized := False, sk_readsFinalized := False,
                sk_totalRead := 0, sk_totalWritten := 0, sk_encryptor := newAes, sk_decryptor := newAes\<rparr>))"

definition getEffectiveTimeout :: "int \<Rightarrow> int \<Rightarrow> int" where
  "getEffectiveTimeout abortInterval networkTimeout =
     (if abortInterval \<le> 0 then networkTimeout
      else if networkTimeout \<le> 0 then abortInterval
      else min networkTimeout abortInterval)"

section \<open>Addresses and connections\<close>

text \<open>
  An entry of \<open>getaddrinfo\<close> with its family and what \<open>getnameinfo\<close> says about it: host and numeric port.
  What a poll ends with, for each descriptor whether it has a connection.
\<close>

record addr_info =
  ai_family :: int
  ai_nameInfo :: "(string \<times> int) option"

datatype poll_end = Poll_events "bool list" | Poll_interrupted | Poll_timeout | Poll_failed

text \<open>A connection: its descriptor, the address of the peer, what will arrive, and the results of the calls.\<close>

record connection =
  cn_fd :: int
  cn_peer :: "(string \<times> string) option"
  cn_in :: bytes
  cn_reads :: net_calls
  cn_writes :: net_calls

end
