(* ===== verification/Client_Socket.thy ===== *)
theory Client_Socket
  imports Wdt_Socket Sender_Thread
begin

text \<open>
  The socket of a sender thread, \<open>util/ClientSocket.cpp\<close>: connecting to one of the addresses of the receiver, with a
  timeout and a check for aborts, and the table of operations that a sender thread calls.
\<close>

section \<open>The system\<close>

text \<open>How a call of \<open>connect\<close> on a socket that does not block ends.\<close>

datatype connect_end = Connect_done | Connect_in_progress | Connect_failed

text \<open>
  The answers of the system, each with the number of the call. \<open>ce_polls\<close> gives for each round of a wait the answer
  of the abort checker, the time elapsed and the end of the poll; behind the last round the time is over.
\<close>

record 'c client_env =
  ce_evp :: "'c evp"
  ce_connect_timeout_millis :: int
  ce_getaddrinfo :: "nat \<Rightarrow> string \<Rightarrow> int \<Rightarrow> int \<Rightarrow> addr_info list option"
  ce_socket :: "nat \<Rightarrow> int"
  ce_setNonBlocking :: "nat \<Rightarrow> bool"
  ce_connect :: "nat \<Rightarrow> connect_end"
  ce_polls :: "nat \<Rightarrow> (bool \<times> int \<times> poll_end) list"
  ce_socketError :: "nat \<Rightarrow> int option"
  ce_setBlocking :: "nat \<Rightarrow> bool"
  ce_established :: "nat \<Rightarrow> connection"
  ce_close :: "nat \<Rightarrow> bool"
  ce_shutdown :: "nat \<Rightarrow> bool"
  ce_unacked :: "nat \<Rightarrow> int option"

record 'c ClientSocket =
  cl_socket :: "'c WdtSocket"
  cl_fd :: int
  cl_port :: int
  cl_dest :: string
  cl_peerIp :: string
  cl_family :: int
  cl_calls :: nat

text \<open>With both \<open>ipv4\<close> and \<open>ipv6\<close> set the former wins.\<close>

definition newClientSocket :: "bool \<Rightarrow> bool \<Rightarrow> int \<Rightarrow> int \<Rightarrow> 'c WdtSocket \<Rightarrow> string \<Rightarrow> int \<Rightarrow> 'c ClientSocket" where
  "newClientSocket ipv4 ipv6 inet inet6 sock dest port =
     \<lparr>cl_socket = sock, cl_fd = -1, cl_port = port, cl_dest = dest, cl_peerIp = [],
      cl_family = (if ipv4 then inet else if ipv6 then inet6 else 0), cl_calls = 0\<rparr>"

definition next_call :: "'c ClientSocket \<Rightarrow> 'c ClientSocket" where
  "next_call s = s\<lparr>cl_calls := cl_calls s + 1\<rparr>"

section \<open>Connecting\<close>

definition client_close :: "'c client_env \<Rightarrow> bool \<Rightarrow> 'c ClientSocket \<Rightarrow> ErrorCode \<times> 'c ClientSocket" where
  "client_close ev doTagIOs s =
     (if cl_fd s < 0 then (OK, s)
      else case closeConnectionInternal (ce_evp ev) doTagIOs (ce_close ev (cl_calls s)) (cl_socket s) of
             (code, sock) \<Rightarrow> (code, (next_call s)\<lparr>cl_socket := sock, cl_fd := -1\<rparr>))"

text \<open>Waiting for a connection in progress; an interrupted poll and one that times out are repeated.\<close>

fun wait_connected :: "int \<Rightarrow> (bool \<times> int \<times> poll_end) list \<Rightarrow> ErrorCode option" where
  "wait_connected connectTimeout [] = Some CONN_ERROR_RETRYABLE"
| "wait_connected connectTimeout ((abort, timeElapsed, poll) # rounds) =
     (if abort then Some ABORT
      else if timeElapsed \<ge> connectTimeout then Some CONN_ERROR_RETRYABLE
      else case poll of
             Poll_events _ \<Rightarrow> None
           | Poll_interrupted \<Rightarrow> wait_connected connectTimeout rounds
           | Poll_timeout \<Rightarrow> wait_connected connectTimeout rounds
           | Poll_failed \<Rightarrow> Some CONN_ERROR)"

text \<open>One address: connected, to be followed by the next address, or the end of the attempts.\<close>

datatype attempt = Connected | Next_address | Give_up ErrorCode

definition await_connection :: "'c client_env \<Rightarrow> nat \<Rightarrow> attempt" where
  "await_connection ev n =
     (case ce_connect ev n of
        Connect_done \<Rightarrow> Connected
      | Connect_failed \<Rightarrow> Next_address
      | Connect_in_progress \<Rightarrow>
          (case wait_connected (ce_connect_timeout_millis ev) (ce_polls ev n) of
             Some code \<Rightarrow> Give_up code
           | None \<Rightarrow> if ce_socketError ev n = Some 0 then Connected else Next_address))"

definition connect_address :: "'c client_env \<Rightarrow> addr_info \<Rightarrow> 'c ClientSocket \<Rightarrow> attempt \<times> 'c ClientSocket" where
  "connect_address ev info s =
     (let n = cl_calls s; fd = ce_socket ev n; s0 = next_call s; s1 = s0\<lparr>cl_fd := fd\<rparr>;
          closed = snd (client_close ev True s1)
      in if fd = -1 then (Next_address, s0)
         else if \<not> ce_setNonBlocking ev n then (Next_address, closed)
         else case await_connection ev n of
                Connected \<Rightarrow>
                  if \<not> ce_setBlocking ev n then (Next_address, closed)
                  else let c = ce_established ev n
                       in (Connected, s1\<lparr>cl_peerIp := (case ai_nameInfo info of None \<Rightarrow> [] | Some (host, port) \<Rightarrow> host), cl_family := ai_family info,
                             cl_socket := (cl_socket s1)\<lparr>sk_in := cn_in c, sk_reads := cn_reads c, sk_out := [], sk_writes := cn_writes c\<rparr>\<rparr>)
              | r \<Rightarrow> (r, closed))"

fun connect_addrs :: "'c client_env \<Rightarrow> addr_info list \<Rightarrow> 'c ClientSocket \<Rightarrow> ErrorCode \<times> 'c ClientSocket" where
  "connect_addrs ev [] s = (if cl_fd s < 0 then CONN_ERROR_RETRYABLE else OK, s)"
| "connect_addrs ev (info # infos) s =
     (case connect_address ev info s of
        (Connected, s1) \<Rightarrow> (if cl_fd s1 < 0 then CONN_ERROR_RETRYABLE else OK, s1)
      | (Next_address, s1) \<Rightarrow> connect_addrs ev infos s1
      | (Give_up code, s1) \<Rightarrow> (code, s1))"

definition client_connect :: "'c client_env \<Rightarrow> 'c ClientSocket \<Rightarrow> (ErrorCode \<times> 'c ClientSocket) outcome" where
  "client_connect ev s =
     (if \<not> cl_fd s < 0 then Abort
      else case ce_getaddrinfo ev (cl_calls s) (cl_dest s) (cl_port s) (cl_family s) of
             None \<Rightarrow> Ok (CONN_ERROR, next_call s)
           | Some infos \<Rightarrow> Ok (connect_addrs ev infos (next_call s)))"

section \<open>The table of operations\<close>

definition on_client :: "('a, 'c) sock_op \<Rightarrow> 'c ClientSocket \<Rightarrow> ('a \<times> 'c ClientSocket) outcome" where
  "on_client f s = outcome_bind (f (cl_socket s)) (\<lambda>(x, sock). Ok (x, s\<lparr>cl_socket := sock\<rparr>))"

definition client_read :: "'c client_env \<Rightarrow> int \<Rightarrow> bool \<Rightarrow> 'c ClientSocket \<Rightarrow> (bytes option \<times> 'c ClientSocket) outcome" where
  "client_read ev n tryFull s =
     outcome_bind (on_client (readWithTimeout (ce_evp ev) n tryFull) s) (\<lambda>((ret, data), s1).
       Ok (if ret < 0 then None else Some data, s1))"

text \<open>Without the number of unacknowledged bytes the answer is -1.\<close>

definition client_unacked :: "'c client_env \<Rightarrow> 'c ClientSocket \<Rightarrow> int \<times> 'c ClientSocket" where
  "client_unacked ev s = ((case ce_unacked ev (cl_calls s) of None \<Rightarrow> -1 | Some n \<Rightarrow> n), next_call s)"

definition encryption_type_of :: "int \<Rightarrow> EncryptionType" where
  "encryption_type_of n = (if n = 0 then ENC_NONE else if n = 1 then ENC_AES128_CTR else if n = 2 then ENC_AES128_GCM else NUM_ENC_TYPES)"

definition client_ops :: "'c client_env \<Rightarrow> 'c ClientSocket IClientSocket" where
  "client_ops ev =
     \<lparr>ci_connect = client_connect ev, ci_read = client_read ev, ci_readWithTimeout = (\<lambda>n timeoutMs. client_read ev n True),
      ci_write = (\<lambda>bs retry. on_client (sock_write (ce_evp ev) bs retry)),
      ci_shutdownWrites = (\<lambda>s. case shutdownWrites (ce_evp ev) (ce_shutdown ev (cl_calls s)) (cl_socket s) of
                                 (code, sock) \<Rightarrow> (code, (next_call s)\<lparr>cl_socket := sock\<rparr>)),
      ci_expectEndOfStream = (\<lambda>s. case expectEndOfStream (ce_evp ev) (cl_socket s) of (code, sock) \<Rightarrow> (code, s\<lparr>cl_socket := sock\<rparr>)),
      ci_closeNoCheck = (\<lambda>s. snd (client_close ev False s)), ci_nonRetryableErrCode = (\<lambda>s. getNonRetryableErrCode (cl_socket s)),
      ci_readErrCode = (\<lambda>s. sk_readErrorCode (cl_socket s)), ci_unackedBytes = client_unacked ev,
      ci_encryptionType = (\<lambda>s. encryption_type_of (ep_type (sk_params (cl_socket s))))\<rparr>"

end
