(* ===== verification/Socket_Laws.thy ===== *)
theory Socket_Laws
  imports Wdt_Socket Protocol_Laws
begin

text \<open>
  The socket is a reliable byte stream: an abstract cipher stream says which bytes a writer
  puts on the wire for a plaintext, byte by byte, with tags and changes of the
  initialization vector; \<open>write\<close> produces it however the data is cut into writes, and \<open>read\<close>
  takes it apart however the network cuts it into pieces.
\<close>

section \<open>System calls without failures\<close>

definition good_calls :: "net_calls \<Rightarrow> bool" where
  "good_calls calls \<longleftrightarrow> list_all (\<lambda>(e, stop). \<not> stop \<and> (\<exists>k > 0. e = Net_data k)) calls"

lemma good_calls_Nil [simp]: "good_calls []"
  by (simp add: good_calls_def)

lemma good_calls_Cons [simp]: "good_calls ((e, stop) # calls) \<longleftrightarrow> \<not> stop \<and> (\<exists>k > 0. e = Net_data k) \<and> good_calls calls"
  by (simp add: good_calls_def)

lemma io_read_all:
  "good_calls calls \<Longrightarrow> m \<le> length wire \<Longrightarrow>
   \<exists>calls'. io_read calls True m acc wire = (Io_done, acc @ take m wire, drop m wire, calls') \<and> good_calls calls'"
proof (induction calls arbitrary: m acc wire)
  case (Cons a calls)
  obtain k where a: "a = (Net_data k, False)" "0 < k" and g: "good_calls calls" using Cons.prems by (cases a) auto
  show ?case
  proof (cases "m = 0")
    case False
    let ?j = "min k m"
    have j: "0 < ?j" "?j \<le> length wire" "length (take ?j wire) = ?j" using False a Cons.prems by auto
    then have ne: "take ?j wire \<noteq> []" by (metis length_0_conv less_numeral_extra(3))
    have "m - ?j \<le> length (drop ?j wire)" using Cons.prems(2) by (simp add: diff_le_mono)
    then obtain calls' where "io_read calls True (m - ?j) (acc @ take ?j wire) (drop ?j wire) =
        (Io_done, (acc @ take ?j wire) @ take (m - ?j) (drop ?j wire), drop (m - ?j) (drop ?j wire), calls')" "good_calls calls'"
      using Cons.IH [OF g, of "m - ?j" "drop ?j wire" "acc @ take ?j wire"] by blast
    moreover have "take ?j wire @ take (m - ?j) (drop ?j wire) = take m wire"
      by (metis le_add_diff_inverse min.cobounded2 take_add)
    ultimately show ?thesis using False a(1) ne j(3) by (simp add: Let_def)
  qed (use Cons.prems in \<open>cases a, simp\<close>)
qed simp

lemma io_read_some:
  assumes "good_calls calls" "0 < m" "wire \<noteq> []"
  shows "\<exists>k calls'. io_read calls False m [] wire = (Io_done, take k wire, drop k wire, calls') \<and> good_calls calls' \<and>
     0 < k \<and> k \<le> m \<and> k \<le> length wire"
proof (cases calls)
  case Nil
  then show ?thesis using assms
    by (intro exI [of _ "min m (length wire)"]) (auto simp: Suc_le_eq min_def)
next
  case (Cons a calls')
  then obtain k where "a = (Net_data k, False)" "0 < k" using assms(1) by (cases a) auto
  then show ?thesis using Cons assms
    by (intro exI [of _ "min (min k m) (length wire)"]) (auto simp: Let_def min_def)
qed

lemma io_read_good:
  assumes "good_calls calls" "0 < m" "wire \<noteq> []" "tryFull \<longrightarrow> m \<le> length wire"
  obtains k calls' where "io_read calls tryFull m [] wire = (Io_done, take k wire, drop k wire, calls')" "good_calls calls'"
    "0 < k" "k \<le> m" "k \<le> length wire" "tryFull \<longrightarrow> k = m"
proof (cases tryFull)
  case True
  then show ?thesis using that io_read_all [OF assms(1), of m wire "[]"] assms(2,4) by auto
next
  case False
  then show ?thesis using that io_read_some [OF assms(1-3)] by auto
qed

lemma io_write_good:
  "good_calls calls \<Longrightarrow> \<exists>calls'. io_write calls done buf = (Io_done, done @ buf, calls') \<and> good_calls calls'"
proof (induction calls arbitrary: "done" buf)
  case (Cons a calls)
  obtain k where a: "a = (Net_data k, False)" "0 < k" and g: "good_calls calls" using Cons.prems by (cases a) auto
  show ?case
  proof (cases "buf = []")
    case False
    obtain calls' where "io_write calls (done @ take k buf) (drop k buf) = (Io_done, (done @ take k buf) @ drop k buf, calls')" "good_calls calls'"
      using Cons.IH [OF g] by blast
    then show ?thesis using False a by simp
  qed (use Cons.prems in \<open>cases a, simp\<close>)
qed simp

definition advance_in :: "nat \<Rightarrow> net_calls \<Rightarrow> 'c WdtSocket \<Rightarrow> 'c WdtSocket" where
  "advance_in k calls s = s\<lparr>sk_in := drop k (sk_in s), sk_reads := calls, sk_readErrorCode := OK\<rparr>"

lemma readInternal_good:
  assumes "good_calls (sk_reads s)" "0 < m" "sk_in s \<noteq> []" "tryFull \<longrightarrow> m \<le> length (sk_in s)"
  obtains k calls where "readInternal m tryFull s = ((int k, take k (sk_in s)), advance_in k calls s)" "good_calls calls"
    "0 < k" "k \<le> m" "k \<le> length (sk_in s)" "tryFull \<longrightarrow> k = m"
proof -
  obtain k calls where io: "io_read (sk_reads s) tryFull m [] (sk_in s) = (Io_done, take k (sk_in s), drop k (sk_in s), calls)"
    and k: "good_calls calls" "0 < k" "k \<le> m" "k \<le> length (sk_in s)" "tryFull \<longrightarrow> k = m"
    by (rule io_read_good [OF assms])
  have "readInternal m tryFull s = ((int k, take k (sk_in s)), advance_in k calls s)"
    using io k(2,4) assms(3) by (simp add: readInternal_def io_value_def advance_in_def)
  then show ?thesis using k by (rule that)
qed

lemma readInternal_exact:
  assumes "good_calls (sk_reads s)" "0 < m" "sk_in s = w @ rest" "length w = m"
  obtains calls where "readInternal m True s = ((int m, w), advance_in m calls s)" "good_calls calls"
proof -
  have "sk_in s \<noteq> []" "True \<longrightarrow> m \<le> length (sk_in s)" using assms by auto
  then obtain k calls where "readInternal m True s = ((int k, take k (sk_in s)), advance_in k calls s)" "good_calls calls" "True \<longrightarrow> k = m"
    by (rule readInternal_good [OF assms(1,2)])
  then show ?thesis using that assms(3,4) by simp
qed

definition emit :: "bytes \<Rightarrow> net_calls \<Rightarrow> 'c WdtSocket \<Rightarrow> 'c WdtSocket" where
  "emit w calls s = s\<lparr>sk_out := sk_out s @ w, sk_writes := calls\<rparr>"

lemma writeInternal_good:
  assumes "good_calls (sk_writes s)"
  obtains calls where "writeInternal w retry s = (int (length w), emit w calls s)" "good_calls calls"
proof -
  obtain calls where io: "io_write (sk_writes s) [] w = (Io_done, w, calls)" "good_calls calls"
    using io_write_good [OF assms, of "[]" w] by auto
  have nil: "write_loop retry calls [] = ([], calls)" for calls by (simp add: write_loop.simps)
  have "\<exists>calls. write_loop retry (sk_writes s) w = (w, calls) \<and> good_calls calls"
  proof (cases "w = []")
    case False
    then show ?thesis using io nil [of calls] by (subst write_loop.simps) (cases retry; simp add: io_value_def)
  qed (use nil assms in blast)
  then show ?thesis using that by (auto simp: writeInternal_def emit_def)
qed

section \<open>The cipher stream\<close>

text \<open>
  The state of a cipher stream: the encryption context, the bytes sent so far, those sent with
  the current initialization vector, and the vectors to come. \<open>T\<close> is the tag interval, \<open>V\<close> the
  interval of changes of the vector, \<open>P\<close> the type and key.
\<close>

record 'c chan =
  ch_ctx :: 'c
  ch_total :: int
  ch_np :: int
  ch_ivs :: "nat \<Rightarrow> bytes option"

definition ivs_ok :: "(nat \<Rightarrow> bytes option) \<Rightarrow> bool" where
  "ivs_ok ivs \<longleftrightarrow> (\<forall>n. \<exists>iv. ivs n = Some iv \<and> length iv = 16)"

definition key_params_ok :: "EncryptionParams \<Rightarrow> bool" where
  "key_params_ok P \<longleftrightarrow> has_cipher (ep_type P) \<and> length (ep_data P) = 16"

definition tag_due :: "int \<Rightarrow> int \<Rightarrow> bool" where
  "tag_due T n \<longleftrightarrow> 0 < T \<and> 0 < n \<and> n mod T = 0"

definition ch_start :: "'c evp \<Rightarrow> EncryptionParams \<Rightarrow> bytes \<Rightarrow> 'c" where
  "ch_start ev P iv = the (ev_enc_init ev (ep_type P) (bytes_of (ep_data P)) iv)"

definition ch_tag :: "'c evp \<Rightarrow> 'c chan \<Rightarrow> bytes" where
  "ch_tag ev st = the (ev_get_tag ev (ch_ctx st))"

definition iv_due :: "int \<Rightarrow> int \<Rightarrow> 'c chan \<Rightarrow> bool" where
  "iv_due T V st \<longleftrightarrow> V \<noteq> 0 \<and> V < ch_np st + T"

definition ch_iv :: "'c chan \<Rightarrow> bytes" where
  "ch_iv st = the (ch_ivs st 0)"

definition ch_rekey :: "'c evp \<Rightarrow> EncryptionParams \<Rightarrow> 'c chan \<Rightarrow> 'c chan" where
  "ch_rekey ev P st = st\<lparr>ch_ctx := ch_start ev P (ch_iv st), ch_np := 0, ch_ivs := (\<lambda>n. ch_ivs st (Suc n))\<rparr>"

text \<open>What is put before the next byte.\<close>

definition ch_boundary :: "'c evp \<Rightarrow> EncryptionParams \<Rightarrow> int \<Rightarrow> int \<Rightarrow> 'c chan \<Rightarrow> bytes \<times> 'c chan" where
  "ch_boundary ev P T V st =
     (if \<not> tag_due T (ch_total st) then ([], st)
      else if iv_due T V st then (ch_tag ev st @ ch_iv st, ch_rekey ev P st)
      else (ch_tag ev st, st))"

definition ch_feed :: "'c evp \<Rightarrow> bytes \<Rightarrow> 'c chan \<Rightarrow> bytes \<times> 'c chan" where
  "ch_feed ev p st =
     (let (x, c) = the (ev_enc_update ev (ch_ctx st) p)
      in (x, st\<lparr>ch_ctx := c, ch_total := ch_total st + int (length p), ch_np := ch_np st + int (length p)\<rparr>))"

fun ch_stream :: "'c evp \<Rightarrow> EncryptionParams \<Rightarrow> int \<Rightarrow> int \<Rightarrow> bytes \<Rightarrow> 'c chan \<Rightarrow> bytes \<times> 'c chan" where
  "ch_stream ev P T V [] st = ([], st)"
| "ch_stream ev P T V (b # bs) st =
     (let (w1, st1) = ch_boundary ev P T V st; (w2, st2) = ch_feed ev [b] st1; (w3, st3) = ch_stream ev P T V bs st2
      in (w1 @ w2 @ w3, st3))"

definition ch_ok :: "('c \<Rightarrow> 'c \<Rightarrow> bool) \<Rightarrow> 'c chan \<Rightarrow> bool" where
  "ch_ok R st \<longleftrightarrow> (\<exists>d. R (ch_ctx st) d) \<and> ivs_ok (ch_ivs st) \<and> 0 \<le> ch_total st"

lemma evp_update:
  assumes "evp_ok ev R" "R c d"
  obtains x c' d' where "ev_enc_update ev c p = Some (x, c')" "length x = length p" "ev_dec_update ev d x = Some (p, d')" "R c' d'"
  using assms unfolding evp_ok_def by meson

lemma evp_append:
  assumes "evp_ok ev R" "R c d" "ev_enc_update ev c p = Some (x, c')" "ev_enc_update ev c' q = Some (y, c'')"
  shows "ev_enc_update ev c (p @ q) = Some (x @ y, c'')"
  using assms unfolding evp_ok_def by meson

lemma evp_simps:
  assumes "evp_ok ev R" "R c d"
  shows "ev_enc_update ev c [] = Some ([], c)" "ev_enc_final ev c" "ev_dec_final ev d None" "ev_copy ev c = Some c" "ev_copy ev d = Some d"
  using assms unfolding evp_ok_def by meson+

lemma evp_tag:
  assumes "evp_ok ev R" "R c d"
  obtains tag where "ev_get_tag ev c = Some tag" "length tag = 16" "ev_dec_final ev d (Some tag)"
  using assms unfolding evp_ok_def by meson

lemma evp_start:
  assumes "evp_ok ev R" "key_params_ok P" "length iv = 16"
  obtains d where "ev_enc_init ev (ep_type P) (bytes_of (ep_data P)) iv = Some (ch_start ev P iv)"
    "ev_dec_init ev (ep_type P) (bytes_of (ep_data P)) iv = Some d" "R (ch_start ev P iv) d"
proof -
  have "length (bytes_of (ep_data P)) = 16" "has_cipher (ep_type P)" using assms(2) by (simp_all add: key_params_ok_def)
  then obtain c d where "ev_enc_init ev (ep_type P) (bytes_of (ep_data P)) iv = Some c"
    "ev_dec_init ev (ep_type P) (bytes_of (ep_data P)) iv = Some d" "R c d"
    using assms(1,3) unfolding evp_ok_def by meson
  then show ?thesis using that by (simp add: ch_start_def)
qed

lemma ivs_okD: "ivs_ok (ch_ivs st) \<Longrightarrow> ch_ivs st 0 = Some (ch_iv st) \<and> length (ch_iv st) = 16"
  unfolding ivs_ok_def ch_iv_def by (metis option.sel)

lemma ivs_ok_Suc: "ivs_ok ivs \<Longrightarrow> ivs_ok (\<lambda>n. ivs (Suc n))"
  by (simp add: ivs_ok_def)

lemma ch_feed_ok:
  assumes "evp_ok ev R" "ch_ok R st"
  shows "ch_ok R (snd (ch_feed ev p st))" "length (fst (ch_feed ev p st)) = length p"
    "ch_total (snd (ch_feed ev p st)) = ch_total st + int (length p)" "ch_np (snd (ch_feed ev p st)) = ch_np st + int (length p)"
    "ch_ivs (snd (ch_feed ev p st)) = ch_ivs st"
    "ev_enc_update ev (ch_ctx st) p = Some (fst (ch_feed ev p st), ch_ctx (snd (ch_feed ev p st)))"
proof -
  obtain d where d: "R (ch_ctx st) d" using assms(2) by (auto simp: ch_ok_def)
  obtain x c' d' where "ev_enc_update ev (ch_ctx st) p = Some (x, c')" "length x = length p" "R c' d'"
    by (rule evp_update [OF assms(1) d, of p])
  then show "ch_ok R (snd (ch_feed ev p st))" "length (fst (ch_feed ev p st)) = length p"
    "ch_total (snd (ch_feed ev p st)) = ch_total st + int (length p)" "ch_np (snd (ch_feed ev p st)) = ch_np st + int (length p)"
    "ch_ivs (snd (ch_feed ev p st)) = ch_ivs st"
    "ev_enc_update ev (ch_ctx st) p = Some (fst (ch_feed ev p st), ch_ctx (snd (ch_feed ev p st)))"
    using assms(2) by (auto simp: ch_feed_def ch_ok_def)
qed

lemma ch_feed_append:
  assumes "evp_ok ev R" "ch_ok R st"
  shows "ch_feed ev (p @ q) st =
    (fst (ch_feed ev p st) @ fst (ch_feed ev q (snd (ch_feed ev p st))), snd (ch_feed ev q (snd (ch_feed ev p st))))"
proof -
  note 1 = ch_feed_ok [OF assms, of p]
  note 2 = ch_feed_ok [OF assms(1) 1(1), of q]
  obtain d where d: "R (ch_ctx st) d" using assms(2) by (auto simp: ch_ok_def)
  have "ev_enc_update ev (ch_ctx st) (p @ q) = Some (fst (ch_feed ev p st) @ fst (ch_feed ev q (snd (ch_feed ev p st))),
      ch_ctx (snd (ch_feed ev q (snd (ch_feed ev p st)))))"
    by (rule evp_append [OF assms(1) d 1(6) 2(6)])
  then show ?thesis using 1 2 unfolding ch_feed_def [of ev "p @ q" st] by (auto intro!: chan.equality)
qed

lemma ch_feed_Nil: "evp_ok ev R \<Longrightarrow> ch_ok R st \<Longrightarrow> ch_feed ev [] st = ([], st)"
  by (auto simp: ch_feed_def ch_ok_def evp_simps)

lemma ch_boundary_ok:
  assumes "evp_ok ev R" "key_params_ok P" "ch_ok R st"
  shows "ch_ok R (snd (ch_boundary ev P T V st))" "ch_total (snd (ch_boundary ev P T V st)) = ch_total st"
proof -
  obtain d where "R (ch_start ev P (ch_iv st)) d"
    using evp_start [OF assms(1,2)] assms(3) ivs_okD [of st] by (metis ch_ok_def)
  then show "ch_ok R (snd (ch_boundary ev P T V st))" "ch_total (snd (ch_boundary ev P T V st)) = ch_total st"
    using assms(3) by (auto simp: ch_boundary_def ch_rekey_def ch_ok_def ivs_ok_Suc)
qed

lemma ch_stream_append:
  "ch_stream ev P T V (p @ q) st =
     (fst (ch_stream ev P T V p st) @ fst (ch_stream ev P T V q (snd (ch_stream ev P T V p st))),
      snd (ch_stream ev P T V q (snd (ch_stream ev P T V p st))))"
  by (induction p arbitrary: st) (simp_all add: Let_def case_prod_unfold)

lemma ch_stream_take_drop:
  "ch_stream ev P T V p st =
     (fst (ch_stream ev P T V (take n p) st) @ fst (ch_stream ev P T V (drop n p) (snd (ch_stream ev P T V (take n p) st))),
      snd (ch_stream ev P T V (drop n p) (snd (ch_stream ev P T V (take n p) st))))"
  using ch_stream_append [of ev P T V "take n p" "drop n p" st] by simp

text \<open>Up to the next tag the stream is one call of the cipher.\<close>

lemma ch_stream_segment:
  assumes ev: "evp_ok ev R" "key_params_ok P" and "ch_ok R st" "p \<noteq> []"
    and "\<And>i. 0 < i \<Longrightarrow> i < int (length p) \<Longrightarrow> \<not> tag_due T (ch_total st + i)"
  shows "ch_stream ev P T V p st =
    (fst (ch_boundary ev P T V st) @ fst (ch_feed ev p (snd (ch_boundary ev P T V st))), snd (ch_feed ev p (snd (ch_boundary ev P T V st))))"
  using assms(3-)
proof (induction p arbitrary: st)
  case (Cons b bs)
  let ?st1 = "snd (ch_boundary ev P T V st)"
  let ?st2 = "snd (ch_feed ev [b] ?st1)"
  note 1 = ch_boundary_ok [OF ev Cons.prems(1), of T V]
  note 2 = ch_feed_ok [OF ev(1) 1(1), of "[b]"]
  have app: "ch_feed ev (b # bs) ?st1 = (fst (ch_feed ev [b] ?st1) @ fst (ch_feed ev bs ?st2), snd (ch_feed ev bs ?st2))"
    using ch_feed_append [OF ev(1) 1(1), of "[b]" bs] by simp
  show ?case
  proof (cases "bs = []")
    case True
    then show ?thesis by (simp add: Let_def split: prod.splits)
  next
    case False
    have nd: "\<not> tag_due T (ch_total ?st2 + i)" if "0 \<le> i" "i < int (length bs)" for i
      using Cons.prems(3) [of "1 + i"] that 1 2 by (simp add: add.assoc)
    then have "ch_boundary ev P T V ?st2 = ([], ?st2)" using False nd [of 0] by (simp add: ch_boundary_def)
    then have "ch_stream ev P T V bs ?st2 = (fst (ch_feed ev bs ?st2), snd (ch_feed ev bs ?st2))"
      using Cons.IH [OF 2(1) False] nd by simp
    then show ?thesis by (simp add: app Let_def case_prod_unfold)
  qed
qed simp

text \<open>Where the next tag is.\<close>

lemma offset_range: "0 < T \<Longrightarrow> 0 \<le> computeNextTagOffset n T \<and> computeNextTagOffset n T \<le> T"
  by (auto simp: computeNextTagOffset_def Let_def less_imp_le)

lemma no_tag_before:
  assumes "0 < T" "0 \<le> n" "0 \<le> i" "i < computeNextTagOffset n T"
  shows "\<not> tag_due T (n + i)"
proof (cases "n = 0")
  case True
  then show ?thesis using assms by (auto simp: computeNextTagOffset_def tag_due_def)
next
  case False
  have ne: "n mod T \<noteq> 0" "i < T - n mod T" using assms False by (auto simp: computeNextTagOffset_def Let_def split: if_splits)
  then have m: "0 < n mod T" "i < T - n mod T" using pos_mod_sign [OF assms(1), of n] by linarith+
  then have "(n mod T + i) mod T = n mod T + i" using assms by (simp add: mod_pos_pos_trivial)
  then have "(n + i) mod T = n mod T + i" by (simp add: mod_add_left_eq)
  then show ?thesis using m assms by (simp add: tag_due_def)
qed

lemma tag_at_offset:
  assumes "0 < T" "0 \<le> n"
  shows "tag_due T (n + computeNextTagOffset n T)"
proof (cases "n mod T = 0")
  case True
  then show ?thesis using assms by (auto simp: computeNextTagOffset_def tag_due_def)
next
  case False
  then have "n + computeNextTagOffset n T = T * (n div T) + T"
    by (auto simp: computeNextTagOffset_def Let_def minus_mod_eq_mult_div [symmetric])
  moreover have "0 \<le> T * (n div T)" using assms by (simp add: pos_imp_zdiv_nonneg_iff)
  ultimately show ?thesis using assms by (simp add: tag_due_def)
qed

lemma no_tag_after: "tag_due T n \<Longrightarrow> 0 < i \<Longrightarrow> i < T \<Longrightarrow> \<not> tag_due T (n + i)"
  unfolding tag_due_def by (metis add.left_neutral mod_add_left_eq mod_pos_pos_trivial less_imp_le order_less_irrefl)

section \<open>Writing produces the stream\<close>

definition writer_core :: "EncryptionParams \<Rightarrow> int \<Rightarrow> int \<Rightarrow> 'c chan \<Rightarrow> 'c WdtSocket \<Rightarrow> bool" where
  "writer_core P T V st s \<longleftrightarrow>
     sk_params s = P \<and> sk_ivChangeInterval s = V \<and> sk_writeTagInterval s = T \<and> sk_encryptionSettingsWritten s \<and>
     sk_writeErrorCode s = OK \<and> good_calls (sk_writes s) \<and> ae_started (sk_encryptor s) \<and>
     ae_type (sk_encryptor s) = ep_type P \<and> ae_ctx (sk_encryptor s) = Some (ch_ctx st) \<and>
     ae_numProcessed (sk_encryptor s) = ch_np st \<and> sk_ivs s = ch_ivs st"

definition writer_at :: "EncryptionParams \<Rightarrow> int \<Rightarrow> int \<Rightarrow> 'c chan \<Rightarrow> 'c WdtSocket \<Rightarrow> bool" where
  "writer_at P T V st s \<longleftrightarrow> writer_core P T V st s \<and> (0 < T \<longrightarrow> sk_totalWritten s = ch_total st)"

text \<open>The hypotheses on cipher and parameters that all laws share; tags need GCM.\<close>

definition channel_ok :: "'c evp \<Rightarrow> ('c \<Rightarrow> 'c \<Rightarrow> bool) \<Rightarrow> EncryptionParams \<Rightarrow> int \<Rightarrow> bool" where
  "channel_ok ev R P T \<longleftrightarrow> evp_ok ev R \<and> key_params_ok P \<and> 0 \<le> T \<and> T < 2 ^ 31 \<and> (0 < T \<longrightarrow> ep_type P = 2)"

lemma channel_okD:
  assumes "channel_ok ev R P T"
  shows "evp_ok ev R" "key_params_ok P" "isSet P" "ep_data P \<noteq> []" "0 < T \<Longrightarrow> ep_type P = 2" "0 < T \<Longrightarrow> encryptionTypeToTagLen (ep_type P) = 16"
  using assms by (auto simp: channel_ok_def key_params_ok_def has_cipher_def isSet_def ENC_NONE_num_def encryptionTypeToTagLen_def kAESBlockSize_def)

lemma encryptAndWrite_feed:
  assumes ok: "channel_ok ev R P T" "ch_ok R st" and s: "writer_core P T V st s" and p: "p \<noteq> []"
  shows "\<exists>s'. encryptAndWrite ev p retry s = Ok (int (length p), s') \<and> writer_core P T V (snd (ch_feed ev p st)) s' \<and>
    sk_out s' = sk_out s @ fst (ch_feed ev p st) \<and> sk_totalWritten s' = sk_totalWritten s"
proof -
  note f = ch_feed_ok [OF channel_okD(1) [OF ok(1)] ok(2), of p]
  let ?a = "sk_encryptor s\<lparr>ae_ctx := Some (ch_ctx (snd (ch_feed ev p st))), ae_numProcessed := ae_numProcessed (sk_encryptor s) + int (length p)\<rparr>"
  have enc: "aes_encrypt ev p (sk_encryptor s) = Ok (Some (fst (ch_feed ev p st)), ?a)"
    using s f(2,6) by (simp add: aes_encrypt_def aes_process_def writer_core_def)
  have "good_calls (sk_writes (s\<lparr>sk_encryptor := ?a\<rparr>))" using s by (simp add: writer_core_def)
  then obtain calls where "writeInternal (fst (ch_feed ev p st)) retry (s\<lparr>sk_encryptor := ?a\<rparr>) =
      (int (length (fst (ch_feed ev p st))), emit (fst (ch_feed ev p st)) calls (s\<lparr>sk_encryptor := ?a\<rparr>))" "good_calls calls"
    by (rule writeInternal_good)
  then show ?thesis using p s channel_okD(3) [OF ok(1)] enc f(2,4,5)
    by (auto simp: encryptAndWrite_def writer_core_def emit_def)
qed

lemma write_piece_feed:
  assumes ok: "channel_ok ev R P T" "ch_ok R st" and s: "writer_core P T V st s" "sk_totalWritten s = ch_total st" and p: "p \<noteq> []"
  shows "\<exists>s'. write_piece ev p retry s = Ok (True, s') \<and> writer_at P T V (snd (ch_feed ev p st)) s' \<and>
    sk_out s' = sk_out s @ fst (ch_feed ev p st)"
proof -
  obtain s' where "encryptAndWrite ev p retry s = Ok (int (length p), s')" "writer_core P T V (snd (ch_feed ev p st)) s'"
    "sk_out s' = sk_out s @ fst (ch_feed ev p st)" "sk_totalWritten s' = sk_totalWritten s"
    using encryptAndWrite_feed [OF ok s(1) p] by blast
  then show ?thesis using s(2) ch_feed_ok(3) [OF channel_okD(1) [OF ok(1)] ok(2), of p]
    by (auto simp: write_piece_def add_totalWritten_def writer_at_def writer_core_def)
qed

lemma write_tag:
  assumes ok: "channel_ok ev R P T" "ch_ok R st" "0 < T" and s: "writer_core P T V st s"
  shows "\<exists>calls. writeEncryptionTag ev s = Ok (True, emit (ch_tag ev st) calls s) \<and> good_calls calls"
proof -
  note ev = channel_okD [OF ok(1)]
  obtain d where d: "R (ch_ctx st) d" using ok(2) by (auto simp: ch_ok_def)
  obtain tag where tag: "ev_get_tag ev (ch_ctx st) = Some tag" "length tag = 16" by (rule evp_tag [OF ev(1) d])
  have "computeCurrentTag ev (sk_encryptor s) = Ok (ch_tag ev st)"
    using s ev(6) [OF ok(3)] tag evp_simps [OF ev(1) d]
    by (simp add: computeCurrentTag_def cloneCtx_def encryptor_finishInternal_def ch_tag_def writer_core_def)
  moreover have "good_calls (sk_writes s)" using s by (simp add: writer_core_def)
  then obtain calls where "writeInternal (ch_tag ev st) False s = (int (length (ch_tag ev st)), emit (ch_tag ev st) calls s)" "good_calls calls"
    by (rule writeInternal_good)
  moreover have "ch_tag ev st \<noteq> []" using tag by (auto simp: ch_tag_def)
  ultimately show ?thesis by (auto simp: writeEncryptionTag_def)
qed

lemma change_iv:
  assumes ok: "channel_ok ev R P T" "ch_ok R st" and s: "writer_core P T V st s" and due: "iv_due T V st"
  shows "\<exists>s'. checkAndChangeEncryptionIv ev s = Ok (True, s') \<and> writer_core P T V (ch_rekey ev P st) s' \<and>
    sk_out s' = sk_out s @ ch_iv st \<and> sk_totalWritten s' = sk_totalWritten s"
proof -
  note ev = channel_okD [OF ok(1)]
  have iv: "sk_ivs s 0 = Some (ch_iv st)" "length (ch_iv st) = 16" using ok(2) s ivs_okD [of st] by (auto simp: ch_ok_def writer_core_def)
  obtain d where c: "ev_enc_init ev (ep_type P) (bytes_of (ep_data P)) (ch_iv st) = Some (ch_start ev P (ch_iv st))"
    by (rule evp_start [OF ev(1,2) iv(2)])
  let ?a = "newAes\<lparr>ae_type := ep_type P, ae_ctx := Some (ch_start ev P (ch_iv st)), ae_started := True\<rparr>"
  let ?s1 = "s\<lparr>sk_encryptor := ?a, sk_ivs := (\<lambda>n. sk_ivs s (Suc n))\<rparr>"
  have "start_encryptor ev (s\<lparr>sk_encryptor := newAes\<rparr>) = Ok (Some (ch_iv st), ?s1)"
    using s iv c ev(2) by (simp add: start_encryptor_def encryptor_start_def newAes_def writer_core_def key_params_ok_def kAESBlockSize_def)
  moreover have "good_calls (sk_writes ?s1)" using s by (simp add: writer_core_def)
  then obtain calls where "writeInternal (ch_iv st) False ?s1 = (int (length (ch_iv st)), emit (ch_iv st) calls ?s1)" "good_calls calls"
    by (rule writeInternal_good)
  ultimately show ?thesis using s due iv(2)
    by (auto simp: checkAndChangeEncryptionIv_def writer_core_def iv_due_def emit_def ch_rekey_def newAes_def kAESBlockSize_def)
qed

lemma write_boundary:
  assumes ok: "channel_ok ev R P T" "ch_ok R st" and s: "writer_at P T V st s" and due: "tag_due T (ch_total st)"
  shows "\<exists>s'. write_tag_and_iv ev s = Ok (True, s') \<and> writer_at P T V (snd (ch_boundary ev P T V st)) s' \<and>
    sk_out s' = sk_out s @ fst (ch_boundary ev P T V st)"
proof -
  have T: "0 < T" and m: "sk_totalWritten s mod sk_writeTagInterval s = 0"
    using due s by (auto simp: tag_due_def writer_at_def writer_core_def)
  have core: "writer_core P T V st s" using s by (simp add: writer_at_def)
  obtain calls where w: "writeEncryptionTag ev s = Ok (True, emit (ch_tag ev st) calls s)" and g: "good_calls calls"
    using write_tag [OF ok T core] by blast
  have core1: "writer_core P T V st (emit (ch_tag ev st) calls s)" using core g by (simp add: writer_core_def emit_def)
  show ?thesis
  proof (cases "iv_due T V st")
    case True
    then obtain s' where "checkAndChangeEncryptionIv ev (emit (ch_tag ev st) calls s) = Ok (True, s')"
      "writer_core P T V (ch_rekey ev P st) s'" "sk_out s' = sk_out (emit (ch_tag ev st) calls s) @ ch_iv st"
      "sk_totalWritten s' = sk_totalWritten (emit (ch_tag ev st) calls s)"
      using change_iv [OF ok core1] by blast
    then show ?thesis using True due w m s
      by (simp add: write_tag_and_iv_def ch_boundary_def writer_at_def emit_def ch_rekey_def)
  next
    case False
    then have "checkAndChangeEncryptionIv ev (emit (ch_tag ev st) calls s) = Ok (True, emit (ch_tag ev st) calls s)"
      using core1 by (auto simp: checkAndChangeEncryptionIv_def iv_due_def writer_core_def)
    then show ?thesis using False due w m s core1
      by (simp add: write_tag_and_iv_def ch_boundary_def writer_at_def) (simp add: emit_def)
  qed
qed

text \<open>Data behind a tag, and data that reaches at most to the next tag.\<close>

lemma write_after_tag:
  assumes ok: "channel_ok ev R P T" "ch_ok R st" and s: "writer_at P T V st s" and due: "tag_due T (ch_total st)"
    and p: "p \<noteq> []" "int (length p) \<le> T"
  shows "\<exists>s1 s2. write_tag_and_iv ev s = Ok (True, s1) \<and> write_piece ev p retry s1 = Ok (True, s2) \<and>
    writer_at P T V (snd (ch_stream ev P T V p st)) s2 \<and> sk_out s2 = sk_out s @ fst (ch_stream ev P T V p st) \<and>
    ch_ok R (snd (ch_stream ev P T V p st))"
proof -
  note ev = channel_okD(1,2) [OF ok(1)]
  note b = ch_boundary_ok [OF ev ok(2), of T V]
  have T: "0 < T" using due by (simp add: tag_due_def)
  obtain s1 where s1: "write_tag_and_iv ev s = Ok (True, s1)" "writer_at P T V (snd (ch_boundary ev P T V st)) s1"
    "sk_out s1 = sk_out s @ fst (ch_boundary ev P T V st)"
    using write_boundary [OF ok s due] by blast
  have core: "writer_core P T V (snd (ch_boundary ev P T V st)) s1" "sk_totalWritten s1 = ch_total (snd (ch_boundary ev P T V st))"
    using s1(2) T by (auto simp: writer_at_def)
  obtain s2 where s2: "write_piece ev p retry s1 = Ok (True, s2)"
    "writer_at P T V (snd (ch_feed ev p (snd (ch_boundary ev P T V st)))) s2"
    "sk_out s2 = sk_out s1 @ fst (ch_feed ev p (snd (ch_boundary ev P T V st)))"
    using write_piece_feed [OF ok(1) b(1) core p(1)] by blast
  have "ch_stream ev P T V p st = (fst (ch_boundary ev P T V st) @ fst (ch_feed ev p (snd (ch_boundary ev P T V st))),
      snd (ch_feed ev p (snd (ch_boundary ev P T V st))))"
    using p(2) no_tag_after [OF due] by (intro ch_stream_segment [OF ev ok(2) p(1)]) auto
  then show ?thesis using s1(1,3) s2 ch_feed_ok(1) [OF ev(1) b(1)] by simp
qed

lemma ch_stream_before_tag:
  assumes ev: "evp_ok ev R" "key_params_ok P" "ch_ok R st" "0 < T" and "int (length p) \<le> computeNextTagOffset (ch_total st) T"
  shows "ch_stream ev P T V p st = ch_feed ev p st"
proof (cases "p = []")
  case False
  have nd: "\<not> tag_due T (ch_total st + i)" if "0 \<le> i" "i < int (length p)" for i
    using no_tag_before [OF ev(4) _ that(1)] assms(3,5) that(2) by (simp add: ch_ok_def)
  then have "ch_boundary ev P T V st = ([], st)" using False nd [of 0] by (simp add: ch_boundary_def)
  then show ?thesis using ch_stream_segment [OF ev(1-3) False, of T V] nd by simp
qed (simp add: ch_feed_Nil [OF ev(1,3)])

lemma encryptAndWriteWithTag_stream:
  assumes ok: "channel_ok ev R P T" "ch_ok R st" "0 < T" and s: "writer_at P T V st s" and p: "p \<noteq> []" "int (length p) \<le> T"
  shows "\<exists>s'. encryptAndWriteWithTag ev p retry s = Ok (int (length p), s') \<and>
    writer_at P T V (snd (ch_stream ev P T V p st)) s' \<and> sk_out s' = sk_out s @ fst (ch_stream ev P T V p st) \<and>
    ch_ok R (snd (ch_stream ev P T V p st))"
proof -
  note ev = channel_okD(1,2) [OF ok(1)]
  define n where "n = nat (computeNextTagOffset (ch_total st) T)"
  have off: "computeNextTagOffset (sk_totalWritten s) (sk_writeTagInterval s) = int n" "computeNextTagOffset (ch_total st) T = int n"
    using s ok(3) offset_range [OF ok(3), of "ch_total st"] by (auto simp: n_def writer_at_def writer_core_def)
  have T: "sk_writeTagInterval s = T" using s by (auto simp: writer_at_def writer_core_def)
  have seg: "ch_stream ev P T V q st = ch_feed ev q st" if "length q \<le> n" for q
    using ch_stream_before_tag [OF ev ok(2,3)] off(2) that by simp
  have core: "writer_core P T V st s" "sk_totalWritten s = ch_total st" using s ok(3) by (auto simp: writer_at_def)
  have piece: "\<exists>s1. (if length q = 0 then Ok (True, s) else write_piece ev q retry s) = Ok (True, s1) \<and>
      writer_at P T V (snd (ch_stream ev P T V q st)) s1 \<and> sk_out s1 = sk_out s @ fst (ch_stream ev P T V q st)" if "length q \<le> n" for q
    using write_piece_feed [OF ok(1,2) core, of q retry] seg [OF that] s ch_feed_Nil [OF ev(1) ok(2)] by (cases "q = []") auto
  have st1: "ch_ok R (snd (ch_stream ev P T V q st))" "ch_total (snd (ch_stream ev P T V q st)) = ch_total st + int (length q)"
    if "length q \<le> n" for q using ch_feed_ok(1,3) [OF ev(1) ok(2), of q] seg [OF that] by simp_all
  show ?thesis
  proof (cases "n < length p")
    case False
    then show ?thesis using piece [of p] st1 [of p] p ok(3) T off(1) by (auto simp: encryptAndWriteWithTag_def Let_def)
  next
    case True
    let ?st1 = "snd (ch_stream ev P T V (take n p) st)"
    have len: "length (take n p) = n" using True by simp
    then obtain s1 where s1: "(if n = 0 then Ok (True, s) else write_piece ev (take n p) retry s) = Ok (True, s1)"
      "writer_at P T V ?st1 s1" "sk_out s1 = sk_out s @ fst (ch_stream ev P T V (take n p) st)" using piece [of "take n p"] by auto
    have "tag_due T (ch_total ?st1)"
      using tag_at_offset [OF ok(3), of "ch_total st"] ok(2) off(2) st1(2) [of "take n p"] len by (simp add: ch_ok_def)
    moreover have "drop n p \<noteq> []" "int (length (drop n p)) \<le> T" using True p by auto
    ultimately obtain s2 s3 where "write_tag_and_iv ev s1 = Ok (True, s2)" "write_piece ev (drop n p) retry s2 = Ok (True, s3)"
      "writer_at P T V (snd (ch_stream ev P T V (drop n p) ?st1)) s3" "sk_out s3 = sk_out s1 @ fst (ch_stream ev P T V (drop n p) ?st1)"
      "ch_ok R (snd (ch_stream ev P T V (drop n p) ?st1))"
      using write_after_tag [OF ok(1) st1(1) s1(2)] len by (metis order_refl)
    moreover from this(1,2) have "encryptAndWriteWithTag ev p retry s = Ok (int (length p), s3)"
      using True T p ok(3) off(1) s1(1) by (simp add: encryptAndWriteWithTag_def Let_def)
    ultimately show ?thesis using s1(3) unfolding ch_stream_take_drop [of ev P T V p st n] by simp
  qed
qed

lemma write_tagged_stream:
  "channel_ok ev R P T \<Longrightarrow> ch_ok R st \<Longrightarrow> 0 < T \<Longrightarrow> writer_at P T V st s \<Longrightarrow>
   \<exists>s'. write_tagged ev p retry s = Ok (int (length p), s') \<and> writer_at P T V (snd (ch_stream ev P T V p st)) s' \<and>
     sk_out s' = sk_out s @ fst (ch_stream ev P T V p st) \<and> ch_ok R (snd (ch_stream ev P T V p st))"
proof (induction p arbitrary: st s rule: length_induct)
  case (1 p)
  show ?case
  proof (cases "p = []")
    case True
    then show ?thesis using 1 by (simp add: write_tagged.simps)
  next
    case False
    define n where "n = nat (min (int (length p)) T)"
    have T: "sk_writeTagInterval s = T" using 1 by (simp add: writer_at_def writer_core_def)
    have n: "0 < n" "n \<le> length p" "int n \<le> T" using False 1(4) by (auto simp: n_def)
    have piece: "take n p \<noteq> []" "int (length (take n p)) \<le> T" using n False by auto
    obtain s1 where s1: "encryptAndWriteWithTag ev (take n p) retry s = Ok (int n, s1)"
      "writer_at P T V (snd (ch_stream ev P T V (take n p) st)) s1" "sk_out s1 = sk_out s @ fst (ch_stream ev P T V (take n p) st)"
      "ch_ok R (snd (ch_stream ev P T V (take n p) st))"
      using encryptAndWriteWithTag_stream [OF 1(2,3,4,5) piece] n by auto
    have "length (drop n p) < length p" using n by simp
    then obtain s2 where s2: "write_tagged ev (drop n p) retry s1 = Ok (int (length (drop n p)), s2)"
      "writer_at P T V (snd (ch_stream ev P T V (drop n p) (snd (ch_stream ev P T V (take n p) st)))) s2"
      "sk_out s2 = sk_out s1 @ fst (ch_stream ev P T V (drop n p) (snd (ch_stream ev P T V (take n p) st)))"
      "ch_ok R (snd (ch_stream ev P T V (drop n p) (snd (ch_stream ev P T V (take n p) st))))"
      using 1(1) 1(2) s1(4) 1(4) s1(2) by blast
    have "write_tagged ev p retry s = Ok (int (length p), s2)"
      using False n s1(1) s2(1) T by (subst write_tagged.simps) (simp add: n_def [symmetric] Let_def)
    then show ?thesis using s1(3) s2 unfolding ch_stream_take_drop [of ev P T V p st n] by simp
  qed
qed

subsection \<open>Encryption settings\<close>

definition settings_wire :: "EncryptionParams \<Rightarrow> int \<Rightarrow> bytes \<Rightarrow> bytes" where
  "settings_wire P T iv = cmd_byte ENCRYPTION_CMD # wire_encryption (ep_type P, string_of iv, T)"

lemma one_is_small [simp]: "\<not> 128 \<le> (1 :: u64)"
  by (simp add: word_le_nat_alt)

lemma settings_codec:
  assumes "channel_ok ev R P T" "length iv = 16"
  shows "ok_encryption (ep_type P, string_of iv, T)" "length (wire_encryption (ep_type P, string_of iv, T)) = 22"
proof -
  have ty: "ep_type P = 1 \<or> ep_type P = 2" and T: "0 \<le> T" "T < 2 ^ 31"
    using assms(1) by (auto simp: channel_ok_def key_params_ok_def has_cipher_def)
  then show "ok_encryption (ep_type P, string_of iv, T)"
    using assms(2) by (auto simp: ok_encryption_def nonneg_i64_def nonneg_i32_def short_string_def)
  have "length (wire_u (ep_type P)) = 1" using ty by (auto simp: wire_u_def varint_small)
  moreover have "length (wire_str (string_of iv)) = 17" using assms(2) by (simp add: wire_str_def varint_small)
  ultimately show "length (wire_encryption (ep_type P, string_of iv, T)) = 22" by (simp add: wire_encryption_def)
qed

lemma encodeVarU64_single:
  assumes "\<not> 128 \<le> v" "0 \<le> off" "off < sz"
  shows "encodeVarU64 v sz d off = (Ok (), d[nat off := ucast v], off + 1)"
  using assms by (simp add: encodeVarU64_def encodeVarU64_loop.simps Let_def)

text \<open>The size given to the encoder is one larger than the buffer; what is written fits.\<close>

lemma encode_settings:
  assumes ok: "channel_ok ev R P T" "length iv = 16" and d: "length d = 23"
  shows "encodeEncryptionSettings (ep_type P, string_of iv, T) (1 + kEncryptionCmdLen) d 1 =
    (Ok (), write_at 1 (wire_encryption (ep_type P, string_of iv, T)) d, 23)"
proof -
  let ?x = "(ep_type P, string_of iv, T)"
  have ty: "ep_type P = 1 \<or> ep_type P = 2" using ok(1) by (auto simp: channel_ok_def key_params_ok_def has_cipher_def)
  have "encodeEncryptionSettings ?x sz d 1 = (case encodeVarU64 (word_of_int (ep_type P)) 23 d 1 of (r, d1, off1) \<Rightarrow>
      (Ok (), write_at 19 (le_bytes 4 T) (write_at 3 iv ((d[1 := ucast (word_of_int (ep_type P) :: u64)])[2 := 16])), 23))"
    if "23 \<le> sz" for sz
    using ty ok(2) that
    by (auto simp: encodeEncryptionSettings_def enc_seq_def encodeVarI64C_def encodeString_def encodeVarU64_single
        encodeRaw_def encodeInt32FixedLength_def encodeIntFixedLength_def enc_skip_def)
  then have "encodeEncryptionSettings ?x 24 d 1 = encodeEncryptionSettings ?x 23 d 1" by simp
  moreover have "enc_spec (encodeEncryptionSettings ?x) (wire_encryption ?x)"
    by (rule encryption.enc_wire [OF settings_codec(1) [OF ok]])
  then have "encodeEncryptionSettings ?x 23 d 1 = (Ok (), write_at 1 (wire_encryption ?x) d, 23)"
    using enc_spec_fits [of _ "wire_encryption ?x" 23 d 1] settings_codec(2) [OF ok] d by (simp add: in_buffer_def)
  ultimately show ?thesis by (simp add: kEncryptionCmdLen_def kAESBlockSize_def)
qed

definition fresh_writer :: "EncryptionParams \<Rightarrow> int \<Rightarrow> int \<Rightarrow> 'c WdtSocket \<Rightarrow> bool" where
  "fresh_writer P T V s \<longleftrightarrow>
     sk_params s = P \<and> sk_ivChangeInterval s = V \<and> sk_writeTagInterval s = T \<and> \<not> sk_encryptionSettingsWritten s \<and>
     sk_writeErrorCode s = OK \<and> good_calls (sk_writes s) \<and> sk_encryptor s = newAes \<and> sk_totalWritten s = 0 \<and>
     length (sk_buf s) = 23 \<and> ivs_ok (sk_ivs s)"

definition first_iv :: "(nat \<Rightarrow> bytes option) \<Rightarrow> bytes" where
  "first_iv ivs = the (ivs 0)"

definition start_chan :: "'c evp \<Rightarrow> EncryptionParams \<Rightarrow> (nat \<Rightarrow> bytes option) \<Rightarrow> 'c chan" where
  "start_chan ev P ivs = \<lparr>ch_ctx = ch_start ev P (first_iv ivs), ch_total = 0, ch_np = 0, ch_ivs = (\<lambda>n. ivs (Suc n))\<rparr>"

lemma first_iv_ok: "ivs_ok ivs \<Longrightarrow> ivs 0 = Some (first_iv ivs) \<and> length (first_iv ivs) = 16"
  unfolding ivs_ok_def first_iv_def by (metis option.sel)

lemma start_chan_ok:
  assumes "evp_ok ev R" "key_params_ok P" "ivs_ok ivs"
  shows "ch_ok R (start_chan ev P ivs)"
proof -
  obtain d where "R (ch_start ev P (first_iv ivs)) d" using evp_start [OF assms(1,2)] first_iv_ok [OF assms(3)] by metis
  then show ?thesis using assms(3) by (auto simp: ch_ok_def start_chan_def ivs_ok_Suc)
qed

text \<open>What reading and what writing depends on; the buffer, which both use, by its size.\<close>

definition read_side ::
  "'c WdtSocket \<Rightarrow> EncryptionParams \<times> int \<times> int \<times> bool \<times> ErrorCode \<times> net_calls \<times> 'c aes \<times> int \<times> bytes \<times> nat" where
  "read_side s = (sk_params s, sk_ivChangeInterval s, sk_readTagInterval s, sk_encryptionSettingsRead s, sk_readErrorCode s,
     sk_reads s, sk_decryptor s, sk_totalRead s, sk_in s, length (sk_buf s))"

definition write_side ::
  "'c WdtSocket \<Rightarrow> EncryptionParams \<times> int \<times> int \<times> bool \<times> ErrorCode \<times> net_calls \<times> 'c aes \<times> int \<times> (nat \<Rightarrow> bytes option) \<times> nat" where
  "write_side s = (sk_params s, sk_ivChangeInterval s, sk_writeTagInterval s, sk_encryptionSettingsWritten s, sk_writeErrorCode s,
     sk_writes s, sk_encryptor s, sk_totalWritten s, sk_ivs s, length (sk_buf s))"

lemma write_settings:
  assumes ok: "channel_ok ev R P T" and s: "fresh_writer P T V s"
  shows "\<exists>s'. writeEncryptionSettingsOnce ev s = Ok s' \<and> writer_at P T V (start_chan ev P (sk_ivs s)) s' \<and>
    sk_out s' = sk_out s @ settings_wire P T (first_iv (sk_ivs s)) \<and> read_side s' = read_side s"
proof -
  note ev = channel_okD [OF ok]
  let ?iv = "first_iv (sk_ivs s)" and ?a = "newAes\<lparr>ae_type := ep_type P, ae_ctx := Some (ch_start ev P (first_iv (sk_ivs s))), ae_started := True\<rparr>"
  let ?s1 = "s\<lparr>sk_encryptor := ?a, sk_ivs := (\<lambda>n. sk_ivs s (Suc n))\<rparr>"
  have iv: "sk_ivs s 0 = Some ?iv" "length ?iv = 16" using s first_iv_ok by (auto simp: fresh_writer_def)
  have "ev_enc_init ev (ep_type P) (bytes_of (ep_data P)) ?iv = Some (ch_start ev P ?iv)"
    by (rule evp_start [OF ev(1,2) iv(2)])
  then have start: "start_encryptor ev s = Ok (Some ?iv, ?s1)"
    using s iv ev(2) by (simp add: start_encryptor_def encryptor_start_def newAes_def fresh_writer_def key_params_ok_def kAESBlockSize_def)
  let ?buf = "write_at 1 (wire_encryption (ep_type P, string_of ?iv, T)) ((sk_buf s)[0 := cmd_byte ENCRYPTION_CMD])"
  have len: "length (sk_buf s) = 23" using s by (simp add: fresh_writer_def)
  have enc: "encodeEncryptionSettings (ep_type P, string_of ?iv, T) (1 + kEncryptionCmdLen) ((sk_buf s)[0 := cmd_byte ENCRYPTION_CMD]) 1 = (Ok (), ?buf, 23)"
    by (rule encode_settings [OF ok iv(2)]) (simp add: len)
  have out: "take 23 ?buf = settings_wire P T ?iv"
    using settings_codec(2) [OF ok iv(2)] len by (cases "sk_buf s") (auto simp: write_at_def settings_wire_def)
  have "good_calls (sk_writes (?s1\<lparr>sk_buf := ?buf\<rparr>))" using s by (simp add: fresh_writer_def)
  then obtain calls where "writeInternal (settings_wire P T ?iv) False (?s1\<lparr>sk_buf := ?buf\<rparr>) =
      (int (length (settings_wire P T ?iv)), emit (settings_wire P T ?iv) calls (?s1\<lparr>sk_buf := ?buf\<rparr>))" "good_calls calls"
    by (rule writeInternal_good)
  moreover have "int (length (settings_wire P T ?iv)) = 23" using settings_codec(2) [OF ok iv(2)] by (simp add: settings_wire_def)
  moreover have "isSet (sk_params s)" "ep_data (sk_params s) \<noteq> []" using ev(3,4) s by (simp_all add: fresh_writer_def)
  moreover have "length ?buf = 23" using settings_codec(2) [OF ok iv(2)] len by simp
  ultimately show ?thesis using s start enc out
    by (auto simp: read_side_def writeEncryptionSettingsOnce_def fresh_writer_def writer_at_def writer_core_def emit_def start_chan_def newAes_def)
qed

lemma ch_stream_untagged:
  assumes "evp_ok ev R" "key_params_ok P" "ch_ok R st" "\<not> 0 < T"
  shows "ch_stream ev P T V p st = ch_feed ev p st"
proof (cases "p = []")
  case False
  then show ?thesis using ch_stream_segment [OF assms(1-3) False, of T V] assms(4) by (simp add: ch_boundary_def tag_due_def)
qed (simp add: ch_feed_Nil [OF assms(1,3)])

lemma sock_write_stream:
  assumes ok: "channel_ok ev R P T" "ch_ok R st" and s: "writer_at P T V st s" and p: "p \<noteq> []"
  shows "\<exists>s'. sock_write ev p retry s = Ok (int (length p), s') \<and> writer_at P T V (snd (ch_stream ev P T V p st)) s' \<and>
    sk_out s' = sk_out s @ fst (ch_stream ev P T V p st) \<and> ch_ok R (snd (ch_stream ev P T V p st))"
proof -
  note ev = channel_okD [OF ok(1)]
  have core: "writer_core P T V st s" using s by (simp add: writer_at_def)
  have start: "sock_write ev p retry s = (if T \<le> 0 then encryptAndWrite ev p retry s else write_tagged ev p retry s)"
    using core p ev(3) by (simp add: sock_write_def writeEncryptionSettingsOnce_def writer_core_def)
  show ?thesis
  proof (cases "0 < T")
    case True
    then show ?thesis using write_tagged_stream [OF ok True s] start by simp
  next
    case False
    then show ?thesis
      using encryptAndWrite_feed [OF ok core p, of retry] start ch_stream_untagged [OF ev(1,2) ok(2) False] ch_feed_ok(1) [OF ev(1) ok(2)]
      by (auto simp: writer_at_def)
  qed
qed

section \<open>Reading takes the stream apart\<close>

definition reader_core :: "('c \<Rightarrow> 'c \<Rightarrow> bool) \<Rightarrow> EncryptionParams \<Rightarrow> int \<Rightarrow> int \<Rightarrow> 'c chan \<Rightarrow> 'c WdtSocket \<Rightarrow> bool" where
  "reader_core R P T V st s \<longleftrightarrow>
     sk_params s = P \<and> sk_ivChangeInterval s = V \<and> sk_readTagInterval s = T \<and> sk_encryptionSettingsRead s \<and>
     sk_readErrorCode s = OK \<and> good_calls (sk_reads s) \<and> ae_started (sk_decryptor s) \<and>
     ae_type (sk_decryptor s) = ep_type P \<and> (\<exists>d. ae_ctx (sk_decryptor s) = Some d \<and> R (ch_ctx st) d) \<and>
     ae_numProcessed (sk_decryptor s) = ch_np st"

definition reader_at :: "('c \<Rightarrow> 'c \<Rightarrow> bool) \<Rightarrow> EncryptionParams \<Rightarrow> int \<Rightarrow> int \<Rightarrow> 'c chan \<Rightarrow> 'c WdtSocket \<Rightarrow> bool" where
  "reader_at R P T V st s \<longleftrightarrow> reader_core R P T V st s \<and> (0 < T \<longrightarrow> sk_totalRead s = ch_total st)"

text \<open>A request that can be answered from \<open>p\<close> and what follows it on the wire.\<close>

definition request_fits :: "nat \<Rightarrow> bool \<Rightarrow> bytes \<Rightarrow> bytes \<Rightarrow> bool" where
  "request_fits n tryFull p rest \<longleftrightarrow> 0 < n \<and> p \<noteq> [] \<and> (n \<le> length p \<or> rest = [] \<and> \<not> tryFull)"

lemma readAndDecrypt_feed:
  assumes ok: "channel_ok ev R P T" "ch_ok R st" and s: "reader_core R P T V st s"
    and wire: "sk_in s = fst (ch_feed ev p st) @ rest" and fits: "request_fits n tryFull p rest"
  shows "\<exists>k s'. readAndDecrypt ev (int n) tryFull s = Ok ((int k, take k p), s') \<and> 0 < k \<and> k \<le> n \<and> k \<le> length p \<and> (tryFull \<longrightarrow> k = n) \<and>
    reader_core R P T V (snd (ch_feed ev (take k p) st)) s' \<and> sk_in s = fst (ch_feed ev (take k p) st) @ sk_in s' \<and>
    sk_totalRead s' = sk_totalRead s"
proof -
  note ev = channel_okD [OF ok(1)]
  let ?x = "fst (ch_feed ev p st)"
  have len: "length ?x = length p" by (rule ch_feed_ok(2) [OF ev(1) ok(2)])
  have "good_calls (sk_reads s)" "0 < n" "sk_in s \<noteq> []" "tryFull \<longrightarrow> n \<le> length (sk_in s)"
    using s fits wire len by (auto simp: reader_core_def request_fits_def)
  then obtain k calls where rd: "readInternal n tryFull s = ((int k, take k (sk_in s)), advance_in k calls s)"
    and k: "good_calls calls" "0 < k" "k \<le> n" "k \<le> length (sk_in s)" "tryFull \<longrightarrow> k = n"
    by (rule readInternal_good)
  have kp: "k \<le> length p" using fits k wire len by (auto simp: request_fits_def)
  have "ch_feed ev (take k p @ drop k p) st = (fst (ch_feed ev (take k p) st) @ fst (ch_feed ev (drop k p) (snd (ch_feed ev (take k p) st))),
      snd (ch_feed ev (drop k p) (snd (ch_feed ev (take k p) st))))"
    by (rule ch_feed_append [OF ev(1) ok(2)])
  then have "?x = fst (ch_feed ev (take k p) st) @ fst (ch_feed ev (drop k p) (snd (ch_feed ev (take k p) st)))" by simp
  moreover have "length (fst (ch_feed ev (take k p) st)) = k" using ch_feed_ok(2) [OF ev(1) ok(2), of "take k p"] kp by simp
  ultimately have x: "take k (sk_in s) = fst (ch_feed ev (take k p) st)" using wire by simp
  obtain d where d: "ae_ctx (sk_decryptor s) = Some d" "R (ch_ctx st) d" using s by (auto simp: reader_core_def)
  obtain x1 c1 d' where u: "ev_enc_update ev (ch_ctx st) (take k p) = Some (x1, c1)" "ev_dec_update ev d x1 = Some (take k p, d')" "R c1 d'"
    by (rule evp_update [OF ev(1) d(2)])
  then have dec: "ev_dec_update ev d (fst (ch_feed ev (take k p) st)) = Some (take k p, d')"
    "R (ch_ctx (snd (ch_feed ev (take k p) st))) d'"
    using ch_feed_ok(6) [OF ev(1) ok(2), of "take k p"] by simp_all
  have f: "length (fst (ch_feed ev (take k p) st)) = k" "ch_np (snd (ch_feed ev (take k p) st)) = ch_np st + int k"
    using ch_feed_ok(2,4) [OF ev(1) ok(2), of "take k p"] kp by simp_all
  let ?a = "sk_decryptor s\<lparr>ae_ctx := Some d', ae_numProcessed := ae_numProcessed (sk_decryptor s) + int k\<rparr>"
  have "aes_decrypt ev (take k (sk_in s)) (sk_decryptor (advance_in k calls s)) = Ok (Some (take k p), ?a)"
    using s d(1) dec(1) f(1) kp unfolding x by (simp add: aes_decrypt_def aes_process_def reader_core_def advance_in_def)
  then have "readAndDecrypt ev (int n) tryFull s = Ok ((int k, take k p), (advance_in k calls s)\<lparr>sk_decryptor := ?a\<rparr>)"
    using rd k(2,3) ev(3) s by (simp add: readAndDecrypt_def reader_core_def)
  moreover have "sk_in s = fst (ch_feed ev (take k p) st) @ drop k (sk_in s)" using x by (metis append_take_drop_id)
  ultimately show ?thesis using k kp s dec(2) f(2) by (auto simp: reader_core_def advance_in_def)
qed

lemma read_new_iv:
  assumes ok: "channel_ok ev R P T" "ch_ok R st" "0 < T" and s: "reader_core R P T V st s" and due: "iv_due T V st"
    and wire: "sk_in s = ch_iv st @ rest"
  shows "\<exists>s'. checkAndChangeDecryptionIv ev (ch_tag ev st) s = Ok (True, s') \<and> reader_core R P T V (ch_rekey ev P st) s' \<and>
    sk_in s' = rest \<and> sk_totalRead s' = sk_totalRead s"
proof -
  note ev = channel_okD [OF ok(1)]
  have iv: "length (ch_iv st) = 16" using ok(2) ivs_okD [of st] by (simp add: ch_ok_def)
  obtain d where d: "ae_ctx (sk_decryptor s) = Some d" "R (ch_ctx st) d" using s by (auto simp: reader_core_def)
  obtain tag where tag: "ev_get_tag ev (ch_ctx st) = Some tag" "length tag = 16" "ev_dec_final ev d (Some tag)" by (rule evp_tag [OF ev(1) d(2)])
  obtain d2 where d2: "ev_dec_init ev (ep_type P) (bytes_of (ep_data P)) (ch_iv st) = Some d2" "R (ch_start ev P (ch_iv st)) d2"
    by (rule evp_start [OF ev(1,2) iv])
  have "good_calls (sk_reads s)" using s by (simp add: reader_core_def)
  then obtain calls where rd: "readInternal 16 True s = ((int 16, ch_iv st), advance_in 16 calls s)" "good_calls calls"
    using wire iv by (metis readInternal_exact zero_less_numeral)
  have "decryptor_finish ev (ch_tag ev st) (sk_decryptor (advance_in 16 calls s)) = (True, sk_decryptor s\<lparr>ae_started := False\<rparr>)"
    using s d ev(6) [OF ok(3)] tag
    by (simp add: decryptor_finish_def decryptor_finishInternal_def reader_core_def advance_in_def ch_tag_def)
  moreover have "decryptor_start ev P (ch_iv st) newAes = Ok (True, newAes\<lparr>ae_type := ep_type P, ae_ctx := Some d2, ae_started := True\<rparr>)"
    using d2(1) iv ev(2) by (simp add: decryptor_start_def newAes_def key_params_ok_def kAESBlockSize_def)
  ultimately have "checkAndChangeDecryptionIv ev (ch_tag ev st) s = Ok (True, (advance_in 16 calls s)\<lparr>sk_decryptor :=
      newAes\<lparr>ae_type := ep_type P, ae_ctx := Some d2, ae_started := True\<rparr>\<rparr>)"
    using due rd(1) s by (simp add: checkAndChangeDecryptionIv_def iv_due_def reader_core_def advance_in_def kAESBlockSize_def)
  then show ?thesis using s rd(2) iv wire d2(2) by (simp add: ch_rekey_def reader_core_def advance_in_def newAes_def)
qed

lemma read_boundary:
  assumes ok: "channel_ok ev R P T" "ch_ok R st" and s: "reader_at R P T V st s" and due: "tag_due T (ch_total st)"
    and wire: "sk_in s = fst (ch_boundary ev P T V st) @ rest"
  shows "\<exists>s'. read_tag_and_iv ev s = Ok (True, s') \<and> reader_at R P T V (snd (ch_boundary ev P T V st)) s' \<and> sk_in s' = rest"
proof -
  note ev = channel_okD [OF ok(1)]
  have T: "0 < T" and m: "sk_totalRead s mod sk_readTagInterval s = 0" and total: "sk_totalRead s = ch_total st"
    using due s by (auto simp: tag_due_def reader_at_def reader_core_def)
  have core: "reader_core R P T V st s" using s by (simp add: reader_at_def)
  obtain d where d: "ae_ctx (sk_decryptor s) = Some d" "R (ch_ctx st) d" using core by (auto simp: reader_core_def)
  obtain tag where tag: "ev_get_tag ev (ch_ctx st) = Some tag" "length tag = 16" "ev_dec_final ev d (Some tag)" by (rule evp_tag [OF ev(1) d(2)])
  have tg: "ch_tag ev st = tag" "tag \<noteq> []" using tag by (auto simp: ch_tag_def)
  obtain w where w: "sk_in s = tag @ w" "w = (if iv_due T V st then ch_iv st @ rest else rest)"
    using wire due tg(1) by (auto simp: ch_boundary_def split: if_splits)
  have "good_calls (sk_reads s)" using core by (simp add: reader_core_def)
  then obtain calls where rd: "readInternal 16 True s = ((int 16, tag), advance_in 16 calls s)" "good_calls calls"
    using w(1) tag(2) by (metis readInternal_exact zero_less_numeral)
  let ?s1 = "(advance_in 16 calls s)\<lparr>sk_verified := Suc (sk_verified s)\<rparr>"
  have rt: "readEncryptionTag s = (tag, advance_in 16 calls s)"
    using rd(1) ev(6) [OF T] core by (simp add: readEncryptionTag_def reader_core_def)
  have vt: "verifyTag ev tag (sk_decryptor (advance_in 16 calls s)) = Ok True"
    using core d ev(5) [OF T] ev(6) [OF T] tag evp_simps(5) [OF ev(1) d(2)]
    by (simp add: verifyTag_def cloneCtx_def decryptor_finishInternal_def reader_core_def advance_in_def)
  have red: "read_tag_and_iv ev s = outcome_bind (checkAndChangeDecryptionIv ev tag ?s1) (\<lambda>(changed, s3).
      if \<not> changed then Ok (False, read_error ENCRYPTION_ERROR s3) else Ok (True, s3))"
    using m rt vt tg(2) by (simp add: read_tag_and_iv_def advance_in_def)
  have s1: "reader_core R P T V st ?s1" "sk_in ?s1 = w" "sk_totalRead ?s1 = ch_total st"
    using core rd(2) w(1) tag(2) total by (simp_all add: reader_core_def advance_in_def)
  show ?thesis
  proof (cases "iv_due T V st")
    case False
    then have "checkAndChangeDecryptionIv ev tag ?s1 = Ok (True, ?s1)"
      using core by (auto simp: checkAndChangeDecryptionIv_def iv_due_def reader_core_def advance_in_def)
    then show ?thesis using red False w(2) s1 due by (simp add: ch_boundary_def reader_at_def)
  next
    case True
    then obtain s2 where "checkAndChangeDecryptionIv ev tag ?s1 = Ok (True, s2)" "reader_core R P T V (ch_rekey ev P st) s2"
      "sk_in s2 = rest" "sk_totalRead s2 = ch_total st"
      using read_new_iv [OF ok T s1(1) True, of rest] s1(2,3) w(2) tg(1) by auto
    then show ?thesis using red True due by (simp add: ch_boundary_def reader_at_def ch_rekey_def)
  qed
qed

text \<open>What a read of \<open>k\<close> bytes leaves: the reader is behind the first \<open>k\<close> bytes of the stream.\<close>

definition read_ok ::
  "'c evp \<Rightarrow> ('c \<Rightarrow> 'c \<Rightarrow> bool) \<Rightarrow> EncryptionParams \<Rightarrow> int \<Rightarrow> int \<Rightarrow> bytes \<Rightarrow> 'c chan \<Rightarrow> 'c WdtSocket \<Rightarrow> nat \<Rightarrow> 'c WdtSocket \<Rightarrow> bool" where
  "read_ok ev R P T V p st s k s' \<longleftrightarrow> 0 < k \<and> k \<le> length p \<and>
     reader_at R P T V (snd (ch_stream ev P T V (take k p) st)) s' \<and>
     sk_in s = fst (ch_stream ev P T V (take k p) st) @ sk_in s'"

lemma read_rest_feed:
  assumes ok: "channel_ok ev R P T" "ch_ok R st" "0 < T" and s: "reader_at R P T V st s"
    and wire: "sk_in s = fst (ch_feed ev p st) @ rest" and fits: "request_fits n tryFull p rest"
  shows "\<exists>k s'. read_rest ev (int (length got) + int n) tryFull got s = Ok ((int (length got) + int k, got @ take k p), s') \<and>
    0 < k \<and> k \<le> n \<and> k \<le> length p \<and> (tryFull \<longrightarrow> k = n) \<and> reader_at R P T V (snd (ch_feed ev (take k p) st)) s' \<and>
    sk_in s = fst (ch_feed ev (take k p) st) @ sk_in s'"
proof -
  have core: "reader_core R P T V st s" using s by (simp add: reader_at_def)
  obtain k s' where r: "readAndDecrypt ev (int n) tryFull s = Ok ((int k, take k p), s')" and k: "0 < k" "k \<le> n" "k \<le> length p" "tryFull \<longrightarrow> k = n"
    and s': "reader_core R P T V (snd (ch_feed ev (take k p) st)) s'" "sk_in s = fst (ch_feed ev (take k p) st) @ sk_in s'"
      "sk_totalRead s' = sk_totalRead s"
    using readAndDecrypt_feed [OF ok(1,2) core wire fits] by blast
  have "ch_total (snd (ch_feed ev (take k p) st)) = ch_total st + int k"
    using ch_feed_ok(3) [OF channel_okD(1) [OF ok(1)] ok(2), of "take k p"] k(3) by simp
  then have "reader_at R P T V (snd (ch_feed ev (take k p) st)) (add_totalRead (int k) s')"
    using s s' ok(3) by (simp add: reader_at_def reader_core_def add_totalRead_def)
  moreover have "read_rest ev (int (length got) + int n) tryFull got s = Ok ((int (length got) + int k, got @ take k p), add_totalRead (int k) s')"
    using r k(1) by (simp add: read_rest_def)
  moreover have "sk_in (add_totalRead (int k) s') = sk_in s'" by (simp add: add_totalRead_def)
  ultimately show ?thesis using k s'(2) by metis
qed

lemma tag_then_rest_stream:
  assumes ok: "channel_ok ev R P T" "ch_ok R st" and s: "reader_at R P T V st s" and due: "tag_due T (ch_total st)"
    and wire: "sk_in s = fst (ch_stream ev P T V p st) @ rest" and fits: "request_fits n tryFull p rest" and n: "int n \<le> T"
  shows "\<exists>k s'. tag_then_rest ev (int (length got) + int n) tryFull got s = Ok ((int (length got) + int k, got @ take k p), s') \<and>
    k \<le> n \<and> (tryFull \<longrightarrow> k = n) \<and> read_ok ev R P T V p st s k s'"
proof -
  note ev = channel_okD(1,2) [OF ok(1)]
  note b = ch_boundary_ok [OF ev ok(2), of T V]
  let ?b = "ch_boundary ev P T V st" and ?q = "take (nat T) p"
  let ?rest = "fst (ch_stream ev P T V (drop (nat T) p) (snd (ch_stream ev P T V ?q st))) @ rest"
  have T: "0 < T" using due by (simp add: tag_due_def)
  have seg: "ch_stream ev P T V (take j p) st = (fst ?b @ fst (ch_feed ev (take j p) (snd ?b)), snd (ch_feed ev (take j p) (snd ?b)))"
    if "0 < j" "int j \<le> T" "p \<noteq> []" for j
    using that no_tag_after [OF due] by (intro ch_stream_segment [OF ev ok(2)]) (auto simp: min_def split: if_splits)
  have pne: "p \<noteq> []" using fits by (simp add: request_fits_def)
  have "sk_in s = fst ?b @ fst (ch_feed ev ?q (snd ?b)) @ ?rest"
    using wire ch_stream_take_drop [of ev P T V p st "nat T"] seg [of "nat T"] T pne by simp
  then obtain s1 where s1: "read_tag_and_iv ev s = Ok (True, s1)" "reader_at R P T V (snd ?b) s1" "sk_in s1 = fst (ch_feed ev ?q (snd ?b)) @ ?rest"
    using read_boundary [OF ok s due] by blast
  have "request_fits n tryFull ?q ?rest" using fits n T by (cases "n \<le> length p") (auto simp: request_fits_def)
  then obtain k s2 where s2: "read_rest ev (int (length got) + int n) tryFull got s1 = Ok ((int (length got) + int k, got @ take k ?q), s2)"
    "0 < k" "k \<le> n" "k \<le> length ?q" "tryFull \<longrightarrow> k = n" "reader_at R P T V (snd (ch_feed ev (take k ?q) (snd ?b))) s2"
    "sk_in s1 = fst (ch_feed ev (take k ?q) (snd ?b)) @ sk_in s2"
    using read_rest_feed [OF ok(1) b(1) T s1(2,3)] by blast
  have k: "take k ?q = take k p" "int k \<le> T" using s2(3) n by (auto simp: min_def)
  have "sk_in s = fst ?b @ sk_in s1" using \<open>sk_in s = fst ?b @ _\<close> s1(3) by simp
  then have "read_ok ev R P T V p st s k s2" using s2 k seg [OF s2(2) k(2) pne] by (simp add: read_ok_def)
  then show ?thesis using s1(1) s2(1,3,5) k(1) by (auto simp: tag_then_rest_def)
qed

text \<open>A read that wants more than has been sent must not stop exactly before a tag.\<close>

definition not_at_tag :: "int \<Rightarrow> nat \<Rightarrow> bytes \<Rightarrow> 'c chan \<Rightarrow> bool" where
  "not_at_tag T n p st \<longleftrightarrow> (length p < n \<longrightarrow> int (length p) \<noteq> computeNextTagOffset (ch_total st) T)"

lemma readAndDecryptWithTag_stream:
  assumes ok: "channel_ok ev R P T" "ch_ok R st" "0 < T" and s: "reader_at R P T V st s"
    and wire: "sk_in s = fst (ch_stream ev P T V p st) @ rest" and fits: "request_fits n tryFull p rest" "int n \<le> T" "not_at_tag T n p st"
  shows "\<exists>k s'. readAndDecryptWithTag ev (int n) tryFull s = Ok ((int k, take k p), s') \<and> k \<le> n \<and> (tryFull \<longrightarrow> k = n) \<and>
    read_ok ev R P T V p st s k s'"
proof -
  note ev = channel_okD(1,2) [OF ok(1)]
  define m where "m = nat (computeNextTagOffset (ch_total st) T)"
  have off: "computeNextTagOffset (sk_totalRead s) (sk_readTagInterval s) = int m" "computeNextTagOffset (ch_total st) T = int m"
    and T: "sk_readTagInterval s = T"
    using s ok(3) offset_range [OF ok(3), of "ch_total st"] by (auto simp: m_def reader_at_def reader_core_def)
  have seg: "ch_stream ev P T V q st = ch_feed ev q st" if "length q \<le> m" for q
    using ch_stream_before_tag [OF ev ok(2,3)] off(2) that by simp
  let ?st1 = "snd (ch_stream ev P T V (take m p) st)" and ?rest = "fst (ch_stream ev P T V (drop m p) (snd (ch_stream ev P T V (take m p) st))) @ rest"
  have w1: "sk_in s = fst (ch_feed ev (take m p) st) @ ?rest"
    using wire seg [of "take m p"] ch_stream_take_drop [of ev P T V p st m] by simp
  have before: "read_ok ev R P T V p st s k s'"
    if "0 < k" "k \<le> length (take m p)" "reader_at R P T V (snd (ch_feed ev (take k (take m p)) st)) s'"
      "sk_in s = fst (ch_feed ev (take k (take m p)) st) @ sk_in s'" for k s'
    using that seg [of "take k p"] by (auto simp: read_ok_def min_absorb1)
  have core: "reader_core R P T V st s" using s by (simp add: reader_at_def)
  consider "n \<le> m" | "0 < m" "m < n" | "m = 0" "m < n" by linarith
  then show ?thesis
  proof cases
    case 1
    then have "request_fits n tryFull (take m p) ?rest" using fits(1) by (auto simp: request_fits_def)
    from read_rest_feed [OF ok s w1 this, of "[]"] show ?thesis
      using 1 T ok(3) fits(2) off(1) before by (fastforce simp: readAndDecryptWithTag_def Let_def)
  next
    case 3
    then have "tag_due T (ch_total st)" using tag_at_offset [OF ok(3), of "ch_total st"] ok(2) off(2) by (simp add: ch_ok_def)
    from tag_then_rest_stream [OF ok(1,2) s this wire fits(1,2), of "[]"] show ?thesis
      using 3 T ok(3) fits(2) off(1) by (auto simp: readAndDecryptWithTag_def Let_def)
  next
    case 2
    then have "request_fits m tryFull (take m p) ?rest" using fits(1) by (auto simp: request_fits_def)
    then obtain k s1 where r: "readAndDecrypt ev (int m) tryFull s = Ok ((int k, take k (take m p)), s1)"
      and k: "0 < k" "k \<le> m" "k \<le> length (take m p)" "tryFull \<longrightarrow> k = m"
      and s1: "reader_core R P T V (snd (ch_feed ev (take k (take m p)) st)) s1" "sk_in s = fst (ch_feed ev (take k (take m p)) st) @ sk_in s1"
        "sk_totalRead s1 = sk_totalRead s"
      using readAndDecrypt_feed [OF ok(1,2) core w1] by blast
    let ?s2 = "add_totalRead (int k) s1"
    have s2: "reader_at R P T V (snd (ch_feed ev (take k (take m p)) st)) ?s2" "sk_in ?s2 = sk_in s1"
      using s1 s ok(3) k(3) ch_feed_ok(3) [OF ev(1) ok(2), of "take k (take m p)"]
      by (simp_all add: reader_at_def reader_core_def add_totalRead_def)
    have step: "readAndDecryptWithTag ev (int n) tryFull s = (if k < m then Ok ((int k, take k p), ?s2)
        else tag_then_rest ev (int n) tryFull (take k p) ?s2)"
      using 2 T ok(3) fits(2) off(1) r k by (simp add: readAndDecryptWithTag_def Let_def min_absorb1)
    show ?thesis
    proof (cases "k < m")
      case True
      then have "\<not> tryFull" using k(4) by auto
      then show ?thesis using True step before [OF k(1,3) s2(1)] s1(2) s2(2) 2 by auto
    next
      case False
      then have km: "k = m" "length (take m p) = m" using k by auto
      have st1: "ch_ok R ?st1" "ch_total ?st1 = ch_total st + int m" and f: "take k (take m p) = take m p" "?st1 = snd (ch_feed ev (take m p) st)"
        using ch_feed_ok(1,3) [OF ev(1) ok(2), of "take m p"] seg [of "take m p"] km by simp_all
      have "tag_due T (ch_total ?st1)" using tag_at_offset [OF ok(3), of "ch_total st"] ok(2) off(2) st1(2) by (simp add: ch_ok_def)
      moreover have "reader_at R P T V ?st1 ?s2" "sk_in ?s2 = ?rest" using s2 s1(2) w1 f by simp_all
      moreover have "request_fits (n - m) tryFull (drop m p) rest" "int (n - m) \<le> T"
        using fits 2 km off(2) by (auto simp: request_fits_def not_at_tag_def)
      ultimately obtain j s3 where j: "tag_then_rest ev (int (length (take m p)) + int (n - m)) tryFull (take m p) ?s2 =
          Ok ((int (length (take m p)) + int j, take m p @ take j (drop m p)), s3)" "j \<le> n - m" "tryFull \<longrightarrow> j = n - m"
        "read_ok ev R P T V (drop m p) ?st1 ?s2 j s3"
        using tag_then_rest_stream [OF ok(1) st1(1)] by blast
      have sum: "take m p @ take j (drop m p) = take (m + j) p" by (simp add: take_add)
      have "int (length (take m p)) + int (n - m) = int n" using km(2) 2 by simp
      then have "readAndDecryptWithTag ev (int n) tryFull s = Ok ((int (m + j), take (m + j) p), s3)"
        using step km j(1) sum by simp
      moreover have "read_ok ev R P T V p st s (m + j) s3"
        using j(4) s2(2) s1(2) f km(2) ch_stream_append [of ev P T V "take m p" "take j (drop m p)" st] seg [of "take m p"]
        unfolding read_ok_def sum by auto
      ultimately show ?thesis using j(2,3) 2 by (intro exI [of _ "m + j"] exI [of _ s3]) auto
    qed
  qed
qed

lemma read_ok_trans:
  assumes "read_ok ev R P T V p st s k s1" "read_ok ev R P T V (drop k p) (snd (ch_stream ev P T V (take k p) st)) s1 j s2"
  shows "read_ok ev R P T V p st s (k + j) s2"
proof -
  have "take (k + j) p = take k p @ take j (drop k p)" by (simp add: take_add)
  then show ?thesis using assms ch_stream_append [of ev P T V "take k p" "take j (drop k p)" st] by (auto simp: read_ok_def)
qed

lemma ch_stream_ok:
  assumes "evp_ok ev R" "key_params_ok P"
  shows "ch_ok R st \<Longrightarrow> ch_ok R (snd (ch_stream ev P T V p st))"
proof (induction p arbitrary: st)
  case (Cons b bs)
  note 1 = ch_boundary_ok(1) [OF assms Cons.prems, of T V]
  show ?case using Cons.IH [OF ch_feed_ok(1) [OF assms(1) 1, of "[b]"]] by (simp add: Let_def case_prod_unfold)
qed simp

text \<open>What is on the wire behind a read.\<close>

lemma read_ok_wire:
  assumes "read_ok ev R P T V p st s k s'" "sk_in s = fst (ch_stream ev P T V p st) @ rest"
  shows "sk_in s' = fst (ch_stream ev P T V (drop k p) (snd (ch_stream ev P T V (take k p) st))) @ rest"
  using assms ch_stream_take_drop [of ev P T V p st k] by (simp add: read_ok_def)

definition read_fits :: "int \<Rightarrow> nat \<Rightarrow> bool \<Rightarrow> bytes \<Rightarrow> bytes \<Rightarrow> 'c chan \<Rightarrow> bool" where
  "read_fits T n tryFull p rest st \<longleftrightarrow> request_fits n tryFull p rest \<and> (n \<le> length p \<or> T = 0 \<or> int n \<le> T \<and> not_at_tag T n p st)"

lemma read_tagged_stream:
  "channel_ok ev R P T \<Longrightarrow> ch_ok R st \<Longrightarrow> 0 < T \<Longrightarrow> reader_at R P T V st s \<Longrightarrow>
   sk_in s = fst (ch_stream ev P T V p st) @ rest \<Longrightarrow> read_fits T n tryFull p rest st \<Longrightarrow>
   \<exists>k s'. read_tagged ev (int n) tryFull got s = Ok ((int (length got) + int k, got @ take k p), s') \<and> k \<le> n \<and> (tryFull \<longrightarrow> k = n) \<and>
     read_ok ev R P T V p st s k s'"
proof (induction n arbitrary: st s p got rule: less_induct)
  case (less n)
  note ok = less.prems(1-4) and wire = less.prems(5)
  define m where "m = nat (min (int n) T)"
  have n: "0 < n" and m: "min (int n) (sk_readTagInterval s) = int m" "m \<le> n" "int m \<le> T" "0 < m"
    using less.prems(3,4,6) by (auto simp: m_def read_fits_def request_fits_def reader_at_def reader_core_def)
  have "request_fits m tryFull p rest" "not_at_tag T m p st"
    using less.prems(3,6) m by (auto simp: read_fits_def request_fits_def not_at_tag_def m_def min_def split: if_splits)
  then obtain k s1 where k: "readAndDecryptWithTag ev (int m) tryFull s = Ok ((int k, take k p), s1)" "k \<le> m" "tryFull \<longrightarrow> k = m"
    and r: "read_ok ev R P T V p st s k s1"
    using readAndDecryptWithTag_stream [OF ok wire _ m(3)] by blast
  have k0: "0 < k" "k \<le> length p" using r by (auto simp: read_ok_def)
  have step: "read_tagged ev (int n) tryFull got s = (if k < m then Ok ((int (length got) + int k, got @ take k p), s1)
      else read_tagged ev (int (n - k)) tryFull (got @ take k p) s1)"
    using k k0 n m(1,2) by (subst read_tagged.simps) (simp add: of_nat_diff)
  consider "k < m" | "k = m" "n = m" | "k = m" "m < n" using k(2) m(2) by linarith
  then show ?case
  proof cases
    case 1
    then show ?thesis using step k(3) r m(2) by (intro exI [of _ k] exI [of _ s1]) auto
  next
    case 2
    then show ?thesis using step r k0 by (intro exI [of _ k] exI [of _ s1]) (auto simp: read_tagged.simps)
  next
    case 3
    let ?st1 = "snd (ch_stream ev P T V (take k p) st)"
    have "n \<le> length p" using less.prems(3,6) 3 by (auto simp: read_fits_def m_def min_def split: if_splits)
    then have "read_fits T (n - k) tryFull (drop k p) rest ?st1" using 3 by (auto simp: read_fits_def request_fits_def)
    moreover have "ch_ok R ?st1" using ch_stream_ok channel_okD(1,2) [OF ok(1)] ok(2) by blast
    moreover have "reader_at R P T V ?st1 s1" using r by (simp add: read_ok_def)
    moreover have "n - k < n" using k0 n by simp
    ultimately obtain j s2 where "read_tagged ev (int (n - k)) tryFull (got @ take k p) s1 =
        Ok ((int (length (got @ take k p)) + int j, (got @ take k p) @ take j (drop k p)), s2)" "j \<le> n - k" "tryFull \<longrightarrow> j = n - k"
      "read_ok ev R P T V (drop k p) ?st1 s1 j s2"
      using less.IH [OF _ ok(1) _ ok(3)] read_ok_wire [OF r wire] by blast
    then show ?thesis using step 3 k0 read_ok_trans [OF r]
      by (intro exI [of _ "k + j"] exI [of _ s2]) (auto simp: take_add)
  qed
qed

lemma sock_read_stream:
  assumes ok: "channel_ok ev R P T" "ch_ok R st" and s: "reader_at R P T V st s"
    and wire: "sk_in s = fst (ch_stream ev P T V p st) @ rest" and fits: "read_fits T n tryFull p rest st"
  shows "\<exists>k s'. readWithTimeout ev (int n) tryFull s = Ok ((int k, take k p), s') \<and> k \<le> n \<and> (tryFull \<longrightarrow> k = n) \<and>
    read_ok ev R P T V p st s k s'"
proof -
  note ev = channel_okD [OF ok(1)]
  have core: "reader_core R P T V st s" using s by (simp add: reader_at_def)
  have "read_error OK s = s" using core by (simp add: read_error_def reader_core_def)
  then have start: "readWithTimeout ev (int n) tryFull s = (if T \<le> 0 then readAndDecrypt ev (int n) tryFull s else read_tagged ev (int n) tryFull [] s)"
    using core ev(3) fits
    by (simp add: readWithTimeout_def readEncryptionSettingsOnce_def read_body_def reader_core_def read_fits_def request_fits_def)
  show ?thesis
  proof (cases "0 < T")
    case True
    then show ?thesis using read_tagged_stream [OF ok True s wire fits, of "[]"] start by simp
  next
    case False
    note seg = ch_stream_untagged [OF ev(1,2) ok(2) False]
    have "sk_in s = fst (ch_feed ev p st) @ rest" "request_fits n tryFull p rest" using wire seg fits by (simp_all add: read_fits_def)
    from readAndDecrypt_feed [OF ok core this] show ?thesis using start False seg by (auto simp: read_ok_def reader_at_def)
  qed
qed

end
