(* ===== verification/Socket_Channel.thy ===== *)
theory Socket_Channel
  imports Socket_Laws
begin

text \<open>
  Two sockets as a channel: whatever is sent, in any pieces, is what the other side
  receives, through encryption settings, tags, changes of the initialization vector and
  the final tag. A read that has to wait exactly before a tag is the exception.
\<close>

section \<open>Sending\<close>

fun send_all :: "'c evp \<Rightarrow> bytes list \<Rightarrow> 'c WdtSocket \<Rightarrow> 'c WdtSocket outcome" where
  "send_all ev [] s = Ok s"
| "send_all ev (p # ps) s =
     outcome_bind (sock_write ev p True s) (\<lambda>(ret, s1). if ret \<noteq> int (length p) then Fail else send_all ev ps s1)"

lemma send_all_stream:
  "channel_ok ev R P T \<Longrightarrow> ch_ok R st \<Longrightarrow> writer_at P T V st s \<Longrightarrow> [] \<notin> set ps \<Longrightarrow>
   \<exists>s'. send_all ev ps s = Ok s' \<and> writer_at P T V (snd (ch_stream ev P T V (concat ps) st)) s' \<and>
     sk_out s' = sk_out s @ fst (ch_stream ev P T V (concat ps) st)"
proof (induction ps arbitrary: st s)
  case (Cons p ps)
  then obtain s1 where "sock_write ev p True s = Ok (int (length p), s1)" "writer_at P T V (snd (ch_stream ev P T V p st)) s1"
    "sk_out s1 = sk_out s @ fst (ch_stream ev P T V p st)" "ch_ok R (snd (ch_stream ev P T V p st))"
    using sock_write_stream [OF Cons.prems(1-3), of p True] by auto
  moreover from this obtain s2 where "send_all ev ps s1 = Ok s2"
    "writer_at P T V (snd (ch_stream ev P T V (concat ps) (snd (ch_stream ev P T V p st)))) s2"
    "sk_out s2 = sk_out s1 @ fst (ch_stream ev P T V (concat ps) (snd (ch_stream ev P T V p st)))"
    using Cons.IH [of "snd (ch_stream ev P T V p st)" s1] Cons.prems by auto
  ultimately show ?case by (simp add: ch_stream_append)
qed simp

lemma sock_write_fresh:
  assumes ok: "channel_ok ev R P T" and s: "fresh_writer P T V s" and p: "p \<noteq> []"
  shows "\<exists>s0. writer_at P T V (start_chan ev P (sk_ivs s)) s0 \<and> sk_out s0 = sk_out s @ settings_wire P T (first_iv (sk_ivs s)) \<and>
    sock_write ev p retry s = sock_write ev p retry s0 \<and> read_side s0 = read_side s"
proof -
  obtain s0 where s0: "writeEncryptionSettingsOnce ev s = Ok s0" "writer_at P T V (start_chan ev P (sk_ivs s)) s0"
    "sk_out s0 = sk_out s @ settings_wire P T (first_iv (sk_ivs s))" "read_side s0 = read_side s" using write_settings [OF ok s] by blast
  then have "sock_write ev p retry s = sock_write ev p retry s0"
    using p s by (simp add: sock_write_def fresh_writer_def writer_at_def writer_core_def writeEncryptionSettingsOnce_def)
  then show ?thesis using s0(2-4) by blast
qed

lemma send_all_fresh:
  assumes ok: "channel_ok ev R P T" and s: "fresh_writer P T V s" and ps: "ps \<noteq> []" "[] \<notin> set ps"
  shows "\<exists>s'. send_all ev ps s = Ok s' \<and> writer_at P T V (snd (ch_stream ev P T V (concat ps) (start_chan ev P (sk_ivs s)))) s' \<and>
    sk_out s' = sk_out s @ settings_wire P T (first_iv (sk_ivs s)) @ fst (ch_stream ev P T V (concat ps) (start_chan ev P (sk_ivs s)))"
proof -
  have st: "ch_ok R (start_chan ev P (sk_ivs s))"
    using start_chan_ok channel_okD(1,2) [OF ok] s by (auto simp: fresh_writer_def)
  obtain p qs where p: "ps = p # qs" "p \<noteq> []" using ps by (cases ps) auto
  obtain s0 where s0: "writer_at P T V (start_chan ev P (sk_ivs s)) s0" "sk_out s0 = sk_out s @ settings_wire P T (first_iv (sk_ivs s))"
    "sock_write ev p True s = sock_write ev p True s0" using sock_write_fresh [OF ok s p(2)] by blast
  then have "send_all ev ps s = send_all ev ps s0" by (simp add: p(1))
  then show ?thesis using send_all_stream [OF ok st s0(1) ps(2)] s0(2) by auto
qed

text \<open>The final tag.\<close>

definition final_tag :: "'c evp \<Rightarrow> EncryptionParams \<Rightarrow> 'c chan \<Rightarrow> bytes" where
  "final_tag ev P st = (if encryptionTypeToTagLen (ep_type P) = 0 then [] else ch_tag ev st)"

lemma shutdown_stream:
  assumes ok: "channel_ok ev R P T" "ch_ok R st" and s: "writer_at P T V st s"
  shows "\<exists>s'. shutdownWrites ev True s = (OK, s') \<and> sk_out s' = sk_out s @ final_tag ev P st"
proof -
  note ev = channel_okD [OF ok(1)]
  obtain d where d: "R (ch_ctx st) d" using ok(2) by (auto simp: ch_ok_def)
  obtain tag where tag: "ev_get_tag ev (ch_ctx st) = Some tag" "length tag = 16" by (rule evp_tag [OF ev(1) d])
  have core: "writer_core P T V st s" using s by (simp add: writer_at_def)
  let ?a = "sk_encryptor s\<lparr>ae_started := False\<rparr>"
  have fin: "encryptor_finish ev (sk_encryptor s) = ((True, final_tag ev P st), ?a)"
    using core tag evp_simps(2) [OF ev(1) d]
    by (simp add: encryptor_finish_def encryptor_finishInternal_def writer_core_def final_tag_def ch_tag_def)
  have "good_calls (sk_writes (s\<lparr>sk_encryptor := ?a\<rparr>))" using core by (simp add: writer_core_def)
  then obtain calls where "writeInternal (final_tag ev P st) False (s\<lparr>sk_encryptor := ?a\<rparr>) =
      (int (length (final_tag ev P st)), emit (final_tag ev P st) calls (s\<lparr>sk_encryptor := ?a\<rparr>))" by (rule writeInternal_good)
  then show ?thesis using fin by (cases "final_tag ev P st = []") (simp_all add: shutdownWrites_def finalizeWrites_def emit_def)
qed

section \<open>Receiving\<close>

text \<open>
  A client that wants \<open>N\<close> bytes. The plan gives the size and the mode of each read; behind the
  plan it reads all that is left.
\<close>

fun recv_all :: "'c evp \<Rightarrow> (nat \<times> bool) list \<Rightarrow> nat \<Rightarrow> 'c WdtSocket \<Rightarrow> (bytes \<times> 'c WdtSocket) outcome" where
  "recv_all ev [] N s =
     (if N = 0 then Ok ([], s)
      else outcome_bind (readWithTimeout ev (int N) True s) (\<lambda>((ret, data), s1). if ret \<noteq> int N then Fail else Ok (data, s1)))"
| "recv_all ev ((n, tryFull) # plan) N s =
     (if N = 0 then Ok ([], s)
      else outcome_bind (readWithTimeout ev (int (min (Suc n) N)) tryFull s) (\<lambda>((ret, data), s1).
             if ret \<le> 0 then Fail
             else outcome_bind (recv_all ev plan (N - nat ret) s1) (\<lambda>(data2, s2). Ok (data @ data2, s2))))"

lemma recv_all_stream:
  "channel_ok ev R P T \<Longrightarrow> ch_ok R st \<Longrightarrow> reader_at R P T V st s \<Longrightarrow> sk_in s = fst (ch_stream ev P T V p st) @ rest \<Longrightarrow>
   \<exists>s'. recv_all ev plan (length p) s = Ok (p, s') \<and> reader_at R P T V (snd (ch_stream ev P T V p st)) s' \<and> sk_in s' = rest"
proof (induction plan arbitrary: st s p)
  case Nil
  show ?case
  proof (cases "p = []")
    case True
    then show ?thesis using Nil by simp
  next
    case False
    then have "read_fits T (length p) True p rest st" by (simp add: read_fits_def request_fits_def)
    from sock_read_stream [OF Nil this] obtain k s' where k: "k = length p"
      and read: "readWithTimeout ev (int (length p)) True s = Ok ((int k, take k p), s')" and r: "read_ok ev R P T V p st s k s'" by blast
    have "sk_in s' = rest" using read_ok_wire [OF r Nil(4)] by (simp add: k)
    moreover have "reader_at R P T V (snd (ch_stream ev P T V p st)) s'" using r by (simp add: read_ok_def k)
    ultimately show ?thesis using False read by (simp add: k)
  qed
next
  case (Cons a plan)
  obtain n tryFull where a: "a = (n, tryFull)" by (cases a)
  show ?case
  proof (cases "p = []")
    case True
    then show ?thesis using Cons.prems a by simp
  next
    case False
    let ?m = "min (Suc n) (length p)"
    have "read_fits T ?m tryFull p rest st" using False by (auto simp: read_fits_def request_fits_def)
    from sock_read_stream [OF Cons.prems this] obtain k s1 where k: "readWithTimeout ev (int ?m) tryFull s = Ok ((int k, take k p), s1)"
      and r: "read_ok ev R P T V p st s k s1" by blast
    let ?st1 = "snd (ch_stream ev P T V (take k p) st)"
    have st1: "ch_ok R ?st1" using ch_stream_ok channel_okD(1,2) [OF Cons.prems(1)] Cons.prems(2) by blast
    have s1: "reader_at R P T V ?st1 s1" using r by (simp add: read_ok_def)
    obtain s2 where "recv_all ev plan (length (drop k p)) s1 = Ok (drop k p, s2)"
      "reader_at R P T V (snd (ch_stream ev P T V (drop k p) ?st1)) s2" "sk_in s2 = rest"
      using Cons.IH [OF Cons.prems(1) st1 s1 read_ok_wire [OF r Cons.prems(4)]] by blast
    moreover have "0 < k" using r by (simp add: read_ok_def)
    ultimately show ?thesis using k False a ch_stream_take_drop [of ev P T V p st k] by auto
  qed
qed

definition fresh_reader :: "EncryptionParams \<Rightarrow> int \<Rightarrow> 'c WdtSocket \<Rightarrow> bool" where
  "fresh_reader P V s \<longleftrightarrow>
     sk_params s = P \<and> sk_ivChangeInterval s = V \<and> \<not> sk_encryptionSettingsRead s \<and> sk_readErrorCode s = OK \<and>
     good_calls (sk_reads s) \<and> sk_decryptor s = newAes \<and> sk_totalRead s = 0 \<and> length (sk_buf s) = 23"

lemma read_settings_stream:
  assumes ok: "channel_ok ev R P T" and s: "fresh_reader P V s" and ivs: "ivs_ok ivs" and wire: "sk_in s = settings_wire P T (first_iv ivs) @ w"
  shows "\<exists>s'. readEncryptionSettingsOnce ev s = Ok s' \<and> reader_at R P T V (start_chan ev P ivs) s' \<and> sk_in s' = w \<and> write_side s' = write_side s"
proof -
  note ev = channel_okD [OF ok]
  let ?iv = "first_iv ivs"
  let ?x = "(ep_type P, string_of ?iv, T)"
  have iv: "length ?iv = 16" using first_iv_ok [OF ivs] by simp
  note codec = settings_codec [OF ok iv]
  have buf: "length (sk_buf s) = 23" and good: "good_calls (sk_reads s)" using s by (simp_all add: fresh_reader_def)
  obtain calls1 where r1: "readInternal 1 True s = ((int 1, [cmd_byte ENCRYPTION_CMD]), advance_in 1 calls1 s)" "good_calls calls1"
    using readInternal_exact [OF good, of 1 "[cmd_byte ENCRYPTION_CMD]" "wire_encryption ?x @ w"] wire by (auto simp: settings_wire_def)
  let ?s2 = "(advance_in 1 calls1 s)\<lparr>sk_buf := write_at 0 [cmd_byte ENCRYPTION_CMD] (sk_buf s)\<rparr>"
  have s2: "sk_in ?s2 = wire_encryption ?x @ w" "good_calls (sk_reads ?s2)" "length (sk_buf ?s2) = 23"
    using wire r1(2) buf by (simp_all add: advance_in_def settings_wire_def)
  obtain calls2 where r2: "readInternal 22 True ?s2 = ((int 22, wire_encryption ?x), advance_in 22 calls2 ?s2)" "good_calls calls2"
    using readInternal_exact [OF s2(2), of 22 "wire_encryption ?x" w] s2(1) codec(2) by auto
  let ?buf = "write_at 0 (wire_encryption ?x) (sk_buf ?s2)"
  let ?s3 = "(advance_in 22 calls2 ?s2)\<lparr>sk_buf := ?buf\<rparr>"
  have "dec_spec (\<lambda>br. (\<lambda>_. encryption_body) br br) (wire_encryption ?x) ?x" by (rule encryption.dec_wire [OF codec(1)])
  then have dec: "decodeEncryptionSettings ?buf 0 23 = (Ok ?x, 22)"
    using run_decoder_at [of 23 ?buf 0 "wire_encryption ?x" "drop 22 (sk_buf ?s2)" "\<lambda>_. encryption_body" ?x] codec(2) s2(3)
    by (simp add: decodeEncryptionSettings_def in_buffer_def write_at_def)
  obtain d where d: "ev_dec_init ev (ep_type P) (bytes_of (ep_data P)) ?iv = Some d" "R (ch_start ev P ?iv) d"
    by (rule evp_start [OF ev(1,2) iv])
  let ?a = "newAes\<lparr>ae_type := ep_type P, ae_ctx := Some d, ae_started := True\<rparr>"
  have start: "decryptor_start ev P ?iv newAes = Ok (True, ?a)"
    using d(1) iv ev(2) by (simp add: decryptor_start_def newAes_def key_params_ok_def kAESBlockSize_def)
  have T: "0 \<le> T" "\<not> (0 < T \<and> encryptionTypeToTagLen (ep_type P) = 0)" using ok ev(6) by (auto simp: channel_ok_def)
  have acc: "accept_settings ev (ep_type P) (string_of ?iv) T ?s3 =
      Ok (?s3\<lparr>sk_readTagInterval := T, sk_decryptor := ?a, sk_encryptionSettingsRead := True\<rparr>)"
    using start s T by (cases "T = 0") (simp_all add: accept_settings_def fresh_reader_def advance_in_def Let_def)
  have cmdlen: "nat (kEncryptionCmdLen - 1) = 22" "kEncryptionCmdLen = 23" by (simp_all add: kEncryptionCmdLen_def kAESBlockSize_def)
  have "read_settings ev ?s2 = Ok (?s3\<lparr>sk_readTagInterval := T, sk_decryptor := ?a, sk_encryptionSettingsRead := True\<rparr>)"
    unfolding read_settings_def cmdlen using r2(1) dec acc by (simp add: advance_in_def Let_def)
  moreover have "sk_buf ?s2 ! 0 = cmd_byte ENCRYPTION_CMD" using buf by (simp add: write_at_def nth_append)
  ultimately have "readEncryptionSettingsOnce ev s = Ok (?s3\<lparr>sk_readTagInterval := T, sk_decryptor := ?a, sk_encryptionSettingsRead := True\<rparr>)"
    using ev(3,4) s r1(1) by (simp add: readEncryptionSettingsOnce_def fresh_reader_def Let_def advance_in_def)
  moreover have "sk_in ?s3 = w" using s2(1) codec(2) by (simp add: advance_in_def)
  moreover have "length ?buf = 23" using codec(2) s2(3) by simp
  ultimately show ?thesis using s d(2) r2(2)
    by (auto simp: write_side_def reader_at_def reader_core_def fresh_reader_def advance_in_def start_chan_def newAes_def)
qed

lemma read_error_id: "sk_readErrorCode s = e \<Longrightarrow> read_error e s = s"
  by (cases s) (simp add: read_error_def)

lemma read_fresh:
  assumes "readEncryptionSettingsOnce ev s = Ok s0" "sk_readErrorCode s = OK" "reader_at R P T V st s0"
  shows "readWithTimeout ev n tryFull s = readWithTimeout ev n tryFull s0"
proof -
  have s0: "sk_readErrorCode s0 = OK" "sk_encryptionSettingsRead s0" using assms(3) by (simp_all add: reader_at_def reader_core_def)
  then have "readEncryptionSettingsOnce ev s0 = Ok s0" by (simp add: readEncryptionSettingsOnce_def)
  then show ?thesis using assms(1,2) s0(1) by (simp add: readWithTimeout_def read_error_id)
qed

lemma recv_all_fresh:
  assumes "\<And>n tryFull. readWithTimeout ev n tryFull s = readWithTimeout ev n tryFull s0" "N \<noteq> 0"
  shows "recv_all ev plan N s = recv_all ev plan N s0"
  using assms by (cases plan) auto

text \<open>The final tag is accepted.\<close>

lemma expect_end_stream:
  assumes ok: "channel_ok ev R P T" "ch_ok R st" and s: "reader_at R P T V st s" and wire: "sk_in s = final_tag ev P st"
  shows "fst (expectEndOfStream ev s) = OK"
proof -
  note ev = channel_okD [OF ok(1)]
  have core: "reader_core R P T V st s" using s by (simp add: reader_at_def)
  then obtain d where d: "ae_ctx (sk_decryptor s) = Some d" "R (ch_ctx st) d" by (auto simp: reader_core_def)
  obtain tag where tag: "ev_get_tag ev (ch_ctx st) = Some tag" "length tag = 16" "ev_dec_final ev d (Some tag)" by (rule evp_tag [OF ev(1) d(2)])
  show ?thesis
  proof (cases "encryptionTypeToTagLen (ep_type P) = 0")
    case True
    then show ?thesis using core d(1) evp_simps(3) [OF ev(1) d(2)]
      by (simp add: expectEndOfStream_def finalizeReads_def reader_core_def decryptor_finish_def decryptor_finishInternal_def)
  next
    case False
    then have len: "encryptionTypeToTagLen (ep_type P) = 16" by (simp add: encryptionTypeToTagLen_def kAESBlockSize_def split: if_splits)
    have "sk_in s = tag @ []" using wire tag(1) False by (simp add: final_tag_def ch_tag_def)
    then obtain calls where "readInternal 16 True s = ((int 16, tag), advance_in 16 calls s)"
      using readInternal_exact [of s 16 tag "[]"] core tag(2) by (auto simp: reader_core_def)
    then have "readEncryptionTag s = (tag, advance_in 16 calls s)" using core len by (simp add: readEncryptionTag_def reader_core_def)
    then show ?thesis using core d(1) tag(2,3) len
      by (auto simp: expectEndOfStream_def finalizeReads_def reader_core_def decryptor_finish_def decryptor_finishInternal_def advance_in_def)
  qed
qed

section \<open>Sockets without encryption\<close>

definition plain_socket :: "'c WdtSocket \<Rightarrow> bool" where
  "plain_socket s \<longleftrightarrow> sk_params s = noEncryption \<and> sk_readErrorCode s = OK \<and> sk_writeErrorCode s = OK \<and>
     good_calls (sk_reads s) \<and> good_calls (sk_writes s) \<and> sk_encryptor s = newAes \<and> sk_decryptor s = newAes"

lemma not_isSet_noEncryption [simp]: "\<not> isSet noEncryption"
  by (simp add: isSet_def noEncryption_def)

lemma send_all_plain:
  "plain_socket s \<Longrightarrow> [] \<notin> set ps \<Longrightarrow> \<exists>s'. send_all ev ps s = Ok s' \<and> plain_socket s' \<and> sk_out s' = sk_out s @ concat ps"
proof (induction ps arbitrary: s)
  case (Cons p ps)
  obtain calls where w: "writeInternal p True s = (int (length p), emit p calls s)" "good_calls calls"
    using writeInternal_good Cons.prems(1) by (metis plain_socket_def)
  moreover have "p \<noteq> []" using Cons.prems(2) by auto
  ultimately have "sock_write ev p True s = Ok (int (length p), emit p calls s)" "plain_socket (emit p calls s)"
    using Cons.prems(1) by (simp_all add: sock_write_def plain_socket_def writeEncryptionSettingsOnce_def emit_def)
  then show ?case using Cons.IH [of "emit p calls s"] Cons.prems(2) by (auto simp: emit_def)
qed simp

lemma read_plain:
  assumes "plain_socket s" "0 < n" "n \<le> length (sk_in s)"
  obtains k calls where "readWithTimeout ev (int n) tryFull s = Ok ((int k, take k (sk_in s)), advance_in k calls s)"
    "plain_socket (advance_in k calls s)" "0 < k" "k \<le> n" "tryFull \<longrightarrow> k = n"
proof -
  have pre: "good_calls (sk_reads s)" "sk_in s \<noteq> []" "tryFull \<longrightarrow> n \<le> length (sk_in s)"
    using assms by (auto simp: plain_socket_def)
  obtain k calls where r: "readInternal n tryFull s = ((int k, take k (sk_in s)), advance_in k calls s)" "good_calls calls"
    "0 < k" "k \<le> n" "k \<le> length (sk_in s)" "tryFull \<longrightarrow> k = n"
    by (rule readInternal_good [OF pre(1) assms(2) pre(2,3)])
  have "readWithTimeout ev (int n) tryFull s = Ok ((int k, take k (sk_in s)), advance_in k calls s)"
    using assms(1,2) r(1) by (simp add: readWithTimeout_def plain_socket_def read_error_id readEncryptionSettingsOnce_def read_body_def)
  moreover have "plain_socket (advance_in k calls s)" using assms(1) r(2) by (simp add: plain_socket_def advance_in_def)
  ultimately show ?thesis using r(3,4,6) by (rule that)
qed

lemma recv_all_plain:
  "plain_socket s \<Longrightarrow> \<exists>s'. recv_all ev plan (length (sk_in s)) s = Ok (sk_in s, s') \<and> plain_socket s' \<and> sk_in s' = []"
proof (induction plan arbitrary: s)
  case Nil
  show ?case
  proof (cases "sk_in s = []")
    case False
    then obtain k calls where "readWithTimeout ev (int (length (sk_in s))) True s = Ok ((int k, take k (sk_in s)), advance_in k calls s)"
      "plain_socket (advance_in k calls s)" "True \<longrightarrow> k = length (sk_in s)"
      using read_plain [OF Nil, of "length (sk_in s)" ev True] by auto
    then show ?thesis using False by (simp add: advance_in_def)
  qed (use Nil in simp)
next
  case (Cons a plan)
  obtain n tryFull where a: "a = (n, tryFull)" by (cases a)
  show ?case
  proof (cases "sk_in s = []")
    case False
    let ?m = "min (Suc n) (length (sk_in s))"
    have m: "0 < ?m" "?m \<le> length (sk_in s)" using False by simp_all
    obtain k calls where r: "readWithTimeout ev (int ?m) tryFull s = Ok ((int k, take k (sk_in s)), advance_in k calls s)"
      "plain_socket (advance_in k calls s)" "0 < k" "k \<le> ?m" by (rule read_plain [OF Cons.prems m])
    then obtain s' where "recv_all ev plan (length (sk_in s) - k) (advance_in k calls s) = Ok (drop k (sk_in s), s')" "plain_socket s'" "sk_in s' = []"
      using Cons.IH [OF r(2)] by (auto simp: advance_in_def)
    then show ?thesis using r(1,3) False a by simp
  qed (use Cons.prems a in simp)
qed

section \<open>The channel\<close>

definition params_ok :: "EncryptionParams \<Rightarrow> bool" where
  "params_ok P \<longleftrightarrow> P = noEncryption \<or> key_params_ok P"

definition delivers ::
  "'c evp \<Rightarrow> bytes list \<Rightarrow> (nat \<times> bool) list \<Rightarrow> 'c WdtSocket \<Rightarrow> (bytes \<Rightarrow> 'c WdtSocket) \<Rightarrow> bool" where
  "delivers ev ps plan w reader \<longleftrightarrow>
     (case send_all ev ps w of
        Ok w1 \<Rightarrow>
          (case shutdownWrites ev True w1 of
             (code, w2) \<Rightarrow>
               (case recv_all ev plan (length (concat ps)) (reader (sk_out w2)) of
                  Ok (data, r) \<Rightarrow> code = OK \<and> data = concat ps \<and> fst (expectEndOfStream ev r) = OK
                | _ \<Rightarrow> False))
      | _ \<Rightarrow> False)"

lemma delivers_encrypted:
  assumes ok: "channel_ok ev R P T" and w: "fresh_writer P T V w" "sk_out w = []" and r: "\<And>x. fresh_reader P V (reader x) \<and> sk_in (reader x) = x"
    and ps: "ps \<noteq> []" "[] \<notin> set ps"
  shows "delivers ev ps plan w reader"
proof -
  let ?st = "start_chan ev P (sk_ivs w)"
  let ?st1 = "snd (ch_stream ev P T V (concat ps) ?st)"
  note ev = channel_okD(1,2) [OF ok]
  have ivs: "ivs_ok (sk_ivs w)" using w(1) by (simp add: fresh_writer_def)
  have st: "ch_ok R ?st" by (rule start_chan_ok [OF ev ivs])
  have st1: "ch_ok R ?st1" by (rule ch_stream_ok [OF ev st])
  obtain w1 where w1: "send_all ev ps w = Ok w1" "writer_at P T V ?st1 w1"
    "sk_out w1 = settings_wire P T (first_iv (sk_ivs w)) @ fst (ch_stream ev P T V (concat ps) ?st)"
    using send_all_fresh [OF ok w(1) ps] w(2) by auto
  obtain w2 where w2: "shutdownWrites ev True w1 = (OK, w2)" "sk_out w2 = sk_out w1 @ final_tag ev P ?st1"
    using shutdown_stream [OF ok st1 w1(2)] by blast
  let ?r = "reader (sk_out w2)"
  have fresh: "fresh_reader P V ?r" and wire: "sk_in ?r = settings_wire P T (first_iv (sk_ivs w)) @ (fst (ch_stream ev P T V (concat ps) ?st) @ final_tag ev P ?st1)"
    using r w2(2) w1(3) by simp_all
  obtain r0 where r0: "readEncryptionSettingsOnce ev ?r = Ok r0" "reader_at R P T V ?st r0"
    "sk_in r0 = fst (ch_stream ev P T V (concat ps) ?st) @ final_tag ev P ?st1"
    using read_settings_stream [OF ok fresh ivs wire] by blast
  have "sk_readErrorCode ?r = OK" using fresh by (simp add: fresh_reader_def)
  note eq = recv_all_fresh [OF read_fresh [OF r0(1) this r0(2)]]
  obtain r1 where r1: "recv_all ev plan (length (concat ps)) r0 = Ok (concat ps, r1)" "reader_at R P T V ?st1 r1" "sk_in r1 = final_tag ev P ?st1"
    using recv_all_stream [OF ok st r0(2,3)] by blast
  have "length (concat ps) \<noteq> 0" using ps by (cases ps) auto
  then show ?thesis using w1(1) w2(1) eq [of "length (concat ps)" plan] r1(1) expect_end_stream [OF ok st1 r1(2,3)] by (simp add: delivers_def)
qed

lemma delivers_plain:
  assumes w: "plain_socket w" "sk_out w = []" and r: "\<And>x. plain_socket (reader x) \<and> sk_in (reader x) = x" and ps: "[] \<notin> set ps"
  shows "delivers ev ps plan w reader"
proof -
  obtain w1 where w1: "send_all ev ps w = Ok w1" "plain_socket w1" "sk_out w1 = concat ps" using send_all_plain [OF w(1) ps] w(2) by auto
  have w2: "\<exists>w2. shutdownWrites ev True w1 = (OK, w2) \<and> sk_out w2 = concat ps"
    using w1(2,3) by (simp add: shutdownWrites_def finalizeWrites_def encryptor_finish_def plain_socket_def newAes_def)
  obtain r1 where r1: "recv_all ev plan (length (concat ps)) (reader (concat ps)) = Ok (concat ps, r1)" "plain_socket r1"
    using recv_all_plain [of "reader (concat ps)" ev plan] r by auto
  then have "fst (expectEndOfStream ev r1) = OK"
    by (simp add: expectEndOfStream_def finalizeReads_def decryptor_finish_def plain_socket_def newAes_def encryptionTypeToTagLen_def
        noEncryption_def ENC_NONE_num_def)
  then show ?thesis using w1(1) w2 r1(1) by (auto simp: delivers_def)
qed

text \<open>C5: The socket layer is a reliable byte channel. Without encryption, with AES-CTR and with AES-GCM,
  for every tag interval and every interval of changes of the initialization vector, a new socket that writes any
  sequence of buffers and shuts down, and a new socket at the other end that reads in any pieces (\<open>plan\<close> gives sizes and
  modes), with any partial reads and writes of the kernel, deliver exactly the bytes written, and the end of the stream
  is accepted. The cipher is OpenSSL's, of which it is assumed that decryption inverts encryption.\<close>

theorem channel_delivers:
  assumes "evp_ok ev R" "params_ok P" "0 \<le> T" "T < 2 ^ 31" "ivs_ok ivs" "good_calls reads" "good_calls writes"
    and "length buf = 23" "length buf' = 23" "ps \<noteq> []" "[] \<notin> set ps"
  shows "delivers ev ps plan (newSocket P V T buf [] [] writes ivs) (\<lambda>wire. newSocket P V T' buf' wire reads [] ivs')"
proof (cases "P = noEncryption")
  case True
  then show ?thesis using assms
    by (intro delivers_plain) (auto simp: plain_socket_def newSocket_def)
next
  case False
  let ?T = "if encryptionTypeToTagLen (ep_type P) \<noteq> 0 then T else 0"
  have "channel_ok ev R P ?T" using assms(1-4) False
    by (auto simp: channel_ok_def params_ok_def key_params_ok_def has_cipher_def encryptionTypeToTagLen_def)
  moreover have "fresh_writer P ?T V (newSocket P V T buf [] [] writes ivs)" using assms by (simp add: fresh_writer_def newSocket_def)
  ultimately show ?thesis using assms by (intro delivers_encrypted) (auto simp: fresh_reader_def newSocket_def)
qed

text \<open>A cipher that satisfies the assumption: the context is the text so far.\<close>

definition mask_evp :: "bytes evp" where
  "mask_evp =
     \<lparr>ev_enc_init = (\<lambda>typ key iv. Some (key @ iv)), ev_dec_init = (\<lambda>typ key iv. Some (key @ iv)),
      ev_enc_update = (\<lambda>c p. Some (map (\<lambda>b. NOT b) p, c @ p)),
      ev_dec_update = (\<lambda>c x. Some (map (\<lambda>b. NOT b) x, c @ map (\<lambda>b. NOT b) x)),
      ev_copy = Some, ev_enc_final = (\<lambda>c. True), ev_get_tag = (\<lambda>c. Some (replicate 16 (sum_list c))),
      ev_dec_final = (\<lambda>c tag. case tag of None \<Rightarrow> True | Some t \<Rightarrow> t = replicate 16 (sum_list c))\<rparr>"

lemma mask_evp_ok: "evp_ok mask_evp (=)"
  by (simp add: evp_ok_def mask_evp_def comp_def)

definition gcm_params :: EncryptionParams where
  "gcm_params = \<lparr>ep_type = 2, ep_data = replicate 16 (CHR ''k'')\<rparr>"

lemma gcm_params_ok: "params_ok gcm_params" "key_params_ok gcm_params"
  by (simp_all add: params_ok_def key_params_ok_def gcm_params_def has_cipher_def)

theorem channel_delivers_witness:
  "evp_ok mask_evp (=) \<and>
   delivers mask_evp [[1, 2, 3, 4, 5], [6, 7]] [(2, False)]
     (newSocket gcm_params 4 2 (replicate 23 0) [] [] [(Net_data 3, False)] (\<lambda>n. Some (replicate 16 7)))
     (\<lambda>wire. newSocket gcm_params 4 0 (replicate 23 0) wire [(Net_data 1, False)] [] (\<lambda>n. None))"
proof -
  have "ivs_ok (\<lambda>n. Some (replicate 16 7))" by (simp add: ivs_ok_def)
  then show ?thesis
    using channel_delivers [OF mask_evp_ok gcm_params_ok(1), of 2 _ "[(Net_data 1, False)]" "[(Net_data 3, False)]"] mask_evp_ok by simp
qed

section \<open>A pause before a tag\<close>

lemma decrypt_feed:
  assumes "evp_ok ev R" "ch_ok R st" "ae_started a" "ae_ctx a = Some d" "R (ch_ctx st) d"
  shows "\<exists>d'. aes_decrypt ev (fst (ch_feed ev p st)) a = Ok (Some p, a\<lparr>ae_ctx := Some d', ae_numProcessed := ae_numProcessed a + int (length p)\<rparr>)"
proof -
  obtain x c d' where "ev_enc_update ev (ch_ctx st) p = Some (x, c)" "ev_dec_update ev d x = Some (p, d')"
    by (rule evp_update [OF assms(1,5)])
  then have "ev_dec_update ev d (fst (ch_feed ev p st)) = Some (p, d')" using ch_feed_ok(6) [OF assms(1,2), of p] by simp
  then show ?thesis using assms(3,4) ch_feed_ok(2) [OF assms(1,2), of p]
    by (intro exI [of _ d']) (simp add: aes_decrypt_def aes_process_def)
qed

lemma io_read_then_pause:
  assumes "wire \<noteq> []" "length wire \<le> k"
  shows "io_read ((Net_data k, False) # (Net_again, True) # later) tryFull (length wire) [] wire = (Io_done, wire, [], (Net_again, True) # later)"
  using assms by simp

text \<open>C40: A pause exactly before a tag loses data. The sender has written \<open>p\<close>, which ends where the next tag is due,
  and waits; the tag is written only with the next data. A read that may return less than it is asked for, but is asked
  for more than \<open>p\<close>, receives \<open>p\<close>, waits for the tag, and when this times out returns -1 with ENCRYPTION_ERROR instead of the
  bytes of \<open>p\<close>; they are not delivered by any later read, because every later read fails.\<close>

theorem pause_before_tag:
  assumes ok: "channel_ok ev R P T" "ch_ok R st" "0 < T" and s: "reader_at R P T V st s"
    and p: "p \<noteq> []" "int (length p) = computeNextTagOffset (ch_total st) T" "length p < n" "int n \<le> T" "length p \<le> k"
    and wire: "sk_in s = fst (ch_stream ev P T V p st)"
  shows "\<exists>s'. readWithTimeout ev (int n) tryFull (s\<lparr>sk_reads := (Net_data k, False) # (Net_again, True) # later\<rparr>) = Ok ((-1, []), s') \<and>
    sk_readErrorCode s' = ENCRYPTION_ERROR \<and> (\<forall>m full. 0 < m \<longrightarrow> readWithTimeout ev m full s' = Ok ((-1, []), s'))"
proof -
  note ev = channel_okD [OF ok(1)]
  let ?s = "s\<lparr>sk_reads := (Net_data k, False) # (Net_again, True) # later\<rparr>"
  have core: "reader_core R P T V st s" "sk_totalRead s = ch_total st" using s ok(3) by (simp_all add: reader_at_def)
  obtain d where d: "ae_ctx (sk_decryptor s) = Some d" "R (ch_ctx st) d" using core by (auto simp: reader_core_def)
  have feed: "sk_in s = fst (ch_feed ev p st)" "length (sk_in s) = length p"
    using wire ch_stream_before_tag [OF ev(1,2) ok(2,3)] p(2) ch_feed_ok(2) [OF ev(1) ok(2)] by simp_all
  obtain d' where dec: "aes_decrypt ev (sk_in s) (sk_decryptor s) =
      Ok (Some p, sk_decryptor s\<lparr>ae_ctx := Some d', ae_numProcessed := ae_numProcessed (sk_decryptor s) + int (length p)\<rparr>)"
    using decrypt_feed [OF ev(1) ok(2) _ d(1,2), of p] core(1) feed(1) by (auto simp: reader_core_def)
  let ?s1 = "?s\<lparr>sk_in := [], sk_reads := (Net_again, True) # later, sk_readErrorCode := OK,
      sk_decryptor := sk_decryptor s\<lparr>ae_ctx := Some d', ae_numProcessed := ae_numProcessed (sk_decryptor s) + int (length p)\<rparr>\<rparr>"
  have ne: "sk_in s \<noteq> []" using feed(2) p(1) by auto
  have "readInternal (length p) tryFull ?s = ((int (length p), sk_in s), ?s\<lparr>sk_in := [], sk_reads := (Net_again, True) # later, sk_readErrorCode := OK\<rparr>)"
    using io_read_then_pause [OF ne, of k later tryFull] feed(2) p(1,5) ne by (simp add: readInternal_def io_value_def)
  then have 1: "readAndDecrypt ev (int (length p)) tryFull ?s = Ok ((int (length p), p), ?s1)"
    using dec p(1) ev(3) core(1) by (simp add: readAndDecrypt_def reader_core_def Let_def)
  have len: "encryptionTypeToTagLen (ep_type P) = 16" by (rule ev(6) [OF ok(3)])
  let ?s2 = "(add_totalRead (int (length p)) ?s1)\<lparr>sk_reads := later, sk_readErrorCode := ENCRYPTION_ERROR\<rparr>"
  have "readEncryptionTag (add_totalRead (int (length p)) ?s1) = ([], ?s2)"
    using core(1) len by (simp add: readEncryptionTag_def readInternal_def io_value_def add_totalRead_def reader_core_def read_error_def)
  moreover have "(ch_total st + int (length p)) mod T = 0"
    using tag_at_offset [OF ok(3), of "ch_total st"] ok(2) p(2) by (simp add: tag_due_def ch_ok_def)
  ultimately have "tag_then_rest ev (int n) tryFull p (add_totalRead (int (length p)) ?s1) = Ok ((-1, []), ?s2)"
    using core by (simp add: tag_then_rest_def read_tag_and_iv_def add_totalRead_def reader_core_def)
  then have "readAndDecryptWithTag ev (int n) tryFull ?s = Ok ((-1, []), ?s2)"
    using 1 p(1,3,4) p(2) [symmetric] core ok(3) by (simp add: readAndDecryptWithTag_def reader_core_def Let_def)
  then have "read_tagged ev (int n) tryFull [] ?s = Ok ((-1, []), ?s2)"
    using p(3,4) core(1) by (simp add: read_tagged.simps reader_core_def min_def)
  then have "readWithTimeout ev (int n) tryFull ?s = Ok ((-1, []), ?s2)"
    using p(3) core(1) ok(3) ev(3) by (simp add: readWithTimeout_def reader_core_def read_error_id readEncryptionSettingsOnce_def read_body_def)
  moreover have "readWithTimeout ev m full ?s2 = Ok ((-1, []), ?s2)" if "0 < m" for m full
    using that by (simp add: readWithTimeout_def)
  ultimately show ?thesis by auto
qed

definition paused_chan :: "bytes chan" where
  "paused_chan = \<lparr>ch_ctx = [9], ch_total = 1, ch_np = 1, ch_ivs = (\<lambda>n. Some (replicate 16 7))\<rparr>"

definition paused_reader :: "bytes WdtSocket" where
  "paused_reader = (newSocket gcm_params 0 0 (replicate 23 0) (fst (ch_stream mask_evp gcm_params 2 0 [5] paused_chan)) [] [] (\<lambda>n. None))
     \<lparr>sk_encryptionSettingsRead := True, sk_readTagInterval := 2, sk_totalRead := 1,
      sk_decryptor := \<lparr>ae_type = 2, ae_ctx = Some [9], ae_started = True, ae_numProcessed = 1\<rparr>\<rparr>"

theorem pause_before_tag_witness:
  "channel_ok mask_evp (=) gcm_params 2 \<and> reader_at (=) gcm_params 2 0 paused_chan paused_reader \<and>
   (\<exists>s'. readWithTimeout mask_evp (int 2) False (paused_reader\<lparr>sk_reads := (Net_data 1, False) # (Net_again, True) # []\<rparr>) = Ok ((-1, []), s') \<and>
     sk_readErrorCode s' = ENCRYPTION_ERROR \<and> (\<forall>m full. 0 < m \<longrightarrow> readWithTimeout mask_evp m full s' = Ok ((-1, []), s')))"
proof -
  have ok: "channel_ok mask_evp (=) gcm_params 2" using mask_evp_ok gcm_params_ok(2) by (simp add: channel_ok_def gcm_params_def)
  have st: "ch_ok (=) paused_chan" by (simp add: ch_ok_def paused_chan_def ivs_ok_def)
  have s: "reader_at (=) gcm_params 2 0 paused_chan paused_reader"
    by (simp add: reader_at_def reader_core_def paused_chan_def paused_reader_def newSocket_def gcm_params_def)
  have "sk_in paused_reader = fst (ch_stream mask_evp gcm_params 2 0 [5] paused_chan)" by (simp add: paused_reader_def newSocket_def)
  moreover have "int (length [5 :: 8 word]) = computeNextTagOffset (ch_total paused_chan) 2"
    by (simp add: computeNextTagOffset_def paused_chan_def)
  ultimately show ?thesis using pause_before_tag [OF ok st _ s, of "[5]" 2 1] ok s by simp
qed

end
