(* ===== verification/File_Writer.thy ===== *)
theory File_Writer
  imports File_Creator
begin

text \<open>
  \<open>util/FileWriter\<close>: the writer of one block of a file. The file is its content, a position and
  the results of the \<open>::write\<close> calls; the results of the other system calls are fields of an
  environment. The build has \<open>sync_file_range\<close> and \<open>posix_fadvise\<close>.
\<close>

section \<open>The file\<close>

text \<open>What a call of \<open>::write\<close> does; behind the last result every call writes all it gets.\<close>

datatype write_call = Wrote nat | Interrupted | Write_failed

definition patch :: "nat \<Rightarrow> bytes \<Rightarrow> (nat \<Rightarrow> byte) \<Rightarrow> nat \<Rightarrow> byte" where
  "patch pos bs f = (\<lambda>i. if pos \<le> i \<and> i < pos + length bs then bs ! (i - pos) else f i)"

lemma patch_Nil [simp]: "patch pos [] f = f"
  by (rule ext) (auto simp: patch_def)

lemma patch_append: "patch (pos + length bs) cs (patch pos bs f) = patch pos (bs @ cs) f"
  by (rule ext) (auto simp: patch_def nth_append)

lemma patch_reads: "map (patch pos bs f) [pos ..< pos + length bs] = bs"
  by (rule nth_equalityI) (simp_all add: patch_def)

text \<open>The loop of \<open>write\<close>: whether all was written, and the position, content and results left.\<close>

fun write_file_loop :: "write_call list \<Rightarrow> nat \<Rightarrow> bytes \<Rightarrow> (nat \<Rightarrow> byte) \<Rightarrow> bool \<times> nat \<times> (nat \<Rightarrow> byte) \<times> write_call list" where
  "write_file_loop [] pos buf f = (True, pos + length buf, patch pos buf f, [])"
| "write_file_loop (c # calls) pos buf f =
     (if buf = [] then (True, pos, f, c # calls)
      else case c of
        Write_failed \<Rightarrow> (False, pos, f, calls)
      | Interrupted \<Rightarrow> write_file_loop calls pos buf f
      | Wrote k \<Rightarrow> write_file_loop calls (pos + min k (length buf)) (drop k buf) (patch pos (take k buf) f))"

section \<open>State\<close>

record writer_env =
  we_skip_writes :: bool
  we_open :: bool
  we_seek :: bool
  we_fsync_on :: bool
  we_fsync :: bool
  we_skip_fadvise :: bool
  we_fadvise :: bool
  we_close :: bool
  we_disk_sync_interval_mb :: int
  we_range :: "int \<Rightarrow> bool"
  we_range_fadvise :: "int \<Rightarrow> bool"

record FileWriter =
  fw_fd :: bool
  fw_totalWritten :: int
  fw_nextSyncOffset :: int
  fw_writtenSinceLastSync :: int
  fw_pos :: nat
  fw_file :: "nat \<Rightarrow> byte"
  fw_writes :: "write_call list"

definition newWriter :: "BlockDetails \<Rightarrow> (nat \<Rightarrow> byte) \<Rightarrow> write_call list \<Rightarrow> FileWriter" where
  "newWriter bd f calls =
     \<lparr>fw_fd = False, fw_totalWritten = 0, fw_nextSyncOffset = bd_offset bd, fw_writtenSinceLastSync = 0, fw_pos = 0,
      fw_file = f, fw_writes = calls\<rparr>"

section \<open>Operations\<close>

definition writer_close :: "writer_env \<Rightarrow> FileWriter \<Rightarrow> ErrorCode \<times> FileWriter" where
  "writer_close e w =
     (if fw_fd w then (if \<not> we_close e then FILE_WRITE_ERROR else OK, w\<lparr>fw_fd := False\<rparr>) else (OK, w))"

text \<open>\<open>Abort\<close> is the check that the creator returns no descriptor for a deleted file.\<close>

definition writer_open :: "writer_env \<Rightarrow> BlockDetails \<Rightarrow> FileWriter \<Rightarrow> (ErrorCode \<times> FileWriter) outcome" where
  "writer_open e bd w =
     (if we_skip_writes e then Ok (OK, w)
      else let w1 = w\<lparr>fw_fd := we_open e, fw_pos := 0\<rparr>
           in if bd_allocationStatus bd = TO_BE_DELETED then (if we_open e then Abort else Ok (OK, w1))
              else if we_open e \<and> bd_offset bd > 0 \<and> \<not> we_seek e then Ok (FILE_WRITE_ERROR, snd (writer_close e w1))
              else if \<not> we_open e then Ok (FILE_WRITE_ERROR, w1)
              else Ok (OK, w1\<lparr>fw_pos := nat (bd_offset bd)\<rparr>))"

definition writer_sync :: "writer_env \<Rightarrow> FileWriter \<Rightarrow> ErrorCode" where
  "writer_sync e w =
     (if \<not> fw_fd w then OK
      else if we_fsync_on e \<and> \<not> we_fsync e then FILE_WRITE_ERROR
      else if \<not> we_skip_fadvise e \<and> \<not> we_fadvise e then FILE_WRITE_ERROR
      else OK)"

definition syncFileRange :: "writer_env \<Rightarrow> int \<Rightarrow> bool \<Rightarrow> FileWriter \<Rightarrow> bool \<times> FileWriter" where
  "syncFileRange e written forced w =
     (if we_disk_sync_interval_mb e < 0 then (True, w)
      else let syncIntervalBytes = we_disk_sync_interval_mb e * 1024 * 1024;
               w1 = w\<lparr>fw_writtenSinceLastSync := fw_writtenSinceLastSync w + written\<rparr>
           in if fw_writtenSinceLastSync w1 = 0 then (True, w1)
              else if forced \<or> fw_writtenSinceLastSync w1 > syncIntervalBytes
              then (if \<not> we_range e (fw_nextSyncOffset w1) then (False, w1)
                    else if \<not> we_skip_fadvise e \<and> \<not> we_range_fadvise e (fw_nextSyncOffset w1) then (False, w1)
                    else (True, w1\<lparr>fw_nextSyncOffset := fw_nextSyncOffset w1 + fw_writtenSinceLastSync w1,
                                   fw_writtenSinceLastSync := 0\<rparr>))
              else (True, w1))"

definition writer_write :: "writer_env \<Rightarrow> BlockDetails \<Rightarrow> bytes \<Rightarrow> FileWriter \<Rightarrow> (ErrorCode \<times> FileWriter) outcome" where
  "writer_write e bd buf w =
     (if bd_allocationStatus bd = TO_BE_DELETED then Abort
      else if we_skip_writes e then Ok (OK, w\<lparr>fw_totalWritten := fw_totalWritten w + int (length buf)\<rparr>)
      else case write_file_loop (if fw_fd w then fw_writes w else [Write_failed]) (fw_pos w) buf (fw_file w) of
             (done, pos, f, calls) \<Rightarrow>
               let w1 = w\<lparr>fw_pos := pos, fw_file := f, fw_writes := calls\<rparr>;
                   finished = (fw_totalWritten w + int (length buf) = bd_dataSize bd)
               in if \<not> done then Ok (FILE_WRITE_ERROR, w1)
                  else case syncFileRange e (int (length buf)) finished w1 of
                         (ok, w2) \<Rightarrow>
                           if \<not> ok then Ok (FILE_WRITE_ERROR, w2)
                           else Ok (OK, w2\<lparr>fw_totalWritten := fw_totalWritten w2 + int (length buf)\<rparr>))"

section \<open>What the writer stores\<close>

text \<open>
  The interface the receiver relies on: a writer stands at some data, and a successful write
  appends to it.
\<close>

locale block_sink =
  fixes sink_write :: "bytes \<Rightarrow> 'w \<Rightarrow> (ErrorCode \<times> 'w) outcome"
    and stored :: "bytes \<Rightarrow> 'w \<Rightarrow> bool"
    and written :: "'w \<Rightarrow> int"
  assumes sink_append: "stored d w \<Longrightarrow> sink_write p w = Ok (OK, w') \<Longrightarrow> stored (d @ p) w'"
    and sink_count: "stored d w \<Longrightarrow> written w = int (length d)"
begin

fun sink_all :: "bytes list \<Rightarrow> 'w \<Rightarrow> (ErrorCode \<times> 'w) outcome" where
  "sink_all [] w = Ok (OK, w)"
| "sink_all (p # ps) w = outcome_bind (sink_write p w) (\<lambda>(c, w1). if c \<noteq> OK then Ok (c, w1) else sink_all ps w1)"

lemma sink_all_stored: "stored d w \<Longrightarrow> sink_all ps w = Ok (OK, w') \<Longrightarrow> stored (d @ concat ps) w'"
proof (induction ps arbitrary: d w)
  case (Cons p ps)
  then obtain w1 where "sink_write p w = Ok (OK, w1)" "sink_all ps w1 = Ok (OK, w')" by (auto split: if_splits)
  then show ?case using Cons.IH [of "d @ p" w1] sink_append [OF Cons.prems(1)] by simp
qed simp

end

text \<open>The data is in the file from the offset of the block on, and the rest of the file is untouched.\<close>

definition written_block :: "(nat \<Rightarrow> byte) \<Rightarrow> BlockDetails \<Rightarrow> bytes \<Rightarrow> FileWriter \<Rightarrow> bool" where
  "written_block f bd d w \<longleftrightarrow> fw_fd w \<and> fw_totalWritten w = int (length d) \<and>
     fw_pos w = nat (bd_offset bd) + length d \<and> fw_file w = patch (nat (bd_offset bd)) d f"

lemma write_file_loop_done:
  "write_file_loop calls pos buf f = (True, pos', f', calls') \<Longrightarrow> pos' = pos + length buf \<and> f' = patch pos buf f"
proof (induction calls arbitrary: pos buf f)
  case (Cons c calls)
  show ?case
  proof (cases "buf = [] \<or> c = Interrupted \<or> c = Write_failed")
    case True
    then show ?thesis using Cons by (auto split: if_splits)
  next
    case False
    then obtain k where c: "c = Wrote k" "buf \<noteq> []" by (cases c) auto
    have eq: "pos + length (take k buf) = pos + min k (length buf)" by (simp add: min.commute)
    have "write_file_loop calls (pos + min k (length buf)) (drop k buf) (patch pos (take k buf) f) = (True, pos', f', calls')"
      using Cons.prems c by simp
    then have "pos' = pos + min k (length buf) + length (drop k buf) \<and> f' = patch (pos + min k (length buf)) (drop k buf) (patch pos (take k buf) f)"
      by (rule Cons.IH)
    then show ?thesis using patch_append [of pos "take k buf" "drop k buf" f] unfolding eq by auto
  qed
qed auto

lemma syncFileRange_keeps:
  "syncFileRange e n forced w = (ok, w') \<Longrightarrow>
   fw_fd w' = fw_fd w \<and> fw_totalWritten w' = fw_totalWritten w \<and> fw_pos w' = fw_pos w \<and> fw_file w' = fw_file w"
  by (auto simp: syncFileRange_def Let_def split: if_splits)

lemma writer_write_appends:
  assumes w: "written_block f bd d w" and e: "\<not> we_skip_writes e" and r: "writer_write e bd p w = Ok (OK, w')"
  shows "written_block f bd (d @ p) w'"
proof -
  have fd: "fw_fd w" using w by (simp add: written_block_def)
  have st: "bd_allocationStatus bd \<noteq> TO_BE_DELETED" using r by (auto simp: writer_write_def)
  obtain ok pos g calls where l: "write_file_loop (fw_writes w) (fw_pos w) p (fw_file w) = (ok, pos, g, calls)"
    by (rule prod_cases4)
  have ok: "ok" using r fd st e l by (auto simp: writer_write_def Let_def split: if_splits)
  let ?w1 = "w\<lparr>fw_pos := pos, fw_file := g, fw_writes := calls\<rparr>"
  obtain b w2 where s: "syncFileRange e (int (length p)) (fw_totalWritten w + int (length p) = bd_dataSize bd) ?w1 = (b, w2)"
    by fastforce
  have "w' = w2\<lparr>fw_totalWritten := fw_totalWritten w2 + int (length p)\<rparr>"
    using r fd st e l ok s by (auto simp: writer_write_def Let_def split: if_splits)
  then show ?thesis
    using w write_file_loop_done [OF l [unfolded eqTrueI [OF ok]]] syncFileRange_keeps [OF s]
      patch_append [of "nat (bd_offset bd)" d p f]
    by (simp add: written_block_def ac_simps)
qed

lemma writer_open_block:
  assumes "writer_open e bd (newWriter bd f calls) = Ok (OK, w)" "\<not> we_skip_writes e" "bd_allocationStatus bd \<noteq> TO_BE_DELETED"
  shows "written_block f bd [] w"
  using assms by (auto simp: writer_open_def newWriter_def written_block_def Let_def split: if_splits)

interpretation fw: block_sink "writer_write e bd" "\<lambda>d w. \<not> we_skip_writes e \<and> written_block f bd d w" fw_totalWritten
  for e bd f
proof
  show "\<not> we_skip_writes e \<and> written_block f bd (d @ p) w'" if "\<not> we_skip_writes e \<and> written_block f bd d w"
    "writer_write e bd p w = Ok (OK, w')" for d w p w'
    using writer_write_appends that by blast
  show "fw_totalWritten w = int (length d)" if "\<not> we_skip_writes e \<and> written_block f bd d w" for d w
    using that by (simp add: written_block_def)
qed

text \<open>With all calls of the system successful no operation fails.\<close>

definition writer_env_ok :: "writer_env \<Rightarrow> bool" where
  "writer_env_ok e \<longleftrightarrow> we_open e \<and> we_seek e \<and> we_fsync e \<and> we_fadvise e \<and> we_close e \<and> (\<forall>i. we_range e i \<and> we_range_fadvise e i)"

lemma write_file_loop_ok: "Write_failed \<notin> set calls \<Longrightarrow>
   \<exists>pos' f' calls'. write_file_loop calls pos buf f = (True, pos', f', calls') \<and> Write_failed \<notin> set calls'"
proof (induction calls arbitrary: pos buf f)
  case (Cons c calls)
  then show ?case by (cases c) auto
qed simp

lemma writer_write_ok:
  assumes e: "writer_env_ok e" and w: "fw_fd w" "Write_failed \<notin> set (fw_writes w)" and st: "bd_allocationStatus bd \<noteq> TO_BE_DELETED"
  shows "\<exists>w'. writer_write e bd p w = Ok (OK, w') \<and> fw_fd w' \<and> Write_failed \<notin> set (fw_writes w')"
proof -
  obtain pos f calls where l: "write_file_loop (fw_writes w) (fw_pos w) p (fw_file w) = (True, pos, f, calls)" "Write_failed \<notin> set calls"
    using write_file_loop_ok [OF w(2)] by blast
  then show ?thesis using e w st by (auto simp: writer_write_def Let_def syncFileRange_def writer_env_ok_def)
qed

end
