(* ===== verification/Receiver_Thread.thy ===== *)
theory Receiver_Thread
  imports File_Writer Wdt_Thread Log_Manager Transfer_Request
begin

text \<open>
  \<open>ReceiverThread\<close>: the state machine of a receiver thread, one definition per state. The socket is
  the interface \<open>IServerSocket\<close>, a record of its methods. What the thread asks its surroundings
  (the clock, the abort flag, the file system) is answered by an environment indexed by a counter
  of questions. A loop that may run for ever has fuel; \<open>Fail\<close> is a handler that has not returned.
\<close>

section \<open>State\<close>

datatype ReceiverState = LISTEN | ACCEPT_FIRST_CONNECTION | ACCEPT_WITH_TIMEOUT | SEND_LOCAL_CHECKPOINT
  | READ_NEXT_CMD | PROCESS_FILE_CMD | PROCESS_SETTINGS_CMD | PROCESS_DONE_CMD | PROCESS_SIZE_CMD
  | SEND_FILE_CHUNKS | SEND_GLOBAL_CHECKPOINTS | SEND_DONE_CMD | SEND_ABORT_CMD
  | WAIT_FOR_FINISH_OR_NEW_CHECKPOINT | FINISH_WITH_ERROR | END

datatype AcceptMode = ACCEPT_WITH_RETRIES | ACCEPT_FOREVER | STOP_ACCEPTING

text \<open>
  The methods of a server socket. A read delivers the bytes read, none at the end of the stream,
  or \<open>None\<close> for an error; \<open>so_verified\<close> counts the calls of the tag verification callback.
\<close>

record 's IServerSocket =
  so_listen :: "'s \<Rightarrow> (ErrorCode \<times> 's) outcome"
  so_acceptNextConnection :: "int \<Rightarrow> bool \<Rightarrow> 's \<Rightarrow> (ErrorCode \<times> 's) outcome"
  so_read :: "nat \<Rightarrow> bool \<Rightarrow> 's \<Rightarrow> (bytes option \<times> 's) outcome"
  so_write :: "bytes \<Rightarrow> 's \<Rightarrow> (int \<times> 's) outcome"
  so_expectEndOfStream :: "'s \<Rightarrow> ErrorCode \<times> 's"
  so_closeConnection :: "'s \<Rightarrow> ErrorCode \<times> 's"
  so_closeNoCheck :: "'s \<Rightarrow> 's"
  so_closeAllNoCheck :: "'s \<Rightarrow> 's"
  so_nonRetryableErrCode :: "'s \<Rightarrow> ErrorCode"
  so_encryptionType :: "'s \<Rightarrow> int"
  so_disableIvChange :: "'s \<Rightarrow> 's"
  so_port :: "'s \<Rightarrow> int"
  so_peerIp :: "'s \<Rightarrow> string"
  so_verified :: "'s \<Rightarrow> nat"

text \<open>What the threads share: the parent \<open>Receiver\<close> with its controller, log and files.\<close>

datatype receiver_log = Block_write int int int | Invalidation int | Log_header bool bool

record Receiver =
  rv_checkpoints :: "Checkpoint list"
  rv_controller :: ThreadsController
  rv_transferId :: string
  rv_fileChunksInfo :: "FileChunksInfo list"
  rv_log :: "receiver_log list"
  rv_isJoinable :: bool
  rv_sessions :: "string list"
  rv_hasNewTransferStarted :: bool
  rv_ended :: nat
  rv_files :: "string \<Rightarrow> nat \<Rightarrow> byte"

record receiver_options =
  ro_max_retries :: nat
  ro_accept_timeout_millis :: int
  ro_accept_window_millis :: int
  ro_max_accept_retries :: nat
  ro_enable_download_resumption :: bool
  ro_isLogBasedResumption :: bool
  ro_delete_extra_files :: bool

text \<open>The answers of the surroundings at each question; \<open>re_others\<close> is what other threads do to the
  parent while this thread waits.\<close>

record receiver_env =
  re_options :: receiver_options
  re_fuel :: nat
  re_abort :: "nat \<Rightarrow> bool"
  re_heartBeat :: "nat \<Rightarrow> bool"
  re_newTransferStarted :: "nat \<Rightarrow> bool"
  re_acceptMode :: "nat \<Rightarrow> AcceptMode"
  re_writer :: "nat \<Rightarrow> writer_env \<times> write_call list"
  re_others :: "nat \<Rightarrow> Receiver \<Rightarrow> Receiver"
  re_crc32c :: "bytes \<Rightarrow> int \<Rightarrow> int"

record 's ReceiverThread =
  rt_socket :: 's
  rt_index :: nat
  rt_buf :: bytes
  rt_numRead :: int
  rt_off :: int
  rt_oldOffset :: int
  rt_checkpointIndex :: int
  rt_pendingCheckpointIndex :: int
  rt_senderReadTimeout :: int
  rt_senderWriteTimeout :: int
  rt_isBlockMode :: bool
  rt_checkpoint :: Checkpoint
  rt_curConnectionVerified :: bool
  rt_newCheckpoints :: "Checkpoint list"
  rt_blocksWaitingVerification :: "BlockDetails list"
  rt_threadStats :: TransferStats
  rt_threadProtocolVersion :: int
  rt_footerType :: FooterType
  rt_enableHeartBeat :: bool
  rt_writer :: FileWriter
  rt_parent :: Receiver
  rt_tick :: nat

text \<open>\<open>rt_writer\<close> is the local variable \<open>writer\<close> of the file command.\<close>

abbreviation rt_bufSize :: "'s ReceiverThread \<Rightarrow> int" where
  "rt_bufSize t \<equiv> int (length (rt_buf t))"

definition newReceiverThread :: "'s \<Rightarrow> nat \<Rightarrow> bytes \<Rightarrow> int \<Rightarrow> Receiver \<Rightarrow> 's ReceiverThread outcome" where
  "newReceiverThread s i buf protocolVersion p =
     outcome_bind (registerThread i (rv_controller p)) (\<lambda>c.
       Ok \<lparr>rt_socket = s, rt_index = i, rt_buf = buf, rt_numRead = 0, rt_off = 0, rt_oldOffset = 0,
           rt_checkpointIndex = 0, rt_pendingCheckpointIndex = 0, rt_senderReadTimeout = -1,
           rt_senderWriteTimeout = -1, rt_isBlockMode = True, rt_checkpoint = newCheckpoint 0,
           rt_curConnectionVerified = False, rt_newCheckpoints = [], rt_blocksWaitingVerification = [],
           rt_threadStats = newStats, rt_threadProtocolVersion = protocolVersion, rt_footerType = NO_FOOTER,
           rt_enableHeartBeat = False, rt_writer = newWriter newBlockDetails (\<lambda>_. 0) [], rt_parent = p\<lparr>rv_controller := c\<rparr>, rt_tick = 0\<rparr>)"

section \<open>Handlers with early returns\<close>

type_synonym ('a, 's) handler = "('s ReceiverThread, ReceiverState, 'a) thread_op"

definition upd_stats :: "(TransferStats \<Rightarrow> TransferStats) \<Rightarrow> 's ReceiverThread \<Rightarrow> 's ReceiverThread" where
  "upd_stats f t = t\<lparr>rt_threadStats := f (rt_threadStats t)\<rparr>"

definition upd_parent :: "(Receiver \<Rightarrow> Receiver) \<Rightarrow> 's ReceiverThread \<Rightarrow> 's ReceiverThread" where
  "upd_parent f t = t\<lparr>rt_parent := f (rt_parent t)\<rparr>"

text \<open>\<open>threadStats_.setLocalErrorCode(e); return st;\<close>\<close>

definition fail_with :: "ErrorCode \<Rightarrow> ReceiverState \<Rightarrow> ('a, 's) handler" where
  "fail_with e st t = goto st (upd_stats (setLocalErrorCode e) t)"

text \<open>A question to the surroundings.\<close>

definition ask_env :: "(nat \<Rightarrow> 'a) \<Rightarrow> ('a, 's) handler" where
  "ask_env q t = Ok (Continue (q (rt_tick t)), t\<lparr>rt_tick := Suc (rt_tick t)\<rparr>)"

section \<open>Verified blocks\<close>

definition add_log :: "receiver_log \<Rightarrow> Receiver \<Rightarrow> Receiver" where
  "add_log x p = p\<lparr>rv_log := rv_log p @ [x]\<rparr>"

definition markBlockVerified :: "receiver_env \<Rightarrow> BlockDetails \<Rightarrow> 's ReceiverThread \<Rightarrow> 's ReceiverThread" where
  "markBlockVerified e bd t =
     (let t1 = upd_stats (\<lambda>s. incrStatsBlocks (addEffectiveBytes 0 (bd_dataSize bd) s)) t;
          t2 = t1\<lparr>rt_checkpoint := incrNumBlocks (rt_checkpoint t1)\<rparr>
      in if \<not> ro_isLogBasedResumption (re_options e) then t2
         else if bd_allocationStatus bd = TO_BE_DELETED then upd_parent (add_log (Invalidation (bd_seqId bd))) t2
         else upd_parent (add_log (Block_write (bd_seqId bd) (bd_offset bd) (bd_dataSize bd))) t2)"

definition markReceivedBlocksVerified :: "receiver_env \<Rightarrow> 's ReceiverThread \<Rightarrow> 's ReceiverThread" where
  "markReceivedBlocksVerified e t =
     (fold (markBlockVerified e) (rt_blocksWaitingVerification t) t)\<lparr>rt_blocksWaitingVerification := []\<rparr>"

section \<open>Reading and writing\<close>

text \<open>A read; the callback runs when a tag has been verified.\<close>

definition thread_read :: "'s IServerSocket \<Rightarrow> receiver_env \<Rightarrow> nat \<Rightarrow> bool \<Rightarrow> 's ReceiverThread \<Rightarrow> (bytes option \<times> 's ReceiverThread) outcome" where
  "thread_read V e n tryFull t =
     outcome_bind (so_read V n tryFull (rt_socket t)) (\<lambda>(data, s1).
       let t1 = t\<lparr>rt_socket := s1\<rparr>
       in Ok (data, if so_verified V s1 \<noteq> so_verified V (rt_socket t) then markReceivedBlocksVerified e t1 else t1))"

definition thread_write :: "'s IServerSocket \<Rightarrow> bytes \<Rightarrow> (int, 's) handler" where
  "thread_write V bs t = outcome_bind (so_write V bs (rt_socket t)) (\<lambda>(written, s1). Ok (Continue written, t\<lparr>rt_socket := s1\<rparr>))"

text \<open>The loop of \<open>readAtLeast\<close> with \<open>buf = buf_ + base\<close>.\<close>

function read_at_least_loop ::
  "'s IServerSocket \<Rightarrow> receiver_env \<Rightarrow> int \<Rightarrow> int \<Rightarrow> int \<Rightarrow> int \<Rightarrow> 's ReceiverThread \<Rightarrow> (int \<times> 's ReceiverThread) outcome" where
  "read_at_least_loop V e base mx least len t =
     (if len \<ge> least then Ok (len, t)
      else outcome_bind (thread_read V e (nat (mx - len)) False t) (\<lambda>(r, t1).
             case r of
               None \<Rightarrow> Ok (if len \<noteq> 0 then len else -1, t1)
             | Some data \<Rightarrow>
                 if data = [] then Ok (len, t1)
                 else read_at_least_loop V e base mx least (len + int (length data))
                        (t1\<lparr>rt_buf := write_at (nat (base + len)) data (rt_buf t1)\<rparr>)))"
  by pat_completeness auto
termination
  by (relation "measure (\<lambda>(_, _, _, _, least, len, _). nat (least - len))") auto

declare read_at_least_loop.simps [simp del]

definition readAtLeast ::
  "'s IServerSocket \<Rightarrow> receiver_env \<Rightarrow> int \<Rightarrow> int \<Rightarrow> int \<Rightarrow> int \<Rightarrow> 's ReceiverThread \<Rightarrow> (int \<times> 's ReceiverThread) outcome" where
  "readAtLeast V e base mx least len t =
     (if \<not> len \<ge> 0 \<or> \<not> least > 0 \<or> \<not> least \<le> mx then Abort else read_at_least_loop V e base mx least len t)"

text \<open>\<open>readAtMost\<close> into the start of the buffer.\<close>

definition readAtMost :: "'s IServerSocket \<Rightarrow> receiver_env \<Rightarrow> int \<Rightarrow> (bytes option, 's) handler" where
  "readAtMost V e most t =
     (let target = (if most < rt_bufSize t then most else rt_bufSize t)
      in outcome_bind (thread_read V e (nat target) False t) (\<lambda>(r, t1).
           Ok (Continue r, case r of None \<Rightarrow> t1 | Some data \<Rightarrow> t1\<lparr>rt_buf := write_at 0 data (rt_buf t1)\<rparr>)))"

text \<open>\<open>numRead_ = readAtLeast(...)\<close>\<close>

definition fill_buffer :: "'s IServerSocket \<Rightarrow> receiver_env \<Rightarrow> int \<Rightarrow> int \<Rightarrow> (unit, 's) handler" where
  "fill_buffer V e base least t =
     outcome_bind (readAtLeast V e base (rt_bufSize t - base) least (rt_numRead t) t) (\<lambda>(n, t1).
       Ok (Continue (), t1\<lparr>rt_numRead := n\<rparr>))"

definition next_byte :: "(byte, 's) handler" where
  "next_byte t = Ok (Continue (rt_buf t ! nat (rt_off t)), t\<lparr>rt_off := rt_off t + 1\<rparr>)"

text \<open>A decoder on the buffer up to \<open>mx\<close> moves \<open>off_\<close>; \<open>None\<close> is the result false.\<close>

definition decode_buffer :: "(bytes \<Rightarrow> int \<Rightarrow> int \<Rightarrow> 'a outcome \<times> int) \<Rightarrow> int \<Rightarrow> ('a option, 's) handler" where
  "decode_buffer dec mx t =
     (case dec (rt_buf t) (rt_off t) mx of
        (Abort, _) \<Rightarrow> Abort
      | (Fail, off) \<Rightarrow> Ok (Continue None, t\<lparr>rt_off := off\<rparr>)
      | (Ok x, off) \<Rightarrow> Ok (Continue (Some x), t\<lparr>rt_off := off\<rparr>))"

definition sendHeartBeat :: "'s IServerSocket \<Rightarrow> receiver_env \<Rightarrow> (unit, 's) handler" where
  "sendHeartBeat V e t =
     (if \<not> rt_enableHeartBeat t then proceed () t
      else andThen (ask_env (re_heartBeat e)) (\<lambda>due.
             if \<not> due then proceed () else andThen (thread_write V [cmd_byte HEART_BEAT_CMD]) (\<lambda>_. proceed ())) t)"

section \<open>Connecting\<close>

fun init_loop :: "'s IServerSocket \<Rightarrow> nat \<Rightarrow> 's \<Rightarrow> 's outcome" where
  "init_loop V 0 s = Ok s"
| "init_loop V (Suc n) s = outcome_bind (so_listen V s) (\<lambda>(code, s1). if code = OK then Ok s1 else init_loop V n s1)"

definition initThread :: "'s IServerSocket \<Rightarrow> receiver_env \<Rightarrow> 's ReceiverThread \<Rightarrow> (ErrorCode \<times> 's ReceiverThread) outcome" where
  "initThread V e t =
     outcome_bind (init_loop V (ro_max_retries (re_options e)) (rt_socket t)) (\<lambda>s.
       outcome_bind (so_listen V s) (\<lambda>(code, s1).
         let t1 = t\<lparr>rt_socket := s1\<rparr>
         in Ok (if code \<noteq> OK then (ERROR, t1) else (OK, t1\<lparr>rt_checkpoint := (rt_checkpoint t1)\<lparr>cp_port := so_port V s1\<rparr>\<rparr>))))"

fun listen_loop :: "'s IServerSocket \<Rightarrow> nat \<Rightarrow> 's \<Rightarrow> (ErrorCode option \<times> 's) outcome" where
  "listen_loop V 0 s = Ok (None, s)"
| "listen_loop V (Suc n) s =
     outcome_bind (so_listen V s) (\<lambda>(code, s1).
       if code = OK then Ok (Some OK, s1) else if code = CONN_ERROR then Ok (Some CONN_ERROR, s1) else listen_loop V n s1)"

definition listen :: "'s IServerSocket \<Rightarrow> receiver_env \<Rightarrow> (unit, 's) handler" where
  "listen V e t =
     outcome_bind (listen_loop V (ro_max_retries (re_options e) - 1) (rt_socket t)) (\<lambda>(r, s1).
       let t1 = t\<lparr>rt_socket := s1\<rparr>
       in if r = Some CONN_ERROR then fail_with CONN_ERROR FINISH_WITH_ERROR t1
          else outcome_bind (so_listen V s1) (\<lambda>(code, s2).
                 if code \<noteq> OK then fail_with CONN_ERROR FINISH_WITH_ERROR (t1\<lparr>rt_socket := s2\<rparr>)
                 else goto ACCEPT_FIRST_CONNECTION (t1\<lparr>rt_socket := s2\<rparr>)))"

definition resetThread :: "'s IServerSocket \<Rightarrow> 's ReceiverThread \<Rightarrow> 's ReceiverThread" where
  "resetThread V t =
     t\<lparr>rt_numRead := 0, rt_off := 0, rt_checkpointIndex := 0, rt_pendingCheckpointIndex := 0,
       rt_senderReadTimeout := -1, rt_senderWriteTimeout := -1, rt_curConnectionVerified := False,
       rt_threadStats := resetStats (rt_threadStats t), rt_newCheckpoints := [],
       rt_checkpoint := newCheckpoint (so_port V (rt_socket t))\<rparr>"

text \<open>What the mode says after some attempts: \<open>True\<close> means to give up.\<close>

definition stop_accepting :: "receiver_env \<Rightarrow> AcceptMode \<Rightarrow> nat \<Rightarrow> bool" where
  "stop_accepting e mode acceptAttempts =
     (case mode of
        ACCEPT_WITH_RETRIES \<Rightarrow> acceptAttempts \<ge> ro_max_accept_retries (re_options e)
      | ACCEPT_FOREVER \<Rightarrow> False
      | STOP_ACCEPTING \<Rightarrow> True)"

definition acceptNext :: "'s IServerSocket \<Rightarrow> int \<Rightarrow> (ErrorCode, 's) handler" where
  "acceptNext V timeout t =
     outcome_bind (so_acceptNextConnection V timeout (rt_curConnectionVerified t) (rt_socket t)) (\<lambda>(code, s1).
       Ok (Continue code, t\<lparr>rt_socket := s1\<rparr>))"

fun accept_loop :: "'s IServerSocket \<Rightarrow> receiver_env \<Rightarrow> nat \<Rightarrow> nat \<Rightarrow> (unit, 's) handler" where
  "accept_loop V e 0 acceptAttempts t = Fail"
| "accept_loop V e (Suc n) acceptAttempts t =
     andThen (ask_env (re_newTransferStarted e)) (\<lambda>started.
       if started then goto ACCEPT_WITH_TIMEOUT
       else andThen (ask_env (re_acceptMode e)) (\<lambda>mode.
         if stop_accepting e mode acceptAttempts then fail_with CONN_ERROR FINISH_WITH_ERROR
         else andThen (ask_env (re_abort e)) (\<lambda>aborted.
           if aborted then fail_with ABORT FINISH_WITH_ERROR
           else andThen (acceptNext V (ro_accept_timeout_millis (re_options e))) (\<lambda>code.
             if code = OK then proceed () else accept_loop V e n (Suc acceptAttempts))))) t"

text \<open>\<open>executeAtStart\<close> with \<open>startNewGlobalSession\<close>.\<close>

definition start_session :: "'s IServerSocket \<Rightarrow> (unit, 's) handler" where
  "start_session V t =
     (let p = rt_parent t; c = rv_controller p
      in outcome_bind (once_execute (tc_execAtStart c)) (\<lambda>(ran, x).
           let p1 = p\<lparr>rv_controller := c\<lparr>tc_execAtStart := x\<rparr>\<rparr>
           in Ok (Continue (), t\<lparr>rt_parent := (if ran then p1\<lparr>rv_sessions := rv_sessions p @ [so_peerIp V (rt_socket t)],
                                                        rv_hasNewTransferStarted := True\<rparr> else p1)\<rparr>)))"

definition acceptFirstConnection :: "'s IServerSocket \<Rightarrow> receiver_env \<Rightarrow> (unit, 's) handler" where
  "acceptFirstConnection V e t =
     (let t1 = resetThread V t; t2 = t1\<lparr>rt_socket := so_closeNoCheck V (rt_socket t1)\<rparr>
      in andThen (accept_loop V e (re_fuel e) 0) (\<lambda>_. andThen (start_session V) (\<lambda>_. goto READ_NEXT_CMD)) t2)"

definition kTimeoutBufferMillis :: int where "kTimeoutBufferMillis = 1000"

text \<open>The timeouts of the sender are 64 bits wide, \<open>timeout\<close> is an \<open>int32_t\<close>.\<close>

definition accept_timeout :: "receiver_env \<Rightarrow> 's ReceiverThread \<Rightarrow> int" where
  "accept_timeout e t =
     (if rt_senderReadTimeout t > 0 then sint (word_of_int (max (rt_senderReadTimeout t) (rt_senderWriteTimeout t) + kTimeoutBufferMillis) :: 32 word)
      else ro_accept_window_millis (re_options e))"

definition acceptWithTimeout :: "'s IServerSocket \<Rightarrow> receiver_env \<Rightarrow> (unit, 's) handler" where
  "acceptWithTimeout V e t =
     (let code0 = so_nonRetryableErrCode V (rt_socket t)
      in if code0 \<noteq> OK then fail_with code0 END t
         else let t1 = t\<lparr>rt_socket := so_closeNoCheck V (rt_socket t), rt_blocksWaitingVerification := []\<rparr>
              in andThen (acceptNext V (accept_timeout e t1)) (\<lambda>code.
                   andThen (modify (\<lambda>t. t\<lparr>rt_curConnectionVerified := False\<rparr>)) (\<lambda>_.
                     if code \<noteq> OK then fail_with code FINISH_WITH_ERROR
                     else (\<lambda>t2. let st = (if ts_localErrCode (rt_threadStats t2) \<noteq> OK then SEND_LOCAL_CHECKPOINT else READ_NEXT_CMD)
                                in goto st (upd_stats (setLocalErrorCode OK)
                                     (t2\<lparr>rt_numRead := 0, rt_off := 0, rt_pendingCheckpointIndex := rt_checkpointIndex t2\<rparr>))))) t1)"

text \<open>\<open>socket_->write(buf_, len)\<close> after the encoder \<open>enc\<close> has written into the buffer.\<close>

definition encode_at :: "encoder \<Rightarrow> int \<Rightarrow> int \<Rightarrow> (int, 's) handler" where
  "encode_at enc mx off t =
     (case enc mx (rt_buf t) off of (Abort, _) \<Rightarrow> Abort | (_, buf, off') \<Rightarrow> Ok (Continue off', t\<lparr>rt_buf := buf\<rparr>))"

definition write_buffer :: "'s IServerSocket \<Rightarrow> int \<Rightarrow> (int, 's) handler" where
  "write_buffer V len t = thread_write V (take (nat len) (rt_buf t)) t"

definition sendLocalCheckpoint :: "'s IServerSocket \<Rightarrow> (unit, 's) handler" where
  "sendLocalCheckpoint V t =
     (let checkpointLen = getMaxLocalCheckpointLength (rt_threadProtocolVersion t)
      in andThen (encode_at (encodeCheckpoints (rt_threadProtocolVersion t) [rt_checkpoint t]) checkpointLen 0) (\<lambda>_.
           andThen (write_buffer V checkpointLen) (\<lambda>written.
             if written \<noteq> checkpointLen then fail_with SOCKET_WRITE_ERROR ACCEPT_WITH_TIMEOUT
             else (\<lambda>t1. goto READ_NEXT_CMD (upd_stats (addHeaderBytes checkpointLen) t1)))) t)"

section \<open>Commands\<close>

definition readNextCmd :: "'s IServerSocket \<Rightarrow> receiver_env \<Rightarrow> (unit, 's) handler" where
  "readNextCmd V e t =
     andThen (modify (\<lambda>t. t\<lparr>rt_oldOffset := rt_off t\<rparr>)) (\<lambda>_.
     andThen (\<lambda>t. fill_buffer V e (rt_off t) kMinBufLength t) (\<lambda>_ t1.
       if rt_numRead t1 < kMinBufLength then fail_with SOCKET_READ_ERROR ACCEPT_WITH_TIMEOUT t1
       else andThen next_byte (\<lambda>cmd.
         if cmd = cmd_byte DONE_CMD then goto PROCESS_DONE_CMD
         else if cmd = cmd_byte FILE_CMD then goto PROCESS_FILE_CMD
         else if cmd = cmd_byte SETTINGS_CMD then goto PROCESS_SETTINGS_CMD
         else if cmd = cmd_byte SIZE_CMD then goto PROCESS_SIZE_CMD
         else fail_with PROTOCOL_ERROR FINISH_WITH_ERROR) t1)) t"

definition negotiate :: "int \<Rightarrow> (unit, 's) handler" where
  "negotiate senderProtocolVersion t =
     (if senderProtocolVersion = rt_threadProtocolVersion t then proceed () t
      else let negotiatedProtocol = negotiateProtocol senderProtocolVersion (rt_threadProtocolVersion t)
           in if negotiatedProtocol = 0 then fail_with VERSION_INCOMPATIBLE SEND_ABORT_CMD t
              else let t1 = t\<lparr>rt_threadProtocolVersion := negotiatedProtocol\<rparr>
                   in if negotiatedProtocol \<noteq> senderProtocolVersion then fail_with VERSION_MISMATCH SEND_ABORT_CMD t1
                      else proceed () t1)"

definition apply_settings :: "Settings \<Rightarrow> (unit, 's) handler" where
  "apply_settings settings t =
     (if rv_transferId (rt_parent t) \<noteq> st_transferId settings then fail_with ID_MISMATCH SEND_ABORT_CMD t
      else let t1 = t\<lparr>rt_senderReadTimeout := st_readTimeoutMillis settings, rt_senderWriteTimeout := st_writeTimeoutMillis settings,
                      rt_isBlockMode := \<not> st_blockModeDisabled settings, rt_enableHeartBeat := st_enableHeartBeat settings,
                      rt_curConnectionVerified := True,
                      rt_footerType := (if st_enableChecksum settings then CHECKSUM_FOOTER else NO_FOOTER)\<rparr>
           in if st_sendFileChunks settings then goto SEND_FILE_CHUNKS (t1\<lparr>rt_numRead := 0, rt_off := 0\<rparr>)
              else goto READ_NEXT_CMD (t1\<lparr>rt_numRead := rt_numRead t1 - (rt_off t1 - rt_oldOffset t1)\<rparr>))"

definition processSettingsCmd :: "'s IServerSocket \<Rightarrow> (unit, 's) handler" where
  "processSettingsCmd V t =
     andThen (decode_buffer decodeVersion (rt_oldOffset t + kMaxVersion)) (\<lambda>version.
       case version of
         None \<Rightarrow> fail_with PROTOCOL_ERROR FINISH_WITH_ERROR
       | Some senderProtocolVersion \<Rightarrow>
           andThen (negotiate senderProtocolVersion) (\<lambda>_ t1.
             let pv = rt_threadProtocolVersion t1;
                 t2 = (if pv < PERIODIC_ENCRYPTION_IV_CHANGE_VERSION then t1\<lparr>rt_socket := so_disableIvChange V (rt_socket t1)\<rparr> else t1)
             in andThen (decode_buffer (decodeSettings pv newSettings) (rt_oldOffset t2 + kMaxVersion + kMaxSettings)) (\<lambda>settings.
                  case settings of
                    None \<Rightarrow> fail_with PROTOCOL_ERROR FINISH_WITH_ERROR
                  | Some s \<Rightarrow> apply_settings s) t2)) t"

section \<open>Receiving a block\<close>

definition set_funnel :: "FunnelStatus \<Rightarrow> Receiver \<Rightarrow> Receiver" where
  "set_funnel f p = p\<lparr>rv_controller := (rv_controller p)\<lparr>tc_funnels := (tc_funnels (rv_controller p))[0 := f]\<rparr>\<rparr>"

text \<open>\<open>getFunnel(SEND_FILE_CHUNKS_FUNNEL)->getStatus()\<close>\<close>

definition chunks_funnel :: "(FunnelStatus, 's) handler" where
  "chunks_funnel t =
     outcome_bind (getFunnel 0 (rv_controller (rt_parent t))) (\<lambda>f.
       case funnel_getStatus f of (r, f1) \<Rightarrow> Ok (Continue r, upd_parent (set_funnel f1) t))"

definition first_file_cmd :: "receiver_env \<Rightarrow> (unit, 's) handler" where
  "first_file_cmd e t =
     (if ro_enable_download_resumption (re_options e) \<and> ts_numBlocks (rt_threadStats t) = 0
      then andThen chunks_funnel (\<lambda>status t1.
             if status = FUNNEL_START
             then modify (\<lambda>t. upd_parent (\<lambda>p. set_funnel FUNNEL_END (add_log (Log_header (rt_isBlockMode t) False) p)) t) t1
             else proceed () t1) t
      else proceed () t)"

definition header_checks :: "BlockDetails \<Rightarrow> bool" where
  "header_checks bd \<longleftrightarrow>
     \<not> (bd_allocationStatus bd = TO_BE_DELETED \<and> (bd_fileSize bd \<noteq> 0 \<or> bd_dataSize bd \<noteq> 0)) \<and>
     isSafeRelativePath (bd_fileName bd)"

definition decode_file_header :: "int \<Rightarrow> (BlockDetails \<times> int, 's) handler" where
  "decode_file_header headerLen t =
     (let t1 = t\<lparr>rt_off := rt_off t + 2\<rparr>
      in andThen (decode_buffer (decodeHeader (rt_threadProtocolVersion t1) newBlockDetails) (rt_numRead t1 + rt_oldOffset t1)) (\<lambda>bd t2.
           let headerBytes = rt_off t2 - rt_oldOffset t2
           in if headerLen \<noteq> headerBytes then fail_with PROTOCOL_ERROR FINISH_WITH_ERROR t2
              else let t3 = upd_stats (\<lambda>s. addEffectiveBytes headerBytes 0 (addHeaderBytes headerBytes s)) t2
                   in case bd of
                        None \<Rightarrow> fail_with PROTOCOL_ERROR FINISH_WITH_ERROR t3
                      | Some b \<Rightarrow> if \<not> header_checks b then fail_with PROTOCOL_ERROR FINISH_WITH_ERROR t3
                                  else proceed (b, headerBytes) t3) t1)"

definition readFileHeader :: "'s IServerSocket \<Rightarrow> receiver_env \<Rightarrow> (BlockDetails \<times> int, 's) handler" where
  "readFileHeader V e =
     andThen next_byte (\<lambda>transferStatus t.
       let headerLen = load_int16 (rt_buf t) (nat (rt_off t))
       in if headerLen \<le> 0 then fail_with PROTOCOL_ERROR FINISH_WITH_ERROR t
          else andThen (sendHeartBeat V e) (\<lambda>_.
               andThen (\<lambda>t1. if headerLen > rt_numRead t1 then fill_buffer V e (rt_oldOffset t1 + rt_numRead t1) headerLen t1
                             else proceed () t1) (\<lambda>_ t2.
                 if rt_numRead t2 < headerLen then fail_with SOCKET_READ_ERROR ACCEPT_WITH_TIMEOUT t2
                 else decode_file_header headerLen t2)) t)"

definition store_writer :: "BlockDetails \<Rightarrow> FileWriter \<Rightarrow> 's ReceiverThread \<Rightarrow> 's ReceiverThread" where
  "store_writer bd w t =
     upd_parent (\<lambda>p. p\<lparr>rv_files := (rv_files p)(bd_fileName bd := fw_file w)\<rparr>) (t\<lparr>rt_writer := w\<rparr>)"

definition open_block :: "receiver_env \<Rightarrow> writer_env \<Rightarrow> BlockDetails \<Rightarrow> (unit, 's) handler" where
  "open_block e we bd t =
     (if ro_delete_extra_files (re_options e) \<or> bd_allocationStatus bd \<noteq> TO_BE_DELETED
      then outcome_bind (writer_open we bd (rt_writer t)) (\<lambda>(code, w).
             if code \<noteq> OK then fail_with FILE_WRITE_ERROR SEND_ABORT_CMD (t\<lparr>rt_writer := w\<rparr>)
             else proceed () (t\<lparr>rt_writer := w\<rparr>))
      else proceed () t)"

definition write_block :: "writer_env \<Rightarrow> BlockDetails \<Rightarrow> bytes \<Rightarrow> (unit, 's) handler" where
  "write_block we bd bs t =
     outcome_bind (writer_write we bd bs (rt_writer t)) (\<lambda>(code, w).
       if code \<noteq> OK then fail_with code SEND_ABORT_CMD (store_writer bd w t) else proceed () (store_writer bd w t))"

definition update_checksum :: "receiver_env \<Rightarrow> FooterType \<Rightarrow> bytes \<Rightarrow> int \<Rightarrow> int" where
  "update_checksum e footer bs checksum = (if footer = CHECKSUM_FOOTER then re_crc32c e bs checksum else checksum)"

text \<open>The bytes of the block that are already in the buffer. A negative size would make the checksum run
  out of the buffer, which is \<open>Abort\<close> here.\<close>

definition write_buffered :: "'s IServerSocket \<Rightarrow> receiver_env \<Rightarrow> writer_env \<Rightarrow> BlockDetails \<Rightarrow> (int \<times> int, 's) handler" where
  "write_buffered V e we bd t =
     (let remainingData = rt_numRead t + rt_oldOffset t - rt_off t;
          toWrite = (if remainingData \<ge> bd_dataSize bd then bd_dataSize bd else remainingData);
          bs = take (nat toWrite) (drop (nat (rt_off t)) (rt_buf t))
      in if \<not> remainingData \<ge> 0 then Abort
         else if rt_footerType t = CHECKSUM_FOOTER \<and> toWrite < 0 then Abort
         else andThen (modify (upd_stats (addDataBytes toWrite))) (\<lambda>_.
              andThen (sendHeartBeat V e) (\<lambda>_.
              andThen (if toWrite > 0 then write_block we bd bs else proceed ()) (\<lambda>_ t1.
                proceed (update_checksum e (rt_footerType t1) bs 0, remainingData - toWrite) (t1\<lparr>rt_off := rt_off t1 + toWrite\<rparr>)))) t)"

text \<open>The loop that receives the rest; \<open>None\<close> is the break. Each turn writes at least one byte, so the fuel
  is the number of bytes missing.\<close>

definition receive_piece :: "'s IServerSocket \<Rightarrow> receiver_env \<Rightarrow> writer_env \<Rightarrow> BlockDetails \<Rightarrow> int \<Rightarrow> (int option, 's) handler" where
  "receive_piece V e we bd checksum =
     andThen (ask_env (re_abort e)) (\<lambda>aborted.
       if aborted then fail_with ABORT FINISH_WITH_ERROR
       else andThen (sendHeartBeat V e) (\<lambda>_.
            andThen (\<lambda>t. readAtMost V e (bd_dataSize bd - fw_totalWritten (rt_writer t)) t) (\<lambda>r.
              case r of
                None \<Rightarrow> proceed None
              | Some data \<Rightarrow>
                  if data = [] then proceed None
                  else andThen (modify (upd_stats (addDataBytes (int (length data))))) (\<lambda>_.
                       andThen (sendHeartBeat V e) (\<lambda>_.
                       andThen (write_block we bd data) (\<lambda>_ t.
                         proceed (Some (update_checksum e (rt_footerType t) data checksum)) t))))))"

fun receive_loop :: "'s IServerSocket \<Rightarrow> receiver_env \<Rightarrow> writer_env \<Rightarrow> BlockDetails \<Rightarrow> nat \<Rightarrow> int \<Rightarrow> (int, 's) handler" where
  "receive_loop V e we bd n checksum t =
     (if fw_totalWritten (rt_writer t) \<ge> bd_dataSize bd then proceed checksum t
      else case n of
             0 \<Rightarrow> Fail
           | Suc n \<Rightarrow>
               andThen (receive_piece V e we bd checksum) (\<lambda>r.
                 case r of None \<Rightarrow> proceed checksum | Some c \<Rightarrow> receive_loop V e we bd n c) t)"

declare receive_loop.simps [simp del]

definition close_block :: "writer_env \<Rightarrow> BlockDetails \<Rightarrow> (unit, 's) handler" where
  "close_block we bd t =
     (let syncCode = writer_sync we (rt_writer t)
      in if syncCode \<noteq> OK then fail_with syncCode SEND_ABORT_CMD t
         else case writer_close we (rt_writer t) of (closeCode, w) \<Rightarrow>
                if closeCode \<noteq> OK then fail_with closeCode SEND_ABORT_CMD (t\<lparr>rt_writer := w\<rparr>)
                else if fw_totalWritten w \<noteq> bd_dataSize bd then fail_with SOCKET_READ_ERROR ACCEPT_WITH_TIMEOUT (t\<lparr>rt_writer := w\<rparr>)
                else proceed () (t\<lparr>rt_writer := w\<rparr>))"

text \<open>\<open>writtenGuard\<close>\<close>

definition written_guard :: "int \<Rightarrow> BlockDetails \<Rightarrow> int \<Rightarrow> 's ReceiverThread \<Rightarrow> 's ReceiverThread" where
  "written_guard encryptionType bd headerBytes t =
     (if encryptionTypeToTagLen encryptionType = 0 \<and> rt_footerType t = NO_FOOTER
      then upd_stats (addEffectiveBytes headerBytes (fw_totalWritten (rt_writer t)))
             (t\<lparr>rt_checkpoint := setLastBlockDetails (bd_seqId bd) (bd_offset bd) (fw_totalWritten (rt_writer t)) (rt_checkpoint t)\<rparr>)
      else t)"

definition receiveBlock :: "'s IServerSocket \<Rightarrow> receiver_env \<Rightarrow> writer_env \<Rightarrow> BlockDetails \<Rightarrow> (int \<times> int, 's) handler" where
  "receiveBlock V e we bd =
     andThen (sendHeartBeat V e) (\<lambda>_.
     andThen (open_block e we bd) (\<lambda>_.
     andThen (write_buffered V e we bd) (\<lambda>(checksum0, remainingData) t.
     andThen (receive_loop V e we bd (nat (bd_dataSize bd - fw_totalWritten (rt_writer t))) checksum0) (\<lambda>checksum.
     andThen (close_block we bd) (\<lambda>_. proceed (checksum, remainingData))) t)))"

text \<open>What is left in the buffer behind the block.\<close>

definition keep_rest :: "int \<Rightarrow> 's ReceiverThread \<Rightarrow> 's ReceiverThread" where
  "keep_rest remainingData t =
     (if remainingData > 0
      then if remainingData < kMaxHeader \<and> rt_off t > rt_bufSize t div 2
           then t\<lparr>rt_numRead := remainingData,
                  rt_buf := write_at 0 (take (nat remainingData) (drop (nat (rt_off t)) (rt_buf t))) (rt_buf t), rt_off := 0\<rparr>
           else t\<lparr>rt_numRead := remainingData\<rparr>
      else t\<lparr>rt_numRead := 0, rt_off := 0\<rparr>)"

definition check_footer :: "'s IServerSocket \<Rightarrow> receiver_env \<Rightarrow> BlockDetails \<Rightarrow> int \<Rightarrow> (unit, 's) handler" where
  "check_footer V e bd checksum =
     andThen (sendHeartBeat V e) (\<lambda>_.
     andThen (modify (\<lambda>t. t\<lparr>rt_oldOffset := rt_off t\<rparr>)) (\<lambda>_.
     andThen (\<lambda>t. fill_buffer V e (rt_off t) kMinBufLength t) (\<lambda>_ t.
       if rt_numRead t < kMinBufLength then fail_with SOCKET_READ_ERROR ACCEPT_WITH_TIMEOUT t
       else andThen next_byte (\<lambda>cmd.
         if cmd \<noteq> cmd_byte FOOTER_CMD then fail_with PROTOCOL_ERROR FINISH_WITH_ERROR
         else andThen (\<lambda>t1. decode_buffer decodeFooter (rt_oldOffset t1 + kMaxFooter) t1) (\<lambda>received.
                case received of
                  None \<Rightarrow> fail_with PROTOCOL_ERROR FINISH_WITH_ERROR
                | Some receivedChecksum \<Rightarrow>
                    if checksum \<noteq> receivedChecksum then fail_with CHECKSUM_MISMATCH ACCEPT_WITH_TIMEOUT
                    else andThen (modify (markBlockVerified e bd)) (\<lambda>_ t2.
                           goto READ_NEXT_CMD (t2\<lparr>rt_numRead := rt_numRead t2 - (rt_off t2 - rt_oldOffset t2)\<rparr>)))) t)))"

definition finish_block :: "'s IServerSocket \<Rightarrow> receiver_env \<Rightarrow> int \<Rightarrow> BlockDetails \<Rightarrow> int \<times> int \<Rightarrow> (unit, 's) handler" where
  "finish_block V e encryptionType bd cr t0 =
     (let t = keep_rest (snd cr) t0
      in if rt_footerType t = CHECKSUM_FOOTER then check_footer V e bd (fst cr) t
         else if encryptionTypeToTagLen encryptionType \<noteq> 0
         then goto READ_NEXT_CMD (t\<lparr>rt_blocksWaitingVerification := rt_blocksWaitingVerification t @ [bd]\<rparr>)
         else goto READ_NEXT_CMD (markBlockVerified e bd t))"

definition count_failure :: "'s ReceiverThread \<Rightarrow> 's ReceiverThread" where
  "count_failure t = (if ts_localErrCode (rt_threadStats t) \<noteq> OK then upd_stats incrFailedAttempts t else t)"

definition processFileCmd :: "'s IServerSocket \<Rightarrow> receiver_env \<Rightarrow> (unit, 's) handler" where
  "processFileCmd V e =
     andThen (first_file_cmd e) (\<lambda>_.
     andThen (modify (\<lambda>t. t\<lparr>rt_checkpoint := resetLastBlockDetails (rt_checkpoint t)\<rparr>)) (\<lambda>_.
     guarded count_failure
       (andThen (readFileHeader V e) (\<lambda>(bd, headerBytes).
        andThen (ask_env (re_writer e)) (\<lambda>(we, calls) t.
          let encryptionType = so_encryptionType V (rt_socket t);
              t1 = t\<lparr>rt_checkpointIndex := rt_pendingCheckpointIndex t,
                     rt_writer := newWriter bd (rv_files (rt_parent t) (bd_fileName bd)) calls\<rparr>
          in andThen (guarded (written_guard encryptionType bd headerBytes) (receiveBlock V e we bd))
               (finish_block V e encryptionType bd) t1)))))"

section \<open>The other commands\<close>

definition processDoneCmd :: "(unit, 's) handler" where
  "processDoneCmd t =
     (if rt_numRead t \<noteq> kMinBufLength then fail_with PROTOCOL_ERROR FINISH_WITH_ERROR t
      else andThen next_byte (\<lambda>senderStatus.
           andThen (\<lambda>t1. decode_buffer (decodeDone (rt_threadProtocolVersion t1) (-1)) (rt_oldOffset t1 + kMaxDone) t1) (\<lambda>r.
             case r of
               None \<Rightarrow> fail_with PROTOCOL_ERROR FINISH_WITH_ERROR
             | Some (numBlocksSend, totalSenderBytes) \<Rightarrow>
                 andThen (modify (upd_stats (\<lambda>s. setRemoteErrorCode (code_of_byte senderStatus)
                                              (setTotalSenderBytes totalSenderBytes (setNumBlocksSend numBlocksSend s))))) (\<lambda>_.
                 andThen (modify (\<lambda>t2. t2\<lparr>rt_checkpointIndex := rt_pendingCheckpointIndex t2\<rparr>)) (\<lambda>_.
                   goto WAIT_FOR_FINISH_OR_NEW_CHECKPOINT)))) t)"

definition processSizeCmd :: "(unit, 's) handler" where
  "processSizeCmd t =
     andThen (decode_buffer decodeSize (rt_oldOffset t + kMaxSize)) (\<lambda>r.
       case r of
         None \<Rightarrow> fail_with PROTOCOL_ERROR FINISH_WITH_ERROR
       | Some totalSenderBytes \<Rightarrow> (\<lambda>t1.
           goto READ_NEXT_CMD (upd_stats (setTotalSenderBytes totalSenderBytes)
             (t1\<lparr>rt_numRead := rt_numRead t1 - (rt_off t1 - rt_oldOffset t1)\<rparr>)))) t"

section \<open>Resumption\<close>

text \<open>A single command byte is put into the buffer and written.\<close>

definition write_cmd :: "'s IServerSocket \<Rightarrow> CMD_MAGIC \<Rightarrow> (bool, 's) handler" where
  "write_cmd V cmd t =
     andThen (write_buffer V 1) (\<lambda>written. proceed (written = 1)) (t\<lparr>rt_buf := (rt_buf t)[0 := cmd_byte cmd]\<rparr>)"

definition kWaitTimeoutFactor :: int where "kWaitTimeoutFactor = 5"

definition others_run :: "receiver_env \<Rightarrow> (unit, 's) handler" where
  "others_run e = andThen (ask_env (re_others e)) (\<lambda>f. modify (upd_parent f))"

definition store_int32 :: "int \<Rightarrow> bytes \<Rightarrow> bytes" where
  "store_int32 v buf = write_at 0 (map (\<lambda>i. word_of_int (v div 2 ^ (8 * i))) [0, 1, 2, 3]) buf"

text \<open>One block of chunk information: the number of entries sent, \<open>None\<close> when the write is short.\<close>

definition send_chunk_batch :: "'s IServerSocket \<Rightarrow> FileChunksInfo list \<Rightarrow> int \<Rightarrow> (int option, 's) handler" where
  "send_chunk_batch V fileChunksInfo numEntriesWritten t =
     (case encodeFileChunksInfoList (rt_bufSize t) numEntriesWritten fileChunksInfo (rt_buf t) 4 of
        (Ok numEntriesEncoded, buf, off) \<Rightarrow>
          andThen (write_buffer V off) (\<lambda>written t1.
            let t2 = (if written > 0 then upd_stats (addHeaderBytes written) t1 else t1)
            in proceed (if written \<noteq> off then None else Some numEntriesEncoded) t2) (t\<lparr>rt_buf := store_int32 (off - 4) buf\<rparr>)
      | _ \<Rightarrow> Abort)"

fun send_chunks_loop :: "'s IServerSocket \<Rightarrow> FileChunksInfo list \<Rightarrow> nat \<Rightarrow> int \<Rightarrow> (int, 's) handler" where
  "send_chunks_loop V fileChunksInfo n numEntriesWritten t =
     (if numEntriesWritten \<ge> int (length fileChunksInfo) then proceed numEntriesWritten t
      else case n of
             0 \<Rightarrow> Fail
           | Suc n \<Rightarrow>
               andThen (send_chunk_batch V fileChunksInfo numEntriesWritten) (\<lambda>r.
                 case r of None \<Rightarrow> proceed numEntriesWritten
                 | Some k \<Rightarrow> send_chunks_loop V fileChunksInfo n (numEntriesWritten + k)) t)"

declare send_chunks_loop.simps [simp del]

definition chunks_failed :: "ErrorCode \<Rightarrow> (unit, 's) handler" where
  "chunks_failed code t = fail_with code ACCEPT_WITH_TIMEOUT (upd_parent (set_funnel (notifyFail FUNNEL_PROGRESS)) t)"

definition send_all_chunks :: "'s IServerSocket \<Rightarrow> receiver_env \<Rightarrow> (unit, 's) handler" where
  "send_all_chunks V e t =
     (let fileChunksInfo = rv_fileChunksInfo (rt_parent t); n = int (length fileChunksInfo)
      in andThen (encode_at (encodeChunksCmd (rt_bufSize t, n)) (rt_bufSize t) 1) (\<lambda>off.
         andThen (write_buffer V off) (\<lambda>written.
         andThen (modify (\<lambda>t1. if written > 0 then upd_stats (addHeaderBytes written) t1 else t1)) (\<lambda>_.
           if written \<noteq> off then chunks_failed SOCKET_READ_ERROR
           else andThen (send_chunks_loop V fileChunksInfo (re_fuel e) 0) (\<lambda>numEntriesWritten.
             if numEntriesWritten \<noteq> n then chunks_failed SOCKET_WRITE_ERROR
             else (\<lambda>t2. outcome_bind (thread_read V e 1 True t2) (\<lambda>(r, t3).
                    case r of
                      Some [b] \<Rightarrow> goto READ_NEXT_CMD (upd_parent (\<lambda>p. set_funnel (notifySuccess FUNNEL_PROGRESS)
                                     (add_log (Log_header (rt_isBlockMode t3) True) p)) (t3\<lparr>rt_buf := (rt_buf t3)[0 := b]\<rparr>))
                    | _ \<Rightarrow> chunks_failed SOCKET_READ_ERROR t3)))))) (t\<lparr>rt_buf := (rt_buf t)[0 := cmd_byte CHUNKS_CMD]\<rparr>))"

fun send_file_chunks_loop :: "'s IServerSocket \<Rightarrow> receiver_env \<Rightarrow> nat \<Rightarrow> (unit, 's) handler" where
  "send_file_chunks_loop V e 0 t = Fail"
| "send_file_chunks_loop V e (Suc n) t =
     andThen chunks_funnel (\<lambda>status.
       case status of
         FUNNEL_END \<Rightarrow>
           andThen (write_cmd V ACK_CMD) (\<lambda>ok.
             if \<not> ok then fail_with SOCKET_WRITE_ERROR ACCEPT_WITH_TIMEOUT
             else (\<lambda>t1. goto READ_NEXT_CMD (upd_stats (addHeaderBytes 1) t1)))
       | FUNNEL_PROGRESS \<Rightarrow>
           andThen (write_cmd V WAIT_CMD) (\<lambda>ok.
             if \<not> ok then fail_with SOCKET_WRITE_ERROR ACCEPT_WITH_TIMEOUT
             else andThen (modify (upd_stats (addHeaderBytes 1))) (\<lambda>_.
                  andThen (others_run e) (\<lambda>_. send_file_chunks_loop V e n)))
       | FUNNEL_START \<Rightarrow> send_all_chunks V e) t"

definition sendFileChunks :: "'s IServerSocket \<Rightarrow> receiver_env \<Rightarrow> (unit, 's) handler" where
  "sendFileChunks V e t =
     (if \<not> rt_senderReadTimeout t > 0 then Abort else send_file_chunks_loop V e (re_fuel e) t)"

section \<open>Checkpoints and the end\<close>

definition store_int16 :: "int \<Rightarrow> nat \<Rightarrow> bytes \<Rightarrow> bytes" where
  "store_int16 v i buf = write_at i [word_of_int v, word_of_int (v div 256)] buf"

definition sendGlobalCheckpoint :: "'s IServerSocket \<Rightarrow> (unit, 's) handler" where
  "sendGlobalCheckpoint V t =
     (let t1 = t\<lparr>rt_buf := (rt_buf t)[0 := cmd_byte ERR_CMD], rt_off := 3\<rparr>
      in andThen (encode_at (encodeCheckpoints (rt_threadProtocolVersion t1) (rt_newCheckpoints t1)) (rt_bufSize t1) 3) (\<lambda>off.
         andThen (modify (\<lambda>t2. t2\<lparr>rt_off := off, rt_buf := store_int16 (off - 3) 1 (rt_buf t2)\<rparr>)) (\<lambda>_.
         andThen (write_buffer V off) (\<lambda>written.
           if written \<noteq> off then fail_with SOCKET_WRITE_ERROR ACCEPT_WITH_TIMEOUT
           else (\<lambda>t3. goto READ_NEXT_CMD
                  ((upd_stats (addHeaderBytes off) t3)
                     \<lparr>rt_pendingCheckpointIndex := rt_checkpointIndex t3 + int (length (rt_newCheckpoints t3)),
                      rt_numRead := 0, rt_off := 0\<rparr>))))) t1)"

definition sendAbortCmd :: "'s IServerSocket \<Rightarrow> (unit, 's) handler" where
  "sendAbortCmd V t =
     andThen (encode_at (encodeAbort (rt_threadProtocolVersion t) (ts_localErrCode (rt_threadStats t)) (ts_numFiles (rt_threadStats t)))
                (rt_bufSize t) 1) (\<lambda>off.
     andThen (write_buffer V off) (\<lambda>_ t1.
       let t2 = upd_stats (addHeaderBytes off) (t1\<lparr>rt_socket := snd (so_closeConnection V (rt_socket t1))\<rparr>)
       in if ts_localErrCode (rt_threadStats t2) = VERSION_MISMATCH then goto ACCEPT_WITH_TIMEOUT t2 else goto FINISH_WITH_ERROR t2))
     (t\<lparr>rt_buf := (rt_buf t)[0 := cmd_byte ABORT_CMD]\<rparr>)"

definition sendDoneCmd :: "'s IServerSocket \<Rightarrow> receiver_env \<Rightarrow> (unit, 's) handler" where
  "sendDoneCmd V e t =
     andThen (write_cmd V DONE_CMD) (\<lambda>ok.
       if \<not> ok then fail_with SOCKET_WRITE_ERROR ACCEPT_WITH_TIMEOUT
       else andThen (modify (upd_stats (addHeaderBytes 1))) (\<lambda>_ t1.
              outcome_bind (thread_read V e 1 True t1) (\<lambda>(r, t2).
                let t3 = (case r of Some [b] \<Rightarrow> t2\<lparr>rt_buf := (rt_buf t2)[0 := b]\<rparr> | _ \<Rightarrow> t2)
                in if r \<noteq> Some [cmd_byte DONE_CMD] then fail_with SOCKET_READ_ERROR ACCEPT_WITH_TIMEOUT t3
                   else case so_expectEndOfStream V (rt_socket t3) of (code, s1) \<Rightarrow>
                          let t4 = t3\<lparr>rt_socket := s1\<rparr>
                          in if code \<noteq> OK then fail_with code ACCEPT_WITH_TIMEOUT t4
                             else let t5 = markReceivedBlocksVerified e t4
                                  in case so_closeConnection V (rt_socket t5) of (code2, s2) \<Rightarrow>
                                       goto END (upd_stats (setLocalErrorCode code2) (t5\<lparr>rt_socket := s2\<rparr>))))) t"

definition addCheckpoint :: "Checkpoint \<Rightarrow> Receiver \<Rightarrow> Receiver" where
  "addCheckpoint c p = p\<lparr>rv_checkpoints := rv_checkpoints p @ [c]\<rparr>"

definition getNewCheckpoints :: "int \<Rightarrow> Receiver \<Rightarrow> Checkpoint list" where
  "getNewCheckpoints startIndex p = drop (nat startIndex) (rv_checkpoints p)"

definition mark_thread :: "ThreadStatus \<Rightarrow> 's ReceiverThread \<Rightarrow> 's ReceiverThread" where
  "mark_thread st t = upd_parent (\<lambda>p. p\<lparr>rv_controller := markState (rt_index t) st (rv_controller p)\<rparr>) t"

definition finishWithError :: "'s IServerSocket \<Rightarrow> (unit, 's) handler" where
  "finishWithError V t =
     (if ts_localErrCode (rt_threadStats t) = OK then Abort
      else let close = (if rv_isJoinable (rt_parent t) then so_closeAllNoCheck V else so_closeNoCheck V);
               t1 = t\<lparr>rt_socket := close (rt_socket t)\<rparr>
           in outcome_bind (getCondition 0 (rv_controller (rt_parent t1))) (\<lambda>_.
                goto END (mark_thread FINISHED (upd_parent (addCheckpoint (rt_checkpoint t1)) t1))))"

definition checkForFinishOrNewCheckpoints :: "'s ReceiverThread \<Rightarrow> ReceiverState \<times> 's ReceiverThread" where
  "checkForFinishOrNewCheckpoints t =
     (let checkpoints = getNewCheckpoints (rt_checkpointIndex t) (rt_parent t)
      in if checkpoints \<noteq> [] then (SEND_GLOBAL_CHECKPOINTS, mark_thread RUNNING (t\<lparr>rt_newCheckpoints := checkpoints\<rparr>))
         else if \<not> hasThreads (Some (rt_index t)) RUNNING (rv_controller (rt_parent t))
         then (SEND_DONE_CMD, mark_thread FINISHED t)
         else (WAIT_FOR_FINISH_OR_NEW_CHECKPOINT, t))"

definition check_finish :: "(unit, 's) handler" where
  "check_finish t =
     (case checkForFinishOrNewCheckpoints t of
        (st, t1) \<Rightarrow> if st \<noteq> WAIT_FOR_FINISH_OR_NEW_CHECKPOINT then goto st t1 else proceed () t1)"

fun wait_loop :: "'s IServerSocket \<Rightarrow> receiver_env \<Rightarrow> nat \<Rightarrow> (unit, 's) handler" where
  "wait_loop V e 0 t = Fail"
| "wait_loop V e (Suc n) t =
     (if \<not> rt_senderReadTimeout t > 0 then Abort
      else andThen check_finish (\<lambda>_.
           andThen (others_run e) (\<lambda>_.
           andThen check_finish (\<lambda>_.
           andThen (write_cmd V WAIT_CMD) (\<lambda>ok.
             if \<not> ok then (\<lambda>t1. fail_with SOCKET_WRITE_ERROR ACCEPT_WITH_TIMEOUT (mark_thread RUNNING t1))
             else andThen (modify (upd_stats (addHeaderBytes 1))) (\<lambda>_.
                  andThen (others_run e) (\<lambda>_. wait_loop V e n)))))) t)"

definition waitForFinishOrNewCheckpoint :: "'s IServerSocket \<Rightarrow> receiver_env \<Rightarrow> (unit, 's) handler" where
  "waitForFinishOrNewCheckpoint V e t =
     (if ts_localErrCode (rt_threadStats t) \<noteq> OK then Abort
      else outcome_bind (getCondition 0 (rv_controller (rt_parent t))) (\<lambda>_. wait_loop V e (re_fuel e) (mark_thread WAITING t)))"

section \<open>The state machine\<close>

fun run_state :: "'s IServerSocket \<Rightarrow> receiver_env \<Rightarrow> ReceiverState \<Rightarrow> (unit, 's) handler" where
  "run_state V e LISTEN = listen V e"
| "run_state V e ACCEPT_FIRST_CONNECTION = acceptFirstConnection V e"
| "run_state V e ACCEPT_WITH_TIMEOUT = acceptWithTimeout V e"
| "run_state V e SEND_LOCAL_CHECKPOINT = sendLocalCheckpoint V"
| "run_state V e READ_NEXT_CMD = readNextCmd V e"
| "run_state V e PROCESS_FILE_CMD = processFileCmd V e"
| "run_state V e PROCESS_SETTINGS_CMD = processSettingsCmd V"
| "run_state V e PROCESS_DONE_CMD = processDoneCmd"
| "run_state V e PROCESS_SIZE_CMD = processSizeCmd"
| "run_state V e SEND_FILE_CHUNKS = sendFileChunks V e"
| "run_state V e SEND_GLOBAL_CHECKPOINTS = sendGlobalCheckpoint V"
| "run_state V e SEND_DONE_CMD = sendDoneCmd V e"
| "run_state V e SEND_ABORT_CMD = sendAbortCmd V"
| "run_state V e WAIT_FOR_FINISH_OR_NEW_CHECKPOINT = waitForFinishOrNewCheckpoint V e"
| "run_state V e FINISH_WITH_ERROR = finishWithError V"
| "run_state V e END = goto END"

text \<open>The loop of \<open>start\<close>.\<close>

fun machine :: "'s IServerSocket \<Rightarrow> receiver_env \<Rightarrow> nat \<Rightarrow> ReceiverState \<Rightarrow> 's ReceiverThread \<Rightarrow> 's ReceiverThread outcome" where
  "machine V e 0 st t = Fail"
| "machine V e (Suc n) st t =
     (let t1 = t\<lparr>rt_tick := Suc (rt_tick t)\<rparr>
      in if re_abort e (rt_tick t) then Ok (upd_stats (setLocalErrorCode ABORT) t1)
         else if st = END then Ok t1
         else outcome_bind (run_state V e st t1) (\<lambda>(r, t2).
                case r of Return st' \<Rightarrow> machine V e n st' t2 | Continue _ \<Rightarrow> Abort))"

definition endCurGlobalSession :: "Receiver \<Rightarrow> Receiver" where
  "endCurGlobalSession p =
     (let p1 = p\<lparr>rv_ended := Suc (rv_ended p)\<rparr>
      in if \<not> rv_hasNewTransferStarted p1 then p1 else p1\<lparr>rv_checkpoints := [], rv_hasNewTransferStarted := False\<rparr>)"

definition end_session :: "'s ReceiverThread \<Rightarrow> 's ReceiverThread outcome" where
  "end_session t =
     (let p = rt_parent t
      in outcome_bind (deRegisterThread (rt_index t) (rv_controller p)) (\<lambda>c.
         outcome_bind (once_execute (tc_execAtEnd c)) (\<lambda>(ran, x).
           let p1 = p\<lparr>rv_controller := c\<lparr>tc_execAtEnd := x\<rparr>\<rparr>
           in Ok (t\<lparr>rt_parent := (if ran then endCurGlobalSession p1 else p1)\<rparr>))))"

definition startThreadMachine :: "'s IServerSocket \<Rightarrow> receiver_env \<Rightarrow> nat \<Rightarrow> 's ReceiverThread \<Rightarrow> 's ReceiverThread outcome" where
  "startThreadMachine V e n t =
     (if rt_buf t = [] then Ok (upd_stats (setLocalErrorCode MEMORY_ALLOCATION_ERROR) t)
      else outcome_bind (machine V e n LISTEN t) end_session)"

end
