(* ===== verification/Server_Socket.thy ===== *)
theory Server_Socket
  imports Wdt_Socket Receiver_Thread
begin

text \<open>
  The listening socket of a receiver thread, \<open>util/ServerSocket.cpp\<close>: finding the addresses and the port
  to listen on, waiting for a connection on several listening descriptors in turn, and the table of
  operations that a receiver thread calls.
\<close>

section \<open>The system\<close>

text \<open>
  The answers of the system, each with the number of the call. \<open>sv_polls\<close> gives for each
  round of a wait the time elapsed, the answer of the abort checker and the end of the poll;
  behind the last round the time is over.
\<close>

record 'c server_env =
  sv_evp :: "'c evp"
  sv_static_ports :: bool
  sv_checkAbort :: bool
  sv_getaddrinfo :: "nat \<Rightarrow> int \<Rightarrow> addr_info list option"
  sv_socket :: "nat \<Rightarrow> int"
  sv_bind :: "nat \<Rightarrow> bool"
  sv_listen :: "nat \<Rightarrow> bool"
  sv_getsockname :: "nat \<Rightarrow> int option"
  sv_polls :: "nat \<Rightarrow> (int \<times> bool \<times> poll_end) list"
  sv_accept :: "nat \<Rightarrow> connection"
  sv_close :: "nat \<Rightarrow> bool"

record 'c ServerSocket =
  ss_socket :: "'c WdtSocket"
  ss_fd :: int
  ss_port :: int
  ss_listeningFds :: "int list"
  ss_lastCheckedPollIndex :: nat
  ss_peerIp :: string
  ss_peerPort :: string
  ss_calls :: nat

definition AF_UNSPEC :: int where "AF_UNSPEC = 0"

definition newServerSocket :: "'c WdtSocket \<Rightarrow> int \<Rightarrow> 'c ServerSocket" where
  "newServerSocket sock port =
     \<lparr>ss_socket = sock\<lparr>sk_supportUnencryptedPeer := True\<rparr>, ss_fd = -1, ss_port = port, ss_listeningFds = [],
      ss_lastCheckedPollIndex = 0, ss_peerIp = [], ss_peerPort = [], ss_calls = 0\<rparr>"

text \<open>The number of the next call.\<close>

definition called :: "'c ServerSocket \<Rightarrow> 'c ServerSocket" where
  "called s = s\<lparr>ss_calls := Suc (ss_calls s)\<rparr>"

section \<open>Listening\<close>

definition listenInternal :: "'c server_env \<Rightarrow> 'c ServerSocket \<Rightarrow> int" where
  "listenInternal ev s =
     (let listeningFd = sv_socket ev (ss_calls s)
      in if listeningFd = -1 then -1
         else if \<not> sv_bind ev (ss_calls s) then -1
         else if \<not> sv_listen ev (ss_calls s) then -1
         else listeningFd)"

text \<open>The port chosen by the system and the addresses for it.\<close>

definition getSelectedPortAndNewAddress :: "'c server_env \<Rightarrow> 'c ServerSocket \<Rightarrow> (int \<times> addr_info list) option" where
  "getSelectedPortAndNewAddress ev s =
     (case sv_getsockname ev (ss_calls s) of
        None \<Rightarrow> None
      | Some port \<Rightarrow>
          (case sv_getaddrinfo ev (ss_calls s) port of
             None \<Rightarrow> None
           | Some infoList \<Rightarrow> if infoList = [] then None else Some (port, infoList)))"

text \<open>
  The loop over the addresses. A port that the system has chosen starts it again with new addresses;
  \<open>restarts\<close> bounds how often.
\<close>

function listen_addrs :: "'c server_env \<Rightarrow> nat \<Rightarrow> int \<Rightarrow> int \<Rightarrow> addr_info list \<Rightarrow> 'c ServerSocket \<Rightarrow> 'c ServerSocket outcome" where
  "listen_addrs ev restarts port addressTypeAlreadyBound [] s = Ok s"
| "listen_addrs ev restarts port addressTypeAlreadyBound (info # infoList) s =
     (if ai_family info = addressTypeAlreadyBound then listen_addrs ev restarts port addressTypeAlreadyBound infoList s
      else if (case ai_nameInfo info of None \<Rightarrow> False | Some (host, p) \<Rightarrow> port \<noteq> p) then Abort
      else let listeningFd = listenInternal ev s; s1 = called s
           in if listeningFd < 0 then listen_addrs ev restarts port addressTypeAlreadyBound infoList s1
              else if port = 0
              then (case getSelectedPortAndNewAddress ev s1 of
                      None \<Rightarrow> listen_addrs ev restarts port addressTypeAlreadyBound infoList (called s1)
                    | Some (selectedPort, newInfoList) \<Rightarrow>
                        if selectedPort < 0 then listen_addrs ev restarts port addressTypeAlreadyBound infoList (called s1)
                        else if restarts = 0 then Fail
                        else listen_addrs ev (restarts - 1) selectedPort (ai_family info) newInfoList
                               ((called s1)\<lparr>ss_port := selectedPort, ss_listeningFds := ss_listeningFds s1 @ [listeningFd]\<rparr>))
              else listen_addrs ev restarts port addressTypeAlreadyBound infoList (s1\<lparr>ss_listeningFds := ss_listeningFds s1 @ [listeningFd]\<rparr>))"
  by pat_completeness auto
termination
  by (relation "(\<lambda>(ev, restarts, port, a, infos, s). restarts) <*mlex*> measure (\<lambda>(ev, restarts, port, a, infos, s). length infos)")
    (auto simp: mlex_less mlex_leq wf_mlex)

text \<open>One restart is enough: a port chosen by the system is not 0.\<close>

definition server_listen :: "'c server_env \<Rightarrow> 'c ServerSocket \<Rightarrow> (ErrorCode \<times> 'c ServerSocket) outcome" where
  "server_listen ev s =
     (if ss_listeningFds s \<noteq> [] then Ok (OK, s)
      else let port = (if \<not> sv_static_ports ev then 0 else ss_port s)
           in case sv_getaddrinfo ev (ss_calls s) port of
                None \<Rightarrow> Ok (CONN_ERROR, called s)
              | Some infoList \<Rightarrow>
                  outcome_bind (listen_addrs ev 1 port AF_UNSPEC infoList (called s)) (\<lambda>s1.
                    Ok (if ss_listeningFds s1 = [] then CONN_ERROR_RETRYABLE else OK, s1)))"

section \<open>Accepting\<close>

text \<open>The wait: the events of the poll, or the error the call ends with.\<close>

fun wait_for_events :: "'c server_env \<Rightarrow> int \<Rightarrow> (int \<times> bool \<times> poll_end) list \<Rightarrow> ErrorCode + bool list" where
  "wait_for_events ev timeoutMillis [] = Inl CONN_ERROR"
| "wait_for_events ev timeoutMillis ((timeElapsed, aborted, poll) # rounds) =
     (if timeElapsed \<ge> timeoutMillis then Inl CONN_ERROR
      else if sv_checkAbort ev \<and> aborted then Inl ABORT
      else case poll of
             Poll_events events \<Rightarrow> Inr events
           | Poll_interrupted \<Rightarrow> wait_for_events ev timeoutMillis rounds
           | Poll_timeout \<Rightarrow> wait_for_events ev timeoutMillis rounds
           | Poll_failed \<Rightarrow> Inl CONN_ERROR)"

definition next_poll_index :: "bool \<Rightarrow> nat \<Rightarrow> nat \<Rightarrow> nat" where
  "next_poll_index tryCurAddressFirst numFds lastCheckedPollIndex =
     (if lastCheckedPollIndex \<ge> numFds then 0
      else if \<not> tryCurAddressFirst then (lastCheckedPollIndex + 1) mod numFds
      else lastCheckedPollIndex)"

text \<open>The accepted connection becomes the one of the socket.\<close>

definition accept_connection :: "connection \<Rightarrow> 'c ServerSocket \<Rightarrow> ErrorCode \<times> 'c ServerSocket" where
  "accept_connection c s =
     (if cn_fd c < 0 then (CONN_ERROR, s)
      else (OK, s\<lparr>ss_peerIp := (case cn_peer c of None \<Rightarrow> ss_peerIp s | Some (ip, port) \<Rightarrow> ip),
                  ss_peerPort := (case cn_peer c of None \<Rightarrow> ss_peerPort s | Some (ip, port) \<Rightarrow> port),
                  ss_fd := cn_fd c,
                  ss_socket := (ss_socket s)\<lparr>sk_in := cn_in c, sk_reads := cn_reads c, sk_out := [], sk_writes := cn_writes c\<rparr>\<rparr>))"

fun accept_ready :: "'c server_env \<Rightarrow> bool list \<Rightarrow> nat \<Rightarrow> 'c ServerSocket \<Rightarrow> ErrorCode \<times> 'c ServerSocket" where
  "accept_ready ev events 0 s = (CONN_ERROR, s)"
| "accept_ready ev events (Suc left) s =
     (if events ! ss_lastCheckedPollIndex s then accept_connection (sv_accept ev (ss_calls s)) (called s)
      else accept_ready ev events left
             (s\<lparr>ss_lastCheckedPollIndex := (ss_lastCheckedPollIndex s + 1) mod length (ss_listeningFds s)\<rparr>))"

definition acceptNextConnection :: "'c server_env \<Rightarrow> int \<Rightarrow> bool \<Rightarrow> 'c ServerSocket \<Rightarrow> (ErrorCode \<times> 'c ServerSocket) outcome" where
  "acceptNextConnection ev timeoutMillis tryCurAddressFirst s =
     outcome_bind (server_listen ev s) (\<lambda>(code, s1).
       if code \<noteq> OK then Ok (code, s1)
       else if ss_listeningFds s1 = [] \<or> \<not> (timeoutMillis > 0) then Abort
       else let numFds = length (ss_listeningFds s1); s2 = called s1
            in case wait_for_events ev timeoutMillis (sv_polls ev (ss_calls s1)) of
                 Inl code2 \<Rightarrow> Ok (code2, s2)
               | Inr events \<Rightarrow>
                   Ok (accept_ready ev events numFds
                         (s2\<lparr>ss_lastCheckedPollIndex := next_poll_index tryCurAddressFirst numFds (ss_lastCheckedPollIndex s2)\<rparr>)))"

section \<open>The table of operations\<close>

text \<open>Closing does nothing without a connection.\<close>

definition server_close :: "'c server_env \<Rightarrow> bool \<Rightarrow> 'c ServerSocket \<Rightarrow> ErrorCode \<times> 'c ServerSocket" where
  "server_close ev doTagIOs s =
     (if ss_fd s < 0 then (OK, s)
      else case closeConnectionInternal (sv_evp ev) doTagIOs (sv_close ev (ss_calls s)) (ss_socket s) of
             (code, sock) \<Rightarrow> (code, (called s)\<lparr>ss_socket := sock, ss_fd := -1\<rparr>))"

definition server_closeAllNoCheck :: "'c server_env \<Rightarrow> 'c ServerSocket \<Rightarrow> 'c ServerSocket" where
  "server_closeAllNoCheck ev s = (snd (server_close ev False s))\<lparr>ss_listeningFds := []\<rparr>"

definition on_socket :: "('a, 'c) sock_op \<Rightarrow> 'c ServerSocket \<Rightarrow> ('a \<times> 'c ServerSocket) outcome" where
  "on_socket f s = outcome_bind (f (ss_socket s)) (\<lambda>(x, sock). Ok (x, s\<lparr>ss_socket := sock\<rparr>))"

definition server_read :: "'c server_env \<Rightarrow> nat \<Rightarrow> bool \<Rightarrow> 'c ServerSocket \<Rightarrow> (bytes option \<times> 'c ServerSocket) outcome" where
  "server_read ev n tryFull s =
     outcome_bind (on_socket (readWithTimeout (sv_evp ev) (int n) tryFull) s) (\<lambda>((ret, data), s1).
       Ok (if ret < 0 then None else Some data, s1))"

definition server_ops :: "'c server_env \<Rightarrow> 'c ServerSocket IServerSocket" where
  "server_ops ev =
     \<lparr>so_listen = server_listen ev, so_acceptNextConnection = acceptNextConnection ev, so_read = server_read ev,
      so_write = (\<lambda>bs. on_socket (sock_write (sv_evp ev) bs False)),
      so_expectEndOfStream = (\<lambda>s. case expectEndOfStream (sv_evp ev) (ss_socket s) of (code, sock) \<Rightarrow> (code, s\<lparr>ss_socket := sock\<rparr>)),
      so_closeConnection = server_close ev True, so_closeNoCheck = (\<lambda>s. snd (server_close ev False s)),
      so_closeAllNoCheck = server_closeAllNoCheck ev, so_nonRetryableErrCode = (\<lambda>s. getNonRetryableErrCode (ss_socket s)),
      so_encryptionType = (\<lambda>s. ep_type (sk_params (ss_socket s))),
      so_disableIvChange = (\<lambda>s. s\<lparr>ss_socket := (ss_socket s)\<lparr>sk_ivChangeInterval := 0\<rparr>\<rparr>),
      so_port = ss_port, so_peerIp = ss_peerIp, so_verified = (\<lambda>s. sk_verified (ss_socket s))\<rparr>"

end
