(* ===== verification/Receiver_Input.thy ===== *)
theory Receiver_Input
  imports Receiver_Thread
begin

text \<open>
  How a receiver thread sees its input: the bytes in the buffer followed by the bytes that are
  still to come on the connection. The contract of a connection is a locale, and reading at least,
  reading at most and heart beats are shown to consume exactly a prefix of the input.
\<close>

section \<open>Received blocks\<close>

text \<open>The log entries of a block, and all entries of verified and waiting blocks.\<close>

definition entry :: "receiver_env \<Rightarrow> BlockDetails \<Rightarrow> receiver_log list" where
  "entry e bd =
     (if \<not> ro_isLogBasedResumption (re_options e) then []
      else if bd_allocationStatus bd = TO_BE_DELETED then [Invalidation (bd_seqId bd)]
      else [Block_write (bd_seqId bd) (bd_offset bd) (bd_dataSize bd)])"

definition account :: "receiver_env \<Rightarrow> 's ReceiverThread \<Rightarrow> receiver_log list" where
  "account e t = rv_log (rt_parent t) @ concat (map (entry e) (rt_blocksWaitingVerification t))"

definition numReceived :: "'s ReceiverThread \<Rightarrow> int" where
  "numReceived t = ts_numBlocks (rt_threadStats t) + int (length (rt_blocksWaitingVerification t))"

definition numAcked :: "'s ReceiverThread \<Rightarrow> int" where
  "numAcked t = cp_numBlocks (rt_checkpoint t) + int (length (rt_blocksWaitingVerification t))"

text \<open>
  Reading and heart beats change the socket, the buffer and the counter of questions, and move
  waiting blocks to the verified ones; nothing else.
\<close>

definition quiet :: "receiver_env \<Rightarrow> 's ReceiverThread \<Rightarrow> 's ReceiverThread \<Rightarrow> bool" where
  "quiet e t t' \<longleftrightarrow>
     rt_numRead t' = rt_numRead t \<and> rt_off t' = rt_off t \<and> rt_oldOffset t' = rt_oldOffset t \<and>
     rt_footerType t' = rt_footerType t \<and> rt_threadProtocolVersion t' = rt_threadProtocolVersion t \<and>
     rt_writer t' = rt_writer t \<and> rt_enableHeartBeat t' = rt_enableHeartBeat t \<and> rt_isBlockMode t' = rt_isBlockMode t \<and>
     rt_senderReadTimeout t' = rt_senderReadTimeout t \<and> rt_senderWriteTimeout t' = rt_senderWriteTimeout t \<and>
     rt_index t' = rt_index t \<and> rt_checkpointIndex t' = rt_checkpointIndex t \<and>
     rt_pendingCheckpointIndex t' = rt_pendingCheckpointIndex t \<and> rt_curConnectionVerified t' = rt_curConnectionVerified t \<and>
     rt_newCheckpoints t' = rt_newCheckpoints t \<and> rt_parent t' = (rt_parent t)\<lparr>rv_log := rv_log (rt_parent t')\<rparr> \<and>
     length (rt_buf t') = length (rt_buf t) \<and> ts_localErrCode (rt_threadStats t') = ts_localErrCode (rt_threadStats t) \<and>
     account e t' = account e t \<and> numReceived t' = numReceived t \<and> numAcked t' = numAcked t"

lemma log_id [simp]: "p\<lparr>rv_log := rv_log p\<rparr> = p"
  by (cases p) simp

lemma quiet_refl [simp]: "quiet e t t"
  by (simp add: quiet_def)

lemma quiet_trans: "quiet e t t' \<Longrightarrow> quiet e t' t'' \<Longrightarrow> quiet e t t''"
proof -
  assume q: "quiet e t t'" "quiet e t' t''"
  have p: "rt_parent t' = (rt_parent t)\<lparr>rv_log := rv_log (rt_parent t')\<rparr>" "rt_parent t'' = (rt_parent t')\<lparr>rv_log := rv_log (rt_parent t'')\<rparr>"
    using q by (simp_all add: quiet_def)
  have "(rt_parent t')\<lparr>rv_log := x\<rparr> = (rt_parent t)\<lparr>rv_log := x\<rparr>" for x by (subst p(1)) simp
  then have "rt_parent t'' = (rt_parent t)\<lparr>rv_log := rv_log (rt_parent t'')\<rparr>" using p(2) by simp
  then show ?thesis using q by (simp add: quiet_def)
qed

lemma quiet_files:
  assumes "quiet e t t'"
  shows "rv_files (rt_parent t') = rv_files (rt_parent t)" "rv_controller (rt_parent t') = rv_controller (rt_parent t)"
    "rv_checkpoints (rt_parent t') = rv_checkpoints (rt_parent t)" "rv_transferId (rt_parent t') = rv_transferId (rt_parent t)"
proof -
  have p: "rt_parent t' = (rt_parent t)\<lparr>rv_log := rv_log (rt_parent t')\<rparr>" using assms by (simp add: quiet_def)
  show "rv_files (rt_parent t') = rv_files (rt_parent t)" "rv_controller (rt_parent t') = rv_controller (rt_parent t)"
    "rv_checkpoints (rt_parent t') = rv_checkpoints (rt_parent t)" "rv_transferId (rt_parent t') = rv_transferId (rt_parent t)"
    by (subst p, simp)+
qed

lemma quietD:
  assumes "quiet e t t'"
  shows "rt_numRead t' = rt_numRead t" "rt_off t' = rt_off t" "rt_oldOffset t' = rt_oldOffset t"
    "rt_footerType t' = rt_footerType t" "rt_threadProtocolVersion t' = rt_threadProtocolVersion t" "rt_writer t' = rt_writer t"
    "rt_enableHeartBeat t' = rt_enableHeartBeat t" "rt_senderReadTimeout t' = rt_senderReadTimeout t" "rt_index t' = rt_index t"
    "rt_checkpointIndex t' = rt_checkpointIndex t" "rt_pendingCheckpointIndex t' = rt_pendingCheckpointIndex t"
    "length (rt_buf t') = length (rt_buf t)" "ts_localErrCode (rt_threadStats t') = ts_localErrCode (rt_threadStats t)"
    "account e t' = account e t" "numReceived t' = numReceived t" "numAcked t' = numAcked t"
  using assms by (simp_all add: quiet_def)

lemma quiet_socket: "quiet e t (t\<lparr>rt_socket := s\<rparr>)"
  by (simp add: quiet_def account_def numReceived_def numAcked_def)

lemma quiet_buf: "length b = length (rt_buf t) \<Longrightarrow> quiet e t (t\<lparr>rt_buf := b\<rparr>)"
  by (simp add: quiet_def account_def numReceived_def numAcked_def)

lemma quiet_tick: "quiet e t (t\<lparr>rt_tick := k\<rparr>)"
  by (simp add: quiet_def account_def numReceived_def numAcked_def)

lemma markBlockVerified_keeps:
  "markBlockVerified e bd t = t\<lparr>rt_threadStats := incrStatsBlocks (addEffectiveBytes 0 (bd_dataSize bd) (rt_threadStats t)),
     rt_checkpoint := incrNumBlocks (rt_checkpoint t), rt_parent := (rt_parent t)\<lparr>rv_log := rv_log (rt_parent t) @ entry e bd\<rparr>\<rparr>"
  by (simp add: markBlockVerified_def Let_def upd_stats_def upd_parent_def add_log_def entry_def)

definition verified_from :: "receiver_env \<Rightarrow> BlockDetails list \<Rightarrow> 's ReceiverThread \<Rightarrow> 's ReceiverThread \<Rightarrow> bool" where
  "verified_from e bds t t' \<longleftrightarrow>
     t' = t\<lparr>rt_threadStats := rt_threadStats t', rt_checkpoint := rt_checkpoint t',
            rt_parent := (rt_parent t)\<lparr>rv_log := rv_log (rt_parent t) @ concat (map (entry e) bds)\<rparr>\<rparr> \<and>
     ts_localErrCode (rt_threadStats t') = ts_localErrCode (rt_threadStats t) \<and>
     ts_numBlocks (rt_threadStats t') = ts_numBlocks (rt_threadStats t) + int (length bds) \<and>
     cp_numBlocks (rt_checkpoint t') = cp_numBlocks (rt_checkpoint t) + int (length bds)"

lemma fold_markBlockVerified: "verified_from e bds t (fold (markBlockVerified e) bds t)"
proof (induction bds arbitrary: t)
  case Nil
  show ?case by (simp add: verified_from_def)
next
  case (Cons bd bds)
  let ?t = "markBlockVerified e bd t"
  have v: "verified_from e bds ?t (fold (markBlockVerified e) bds ?t)" by (rule Cons.IH)
  have s: "ts_localErrCode (rt_threadStats ?t) = ts_localErrCode (rt_threadStats t)"
    "ts_numBlocks (rt_threadStats ?t) = ts_numBlocks (rt_threadStats t) + 1" "cp_numBlocks (rt_checkpoint ?t) = cp_numBlocks (rt_checkpoint t) + 1"
    by (simp_all add: markBlockVerified_keeps stats_defs incrNumBlocks_def)
  have "fold (markBlockVerified e) bds ?t = t\<lparr>rt_threadStats := rt_threadStats (fold (markBlockVerified e) bds ?t),
      rt_checkpoint := rt_checkpoint (fold (markBlockVerified e) bds ?t),
      rt_parent := (rt_parent t)\<lparr>rv_log := rv_log (rt_parent t) @ concat (map (entry e) (bd # bds))\<rparr>\<rparr>"
    using v unfolding verified_from_def by (subst (asm) markBlockVerified_keeps) (simp add: markBlockVerified_keeps)
  then show ?case using v s by (simp add: verified_from_def)
qed

lemma markReceivedBlocksVerified_quiet:
  "quiet e t (markReceivedBlocksVerified e t)" "rt_socket (markReceivedBlocksVerified e t) = rt_socket t"
  "rt_buf (markReceivedBlocksVerified e t) = rt_buf t"
proof -
  let ?f = "fold (markBlockVerified e) (rt_blocksWaitingVerification t) t"
  have v: "verified_from e (rt_blocksWaitingVerification t) t ?f" by (rule fold_markBlockVerified)
  then obtain st cp where f: "?f = t\<lparr>rt_threadStats := st, rt_checkpoint := cp,
       rt_parent := (rt_parent t)\<lparr>rv_log := rv_log (rt_parent t) @ concat (map (entry e) (rt_blocksWaitingVerification t))\<rparr>\<rparr>"
    unfolding verified_from_def by blast
  have n: "ts_localErrCode st = ts_localErrCode (rt_threadStats t)"
    "ts_numBlocks st = ts_numBlocks (rt_threadStats t) + int (length (rt_blocksWaitingVerification t))"
    "cp_numBlocks cp = cp_numBlocks (rt_checkpoint t) + int (length (rt_blocksWaitingVerification t))"
    using v unfolding f verified_from_def by simp_all
  show "quiet e t (markReceivedBlocksVerified e t)" "rt_socket (markReceivedBlocksVerified e t) = rt_socket t"
    "rt_buf (markReceivedBlocksVerified e t) = rt_buf t"
    using n by (simp_all add: markReceivedBlocksVerified_def f quiet_def account_def numReceived_def numAcked_def)
qed

section \<open>Windows\<close>

definition window :: "bytes \<Rightarrow> int \<Rightarrow> int \<Rightarrow> bytes" where
  "window buf b n = take (nat n) (drop (nat b) buf)"

lemma length_window: "0 \<le> b \<Longrightarrow> 0 \<le> n \<Longrightarrow> b + n \<le> int (length buf) \<Longrightarrow> length (window buf b n) = nat n"
  by (simp add: window_def)

lemma window_write:
  assumes "0 \<le> b" "0 \<le> n" "b + n + int (length data) \<le> int (length buf)"
  shows "window (write_at (nat (b + n)) data buf) b (n + int (length data)) = window buf b n @ data"
proof -
  have n: "nat (b + n) = nat b + nat n" "nat (n + int (length data)) = nat n + length data" using assms by (simp_all add: nat_add_distrib)
  have len: "nat b + nat n + length data \<le> length buf" using assms by simp
  show ?thesis unfolding window_def write_at_def n using len by (simp add: take_drop add.commute)
qed

section \<open>Connections\<close>

locale byte_stream =
  fixes V :: "'s IServerSocket" and N :: nat and incoming :: "'s \<Rightarrow> bytes \<Rightarrow> bool"
  assumes read_some: "incoming s p \<Longrightarrow> p \<noteq> [] \<Longrightarrow> 0 < n \<Longrightarrow> n \<le> N \<Longrightarrow>
      \<exists>k s'. so_read V n False s = Ok (Some (take k p), s') \<and> 0 < k \<and> k \<le> n \<and> k \<le> length p \<and> incoming s' (drop k p)"
    and write_some: "incoming s p \<Longrightarrow> bs \<noteq> [] \<Longrightarrow> \<exists>w s'. so_write V bs s = Ok (w, s') \<and> incoming s' p"
begin

lemma thread_read_some:
  assumes "incoming (rt_socket t) p" "p \<noteq> []" "0 < n" "n \<le> N"
  shows "\<exists>k t'. thread_read V e n False t = Ok (Some (take k p), t') \<and> 0 < k \<and> k \<le> n \<and> k \<le> length p \<and>
    incoming (rt_socket t') (drop k p) \<and> quiet e t t' \<and> rt_buf t' = rt_buf t"
proof -
  obtain k s' where r: "so_read V n False (rt_socket t) = Ok (Some (take k p), s')" "0 < k" "k \<le> n" "k \<le> length p" "incoming s' (drop k p)"
    using read_some [OF assms] by blast
  let ?t = "t\<lparr>rt_socket := s'\<rparr>"
  have q: "quiet e t ?t" by (rule quiet_socket)
  note m = markReceivedBlocksVerified_quiet [of e ?t]
  show ?thesis
  proof (cases "so_verified V s' = so_verified V (rt_socket t)")
    case True
    then show ?thesis using r q by (auto simp: thread_read_def)
  next
    case False
    then show ?thesis using r quiet_trans [OF q m(1)] m(2,3) by (auto simp: thread_read_def)
  qed
qed

lemma heart_beat:
  assumes "incoming (rt_socket t) p"
  shows "\<exists>t'. sendHeartBeat V e t = Ok (Continue (), t') \<and> incoming (rt_socket t') p \<and> quiet e t t' \<and> rt_buf t' = rt_buf t"
proof -
  obtain w s' where w: "so_write V [cmd_byte HEART_BEAT_CMD] (rt_socket t) = Ok (w, s')" "incoming s' p"
    using write_some [OF assms] by blast
  have q: "quiet e t (t\<lparr>rt_tick := k\<rparr>)" "quiet e t (t\<lparr>rt_tick := k, rt_socket := s'\<rparr>)" for k
    by (rule quiet_tick, rule quiet_trans [OF quiet_tick quiet_socket])
  show ?thesis using assms w q
    by (simp add: sendHeartBeat_def proceed_def andThen_def ask_env_def thread_write_def)
qed

lemma read_at_least_loop_input:
  assumes "0 \<le> base" "0 \<le> len" "base + mx \<le> rt_bufSize t" "len \<le> mx" "mx \<le> int N" "least \<le> mx"
    and "incoming (rt_socket t) q" "least \<le> len + int (length q)"
  shows "\<exists>k t'. read_at_least_loop V e base mx least len t = Ok (len + int k, t') \<and> least \<le> len + int k \<and> len + int k \<le> mx \<and>
    k \<le> length q \<and> incoming (rt_socket t') (drop k q) \<and> quiet e t t' \<and>
    window (rt_buf t') base (len + int k) = window (rt_buf t) base len @ take k q"
  using assms
proof (induction "nat (least - len)" arbitrary: len t q rule: less_induct)
  case less
  show ?case
  proof (cases "len \<ge> least")
    case True
    then show ?thesis using less.prems by (intro exI [of _ 0] exI [of _ t]) (simp add: read_at_least_loop.simps)
  next
    case False
    then have "q \<noteq> []" "0 < nat (mx - len)" "nat (mx - len) \<le> N" using less.prems by auto
    from thread_read_some [OF less.prems(7) this, of e] obtain k t1 where
      r: "thread_read V e (nat (mx - len)) False t = Ok (Some (take k q), t1)" "0 < k" "k \<le> nat (mx - len)" "k \<le> length q"
      "incoming (rt_socket t1) (drop k q)" "quiet e t t1" "rt_buf t1 = rt_buf t" by blast
    let ?t2 = "t1\<lparr>rt_buf := write_at (nat (base + len)) (take k q) (rt_buf t1)\<rparr>"
    have fits: "nat (base + len) + length (take k q) \<le> length (rt_buf t)" using r(3,4) less.prems by simp
    have w: "window (rt_buf ?t2) base (len + int k) = window (rt_buf t) base len @ take k q"
      using window_write [of base len "take k q" "rt_buf t"] less.prems r(3,4,7) by simp
    have q2: "quiet e t ?t2" by (rule quiet_trans [OF r(6) quiet_buf]) (use fits r(7) in simp)
    have "\<exists>j t'. read_at_least_loop V e base mx least (len + int k) ?t2 = Ok (len + int k + int j, t') \<and>
        least \<le> len + int k + int j \<and> len + int k + int j \<le> mx \<and> j \<le> length (drop k q) \<and>
        incoming (rt_socket t') (drop j (drop k q)) \<and> quiet e ?t2 t' \<and>
        window (rt_buf t') base (len + int k + int j) = window (rt_buf ?t2) base (len + int k) @ take j (drop k q)"
      using less.hyps [of "len + int k" ?t2 "drop k q"] less.prems r fits False by simp
    then obtain j t' where j: "read_at_least_loop V e base mx least (len + int k) ?t2 = Ok (len + int k + int j, t')"
      "least \<le> len + int k + int j" "len + int k + int j \<le> mx" "j \<le> length (drop k q)"
      "incoming (rt_socket t') (drop j (drop k q))" "quiet e ?t2 t'"
      "window (rt_buf t') base (len + int k + int j) = window (rt_buf ?t2) base (len + int k) @ take j (drop k q)" by blast
    have "read_at_least_loop V e base mx least len t = Ok (len + int (k + j), t')"
      using False r(1,2,4) j(1) \<open>q \<noteq> []\<close> by (subst read_at_least_loop.simps) (simp add: ac_simps)
    moreover have "window (rt_buf t') base (len + int (k + j)) = window (rt_buf t) base len @ take (k + j) q"
      using j(7) w by (simp add: take_add add.assoc)
    moreover have "incoming (rt_socket t') (drop (k + j) q)" using j(5) by (simp add: add.commute)
    ultimately show ?thesis using j(2-4) r(4) quiet_trans [OF q2 j(6)]
      by (intro exI [of _ "k + j"] exI [of _ t']) (simp add: add.assoc)
  qed
qed

end

end
