(* ===== verification/Receiver_Blocks.thy ===== *)
theory Receiver_Blocks
  imports Receiver_Input Wire_Messages "HOL-Library.Multiset"
begin

text \<open>
  Receiving blocks: from a command boundary of the input the thread reads a file command, writes
  exactly the block's data into the file and comes back to the next command boundary, however the
  connection splits the bytes.
\<close>

section \<open>Positions in the input\<close>

text \<open>What a command does not touch, besides the cursor, the writer and the files.\<close>

definition same_run :: "'s ReceiverThread \<Rightarrow> 's ReceiverThread \<Rightarrow> bool" where
  "same_run t t' \<longleftrightarrow>
     rt_footerType t' = rt_footerType t \<and> rt_threadProtocolVersion t' = rt_threadProtocolVersion t \<and>
     rt_enableHeartBeat t' = rt_enableHeartBeat t \<and> rt_isBlockMode t' = rt_isBlockMode t \<and>
     rt_senderReadTimeout t' = rt_senderReadTimeout t \<and> rt_senderWriteTimeout t' = rt_senderWriteTimeout t \<and>
     rt_index t' = rt_index t \<and> rt_pendingCheckpointIndex t' = rt_pendingCheckpointIndex t \<and>
     rt_curConnectionVerified t' = rt_curConnectionVerified t \<and> rt_newCheckpoints t' = rt_newCheckpoints t \<and>
     rt_parent t' = (rt_parent t)\<lparr>rv_log := rv_log (rt_parent t'), rv_files := rv_files (rt_parent t')\<rparr> \<and>
     length (rt_buf t') = length (rt_buf t) \<and> ts_localErrCode (rt_threadStats t') = ts_localErrCode (rt_threadStats t)"

definition steady :: "receiver_env \<Rightarrow> 's ReceiverThread \<Rightarrow> 's ReceiverThread \<Rightarrow> bool" where
  "steady e t t' \<longleftrightarrow> same_run t t' \<and> account e t' = account e t \<and> numReceived t' = numReceived t \<and> numAcked t' = numAcked t"

text \<open>The blocks \<open>bds\<close> have been received in between.\<close>

definition received :: "receiver_env \<Rightarrow> BlockDetails list \<Rightarrow> 's ReceiverThread \<Rightarrow> 's ReceiverThread \<Rightarrow> bool" where
  "received e bds t t' \<longleftrightarrow> same_run t t' \<and> mset (account e t') = mset (account e t) + mset (concat (map (entry e) bds)) \<and>
     numReceived t' = numReceived t + int (length bds) \<and> numAcked t' = numAcked t + int (length bds)"

lemma parent_id [simp]: "p\<lparr>rv_log := rv_log p, rv_files := rv_files p\<rparr> = p"
  by (cases p) simp

lemma steady_refl [simp]: "steady e t t"
  by (simp add: steady_def same_run_def)

lemma same_run_trans: "same_run t t' \<Longrightarrow> same_run t' t'' \<Longrightarrow> same_run t t''"
proof -
  assume q: "same_run t t'" "same_run t' t''"
  have p: "rt_parent t' = (rt_parent t)\<lparr>rv_log := rv_log (rt_parent t'), rv_files := rv_files (rt_parent t')\<rparr>"
    "rt_parent t'' = (rt_parent t')\<lparr>rv_log := rv_log (rt_parent t''), rv_files := rv_files (rt_parent t'')\<rparr>"
    using q by (simp_all add: same_run_def)
  have "(rt_parent t')\<lparr>rv_log := x, rv_files := y\<rparr> = (rt_parent t)\<lparr>rv_log := x, rv_files := y\<rparr>" for x y by (subst p(1)) simp
  then have "rt_parent t'' = (rt_parent t)\<lparr>rv_log := rv_log (rt_parent t''), rv_files := rv_files (rt_parent t'')\<rparr>" using p(2) by simp
  then show ?thesis using q by (simp add: same_run_def)
qed

lemma same_run_controller: "same_run t t' \<Longrightarrow> rv_controller (rt_parent t') = rv_controller (rt_parent t)"
proof -
  assume "same_run t t'"
  then have p: "rt_parent t' = (rt_parent t)\<lparr>rv_log := rv_log (rt_parent t'), rv_files := rv_files (rt_parent t')\<rparr>" by (simp add: same_run_def)
  show ?thesis by (subst p) simp
qed

lemma steady_trans: "steady e t t' \<Longrightarrow> steady e t' t'' \<Longrightarrow> steady e t t''"
  using same_run_trans [of t t' t''] by (simp add: steady_def)

lemma received_trans: "received e bds t t' \<Longrightarrow> received e cds t' t'' \<Longrightarrow> received e (bds @ cds) t t''"
  using same_run_trans [of t t' t''] by (simp add: received_def)

lemma steady_received: "steady e t t' \<Longrightarrow> received e [] t t'"
  by (simp add: steady_def received_def)

lemma received_steady: "steady e t t' \<Longrightarrow> received e bds t' t'' \<Longrightarrow> received e bds t t''"
  "received e bds t t' \<Longrightarrow> steady e t' t'' \<Longrightarrow> received e bds t t''"
  using received_trans [OF steady_received] received_trans [OF _ steady_received] by (fastforce, fastforce)

lemma quiet_steady: "quiet e t t' \<Longrightarrow> steady e t t'"
proof -
  assume q: "quiet e t t'"
  have p: "rt_parent t' = (rt_parent t)\<lparr>rv_log := rv_log (rt_parent t')\<rparr>" using q by (simp add: quiet_def)
  have "rt_parent t' = (rt_parent t)\<lparr>rv_log := rv_log (rt_parent t'), rv_files := rv_files (rt_parent t)\<rparr>"
    by (subst p) (cases "rt_parent t", simp)
  then show ?thesis using q quiet_files(1) [OF q] by (simp add: steady_def same_run_def quiet_def)
qed

lemma steady_stats:
  "ts_localErrCode (f (rt_threadStats t)) = ts_localErrCode (rt_threadStats t) \<Longrightarrow>
   ts_numBlocks (f (rt_threadStats t)) = ts_numBlocks (rt_threadStats t) \<Longrightarrow> steady e t (upd_stats f t)"
  by (simp add: steady_def same_run_def upd_stats_def account_def numReceived_def numAcked_def)

lemma steady_cursor: "steady e t (t\<lparr>rt_off := a\<rparr>)" "steady e t (t\<lparr>rt_oldOffset := a\<rparr>)" "steady e t (t\<lparr>rt_numRead := a\<rparr>)"
  "steady e t (t\<lparr>rt_writer := w\<rparr>)" "steady e t (t\<lparr>rt_checkpointIndex := a\<rparr>)" "steady e t (store_writer bd w t)"
  by (simp_all add: steady_def same_run_def account_def numReceived_def numAcked_def store_writer_def upd_parent_def)

definition at_cmd :: "('s \<Rightarrow> bytes \<Rightarrow> bool) \<Rightarrow> 's ReceiverThread \<Rightarrow> bytes \<Rightarrow> bool" where
  "at_cmd incoming t p \<longleftrightarrow>
     0 \<le> rt_off t \<and> 0 \<le> rt_numRead t \<and> rt_off t + rt_numRead t \<le> rt_bufSize t \<and>
     (\<exists>q. incoming (rt_socket t) q \<and> p = window (rt_buf t) (rt_off t) (rt_numRead t) @ q)"

text \<open>Inside a command: \<open>c\<close> has been parsed, \<open>a\<close> is behind it in the buffer, \<open>q\<close> is still to come.\<close>

definition in_cmd :: "('s \<Rightarrow> bytes \<Rightarrow> bool) \<Rightarrow> 's ReceiverThread \<Rightarrow> bytes \<Rightarrow> bytes \<Rightarrow> bytes \<Rightarrow> bool" where
  "in_cmd incoming t c a q \<longleftrightarrow>
     0 \<le> rt_oldOffset t \<and> 0 \<le> rt_numRead t \<and> rt_oldOffset t + rt_numRead t \<le> rt_bufSize t \<and>
     window (rt_buf t) (rt_oldOffset t) (rt_numRead t) = c @ a \<and> rt_off t = rt_oldOffset t + int (length c) \<and>
     incoming (rt_socket t) q"

lemma in_cmd_numRead: "in_cmd incoming t c a q \<Longrightarrow> rt_numRead t = int (length c + length a)"
proof -
  assume i: "in_cmd incoming t c a q"
  then have "length (c @ a) = nat (rt_numRead t)" using length_window [of "rt_oldOffset t" "rt_numRead t" "rt_buf t"] by (simp add: in_cmd_def)
  then show ?thesis using i by (simp add: in_cmd_def)
qed

lemma in_cmd_buffer:
  assumes "in_cmd incoming t c a q"
  shows "drop (nat (rt_off t)) (rt_buf t) = a @ drop (nat (rt_oldOffset t + rt_numRead t)) (rt_buf t)"
proof -
  let ?b = "nat (rt_oldOffset t)" let ?n = "nat (rt_numRead t)"
  have i: "take ?n (drop ?b (rt_buf t)) = c @ a" "nat (rt_off t) = ?b + length c" "nat (rt_oldOffset t + rt_numRead t) = ?b + ?n"
    using assms by (auto simp: in_cmd_def window_def nat_add_distrib)
  have "drop ?b (rt_buf t) = (c @ a) @ drop ?n (drop ?b (rt_buf t))" using i(1) append_take_drop_id [of ?n "drop ?b (rt_buf t)"] by simp
  then have "drop (length c) (drop ?b (rt_buf t)) = drop (length c) ((c @ a) @ drop ?n (drop ?b (rt_buf t)))" by (rule arg_cong)
  also have "\<dots> = a @ drop ?n (drop ?b (rt_buf t))" by simp
  finally show ?thesis unfolding i(2,3) by (simp add: add.commute)
qed

lemma in_cmd_byte:
  assumes "in_cmd incoming t c (b # a) q"
  shows "rt_buf t ! nat (rt_off t) = b" "in_cmd incoming (t\<lparr>rt_off := rt_off t + 1\<rparr>) (c @ [b]) a q" "nat (rt_off t) < length (rt_buf t)"
proof -
  note d = in_cmd_buffer [OF assms]
  then have "drop (nat (rt_off t)) (rt_buf t) \<noteq> []" by simp
  then show l: "nat (rt_off t) < length (rt_buf t)" by simp
  then show "rt_buf t ! nat (rt_off t) = b" using d by (metis Cons_nth_drop_Suc append_Cons list.inject)
  show "in_cmd incoming (t\<lparr>rt_off := rt_off t + 1\<rparr>) (c @ [b]) a q" using assms by (simp add: in_cmd_def)
qed

lemma next_byte_in_cmd:
  "in_cmd incoming t c (b # a) q \<Longrightarrow>
   next_byte t = Ok (Continue b, t\<lparr>rt_off := rt_off t + 1\<rparr>) \<and> in_cmd incoming (t\<lparr>rt_off := rt_off t + 1\<rparr>) (c @ [b]) a q"
  using in_cmd_byte [of incoming t c b a q] by (simp add: next_byte_def)

lemma decode_in_cmd:
  assumes i: "in_cmd incoming t c (w @ a) q" and spec: "dec_spec (\<lambda>br. body br br) w x"
    and mx: "rt_off t + int (length w) \<le> mx" "mx \<le> rt_bufSize t"
  shows "decode_buffer (run_decoder body) mx t = Ok (Continue (Some x), t\<lparr>rt_off := rt_off t + int (length w)\<rparr>)"
    "in_cmd incoming (t\<lparr>rt_off := rt_off t + int (length w)\<rparr>) (c @ w) a q"
proof -
  have "in_buffer mx (rt_buf t) (rt_off t)" using i mx by (simp add: in_buffer_def in_cmd_def)
  then have "run_decoder body (rt_buf t) (rt_off t) mx = (Ok x, rt_off t + int (length w))"
    using run_decoder_at [of mx "rt_buf t" "rt_off t" w _ body x] in_cmd_buffer [OF i] mx(1) spec by simp
  then show "decode_buffer (run_decoder body) mx t = Ok (Continue (Some x), t\<lparr>rt_off := rt_off t + int (length w)\<rparr>)"
    by (simp add: decode_buffer_def)
  show "in_cmd incoming (t\<lparr>rt_off := rt_off t + int (length w)\<rparr>) (c @ w) a q" using i by (simp add: in_cmd_def)
qed

lemma quiet_in_cmd:
  assumes "quiet e t t'" "rt_buf t' = rt_buf t" "incoming (rt_socket t') q" "in_cmd incoming t c a q"
  shows "in_cmd incoming t' c a q"
  using assms quietD [OF assms(1)] by (simp add: in_cmd_def)

text \<open>While a block is received: \<open>got\<close> is in the file, whose other bytes and the other files are as in \<open>F\<close>.\<close>

definition receiving :: "(string \<Rightarrow> nat \<Rightarrow> byte) \<Rightarrow> BlockDetails \<Rightarrow> bytes \<Rightarrow> 's ReceiverThread \<Rightarrow> bool" where
  "receiving F bd got t \<longleftrightarrow>
     written_block (F (bd_fileName bd)) bd got (rt_writer t) \<and> Write_failed \<notin> set (fw_writes (rt_writer t)) \<and>
     rv_files (rt_parent t) = F(bd_fileName bd := patch (nat (bd_offset bd)) got (F (bd_fileName bd)))"

lemma quiet_receiving: "quiet e t t' \<Longrightarrow> receiving F bd got t \<Longrightarrow> receiving F bd got t'"
  using quietD(6) [of e t t'] quiet_files(1) [of e t t'] by (simp add: receiving_def)

lemma write_block_receiving:
  assumes r: "receiving F bd got t" and we: "writer_env_ok we" "\<not> we_skip_writes we" and st: "bd_allocationStatus bd \<noteq> TO_BE_DELETED"
  shows "\<exists>w. write_block we bd p t = Ok (Continue (), store_writer bd w t) \<and> receiving F bd (got @ p) (store_writer bd w t)"
proof -
  have w: "written_block (F (bd_fileName bd)) bd got (rt_writer t)" "fw_fd (rt_writer t)" "Write_failed \<notin> set (fw_writes (rt_writer t))"
    using r by (auto simp: receiving_def written_block_def)
  obtain w' where w': "writer_write we bd p (rt_writer t) = Ok (OK, w')" "Write_failed \<notin> set (fw_writes w')"
    using writer_write_ok [OF we(1) w(2,3) st] by blast
  have "written_block (F (bd_fileName bd)) bd (got @ p) w'" by (rule writer_write_appends [OF w(1) we(2) w'(1)])
  then have "receiving F bd (got @ p) (store_writer bd w' t)"
    using r w'(2) by (simp add: receiving_def store_writer_def upd_parent_def written_block_def)
  then show ?thesis using w'(1) by (auto simp: write_block_def proceed_def)
qed

definition crc_ok :: "receiver_env \<Rightarrow> bool" where
  "crc_ok e \<longleftrightarrow> (\<forall>a b c. re_crc32c e (a @ b) c = re_crc32c e b (re_crc32c e a c)) \<and> (\<forall>c. re_crc32c e [] c = c)"

lemma update_checksum_append:
  "crc_ok e \<Longrightarrow> update_checksum e f b (update_checksum e f a c) = update_checksum e f (a @ b) c"
  by (simp add: update_checksum_def crc_ok_def)

lemma update_checksum_Nil [simp]: "crc_ok e \<Longrightarrow> update_checksum e f [] c = c"
  by (simp add: update_checksum_def crc_ok_def)

definition no_abort :: "receiver_env \<Rightarrow> bool" where
  "no_abort e \<longleftrightarrow> (\<forall>k. \<not> re_abort e k)"

lemma mark_received: "received e [bd] t (markBlockVerified e bd t)"
  by (simp add: received_def same_run_def markBlockVerified_keeps account_def numReceived_def numAcked_def stats_defs incrNumBlocks_def)

lemma wait_received: "received e [bd] t (t\<lparr>rt_blocksWaitingVerification := rt_blocksWaitingVerification t @ [bd]\<rparr>)"
  by (simp add: received_def same_run_def account_def numReceived_def numAcked_def)

lemma mark_keeps:
  "rt_off (markBlockVerified e bd t) = rt_off t" "rt_oldOffset (markBlockVerified e bd t) = rt_oldOffset t" "rt_numRead (markBlockVerified e bd t) = rt_numRead t"
  "rt_buf (markBlockVerified e bd t) = rt_buf t" "rt_socket (markBlockVerified e bd t) = rt_socket t"
  "rv_files (rt_parent (markBlockVerified e bd t)) = rv_files (rt_parent t)"
  by (simp_all add: markBlockVerified_keeps)

text \<open>The end of a command that was parsed in the buffer.\<close>

lemma end_cmd:
  assumes "in_cmd incoming t c a q"
  shows "at_cmd incoming (t\<lparr>rt_numRead := rt_numRead t - (rt_off t - rt_oldOffset t)\<rparr>) (a @ q)"
proof -
  have n: "rt_numRead t - (rt_off t - rt_oldOffset t) = int (length a)" using in_cmd_numRead [OF assms] assms by (simp add: in_cmd_def)
  have "window (rt_buf t) (rt_off t) (int (length a)) = a" using in_cmd_buffer [OF assms] by (simp add: window_def)
  then show ?thesis unfolding n using assms in_cmd_numRead [OF assms] by (auto simp: at_cmd_def in_cmd_def)
qed

lemma prefix_in_buffer: "a @ q = c @ rest \<Longrightarrow> length c \<le> length a \<Longrightarrow> \<exists>a1. a = c @ a1 \<and> rest = a1 @ q"
  by (auto simp: append_eq_append_conv2)

text \<open>The blocks a sender of version \<open>pv\<close> sends with a head that fits into the first read, and what they do to the files.\<close>

definition block_ok :: "int \<Rightarrow> BlockDetails \<times> bytes \<Rightarrow> bool" where
  "block_ok pv b \<longleftrightarrow> ok_header pv newBlockDetails (fst b) \<and> header_checks (fst b) \<and>
     int (length (file_head pv 0 (fst b))) \<le> kMinBufLength \<and> bd_allocationStatus (fst b) \<noteq> TO_BE_DELETED \<and>
     int (length (snd b)) = bd_dataSize (fst b)"

definition store_block :: "BlockDetails \<times> bytes \<Rightarrow> (string \<Rightarrow> nat \<Rightarrow> byte) \<Rightarrow> string \<Rightarrow> nat \<Rightarrow> byte" where
  "store_block b F = F(bd_fileName (fst b) := patch (nat (bd_offset (fst b))) (snd b) (F (bd_fileName (fst b))))"

text \<open>The buffered part and the data overlap in the shorter of the two.\<close>

lemma split_input:
  assumes "a @ q = d @ rest"
  shows "\<exists>d1 a1 d2. a = d1 @ a1 \<and> d = d1 @ d2 \<and> (d2 = [] \<or> a1 = []) \<and> a1 @ q = d2 @ rest"
  using assms unfolding append_eq_append_conv2 by (metis append.right_neutral append_Nil)

text \<open>The buffer is large, and there is room for a command behind the cursor.\<close>

definition roomy :: "nat \<Rightarrow> 's ReceiverThread \<Rightarrow> bool" where
  "roomy N t \<longleftrightarrow> 2 * kMaxHeader \<le> rt_bufSize t \<and> rt_bufSize t \<le> int N \<and> rt_off t + kMaxHeader \<le> rt_bufSize t + kMaxFooter"

definition cmd_state :: "byte \<Rightarrow> ReceiverState option" where
  "cmd_state b =
     (if b = cmd_byte DONE_CMD then Some PROCESS_DONE_CMD else if b = cmd_byte FILE_CMD then Some PROCESS_FILE_CMD
      else if b = cmd_byte SETTINGS_CMD then Some PROCESS_SETTINGS_CMD else if b = cmd_byte SIZE_CMD then Some PROCESS_SIZE_CMD else None)"

definition env_ok :: "receiver_env \<Rightarrow> bool" where
  "env_ok e \<longleftrightarrow> no_abort e \<and> crc_ok e \<and> (\<forall>a. is_i32 (re_crc32c e a 0)) \<and>
     (\<forall>k. writer_env_ok (fst (re_writer e k)) \<and> \<not> we_skip_writes (fst (re_writer e k)) \<and> Write_failed \<notin> set (snd (re_writer e k)))"

definition resumption_settled :: "receiver_env \<Rightarrow> 's ReceiverThread \<Rightarrow> bool" where
  "resumption_settled e t \<longleftrightarrow> \<not> ro_enable_download_resumption (re_options e) \<or>
     (\<exists>fs. tc_funnels (rv_controller (rt_parent t)) = FUNNEL_END # fs)"

context byte_stream
begin

text \<open>Filling the buffer up to the minimal length.\<close>

lemma fill_at_cmd:
  assumes t: "at_cmd incoming t p" "roomy N t" and p: "kMinBufLength \<le> int (length p)"
  shows "\<exists>t' a q. fill_buffer V e (rt_off t) kMinBufLength (t\<lparr>rt_oldOffset := rt_off t\<rparr>) = Ok (Continue (), t') \<and>
    in_cmd incoming t' [] a q \<and> p = a @ q \<and> kMinBufLength \<le> int (length a) \<and> steady e t t' \<and> rt_off t' = rt_off t \<and>
    rv_files (rt_parent t') = rv_files (rt_parent t)"
proof -
  obtain q where q: "incoming (rt_socket t) q" "p = window (rt_buf t) (rt_off t) (rt_numRead t) @ q"
    and b: "0 \<le> rt_off t" "0 \<le> rt_numRead t" "rt_off t + rt_numRead t \<le> rt_bufSize t" using t(1) by (auto simp: at_cmd_def)
  let ?t = "t\<lparr>rt_oldOffset := rt_off t\<rparr>" and ?mx = "rt_bufSize t - rt_off t"
  have r: "kMinBufLength \<le> ?mx" "?mx \<le> int N" using t(2) b by (auto simp: roomy_def size_defs)
  have len: "length (window (rt_buf t) (rt_off t) (rt_numRead t)) = nat (rt_numRead t)" using b by (simp add: length_window)
  have "kMinBufLength \<le> rt_numRead t + int (length q)" using p q(2) len b(2) by simp
  then obtain k t1 where l: "read_at_least_loop V e (rt_off t) ?mx kMinBufLength (rt_numRead t) ?t = Ok (rt_numRead t + int k, t1)"
    "kMinBufLength \<le> rt_numRead t + int k" "rt_numRead t + int k \<le> ?mx" "k \<le> length q" "incoming (rt_socket t1) (drop k q)" "quiet e ?t t1"
    "window (rt_buf t1) (rt_off t) (rt_numRead t + int k) = window (rt_buf t) (rt_off t) (rt_numRead t) @ take k q"
    using read_at_least_loop_input [of "rt_off t" "rt_numRead t" ?mx ?t kMinBufLength q e] b r q(1) by auto
  let ?t' = "t1\<lparr>rt_numRead := rt_numRead t + int k\<rparr>" and ?a = "window (rt_buf t) (rt_off t) (rt_numRead t) @ take k q"
  have q1: "rt_off t1 = rt_off t" "rt_oldOffset t1 = rt_off t" "length (rt_buf t1) = length (rt_buf t)" using quietD [OF l(6)] by simp_all
  have "fill_buffer V e (rt_off t) kMinBufLength ?t = Ok (Continue (), ?t')"
    using l(1) b r by (simp add: fill_buffer_def readAtLeast_def kMinBufLength_def)
  moreover have "in_cmd incoming ?t' [] ?a (drop k q)" using l q1 b by (simp add: in_cmd_def)
  moreover have "p = ?a @ drop k q" "kMinBufLength \<le> int (length ?a)" using q(2) len l(2,4) b by simp_all
  moreover have "steady e t ?t'"
    using steady_trans [OF steady_trans [OF steady_cursor(2) quiet_steady [OF l(6)]] steady_cursor(3)] by simp
  moreover have "rv_files (rt_parent ?t') = rv_files (rt_parent t)" using quiet_files(1) [OF l(6)] by simp
  ultimately show ?thesis using q1(1) by (intro exI [of _ ?t'] exI [of _ ?a] exI [of _ "drop k q"]) simp
qed

text \<open>The byte of a command decides the next state.\<close>

lemma readNextCmd_input:
  assumes t: "at_cmd incoming t (b # p)" "roomy N t" and p: "kMinBufLength \<le> int (length (b # p))" and st: "cmd_state b = Some st"
  shows "\<exists>t' a q. readNextCmd V e t = Ok (Return st, t') \<and> in_cmd incoming t' [b] a q \<and> p = a @ q \<and>
    kMinBufLength \<le> int (length (b # a)) \<and> steady e t t' \<and> rt_oldOffset t' = rt_off t \<and> rv_files (rt_parent t') = rv_files (rt_parent t)"
proof -
  obtain t1 a0 q where f: "fill_buffer V e (rt_off t) kMinBufLength (t\<lparr>rt_oldOffset := rt_off t\<rparr>) = Ok (Continue (), t1)"
    and i: "in_cmd incoming t1 [] a0 q" and pa: "b # p = a0 @ q" "kMinBufLength \<le> int (length a0)" and s: "steady e t t1" "rt_off t1 = rt_off t"
      "rv_files (rt_parent t1) = rv_files (rt_parent t)"
    using fill_at_cmd [OF t p, of e] by blast
  have "a0 \<noteq> []" using pa(2) by (auto simp: kMinBufLength_def)
  then obtain a where a: "a0 = b # a" "p = a @ q" using pa(1) by (cases a0) auto
  let ?t' = "t1\<lparr>rt_off := rt_off t1 + 1\<rparr>"
  have nb: "next_byte t1 = Ok (Continue b, ?t')" "in_cmd incoming ?t' [b] a q" using next_byte_in_cmd [of incoming t1 "[]" b a q] i a by simp_all
  have n: "\<not> rt_numRead t1 < kMinBufLength" using in_cmd_numRead [OF i] pa(2) by simp
  have "readNextCmd V e t = Ok (Return st, ?t')"
    using f nb(1) n st by (auto simp: readNextCmd_def andThen_def modify_def goto_def cmd_state_def split: if_splits)
  moreover have "steady e t ?t'" by (rule steady_trans [OF s(1) steady_cursor(1)])
  moreover have "rt_oldOffset ?t' = rt_off t" using i s(2) by (simp add: in_cmd_def)
  ultimately show ?thesis using nb(2) a pa(2) s(3) by (intro exI [of _ ?t'] exI [of _ a] exI [of _ q]) simp
qed

lemma readFileHeader_input:
  assumes i: "in_cmd incoming t [cmd_byte FILE_CMD] a0 q" and a0: "cmd_byte FILE_CMD # a0 = file_head pv status bd @ d"
    and pv: "pv = rt_threadProtocolVersion t" and ok: "ok_header pv newBlockDetails bd" "header_checks bd" and len: "length (file_head pv status bd) < 2 ^ 15"
  shows "\<exists>t'. readFileHeader V e t = Ok (Continue (bd, int (length (file_head pv status bd))), t') \<and>
    in_cmd incoming t' (file_head pv status bd) d q \<and> steady e t t' \<and> rt_oldOffset t' = rt_oldOffset t \<and>
    rv_files (rt_parent t') = rv_files (rt_parent t)"
proof -
  let ?L = "4 + int (length (wire_header pv bd))" and ?w = "wire_header pv bd"
  let ?t1 = "t\<lparr>rt_off := rt_off t + 1\<rparr>"
  let ?f = "\<lambda>s. addEffectiveBytes ?L 0 (addHeaderBytes ?L s)"
  have L: "int (length (file_head pv status bd)) = ?L" "0 < ?L" "?L < 2 ^ 15" using len by (simp_all add: length_file_head)
  have a0': "a0 = status # int16_bytes ?L @ ?w @ d" using a0 by (simp add: file_head_def)
  have i0: "in_cmd incoming t [cmd_byte FILE_CMD] (status # int16_bytes ?L @ ?w @ d) q" using i unfolding a0' .
  have nb: "next_byte t = Ok (Continue status, ?t1)" and i1: "in_cmd incoming ?t1 [cmd_byte FILE_CMD, status] (int16_bytes ?L @ ?w @ d) q"
    using next_byte_in_cmd [OF i0] by simp_all
  have l: "load_int16 (rt_buf ?t1) (nat (rt_off ?t1)) = ?L"
    using load_int16_bytes [of ?L "nat (rt_off ?t1)" "rt_buf ?t1"] in_cmd_buffer [OF i1] L by simp
  have inc: "incoming (rt_socket ?t1) q" using i1 by (simp add: in_cmd_def)
  obtain t2 where hb: "sendHeartBeat V e ?t1 = Ok (Continue (), t2)" "incoming (rt_socket t2) q" "quiet e ?t1 t2" "rt_buf t2 = rt_buf ?t1"
    using heart_beat [OF inc, of e] by blast
  have i2: "in_cmd incoming t2 [cmd_byte FILE_CMD, status] (int16_bytes ?L @ ?w @ d) q" by (rule quiet_in_cmd [OF hb(3,4,2) i1])
  have n: "rt_numRead t2 = ?L + int (length d)" using in_cmd_numRead [OF i2] by (simp add: int16_bytes_def)
  let ?t3 = "t2\<lparr>rt_off := rt_off t2 + 2\<rparr>" and ?t4 = "t2\<lparr>rt_off := rt_off t2 + 2 + int (length ?w)\<rparr>"
  have i3: "in_cmd incoming ?t3 (cmd_byte FILE_CMD # status # int16_bytes ?L) (?w @ d) q" using i2 by (simp add: in_cmd_def int16_bytes_def)
  have off: "rt_off t2 = rt_oldOffset t2 + 2" "rt_oldOffset t2 + rt_numRead t2 \<le> rt_bufSize t2" using i2 by (simp_all add: in_cmd_def)
  have pv2: "rt_threadProtocolVersion t2 = pv" using quietD(5) [OF hb(3)] pv by simp
  have "decode_buffer (decodeHeader pv newBlockDetails) (rt_numRead t2 + rt_oldOffset t2) ?t3 = Ok (Continue (Some bd), ?t4)"
    unfolding decodeHeader_def using decode_in_cmd(1) [OF i3, of "header_body pv newBlockDetails" bd "rt_numRead t2 + rt_oldOffset t2"] header.dec_wire [OF ok(1)] off n by simp
  moreover have i4: "in_cmd incoming ?t4 (file_head pv status bd) d q"
    using decode_in_cmd(2) [OF i3, of "header_body pv newBlockDetails" bd "rt_numRead t2 + rt_oldOffset t2"] header.dec_wire [OF ok(1)] off n by (simp add: file_head_def)
  ultimately have "decode_file_header ?L t2 = Ok (Continue (bd, ?L), upd_stats ?f ?t4)"
    using off(1) pv2 ok(2) by (simp add: decode_file_header_def andThen_def proceed_def Let_def)
  then have r: "readFileHeader V e t = Ok (Continue (bd, ?L), upd_stats ?f ?t4)"
    using nb l hb(1) n L(2) by (simp add: readFileHeader_def andThen_def proceed_def Let_def)
  have "steady e ?t4 (upd_stats ?f ?t4)" by (rule steady_stats) (simp_all add: stats_defs)
  then have s: "steady e t (upd_stats ?f ?t4)"
    using steady_trans [OF steady_trans [OF steady_trans [OF steady_cursor(1) quiet_steady [OF hb(3)]] steady_cursor(1)]] by blast
  have "in_cmd incoming (upd_stats ?f ?t4) (file_head pv status bd) d q" using i4 by (simp add: in_cmd_def upd_stats_def)
  moreover have "rt_oldOffset (upd_stats ?f ?t4) = rt_oldOffset t" "rv_files (rt_parent (upd_stats ?f ?t4)) = rv_files (rt_parent t)"
    using quietD(3) [OF hb(3)] quiet_files(1) [OF hb(3)] by (simp_all add: upd_stats_def)
  ultimately show ?thesis using r s unfolding L(1) by blast
qed

lemma receive_piece_input:
  assumes r: "receiving F bd got t" and we: "writer_env_ok we" "\<not> we_skip_writes we" "bd_allocationStatus bd \<noteq> TO_BE_DELETED"
    and e: "no_abort e" and inc: "incoming (rt_socket t) (d @ rest)" "int (length got + length d) = bd_dataSize bd" "d \<noteq> []"
    and b: "0 < rt_bufSize t" "rt_bufSize t \<le> int N"
  shows "\<exists>k t'. receive_piece V e we bd c t = Ok (Continue (Some (update_checksum e (rt_footerType t) (take k d) c)), t') \<and> 0 < k \<and> k \<le> length d \<and>
    receiving F bd (got @ take k d) t' \<and> incoming (rt_socket t') (drop k d @ rest) \<and> steady e t t'"
proof -
  let ?t0 = "t\<lparr>rt_tick := Suc (rt_tick t)\<rparr>"
  have inc0: "incoming (rt_socket ?t0) (d @ rest)" using inc(1) by simp
  obtain t1 where h1: "sendHeartBeat V e ?t0 = Ok (Continue (), t1)" "incoming (rt_socket t1) (d @ rest)" "quiet e ?t0 t1"
    using heart_beat [OF inc0] by blast
  have q1: "quiet e t t1" by (rule quiet_trans [OF quiet_tick h1(3)])
  have tw: "fw_totalWritten (rt_writer t1) = int (length got)" using quiet_receiving [OF q1 r] by (simp add: receiving_def written_block_def)
  let ?n = "nat (if int (length d) < rt_bufSize t then int (length d) else rt_bufSize t)"
  have n: "d @ rest \<noteq> []" "0 < ?n" "?n \<le> N" "?n \<le> length d" using inc(3) b by auto
  obtain k t2 where k: "thread_read V e ?n False t1 = Ok (Some (take k (d @ rest)), t2)" "0 < k" "k \<le> ?n"
    "incoming (rt_socket t2) (drop k (d @ rest))" "quiet e t1 t2" "rt_buf t2 = rt_buf t1"
    using thread_read_some [OF h1(2) n(1-3)] by blast
  have kd: "k \<le> length d" "take k (d @ rest) = take k d" "drop k (d @ rest) = drop k d @ rest" "k \<le> length (rt_buf t)"
    using k(3) n(4) b by (auto split: if_splits)
  let ?t3 = "t2\<lparr>rt_buf := write_at 0 (take k d) (rt_buf t2)\<rparr>"
  have bl: "length (rt_buf t1) = length (rt_buf t)" "length (rt_buf t2) = length (rt_buf t)" using quietD(12) [OF q1] k(6) by simp_all
  have sz: "bd_dataSize bd - fw_totalWritten (rt_writer t1) = int (length d)" using tw inc(2) by simp
  have rm: "readAtMost V e (bd_dataSize bd - fw_totalWritten (rt_writer t1)) t1 = Ok (Continue (Some (take k d)), ?t3)"
    unfolding sz using k(1) bl kd by (cases "length d < length (rt_buf t)") (simp_all add: readAtMost_def Let_def)
  have q3: "quiet e t ?t3" by (rule quiet_trans [OF quiet_trans [OF q1 k(5)] quiet_buf]) (use bl kd in simp)
  let ?f = "addDataBytes (int (length (take k d)))"
  let ?t4 = "upd_stats ?f ?t3"
  have inc4: "incoming (rt_socket ?t4) (drop k d @ rest)" using k(4) kd by (simp add: upd_stats_def)
  obtain t5 where h5: "sendHeartBeat V e ?t4 = Ok (Continue (), t5)" "incoming (rt_socket t5) (drop k d @ rest)" "quiet e ?t4 t5"
    using heart_beat [OF inc4] by blast
  have "receiving F bd got ?t4" using quiet_receiving [OF q3 r] by (simp add: receiving_def upd_stats_def)
  then have r5: "receiving F bd got t5" by (rule quiet_receiving [OF h5(3)])
  obtain w where w: "write_block we bd (take k d) t5 = Ok (Continue (), store_writer bd w t5)" "receiving F bd (got @ take k d) (store_writer bd w t5)"
    using write_block_receiving [OF r5 we] by blast
  have s4: "steady e ?t3 ?t4" by (rule steady_stats) (simp_all add: stats_defs)
  have s: "steady e t (store_writer bd w t5)"
    by (rule steady_trans [OF quiet_steady [OF q3] steady_trans [OF s4 steady_trans [OF quiet_steady [OF h5(3)] steady_cursor(6)]]])
  have ft: "rt_footerType (store_writer bd w t5) = rt_footerType t" using s by (simp add: steady_def same_run_def)
  have ne: "take k d \<noteq> []" using k(2) inc(3) by simp
  have "receive_piece V e we bd c t = Ok (Continue (Some (update_checksum e (rt_footerType t) (take k d) c)), store_writer bd w t5)"
    using e h1(1) rm ne h5(1) w(1) ft by (simp add: receive_piece_def andThen_def ask_env_def proceed_def modify_def no_abort_def)
  moreover have "incoming (rt_socket (store_writer bd w t5)) (drop k d @ rest)" using h5(2) by (simp add: store_writer_def upd_parent_def)
  ultimately show ?thesis using k(2) kd(1) w(2) s by blast
qed

lemma receive_loop_input:
  assumes we: "writer_env_ok we" "\<not> we_skip_writes we" "bd_allocationStatus bd \<noteq> TO_BE_DELETED" and e: "no_abort e" "crc_ok e"
  shows "receiving F bd got t \<Longrightarrow> incoming (rt_socket t) (d @ rest) \<Longrightarrow> int (length got + length d) = bd_dataSize bd \<Longrightarrow>
    0 < rt_bufSize t \<Longrightarrow> rt_bufSize t \<le> int N \<Longrightarrow> length d \<le> n \<Longrightarrow>
    \<exists>t'. receive_loop V e we bd n c t = Ok (Continue (update_checksum e (rt_footerType t) d c), t') \<and>
      receiving F bd (got @ d) t' \<and> incoming (rt_socket t') rest \<and> steady e t t' \<and> (d = [] \<longrightarrow> t' = t)"
proof (induction n arbitrary: t got d c)
  case 0
  then show ?case using e(2) by (simp add: receive_loop.simps proceed_def receiving_def written_block_def)
next
  case (Suc n)
  have tw: "fw_totalWritten (rt_writer t) = int (length got)" using Suc.prems(1) by (simp add: receiving_def written_block_def)
  show ?case
  proof (cases "d = []")
    case True
    then show ?thesis using Suc.prems e(2) tw by (simp add: receive_loop.simps proceed_def)
  next
    case False
    obtain k t1 where k: "receive_piece V e we bd c t = Ok (Continue (Some (update_checksum e (rt_footerType t) (take k d) c)), t1)" "0 < k" "k \<le> length d"
      "receiving F bd (got @ take k d) t1" "incoming (rt_socket t1) (drop k d @ rest)" "steady e t t1"
      using receive_piece_input [OF Suc.prems(1) we e(1) Suc.prems(2,3) False Suc.prems(4,5)] by blast
    have bl: "rt_bufSize t1 = rt_bufSize t" "rt_footerType t1 = rt_footerType t" using k(6) by (simp_all add: steady_def same_run_def)
    have len: "int (length (got @ take k d) + length (drop k d)) = bd_dataSize bd" "length (drop k d) \<le> n" using Suc.prems(3,6) k(2,3) by simp_all
    obtain t2 where t2: "receive_loop V e we bd n (update_checksum e (rt_footerType t) (take k d) c) t1 =
        Ok (Continue (update_checksum e (rt_footerType t) (drop k d) (update_checksum e (rt_footerType t) (take k d) c)), t2)"
      "receiving F bd (got @ d) t2" "incoming (rt_socket t2) rest" "steady e t1 t2"
      using Suc.IH [OF k(4,5) len(1) _ _ len(2)] Suc.prems(4,5) bl by auto
    have "\<not> bd_dataSize bd \<le> fw_totalWritten (rt_writer t)" using tw Suc.prems(3) False by (cases d) auto
    then have "receive_loop V e we bd (Suc n) c t = Ok (Continue (update_checksum e (rt_footerType t) d c), t2)"
      using k(1) t2(1) update_checksum_append [OF e(2), of "rt_footerType t" "drop k d" "take k d" c]
      by (subst receive_loop.simps) (simp add: andThen_def)
    then show ?thesis using t2(2,3) steady_trans [OF k(6) t2(4)] False by blast
  qed
qed

text \<open>The part of the block that is in the buffer.\<close>

lemma write_buffered_input:
  assumes i: "in_cmd incoming t c (d @ a) q" and r: "receiving F bd [] t"
    and we: "writer_env_ok we" "\<not> we_skip_writes we" "bd_allocationStatus bd \<noteq> TO_BE_DELETED" and e: "crc_ok e"
    and d: "int (length d) \<le> bd_dataSize bd" "int (length d) = bd_dataSize bd \<or> a = []"
  shows "\<exists>t'. write_buffered V e we bd t = Ok (Continue (update_checksum e (rt_footerType t) d 0, int (length a)), t') \<and>
    receiving F bd d t' \<and> in_cmd incoming t' (c @ d) a q \<and> steady e t t' \<and> rt_oldOffset t' = rt_oldOffset t"
proof -
  have nr: "rt_numRead t + rt_oldOffset t - rt_off t = int (length (d @ a))" using in_cmd_numRead [OF i] i by (simp add: in_cmd_def)
  have bs: "take (length d) (drop (nat (rt_off t)) (rt_buf t)) = d" using in_cmd_buffer [OF i] by simp
  have tw: "(if int (length (d @ a)) \<ge> bd_dataSize bd then bd_dataSize bd else int (length (d @ a))) = int (length d)" using d by auto
  let ?t1 = "upd_stats (addDataBytes (int (length d))) t"
  have i1: "in_cmd incoming ?t1 c (d @ a) q" "incoming (rt_socket ?t1) q" using i by (simp_all add: in_cmd_def upd_stats_def)
  obtain t2 where h: "sendHeartBeat V e ?t1 = Ok (Continue (), t2)" "incoming (rt_socket t2) q" "quiet e ?t1 t2" "rt_buf t2 = rt_buf ?t1"
    using heart_beat [OF i1(2)] by blast
  have i2: "in_cmd incoming t2 c (d @ a) q" by (rule quiet_in_cmd [OF h(3,4,2) i1(1)])
  have "receiving F bd [] ?t1" using r by (simp add: receiving_def upd_stats_def)
  then have r2: "receiving F bd [] t2" by (rule quiet_receiving [OF h(3)])
  have s1: "steady e t ?t1" by (rule steady_stats) (simp_all add: stats_defs)
  have "\<exists>t3. (if int (length d) > 0 then write_block we bd d else proceed ()) t2 = Ok (Continue (), t3) \<and> receiving F bd d t3 \<and>
    in_cmd incoming t3 c (d @ a) q \<and> steady e t2 t3 \<and> rt_oldOffset t3 = rt_oldOffset t2"
  proof (cases "d = []")
    case True
    then show ?thesis using r2 i2 by (simp add: proceed_def)
  next
    case False
    obtain w where w: "write_block we bd d t2 = Ok (Continue (), store_writer bd w t2)" "receiving F bd d (store_writer bd w t2)"
      using write_block_receiving [OF r2 we, of d] by auto
    moreover have "in_cmd incoming (store_writer bd w t2) c (d @ a) q" "rt_oldOffset (store_writer bd w t2) = rt_oldOffset t2"
      using i2 by (simp_all add: in_cmd_def store_writer_def upd_parent_def)
    ultimately show ?thesis using False steady_cursor(6) by (intro exI [of _ "store_writer bd w t2"]) simp
  qed
  then obtain t3 where t3: "(if int (length d) > 0 then write_block we bd d else proceed ()) t2 = Ok (Continue (), t3)" "receiving F bd d t3"
    "in_cmd incoming t3 c (d @ a) q" "steady e t2 t3" "rt_oldOffset t3 = rt_oldOffset t2" by blast
  let ?t4 = "t3\<lparr>rt_off := rt_off t3 + int (length d)\<rparr>"
  have s: "steady e t t3" by (rule steady_trans [OF steady_trans [OF s1 quiet_steady [OF h(3)]] t3(4)])
  then have ft: "rt_footerType t3 = rt_footerType t" by (simp add: steady_def same_run_def)
  have "write_buffered V e we bd t = Ok (Continue (update_checksum e (rt_footerType t) d 0, int (length a)), ?t4)"
    unfolding write_buffered_def Let_def nr tw nat_int bs using h(1) t3(1) ft by (simp add: andThen_def modify_def proceed_def)
  moreover have "in_cmd incoming ?t4 (c @ d) a q" using t3(3) by (simp add: in_cmd_def)
  moreover have "receiving F bd d ?t4" using t3(2) by (simp add: receiving_def)
  moreover have "rt_oldOffset ?t4 = rt_oldOffset t" using t3(5) quietD(3) [OF h(3)] by (simp add: upd_stats_def)
  ultimately show ?thesis using steady_trans [OF s steady_cursor(1)] by blast
qed

text \<open>The rest of the buffer is kept as the start of the input.\<close>

lemma keep_rest_input:
  assumes i: "in_cmd incoming t c a q" and b: "2 * kMaxHeader \<le> rt_bufSize t"
  shows "at_cmd incoming (keep_rest (int (length a)) t) (a @ q) \<and> rt_off (keep_rest (int (length a)) t) + kMaxHeader \<le> rt_bufSize t \<and>
    steady e t (keep_rest (int (length a)) t) \<and> rv_files (rt_parent (keep_rest (int (length a)) t)) = rv_files (rt_parent t)"
proof -
  note d = in_cmd_buffer [OF i] and n = in_cmd_numRead [OF i]
  have o: "0 \<le> rt_off t" "rt_off t + int (length a) \<le> rt_bufSize t" "incoming (rt_socket t) q" using i n by (simp_all add: in_cmd_def)
  have w: "window (rt_buf t) (rt_off t) (int (length a)) = a" using d by (simp add: window_def)
  have la: "length a \<le> length (rt_buf t)" using o by simp
  have mv: "take (length a) (drop (nat (rt_off t)) (rt_buf t)) = a" "length (write_at 0 a (rt_buf t)) = length (rt_buf t)"
    "window (write_at 0 a (rt_buf t)) 0 (int (length a)) = a"
    using d la by (simp_all add: window_def write_at_def)
  have kh: "0 < kMaxHeader" by (simp add: size_defs)
  consider (none) "a = []" | (move) "a \<noteq> []" "int (length a) < kMaxHeader" "rt_off t > rt_bufSize t div 2"
    | (stay) "a \<noteq> []" "\<not> (int (length a) < kMaxHeader \<and> rt_off t > rt_bufSize t div 2)" by blast
  then show ?thesis
  proof cases
    case none
    then show ?thesis using o b kh by (simp add: keep_rest_def at_cmd_def steady_def same_run_def window_def account_def numReceived_def numAcked_def)
  next
    case move
    then have k: "keep_rest (int (length a)) t = t\<lparr>rt_numRead := int (length a), rt_buf := write_at 0 a (rt_buf t), rt_off := 0\<rparr>"
      using mv(1) by (simp add: keep_rest_def)
    show ?thesis unfolding k using o b kh mv la
      by (simp add: at_cmd_def steady_def same_run_def account_def numReceived_def numAcked_def)
  next
    case stay
    then have k: "keep_rest (int (length a)) t = t\<lparr>rt_numRead := int (length a)\<rparr>" by (auto simp: keep_rest_def)
    have "rt_off t + kMaxHeader \<le> rt_bufSize t" using stay(2) o(2) b by (auto simp: not_less)
    then show ?thesis unfolding k using o w by (simp add: at_cmd_def steady_def same_run_def account_def numReceived_def numAcked_def)
  qed
qed

lemma keep_nothing:
  assumes "incoming (rt_socket t) rest" "2 * kMaxHeader \<le> rt_bufSize t"
  shows "at_cmd incoming (keep_rest 0 t) rest \<and> rt_off (keep_rest 0 t) + kMaxHeader \<le> rt_bufSize t \<and>
    steady e t (keep_rest 0 t) \<and> rv_files (rt_parent (keep_rest 0 t)) = rv_files (rt_parent t)"
  using assms by (simp add: keep_rest_def at_cmd_def window_def steady_def same_run_def account_def numReceived_def numAcked_def kMaxHeader_def PATH_MAX_def)

text \<open>The whole block.\<close>

lemma close_block_ok:
  assumes "receiving F bd d t" "int (length d) = bd_dataSize bd" "writer_env_ok we"
  shows "close_block we bd t = Ok (Continue (), t\<lparr>rt_writer := (rt_writer t)\<lparr>fw_fd := False\<rparr>\<rparr>)"
  using assms by (auto simp: close_block_def writer_sync_def writer_close_def writer_env_ok_def proceed_def receiving_def written_block_def Let_def)

lemma start_block_input:
  assumes i: "in_cmd incoming t c a q"
    and w: "rt_writer t = newWriter bd (F (bd_fileName bd)) calls" "Write_failed \<notin> set calls" "rv_files (rt_parent t) = F"
    and we: "writer_env_ok we" "\<not> we_skip_writes we" "bd_allocationStatus bd \<noteq> TO_BE_DELETED"
  shows "\<exists>t'. andThen (sendHeartBeat V e) (\<lambda>_. open_block e we bd) t = Ok (Continue (), t') \<and> receiving F bd [] t' \<and>
    in_cmd incoming t' c a q \<and> steady e t t'"
proof -
  have inc: "incoming (rt_socket t) q" using i by (simp add: in_cmd_def)
  obtain t1 where h: "sendHeartBeat V e t = Ok (Continue (), t1)" "incoming (rt_socket t1) q" "quiet e t t1" "rt_buf t1 = rt_buf t"
    using heart_beat [OF inc] by blast
  have w1: "rt_writer t1 = newWriter bd (F (bd_fileName bd)) calls" "rv_files (rt_parent t1) = F"
    using w quietD(6) [OF h(3)] quiet_files(1) [OF h(3)] by simp_all
  obtain w2 where w2: "writer_open we bd (rt_writer t1) = Ok (OK, w2)" "fw_writes w2 = calls"
    using we unfolding w1(1) by (auto simp: writer_open_def newWriter_def writer_env_ok_def Let_def)
  have "open_block e we bd t1 = Ok (Continue (), t1\<lparr>rt_writer := w2\<rparr>)" using w2(1) we(3) by (simp add: open_block_def proceed_def)
  moreover have "written_block (F (bd_fileName bd)) bd [] w2" using writer_open_block w2(1) we(2,3) w1(1) by metis
  then have "receiving F bd [] (t1\<lparr>rt_writer := w2\<rparr>)" using w2(2) w(2) w1(2) by (simp add: receiving_def)
  moreover have "in_cmd incoming (t1\<lparr>rt_writer := w2\<rparr>) c a q" using quiet_in_cmd [OF h(3,4,2) i] by (simp add: in_cmd_def)
  moreover have "steady e t (t1\<lparr>rt_writer := w2\<rparr>)" by (rule steady_trans [OF quiet_steady [OF h(3)] steady_cursor(4)])
  ultimately show ?thesis using h(1) by (simp add: andThen_def)
qed

text \<open>The position behind the block, after the loop and the close.\<close>

definition behind_block ::
  "(string \<Rightarrow> nat \<Rightarrow> byte) \<Rightarrow> receiver_env \<Rightarrow> BlockDetails \<Rightarrow> bytes \<Rightarrow> bytes \<Rightarrow> 's ReceiverThread \<Rightarrow> 's ReceiverThread \<Rightarrow> bool" where
  "behind_block F e bd d rest t t' \<longleftrightarrow>
     at_cmd incoming t' rest \<and> rt_off t' + kMaxHeader \<le> rt_bufSize t \<and> steady e t t' \<and>
     rv_files (rt_parent t') = F(bd_fileName bd := patch (nat (bd_offset bd)) d (F (bd_fileName bd)))"

lemma behind_blockI:
  assumes "at_cmd incoming t' rest \<and> rt_off t' + kMaxHeader \<le> rt_bufSize t1 \<and> steady e t1 t' \<and> rv_files (rt_parent t') = rv_files (rt_parent t1)"
    and "steady e t t1" "rv_files (rt_parent t1) = F(bd_fileName bd := patch (nat (bd_offset bd)) d (F (bd_fileName bd)))"
  shows "behind_block F e bd d rest t t'"
proof -
  have "steady e t t'" using steady_trans assms(1,2) by blast
  moreover have "rt_bufSize t1 = rt_bufSize t" using assms(2) by (simp add: steady_def same_run_def)
  ultimately show ?thesis using assms(1,3) by (simp add: behind_block_def)
qed

lemma loop_input:
  assumes r: "receiving F bd d1 t" and i: "in_cmd incoming t c a q" and aq: "a @ q = d2 @ rest" "d2 = [] \<or> a = []"
    and dl: "int (length (d1 @ d2)) = bd_dataSize bd"
    and we: "writer_env_ok we" "\<not> we_skip_writes we" "bd_allocationStatus bd \<noteq> TO_BE_DELETED" and e: "no_abort e" "crc_ok e"
    and b: "2 * kMaxHeader \<le> rt_bufSize t" "rt_bufSize t \<le> int N"
  shows "\<exists>t1. receive_loop V e we bd (length d2) (update_checksum e (rt_footerType t) d1 c0) t =
      Ok (Continue (update_checksum e (rt_footerType t) (d1 @ d2) c0), t1) \<and> receiving F bd (d1 @ d2) t1 \<and> steady e t t1 \<and>
      (if d2 = [] then t1 = t else incoming (rt_socket t1) rest)"
proof (cases "d2 = []")
  case True
  then show ?thesis using dl r by (simp add: receive_loop.simps proceed_def receiving_def written_block_def)
next
  case False
  then have inc: "incoming (rt_socket t) (d2 @ rest)" using aq i by (simp add: in_cmd_def)
  have len: "int (length d1 + length d2) = bd_dataSize bd" "0 < rt_bufSize t" using dl b(1) by (auto simp: size_defs)
  show ?thesis
    using receive_loop_input [OF we e r inc len b(2) order_refl, of "update_checksum e (rt_footerType t) d1 c0"]
      update_checksum_append [OF e(2)] False by auto
qed

lemma rest_of_block_input:
  assumes r: "receiving F bd d1 t" and i: "in_cmd incoming t c a q" and aq: "a @ q = d2 @ rest" "d2 = [] \<or> a = []"
    and dl: "int (length (d1 @ d2)) = bd_dataSize bd"
    and we: "writer_env_ok we" "\<not> we_skip_writes we" "bd_allocationStatus bd \<noteq> TO_BE_DELETED" and e: "no_abort e" "crc_ok e"
    and b: "2 * kMaxHeader \<le> rt_bufSize t" "rt_bufSize t \<le> int N"
  shows "\<exists>t'. andThen (receive_loop V e we bd (length d2) (update_checksum e (rt_footerType t) d1 0)) (\<lambda>checksum.
        andThen (close_block we bd) (\<lambda>_. proceed (checksum, int (length a)))) t =
      Ok (Continue (update_checksum e (rt_footerType t) (d1 @ d2) 0, int (length a)), t') \<and> steady e t t' \<and>
    behind_block F e bd (d1 @ d2) rest t (keep_rest (int (length a)) t')"
proof -
  obtain t1 where t1: "receive_loop V e we bd (length d2) (update_checksum e (rt_footerType t) d1 0) t =
      Ok (Continue (update_checksum e (rt_footerType t) (d1 @ d2) 0), t1)" "receiving F bd (d1 @ d2) t1" "steady e t t1"
    and left: "if d2 = [] then t1 = t else incoming (rt_socket t1) rest"
    using loop_input [OF r i aq dl we e b] by blast
  let ?t2 = "t1\<lparr>rt_writer := (rt_writer t1)\<lparr>fw_fd := False\<rparr>\<rparr>"
  have cl: "close_block we bd t1 = Ok (Continue (), ?t2)" by (rule close_block_ok [OF t1(2) dl we(1)])
  have s: "steady e t ?t2" by (rule steady_trans [OF t1(3) steady_cursor(4)])
  have b2: "2 * kMaxHeader \<le> rt_bufSize ?t2" using s b(1) by (simp add: steady_def same_run_def)
  have F: "rv_files (rt_parent ?t2) = F(bd_fileName bd := patch (nat (bd_offset bd)) (d1 @ d2) (F (bd_fileName bd)))"
    using t1(2) by (simp add: receiving_def)
  have "behind_block F e bd (d1 @ d2) rest t (keep_rest (int (length a)) ?t2)"
  proof (cases "d2 = []")
    case True
    then have "in_cmd incoming ?t2 c a q" "a @ q = rest" using i left aq(1) by (simp_all add: in_cmd_def)
    then show ?thesis using behind_blockI [OF _ s F] keep_rest_input [OF _ b2, of c a q e] by simp
  next
    case False
    then have "a = []" "incoming (rt_socket ?t2) rest" using aq(2) left by simp_all
    then show ?thesis using behind_blockI [OF _ s F] keep_nothing [OF _ b2, of rest e] by simp
  qed
  then show ?thesis using t1(1) cl s by (simp add: andThen_def proceed_def)
qed

lemma receiveBlock_input:
  assumes i: "in_cmd incoming t c a q" and aq: "a @ q = d @ rest" and dl: "int (length d) = bd_dataSize bd"
    and w: "rt_writer t = newWriter bd (F (bd_fileName bd)) calls" "Write_failed \<notin> set calls" "rv_files (rt_parent t) = F"
    and we: "writer_env_ok we" "\<not> we_skip_writes we" "bd_allocationStatus bd \<noteq> TO_BE_DELETED" and e: "no_abort e" "crc_ok e"
    and b: "2 * kMaxHeader \<le> rt_bufSize t" "rt_bufSize t \<le> int N"
  shows "\<exists>rem t'. receiveBlock V e we bd t = Ok (Continue (update_checksum e (rt_footerType t) d 0, rem), t') \<and> steady e t t' \<and>
    behind_block F e bd d rest t (keep_rest rem t')"
proof -
  obtain t1 where t1: "andThen (sendHeartBeat V e) (\<lambda>_. open_block e we bd) t = Ok (Continue (), t1)" "receiving F bd [] t1"
    "in_cmd incoming t1 c a q" "steady e t t1"
    using start_block_input [OF i w we] by blast
  obtain d1 a1 d2 where sp: "a = d1 @ a1" "d = d1 @ d2" "d2 = [] \<or> a1 = []" "a1 @ q = d2 @ rest" using split_input [OF aq] by blast
  have d1: "int (length d1) \<le> bd_dataSize bd" "int (length d1) = bd_dataSize bd \<or> a1 = []" using sp dl by auto
  obtain t2 where t2: "write_buffered V e we bd t1 = Ok (Continue (update_checksum e (rt_footerType t1) d1 0, int (length a1)), t2)"
    "receiving F bd d1 t2" "in_cmd incoming t2 (c @ d1) a1 q" "steady e t1 t2"
    using write_buffered_input [OF t1(3) [unfolded sp(1)] t1(2) we e(2) d1] by blast
  have s2: "steady e t t2" by (rule steady_trans [OF t1(4) t2(4)])
  have f: "rt_footerType t1 = rt_footerType t" "rt_footerType t2 = rt_footerType t" "rt_bufSize t2 = rt_bufSize t"
    using s2 t1(4) by (simp_all add: steady_def same_run_def)
  have tot: "nat (bd_dataSize bd - fw_totalWritten (rt_writer t2)) = length d2"
    using t2(2) sp(2) by (simp add: receiving_def written_block_def flip: dl)
  obtain t3 where t3: "andThen (receive_loop V e we bd (length d2) (update_checksum e (rt_footerType t2) d1 0)) (\<lambda>checksum.
        andThen (close_block we bd) (\<lambda>_. proceed (checksum, int (length a1)))) t2 =
      Ok (Continue (update_checksum e (rt_footerType t2) d 0, int (length a1)), t3)" "steady e t2 t3"
    "behind_block F e bd d rest t2 (keep_rest (int (length a1)) t3)"
    using rest_of_block_input [OF t2(2,3) sp(4,3) _ we e] b f(3) dl sp(2) by auto
  have "receiveBlock V e we bd t = Ok (Continue (update_checksum e (rt_footerType t) d 0, int (length a1)), t3)"
    using t1(1) t2(1) t3(1) tot f unfolding receiveBlock_def andThen_assoc [symmetric, of "sendHeartBeat V e"]
    by (simp add: andThen_def [of "andThen (sendHeartBeat V e) (\<lambda>_. open_block e we bd)"] andThen_def [of "write_buffered V e we bd"])
  moreover have "behind_block F e bd d rest t (keep_rest (int (length a1)) t3)"
    using t3(3) steady_trans [OF s2] f(3) by (auto simp: behind_block_def)
  ultimately show ?thesis using steady_trans [OF s2 t3(2)] by blast
qed

lemma heart_beat_at_cmd:
  assumes "at_cmd incoming t p"
  shows "\<exists>t'. sendHeartBeat V e t = Ok (Continue (), t') \<and> at_cmd incoming t' p \<and> quiet e t t'"
proof -
  obtain q where q: "incoming (rt_socket t) q" "p = window (rt_buf t) (rt_off t) (rt_numRead t) @ q" using assms by (auto simp: at_cmd_def)
  then obtain t' where h: "sendHeartBeat V e t = Ok (Continue (), t')" "incoming (rt_socket t') q" "quiet e t t'" "rt_buf t' = rt_buf t"
    using heart_beat by blast
  moreover have "at_cmd incoming t' p" using assms q h(2,4) quietD [OF h(3)] by (auto simp: at_cmd_def)
  ultimately show ?thesis by blast
qed

lemma check_footer_input:
  assumes t: "at_cmd incoming t (cmd_byte FOOTER_CMD # wire_s c @ rest)" "roomy N t" "rt_off t + kMaxHeader \<le> rt_bufSize t"
    and c: "is_i32 c" and rest: "kMinBufLength \<le> int (length rest)"
  shows "\<exists>t'. check_footer V e bd c t = Ok (Return READ_NEXT_CMD, t') \<and> at_cmd incoming t' rest \<and> roomy N t' \<and> received e [bd] t t' \<and>
    rv_files (rt_parent t') = rv_files (rt_parent t)"
proof -
  let ?p = "cmd_byte FOOTER_CMD # wire_s c @ rest"
  obtain t0 where h: "sendHeartBeat V e t = Ok (Continue (), t0)" "at_cmd incoming t0 ?p" "quiet e t t0" using heart_beat_at_cmd [OF t(1)] by blast
  have "roomy N t0" "kMinBufLength \<le> int (length ?p)" using t(2) quietD [OF h(3)] rest by (simp_all add: roomy_def)
  from fill_at_cmd [OF h(2) this, of e] obtain t1 a q where
    f: "fill_buffer V e (rt_off t0) kMinBufLength (t0\<lparr>rt_oldOffset := rt_off t0\<rparr>) = Ok (Continue (), t1)"
    and i: "in_cmd incoming t1 [] a q" and aq: "?p = a @ q" "kMinBufLength \<le> int (length a)" and s: "steady e t0 t1" "rt_off t1 = rt_off t0"
      "rv_files (rt_parent t1) = rv_files (rt_parent t0)" by blast
  have "length (cmd_byte FOOTER_CMD # wire_s c) \<le> length a" using aq(2) length_wire_s(2) [of c] by (simp add: kMinBufLength_def)
  then obtain a1 where a: "a = cmd_byte FOOTER_CMD # wire_s c @ a1" "rest = a1 @ q"
    using prefix_in_buffer [of a q "cmd_byte FOOTER_CMD # wire_s c" rest] aq(1) by auto
  let ?t2 = "t1\<lparr>rt_off := rt_off t1 + 1\<rparr>"
  let ?t3 = "?t2\<lparr>rt_off := rt_off ?t2 + int (length (wire_s c))\<rparr>"
  let ?t4 = "markBlockVerified e bd ?t3"
  let ?t5 = "?t4\<lparr>rt_numRead := rt_numRead ?t4 - (rt_off ?t4 - rt_oldOffset ?t4)\<rparr>"
  have nb: "next_byte t1 = Ok (Continue (cmd_byte FOOTER_CMD), ?t2)" and i2: "in_cmd incoming ?t2 [cmd_byte FOOTER_CMD] (wire_s c @ a1) q"
    using next_byte_in_cmd [of incoming t1 "[]"] i a(1) by simp_all
  have n: "rt_numRead t1 = int (length a)" using in_cmd_numRead [OF i] by simp
  have mx: "rt_off ?t2 + int (length (wire_s c)) \<le> rt_oldOffset ?t2 + kMaxFooter" "rt_oldOffset ?t2 + kMaxFooter \<le> rt_bufSize ?t2"
    using i2 length_wire_s(2) [of c] aq(2) n by (simp_all add: in_cmd_def kMaxFooter_def kMinBufLength_def)
  have d: "decode_buffer decodeFooter (rt_oldOffset ?t2 + kMaxFooter) ?t2 = Ok (Continue (Some c), ?t3)"
    and i3: "in_cmd incoming ?t3 ([cmd_byte FOOTER_CMD] @ wire_s c) a1 q"
    using decode_in_cmd [OF i2, of "\<lambda>_. decodeInt32" c] footer_cmd.dec_wire [OF c] mx unfolding decodeFooter_def by blast+
  have i4: "in_cmd incoming ?t4 ([cmd_byte FOOTER_CMD] @ wire_s c) a1 q" using i3 by (simp add: in_cmd_def mark_keeps)
  have "\<not> rt_numRead t1 < kMinBufLength" using n aq(2) by simp
  then have "check_footer V e bd c t = Ok (Return READ_NEXT_CMD, ?t5)"
    using h(1) f nb d by (simp add: check_footer_def andThen_def modify_def goto_def)
  moreover have "at_cmd incoming ?t5 rest" unfolding a(2) by (rule end_cmd [OF i4])
  moreover have s4: "received e [bd] t ?t4"
    by (rule received_steady(1) [OF steady_trans [OF quiet_steady [OF h(3)] steady_trans [OF s(1) steady_trans [OF steady_cursor(1) steady_cursor(1)]]] mark_received])
  moreover have s5: "received e [bd] t ?t5" by (rule received_steady(2) [OF s4 steady_cursor(3)])
  moreover have "rt_off ?t5 = rt_off t + 1 + int (length (wire_s c))" using s(2) quietD(2) [OF h(3)] by (simp add: mark_keeps)
  then have "roomy N ?t5"
    using t(2,3) length_wire_s(2) [of c] s5 by (simp add: roomy_def kMaxFooter_def received_def same_run_def)
  moreover have "rv_files (rt_parent ?t5) = rv_files (rt_parent t)" using s(3) quiet_files(1) [OF h(3)] by (simp add: mark_keeps)
  ultimately show ?thesis by blast
qed

text \<open>The surroundings of a receiver without failures.\<close>

lemma first_file_cmd_settled: "resumption_settled e t \<Longrightarrow> first_file_cmd e t = Ok (Continue (), t)"
proof -
  have id: "set_funnel FUNNEL_END p = p" if "tc_funnels (rv_controller p) = FUNNEL_END # fs" for p fs
  proof -
    have "(rv_controller p)\<lparr>tc_funnels := FUNNEL_END # fs\<rparr> = rv_controller p" using that by (cases "rv_controller p") simp
    then show ?thesis using that by (cases p) (simp add: set_funnel_def)
  qed
  assume "resumption_settled e t"
  then show ?thesis
    by (cases t) (auto simp: first_file_cmd_def resumption_settled_def proceed_def andThen_def chunks_funnel_def getFunnel_def
        funnel_getStatus_def upd_parent_def id)
qed

lemma finish_block_input:
  assumes k: "at_cmd incoming (keep_rest rem t) (footer_msg (re_crc32c e) (rt_footerType t) d @ rest)" "rt_off (keep_rest rem t) + kMaxHeader \<le> rt_bufSize t"
    "steady e t (keep_rest rem t)" and b: "2 * kMaxHeader \<le> rt_bufSize t" "rt_bufSize t \<le> int N"
    and e: "env_ok e" and rest: "kMinBufLength \<le> int (length rest)"
  shows "\<exists>t'. finish_block V e et bd (update_checksum e (rt_footerType t) d 0, rem) t = Ok (Return READ_NEXT_CMD, t') \<and>
    at_cmd incoming t' rest \<and> roomy N t' \<and> received e [bd] t t' \<and> rv_files (rt_parent t') = rv_files (rt_parent (keep_rest rem t))"
proof -
  let ?k = "keep_rest rem t"
  have f: "rt_footerType ?k = rt_footerType t" "rt_bufSize ?k = rt_bufSize t" using k(3) by (simp_all add: steady_def same_run_def)
  have r: "roomy N ?k" using k(2) b f(2) by (simp add: roomy_def kMaxFooter_def)
  show ?thesis
  proof (cases "rt_footerType t = CHECKSUM_FOOTER")
    case True
    have c: "is_i32 (re_crc32c e d 0)" using e by (simp add: env_ok_def)
    have "at_cmd incoming ?k (cmd_byte FOOTER_CMD # wire_s (re_crc32c e d 0) @ rest)" "rt_off ?k + kMaxHeader \<le> rt_bufSize ?k"
      using k(1,2) True f(2) by (simp_all add: footer_msg_def)
    from check_footer_input [OF this(1) r this(2) c rest, of e bd] obtain t' where
      "check_footer V e bd (re_crc32c e d 0) ?k = Ok (Return READ_NEXT_CMD, t')" "at_cmd incoming t' rest" "roomy N t'" "received e [bd] ?k t'"
      "rv_files (rt_parent t') = rv_files (rt_parent ?k)" by blast
    then show ?thesis using True f(1) received_steady(1) [OF k(3)] by (auto simp: finish_block_def update_checksum_def Let_def)
  next
    case False
    let ?w = "?k\<lparr>rt_blocksWaitingVerification := rt_blocksWaitingVerification ?k @ [bd]\<rparr>" and ?m = "markBlockVerified e bd ?k"
    have ft: "rt_footerType t = NO_FOOTER" using False by (cases "rt_footerType t") simp_all
    have a: "at_cmd incoming ?k rest" using k(1) ft by (simp add: footer_msg_def)
    have "at_cmd incoming ?w rest" "at_cmd incoming ?m rest" "roomy N ?w" "roomy N ?m" using a r by (simp_all add: at_cmd_def roomy_def mark_keeps)
    then show ?thesis using f(1) ft received_steady(1) [OF k(3) wait_received] received_steady(1) [OF k(3) mark_received]
      by (auto simp: finish_block_def Let_def goto_def mark_keeps)
  qed
qed

text \<open>The body of a file command behind its head.\<close>

lemma file_body_input:
  assumes i: "in_cmd incoming t c a q" and aq: "a @ q = d @ footer_msg (re_crc32c e) (rt_footerType t) d @ rest" and b: "block_ok pv (bd, d)"
    and e: "env_ok e" and n: "2 * kMaxHeader \<le> rt_bufSize t" "rt_bufSize t \<le> int N" and rest: "kMinBufLength \<le> int (length rest)"
    and w: "rt_writer t = newWriter bd (rv_files (rt_parent t) (bd_fileName bd)) (snd (re_writer e k))"
  shows "\<exists>t'. andThen (guarded g (receiveBlock V e (fst (re_writer e k)) bd)) (finish_block V e et bd) t = Ok (Return READ_NEXT_CMD, t') \<and>
    at_cmd incoming t' rest \<and> roomy N t' \<and> received e [bd] t t' \<and> rv_files (rt_parent t') = store_block (bd, d) (rv_files (rt_parent t))"
proof -
  have ev: "no_abort e" "crc_ok e" "writer_env_ok (fst (re_writer e k))" "\<not> we_skip_writes (fst (re_writer e k))" "Write_failed \<notin> set (snd (re_writer e k))"
    using e by (simp_all add: env_ok_def)
  have bd: "bd_allocationStatus bd \<noteq> TO_BE_DELETED" "int (length d) = bd_dataSize bd" using b by (simp_all add: block_ok_def)
  obtain rem t1 where r: "receiveBlock V e (fst (re_writer e k)) bd t = Ok (Continue (update_checksum e (rt_footerType t) d 0, rem), t1)" "steady e t t1"
    "behind_block (rv_files (rt_parent t)) e bd d (footer_msg (re_crc32c e) (rt_footerType t) d @ rest) t (keep_rest rem t1)"
    using receiveBlock_input [OF i aq bd(2) w ev(5) refl ev(3,4) bd(1) ev(1,2) n] by blast
  have f1: "rt_footerType t1 = rt_footerType t" "rt_bufSize t1 = rt_bufSize t" using r(2) by (simp_all add: steady_def same_run_def)
  have bb: "at_cmd incoming (keep_rest rem t1) (footer_msg (re_crc32c e) (rt_footerType t1) d @ rest)" "rt_off (keep_rest rem t1) + kMaxHeader \<le> rt_bufSize t1"
    "steady e t (keep_rest rem t1)" "rv_files (rt_parent (keep_rest rem t1)) = store_block (bd, d) (rv_files (rt_parent t))"
    using r(3) f1 by (simp_all add: behind_block_def store_block_def)
  have s1: "steady e t1 (keep_rest rem t1)" by (simp add: steady_def same_run_def keep_rest_def account_def numReceived_def numAcked_def)
  have "2 * kMaxHeader \<le> rt_bufSize t1" "rt_bufSize t1 \<le> int N" using n f1(2) by simp_all
  from finish_block_input [OF bb(1,2) s1 this e rest, of et bd] obtain t' where
    "finish_block V e et bd (update_checksum e (rt_footerType t1) d 0, rem) t1 = Ok (Return READ_NEXT_CMD, t')" "at_cmd incoming t' rest"
    "roomy N t'" "received e [bd] t1 t'" "rv_files (rt_parent t') = rv_files (rt_parent (keep_rest rem t1))" by blast
  then show ?thesis using r(1) f1(1) bb(4) received_steady(1) [OF r(2)] by (simp add: andThen_def guarded_def)
qed

lemma processFileCmd_input:
  assumes i: "in_cmd incoming t [cmd_byte FILE_CMD] a0 q" and aq: "cmd_byte FILE_CMD # a0 @ q = block_msg (re_crc32c e) (rt_footerType t) pv (bd, d) @ rest"
    and b: "block_ok pv (bd, d)" "kMinBufLength \<le> int (length (cmd_byte FILE_CMD # a0))" and pv: "pv = rt_threadProtocolVersion t"
    and e: "env_ok e" "resumption_settled e t" "ts_localErrCode (rt_threadStats t) = OK"
    and n: "2 * kMaxHeader \<le> rt_bufSize t" "rt_bufSize t \<le> int N" and rest: "kMinBufLength \<le> int (length rest)"
  shows "\<exists>t'. processFileCmd V e t = Ok (Return READ_NEXT_CMD, t') \<and> at_cmd incoming t' rest \<and> roomy N t' \<and> received e [bd] t t' \<and>
    rv_files (rt_parent t') = store_block (bd, d) (rv_files (rt_parent t))"
proof -
  let ?h = "file_head pv 0 bd" and ?t1 = "t\<lparr>rt_checkpoint := resetLastBlockDetails (rt_checkpoint t)\<rparr>"
  have bd: "ok_header pv newBlockDetails bd" "header_checks bd" "int (length ?h) \<le> kMinBufLength" using b(1) by (simp_all add: block_ok_def)
  have "length ?h \<le> length (cmd_byte FILE_CMD # a0)" using bd(3) b(2) by simp
  then obtain a1 where a1: "cmd_byte FILE_CMD # a0 = ?h @ a1" "a1 @ q = d @ footer_msg (re_crc32c e) (rt_footerType t) d @ rest"
    using prefix_in_buffer [of "cmd_byte FILE_CMD # a0" q ?h "d @ footer_msg (re_crc32c e) (rt_footerType t) d @ rest"] aq by (auto simp: block_msg_def)
  have i1: "in_cmd incoming ?t1 [cmd_byte FILE_CMD] a0 q" using i by (simp add: in_cmd_def)
  have s1: "steady e t ?t1" by (simp add: steady_def same_run_def account_def numReceived_def numAcked_def resetLastBlockDetails_def)
  have hl: "length ?h < 2 ^ 15" using bd(3) by (simp add: kMinBufLength_def)
  obtain t2 where t2: "readFileHeader V e ?t1 = Ok (Continue (bd, int (length ?h)), t2)" "in_cmd incoming t2 ?h a1 q" "steady e ?t1 t2"
    "rv_files (rt_parent t2) = rv_files (rt_parent ?t1)"
    using readFileHeader_input [OF i1 a1(1) _ bd(1,2) hl, of e] pv by auto
  let ?t3 = "t2\<lparr>rt_tick := Suc (rt_tick t2)\<rparr>"
  let ?t4 = "?t3\<lparr>rt_checkpointIndex := rt_pendingCheckpointIndex ?t3,
      rt_writer := newWriter bd (rv_files (rt_parent ?t3) (bd_fileName bd)) (snd (re_writer e (rt_tick t2)))\<rparr>"
  have s4: "steady e t ?t4"
    by (rule steady_trans [OF s1 steady_trans [OF t2(3) steady_trans [OF quiet_steady [OF quiet_tick] steady_trans [OF steady_cursor(5) steady_cursor(4)]]]])
  have f4: "rt_footerType ?t4 = rt_footerType t" "2 * kMaxHeader \<le> rt_bufSize ?t4" "rt_bufSize ?t4 \<le> int N"
    using s4 n by (simp_all add: steady_def same_run_def)
  have i4: "in_cmd incoming ?t4 ?h a1 q" using t2(2) by (simp add: in_cmd_def)
  have aq4: "a1 @ q = d @ footer_msg (re_crc32c e) (rt_footerType ?t4) d @ rest" using a1(2) f4(1) by simp
  obtain t' where t': "andThen (guarded (written_guard (so_encryptionType V (rt_socket ?t3)) bd (int (length ?h))) (receiveBlock V e (fst (re_writer e (rt_tick t2))) bd))
      (finish_block V e (so_encryptionType V (rt_socket ?t3)) bd) ?t4 = Ok (Return READ_NEXT_CMD, t')" "at_cmd incoming t' rest" "roomy N t'"
    "received e [bd] ?t4 t'" "rv_files (rt_parent t') = store_block (bd, d) (rv_files (rt_parent ?t4))"
    using file_body_input [OF i4 aq4 b(1) e(1) f4(2,3) rest, of "rt_tick t2"] by auto
  have r: "received e [bd] t t'" by (rule received_steady(1) [OF s4 t'(4)])
  then have "count_failure t' = t'" using e(3) by (simp add: count_failure_def received_def same_run_def)
  then have "processFileCmd V e t = Ok (Return READ_NEXT_CMD, t')"
    using first_file_cmd_settled [OF e(2)] t2(1) t'(1)
    by (simp add: processFileCmd_def andThen_def [of "first_file_cmd e"] andThen_def [of "modify _"] modify_def guarded_def [of count_failure]
        andThen_def [of "readFileHeader V e"] andThen_def [of "ask_env _"] ask_env_def case_prod_unfold Let_def)
  then show ?thesis using t'(2,3,5) t2(4) r by simp
qed

text \<open>From one command boundary to the next.\<close>

lemma receive_block:
  assumes t: "at_cmd incoming t (block_msg (re_crc32c e) (rt_footerType t) pv b @ rest)" "roomy N t" and b: "block_ok pv b" and pv: "pv = rt_threadProtocolVersion t"
    and e: "env_ok e" "resumption_settled e t" "ts_localErrCode (rt_threadStats t) = OK" and rest: "kMinBufLength \<le> int (length rest)"
  shows "\<exists>t1 t2. readNextCmd V e t = Ok (Return PROCESS_FILE_CMD, t1) \<and> processFileCmd V e (t1\<lparr>rt_tick := Suc (rt_tick t1)\<rparr>) = Ok (Return READ_NEXT_CMD, t2) \<and>
    at_cmd incoming t2 rest \<and> roomy N t2 \<and> received e [fst b] t t2 \<and> rv_files (rt_parent t2) = store_block b (rv_files (rt_parent t))"
proof -
  obtain bd d where bd: "b = (bd, d)" by (cases b)
  obtain p where p: "block_msg (re_crc32c e) (rt_footerType t) pv b @ rest = cmd_byte FILE_CMD # p" by (simp add: block_msg_def file_head_def)
  have st: "cmd_state (cmd_byte FILE_CMD) = Some PROCESS_FILE_CMD" by (simp add: cmd_state_def)
  have len: "kMinBufLength \<le> int (length (cmd_byte FILE_CMD # p))" using rest unfolding p [symmetric] by simp
  obtain t0 a q where t0: "readNextCmd V e t = Ok (Return PROCESS_FILE_CMD, t0)" "in_cmd incoming t0 [cmd_byte FILE_CMD] a q" "p = a @ q"
    "kMinBufLength \<le> int (length (cmd_byte FILE_CMD # a))" "steady e t t0" "rv_files (rt_parent t0) = rv_files (rt_parent t)"
    using readNextCmd_input [OF t(1) [unfolded p] t(2) len st, of e] by blast
  define t1 where "t1 = t0\<lparr>rt_tick := Suc (rt_tick t0)\<rparr>"
  have t1: "in_cmd incoming t1 [cmd_byte FILE_CMD] a q" "steady e t t1" "rv_files (rt_parent t1) = rv_files (rt_parent t)"
    using t0(2,6) steady_trans [OF t0(5) quiet_steady [OF quiet_tick]] by (simp_all add: t1_def in_cmd_def)
  have f: "rt_footerType t1 = rt_footerType t" "rt_threadProtocolVersion t1 = pv" "ts_localErrCode (rt_threadStats t1) = OK"
    "2 * kMaxHeader \<le> rt_bufSize t1" "rt_bufSize t1 \<le> int N"
    using t1(2) pv e(3) t(2) by (simp_all add: steady_def same_run_def roomy_def)
  have "rv_controller (rt_parent t1) = rv_controller (rt_parent t)" by (rule same_run_controller) (use t1(2) in \<open>simp add: steady_def\<close>)
  then have rs: "resumption_settled e t1" using e(2) by (simp add: resumption_settled_def)
  have aq: "cmd_byte FILE_CMD # a @ q = block_msg (re_crc32c e) (rt_footerType t1) pv (bd, d) @ rest" using p t0(3) bd f(1) by simp
  obtain t2 where "processFileCmd V e t1 = Ok (Return READ_NEXT_CMD, t2)" "at_cmd incoming t2 rest" "roomy N t2" "received e [bd] t1 t2"
    "rv_files (rt_parent t2) = store_block (bd, d) (rv_files (rt_parent t1))"
    using processFileCmd_input [OF t1(1) aq _ t0(4) f(2) [symmetric] e(1) rs f(3-5) rest] b bd by blast
  then show ?thesis using t0(1) t1(3) bd received_steady(1) [OF t1(2)] unfolding t1_def by auto
qed

end

end
