(* ===== verification/Receiver_Session.thy ===== *)
theory Receiver_Session
  imports Receiver_Blocks
begin

text \<open>
  A session of a receiver thread: all blocks of a connection up to the end of the sender's data,
  and what goes wrong in a header that arrives in two reads, with commands that never reset the buffer
  and with a sender that does not send its settings.
\<close>

section \<open>The state machine\<close>

lemma machine_step:
  assumes "no_abort e" "st \<noteq> END" "run_state V e st (t\<lparr>rt_tick := Suc (rt_tick t)\<rparr>) = Ok (Return st', t')"
  shows "machine V e (Suc n) st t = machine V e n st' t'"
  using assms by (simp add: no_abort_def Let_def)

lemma tick_keeps:
  "at_cmd incoming (t\<lparr>rt_tick := k\<rparr>) p = at_cmd incoming t p" "in_cmd incoming (t\<lparr>rt_tick := k\<rparr>) c a q = in_cmd incoming t c a q"
  "roomy N (t\<lparr>rt_tick := k\<rparr>) = roomy N t" "resumption_settled e (t\<lparr>rt_tick := k\<rparr>) = resumption_settled e t"
  by (simp_all add: at_cmd_def in_cmd_def roomy_def resumption_settled_def)

lemma steady_tick: "steady e t (t\<lparr>rt_tick := k\<rparr>)"
  by (simp add: steady_def same_run_def account_def numReceived_def numAcked_def)

context byte_stream
begin

lemma processDoneCmd_input:
  assumes i: "in_cmd incoming t [cmd_byte DONE_CMD] (status # wire_done pv nb @ a) q" and n: "rt_numRead t = kMinBufLength"
    and ok: "ok_done pv (-1) nb" and pv: "pv = rt_threadProtocolVersion t"
  shows "\<exists>t'. processDoneCmd t = Ok (Return WAIT_FOR_FINISH_OR_NEW_CHECKPOINT, t') \<and> steady e t t' \<and>
    rv_files (rt_parent t') = rv_files (rt_parent t) \<and> rt_checkpointIndex t' = rt_pendingCheckpointIndex t \<and>
    ts_numBlocksSend (rt_threadStats t') = fst nb \<and> ts_totalSenderBytes (rt_threadStats t') = snd nb"
proof -
  let ?t1 = "t\<lparr>rt_off := rt_off t + 1\<rparr>"
  let ?t2 = "?t1\<lparr>rt_off := rt_off ?t1 + int (length (wire_done pv nb))\<rparr>"
  let ?f = "\<lambda>s. setRemoteErrorCode (code_of_byte status) (setTotalSenderBytes (snd nb) (setNumBlocksSend (fst nb) s))"
  let ?t3 = "(upd_stats ?f ?t2)\<lparr>rt_checkpointIndex := rt_pendingCheckpointIndex (upd_stats ?f ?t2)\<rparr>"
  have nb: "next_byte t = Ok (Continue status, ?t1)" and i1: "in_cmd incoming ?t1 [cmd_byte DONE_CMD, status] (wire_done pv nb @ a) q"
    using next_byte_in_cmd [OF i] by simp_all
  have mx: "rt_off ?t1 + int (length (wire_done pv nb)) \<le> rt_oldOffset ?t1 + kMaxDone" "rt_oldOffset ?t1 + kMaxDone \<le> rt_bufSize ?t1"
    using i1 n length_wire_done [of pv nb] by (simp_all add: in_cmd_def kMaxDone_def kMinBufLength_def)
  have "decode_buffer (decodeDone pv (-1)) (rt_oldOffset ?t1 + kMaxDone) ?t1 = Ok (Continue (Some nb), ?t2)"
    using decode_in_cmd(1) [OF i1, of "\<lambda>_. done_body pv (-1)" nb] done_cmd.dec_wire [OF ok] mx unfolding decodeDone_def by blast
  then have "processDoneCmd t = Ok (Return WAIT_FOR_FINISH_OR_NEW_CHECKPOINT, ?t3)"
    using nb n pv by (simp add: processDoneCmd_def andThen_def modify_def goto_def case_prod_unfold)
  moreover have "steady e ?t2 (upd_stats ?f ?t2)" by (rule steady_stats) (simp_all add: stats_defs)
  then have "steady e t ?t3"
    using steady_trans [OF steady_trans [OF steady_cursor(1) steady_cursor(1)] steady_trans [OF _ steady_cursor(5)]] by blast
  ultimately show ?thesis by (intro exI [of _ ?t3]) (simp add: upd_stats_def stats_defs)
qed

lemma receive_done:
  assumes t: "at_cmd incoming t (done_msg pv status nb fill)" "roomy N t" and ok: "ok_done pv (-1) nb" and pv: "pv = rt_threadProtocolVersion t"
    and fill: "int (length (done_msg pv status nb fill)) = kMinBufLength"
  shows "\<exists>t1 t2. readNextCmd V e t = Ok (Return PROCESS_DONE_CMD, t1) \<and> processDoneCmd (t1\<lparr>rt_tick := Suc (rt_tick t1)\<rparr>) = Ok (Return WAIT_FOR_FINISH_OR_NEW_CHECKPOINT, t2) \<and>
    steady e t t2 \<and> rv_files (rt_parent t2) = rv_files (rt_parent t) \<and>
    ts_numBlocksSend (rt_threadStats t2) = fst nb \<and> ts_totalSenderBytes (rt_threadStats t2) = snd nb"
proof -
  obtain z where z: "done_msg pv status nb fill = cmd_byte DONE_CMD # status # wire_done pv nb @ z" by (simp add: done_msg_def Let_def)
  have st: "cmd_state (cmd_byte DONE_CMD) = Some PROCESS_DONE_CMD" by (simp add: cmd_state_def)
  have len: "int (length (cmd_byte DONE_CMD # status # wire_done pv nb @ z)) = kMinBufLength" using fill unfolding z .
  obtain t1 a q where t1: "readNextCmd V e t = Ok (Return PROCESS_DONE_CMD, t1)" "in_cmd incoming t1 [cmd_byte DONE_CMD] a q"
    "status # wire_done pv nb @ z = a @ q" "kMinBufLength \<le> int (length (cmd_byte DONE_CMD # a))" "steady e t t1"
    "rv_files (rt_parent t1) = rv_files (rt_parent t)"
    using readNextCmd_input [OF t(1) [unfolded z] t(2) eq_refl [OF len [symmetric]] st, of e] by blast
  have "length (a @ q) + 1 = nat kMinBufLength" using len unfolding t1(3) [symmetric] by simp
  then have q: "q = []" using t1(4) by (cases q) (simp_all add: kMinBufLength_def)
  then have a: "a = status # wire_done pv nb @ z" using t1(3) by simp
  have n: "rt_numRead t1 = kMinBufLength" using in_cmd_numRead [OF t1(2)] len a by simp
  let ?u = "t1\<lparr>rt_tick := Suc (rt_tick t1)\<rparr>"
  have u: "in_cmd incoming ?u [cmd_byte DONE_CMD] (status # wire_done pv nb @ z) q" "rt_numRead ?u = kMinBufLength" "pv = rt_threadProtocolVersion ?u"
    using t1(2,5) a n pv by (simp_all add: steady_def same_run_def tick_keeps)
  from processDoneCmd_input [OF u(1,2) ok u(3), of e] show ?thesis
    using t1(1,6) steady_trans [OF steady_trans [OF t1(5) steady_tick]] by fastforce
qed

text \<open>All blocks, then the end of the data.\<close>

lemma receive_blocks:
  assumes e: "env_ok e" and fin: "kMinBufLength \<le> int (length fin)"
  shows "at_cmd incoming t (concat (map (block_msg (re_crc32c e) (rt_footerType t) (rt_threadProtocolVersion t)) bs) @ fin) \<Longrightarrow> roomy N t \<Longrightarrow>
    list_all (block_ok (rt_threadProtocolVersion t)) bs \<Longrightarrow> resumption_settled e t \<Longrightarrow> ts_localErrCode (rt_threadStats t) = OK \<Longrightarrow>
    \<exists>t'. (\<forall>n. machine V e (2 * length bs + n) READ_NEXT_CMD t = machine V e n READ_NEXT_CMD t') \<and> at_cmd incoming t' fin \<and> roomy N t' \<and>
      received e (map fst bs) t t' \<and> rv_files (rt_parent t') = fold store_block bs (rv_files (rt_parent t))"
proof (induction bs arbitrary: t)
  case Nil
  then show ?case by (intro exI [of _ t]) (simp add: received_def same_run_def)
next
  case (Cons b bs)
  let ?t0 = "t\<lparr>rt_tick := Suc (rt_tick t)\<rparr>" and ?pv = "rt_threadProtocolVersion t" and ?ft = "rt_footerType t"
  let ?rest = "concat (map (block_msg (re_crc32c e) ?ft ?pv) bs) @ fin"
  have rest: "kMinBufLength \<le> int (length ?rest)" using fin by simp
  have na: "no_abort e" using e by (simp add: env_ok_def)
  have "at_cmd incoming ?t0 (block_msg (re_crc32c e) (rt_footerType ?t0) ?pv b @ ?rest)" "roomy N ?t0" "block_ok ?pv b" "?pv = rt_threadProtocolVersion ?t0"
    "resumption_settled e ?t0" "ts_localErrCode (rt_threadStats ?t0) = OK"
    using Cons.prems by (simp_all add: tick_keeps)
  from receive_block [OF this(1-4) e this(5,6) rest] obtain t1 t2 where
    s: "readNextCmd V e ?t0 = Ok (Return PROCESS_FILE_CMD, t1)" "processFileCmd V e (t1\<lparr>rt_tick := Suc (rt_tick t1)\<rparr>) = Ok (Return READ_NEXT_CMD, t2)"
    "at_cmd incoming t2 ?rest" "roomy N t2" "received e [fst b] ?t0 t2" "rv_files (rt_parent t2) = store_block b (rv_files (rt_parent ?t0))" by blast
  have same: "same_run ?t0 t2" using s(5) by (simp add: received_def)
  have kept: "rt_footerType t2 = ?ft" "rt_threadProtocolVersion t2 = ?pv" "ts_localErrCode (rt_threadStats t2) = OK"
    "resumption_settled e t2"
    using same same_run_controller [OF same] Cons.prems(4,5) by (simp_all add: same_run_def resumption_settled_def)
  obtain t' where t': "\<forall>n. machine V e (2 * length bs + n) READ_NEXT_CMD t2 = machine V e n READ_NEXT_CMD t'"
    "at_cmd incoming t' fin" "roomy N t'" "received e (map fst bs) t2 t'" "rv_files (rt_parent t') = fold store_block bs (rv_files (rt_parent t2))"
    using Cons.IH [of t2] s(3,4) kept Cons.prems(3) by auto
  have m: "machine V e (Suc (Suc k)) READ_NEXT_CMD t = machine V e k READ_NEXT_CMD t2" for k
    using machine_step [OF na, of READ_NEXT_CMD V t _ _ "Suc k"] machine_step [OF na, of PROCESS_FILE_CMD V t1 _ _ k] s(1,2) by (simp del: machine.simps)
  have r: "received e ([fst b] @ map fst bs) t t'" by (rule received_trans [OF received_steady(1) [OF steady_tick s(5)] t'(4)])
  have "machine V e (2 * length (b # bs) + n) READ_NEXT_CMD t = machine V e n READ_NEXT_CMD t'" for n
    using m [of "2 * length bs + n"] t'(1) by (simp del: machine.simps)
  then show ?case using t'(2,3,5) s(6) r by (intro exI [of _ t']) (simp del: machine.simps)
qed

theorem receive_session:
  assumes t: "at_cmd incoming t (concat (map (block_msg (re_crc32c e) (rt_footerType t) pv) bs) @ done_msg pv status nb fill)" "roomy N t"
    and bs: "list_all (block_ok pv) bs" "ok_done pv (-1) nb" and pv: "pv = rt_threadProtocolVersion t"
    and e: "env_ok e" "resumption_settled e t" "ts_localErrCode (rt_threadStats t) = OK" and fill: "int (length (done_msg pv status nb fill)) = kMinBufLength"
  shows "\<exists>t'. (\<forall>n. machine V e (2 * length bs + 2 + n) READ_NEXT_CMD t = machine V e n WAIT_FOR_FINISH_OR_NEW_CHECKPOINT t') \<and>
    received e (map fst bs) t t' \<and> rv_files (rt_parent t') = fold store_block bs (rv_files (rt_parent t)) \<and>
    ts_numBlocksSend (rt_threadStats t') = fst nb \<and> ts_totalSenderBytes (rt_threadStats t') = snd nb"
proof -
  have na: "no_abort e" using e by (simp add: env_ok_def)
  obtain t1 where t1: "\<forall>n. machine V e (2 * length bs + n) READ_NEXT_CMD t = machine V e n READ_NEXT_CMD t1"
    "at_cmd incoming t1 (done_msg pv status nb fill)" "roomy N t1" "received e (map fst bs) t t1"
    "rv_files (rt_parent t1) = fold store_block bs (rv_files (rt_parent t))"
    using receive_blocks [of e "done_msg pv status nb fill" t bs] t bs pv e fill by auto
  let ?t1 = "t1\<lparr>rt_tick := Suc (rt_tick t1)\<rparr>"
  have "at_cmd incoming ?t1 (done_msg pv status nb fill)" "roomy N ?t1" "pv = rt_threadProtocolVersion ?t1"
    using t1(2-4) pv by (simp_all add: tick_keeps received_def same_run_def)
  from receive_done [OF this(1,2) bs(2) this(3) fill, of e] obtain t2 t3 where
    d: "readNextCmd V e ?t1 = Ok (Return PROCESS_DONE_CMD, t2)" "processDoneCmd (t2\<lparr>rt_tick := Suc (rt_tick t2)\<rparr>) = Ok (Return WAIT_FOR_FINISH_OR_NEW_CHECKPOINT, t3)"
    "steady e ?t1 t3" "rv_files (rt_parent t3) = rv_files (rt_parent ?t1)"
    "ts_numBlocksSend (rt_threadStats t3) = fst nb" "ts_totalSenderBytes (rt_threadStats t3) = snd nb" by blast
  have m: "machine V e (Suc (Suc k)) READ_NEXT_CMD t1 = machine V e k WAIT_FOR_FINISH_OR_NEW_CHECKPOINT t3" for k
    using machine_step [OF na, of READ_NEXT_CMD V t1 _ _ "Suc k"] machine_step [OF na, of PROCESS_DONE_CMD V t2 _ _ k] d(1,2)
    by (simp del: machine.simps)
  have "machine V e (2 * length bs + 2 + n) READ_NEXT_CMD t = machine V e n WAIT_FOR_FINISH_OR_NEW_CHECKPOINT t3" for n
    using t1(1) [rule_format, of "Suc (Suc n)"] m [of n] by (simp del: machine.simps)
  moreover have "received e (map fst bs) t t3" by (rule received_steady(2) [OF t1(4) steady_trans [OF steady_tick d(3)]])
  ultimately show ?thesis using t1(5) d(4-6) by (intro exI [of _ t3]) (simp del: machine.simps)
qed

end

end
