(* ===== verification/Receiver_Settings.thy ===== *)
theory Receiver_Settings
  imports Receiver_Session
begin

text \<open>
  The commands before the blocks: settings of the sender and the total size; and a whole transfer as a receiver thread
  sees it, from the settings to the end of the data.
\<close>

section \<open>Settings and size\<close>

text \<open>What the settings of a sender change.\<close>

definition settled :: "Settings \<Rightarrow> 's ReceiverThread \<Rightarrow> 's ReceiverThread" where
  "settled s t = t\<lparr>rt_senderReadTimeout := st_readTimeoutMillis s, rt_senderWriteTimeout := st_writeTimeoutMillis s,
     rt_isBlockMode := \<not> st_blockModeDisabled s, rt_enableHeartBeat := st_enableHeartBeat s, rt_curConnectionVerified := True,
     rt_footerType := (if st_enableChecksum s then CHECKSUM_FOOTER else NO_FOOTER)\<rparr>"

lemma settled_keeps [simp]:
  "account e (settled s t) = account e t" "numReceived (settled s t) = numReceived t" "numAcked (settled s t) = numAcked t"
  "rt_buf (settled s t) = rt_buf t" "rt_parent (settled s t) = rt_parent t" "rt_threadProtocolVersion (settled s t) = rt_threadProtocolVersion t"
  "rt_threadStats (settled s t) = rt_threadStats t" "rt_off (settled s t) = rt_off t" "rt_numRead (settled s t) = rt_numRead t"
  "rt_oldOffset (settled s t) = rt_oldOffset t" "rt_socket (settled s t) = rt_socket t"
  by (simp_all add: settled_def account_def numReceived_def numAcked_def)

lemma steady_settled: "steady e t t' \<Longrightarrow> steady e (settled s t) (settled s t')"
  by (auto simp: steady_def) (simp add: same_run_def settled_def)

lemma same_run_transferId: "same_run t t' \<Longrightarrow> rv_transferId (rt_parent t') = rv_transferId (rt_parent t)"
proof -
  assume "same_run t t'"
  then have p: "rt_parent t' = (rt_parent t)\<lparr>rv_log := rv_log (rt_parent t'), rv_files := rv_files (rt_parent t')\<rparr>" by (simp add: same_run_def)
  show ?thesis by (subst p) simp
qed

context byte_stream
begin

lemma processSettingsCmd_input:
  assumes i: "in_cmd incoming t [cmd_byte SETTINGS_CMD] (wire_u pv @ wire_settings_tail pv s @ a) q"
    and room: "rt_oldOffset t + kMaxVersion + kMaxSettings \<le> rt_bufSize t"
    and pv: "pv = rt_threadProtocolVersion t" "nonneg_i32 pv" "PERIODIC_ENCRYPTION_IV_CHANGE_VERSION \<le> pv"
    and s: "ok_settings pv newSettings s" "int (length (st_transferId s)) \<le> kMaxTransferIdLength" "\<not> st_sendFileChunks s"
      "rv_transferId (rt_parent t) = st_transferId s"
  shows "\<exists>t'. processSettingsCmd V t = Ok (Return READ_NEXT_CMD, settled s t') \<and> steady e t t' \<and> at_cmd incoming t' (a @ q) \<and>
    rt_off t' = rt_oldOffset t + int (length (settings_msg pv s)) \<and> rv_files (rt_parent t') = rv_files (rt_parent t)"
proof -
  let ?w = "wire_u pv" and ?x = "wire_settings_tail pv s"
  let ?t1 = "t\<lparr>rt_off := rt_off t + int (length ?w)\<rparr>"
  let ?t2 = "?t1\<lparr>rt_off := rt_off ?t1 + int (length ?x)\<rparr>"
  have off: "rt_off t = rt_oldOffset t + 1" using i by (simp add: in_cmd_def)
  have m1: "rt_off t + int (length ?w) \<le> rt_oldOffset t + kMaxVersion" "rt_oldOffset t + kMaxVersion \<le> rt_bufSize t"
    using off room length_wire_u(2) [of pv] by (simp_all add: size_defs)
  have d1: "decode_buffer decodeVersion (rt_oldOffset t + kMaxVersion) t = Ok (Continue (Some pv), ?t1)"
    and i1: "in_cmd incoming ?t1 ([cmd_byte SETTINGS_CMD] @ ?w) (?x @ a) q"
    using decode_in_cmd [OF i, of "\<lambda>_. decodeInt32C" pv] i32c_codec.dec_wire [OF pv(2)] m1 unfolding decodeVersion_def by blast+
  have len: "int (length (settings_msg pv s)) \<le> kMaxSettings" by (rule length_settings_msg [OF s(2)])
  have m2: "rt_off ?t1 + int (length ?x) \<le> rt_oldOffset ?t1 + kMaxVersion + kMaxSettings" "rt_oldOffset ?t1 + kMaxVersion + kMaxSettings \<le> rt_bufSize ?t1"
    using off room len by (simp_all add: settings_msg_def size_defs)
  have "0 \<le> rt_off ?t1" "rt_off ?t1 < rt_oldOffset ?t1 + kMaxVersion + kMaxSettings"
    using i1 m1(1) by (simp_all add: in_cmd_def size_defs)
  then have run: "decode_buffer (decodeSettings pv newSettings) (rt_oldOffset ?t1 + kMaxVersion + kMaxSettings) ?t1 =
      decode_buffer (run_decoder (settings_body pv newSettings)) (rt_oldOffset ?t1 + kMaxVersion + kMaxSettings) ?t1"
    by (simp add: decode_buffer_def decodeSettings_def)
  have spec: "dec_spec (\<lambda>br. settings_body pv newSettings br br) ?x s" using settings_body_spec [OF s(1)] by (auto simp: dec_spec_def)
  have d2: "decode_buffer (decodeSettings pv newSettings) (rt_oldOffset ?t1 + kMaxVersion + kMaxSettings) ?t1 = Ok (Continue (Some s), ?t2)"
    and i2: "in_cmd incoming ?t2 (([cmd_byte SETTINGS_CMD] @ ?w) @ ?x) a q"
    using decode_in_cmd [OF i1, of "settings_body pv newSettings" s] spec m2 run by simp_all
  let ?t3 = "?t2\<lparr>rt_numRead := rt_numRead ?t2 - (rt_off ?t2 - rt_oldOffset ?t2)\<rparr>"
  have "processSettingsCmd V t = Ok (Return READ_NEXT_CMD, settled s ?t3)"
    using d1 d2 pv s(3,4) by (simp add: processSettingsCmd_def andThen_def negotiate_def proceed_def apply_settings_def goto_def settled_def Let_def)
  moreover have "at_cmd incoming ?t3 (a @ q)" by (rule end_cmd [OF i2])
  moreover have "steady e t ?t3" using steady_trans [OF steady_trans [OF steady_cursor(1) steady_cursor(1)] steady_cursor(3)] by blast
  ultimately show ?thesis using off by (intro exI [of _ ?t3]) (simp add: settings_msg_def)
qed

lemma processSizeCmd_input:
  assumes i: "in_cmd incoming t [cmd_byte SIZE_CMD] (wire_u n @ a) q" and room: "rt_oldOffset t + kMaxSize \<le> rt_bufSize t" and n: "nonneg_i64 n"
  shows "\<exists>t'. processSizeCmd t = Ok (Return READ_NEXT_CMD, t') \<and> steady e t t' \<and> at_cmd incoming t' (a @ q) \<and>
    rt_off t' = rt_oldOffset t + int (length (size_msg n)) \<and> rv_files (rt_parent t') = rv_files (rt_parent t)"
proof -
  let ?t1 = "t\<lparr>rt_off := rt_off t + int (length (wire_u n))\<rparr>"
  let ?t2 = "?t1\<lparr>rt_numRead := rt_numRead ?t1 - (rt_off ?t1 - rt_oldOffset ?t1)\<rparr>"
  have off: "rt_off t = rt_oldOffset t + 1" using i by (simp add: in_cmd_def)
  have "rt_off t + int (length (wire_u n)) \<le> rt_oldOffset t + kMaxSize" using off length_wire_u(2) [of n] by (simp add: size_defs)
  then have d: "decode_buffer decodeSize (rt_oldOffset t + kMaxSize) t = Ok (Continue (Some n), ?t1)"
    and i1: "in_cmd incoming ?t1 ([cmd_byte SIZE_CMD] @ wire_u n) a q"
    using decode_in_cmd [OF i, of "\<lambda>_. decodeInt64C" n] i64c_codec.dec_wire [OF n] room unfolding decodeSize_def by blast+
  let ?t3 = "upd_stats (setTotalSenderBytes n) ?t2"
  have "processSizeCmd t = Ok (Return READ_NEXT_CMD, ?t3)" using d by (simp add: processSizeCmd_def andThen_def goto_def)
  moreover have "at_cmd incoming ?t3 (a @ q)" using end_cmd [OF i1] by (simp add: at_cmd_def upd_stats_def)
  moreover have "steady e ?t2 ?t3" by (rule steady_stats) (simp_all add: stats_defs)
  then have "steady e t ?t3" using steady_trans [OF steady_trans [OF steady_cursor(1) steady_cursor(3)]] by blast
  ultimately show ?thesis using off by (intro exI [of _ ?t3]) (simp add: upd_stats_def size_msg_def)
qed

text \<open>A short command at the cursor is in the buffer when its state function runs.\<close>

lemma short_command:
  assumes t: "at_cmd incoming t (b # w @ rest)" "roomy N t" and len: "int (length (b # w)) \<le> kMinBufLength" "kMinBufLength \<le> int (length (b # w @ rest))"
    and st: "cmd_state b = Some st"
  shows "\<exists>t1 a q. readNextCmd V e t = Ok (Return st, t1) \<and> in_cmd incoming t1 [b] (w @ a) q \<and> rest = a @ q \<and> steady e t t1 \<and>
    rt_oldOffset t1 = rt_off t \<and> rv_files (rt_parent t1) = rv_files (rt_parent t)"
proof -
  obtain t1 a q where t1: "readNextCmd V e t = Ok (Return st, t1)" "in_cmd incoming t1 [b] a q" "w @ rest = a @ q"
    "kMinBufLength \<le> int (length (b # a))" "steady e t t1" "rt_oldOffset t1 = rt_off t" "rv_files (rt_parent t1) = rv_files (rt_parent t)"
    using readNextCmd_input [OF t len(2) st, of e] by blast
  have "length w \<le> length a" using len(1) t1(4) by simp
  then obtain a1 where "a = w @ a1" "rest = a1 @ q" using prefix_in_buffer [OF t1(3) [symmetric]] by blast
  then show ?thesis using t1 by blast
qed

lemma receive_settings:
  assumes t: "at_cmd incoming t (settings_msg pv s @ rest)" "roomy N t" "rt_off t + kMaxHeader \<le> rt_bufSize t" and e: "no_abort e"
    and len: "int (length (settings_msg pv s)) \<le> kMinBufLength" "kMinBufLength \<le> int (length rest)"
    and pv: "pv = rt_threadProtocolVersion t" "nonneg_i32 pv" "PERIODIC_ENCRYPTION_IV_CHANGE_VERSION \<le> pv"
    and s: "ok_settings pv newSettings s" "int (length (st_transferId s)) \<le> kMaxTransferIdLength" "\<not> st_sendFileChunks s" "rv_transferId (rt_parent t) = st_transferId s"
  shows "\<exists>t'. (\<forall>n. machine V e (2 + n) READ_NEXT_CMD t = machine V e n READ_NEXT_CMD (settled s t')) \<and> steady e t t' \<and> at_cmd incoming t' rest \<and>
    rt_off t' = rt_off t + int (length (settings_msg pv s)) \<and> rv_files (rt_parent t') = rv_files (rt_parent t)"
proof -
  let ?t0 = "t\<lparr>rt_tick := Suc (rt_tick t)\<rparr>" and ?b = "cmd_byte SETTINGS_CMD" and ?w = "wire_u pv @ wire_settings_tail pv s"
  have st: "cmd_state ?b = Some PROCESS_SETTINGS_CMD" by (simp add: cmd_state_def)
  have "at_cmd incoming ?t0 (?b # ?w @ rest)" "roomy N ?t0" "int (length (?b # ?w)) \<le> kMinBufLength" "kMinBufLength \<le> int (length (?b # ?w @ rest))"
    using t(1,2) len by (simp_all add: tick_keeps settings_msg_def)
  from short_command [OF this st, of e] obtain t1 a q where
    t1: "readNextCmd V e ?t0 = Ok (Return PROCESS_SETTINGS_CMD, t1)" "in_cmd incoming t1 [?b] (?w @ a) q" "rest = a @ q" "steady e ?t0 t1"
      "rt_oldOffset t1 = rt_off t" "rv_files (rt_parent t1) = rv_files (rt_parent t)" by auto
  let ?u = "t1\<lparr>rt_tick := Suc (rt_tick t1)\<rparr>"
  have same: "same_run t t1" using t1(4) by (simp add: steady_def same_run_def)
  have "in_cmd incoming ?u [?b] (wire_u pv @ wire_settings_tail pv s @ a) q" "rt_oldOffset ?u + kMaxVersion + kMaxSettings \<le> rt_bufSize ?u"
    "pv = rt_threadProtocolVersion ?u" "rv_transferId (rt_parent ?u) = st_transferId s"
    using t1(2,5) t(3) pv(1) s(4) same same_run_transferId [OF same] by (simp_all add: tick_keeps same_run_def size_defs)
  from processSettingsCmd_input [OF this(1-3) pv(2,3) s(1-3) this(4), of e] obtain t2 where
    t2: "processSettingsCmd V ?u = Ok (Return READ_NEXT_CMD, settled s t2)" "steady e ?u t2" "at_cmd incoming t2 (a @ q)"
      "rt_off t2 = rt_off t + int (length (settings_msg pv s))" "rv_files (rt_parent t2) = rv_files (rt_parent t1)" using t1(5) by auto
  have "machine V e (Suc (Suc n)) READ_NEXT_CMD t = machine V e n READ_NEXT_CMD (settled s t2)" for n
    using machine_step [OF e, of READ_NEXT_CMD V t _ _ "Suc n"] machine_step [OF e, of PROCESS_SETTINGS_CMD V t1 _ _ n] t1(1) t2(1)
    by (simp del: machine.simps)
  moreover have "steady e t t2" using steady_trans [OF steady_trans [OF steady_tick t1(4)] steady_trans [OF steady_tick t2(2)]] by blast
  ultimately show ?thesis using t1(3,6) t2(3-5) by (intro exI [of _ t2]) (simp del: machine.simps)
qed

lemma receive_size:
  assumes t: "at_cmd incoming t (size_part pv n @ rest)" "roomy N t" "rt_off t + kMaxHeader \<le> rt_bufSize t" and e: "no_abort e"
    and len: "kMinBufLength \<le> int (length rest)" and n: "nonneg_i64 n"
  shows "\<exists>t' k. (\<forall>m. machine V e (k + m) READ_NEXT_CMD t = machine V e m READ_NEXT_CMD t') \<and> steady e t t' \<and> at_cmd incoming t' rest \<and>
    rt_off t' \<le> rt_off t + kMaxSize \<and> rv_files (rt_parent t') = rv_files (rt_parent t)"
proof (cases "pv \<ge> RECEIVER_PROGRESS_REPORT_VERSION")
  case False
  then show ?thesis using t(1) by (intro exI [of _ t] exI [of _ 0]) (simp add: size_part_def size_defs)
next
  case True
  let ?t0 = "t\<lparr>rt_tick := Suc (rt_tick t)\<rparr>" and ?b = "cmd_byte SIZE_CMD" and ?w = "wire_u n"
  have st: "cmd_state ?b = Some PROCESS_SIZE_CMD" by (simp add: cmd_state_def)
  have "at_cmd incoming ?t0 (?b # ?w @ rest)" "roomy N ?t0" "int (length (?b # ?w)) \<le> kMinBufLength" "kMinBufLength \<le> int (length (?b # ?w @ rest))"
    using True t(1,2) len length_wire_u(2) [of n] by (simp_all add: tick_keeps size_part_def size_msg_def size_defs)
  from short_command [OF this st, of e] obtain t1 a q where
    t1: "readNextCmd V e ?t0 = Ok (Return PROCESS_SIZE_CMD, t1)" "in_cmd incoming t1 [?b] (?w @ a) q" "rest = a @ q" "steady e ?t0 t1"
      "rt_oldOffset t1 = rt_off t" "rv_files (rt_parent t1) = rv_files (rt_parent t)" by auto
  let ?u = "t1\<lparr>rt_tick := Suc (rt_tick t1)\<rparr>"
  have "in_cmd incoming ?u [?b] (?w @ a) q" "rt_oldOffset ?u + kMaxSize \<le> rt_bufSize ?u"
    using t1(2,4,5) t(3) by (simp_all add: tick_keeps steady_def same_run_def size_defs)
  from processSizeCmd_input [OF this n, of e] obtain t2 where
    t2: "processSizeCmd ?u = Ok (Return READ_NEXT_CMD, t2)" "steady e ?u t2" "at_cmd incoming t2 (a @ q)"
      "rt_off t2 = rt_off t + int (length (size_msg n))" "rv_files (rt_parent t2) = rv_files (rt_parent t1)" using t1(5) by auto
  have "machine V e (Suc (Suc m)) READ_NEXT_CMD t = machine V e m READ_NEXT_CMD t2" for m
    using machine_step [OF e, of READ_NEXT_CMD V t _ _ "Suc m"] machine_step [OF e, of PROCESS_SIZE_CMD V t1 _ _ m] t1(1) t2(1)
    by (simp del: machine.simps)
  moreover have "steady e t t2" using steady_trans [OF steady_trans [OF steady_tick t1(4)] steady_trans [OF steady_tick t2(2)]] by blast
  moreover have "rt_off t2 \<le> rt_off t + kMaxSize" using t2(4) length_wire_u(2) [of n] by (simp add: size_msg_def size_defs)
  ultimately show ?thesis using t1(3,6) t2(3,5) by (intro exI [of _ t2] exI [of _ 2]) (simp del: machine.simps)
qed

text \<open>A whole transfer: settings, size, blocks and the end of the data.\<close>

theorem receive_transfer:
  assumes t: "at_cmd incoming t (settings_msg pv s @ size_part pv n @ concat (map (block_msg (re_crc32c e) ft pv) bs) @ done_msg pv status nb fill)"
      "rt_off t = 0" "2 * kMaxHeader \<le> rt_bufSize t" "rt_bufSize t \<le> int N"
    and len: "int (length (settings_msg pv s)) \<le> kMinBufLength" "int (length (done_msg pv status nb fill)) = kMinBufLength"
    and pv: "pv = rt_threadProtocolVersion t" "nonneg_i32 pv" "PERIODIC_ENCRYPTION_IV_CHANGE_VERSION \<le> pv"
    and s: "ok_settings pv newSettings s" "int (length (st_transferId s)) \<le> kMaxTransferIdLength" "\<not> st_sendFileChunks s" "rv_transferId (rt_parent t) = st_transferId s"
      "ft = (if st_enableChecksum s then CHECKSUM_FOOTER else NO_FOOTER)"
    and bs: "nonneg_i64 n" "list_all (block_ok pv) bs" "ok_done pv (-1) nb"
    and e: "env_ok e" "resumption_settled e t" "ts_localErrCode (rt_threadStats t) = OK"
  shows "\<exists>t' k. (\<forall>n. machine V e (k + n) READ_NEXT_CMD t = machine V e n WAIT_FOR_FINISH_OR_NEW_CHECKPOINT t') \<and>
    received e (map fst bs) (settled s t) t' \<and> rv_files (rt_parent t') = fold store_block bs (rv_files (rt_parent t)) \<and>
    ts_numBlocksSend (rt_threadStats t') = fst nb \<and> ts_totalSenderBytes (rt_threadStats t') = snd nb"
proof -
  let ?blocks = "concat (map (block_msg (re_crc32c e) ft pv) bs) @ done_msg pv status nb fill"
  have na: "no_abort e" using e(1) by (simp add: env_ok_def)
  have rest: "kMinBufLength \<le> int (length ?blocks)" "kMinBufLength \<le> int (length (size_part pv n @ ?blocks))" using len(2) by simp_all
  have r0: "roomy N t" "rt_off t + kMaxHeader \<le> rt_bufSize t" using t(2-4) by (simp_all add: roomy_def size_defs)
  obtain t1 where t1: "\<forall>m. machine V e (2 + m) READ_NEXT_CMD t = machine V e m READ_NEXT_CMD (settled s t1)" "steady e t t1"
    "at_cmd incoming t1 (size_part pv n @ ?blocks)" "rt_off t1 = int (length (settings_msg pv s))" "rv_files (rt_parent t1) = rv_files (rt_parent t)"
    using receive_settings [OF t(1) r0 na len(1) rest(2) pv s(1-4)] t(2) by auto
  let ?t1 = "settled s t1"
  have b1: "length (rt_buf ?t1) = length (rt_buf t)" "rt_threadProtocolVersion ?t1 = pv" "rt_footerType ?t1 = ft"
    using t1(2) pv(1) s(5) by (simp_all add: steady_def same_run_def) (simp add: settled_def)
  have "at_cmd incoming ?t1 (size_part pv n @ ?blocks)" "roomy N ?t1" "rt_off ?t1 + kMaxHeader \<le> rt_bufSize ?t1"
    using t1(3,4) b1(1) t(3,4) len(1) by (simp_all add: at_cmd_def roomy_def size_defs)
  from receive_size [OF this na rest(1) bs(1)] obtain t2 k where
    t2: "\<forall>m. machine V e (k + m) READ_NEXT_CMD ?t1 = machine V e m READ_NEXT_CMD t2" "steady e ?t1 t2" "at_cmd incoming t2 ?blocks"
      "rt_off t2 \<le> rt_off ?t1 + kMaxSize" "rv_files (rt_parent t2) = rv_files (rt_parent ?t1)" by blast
  have st2: "steady e (settled s t) t2" by (rule steady_trans [OF steady_settled [OF t1(2)] t2(2)])
  then have same: "same_run (settled s t) t2" by (simp add: steady_def)
  have b2: "length (rt_buf t2) = length (rt_buf t)" "rt_threadProtocolVersion t2 = pv" "rt_footerType t2 = ft" "ts_localErrCode (rt_threadStats t2) = OK"
    "resumption_settled e t2"
    using t2(2) b1 same_run_controller [OF same] same e(2,3) by (simp_all add: steady_def same_run_def resumption_settled_def)
  have "at_cmd incoming t2 (concat (map (block_msg (re_crc32c e) (rt_footerType t2) pv) bs) @ done_msg pv status nb fill)" "roomy N t2"
    using t2(3,4) t1(4) b2(1,3) t(3,4) len(1) by (simp_all add: roomy_def size_defs)
  from receive_session [OF this bs(2,3) b2(2) [symmetric] e(1) b2(5,4) len(2)] obtain t' where
    t': "\<forall>n. machine V e (2 * length bs + 2 + n) READ_NEXT_CMD t2 = machine V e n WAIT_FOR_FINISH_OR_NEW_CHECKPOINT t'"
      "received e (map fst bs) t2 t'" "rv_files (rt_parent t') = fold store_block bs (rv_files (rt_parent t2))"
      "ts_numBlocksSend (rt_threadStats t') = fst nb" "ts_totalSenderBytes (rt_threadStats t') = snd nb" by blast
  have "machine V e (2 + (k + (2 * length bs + 2)) + m) READ_NEXT_CMD t = machine V e m WAIT_FOR_FINISH_OR_NEW_CHECKPOINT t'" for m
    using t1(1) [rule_format, of "k + (2 * length bs + 2 + m)"] t2(1) [rule_format, of "2 * length bs + 2 + m"] t'(1) [rule_format, of m]
    by (simp add: add.assoc del: machine.simps)
  moreover have "received e (map fst bs) (settled s t) t'" by (rule received_steady(1) [OF st2 t'(2)])
  ultimately show ?thesis using t'(3-5) t2(5) t1(5)
    by (intro exI [of _ t'] exI [of _ "2 + (k + (2 * length bs + 2))"]) (simp del: machine.simps)
qed

end

end
