(* ===== verification/Socket_Server.thy ===== *)
theory Socket_Server
  imports Socket_Channel Server_Socket Receiver_Settings
begin

text \<open>
  The socket of a receiver thread as a stream of bytes: reading leaves the writing side as it is and
  writing the reading side, so a connection delivers what its peer sends whatever is written in between.
\<close>

section \<open>The two directions of a socket\<close>

lemma sides_write [simp]:
  "read_side (s\<lparr>sk_out := o', sk_writes := c\<rparr>) = read_side s" "read_side (s\<lparr>sk_encryptor := a\<rparr>) = read_side s"
  "read_side (s\<lparr>sk_encryptor := a, sk_ivs := v\<rparr>) = read_side s" "read_side (write_error e s) = read_side s"
  "read_side (add_totalWritten n s) = read_side s" "read_side (s\<lparr>sk_encryptionSettingsWritten := b\<rparr>) = read_side s"
  "read_side (s\<lparr>sk_writeErrorCode := e\<rparr>) = read_side s" "length b' = length (sk_buf s) \<Longrightarrow> read_side (s\<lparr>sk_buf := b'\<rparr>) = read_side s"
  by (simp_all add: read_side_def write_error_def add_totalWritten_def)

lemma sides_read [simp]:
  "write_side (s\<lparr>sk_in := w, sk_reads := c, sk_readErrorCode := e\<rparr>) = write_side s" "write_side (s\<lparr>sk_decryptor := a\<rparr>) = write_side s"
  "write_side (read_error e s) = write_side s" "write_side (add_totalRead n s) = write_side s"
  "write_side (s\<lparr>sk_verified := k\<rparr>) = write_side s" "write_side (s\<lparr>sk_readTagInterval := n\<rparr>) = write_side s"
  "write_side (s\<lparr>sk_encryptionSettingsRead := b\<rparr>) = write_side s"
  "length b' = length (sk_buf s) \<Longrightarrow> write_side (s\<lparr>sk_buf := b'\<rparr>) = write_side s"
  by (simp_all add: write_side_def read_error_def add_totalRead_def)

text \<open>An operation that leaves a view of the socket as it is.\<close>

definition leaves :: "('c WdtSocket \<Rightarrow> 'v) \<Rightarrow> 'c WdtSocket \<Rightarrow> ('a \<times> 'c WdtSocket) outcome \<Rightarrow> bool" where
  "leaves view s r \<longleftrightarrow> (\<forall>x s'. r = Ok (x, s') \<longrightarrow> view s' = view s)"

lemma leaves_simps [simp]: "leaves view s (Ok (x, s')) \<longleftrightarrow> view s' = view s" "leaves view s Abort" "leaves view s Fail"
  by (simp_all add: leaves_def)

lemma leaves_bind:
  assumes r: "leaves view s r" and f: "\<And>x s'. view s' = view s \<Longrightarrow> leaves view s' (f (x, s'))"
  shows "leaves view s (outcome_bind r f)"
proof (cases r)
  case (Ok p)
  obtain x s' where p: "p = (x, s')" by (cases p)
  then have v: "view s' = view s" using r Ok by (simp add: leaves_def)
  then show ?thesis using f [OF v, of x] Ok p by (simp add: leaves_def)
qed simp_all

lemma leaves_bind_other: "(\<And>x. leaves view s (f x)) \<Longrightarrow> leaves view s (outcome_bind r f)"
  by (cases r) simp_all

lemma leavesD: "leaves view s r \<Longrightarrow> r = Ok (x, s') \<Longrightarrow> view s' = view s"
  by (simp add: leaves_def)

lemma leaves_eq: "view s' = view s \<Longrightarrow> leaves view s' r = leaves view s r"
  by (simp add: leaves_def)

section \<open>Writing\<close>

lemma writeInternal_leaves: "read_side (snd (writeInternal w retry s)) = read_side s"
  by (simp add: writeInternal_def Let_def split: prod.split)

lemma writeInternal_leaves': "writeInternal w retry s = (n, s') \<Longrightarrow> read_side s' = read_side s"
  using writeInternal_leaves [of w retry s] by simp

lemma start_encryptor_leaves: "leaves read_side s (start_encryptor ev s)"
  by (auto simp: start_encryptor_def intro!: leaves_bind_other)

lemma encryptAndWrite_leaves: "leaves read_side s (encryptAndWrite ev buf retry s)"
  unfolding encryptAndWrite_def Let_def
  by (auto intro!: leaves_bind_other dest!: writeInternal_leaves' split: option.split prod.split)

lemma write_piece_leaves: "leaves read_side s (write_piece ev buf retry s)"
  unfolding write_piece_def by (rule leaves_bind [OF encryptAndWrite_leaves]) simp

lemma checkAndChangeEncryptionIv_leaves: "leaves read_side s (checkAndChangeEncryptionIv ev s)"
proof -
  let ?s = "s\<lparr>sk_encryptor := newAes\<rparr>"
  have "leaves read_side ?s (outcome_bind (start_encryptor ev ?s) (\<lambda>(iv, s1). case iv of None \<Rightarrow> Ok (False, s1)
    | Some v \<Rightarrow> if int (length v) \<noteq> kAESBlockSize then Abort else (case writeInternal v False s1 of (written, s2) \<Rightarrow> Ok (written = kAESBlockSize, s2))))"
    by (rule leaves_bind [OF start_encryptor_leaves]) (auto dest!: writeInternal_leaves' split: option.split prod.split)
  then show ?thesis by (simp add: checkAndChangeEncryptionIv_def leaves_def)
qed

lemma write_tag_and_iv_leaves: "leaves read_side s (write_tag_and_iv ev s)"
proof -
  have "leaves read_side s (writeEncryptionTag ev s)"
    by (auto simp: writeEncryptionTag_def dest!: writeInternal_leaves' intro!: leaves_bind_other split: prod.split)
  then show ?thesis unfolding write_tag_and_iv_def
    by (auto intro!: leaves_bind checkAndChangeEncryptionIv_leaves split: prod.split)
qed

lemma encryptAndWriteWithTag_leaves: "leaves read_side s (encryptAndWriteWithTag ev buf retry s)"
  unfolding encryptAndWriteWithTag_def Let_def
  by (auto intro!: leaves_bind write_piece_leaves write_tag_and_iv_leaves split: prod.split)

lemma write_tagged_leaves: "leaves read_side s (write_tagged ev buf retry s)"
proof (induction buf arbitrary: s rule: length_induct)
  case (1 buf)
  let ?n = "nat (min (int (length buf)) (sk_writeTagInterval s))"
  have "leaves read_side s1 (write_tagged ev (drop ?n buf) retry s1)" if "buf \<noteq> []" "?n \<noteq> 0" for s1
    using 1 [rule_format, of "drop ?n buf" s1] that by simp
  then show ?case
    by (subst write_tagged.simps) (auto simp: Let_def intro!: leaves_bind encryptAndWriteWithTag_leaves split: prod.split)
qed

lemma sock_write_leaves:
  assumes "\<not> isSet (sk_params s) \<or> sk_encryptionSettingsWritten s"
  shows "leaves read_side s (sock_write ev buf retry s)"
  using assms writeInternal_leaves [of buf retry s]
  by (cases "writeInternal buf retry s") (auto simp: sock_write_def writeEncryptionSettingsOnce_def intro: encryptAndWrite_leaves write_tagged_leaves)

section \<open>Reading\<close>

lemma readInternal_leaves: "readInternal n tryFull s = (r, s') \<Longrightarrow> write_side s' = write_side s"
  by (auto simp: readInternal_def split: prod.splits)

lemma readAndDecrypt_leaves: "leaves write_side s (readAndDecrypt ev n tryFull s)"
  unfolding readAndDecrypt_def Let_def
  by (auto intro!: leaves_bind_other dest!: readInternal_leaves split: option.split prod.split)

lemma readEncryptionTag_leaves: "readEncryptionTag s = (tag, s') \<Longrightarrow> write_side s' = write_side s"
  by (auto simp: readEncryptionTag_def Let_def dest!: readInternal_leaves split: prod.splits if_splits)

lemma checkAndChangeDecryptionIv_leaves: "leaves write_side s (checkAndChangeDecryptionIv ev tag s)"
  unfolding checkAndChangeDecryptionIv_def
  by (auto intro!: leaves_bind_other dest!: readInternal_leaves split: prod.split)

lemma read_tag_and_iv_leaves: "leaves write_side s (read_tag_and_iv ev s)"
proof (cases "readEncryptionTag s")
  case (Pair tag s1)
  have w: "write_side s1 = write_side s" by (rule readEncryptionTag_leaves [OF Pair])
  let ?s2 = "s1\<lparr>sk_verified := Suc (sk_verified s1)\<rparr>"
  have "leaves write_side ?s2 (outcome_bind (checkAndChangeDecryptionIv ev tag ?s2)
      (\<lambda>(changed, s3). if \<not> changed then Ok (False, read_error ENCRYPTION_ERROR s3) else Ok (True, s3)))"
    by (auto intro!: leaves_bind checkAndChangeDecryptionIv_leaves)
  then have "leaves write_side s (outcome_bind (checkAndChangeDecryptionIv ev tag ?s2)
      (\<lambda>(changed, s3). if \<not> changed then Ok (False, read_error ENCRYPTION_ERROR s3) else Ok (True, s3)))"
    by (rule leaves_eq [THEN iffD1, rotated]) (simp add: w)
  then show ?thesis using Pair w by (auto simp: read_tag_and_iv_def Let_def intro!: leaves_bind_other)
qed

lemma read_rest_leaves: "leaves write_side s (read_rest ev n tryFull got s)"
  unfolding read_rest_def by (auto intro!: leaves_bind readAndDecrypt_leaves split: prod.split)

lemma tag_then_rest_leaves: "leaves write_side s (tag_then_rest ev n tryFull got s)"
  unfolding tag_then_rest_def by (auto intro!: leaves_bind read_tag_and_iv_leaves read_rest_leaves split: prod.split)

lemma readAndDecryptWithTag_leaves: "leaves write_side s (readAndDecryptWithTag ev n tryFull s)"
proof -
  have "leaves write_side s1 (tag_then_rest ev n tryFull data (add_totalRead k s1))" for s1 :: "'a WdtSocket" and data k
    using tag_then_rest_leaves [of "add_totalRead k s1"] by (simp add: leaves_def)
  then show ?thesis unfolding readAndDecryptWithTag_def Let_def
    by (auto intro!: leaves_bind readAndDecrypt_leaves read_rest_leaves tag_then_rest_leaves split: prod.split)
qed

lemma read_tagged_leaves: "leaves write_side s (read_tagged ev n tryFull got s)"
proof (induction "nat n" arbitrary: n got s rule: less_induct)
  case less
  then show ?case
    by (subst read_tagged.simps) (auto simp: Let_def intro!: leaves_bind readAndDecryptWithTag_leaves split: prod.split)
qed

lemma readWithTimeout_leaves:
  assumes "\<not> isSet (sk_params s) \<or> sk_encryptionSettingsRead s"
  shows "leaves write_side s (readWithTimeout ev n tryFull s)"
proof -
  let ?s = "read_error OK s"
  have "leaves write_side ?s (read_body ev n tryFull [] ?s)"
    using readAndDecrypt_leaves [of ?s ev n tryFull] read_tagged_leaves [of ?s ev n tryFull "[]"]
    by (auto simp: read_body_def dest!: readInternal_leaves split: prod.split)
  then have "leaves write_side s (read_body ev n tryFull [] ?s)" by (rule leaves_eq [THEN iffD1, rotated]) simp
  moreover have "readEncryptionSettingsOnce ev ?s = Ok ?s" "sk_readErrorCode ?s = OK"
    using assms by (auto simp: readEncryptionSettingsOnce_def read_error_def)
  ultimately show ?thesis by (simp add: readWithTimeout_def)
qed

section \<open>A connection as a stream\<close>

text \<open>
  The writing side works. The reading side will deliver \<open>p\<close>: without encryption, behind the settings of
  the encryption, or still before them. With tags the buffer of the thread is at most as
  large as the interval, and what has been sent does not end where a tag is due.
\<close>

definition can_write :: "'c evp \<Rightarrow> ('c \<Rightarrow> 'c \<Rightarrow> bool) \<Rightarrow> EncryptionParams \<Rightarrow> int \<Rightarrow> 'c WdtSocket \<Rightarrow> bool" where
  "can_write ev R P V s \<longleftrightarrow>
     (\<exists>T. channel_ok ev R P T \<and> (fresh_writer P T V s \<or> (\<exists>st. ch_ok R st \<and> writer_at P T V st s)))"

definition can_read :: "'c evp \<Rightarrow> ('c \<Rightarrow> 'c \<Rightarrow> bool) \<Rightarrow> EncryptionParams \<Rightarrow> int \<Rightarrow> int \<Rightarrow> bytes \<Rightarrow> 'c chan \<Rightarrow> 'c WdtSocket \<Rightarrow> bool" where
  "can_read ev R P T V p st s \<longleftrightarrow>
     (reader_at R P T V st s \<and> ch_ok R st \<and> sk_in s = fst (ch_stream ev P T V p st)) \<or>
     (\<exists>ivs. fresh_reader P V s \<and> ivs_ok ivs \<and> st = start_chan ev P ivs \<and>
        sk_in s = settings_wire P T (first_iv ivs) @ fst (ch_stream ev P T V p st))"

definition encrypted_incoming :: "'c evp \<Rightarrow> ('c \<Rightarrow> 'c \<Rightarrow> bool) \<Rightarrow> nat \<Rightarrow> 'c WdtSocket \<Rightarrow> bytes \<Rightarrow> bool" where
  "encrypted_incoming ev R N s p \<longleftrightarrow>
     (\<exists>P T V st. channel_ok ev R P T \<and> can_write ev R P V s \<and> can_read ev R P T V p st s \<and>
        (T = 0 \<or> int N \<le> T \<and> \<not> tag_due T (ch_total st + int (length p))))"

definition socket_incoming :: "'c evp \<Rightarrow> ('c \<Rightarrow> 'c \<Rightarrow> bool) \<Rightarrow> nat \<Rightarrow> 'c WdtSocket \<Rightarrow> bytes \<Rightarrow> bool" where
  "socket_incoming ev R N s p \<longleftrightarrow> plain_socket s \<and> sk_in s = p \<or> encrypted_incoming ev R N s p"

lemma writer_side: "write_side s' = write_side s \<Longrightarrow> can_write ev R P V s' = can_write ev R P V s"
  by (simp add: can_write_def fresh_writer_def writer_at_def writer_core_def write_side_def)

lemma reader_side: "read_side s' = read_side s \<Longrightarrow> can_read ev R P T V p st s' = can_read ev R P T V p st s"
  by (simp add: can_read_def fresh_reader_def reader_at_def reader_core_def read_side_def)

lemma can_read_params: "can_read ev R P T V p st s \<Longrightarrow> sk_params s = P"
  by (auto simp: can_read_def fresh_reader_def reader_at_def reader_core_def)

text \<open>Writing.\<close>

lemma write_connection:
  assumes ok: "channel_ok ev R P T" and w: "can_write ev R P V s" and p: "p \<noteq> []"
  shows "\<exists>n s'. sock_write ev p False s = Ok (n, s') \<and> can_write ev R P V s' \<and> read_side s' = read_side s"
proof -
  obtain T' where T': "channel_ok ev R P T'" "fresh_writer P T' V s \<or> (\<exists>st. ch_ok R st \<and> writer_at P T' V st s)" using w by (auto simp: can_write_def)
  obtain st s0 where s0: "ch_ok R st" "writer_at P T' V st s0" "sock_write ev p False s = sock_write ev p False s0" "read_side s0 = read_side s"
  proof (cases "fresh_writer P T' V s")
    case True
    have "ch_ok R (start_chan ev P (sk_ivs s))" using start_chan_ok channel_okD(1,2) [OF T'(1)] True by (auto simp: fresh_writer_def)
    then show ?thesis using sock_write_fresh [OF T'(1) True p, of False] by (auto intro: that)
  next
    case False
    then show ?thesis using T'(2) by (auto intro: that)
  qed
  obtain s' where s': "sock_write ev p False s0 = Ok (int (length p), s')" "writer_at P T' V (snd (ch_stream ev P T' V p st)) s'"
    "ch_ok R (snd (ch_stream ev P T' V p st))"
    using sock_write_stream [OF T'(1) s0(1,2) p, of False] by blast
  have "sk_encryptionSettingsWritten s0" using s0(2) by (simp add: writer_at_def writer_core_def)
  then have "read_side s' = read_side s0" using leavesD [OF sock_write_leaves s'(1)] by simp
  then show ?thesis using s' s0(3,4) T'(1) by (auto simp: can_write_def)
qed

text \<open>Reading.\<close>

lemma read_connection:
  assumes ok: "channel_ok ev R P T" and r: "can_read ev R P T V p st s" and p: "p \<noteq> []" and n: "0 < n"
    and fits: "T = 0 \<or> int n \<le> T \<and> \<not> tag_due T (ch_total st + int (length p))"
  shows "\<exists>k s'. readWithTimeout ev (int n) False s = Ok ((int k, take k p), s') \<and> 0 < k \<and> k \<le> n \<and> k \<le> length p \<and>
    can_read ev R P T V (drop k p) (snd (ch_stream ev P T V (take k p) st)) s' \<and> write_side s' = write_side s"
proof -
  note ev = channel_okD(1,2) [OF ok]
  obtain s0 where s0: "reader_at R P T V st s0" "ch_ok R st" "sk_in s0 = fst (ch_stream ev P T V p st)"
    "readWithTimeout ev (int n) False s = readWithTimeout ev (int n) False s0" "write_side s0 = write_side s"
  proof (cases "reader_at R P T V st s \<and> ch_ok R st \<and> sk_in s = fst (ch_stream ev P T V p st)")
    case True
    then show ?thesis by (auto intro: that)
  next
    case False
    then obtain ivs where f: "fresh_reader P V s" "ivs_ok ivs" "st = start_chan ev P ivs"
      "sk_in s = settings_wire P T (first_iv ivs) @ fst (ch_stream ev P T V p st)" using r by (auto simp: can_read_def)
    then have "sk_readErrorCode s = OK" by (simp add: fresh_reader_def)
    then show ?thesis using read_settings_stream [OF ok f(1,2,4)] read_fresh [of ev s _ R P T V st "int n" False] start_chan_ok [OF ev f(2)] f(3)
      by (auto intro: that)
  qed
  have "int (length p) = computeNextTagOffset (ch_total st) T \<Longrightarrow> T \<noteq> 0 \<Longrightarrow> tag_due T (ch_total st + int (length p))"
    using tag_at_offset [of T "ch_total st"] s0(2) ok by (auto simp: ch_ok_def channel_ok_def)
  then have "read_fits T n False p [] st" using p n fits by (auto simp: read_fits_def request_fits_def not_at_tag_def)
  from sock_read_stream [OF ok s0(2,1) _ this] s0(3) obtain k s' where
    k: "readWithTimeout ev (int n) False s0 = Ok ((int k, take k p), s')" "k \<le> n" "read_ok ev R P T V p st s0 k s'" by auto
  have "sk_encryptionSettingsRead s0" using s0(1) by (simp add: reader_at_def reader_core_def)
  then have "write_side s' = write_side s0" using leavesD [OF readWithTimeout_leaves k(1)] by simp
  moreover have "can_read ev R P T V (drop k p) (snd (ch_stream ev P T V (take k p) st)) s'"
    using k(3) read_ok_wire [OF k(3), of "[]"] s0(3) ch_stream_ok [OF ev s0(2)] by (auto simp: can_read_def read_ok_def)
  ultimately show ?thesis using k s0(4,5) by (auto simp: read_ok_def)
qed

lemma ch_stream_total:
  "evp_ok ev R \<Longrightarrow> key_params_ok P \<Longrightarrow> ch_ok R st \<Longrightarrow> ch_total (snd (ch_stream ev P T V p st)) = ch_total st + int (length p)"
proof (induction p arbitrary: st)
  case (Cons b p)
  note b = ch_boundary_ok [OF Cons.prems, of T V]
  note f = ch_feed_ok [OF Cons.prems(1) b(1), of "[b]"]
  show ?case using Cons.IH [OF Cons.prems(1,2) f(1)] f(3) b(2) by (simp add: Let_def case_prod_unfold)
qed simp

lemma encrypted_read:
  assumes s: "encrypted_incoming ev R N s p" and p: "p \<noteq> []" and n: "0 < n" "n \<le> N"
  shows "\<exists>k s'. readWithTimeout ev (int n) False s = Ok ((int k, take k p), s') \<and> 0 < k \<and> k \<le> n \<and> k \<le> length p \<and>
    encrypted_incoming ev R N s' (drop k p)"
proof -
  obtain P T V st where c: "channel_ok ev R P T" "can_write ev R P V s" "can_read ev R P T V p st s"
    and f: "T = 0 \<or> int N \<le> T \<and> \<not> tag_due T (ch_total st + int (length p))" using s by (auto simp: encrypted_incoming_def)
  then have fits: "T = 0 \<or> int n \<le> T \<and> \<not> tag_due T (ch_total st + int (length p))" using n by auto
  obtain k s' where k: "readWithTimeout ev (int n) False s = Ok ((int k, take k p), s')" "0 < k" "k \<le> n" "k \<le> length p"
    "can_read ev R P T V (drop k p) (snd (ch_stream ev P T V (take k p) st)) s'" "write_side s' = write_side s"
    using read_connection [OF c(1,3) p n(1) fits] by blast
  have "ch_ok R st" using c(3) start_chan_ok [OF channel_okD(1,2) [OF c(1)]] by (auto simp: can_read_def)
  then have "ch_total (snd (ch_stream ev P T V (take k p) st)) = ch_total st + int k"
    using ch_stream_total [OF channel_okD(1,2) [OF c(1)]] k(4) by simp
  then have "encrypted_incoming ev R N s' (drop k p)"
    unfolding encrypted_incoming_def using c(1,2) writer_side [OF k(6)] k(4,5) f
    by (intro exI [of _ P] exI [of _ T] exI [of _ V] exI [of _ "snd (ch_stream ev P T V (take k p) st)"]) simp
  then show ?thesis using k(1-4) by blast
qed

lemma encrypted_write:
  assumes s: "encrypted_incoming ev R N s p" and bs: "bs \<noteq> []"
  shows "\<exists>w s'. sock_write ev bs False s = Ok (w, s') \<and> encrypted_incoming ev R N s' p"
proof -
  obtain P T V st where c: "channel_ok ev R P T" "can_write ev R P V s" "can_read ev R P T V p st s"
    and f: "T = 0 \<or> int N \<le> T \<and> \<not> tag_due T (ch_total st + int (length p))" using s by (auto simp: encrypted_incoming_def)
  obtain n s' where w: "sock_write ev bs False s = Ok (n, s')" "can_write ev R P V s'" "read_side s' = read_side s"
    using write_connection [OF c(1,2) bs] by blast
  then have "encrypted_incoming ev R N s' p" unfolding encrypted_incoming_def using c(1,3) f reader_side by blast
  then show ?thesis using w(1) by blast
qed

lemma plain_read:
  assumes s: "plain_socket s" "sk_in s \<noteq> []" and n: "0 < n"
  shows "\<exists>k s'. readWithTimeout ev (int n) False s = Ok ((int k, take k (sk_in s)), s') \<and> 0 < k \<and> k \<le> n \<and> k \<le> length (sk_in s) \<and>
    plain_socket s' \<and> sk_in s' = drop k (sk_in s)"
proof -
  have g: "good_calls (sk_reads s)" "False \<longrightarrow> n \<le> length (sk_in s)" using s by (auto simp: plain_socket_def)
  obtain k calls where r: "readInternal n False s = ((int k, take k (sk_in s)), advance_in k calls s)" "good_calls calls"
    "0 < k" "k \<le> n" "k \<le> length (sk_in s)" by (rule readInternal_good [OF g(1) n s(2) g(2)])
  then show ?thesis using s(1) n
    by (auto simp: readWithTimeout_def plain_socket_def read_error_id readEncryptionSettingsOnce_def read_body_def advance_in_def)
qed

lemma plain_write:
  assumes "plain_socket s" "bs \<noteq> []"
  shows "\<exists>w s'. sock_write ev bs False s = Ok (w, s') \<and> plain_socket s' \<and> sk_in s' = sk_in s"
proof -
  obtain calls where w: "writeInternal bs False s = (int (length bs), emit bs calls s)" "good_calls calls"
    using writeInternal_good assms(1) by (metis plain_socket_def)
  then show ?thesis using assms
    by (auto simp: sock_write_def plain_socket_def writeEncryptionSettingsOnce_def emit_def)
qed

definition server_incoming :: "'c server_env \<Rightarrow> ('c \<Rightarrow> 'c \<Rightarrow> bool) \<Rightarrow> nat \<Rightarrow> 'c ServerSocket \<Rightarrow> bytes \<Rightarrow> bool" where
  "server_incoming ev R N s p \<longleftrightarrow> socket_incoming (sv_evp ev) R N (ss_socket s) p"

interpretation server: byte_stream "server_ops ev" N "server_incoming ev R N" for ev R N
proof unfold_locales
  fix s p n
  assume s: "server_incoming ev R N s p" and p: "p \<noteq> []" "0 < n" "n \<le> N"
  obtain k s' where "readWithTimeout (sv_evp ev) (int n) False (ss_socket s) = Ok ((int k, take k p), s')" "0 < k" "k \<le> n" "k \<le> length p"
    "socket_incoming (sv_evp ev) R N s' (drop k p)"
    using s encrypted_read [OF _ p, of "sv_evp ev" R "ss_socket s"] plain_read [of "ss_socket s" n "sv_evp ev"] p
    by (auto simp: server_incoming_def socket_incoming_def)
  then show "\<exists>k s'. so_read (server_ops ev) n False s = Ok (Some (take k p), s') \<and> 0 < k \<and> k \<le> n \<and> k \<le> length p \<and> server_incoming ev R N s' (drop k p)"
    by (intro exI [of _ k] exI [of _ "s\<lparr>ss_socket := s'\<rparr>"]) (simp add: server_ops_def server_read_def on_socket_def server_incoming_def)
next
  fix s p and bs :: bytes
  assume s: "server_incoming ev R N s p" and bs: "bs \<noteq> []"
  obtain w s' where "sock_write (sv_evp ev) bs False (ss_socket s) = Ok (w, s')" "socket_incoming (sv_evp ev) R N s' p"
    using s encrypted_write [OF _ bs, of "sv_evp ev" R N "ss_socket s" p] plain_write [OF _ bs, of "ss_socket s" "sv_evp ev"]
    by (auto simp: server_incoming_def socket_incoming_def)
  then show "\<exists>w s'. so_write (server_ops ev) bs s = Ok (w, s') \<and> server_incoming ev R N s' p"
    by (intro exI [of _ w] exI [of _ "s\<lparr>ss_socket := s'\<rparr>"]) (simp add: server_ops_def on_socket_def server_incoming_def)
qed

section \<open>From the sender's socket to the files\<close>

text \<open>What a sender writes: blocks and the end of the data; and what is on the wire behind its socket.\<close>

definition session_msg ::
  "(bytes \<Rightarrow> int \<Rightarrow> int) \<Rightarrow> FooterType \<Rightarrow> int \<Rightarrow> (BlockDetails \<times> bytes) list \<Rightarrow> byte \<Rightarrow> int \<times> int \<Rightarrow> bytes \<Rightarrow> bytes" where
  "session_msg crc footer pv bs status nb fill = concat (map (block_msg crc footer pv) bs) @ done_msg pv status nb fill"

definition sent :: "'c evp \<Rightarrow> bytes list \<Rightarrow> 'c WdtSocket \<Rightarrow> bytes" where
  "sent ev ps s = (case send_all ev ps s of Ok s1 \<Rightarrow> sk_out s1 | _ \<Rightarrow> [])"

text \<open>A new socket with working system calls.\<close>

definition usable :: "EncryptionParams \<Rightarrow> int \<Rightarrow> int \<Rightarrow> 'c WdtSocket \<Rightarrow> bool" where
  "usable P V T s \<longleftrightarrow>
     (\<exists>buf wire reads writes ivs peer. s = (newSocket P V T buf wire reads writes ivs)\<lparr>sk_supportUnencryptedPeer := peer\<rparr> \<and>
        length buf = 23 \<and> good_calls reads \<and> good_calls writes \<and> ivs_ok ivs \<and> 0 \<le> T \<and> T < 2 ^ 31)"

definition tag_interval :: "EncryptionParams \<Rightarrow> int \<Rightarrow> int" where
  "tag_interval P T = (if encryptionTypeToTagLen (ep_type P) \<noteq> 0 then T else 0)"

lemma usable_channel:
  assumes "usable P V T s" "evp_ok ev R" "params_ok P" "P \<noteq> noEncryption"
  shows "channel_ok ev R P (tag_interval P T)" "fresh_writer P (tag_interval P T) V s" "fresh_reader P V s"
  using assms
  by (auto simp: usable_def channel_ok_def params_ok_def key_params_ok_def has_cipher_def encryptionTypeToTagLen_def tag_interval_def
      fresh_writer_def fresh_reader_def newSocket_def)

lemma usable_plain: "usable noEncryption V T s \<Longrightarrow> plain_socket s"
  by (auto simp: usable_def plain_socket_def newSocket_def)

lemma sent_incoming:
  assumes ev: "evp_ok ev R" "params_ok P" and w: "usable P V T w" "sk_out w = []" and s: "usable P V T' s" "sk_in s = sent ev ps w"
    and ps: "ps \<noteq> []" "[] \<notin> set ps"
    and tags: "tag_interval P T = 0 \<or> int N \<le> tag_interval P T \<and> \<not> tag_due (tag_interval P T) (int (length (concat ps)))"
  shows "socket_incoming ev R N s (concat ps)"
proof (cases "P = noEncryption")
  case True
  obtain w1 where "send_all ev ps w = Ok w1" "sk_out w1 = concat ps"
    using send_all_plain [OF usable_plain ps(2), of V T w] w True by auto
  then show ?thesis using usable_plain s True by (auto simp: socket_incoming_def sent_def)
next
  case False
  let ?T = "tag_interval P T" and ?st = "start_chan ev P (sk_ivs w)"
  note c = usable_channel [OF w(1) ev False] and r = usable_channel [OF s(1) ev False]
  have ivs: "ivs_ok (sk_ivs w)" using c(2) by (simp add: fresh_writer_def)
  obtain w1 where "send_all ev ps w = Ok w1" "sk_out w1 = settings_wire P ?T (first_iv (sk_ivs w)) @ fst (ch_stream ev P ?T V (concat ps) ?st)"
    using send_all_fresh [OF c(1,2) ps] w(2) by auto
  then have "can_read ev R P ?T V (concat ps) ?st s" using s(2) r(3) ivs by (auto simp: can_read_def sent_def)
  moreover have "can_write ev R P V s" using r(1,2) by (auto simp: can_write_def)
  moreover have "ch_total ?st = 0" by (simp add: start_chan_def)
  ultimately show ?thesis using c(1) tags unfolding socket_incoming_def encrypted_incoming_def
    by (intro disjI2 exI [of _ P] exI [of _ ?T] exI [of _ V] exI [of _ ?st]) simp
qed


text \<open>A receiver thread that has accepted a connection of a sender with one block.\<close>

definition sum_crc :: "bytes \<Rightarrow> int \<Rightarrow> int" where
  "sum_crc = fold (\<lambda>b c. (31 * c + uint b) mod 65536)"

lemma sum_crc_range: "0 \<le> c \<Longrightarrow> c < 65536 \<Longrightarrow> 0 \<le> sum_crc a c \<and> sum_crc a c < 65536"
  by (induction a arbitrary: c) (simp_all add: sum_crc_def)

definition demo_env :: receiver_env where
  "demo_env =
     \<lparr>re_options = \<lparr>ro_max_retries = 1, ro_accept_timeout_millis = 100, ro_accept_window_millis = 2000, ro_max_accept_retries = 1,
        ro_enable_download_resumption = False, ro_isLogBasedResumption = True, ro_delete_extra_files = False\<rparr>,
      re_fuel = 10, re_abort = (\<lambda>k. False), re_heartBeat = (\<lambda>k. True), re_newTransferStarted = (\<lambda>k. False),
      re_acceptMode = (\<lambda>k. ACCEPT_WITH_RETRIES),
      re_writer = (\<lambda>k. (\<lparr>we_skip_writes = False, we_open = True, we_seek = True, we_fsync_on = False, we_fsync = True, we_skip_fadvise = False,
        we_fadvise = True, we_close = True, we_disk_sync_interval_mb = 1, we_range = (\<lambda>i. True), we_range_fadvise = (\<lambda>i. True)\<rparr>, [])),
      re_others = (\<lambda>k p. p), re_crc32c = sum_crc\<rparr>"

lemma demo_env_ok: "env_ok demo_env"
proof -
  have "is_i32 (sum_crc a 0)" for a using sum_crc_range [of 0 a] by (simp add: is_i32_def)
  then show ?thesis by (simp add: env_ok_def demo_env_def no_abort_def crc_ok_def sum_crc_def writer_env_ok_def)
qed

definition demo_block :: "BlockDetails \<times> bytes" where
  "demo_block = (newBlockDetails\<lparr>bd_fileName := ''f'', bd_seqId := 1, bd_dataSize := 3, bd_offset := 2, bd_fileSize := 5\<rparr>, [7, 8, 9])"

definition demo_system :: "bytes server_env" where
  "demo_system =
     \<lparr>sv_evp = mask_evp, sv_static_ports = True, sv_checkAbort = False, sv_getaddrinfo = (\<lambda>n p. None), sv_socket = (\<lambda>n. 3), sv_bind = (\<lambda>n. True),
      sv_listen = (\<lambda>n. True), sv_getsockname = (\<lambda>n. None), sv_polls = (\<lambda>n. []),
      sv_accept = (\<lambda>n. \<lparr>cn_fd = 4, cn_peer = None, cn_in = [], cn_reads = [], cn_writes = []\<rparr>), sv_close = (\<lambda>n. True)\<rparr>"

definition demo_socket :: "bytes \<Rightarrow> net_calls \<Rightarrow> bytes WdtSocket" where
  "demo_socket wire reads = newSocket gcm_params 0 (2 ^ 20) (replicate 23 0) wire reads [] (\<lambda>n. Some (replicate 16 5))"

definition demo_parent :: Receiver where
  "demo_parent =
     \<lparr>rv_checkpoints = [], rv_controller = newController 1, rv_transferId = [], rv_fileChunksInfo = [], rv_log = [], rv_isJoinable = True,
      rv_sessions = [], rv_hasNewTransferStarted = True, rv_ended = 0, rv_files = (\<lambda>name i. 0)\<rparr>"

definition demo_thread :: "bytes \<Rightarrow> bytes ServerSocket ReceiverThread" where
  "demo_thread wire =
     \<lparr>rt_socket = newServerSocket (demo_socket wire [(Net_data 100, False), (Net_data 200, False)]) 22356, rt_index = 0, rt_buf = replicate 10000 0, rt_numRead = 0,
      rt_off = 0, rt_oldOffset = 0, rt_checkpointIndex = 0, rt_pendingCheckpointIndex = 0, rt_senderReadTimeout = 5000,
      rt_senderWriteTimeout = 5000, rt_isBlockMode = True, rt_checkpoint = newCheckpoint 22356, rt_curConnectionVerified = False,
      rt_newCheckpoints = [], rt_blocksWaitingVerification = [], rt_threadStats = newStats, rt_threadProtocolVersion = 26,
      rt_footerType = CHECKSUM_FOOTER, rt_enableHeartBeat = True, rt_writer = newWriter newBlockDetails (\<lambda>_. 0) [], rt_parent = demo_parent, rt_tick = 0\<rparr>"

definition demo_msg :: bytes where
  "demo_msg = session_msg sum_crc CHECKSUM_FOOTER 26 [demo_block] 0 (1, 300) (replicate 256 0)"

lemma demo_block_ok: "block_ok 26 demo_block"
proof -
  let ?bd = "fst demo_block"
  have "ok_header 26 newBlockDetails ?bd"
    by (simp add: demo_block_def newBlockDetails_def ok_header_def short_string_def nonneg_i64_def version_defs)
  moreover have "header_checks ?bd" by code_simp
  moreover have "int (length (file_head 26 0 ?bd)) \<le> kMinBufLength" by code_simp
  ultimately show ?thesis by (simp add: block_ok_def demo_block_def newBlockDetails_def)
qed

lemma length_demo_msg: "length demo_msg < 600" "demo_msg \<noteq> []"
proof -
  have "length (done_msg 26 0 (1, 300) (replicate 256 0)) = 256" using length_done_msg [of "replicate 256 0" 26 0 "(1, 300)"] by (simp add: kMinBufLength_def)
  moreover have "length (file_head 26 0 (fst demo_block)) \<le> 256" using demo_block_ok by (simp add: block_ok_def kMinBufLength_def)
  moreover have "length (footer_msg sum_crc CHECKSUM_FOOTER (snd demo_block)) \<le> 11"
    using length_wire_s(2) [of "sum_crc (snd demo_block) 0"] by (simp add: footer_msg_def)
  moreover have "length (snd demo_block) = 3" by (simp add: demo_block_def)
  ultimately show "length demo_msg < 600" "demo_msg \<noteq> []" by (auto simp: demo_msg_def session_msg_def block_msg_def)
qed


end
