(* ===== verification/End_To_End.thy ===== *)
theory End_To_End
  imports Sender_Blocks Client_Socket Socket_Server
begin

text \<open>
  A transfer from the queue of a sender to the files of a receiver: the state machine of a sender thread over its
  client socket, the connection, and the state machine of a receiver thread over its server socket.
\<close>

section \<open>The client socket takes what is written\<close>

text \<open>What a new socket has sent after \<open>p\<close> was written to it; \<open>ivs\<close> are its initialization vectors.\<close>

definition wrote :: "'c evp \<Rightarrow> ('c \<Rightarrow> 'c \<Rightarrow> bool) \<Rightarrow> EncryptionParams \<Rightarrow> int \<Rightarrow> int \<Rightarrow> (nat \<Rightarrow> bytes option) \<Rightarrow> 'c WdtSocket \<Rightarrow> bytes \<Rightarrow> bool" where
  "wrote ev R P V T ivs w p \<longleftrightarrow>
     (if P = noEncryption then plain_socket w \<and> sk_out w = p
      else channel_ok ev R P T \<and> ivs_ok ivs \<and>
        (p = [] \<and> fresh_writer P T V w \<and> sk_ivs w = ivs \<and> sk_out w = [] \<or>
         writer_at P T V (snd (ch_stream ev P T V p (start_chan ev P ivs))) w \<and>
         sk_out w = settings_wire P T (first_iv ivs) @ fst (ch_stream ev P T V p (start_chan ev P ivs))))"

lemma wrote_write:
  assumes w: "wrote ev R P V T ivs w p" and bs: "bs \<noteq> []"
  shows "\<exists>w'. sock_write ev bs retry w = Ok (int (length bs), w') \<and> wrote ev R P V T ivs w' (p @ bs)"
proof (cases "P = noEncryption")
  case True
  then have pl: "plain_socket w" "sk_out w = p" using w by (simp_all add: wrote_def)
  obtain calls where c: "writeInternal bs retry w = (int (length bs), emit bs calls w)" "good_calls calls"
    using writeInternal_good pl(1) by (metis plain_socket_def)
  then have "sock_write ev bs retry w = Ok (int (length bs), emit bs calls w)" "plain_socket (emit bs calls w)"
    using pl(1) bs by (simp_all add: sock_write_def plain_socket_def writeEncryptionSettingsOnce_def emit_def)
  then show ?thesis using True pl(2) by (auto simp: wrote_def emit_def)
next
  case False
  let ?st = "start_chan ev P ivs"
  have ok: "channel_ok ev R P T" "ivs_ok ivs" using w False by (simp_all add: wrote_def)
  have st: "ch_ok R ?st" using start_chan_ok channel_okD(1,2) [OF ok(1)] ok(2) by blast
  obtain w0 where w0: "writer_at P T V (snd (ch_stream ev P T V p ?st)) w0" "sock_write ev bs retry w = sock_write ev bs retry w0"
    "sk_out w0 = settings_wire P T (first_iv ivs) @ fst (ch_stream ev P T V p ?st)"
  proof (cases "p = [] \<and> fresh_writer P T V w \<and> sk_ivs w = ivs \<and> sk_out w = []")
    case True
    then show ?thesis using sock_write_fresh [OF ok(1) _ bs, of V w retry] by (auto intro: that)
  next
    case notfresh: False
    then show ?thesis using w False by (auto simp: wrote_def intro: that)
  qed
  have "ch_ok R (snd (ch_stream ev P T V p ?st))" using ch_stream_ok channel_okD(1,2) [OF ok(1)] st by blast
  from sock_write_stream [OF ok(1) this w0(1) bs, of retry] obtain w' where
    "sock_write ev bs retry w0 = Ok (int (length bs), w')" "writer_at P T V (snd (ch_stream ev P T V bs (snd (ch_stream ev P T V p ?st)))) w'"
    "sk_out w' = sk_out w0 @ fst (ch_stream ev P T V bs (snd (ch_stream ev P T V p ?st)))" by blast
  then show ?thesis using False ok w0(2,3) by (intro exI [of _ w']) (simp add: wrote_def ch_stream_append)
qed

definition client_outgoing ::
  "'c client_env \<Rightarrow> ('c \<Rightarrow> 'c \<Rightarrow> bool) \<Rightarrow> EncryptionParams \<Rightarrow> int \<Rightarrow> int \<Rightarrow> (nat \<Rightarrow> bytes option) \<Rightarrow> 'c ClientSocket \<Rightarrow> bytes \<Rightarrow> bool" where
  "client_outgoing ev R P V T ivs s p \<longleftrightarrow> wrote (ce_evp ev) R P V T ivs (cl_socket s) p"

interpretation client: byte_sink "client_ops ev" "client_outgoing ev R P V T ivs" for ev R P V T ivs
proof unfold_locales
  fix s p retry and bs :: bytes
  assume "client_outgoing ev R P V T ivs s p" "bs \<noteq> []"
  then obtain w' where "sock_write (ce_evp ev) bs retry (cl_socket s) = Ok (int (length bs), w')" "wrote (ce_evp ev) R P V T ivs w' (p @ bs)"
    using wrote_write unfolding client_outgoing_def by blast
  then show "\<exists>s'. ci_write (client_ops ev) bs retry s = Ok (int (length bs), s') \<and> client_outgoing ev R P V T ivs s' (p @ bs)"
    by (intro exI [of _ "s\<lparr>cl_socket := w'\<rparr>"]) (simp add: client_ops_def on_client_def client_outgoing_def)
qed

text \<open>A new socket has written nothing, and what one has sent is the input of its peer.\<close>

lemma usable_wrote:
  assumes "usable P V T w" "sk_out w = []" "evp_ok ev R" "params_ok P"
  shows "wrote ev R P V (tag_interval P T) (sk_ivs w) w []"
proof (cases "P = noEncryption")
  case True
  then show ?thesis using usable_plain assms by (auto simp: wrote_def)
next
  case False
  note u = usable_channel [OF assms(1,3,4) False]
  then show ?thesis using False assms(2) by (auto simp: wrote_def fresh_writer_def)
qed

lemma wrote_incoming:
  assumes w: "wrote ev R P V T ivs w p" "p \<noteq> []" and s: "usable P V T' s" "sk_in s = sk_out w" and ev: "evp_ok ev R" "params_ok P"
    and tags: "T = 0 \<or> int N \<le> T \<and> \<not> tag_due T (int (length p))"
  shows "socket_incoming ev R N s p"
proof (cases "P = noEncryption")
  case True
  then show ?thesis using w(1) usable_plain s by (auto simp: socket_incoming_def wrote_def)
next
  case False
  let ?st = "start_chan ev P ivs"
  note r = usable_channel [OF s(1) ev False]
  have ok: "channel_ok ev R P T" "ivs_ok ivs" and out: "sk_in s = settings_wire P T (first_iv ivs) @ fst (ch_stream ev P T V p ?st)"
    using w s(2) False by (auto simp: wrote_def)
  have "can_read ev R P T V p ?st s" using out r(3) ok(2) by (auto simp: can_read_def)
  moreover have "can_write ev R P V s" using r(1,2) by (auto simp: can_write_def)
  moreover have "ch_total ?st = 0" by (simp add: start_chan_def)
  ultimately show ?thesis using ok(1) tags unfolding socket_incoming_def encrypted_incoming_def
    by (intro disjI2 exI [of _ P] exI [of _ T] exI [of _ V] exI [of _ ?st]) simp
qed

section \<open>What the files hold\<close>

text \<open>Byte \<open>j\<close> of the file \<open>f\<close> is in the block of a source.\<close>

definition covers :: "ByteSource \<Rightarrow> string \<Rightarrow> nat \<Rightarrow> bool" where
  "covers s f j \<longleftrightarrow> md_relPath (bs_meta s) = f \<and> bs_offset s \<le> int j \<and> int j < bs_offset s + bs_size s"

definition in_file :: "(string \<Rightarrow> bytes) \<Rightarrow> ByteSource \<Rightarrow> bool" where
  "in_file content s \<longleftrightarrow> 0 \<le> bs_offset s \<and> 0 \<le> bs_size s \<and> bs_offset s + bs_size s \<le> int (length (content (md_relPath (bs_meta s))))"

lemma store_block_of:
  assumes "in_file content s"
  shows "store_block (block_of content s) F f j = (if covers s f j then content f ! j else F f j)"
proof (cases "f = md_relPath (bs_meta s)")
  case True
  let ?c = "content (md_relPath (bs_meta s))"
  have "length (file_slice (bs_offset s) (bs_size s) ?c) = nat (bs_size s)" using assms by (auto simp: file_slice_def in_file_def)
  then show ?thesis using assms True
    by (auto simp: store_block_def block_of_def block_details_of_def patch_def covers_def in_file_def file_slice_def)
next
  case False
  then show ?thesis by (simp add: store_block_def block_of_def block_details_of_def covers_def)
qed

lemma fold_store_blocks:
  assumes "list_all (in_file content) ss"
  shows "fold store_block (map (block_of content) ss) F f j = (if \<exists>s \<in> set ss. covers s f j then content f ! j else F f j)"
  using assms
proof (induction ss arbitrary: F)
  case (Cons s ss)
  then have "fold store_block (map (block_of content) (s # ss)) F f j =
      (if \<exists>s \<in> set ss. covers s f j then content f ! j else store_block (block_of content s) F f j)" by simp
  then show ?case using Cons.prems by (simp add: store_block_of)
qed simp

lemma queued_in_file: "queued_ok e pv n content s \<Longrightarrow> in_file content s"
  by (auto simp: queued_ok_def sendable_def readable_def in_file_def openSource_def Let_def closeSource_def split: if_splits dest!: spec [of _ 0])

section \<open>From the queue to the files\<close>

text \<open>A sender thread that has just connected, with all files discovered, and what it sends before the end of the data.\<close>

definition sender_ready :: "'s sender_env \<Rightarrow> (string \<Rightarrow> bytes) \<Rightarrow> 's SenderThread \<Rightarrow> bool" where
  "sender_ready e content t \<longleftrightarrow>
     undisturbed e \<and> checksums_ok e \<and> 0 < xe_fuel e \<and> sn_abortCode (sd_parent t) = OK \<and>
     (\<exists>h. map_of (sn_histories (sd_parent t)) (sd_port t) = Some h \<and> \<not> h_globalCheckpoint h) \<and>
     sd_threadProtocolVersion t = sn_protocolVersion (sd_parent t) \<and> nonneg_i32 (sd_threadProtocolVersion t) \<and>
     PERIODIC_ENCRYPTION_IV_CHANGE_VERSION \<le> sd_threadProtocolVersion t \<and> \<not> sd_totalSizeSent t \<and> kMaxSettings \<le> sd_bufSize t \<and>
     \<not> isSendFileChunks (sd_parent t) \<and> ok_settings (sd_threadProtocolVersion t) newSettings (announced e t) \<and>
     int (length (sn_transferId (sd_parent t))) \<le> kMaxTransferIdLength \<and>
     int (length (settings_msg (sd_threadProtocolVersion t) (announced e t))) \<le> kMinBufLength \<and>
     (let q = sn_queue (sd_parent t)
      in q_initFinished q \<and> nonneg_i64 (q_totalFileSize q) \<and> ok_done (sd_threadProtocolVersion t) (-1) (q_numBlocks q, q_totalFileSize q) \<and>
         q_failedSourceStats q = [] \<and> q_failedDirectories q = [] \<and>
         list_all (queued_ok e (sd_threadProtocolVersion t) (sd_bufSize t) content) (q_sourceQueue q) \<and>
         list_all (block_ok (sd_threadProtocolVersion t)) (map (block_of content) (q_sourceQueue q)))"

definition transfer_head :: "'s sender_env \<Rightarrow> (string \<Rightarrow> bytes) \<Rightarrow> 's SenderThread \<Rightarrow> bytes" where
  "transfer_head e content t =
     (let pv = sd_threadProtocolVersion t; q = sn_queue (sd_parent t)
      in settings_msg pv (announced e t) @ size_part pv (q_totalFileSize q) @
         concat (map (block_msg (xe_crc32c e) (sd_footerType t) pv) (map (block_of content) (q_sourceQueue q))))"

text \<open>A receiver thread that has accepted a connection, and the thread with the bytes on the wire.\<close>

definition receiver_ready :: "receiver_env \<Rightarrow> 's ReceiverThread \<Rightarrow> bool" where
  "receiver_ready e r \<longleftrightarrow> env_ok e \<and> resumption_settled e r \<and> ts_localErrCode (rt_threadStats r) = OK \<and>
     rt_numRead r = 0 \<and> rt_off r = 0 \<and> 2 * kMaxHeader \<le> rt_bufSize r"

definition deliver :: "bytes \<Rightarrow> 'c ServerSocket ReceiverThread \<Rightarrow> 'c ServerSocket ReceiverThread" where
  "deliver wire r = r\<lparr>rt_socket := (rt_socket r)\<lparr>ss_socket := (ss_socket (rt_socket r))\<lparr>sk_in := wire\<rparr>\<rparr>\<rparr>"

lemma deliver_sel [simp]:
  "rt_buf (deliver w r) = rt_buf r" "rt_off (deliver w r) = rt_off r" "rt_numRead (deliver w r) = rt_numRead r" "rt_parent (deliver w r) = rt_parent r"
  "rt_threadStats (deliver w r) = rt_threadStats r" "rt_threadProtocolVersion (deliver w r) = rt_threadProtocolVersion r"
  "resumption_settled e (deliver w r) = resumption_settled e r" "numReceived (deliver w r) = numReceived r"
  "ss_socket (rt_socket (deliver w r)) = (ss_socket (rt_socket r))\<lparr>sk_in := w\<rparr>"
  by (simp_all add: deliver_def resumption_settled_def numReceived_def)

lemma usable_wire: "usable P V T s \<Longrightarrow> usable P V T (s\<lparr>sk_in := w\<rparr>)"
  unfolding usable_def by (auto simp: newSocket_def)

lemma announced_sel:
  "st_transferId (announced e t) = sn_transferId (sd_parent t)" "st_sendFileChunks (announced e t) = isSendFileChunks (sd_parent t)"
  "sd_footerType t = (if st_enableChecksum (announced e t) then CHECKSUM_FOOTER else NO_FOOTER)"
  by (cases "sd_footerType t"; simp add: announced_def sender_settings_def with_heart_beat_def)+


text \<open>A sender with one block of three bytes of a file of five, and the receiver of \<open>demo_thread\<close>.\<close>

definition demo_content :: "string \<Rightarrow> bytes" where
  "demo_content f = (if f = ''f'' then [5, 6, 7, 8, 9] else [])"

definition demo_source :: ByteSource where
  "demo_source = newSource (newMetaData\<lparr>md_fullPath := ''/r/f'', md_relPath := ''f'', md_seqId := 1, md_size := 5\<rparr>) 3 2"

definition demo_queue_env :: queue_env where
  "demo_queue_env = \<lparr>env_openForRead = (\<lambda>path direct. if path = ''/r/f'' then 7 else -1), env_fdIsDirect = (\<lambda>_. False),
     env_odirect = False, env_stat = (\<lambda>_. None), env_lstat = (\<lambda>_. None), env_opendir = (\<lambda>_. None),
     env_resolvePath = id, env_regex_match = (\<lambda>_ _. False), env_shouldAbort = (\<lambda>_. False)\<rparr>"

definition demo_sender_env :: "bytes ClientSocket sender_env" where
  "demo_sender_env =
     \<lparr>xe_options = \<lparr>op_max_retries = 1, op_max_transfer_retries = 3, op_read_timeout_millis = 5000, op_write_timeout_millis = 5000,
        op_drain_extra_ms = 500, op_enable_heart_beat = True, op_enable_checksum = True, op_block_size_mbytes = 16\<rparr>,
      xe_fuel = 1, xe_ivChangeInterval = 0, xe_makeSocket = (\<lambda>k port iv. None), xe_heartBeatDue = (\<lambda>k. False), xe_queue = (\<lambda>k. demo_queue_env),
      xe_pread = (\<lambda>k fd n pos. Some (take (nat n) (drop (nat pos) (demo_content ''f'')))), xe_clearTime = (\<lambda>k. 0), xe_others = (\<lambda>k p. p),
      xe_throttled = True, xe_crc32c = sum_crc\<rparr>"

definition demo_client_system :: "bytes client_env" where
  "demo_client_system =
     \<lparr>ce_evp = mask_evp, ce_connect_timeout_millis = 1000, ce_getaddrinfo = (\<lambda>n d p f. None), ce_socket = (\<lambda>n. 3), ce_setNonBlocking = (\<lambda>n. True),
      ce_connect = (\<lambda>n. Connect_done), ce_polls = (\<lambda>n. []), ce_socketError = (\<lambda>n. Some 0), ce_setBlocking = (\<lambda>n. True),
      ce_established = (\<lambda>n. \<lparr>cn_fd = 3, cn_peer = None, cn_in = [], cn_reads = [], cn_writes = []\<rparr>), ce_close = (\<lambda>n. True),
      ce_shutdown = (\<lambda>n. True), ce_unacked = (\<lambda>n. Some 0)\<rparr>"

definition demo_sender :: Sender where
  "demo_sender =
     \<lparr>sn_queue = (newQueue ''/r'')\<lparr>q_initFinished := True, q_sourceQueue := [demo_source], q_numBlocks := 1, q_totalFileSize := 3\<rparr>,
      sn_histories = [(22356, newHistory newStats 22356)], sn_controller = newController 1, sn_protocolVersion = 30, sn_transferId = [],
      sn_downloadResumptionEnabled = False, sn_fileChunksReceived = False, sn_negotiation = V_MISMATCH_WAIT, sn_negotiatedProtocols = [-1],
      sn_abortCode = OK, sn_tls = True, sn_started = 1, sn_ended = 0\<rparr>"

definition demo_client :: "bytes ClientSocket" where
  "demo_client = newClientSocket False False 2 10 (demo_socket [] []) ''host'' 22356"

definition demo_sender_thread :: "bytes ClientSocket SenderThread" where
  "demo_sender_thread =
     \<lparr>sd_socket = Some demo_client, sd_index = 0, sd_port = 22356, sd_buf = replicate 5000 0, sd_totalSizeSent = False,
      sd_numReconnectWithoutProgress = 0, sd_threadProtocolVersion = 30, sd_footerType = CHECKSUM_FOOTER, sd_enableHeartBeat = False,
      sd_parent = demo_sender, sd_tick = 0\<rparr>"

definition demo_receiver_thread :: "bytes ServerSocket ReceiverThread" where
  "demo_receiver_thread = (demo_thread [])\<lparr>rt_threadProtocolVersion := 30\<rparr>"

lemma demo_block_of: "block_of demo_content demo_source = demo_block"
  by (simp add: block_of_def block_details_of_def demo_source_def demo_block_def demo_content_def newMetaData_def newBlockDetails_def file_slice_def)

lemma demo_block_ok_30: "block_ok 30 demo_block"
proof -
  let ?bd = "fst demo_block"
  have "ok_header 30 newBlockDetails ?bd"
    by (simp add: demo_block_def newBlockDetails_def ok_header_def short_string_def nonneg_i64_def version_defs)
  moreover have "header_checks ?bd" by code_simp
  moreover have "int (length (file_head 30 0 ?bd)) \<le> kMinBufLength" by code_simp
  ultimately show ?thesis by (simp add: block_ok_def demo_block_def newBlockDetails_def)
qed

lemma demo_queued_ok: "queued_ok demo_sender_env 30 5000 demo_content demo_source"
proof -
  let ?s = "demo_source\<lparr>bs_bytesRead := 0, bs_fd := 7, bs_stats := setLocalErrorCode OK (bs_stats demo_source)\<rparr>"
  have o: "openSource (env_openForRead demo_queue_env) demo_source = (OK, ?s)"
    by (simp add: openSource_def demo_source_def demo_queue_env_def newMetaData_def Let_def closeSource_def newSource_def)
  have "block_details_of ?s = fst demo_block" using demo_block_of by (simp add: block_of_def block_details_of_def prod_eq_iff)
  then have "ok_header 30 newBlockDetails (block_details_of ?s)" using demo_block_ok_30 by (simp add: block_ok_def)
  then have "sendable demo_sender_env 30 5000 demo_content ?s"
    by (simp add: sendable_def readable_def file_behind_def pread_of_def demo_sender_env_def demo_source_def newMetaData_def hasError_def
        demo_content_def kDiskBlockSize_def PATH_MAX_def)
  then show ?thesis using o by (simp add: queued_ok_def demo_sender_env_def)
qed

lemma demo_announced:
  "ok_settings 30 newSettings (announced demo_sender_env demo_sender_thread)" "length (settings_msg 30 (announced demo_sender_env demo_sender_thread)) \<le> 40"
proof -
  let ?s = "announced demo_sender_env demo_sender_thread"
  have s: "st_readTimeoutMillis ?s = 5000" "st_writeTimeoutMillis ?s = 5000" "st_transferId ?s = []"
    by (simp_all add: announced_def with_heart_beat_def sender_settings_def demo_sender_env_def demo_sender_thread_def demo_sender_def)
  then show "ok_settings 30 newSettings ?s" by (simp add: ok_settings_def nonneg_i32_def short_string_def version_defs)
  have "length (wire_str []) \<le> 2" using length_wire_str_path [of "[]"] by simp
  then show "length (settings_msg 30 ?s) \<le> 40"
    using s length_wire_u(2) [of 30] length_wire_u(2) [of 5000] by (simp add: settings_msg_def wire_settings_tail_def)
qed

lemma demo_sender_ready: "sender_ready demo_sender_env demo_content demo_sender_thread"
proof -
  let ?t = demo_sender_thread
  have "is_i32 (sum_crc a 0)" for a using sum_crc_range [of 0 a] by (simp add: is_i32_def)
  then have crc: "checksums_ok demo_sender_env" by (simp add: checksums_ok_def demo_sender_env_def piecewise_def) (simp add: sum_crc_def)
  have env: "undisturbed demo_sender_env" "0 < xe_fuel demo_sender_env" by (simp_all add: undisturbed_def demo_sender_env_def)
  have t: "sd_threadProtocolVersion ?t = 30" "sd_parent ?t = demo_sender" "sd_port ?t = 22356" "\<not> sd_totalSizeSent ?t" "length (sd_buf ?t) = 5000"
    by (simp_all add: demo_sender_thread_def)
  have p: "sn_abortCode demo_sender = OK" "sn_histories demo_sender = [(22356, newHistory newStats 22356)]" "sn_protocolVersion demo_sender = 30"
    "\<not> isSendFileChunks demo_sender" "sn_transferId demo_sender = []" by (simp_all add: demo_sender_def isSendFileChunks_def)
  have q: "q_initFinished (sn_queue demo_sender)" "q_totalFileSize (sn_queue demo_sender) = 3" "q_numBlocks (sn_queue demo_sender) = 1"
    "q_failedSourceStats (sn_queue demo_sender) = []" "q_failedDirectories (sn_queue demo_sender) = []" "q_sourceQueue (sn_queue demo_sender) = [demo_source]"
    by (simp_all add: demo_sender_def newQueue_def)
  have num: "nonneg_i32 30" "PERIODIC_ENCRYPTION_IV_CHANGE_VERSION \<le> 30" "kMaxSettings \<le> 5000" "0 \<le> kMaxTransferIdLength" "nonneg_i64 3" "ok_done 30 (-1) (1, 3)"
    "int 40 \<le> kMinBufLength" by (simp_all add: nonneg_i32_def nonneg_i64_def version_defs size_defs ok_done_def)
  have "int (length (settings_msg 30 (announced demo_sender_env ?t))) \<le> kMinBufLength" using demo_announced(2) num(7) by linarith
  then show ?thesis
    unfolding sender_ready_def Let_def t p q using demo_announced(1) crc env demo_queued_ok demo_block_ok_30 demo_block_of num q(1)
    by (simp add: newHistory_def t p)
qed

lemma demo_transfer_head: "length (transfer_head demo_sender_env demo_content demo_sender_thread) < 600"
proof -
  have "transfer_head demo_sender_env demo_content demo_sender_thread =
      settings_msg 30 (announced demo_sender_env demo_sender_thread) @ size_part 30 3 @ block_msg sum_crc CHECKSUM_FOOTER 30 demo_block"
    by (simp add: transfer_head_def Let_def demo_sender_thread_def demo_sender_def demo_block_of) (simp add: demo_sender_env_def)
  moreover have "length (size_part 30 3) \<le> 10" using length_wire_u(2) [of 3] by (simp add: size_part_def size_msg_def)
  moreover have "length (file_head 30 0 (fst demo_block)) \<le> 256" using demo_block_ok_30 by (simp add: block_ok_def kMinBufLength_def)
  moreover have "length (footer_msg sum_crc CHECKSUM_FOOTER (snd demo_block)) \<le> 11"
    using length_wire_s(2) [of "sum_crc (snd demo_block) 0"] by (simp add: footer_msg_def)
  moreover have "length (snd demo_block) = 3" by (simp add: demo_block_def)
  ultimately show ?thesis using demo_announced(2) by (simp add: block_msg_def)
qed


end
