(* ===== verification/Sender_Books.thy ===== *)
theory Sender_Books
  imports Sender_Thread Sender_Accounting
begin

text \<open>
  The books of a sender under its own state machine. Whatever the peer sends, whatever sockets and files do and whenever
  other threads run in between, each state of a sender thread moves counters and bytes between thread, queue and
  history without creating or losing any; a thread relies on the others for nothing but that.
\<close>

section \<open>Moving entries of the books\<close>

abbreviation all_histories :: "Sender \<Rightarrow> ThreadTransferHistory list" where
  "all_histories p \<equiv> map snd (sn_histories p)"

definition imbalance :: "(TransferStats \<Rightarrow> int) \<Rightarrow> Sender \<Rightarrow> int" where
  "imbalance f p = threads_sum f (all_histories p) - queue_sum f (sn_queue p) - histories_sum (\<lambda>s. f (bs_stats s)) (all_histories p)"

definition deficit :: "Sender \<Rightarrow> int" where
  "deficit p = q_totalFileSize (sn_queue p) - src_sum claim (q_sourceQueue (sn_queue p)) - histories_sum credit (all_histories p)"

definition all_plain :: "Sender \<Rightarrow> bool" where
  "all_plain p \<longleftrightarrow> (\<forall>s \<in> set (q_sourceQueue (sn_queue p)). plain_source s) \<and> (\<forall>h \<in> set (all_histories p). \<forall>s \<in> set (h_history h). plain_source s)"

definition lost :: "Sender \<Rightarrow> bool" where
  "lost p \<longleftrightarrow> q_failedSourceStats (sn_queue p) \<noteq> []"

text \<open>From \<open>p\<close> to \<open>p'\<close> the counters get out of balance by \<open>d\<close> and the bytes by \<open>c\<close>.\<close>

definition moves :: "((TransferStats \<Rightarrow> int) \<Rightarrow> int) \<Rightarrow> int \<Rightarrow> Sender \<Rightarrow> Sender \<Rightarrow> bool" where
  "moves d c p p' \<longleftrightarrow> map fst (sn_histories p') = map fst (sn_histories p) \<and> sn_downloadResumptionEnabled p' = sn_downloadResumptionEnabled p \<and>
     (\<forall>f \<in> counters. imbalance f p' = imbalance f p + d f) \<and> all_plain p' \<and> (\<not> lost p' \<longrightarrow> \<not> lost p \<and> deficit p' = deficit p + c)"

text \<open>A transfer without resumption deletes no files; every thread has one history.\<close>

definition regular :: "Sender \<Rightarrow> bool" where
  "regular p \<longleftrightarrow> distinct (map fst (sn_histories p)) \<and> \<not> sn_downloadResumptionEnabled p \<and> all_plain p"

text \<open>What a thread promises to the others, and what it relies on: nothing gets out of balance.\<close>

definition keeps_books :: "Sender \<Rightarrow> Sender \<Rightarrow> bool" where
  "keeps_books p p' \<longleftrightarrow> (regular p \<longrightarrow> moves (\<lambda>_. 0) 0 p p')"

lemma moves_trans:
  "moves d c p p1 \<Longrightarrow> moves d' c' p1 p2 \<Longrightarrow> moves (\<lambda>f. d f + d' f) (c + c') p p2"
  by (simp add: moves_def)

lemma moves_regular: "regular p \<Longrightarrow> moves d c p p' \<Longrightarrow> regular p'"
  by (simp add: regular_def moves_def)

lemma keeps_books_refl [simp]: "keeps_books p p"
  by (simp add: keeps_books_def moves_def regular_def)

lemma keeps_books_trans: "keeps_books p p1 \<Longrightarrow> keeps_books p1 p2 \<Longrightarrow> keeps_books p p2"
  unfolding keeps_books_def using moves_trans [of "\<lambda>_. 0" 0 p p1 "\<lambda>_. 0" 0 p2] moves_regular by auto

lemma moves_same:
  "sn_queue p' = sn_queue p \<Longrightarrow> sn_histories p' = sn_histories p \<Longrightarrow>
   sn_downloadResumptionEnabled p' = sn_downloadResumptionEnabled p \<Longrightarrow> keeps_books p p'"
  by (simp add: keeps_books_def moves_def imbalance_def deficit_def all_plain_def lost_def regular_def)

section \<open>One history and the queue\<close>

definition put_history :: "int \<Rightarrow> (ThreadTransferHistory \<Rightarrow> ThreadTransferHistory) \<Rightarrow> histories \<Rightarrow> histories" where
  "put_history port g hs = map (\<lambda>(k, h). (k, if k = port then g h else h)) hs"

lemma put_history_keys [simp]: "map fst (put_history port g hs) = map fst hs"
  by (auto simp: put_history_def)

lemma put_history_none: "map_of hs port = None \<Longrightarrow> put_history port g hs = hs"
  unfolding put_history_def by (rule map_idI) (force simp: map_of_eq_None_iff)

lemma put_history_sum:
  "distinct (map fst hs) \<Longrightarrow> map_of hs port = Some h \<Longrightarrow>
   sum_list (map k (map snd (put_history port g hs))) = sum_list (map k (map snd hs)) - k h + (k (g h) :: int)"
proof (induction hs)
  case (Cons x hs)
  show ?case
  proof (cases "fst x = port")
    case True
    then have "map_of hs port = None" using Cons.prems(1) by (auto simp: map_of_eq_None_iff)
    then have "put_history port g hs = hs" by (rule put_history_none)
    then show ?thesis using True Cons.prems(2) by (cases x) (simp add: put_history_def)
  next
    case False
    then show ?thesis using Cons by (cases x) (simp add: put_history_def)
  qed
qed simp

lemma put_history_set: "h \<in> set (map snd (put_history port g hs)) \<Longrightarrow>
   h \<in> set (map snd hs) \<or> (\<exists>h0. (port, h0) \<in> set hs \<and> h = g h0)"
  by (force simp: put_history_def)

lemma map_of_distinct_eq: "distinct (map fst hs) \<Longrightarrow> map_of hs k = Some h \<Longrightarrow> (k, h') \<in> set hs \<Longrightarrow> h' = h"
  by (metis map_of_is_SomeI option.inject)

text \<open>A change of one history and the queue, by what it does to both.\<close>

lemma moves_history:
  assumes reg: "regular p" and h: "map_of (sn_histories p) port = Some h"
    and cnt: "\<And>f. f \<in> counters \<Longrightarrow> f (h_threadStats (g h)) - f (h_threadStats h) - queue_sum f q' + queue_sum f (sn_queue p)
      - src_sum (\<lambda>s. f (bs_stats s)) (h_history (g h)) + src_sum (\<lambda>s. f (bs_stats s)) (h_history h) = d f"
    and plain: "\<forall>s \<in> set (q_sourceQueue q') \<union> set (h_history (g h)). plain_source s"
    and bytes: "q_failedSourceStats q' = [] \<Longrightarrow> q_failedSourceStats (sn_queue p) = [] \<and>
        q_totalFileSize q' - src_sum claim (q_sourceQueue q') - src_sum credit (h_history (g h)) =
        q_totalFileSize (sn_queue p) - src_sum claim (q_sourceQueue (sn_queue p)) - src_sum credit (h_history h) + c"
  shows "moves d c p (p\<lparr>sn_queue := q', sn_histories := put_history port g (sn_histories p)\<rparr>)"
proof -
  let ?p = "p\<lparr>sn_queue := q', sn_histories := put_history port g (sn_histories p)\<rparr>"
  have dist: "distinct (map fst (sn_histories p))" and ap: "all_plain p" using reg by (simp_all add: regular_def)
  note S = put_history_sum [OF dist h, of _ g]
  have "imbalance f ?p = imbalance f p + d f" if "f \<in> counters" for f
    using cnt [OF that] S [of "\<lambda>h. f (h_threadStats h)"] S [of "\<lambda>h. src_sum (\<lambda>s. f (bs_stats s)) (h_history h)"]
    by (simp add: imbalance_def threads_sum_def histories_sum_def)
  moreover have "plain_source s" if "k \<in> set (all_histories ?p)" "s \<in> set (h_history k)" for k s
    using put_history_set [of k port g "sn_histories p"] that map_of_distinct_eq [OF dist h] ap plain by (auto simp: all_plain_def)
  then have "all_plain ?p" using plain by (auto simp: all_plain_def)
  moreover have "\<not> lost p \<and> deficit ?p = deficit p + c" if "\<not> lost ?p"
    using bytes that S [of "\<lambda>h. src_sum credit (h_history h)"] by (auto simp: lost_def deficit_def histories_sum_def)
  ultimately show ?thesis by (simp add: moves_def)
qed

lemma regular_history:
  assumes "regular p" "map_of (sn_histories p) port = Some h"
  shows "\<forall>s \<in> set (q_sourceQueue (sn_queue p)) \<union> set (h_history h). plain_source s"
proof -
  have "h \<in> set (all_histories p)" using map_of_SomeD [OF assms(2)] by force
  then show ?thesis using assms(1) by (auto simp: regular_def all_plain_def)
qed

lemma moves_queue:
  assumes "regular p" "\<And>f. f \<in> counters \<Longrightarrow> queue_sum f (sn_queue p) - queue_sum f q' = d f"
    and "\<forall>s \<in> set (q_sourceQueue q'). plain_source s"
    and "q_failedSourceStats q' = [] \<Longrightarrow> q_failedSourceStats (sn_queue p) = [] \<and>
        q_totalFileSize q' - src_sum claim (q_sourceQueue q') = q_totalFileSize (sn_queue p) - src_sum claim (q_sourceQueue (sn_queue p)) + c"
  shows "moves d c p (p\<lparr>sn_queue := q'\<rparr>)"
proof -
  let ?p = "p\<lparr>sn_queue := q'\<rparr>"
  have "imbalance f ?p = imbalance f p + d f" if "f \<in> counters" for f using assms(2) [OF that] by (simp add: imbalance_def)
  moreover have "all_plain ?p" using assms(1,3) by (simp add: regular_def all_plain_def)
  moreover have "\<not> lost p \<and> deficit ?p = deficit p + c" if "\<not> lost ?p" using assms(4) that by (simp add: lost_def deficit_def)
  ultimately show ?thesis by (simp add: moves_def)
qed

lemma fair_plain:
  assumes "fair h q h' q'" "\<forall>s \<in> set (q_sourceQueue q) \<union> set (h_history h). plain_source s"
  shows "\<forall>s \<in> set (q_sourceQueue q') \<union> set (h_history h'). plain_source s"
proof -
  have "\<forall>m \<in> bs_meta ` (set (q_sourceQueue q) \<union> set (h_history h)). md_allocationStatus m \<noteq> TO_BE_DELETED"
    using assms(2) by (simp add: plain_source_def)
  then have "\<forall>m \<in> bs_meta ` (set (q_sourceQueue q') \<union> set (h_history h')). md_allocationStatus m \<noteq> TO_BE_DELETED"
    using assms(1) unfolding fair_def by blast
  then show ?thesis by (simp add: plain_source_def)
qed

lemma fair_moves:
  assumes "regular p" "map_of (sn_histories p) port = Some h" "fair h (sn_queue p) h' q'"
  shows "moves (\<lambda>_. 0) 0 p (p\<lparr>sn_queue := q', sn_histories := put_history port (\<lambda>_. h') (sn_histories p)\<rparr>)"
proof (rule moves_history [OF assms(1,2)])
  show "f (h_threadStats h') - f (h_threadStats h) - queue_sum f q' + queue_sum f (sn_queue p) - src_sum (\<lambda>s. f (bs_stats s)) (h_history h')
      + src_sum (\<lambda>s. f (bs_stats s)) (h_history h) = 0" if "f \<in> counters" for f
    using bspec [OF conjunct1 [OF assms(3) [unfolded fair_def]] that] by simp
qed (use assms(3) fair_plain [OF assms(3) regular_history [OF assms(1,2)]] in \<open>simp_all add: fair_def\<close>)

section \<open>Steps of a thread\<close>

definition fair_to :: "'s SenderThread \<Rightarrow> 's SenderThread \<Rightarrow> bool" where
  "fair_to t t' \<longleftrightarrow> sd_port t' = sd_port t \<and> keeps_books (sd_parent t) (sd_parent t')"

text \<open>However a step from \<open>t\<close> on ends, the books are kept, and a state it goes to is in \<open>P\<close>.\<close>

abbreviation keeps :: "('st \<Rightarrow> bool) \<Rightarrow> 's SenderThread \<Rightarrow> (('st, 'a) step \<times> 's SenderThread) outcome \<Rightarrow> bool" where
  "keeps \<equiv> stays fair_to"

named_theorems keeping

lemma fair_to_refl: "fair_to t t"
  by (simp add: fair_to_def)

lemma fair_to_trans: "fair_to t t1 \<Longrightarrow> fair_to t1 t2 \<Longrightarrow> fair_to t t2"
  by (auto simp: fair_to_def intro: keeps_books_trans)

lemma fair_to_update [simp]:
  "fair_to t (t'\<lparr>sd_buf := b\<rparr>) = fair_to t t'" "fair_to t (t'\<lparr>sd_socket := so\<rparr>) = fair_to t t'" "fair_to t (t'\<lparr>sd_tick := k\<rparr>) = fair_to t t'"
  "fair_to t (t'\<lparr>sd_totalSizeSent := f\<rparr>) = fair_to t t'" "fair_to t (t'\<lparr>sd_numReconnectWithoutProgress := n\<rparr>) = fair_to t t'"
  "fair_to t (t'\<lparr>sd_threadProtocolVersion := v\<rparr>) = fair_to t t'" "fair_to t (t'\<lparr>sd_enableHeartBeat := f\<rparr>) = fair_to t t'"
  "fair_to t (t'\<lparr>sd_footerType := y\<rparr>) = fair_to t t'" "fair_to t (put_cmd c pos t') = fair_to t t'"
  "fair_to t (store_read pos r t') = fair_to t t'"
  by (simp_all add: fair_to_def put_cmd_def store_read_def split: option.split)

lemma fair_to_upd_sender: "fair_to t t' \<Longrightarrow> keeps_books (sd_parent t') (f (sd_parent t')) \<Longrightarrow> fair_to t (upd_sender f t')"
  by (auto simp: fair_to_def upd_sender_def intro: keeps_books_trans)

lemma upd_history_put: "upd_history g t = t\<lparr>sd_parent := (sd_parent t)\<lparr>sn_histories := put_history (sd_port t) g (sn_histories (sd_parent t))\<rparr>\<rparr>"
  by (simp add: upd_history_def upd_sender_def put_history_def)

lemma fair_to_on_stats:
  assumes "\<And>f s. f \<in> counters \<Longrightarrow> f (g s) = f s"
  shows "fair_to t (on_stats g t)"
proof (cases "map_of (sn_histories (sd_parent t)) (sd_port t)")
  case None
  then show ?thesis by (simp add: on_stats_def upd_history_put put_history_none fair_to_def)
next
  case (Some h)
  let ?p = "sd_parent t" and ?g = "\<lambda>h. h\<lparr>h_threadStats := g (h_threadStats h)\<rparr>"
  have "moves (\<lambda>_. 0) 0 ?p (?p\<lparr>sn_queue := sn_queue ?p, sn_histories := put_history (sd_port t) ?g (sn_histories ?p)\<rparr>)"
    if "regular ?p" by (rule moves_history [OF that Some]) (use assms regular_history [OF that Some] in auto)
  then show ?thesis by (simp add: fair_to_def on_stats_def upd_history_put keeps_books_def)
qed

lemma fair_to_stats [simp]:
  "fair_to t t' \<Longrightarrow> fair_to t (on_stats (setLocalErrorCode c) t')" "fair_to t t' \<Longrightarrow> fair_to t (on_stats (setRemoteErrorCode c) t')"
  "fair_to t t' \<Longrightarrow> fair_to t (on_stats (addHeaderBytes n) t')"
  by (erule fair_to_trans, rule fair_to_on_stats, auto simp: setLocalErrorCode_def setRemoteErrorCode_def addHeaderBytes_def)+

interpretation books: kept_relation fair_to
  by unfold_locales (auto intro: fair_to_trans fair_to_refl)

lemmas keeps_from = books.stays_from and keeps_def = stays_def [of fair_to]

declare stays_Ok [keeping] stays_bind [keeping] stays_simple [keeping] books.stays_andThen [keeping]

lemma keeps_stop_with [keeping]: "fair_to t t0 \<Longrightarrow> P st \<Longrightarrow> keeps P t (stop_with c st t0)"
  by (simp add: keeps_def goto_def stop_with_def fair_to_stats)

lemma keeps_ask [keeping]: "fair_to t t0 \<Longrightarrow> keeps P t (ask q t0)" "fair_to t t0 \<Longrightarrow> keeps P t (thread_history t0)"
  by (simp_all add: keeps_def ask_def thread_history_def getTransferHistory_def split: option.splits)

lemma keeps_sock [keeping]:
  assumes "fair_to t t0"
  shows "keeps P t (sock_call f t0)"
proof (cases "sd_socket t0")
  case (Some s)
  then show ?thesis using assms by (cases "f s") (auto simp: sock_call_def keeps_def)
qed (simp add: sock_call_def)

lemma keeps_io [keeping]: "fair_to t t0 \<Longrightarrow> keeps P t (read_into V pos n full t0)" "fair_to t t0 \<Longrightarrow> keeps P t (write_out V bs retry t0)"
  unfolding read_into_def write_out_def by (auto intro!: keeping)

lemma keeps_encode [keeping]: "fair_to t t0 \<Longrightarrow> keeps P t (encode_into enc mx off t0)"
  by (auto simp: encode_into_def keeps_def split: outcome.splits prod.splits)

lemma sender_update_order: "p\<lparr>sn_histories := hs, sn_queue := q\<rparr> = p\<lparr>sn_queue := q, sn_histories := hs\<rparr>"
  by simp

lemma keeps_history_step [keeping]:
  assumes "\<And>h q x h' q'. F h q = Ok (x, h', q') \<Longrightarrow> fair h q h' q'"
  shows "keeps P t (history_step F t)"
proof (cases "map_of (sn_histories (sd_parent t)) (sd_port t)")
  case (Some h)
  let ?p = "sd_parent t"
  show ?thesis
  proof (cases "F h (sn_queue ?p)")
    case (Ok y)
    obtain x h' q' where y: "y = (x, h', q')" by (cases y)
    have "keeps_books ?p (?p\<lparr>sn_queue := q', sn_histories := put_history (sd_port t) (\<lambda>_. h') (sn_histories ?p)\<rparr>)"
      using fair_moves [OF _ Some assms [OF Ok [unfolded y]]] by (simp add: keeps_books_def)
    then show ?thesis using Some Ok y
      by (simp add: history_step_def thread_history_def getTransferHistory_def andThen_def keeps_def fair_to_def upd_history_put upd_sender_def sender_update_order)
  qed (use Some in \<open>simp_all add: history_step_def thread_history_def getTransferHistory_def andThen_def\<close>)
qed (simp add: history_step_def thread_history_def getTransferHistory_def andThen_def)

text \<open>The other threads are relied on to keep the books.\<close>

definition orderly :: "'s sender_env \<Rightarrow> bool" where
  "orderly e \<longleftrightarrow> (\<forall>k p. keeps_books p (xe_others e k p))"

lemma keeps_others [keeping]: "orderly e \<Longrightarrow> fair_to t t0 \<Longrightarrow> keeps P t (other_threads e t0)"
  unfolding orderly_def keeps_def other_threads_def by (auto intro!: fair_to_upd_sender)

lemma keeps_abort_code [keeping]: "orderly e \<Longrightarrow> fair_to t t0 \<Longrightarrow> keeps P t (getThreadAbortCode e t0)"
  unfolding getThreadAbortCode_def by (auto intro!: keeping)

lemma keeps_heart_beats [keeping]: "fair_to t t0 \<Longrightarrow> keeps P t (readHeartBeats V e t0)"
  unfolding readHeartBeats_def by (auto intro!: keeping)

section \<open>Sending a block\<close>

text \<open>What reading may change of a source.\<close>

definition read_from :: "ByteSource \<Rightarrow> ByteSource \<Rightarrow> bool" where
  "read_from s s' \<longleftrightarrow> bs_meta s' = bs_meta s \<and> bs_size s' = bs_size s \<and> bs_offset s' = bs_offset s \<and>
     (\<forall>f \<in> counters \<union> {ts_numBlocksSend, ts_totalSenderBytes}. f (bs_stats s') = f (bs_stats s))"

lemma read_from_refl [simp]: "read_from s s"
  by (simp add: read_from_def)

lemma read_from_trans: "read_from s s1 \<Longrightarrow> read_from s1 s2 \<Longrightarrow> read_from s s2"
  by (simp add: read_from_def)

text \<open>Before its end a block has counted the bytes read but the last \<open>k\<close>, none as effective; a failed one never counts any.\<close>

definition uncounted :: "int \<Rightarrow> 's block_send \<Rightarrow> bool" where
  "uncounted k b \<longleftrightarrow> (let st = bk_stats b; s = bk_source b in
     ts_numBlocksSend st = -1 \<and> ts_totalSenderBytes st = -1 \<and> ts_effectiveDataBytes st = 0 \<and> ts_dataBytes st = bk_actualSize b \<and>
     bk_actualSize b + k = bs_bytesRead s \<and>
     (if hasError s then bs_bytesRead s \<noteq> bs_size s else ts_localErrCode (bs_stats s) = OK))"

definition not_sent :: "TransferStats \<Rightarrow> bool" where
  "not_sent st \<longleftrightarrow> ts_numBlocksSend st = -1 \<and> ts_totalSenderBytes st = -1 \<and> ts_localErrCode st \<noteq> OK \<and> ts_effectiveDataBytes st = 0"

definition charges :: "int \<Rightarrow> ('s block_send \<Rightarrow> bool) \<Rightarrow> 's block_send \<Rightarrow> ((unit, 'a) step \<times> 's block_send) outcome \<Rightarrow> bool" where
  "charges k Q b x \<longleftrightarrow> (\<forall>r b'. x = Ok (r, b') \<longrightarrow> fair_to (bk_thread b) (bk_thread b') \<and> read_from (bk_source b) (bk_source b') \<and>
     (uncounted k b \<longrightarrow> (case r of Return _ \<Rightarrow> not_sent (bk_stats b') | Continue _ \<Rightarrow> Q b')))"

named_theorems charging

lemma charges_stop [simp]: "charges k Q b Fail" "charges k Q b Abort"
  by (simp_all add: charges_def)

lemma charges_andThen [charging]:
  assumes "charges k (uncounted m) b (h b)"
    and "\<And>x b1. h b = Ok (Continue x, b1) \<Longrightarrow> charges m Q b1 (f x b1)"
  shows "charges k Q b (andThen h f b)"
proof (cases "h b")
  case (Ok y)
  obtain r b1 where y: "y = (r, b1)" by fastforce
  note H = assms(1) [unfolded charges_def Ok y, rule_format, OF refl]
  show ?thesis
  proof (cases r)
    case (Return st)
    then show ?thesis using H Ok y by (simp add: andThen_Return charges_def)
  next
    case (Continue x)
    have "fair_to (bk_thread b) (bk_thread b') \<and> read_from (bk_source b) (bk_source b') \<and>
        (uncounted k b \<longrightarrow> (case r' of Return _ \<Rightarrow> not_sent (bk_stats b') | Continue _ \<Rightarrow> Q b'))"
      if "f x b1 = Ok (r', b')" for r' b'
      using assms(2) [of x b1, unfolded charges_def, rule_format, OF _ that] Ok y Continue H
      by (auto intro: fair_to_trans read_from_trans)
    then show ?thesis using Ok y Continue unfolding charges_def by (simp add: andThen_Continue)
  qed
qed (simp_all add: andThen_def)

lemma charges_in_thread [charging]:
  assumes "keeps (\<lambda>_. False) (bk_thread b) (h (bk_thread b))"
  shows "charges k (uncounted k) b (in_thread h b)"
proof (cases "h (bk_thread b)")
  case (Ok y)
  obtain r t where y: "y = (r, t)" by fastforce
  then have "fair_to (bk_thread b) t" "\<exists>x. r = Continue x" using assms Ok by (cases r; simp add: keeps_def)+
  then show ?thesis using Ok y by (auto simp: in_thread_def charges_def uncounted_def)
qed (simp_all add: in_thread_def)

lemma charges_failed [charging]: "c \<noteq> OK \<Longrightarrow> charges k Q b (block_failed c b)"
  by (simp add: charges_def block_failed_def not_sent_def uncounted_def Let_def incrFailedAttempts_def setLocalErrorCode_def)

lemma charges_proceed [charging]: "charges k (uncounted k) b (proceed x b)"
  by (simp add: charges_def proceed_def)

lemma charges_modify [charging]:
  assumes "bk_thread (f b) = bk_thread b" "bk_source (f b) = bk_source b" "uncounted k b \<Longrightarrow> Q (f b)"
  shows "charges k Q b (modify f b)"
  using assms by (simp add: charges_def modify_def)

lemma charges_piece [charging]:
  assumes "orderly e"
  shows "charges (int (length d)) (uncounted 0) b (send_piece V e d b)"
proof -
  have after: "charges (int (length d)) (uncounted 0) b1 ((if a \<noteq> OK then block_failed ABORT else if written \<noteq> int (length d) then block_failed SOCKET_WRITE_ERROR
      else modify (\<lambda>b. b\<lparr>bk_stats := addDataBytes written (bk_stats b), bk_actualSize := bk_actualSize b + written\<rparr>)) b1)" for a written b1
    by (auto intro!: charges_failed charges_modify simp: uncounted_def Let_def addDataBytes_def)
  have calls: "charges k (uncounted k) b1 (in_thread (write_out V d True) b1)" "charges k (uncounted k) b1 (in_thread (getThreadAbortCode e) b1)" for k b1
    by (intro charges_in_thread keeping fair_to_refl assms)+
  show ?thesis unfolding send_piece_def
  proof (rule charges_andThen [where m = "int (length d)"])
    show "charges (int (length d)) (uncounted (int (length d))) b (modify (\<lambda>b. count_throttled e (int (length d))
         (if sd_footerType (bk_thread b) = CHECKSUM_FOOTER then b\<lparr>bk_checksum := xe_crc32c e d (bk_checksum b)\<rparr> else b)) b)"
      by (rule charges_modify) (simp_all add: count_throttled_def uncounted_def)
  qed (rule charges_andThen [where m = "int (length d)"], rule calls(1), rule charges_andThen [where m = "int (length d)"], rule calls(2), rule after)
qed

lemma readSource_cases:
  assumes "readSource pread n s = (Ok data, s')" "\<not> source_finished s"
  shows "hasError s' \<Longrightarrow> read_from s s' \<and> bs_bytesRead s' = bs_bytesRead s \<and> (hasError s \<and> s' = s \<or> bs_bytesRead s \<noteq> bs_size s)"
    and "\<not> hasError s' \<Longrightarrow> data = Some d \<Longrightarrow> d \<noteq> [] \<Longrightarrow> \<not> hasError s \<and> s' = s\<lparr>bs_bytesRead := bs_bytesRead s + int (length d)\<rparr>"
proof -
  have "(hasError s' \<longrightarrow> read_from s s' \<and> bs_bytesRead s' = bs_bytesRead s \<and> (hasError s \<and> s' = s \<or> bs_bytesRead s \<noteq> bs_size s)) \<and>
    (\<not> hasError s' \<longrightarrow> (\<forall>d. data = Some d \<and> d \<noteq> [] \<longrightarrow> \<not> hasError s \<and> s' = s\<lparr>bs_bytesRead := bs_bytesRead s + int (length d)\<rparr>))"
  proof (cases "hasError s")
    case True
    then show ?thesis using assms(1) by (auto simp: readSource_def)
  next
    case ok: False
    then have unread: "bs_bytesRead s \<noteq> bs_size s" using assms(2) by (simp add: source_finished_def)
    obtain rem l ph where w: "read_window n s = (rem, l, ph)" by (cases "read_window n s")
    then have rem: "0 \<le> rem" by (auto simp: read_window_def Let_def kDiskBlockSize_def split: if_splits)
    show ?thesis
    proof (cases "pread (bs_fd s) ph (bs_offset s + bs_bytesRead s - rem)")
      case None
      then show ?thesis using assms ok w unread by (auto simp: readSource_def read_from_def closeSource_def setLocalErrorCode_def)
    next
      case (Some buf)
      show ?thesis
      proof (cases "buf = []")
        case True
        then show ?thesis using assms ok w unread Some by (auto simp: readSource_def read_from_def closeSource_def)
      next
        case False
        then have "data = Some (take (nat (min (int (length buf) - rem) l)) (drop (nat rem) buf))"
          "s' = s\<lparr>bs_bytesRead := bs_bytesRead s + min (int (length buf) - rem) l\<rparr>"
          using assms ok w Some by (auto simp: readSource_def Let_def split: if_splits)
        then show ?thesis using ok rem by (auto simp: hasError_def min_def split: if_splits)
      qed
    qed
  qed
  then show "hasError s' \<Longrightarrow> read_from s s' \<and> bs_bytesRead s' = bs_bytesRead s \<and> (hasError s \<and> s' = s \<or> bs_bytesRead s \<noteq> bs_size s)"
    "\<not> hasError s' \<Longrightarrow> data = Some d \<Longrightarrow> d \<noteq> [] \<Longrightarrow> \<not> hasError s \<and> s' = s\<lparr>bs_bytesRead := bs_bytesRead s + int (length d)\<rparr>" by blast+
qed

lemma charges_read:
  assumes "\<not> source_finished (bk_source b)" "readSource pread n (bk_source b) = (Ok data, s)"
  shows "hasError s \<Longrightarrow> charges 0 (uncounted 0) b (proceed x (b\<lparr>bk_source := s\<rparr>))"
    and "\<not> hasError s \<Longrightarrow> data = Some d \<Longrightarrow> d \<noteq> [] \<Longrightarrow> charges (int (length d)) Q (b\<lparr>bk_source := s\<rparr>) y \<Longrightarrow> charges 0 Q b y"
proof -
  note R = readSource_cases [OF assms(2,1)]
  show "hasError s \<Longrightarrow> charges 0 (uncounted 0) b (proceed x (b\<lparr>bk_source := s\<rparr>))"
    using R(1) by (auto simp: charges_def proceed_def uncounted_def Let_def read_from_def)
  assume "\<not> hasError s" "data = Some d" "d \<noteq> []" and y: "charges (int (length d)) Q (b\<lparr>bk_source := s\<rparr>) y"
  then have s: "\<not> hasError (bk_source b)" "s = (bk_source b)\<lparr>bs_bytesRead := bs_bytesRead (bk_source b) + int (length d)\<rparr>" using R(2) by auto
  have "read_from (bk_source b) s" by (simp add: s(2) read_from_def)
  moreover have "uncounted 0 b \<Longrightarrow> uncounted (int (length d)) (b\<lparr>bk_source := s\<rparr>)"
    using s \<open>\<not> hasError s\<close> by (simp add: uncounted_def Let_def)
  ultimately show "charges 0 Q b y" using y unfolding charges_def by (auto intro: read_from_trans)
qed

lemma charges_pieces [charging]: "orderly e \<Longrightarrow> charges 0 (uncounted 0) b (send_pieces V e n b)"
proof (induction n arbitrary: b)
  case (Suc n)
  show ?case
  proof (cases "source_finished (bk_source b)")
    case False
    have same: "in_thread h b0 = Ok (r, b1) \<Longrightarrow> bk_source b1 = bk_source b0" for h :: "('a SenderThread, unit, 'c) thread_op" and r b0 b1
      by (cases "h (bk_thread b0)") (auto simp: in_thread_def)
    have body: "charges 0 (uncounted 0) b1 (case readSource pread (sd_bufSize (bk_thread b1)) (bk_source b1) of
               (r, s) \<Rightarrow> outcome_bind r (\<lambda>data. let b2 = b1\<lparr>bk_source := s\<rparr>
                   in if hasError s then proceed () b2
                      else case data of None \<Rightarrow> Abort
                         | Some d \<Rightarrow> if d = [] then Abort else andThen (send_piece V e d) (\<lambda>_. send_pieces V e n) b2))"
      if "\<not> source_finished (bk_source b1)" for b1 pread
    proof -
      obtain r s where r: "readSource pread (sd_bufSize (bk_thread b1)) (bk_source b1) = (r, s)" by fastforce
      show ?thesis
      proof (cases r)
        case (Ok data)
        note C = charges_read [OF that r [unfolded Ok]]
        have "charges 0 (uncounted 0) b1 (andThen (send_piece V e d) (\<lambda>_. send_pieces V e n) (b1\<lparr>bk_source := s\<rparr>))"
          if "\<not> hasError s" "data = Some d" "d \<noteq> []" for d
          by (rule C(2) [OF that], rule charges_andThen, rule charges_piece [OF Suc.prems], rule Suc.IH [OF Suc.prems])
        then show ?thesis using r Ok by (cases data) (simp_all add: Let_def C(1))
      qed (use r in simp_all)
    qed
    show ?thesis using False by (auto intro!: charges_andThen charges_in_thread keeping body dest!: same)
  qed (simp add: charges_proceed)
qed simp

definition source_sent :: "ByteSource \<Rightarrow> TransferStats \<Rightarrow> bool" where
  "source_sent s st \<longleftrightarrow> send_result s st \<and> (ts_localErrCode st = OK \<longrightarrow> ts_localErrCode (bs_stats s) = OK)"

lemma charges_footer: "charges 0 (uncounted 0) b (send_footer V b)"
proof -
  have after: "charges 0 (uncounted 0) b1 ((if written \<noteq> toWrite then block_failed SOCKET_WRITE_ERROR
      else modify (\<lambda>b. b\<lparr>bk_stats := addHeaderBytes toWrite (bk_stats b)\<rparr>)) b1)" for written toWrite b1
    by (auto intro!: charges_failed charges_modify simp: uncounted_def Let_def addHeaderBytes_def)
  have "charges 0 (uncounted 0) b (andThen (in_thread (write_out V bs False)) (\<lambda>written. if written \<noteq> toWrite then block_failed SOCKET_WRITE_ERROR
      else modify (\<lambda>b. b\<lparr>bk_stats := addHeaderBytes toWrite (bk_stats b)\<rparr>)) b)" for bs toWrite
    by (rule charges_andThen [where m = 0], intro charges_in_thread keeping fair_to_refl, rule after)
  then show ?thesis by (auto simp: send_footer_def charges_proceed split: prod.split outcome.split)
qed

lemma in_thread_block:
  "in_thread h b = Ok (r, b1) \<Longrightarrow> bk_source b1 = bk_source b \<and> bk_actualSize b1 = bk_actualSize b"
  by (cases "h (bk_thread b)") (auto simp: in_thread_def)

lemma send_footer_actual: "send_footer V b = Ok (Continue x, b1) \<Longrightarrow> bk_actualSize b1 = bk_actualSize b"
  by (auto simp: send_footer_def proceed_def block_failed_def modify_def dest!: in_thread_block andThen_ContinueD
      split: if_splits prod.splits outcome.splits)

lemma charges_body:
  assumes "orderly e" "bs_size (bk_source b) = n"
  shows "charges 0 (\<lambda>b. source_sent (bk_source b) (bk_stats b)) b (send_body V e header n b)"
proof -
  let ?Q = "\<lambda>b. source_sent (bk_source b) (bk_stats b)"
  have fin: "charges 0 ?Q b1 (modify block_sent b1)" if "bk_actualSize b1 = bs_size (bk_source b1)" for b1
    by (rule charges_modify) (use that in \<open>auto simp: block_sent_def Let_def uncounted_def source_sent_def send_result_def
      incrStatsBlocks_def setLocalErrorCode_def addEffectiveBytes_def split: if_splits\<close>)
  have size: "bs_size (bk_source b2) = bs_size (bk_source b1)" if "charges k Q b1 x" "x = Ok (r, b2)" for k Q b1 x r b2
    using that by (simp add: charges_def read_from_def)
  have tail: "charges 0 ?Q b1 (andThen (throttler_check e m) (\<lambda>_. andThen (send_footer V) (\<lambda>_. modify block_sent)) b1)"
    if "bk_actualSize b1 = bs_size (bk_source b1)" for m b1
  proof -
    have "charges 0 ?Q b1 (andThen (send_footer V) (\<lambda>_. modify block_sent) b1)"
      using that by (intro charges_andThen [OF charges_footer] fin) (simp add: size [OF charges_footer] send_footer_actual)
    then show ?thesis by (simp add: throttler_check_def andThen_def proceed_def)
  qed
  have rest: "charges 0 ?Q b1 ((\<lambda>b. if bk_actualSize b \<noteq> n then block_failed BYTE_SOURCE_READ_ERROR b
      else andThen (throttler_check e m) (\<lambda>_. andThen (send_footer V) (\<lambda>_. modify block_sent)) b) b1)"
    if "bs_size (bk_source b1) = n" for m b1 using tail that by (simp add: charges_failed)
  have pieces: "charges 0 ?Q b1 (andThen (\<lambda>b. send_pieces V e (Suc (nat (bs_size (bk_source b)))) b) (\<lambda>_ b. if bk_actualSize b \<noteq> n then block_failed BYTE_SOURCE_READ_ERROR b
      else andThen (throttler_check e m) (\<lambda>_. andThen (send_footer V) (\<lambda>_. modify block_sent)) b) b1)"
    if "bs_size (bk_source b1) = n" for m b1
    using that by (intro charges_andThen [OF charges_pieces [OF assms(1)]] rest) (simp add: size [OF charges_pieces [OF assms(1)]] del: send_pieces.simps)
  have head: "charges 0 (uncounted 0) b1 (modify (\<lambda>b. b\<lparr>bk_stats := addHeaderBytes m (bk_stats b), bk_throttlerInstanceBytes := m\<rparr>) b1)" for m b1
    by (rule charges_modify) (simp_all add: uncounted_def Let_def addHeaderBytes_def)
  have start: "charges 0 ?Q b1 (andThen (modify (\<lambda>b. b\<lparr>bk_stats := addHeaderBytes m (bk_stats b), bk_throttlerInstanceBytes := m\<rparr>)) (\<lambda>_.
            andThen (\<lambda>b. send_pieces V e (Suc (nat (bs_size (bk_source b)))) b) (\<lambda>_ b. if bk_actualSize b \<noteq> n then block_failed BYTE_SOURCE_READ_ERROR b
      else andThen (throttler_check e m) (\<lambda>_. andThen (send_footer V) (\<lambda>_. modify block_sent)) b)) b1)" if "bs_size (bk_source b1) = n" for m b1
    using that by (intro charges_andThen [OF head] pieces) (auto simp: modify_def)
  have "charges 0 (uncounted 0) b (in_thread (write_out V header False) b)" by (intro charges_in_thread keeping fair_to_refl)
  then show ?thesis unfolding send_body_def
  proof (rule charges_andThen)
    fix written b1 assume "in_thread (write_out V header False) b = Ok (Continue written, b1)"
    then have "bs_size (bk_source b1) = n" using in_thread_block [of "write_out V header False" b] assms(2) by simp
    note start [OF this, of written]
    then show "charges 0 ?Q b1 ((if written \<noteq> int (length header) then block_failed SOCKET_WRITE_ERROR
       else andThen (modify (\<lambda>b. b\<lparr>bk_stats := addHeaderBytes written (bk_stats b), bk_throttlerInstanceBytes := written\<rparr>)) (\<lambda>_.
            andThen (\<lambda>b. send_pieces V e (Suc (nat (bs_size (bk_source b)))) b) (\<lambda>_ b.
              if bk_actualSize b \<noteq> n then block_failed BYTE_SOURCE_READ_ERROR b
              else andThen (throttler_check e written) (\<lambda>_. andThen (send_footer V) (\<lambda>_. modify block_sent)) b))) b1)"
      by (cases "written = int (length header)") (simp_all add: charges_failed del: send_pieces.simps)
  qed
qed

lemma sendOneByteSource_charged:
  assumes "orderly e" "sendOneByteSource V e st s t = Ok (stats, s', t')"
  shows "fair_to t t'" "read_from s s'"
    and "\<not> hasError s \<Longrightarrow> bs_bytesRead s = 0 \<Longrightarrow> ts_localErrCode (bs_stats s) = OK \<Longrightarrow> source_sent s' stats"
proof -
  define b where "b = \<lparr>bk_thread = t, bk_source = s, bk_stats = newStats, bk_checksum = 0, bk_actualSize = 0,
    bk_throttlerInstanceBytes = 0, bk_totalThrottlerBytes = 0\<rparr>"
  obtain header r b' where r: "send_body V e header (bs_size s) b = Ok (r, b')" "stats = bk_stats b'" "s' = bk_source b'" "t' = bk_thread b'"
    using assms(2) by (auto simp: sendOneByteSource_def b_def)
  have C: "fair_to t t'" "read_from s s'" "uncounted 0 b \<longrightarrow> (case r of Return _ \<Rightarrow> not_sent stats | Continue _ \<Rightarrow> source_sent s' stats)"
    using charges_body [OF assms(1), of b "bs_size s" V header] r(1) unfolding r(2-4) charges_def by (simp_all add: b_def)
  then show "fair_to t t'" "read_from s s'" by simp_all
  assume "\<not> hasError s" "bs_bytesRead s = 0" "ts_localErrCode (bs_stats s) = OK"
  then have "uncounted 0 b" by (simp add: uncounted_def b_def newStats_def)
  then show "source_sent s' stats" using C(3) by (cases r) (simp_all add: source_sent_def not_sent_def send_result_def)
qed

section \<open>The states of the machine\<close>

lemma getNextSource_opened:
  assumes "getNextSource env q = (GotSource s st, q')" "\<forall>s \<in> set (q_sourceQueue q). plain_source s"
  shows "bs_bytesRead s = 0"
  using assms
proof (induction "q_sourceQueue q" arbitrary: q)
  case Nil
  then show ?case by (auto simp: getNextSource_Nil split: if_splits)
next
  case (Cons x rest)
  obtain e x' where o: "openSource (env_openForRead env) x = (e, x')" by fastforce
  note step = getNextSource_cases [OF Cons.hyps(2) [symmetric] o]
  have ps: "plain_source x" "\<forall>s \<in> set rest. plain_source s" using Cons.prems(2) Cons.hyps(2) [symmetric] by auto
  show ?case
  proof (cases "e = OK")
    case True
    then have "s = x'" using step Cons.prems(1) by simp
    then show ?thesis using o ps(1) by (auto simp: openSource_def plain_source_def Let_def closeSource_def)
  next
    case False
    let ?q = "q\<lparr>q_sourceQueue := rest, q_failedSourceStats := q_failedSourceStats q @ [bs_stats (closeSource x')]\<rparr>"
    show ?thesis using Cons.hyps(1) [of ?q] step False Cons.prems(1) ps(2) by simp
  qed
qed

lemma getNextSource_moves:
  assumes g: "getNextSource env (sn_queue p) = (r, q')" and reg: "regular p"
  shows "moves (\<lambda>f. case r of GotSource s _ \<Rightarrow> f (bs_stats s) | _ \<Rightarrow> 0) (case r of GotSource s _ \<Rightarrow> claim s | _ \<Rightarrow> 0) p (p\<lparr>sn_queue := q'\<rparr>)"
    and "r = GotSource s st \<Longrightarrow> plain_source s \<and> ts_localErrCode (bs_stats s) = OK \<and> bs_bytesRead s = 0"
proof -
  have pl: "\<forall>s \<in> set (q_sourceQueue (sn_queue p)). plain_source s" using reg by (simp add: regular_def all_plain_def)
  note C = getNextSource_claims [OF g pl] and S = getNextSource_sum [OF g]
  show "moves (\<lambda>f. case r of GotSource s _ \<Rightarrow> f (bs_stats s) | _ \<Rightarrow> 0) (case r of GotSource s _ \<Rightarrow> claim s | _ \<Rightarrow> 0) p (p\<lparr>sn_queue := q'\<rparr>)"
    by (rule moves_queue [OF reg]) (use C S pl in auto)
  show "r = GotSource s st \<Longrightarrow> plain_source s \<and> ts_localErrCode (bs_stats s) = OK \<and> bs_bytesRead s = 0"
    using C getNextSource_opened [of env "sn_queue p" s st q'] g pl by simp
qed

lemma stop_waiting_books: "keeps_books p (stop_waiting p)"
proof -
  have "moves (\<lambda>_. 0) 0 p (p\<lparr>sn_queue := (sn_queue p)\<lparr>q_numWaiters := k\<rparr>\<rparr>)" if "regular p" for k
    using that by (intro moves_queue) (simp_all add: regular_def all_plain_def queue_sum_def)
  then show ?thesis by (simp add: keeps_books_def stop_waiting_def)
qed

text \<open>A source taken from the queue is missing from the books; without a source they are kept.\<close>

lemma take_source_moves:
  assumes "orderly e" "take_source e n t = Ok (r, t')"
  shows "sd_port t' = sd_port t"
    and "r = Continue None \<Longrightarrow> keeps_books (sd_parent t) (sd_parent t')" and "\<nexists>st. r = Return st"
    and "r = Continue (Some (s, c)) \<Longrightarrow> regular (sd_parent t) \<Longrightarrow> moves (\<lambda>f. f (bs_stats s)) (claim s) (sd_parent t) (sd_parent t') \<and>
      plain_source s \<and> ts_localErrCode (bs_stats s) = OK \<and> bs_bytesRead s = 0"
proof -
  have "sd_port t' = sd_port t \<and> (\<nexists>st. r = Return st) \<and> (r = Continue None \<longrightarrow> keeps_books (sd_parent t) (sd_parent t')) \<and>
    (\<forall>s c. r = Continue (Some (s, c)) \<and> regular (sd_parent t) \<longrightarrow> moves (\<lambda>f. f (bs_stats s)) (claim s) (sd_parent t) (sd_parent t') \<and>
      plain_source s \<and> ts_localErrCode (bs_stats s) = OK \<and> bs_bytesRead s = 0)"
    using assms(2)
  proof (induction n arbitrary: t)
    case (Suc n)
    let ?p = "sd_parent t" and ?env = "xe_queue e (sd_tick t)" and ?t1 = "t\<lparr>sd_tick := Suc (sd_tick t)\<rparr>"
    obtain g q where g: "getNextSource ?env (sn_queue ?p) = (g, q)" by fastforce
    note G = getNextSource_moves [OF g]
    let ?t2 = "upd_sender (\<lambda>p. p\<lparr>sn_queue := q\<rparr>) ?t1"
    show ?case
    proof (cases g)
      case WouldBlock
      let ?t3 = "upd_sender stop_waiting (upd_sender (xe_others e (Suc (sd_tick t))) (?t2\<lparr>sd_tick := Suc (Suc (sd_tick t))\<rparr>))"
      have eq: "take_source e n ?t3 = Ok (r, t')"
        using Suc.prems g WouldBlock by (simp add: andThen_def ask_def other_threads_def modify_def upd_sender_def)
      let ?p2 = "?p\<lparr>sn_queue := q\<rparr>" and ?p3 = "sd_parent ?t3"
      have p3: "?p3 = stop_waiting (xe_others e (Suc (sd_tick t)) ?p2)" "sd_port ?t3 = sd_port t" by (simp_all add: upd_sender_def)
      have "keeps_books ?p ?p2" using G(1) WouldBlock by (simp add: keeps_books_def)
      moreover have "keeps_books ?p2 (xe_others e (Suc (sd_tick t)) ?p2)" using assms(1) by (simp add: orderly_def)
      ultimately have k: "keeps_books ?p ?p3" unfolding p3 using stop_waiting_books keeps_books_trans by blast
      have m: "moves d c ?p p'" "regular ?p3" if "regular ?p" "regular ?p3 \<Longrightarrow> moves d c ?p3 p'" for d c p'
        using k that moves_regular [of ?p _ _ ?p3] moves_trans [of "\<lambda>_. 0" 0 ?p ?p3 d c p'] by (auto simp: keeps_books_def)
      note IH = Suc.IH [OF eq, unfolded p3(2)]
      then show ?thesis using k m keeps_books_trans [of ?p ?p3] by blast
    next
      case (NoSource c)
      then show ?thesis using Suc.prems g G(1) by (auto simp: andThen_def ask_def proceed_def upd_sender_def keeps_books_def)
    next
      case (GotSource s c)
      then show ?thesis using Suc.prems g G by (auto simp: andThen_def ask_def proceed_def upd_sender_def)
    qed
  qed simp
  then show "sd_port t' = sd_port t" "r = Continue None \<Longrightarrow> keeps_books (sd_parent t) (sd_parent t')" "\<nexists>st. r = Return st"
    "r = Continue (Some (s, c)) \<Longrightarrow> regular (sd_parent t) \<Longrightarrow> moves (\<lambda>f. f (bs_stats s)) (claim s) (sd_parent t) (sd_parent t') \<and>
      plain_source s \<and> ts_localErrCode (bs_stats s) = OK \<and> bs_bytesRead s = 0" by blast+
qed

lemma block_added_moves:
  assumes reg: "regular p" and h: "map_of (sn_histories p) port = Some h"
    and s: "read_from s s1" "plain_source s" "source_sent s1 stats"
    and a: "addSource (closeSource (addTransferStats stats s1)) (h\<lparr>h_threadStats := plusStats (h_threadStats h) stats\<rparr>) (sn_queue p) = Ok (b, h', q')"
  shows "moves (\<lambda>f. - f (bs_stats s)) (- claim s) p (p\<lparr>sn_queue := q', sn_histories := put_history port (\<lambda>_. h') (sn_histories p)\<rparr>)"
proof -
  define s2 where "s2 = closeSource (addTransferStats stats s1)"
  define h1 where "h1 = h\<lparr>h_threadStats := plusStats (h_threadStats h) stats, h_history := h_history h @ [s2]\<rparr>"
  have s2: "bs_stats s2 = plusStats (bs_stats s1) stats" "bs_size s2 = bs_size s" "plain_source s2"
    using s(1,2) by (simp_all add: s2_def addTransferStats_def plain_source_def read_from_def)
  have fair: "fair h1 (sn_queue p) h' q'" using addSource_fair [OF a] by (simp add: h1_def s2_def)
  have cr: "credit s2 = claim s" using s(1,3)
    by (auto simp: credit_def claim_def owed_def s2 source_sent_def send_result_def sendMismatch_def read_from_def)
  have f_s1: "f (bs_stats s1) = f (bs_stats s)" if "f \<in> counters" for f using s(1) that by (auto simp: read_from_def)
  show ?thesis
  proof (rule moves_history [OF reg h])
    show "f (h_threadStats h') - f (h_threadStats h) - queue_sum f q' + queue_sum f (sn_queue p) - src_sum (\<lambda>s. f (bs_stats s)) (h_history h')
        + src_sum (\<lambda>s. f (bs_stats s)) (h_history h) = - f (bs_stats s)" if "f \<in> counters" for f
      using bspec [OF conjunct1 [OF fair [unfolded fair_def]] that] plusStats_counters [OF that] f_s1 [OF that] by (simp add: h1_def s2)
    show "\<forall>s \<in> set (q_sourceQueue q') \<union> set (h_history h'). plain_source s"
      using fair_plain [OF fair] regular_history [OF reg h] s2(3) by (auto simp: h1_def)
  qed (use fair cr in \<open>simp add: fair_def h1_def\<close>)
qed

lemma put_history_put [simp]: "put_history port (\<lambda>_. h') (put_history port g hs) = put_history port (\<lambda>_. h') hs"
  by (auto simp: put_history_def)

lemma put_history_get: "map_of (put_history port g hs) port = map_option g (map_of hs port)"
  by (induction hs) (auto simp: put_history_def)

lemma history_step_Ok:
  assumes "history_step F t = Ok (r, t')"
  obtains h x h' q' where "map_of (sn_histories (sd_parent t)) (sd_port t) = Some h" "F h (sn_queue (sd_parent t)) = Ok (x, h', q')" "r = Continue x"
    "sd_port t' = sd_port t" "sd_parent t' = (sd_parent t)\<lparr>sn_queue := q', sn_histories := put_history (sd_port t) (\<lambda>_. h') (sn_histories (sd_parent t))\<rparr>"
  using assms that
  by (auto simp: history_step_def thread_history_def getTransferHistory_def andThen_def upd_history_put upd_sender_def sender_update_order
      split: option.splits)

text \<open>From the source taken to the source in the history.\<close>

lemma sent_block_books:
  assumes e: "orderly e" and n: "take_source e k t = Ok (Continue (Some (s, c)), t1)" and ok: "\<not> hasError s"
    and sent: "sendOneByteSource V e c s t1 = Ok (stats, s1, t2)"
    and added: "history_step (addSource (closeSource (addTransferStats stats s1))) (on_stats (\<lambda>st. plusStats st stats) t2) = Ok (r, t3)"
  shows "fair_to t t3"
proof -
  let ?p = "sd_parent t" and ?p1 = "sd_parent t1" and ?p2 = "sd_parent t2" and ?p3 = "sd_parent t3"
  note T = take_source_moves [OF e n] and C = sendOneByteSource_charged [OF e sent]
  let ?g = "\<lambda>h. h\<lparr>h_threadStats := plusStats (h_threadStats h) stats\<rparr>"
  have p: "sd_parent (on_stats (\<lambda>st. plusStats st stats) t2) = ?p2\<lparr>sn_histories := put_history (sd_port t2) ?g (sn_histories ?p2)\<rparr>"
    "sd_port (on_stats (\<lambda>st. plusStats st stats) t2) = sd_port t2" by (simp_all add: on_stats_def upd_history_put)
  let ?q2 = "?p2\<lparr>sn_histories := put_history (sd_port t2) ?g (sn_histories ?p2)\<rparr>"
  obtain h0 x h' q' where h0: "map_of (sn_histories ?q2) (sd_port t2) = Some h0" "addSource (closeSource (addTransferStats stats s1)) h0 (sn_queue ?q2) = Ok (x, h', q')"
      "sd_port t3 = sd_port t2" "?p3 = ?q2\<lparr>sn_queue := q', sn_histories := put_history (sd_port t2) (\<lambda>_. h') (sn_histories ?q2)\<rparr>"
    by (rule history_step_Ok [OF added, unfolded p])
  then obtain h where h: "map_of (sn_histories ?p2) (sd_port t2) = Some h" "addSource (closeSource (addTransferStats stats s1)) (?g h) (sn_queue ?p2) = Ok (x, h', q')"
      "sd_port t3 = sd_port t2" "?p3 = ?p2\<lparr>sn_queue := q', sn_histories := put_history (sd_port t2) (\<lambda>_. h') (sn_histories ?p2)\<rparr>"
    by (auto simp: put_history_get sender_update_order)
  have "moves (\<lambda>_. 0) 0 ?p ?p3" if reg: "regular ?p"
  proof -
    have m1: "moves (\<lambda>f. f (bs_stats s)) (claim s) ?p ?p1" "plain_source s" "ts_localErrCode (bs_stats s) = OK" "bs_bytesRead s = 0"
      using T(4) [OF refl reg] by blast+
    have m2: "moves (\<lambda>_. 0) 0 ?p1 ?p2" using C(1) moves_regular [OF reg m1(1)] by (simp add: fair_to_def keeps_books_def)
    have "source_sent s1 stats" using C(3) [OF ok m1(4,3)] .
    from block_added_moves [OF moves_regular [OF moves_regular [OF reg m1(1)] m2] h(1) C(2) m1(2) this h(2)]
    have m3: "moves (\<lambda>f. - f (bs_stats s)) (- claim s) ?p2 ?p3" unfolding h(4) .
    show ?thesis using moves_trans [OF moves_trans [OF m1(1) m2] m3] by simp
  qed
  moreover have "sd_port t3 = sd_port t" using T(1) C(1) h(3) by (simp add: fair_to_def)
  ultimately show ?thesis by (simp add: fair_to_def keeps_books_def)
qed

lemma sendBlocks_keeps:
  assumes "orderly e"
  shows "keeps (\<lambda>st. st \<noteq> READ_FILE_CHUNKS) t (sendBlocks V e t)"
proof -
  let ?P = "\<lambda>st. st \<noteq> READ_FILE_CHUNKS"
  let ?next = "\<lambda>stats added. (if \<not> added then stop_with CONN_ERROR END
    else goto (if ts_localErrCode stats \<noteq> OK then CHECK_FOR_ABORT else SEND_BLOCKS) :: (unit, 'a) sender_op)"
  define body where "body = (\<lambda>r :: (ByteSource \<times> ErrorCode) option. case r of
               None \<Rightarrow> andThen (readHeartBeats V e) (\<lambda>_. goto SEND_DONE_CMD)
             | Some (source, transferStatus) \<Rightarrow>
                 (\<lambda>t1.
                   if hasError source then Abort
                   else outcome_bind (sendOneByteSource V e transferStatus source t1) (\<lambda>(transferStats, s1, t2).
                          andThen (history_step (addSource (closeSource (addTransferStats transferStats s1)))) (?next transferStats)
                          (on_stats (\<lambda>s. plusStats s transferStats) t2))))"
  have "keeps ?P t (andThen (take_source e k) body t)" for k
  proof (cases "take_source e k t")
    case (Ok y)
    obtain r t1 where y: "y = (r, t1)" by fastforce
    note T = take_source_moves [OF assms Ok [unfolded y]]
    obtain x where x: "r = Continue x" using T(3) by (cases r) auto
    show ?thesis
    proof (cases x)
      case None
      have "keeps ?P t1 (andThen (readHeartBeats V e) (\<lambda>_. goto SEND_DONE_CMD) t1)" by (auto intro!: keeping)
      moreover have "fair_to t t1" using T(1,2) x None by (simp add: fair_to_def)
      ultimately show ?thesis using keeps_from Ok y x None by (simp add: andThen_Continue body_def)
    next
      case (Some a)
      obtain s c where a: "a = (s, c)" by fastforce
      have "fair_to t t' \<and> (\<forall>st. r' = Return st \<longrightarrow> ?P st)" if eq: "body x t1 = Ok (r', t')" for r' t'
      proof -
        obtain stats s1 t2 where s: "\<not> hasError s" "sendOneByteSource V e c s t1 = Ok (stats, s1, t2)"
          "andThen (history_step (addSource (closeSource (addTransferStats stats s1)))) (?next stats) (on_stats (\<lambda>s. plusStats s stats) t2) = Ok (r', t')"
          using eq Some a by (auto simp: body_def split: if_splits)
        obtain ra t3 where h: "(history_step (addSource (closeSource (addTransferStats stats s1))) :: (bool, 'a) sender_op) (on_stats (\<lambda>s. plusStats s stats) t2) = Ok (ra, t3)"
          using s(3) by (auto simp: andThen_def)
        obtain added where added: "ra = Continue added" using history_step_Ok [OF h] by metis
        have "keeps ?P t3 (?next stats added t3)" by (auto intro!: keeping)
        then have "fair_to t3 t' \<and> (\<forall>st. r' = Return st \<longrightarrow> ?P st)" using s(3) h added by (simp add: andThen_Continue keeps_def)
        moreover have "fair_to t t3" using sent_block_books [OF assms _ s(1,2) h] Ok y x Some a by blast
        ultimately show ?thesis using fair_to_trans by blast
      qed
      then show ?thesis using Ok y x by (simp add: andThen_Continue keeps_def)
    qed
  qed (simp_all add: andThen_def)
  then show ?thesis unfolding sendBlocks_def body_def [symmetric] by (auto intro!: keeping)
qed

subsection \<open>Checkpoints of other threads\<close>

lemma update_put_history:
  "distinct (map fst hs) \<Longrightarrow> map_of hs k = Some h \<Longrightarrow> AList.update k h' hs = put_history k (\<lambda>_. h') hs"
proof (induction hs)
  case (Cons x hs)
  show ?case
  proof (cases "fst x = k")
    case True
    then have "map_of hs k = None" using Cons.prems(1) by (auto simp: map_of_eq_None_iff)
    then have "put_history k (\<lambda>_. h') hs = hs" by (rule put_history_none)
    then show ?thesis using True by (cases x) (simp add: put_history_def)
  next
    case False
    then show ?thesis using Cons by (cases x) (simp add: put_history_def)
  qed
qed simp

lemma handleGlobalCheckpoint_books:
  assumes "handleGlobalCheckpoint cp (sn_histories p) (sn_queue p) = Ok (hs, q)"
  shows "keeps_books p (p\<lparr>sn_histories := hs, sn_queue := q\<rparr>)"
proof (cases "map_of (sn_histories p) (cp_port cp)")
  case None
  then have "hs = sn_histories p" "q = sn_queue p" using assms by (simp_all add: handleGlobalCheckpoint_def)
  then show ?thesis by (intro moves_same) simp_all
next
  case (Some h)
  then obtain e h' where a: "setCheckpointAndReturnToQueue cp True h (sn_queue p) = Ok (e, h', q)" "hs = AList.update (cp_port cp) h' (sn_histories p)"
    using assms by (auto simp: handleGlobalCheckpoint_def setGlobalCheckpoint_def split: outcome.splits)
  have "moves (\<lambda>_. 0) 0 p (p\<lparr>sn_queue := q, sn_histories := hs\<rparr>)" if "regular p"
  proof -
    have "distinct (map fst (sn_histories p))" using that by (simp add: regular_def)
    then show ?thesis unfolding a(2) update_put_history [OF _ Some] using fair_moves [OF that Some checkpoint_fair [OF a(1)]] by (simp add: update_put_history [OF _ Some])
  qed
  then show ?thesis by (simp add: keeps_books_def sender_update_order)
qed

lemma handle_checkpoints_books: "handle_checkpoints cs p = Ok p' \<Longrightarrow> keeps_books p p'"
proof (induction cs arbitrary: p)
  case (Cons c cs)
  then show ?case using handleGlobalCheckpoint_books keeps_books_trans by fastforce
qed simp

text \<open>A roll-back of all histories, one after the other.\<close>

definition fair_all :: "histories \<Rightarrow> DirectorySourceQueue \<Rightarrow> histories \<Rightarrow> DirectorySourceQueue \<Rightarrow> bool" where
  "fair_all hs q hs' q' \<longleftrightarrow> map fst hs' = map fst hs \<and>
     (\<forall>f \<in> counters. threads_sum f (map snd hs') - queue_sum f q' - histories_sum (\<lambda>s. f (bs_stats s)) (map snd hs') =
        threads_sum f (map snd hs) - queue_sum f q - histories_sum (\<lambda>s. f (bs_stats s)) (map snd hs)) \<and>
     src_sum claim (q_sourceQueue q') + histories_sum credit (map snd hs') = src_sum claim (q_sourceQueue q) + histories_sum credit (map snd hs) \<and>
     ((\<forall>s \<in> set (q_sourceQueue q) \<union> (\<Union>h \<in> snd ` set hs. set (h_history h)). plain_source s) \<longrightarrow>
      (\<forall>s \<in> set (q_sourceQueue q') \<union> (\<Union>h \<in> snd ` set hs'. set (h_history h)). plain_source s)) \<and>
     q_failedSourceStats q' = q_failedSourceStats q \<and> q_totalFileSize q' = q_totalFileSize q"

lemma fair_all_Cons:
  assumes f: "fair h q h' q1" and r: "fair_all hs q1 hs' q'"
  shows "fair_all ((port, h) # hs) q ((port, h') # hs') q'"
proof -
  have "threads_sum f (map snd ((port, h') # hs')) - queue_sum f q' - histories_sum (\<lambda>s. f (bs_stats s)) (map snd ((port, h') # hs')) =
      threads_sum f (map snd ((port, h) # hs)) - queue_sum f q - histories_sum (\<lambda>s. f (bs_stats s)) (map snd ((port, h) # hs))" if "f \<in> counters" for f
    using bspec [OF conjunct1 [OF f [unfolded fair_def]] that] bspec [OF conjunct1 [OF conjunct2 [OF r [unfolded fair_all_def]]] that]
    by (simp add: threads_sum_def histories_sum_def)
  moreover have "src_sum claim (q_sourceQueue q') + histories_sum credit (map snd ((port, h') # hs')) =
      src_sum claim (q_sourceQueue q) + histories_sum credit (map snd ((port, h) # hs))"
    using f r by (simp add: fair_def fair_all_def histories_sum_def)
  moreover have "\<forall>s \<in> set (q_sourceQueue q') \<union> (\<Union>k \<in> snd ` set ((port, h') # hs'). set (h_history k)). plain_source s"
    if "\<forall>s \<in> set (q_sourceQueue q) \<union> (\<Union>k \<in> snd ` set ((port, h) # hs). set (h_history k)). plain_source s"
  proof -
    have "\<forall>s \<in> set (q_sourceQueue q1) \<union> set (h_history h'). plain_source s" using fair_plain [OF f] that by auto
    moreover have "\<forall>s \<in> (\<Union>k \<in> snd ` set hs. set (h_history k)). plain_source s" using that by simp
    ultimately have "\<forall>s \<in> set (q_sourceQueue q1) \<union> (\<Union>k \<in> snd ` set hs. set (h_history k)). plain_source s" "\<forall>s \<in> set (h_history h'). plain_source s" by auto
    moreover have "(\<forall>s \<in> set (q_sourceQueue q1) \<union> (\<Union>k \<in> snd ` set hs. set (h_history k)). plain_source s) \<longrightarrow>
      (\<forall>s \<in> set (q_sourceQueue q') \<union> (\<Union>k \<in> snd ` set hs'. set (h_history k)). plain_source s)" using r unfolding fair_all_def by blast
    ultimately show ?thesis by auto
  qed
  moreover have "map fst hs' = map fst hs" "q_failedSourceStats q' = q_failedSourceStats q" "q_totalFileSize q' = q_totalFileSize q"
    using f r unfolding fair_def fair_all_def by argo+
  ultimately show ?thesis unfolding fair_all_def by auto
qed

lemma handleVersionMismatch_fair: "handleVersionMismatch hs q = Ok (e, hs', q') \<Longrightarrow> fair_all hs q hs' q'"
proof (induction hs q arbitrary: hs' rule: handleVersionMismatch.induct)
  case (1 q)
  then show ?case by (simp add: fair_all_def)
next
  case (2 port h hs q)
  show ?case
  proof (cases "h_numAcknowledged h > 0")
    case True
    then show ?thesis using 2(2) by (auto simp: fair_all_def)
  next
    case False
    then obtain h1 q1 hs1 where r: "returnUnackedSourcesToQueue h q = Ok (h1, q1)" "handleVersionMismatch hs q1 = Ok (e, hs1, q')" "hs' = (port, h1) # hs1"
      using 2(2) by (auto split: outcome.splits)
    have "fair h q h1 q1" using r(1) by (auto simp: returnUnackedSourcesToQueue_def dest: checkpoint_fair split: outcome.splits)
    then show ?thesis using fair_all_Cons 2(1) [OF False r(1) refl r(2)] r(3) by blast
  qed
qed

lemma fair_all_books:
  assumes "fair_all (sn_histories p) (sn_queue p) hs q"
  shows "keeps_books p (p\<lparr>sn_histories := hs, sn_queue := q\<rparr>)"
proof -
  let ?p = "p\<lparr>sn_histories := hs, sn_queue := q\<rparr>"
  have "imbalance f ?p = imbalance f p" if "f \<in> counters" for f
    using bspec [OF conjunct1 [OF conjunct2 [OF assms [unfolded fair_all_def]]] that] by (simp add: imbalance_def)
  then show ?thesis using assms
    by (auto simp: keeps_books_def regular_def moves_def fair_all_def lost_def deficit_def all_plain_def)
qed

subsection \<open>All states\<close>

abbreviation no_chunks :: "SenderState \<Rightarrow> bool" where
  "no_chunks st \<equiv> st \<noteq> READ_FILE_CHUNKS"

lemma keeps_checkpoint [keeping]: "keeps P t (decode_own_checkpoint n t)"
  by (auto simp: decode_own_checkpoint_def intro!: stays_Ok split: prod.split outcome.split list.split)

lemma keeps_acknowledge [keeping]: "keeps P t (acknowledge_all t)"
  unfolding acknowledge_all_def by (rule keeps_history_step) (auto simp: fair_def markAllAcknowledged_def)

lemma keeps_local_checkpoint [keeping]: "keeps P t (history_step (setLocalCheckpoint cp) t)"
  by (rule keeps_history_step) (auto simp: setLocalCheckpoint_def dest: checkpoint_fair)

lemma connect_attempts_keeps [keeping]: "orderly e \<Longrightarrow> fair_to t t0 \<Longrightarrow> keeps P t (connect_attempts V e n t0)"
proof (induction n arbitrary: t t0)
  case 0
  then show ?case by (auto intro!: keeping)
next
  case (Suc n)
  then show ?case by (auto intro!: keeping)
qed

lemma connectToReceiver_keeps [keeping]: "orderly e \<Longrightarrow> fair_to t t0 \<Longrightarrow> keeps P t (connectToReceiver V e t0)"
  unfolding connectToReceiver_def Let_def by (auto intro!: keeping simp del: connect_attempts.simps split: option.split)

lemma connect_keeps: "orderly e \<Longrightarrow> keeps no_chunks t (connect V e t)"
  unfolding connect_def resetSender_def Let_def by (auto intro!: keeping split: if_splits)

lemma readLocalCheckPoint_keeps: "keeps no_chunks t (readLocalCheckPoint V t)"
  unfolding readLocalCheckPoint_def Let_def by (auto intro!: keeping split: option.split)

lemma sendSettings_keeps: "\<not> sn_downloadResumptionEnabled (sd_parent t) \<Longrightarrow> keeps no_chunks t (sendSettings V e t)"
  unfolding sendSettings_def isSendFileChunks_def Let_def by (auto intro!: keeping)

lemma sendSizeCmd_keeps: "keeps no_chunks t (sendSizeCmd V t)"
  unfolding sendSizeCmd_def by (auto intro!: keeping)

lemma sendDoneCmd_keeps: "keeps no_chunks t (sendDoneCmd V t)"
  unfolding sendDoneCmd_def Let_def by (auto intro!: keeping split: prod.split)

lemma checkForAbort_keeps: "keeps no_chunks t (checkForAbort V t)"
  unfolding checkForAbort_def by (auto intro!: keeping)

lemma readAndVerify_keeps [keeping]: "fair_to t t0 \<Longrightarrow> keeps P t (readAndVerifySpuriousCheckpoint V t0)"
  unfolding readAndVerifySpuriousCheckpoint_def Let_def by (auto intro!: keeping split: option.split)

lemma after_spurious_keeps [keeping]: "fair_to t t0 \<Longrightarrow> P CONNECT \<Longrightarrow> P END \<Longrightarrow> P st \<Longrightarrow> keeps P t (after_spurious st c t0)"
  unfolding after_spurious_def by (auto intro!: keeping)

lemma read_cmd_loop_keeps [keeping]: "orderly e \<Longrightarrow> fair_to t t0 \<Longrightarrow> keeps P t (read_cmd_loop V e n k t0)"
proof (induction n arbitrary: t t0 k)
  case (Suc n)
  then show ?case by (auto intro!: keeping)
qed simp

lemma readReceiverCmd_keeps: "orderly e \<Longrightarrow> keeps no_chunks t (readReceiverCmd V e t)"
  unfolding readReceiverCmd_def readNextReceiverCmd_def Let_def by (auto intro!: keeping simp del: read_cmd_loop.simps)

lemma processDoneCmd_keeps: "keeps no_chunks t (processDoneCmd V t)"
  unfolding processDoneCmd_def by (auto intro!: keeping)

lemma processWaitCmd_keeps: "keeps no_chunks t (processWaitCmd t)"
  unfolding processWaitCmd_def by (auto intro!: keeping)

lemma processErrCmd_keeps: "keeps no_chunks t (processErrCmd V t)"
  unfolding processErrCmd_def Let_def by (auto intro!: keeping handle_checkpoints_books simp: fair_to_def split: prod.split outcome.split)

lemma books_same [simp]:
  "keeps_books p (abort_sender c p)" "keeps_books p (clearAbort p)" "keeps_books p (set_barrier b p)" "keeps_books p (set_sender_funnel f p)"
  "keeps_books p (p\<lparr>sn_negotiatedProtocols := vs\<rparr>)" "keeps_books p (p\<lparr>sn_negotiation := n\<rparr>)" "keeps_books p (p\<lparr>sn_protocolVersion := v\<rparr>)"
  "keeps_books p (clearAbort (p\<lparr>sn_negotiation := n\<rparr>))"
  by (intro moves_same; simp add: abort_sender_def clearAbort_def set_barrier_def set_sender_funnel_def)+

lemma fair_to_parent: "fair_to t t0 \<Longrightarrow> keeps_books (sd_parent t0) p \<Longrightarrow> fair_to t (t0\<lparr>sd_parent := p\<rparr>)"
  by (auto simp: fair_to_def intro: keeps_books_trans)

lemma processAbortCmd_keeps: "keeps no_chunks t (processAbortCmd V t)"
  unfolding processAbortCmd_def Let_def by (auto intro!: keeping split: prod.split outcome.split simp: fair_to_upd_sender)

lemma wait_at_barrier_keeps [keeping]: "orderly e \<Longrightarrow> fair_to t t0 \<Longrightarrow> keeps P t (wait_at_barrier e n t0)"
proof (induction n arbitrary: t t0)
  case (Suc n)
  then show ?case by (auto intro!: keeping)
qed simp

lemma execute_barrier_keeps [keeping]: "orderly e \<Longrightarrow> fair_to t t0 \<Longrightarrow> keeps P t (execute_barrier e t0)"
  unfolding execute_barrier_def by (auto intro!: keeping simp: fair_to_upd_sender simp del: wait_at_barrier.simps)

lemma resolve_mismatch_keeps:
  assumes t0: "fair_to t t0" and P: "P END" "P CONNECT"
  shows "keeps P t (resolve_mismatch e t0)"
proof -
  let ?p = "(sd_parent t0)\<lparr>sn_negotiation := V_MISMATCH_FAILED\<rparr>"
  have p: "fair_to t (t0\<lparr>sd_parent := ?p\<lparr>sn_histories := hs, sn_queue := q\<rparr>\<rparr>)"
    if "handleVersionMismatch (sn_histories ?p) (sn_queue ?p) = Ok (c, hs, q)" for c hs q
    using fair_all_books [of ?p, OF handleVersionMismatch_fair [OF that]] keeps_books_trans [OF books_same(6)] by (intro fair_to_parent t0)
  show ?thesis unfolding resolve_mismatch_def Let_def setFooterType_def
    by (rule stays_bind) (use p P in \<open>auto intro!: keeping simp: fair_to_upd_sender split: option.split\<close>)
qed

lemma mismatch_funnel_keeps: "orderly e \<Longrightarrow> fair_to t t0 \<Longrightarrow> keeps no_chunks t (mismatch_funnel e n t0)"
proof (induction n arbitrary: t t0)
  case (Suc n)
  then show ?case by (auto intro!: keeping resolve_mismatch_keeps simp: fair_to_upd_sender Let_def split: prod.split FunnelStatus.split ProtoNegotiationStatus.split)
qed simp

lemma processVersionMismatch_keeps: "orderly e \<Longrightarrow> keeps no_chunks t (processVersionMismatch e t)"
  unfolding processVersionMismatch_def
  by (auto intro!: keeping mismatch_funnel_keeps simp del: mismatch_funnel.simps split: ProtoNegotiationStatus.split)

text \<open>Every state but the reading of file chunks, which is not reached without resumption.\<close>

lemma run_sender_state_keeps:
  assumes "orderly e" "\<not> sn_downloadResumptionEnabled (sd_parent t)" "no_chunks st"
  shows "keeps no_chunks t (run_sender_state V e st t)"
proof (cases st)
  case END
  then show ?thesis by (auto intro!: keeping)
qed (use assms connect_keeps readLocalCheckPoint_keeps sendSettings_keeps sendBlocks_keeps sendDoneCmd_keeps sendSizeCmd_keeps checkForAbort_keeps
  readReceiverCmd_keeps processDoneCmd_keeps processWaitCmd_keeps processErrCmd_keeps processAbortCmd_keeps processVersionMismatch_keeps in simp_all)

lemma fair_to_regular: "fair_to t t' \<Longrightarrow> regular (sd_parent t) \<Longrightarrow> regular (sd_parent t')"
  using moves_regular by (auto simp: fair_to_def keeps_books_def)

lemma sender_machine_keeps:
  assumes e: "orderly e"
  shows "regular (sd_parent t) \<Longrightarrow> no_chunks st \<Longrightarrow> sender_machine V e n st t = Ok t' \<Longrightarrow> fair_to t t'"
proof (induction n arbitrary: st t)
  case (Suc n)
  show ?case
  proof (cases "st = END")
    case False
    obtain r t1 where a: "(getThreadAbortCode e :: ('a SenderThread, unit, ErrorCode) thread_op) t = Ok (r, t1)"
      using Suc.prems(3) False by (auto simp: Let_def)
    define code where "code = (case r of Continue c \<Rightarrow> c | Return () \<Rightarrow> OK)"
    define t2 where "t2 = (if code \<noteq> OK then on_stats (setLocalErrorCode ABORT) t1 else t1)"
    define st2 where "st2 = (if code = VERSION_MISMATCH then PROCESS_VERSION_MISMATCH else st)"
    have "keeps (\<lambda>_. True) t ((getThreadAbortCode e :: ('a SenderThread, unit, ErrorCode) thread_op) t)" by (intro keeping e fair_to_refl)
    then have t2: "fair_to t t2" using a by (simp add: keeps_def t2_def)
    show ?thesis
    proof (cases "code \<noteq> OK \<and> code \<noteq> VERSION_MISMATCH")
      case True
      then have "t' = t2" using Suc.prems(3) False a by (simp add: Let_def t2_def flip: code_def)
      then show ?thesis using t2 by simp
    next
      case go: False
      then obtain r2 t3 where r2: "run_sender_state V e st2 t2 = Ok (r2, t3)" "(case r2 of Return st' \<Rightarrow> sender_machine V e n st' t3 | Continue _ \<Rightarrow> Abort) = Ok t'"
        using Suc.prems(3) False a by (auto simp: Let_def t2_def st2_def simp flip: code_def)
      then obtain st3 where st3: "r2 = Return st3" "sender_machine V e n st3 t3 = Ok t'" by (cases r2) auto
      have reg: "regular (sd_parent t2)" using fair_to_regular [OF t2 Suc.prems(1)] .
      then have "keeps no_chunks t2 (run_sender_state V e st2 t2)"
        using Suc.prems(2) by (intro run_sender_state_keeps e) (auto simp: st2_def regular_def)
      then have t3: "fair_to t2 t3" "no_chunks st3" using r2(1) st3(1) by (simp_all add: keeps_def)
      then show ?thesis using Suc.IH [OF fair_to_regular [OF t3(1) reg] t3(2) st3(2)] t2 fair_to_trans by blast
    qed
  qed (use Suc.prems in simp)
qed simp

section \<open>The books at every point\<close>

definition in_balance :: "Sender \<Rightarrow> bool" where
  "in_balance p \<longleftrightarrow> regular p \<and> (\<forall>f \<in> counters. imbalance f p = 0) \<and> (\<not> lost p \<longrightarrow> deficit p = 0)"

abbreviation system_of :: "Sender \<Rightarrow> sender_system" where
  "system_of p \<equiv> \<lparr>sys_queue = sn_queue p, sys_threads = all_histories p\<rparr>"

lemma in_balance_books:
  assumes "in_balance p"
  shows "balanced (system_of p) \<and> covered_total (system_of p)"
proof -
  have "threads_sum f (all_histories p) = queue_sum f (sn_queue p) + histories_sum (\<lambda>s. f (bs_stats s)) (all_histories p)" if "f \<in> counters" for f
    using bspec [OF conjunct1 [OF conjunct2 [OF assms [unfolded in_balance_def]]] that] by (simp add: imbalance_def)
  then show ?thesis using assms by (auto simp: balanced_def covered_total_def in_balance_def regular_def all_plain_def lost_def deficit_def)
qed

lemma keeps_books_balance: "keeps_books p p' \<Longrightarrow> in_balance p \<Longrightarrow> in_balance p'"
  using moves_regular [of p "\<lambda>_. 0" 0 p'] by (simp add: keeps_books_def in_balance_def moves_def)

text \<open>A transfer starts in balance.\<close>

lemma start_in_balance:
  assumes "sender_start (system_of p)" "distinct (map fst (sn_histories p))" "\<not> sn_downloadResumptionEnabled p"
  shows "in_balance p"
proof -
  have "balanced (system_of p)" "covered_total (system_of p)" using sender_start_books [OF assms(1)] by blast+
  then show ?thesis using assms(2,3)
    by (auto simp: in_balance_def regular_def all_plain_def imbalance_def lost_def deficit_def balanced_def covered_total_def)
qed

text \<open>C6: One state of a sender thread, whatever the receiver sends, whatever sockets, files and clocks do and
  whatever other threads do in between that keep the books as this thread does. It keeps the books: the checks of
  \<open>validateTransferStats\<close> hold afterwards, and unless a source was lost every announced byte is credited to a
  thread, queued, or owed by a failed source of a history. Without resumption the thread does not go to the
  state that reads file chunks.\<close>

theorem sender_state_books:
  assumes "orderly e" "in_balance (sd_parent t)" "st \<noteq> READ_FILE_CHUNKS" "run_sender_state V e st t = Ok (r, t')"
  shows "r \<noteq> Return READ_FILE_CHUNKS \<and> in_balance (sd_parent t') \<and> keeps_books (sd_parent t) (sd_parent t') \<and>
    validateTransferStats (concat (map (\<lambda>h. map bs_stats (rev (h_history h))) (all_histories (sd_parent t'))))
      (fst (getFailedSourceStats (sn_queue (sd_parent t')))) (map h_threadStats (all_histories (sd_parent t'))) \<and>
    (q_failedSourceStats (sn_queue (sd_parent t')) = [] \<longrightarrow>
       threads_sum ts_effectiveDataBytes (all_histories (sd_parent t')) + src_sum bs_size (q_sourceQueue (sn_queue (sd_parent t')))
         + histories_sum owed (all_histories (sd_parent t')) = q_totalFileSize (sn_queue (sd_parent t')))"
proof -
  have "keeps no_chunks t (run_sender_state V e st t)"
    using assms(1-3) by (intro run_sender_state_keeps) (simp_all add: in_balance_def regular_def)
  then have k: "r \<noteq> Return READ_FILE_CHUNKS" "keeps_books (sd_parent t) (sd_parent t')" using assms(4) by (auto simp: keeps_def fair_to_def)
  have b: "in_balance (sd_parent t')" using keeps_books_balance [OF k(2) assms(2)] .
  show ?thesis using k b in_balance_books [OF b] balanced_validates threads_effective by blast
qed


subsection \<open>A broken connection\<close>

text \<open>A socket on which every write and read fails, and two threads that share a queue of one block.\<close>

definition broken_socket :: "unit IClientSocket" where
  "broken_socket =
     \<lparr>ci_connect = (\<lambda>s. Ok (CONN_ERROR, s)), ci_read = (\<lambda>n full s. Ok (None, s)), ci_readWithTimeout = (\<lambda>n ms s. Ok (None, s)),
      ci_write = (\<lambda>bs retry s. Ok (-1, s)), ci_shutdownWrites = (\<lambda>s. (OK, s)), ci_expectEndOfStream = (\<lambda>s. (OK, s)), ci_closeNoCheck = (\<lambda>s. s),
      ci_nonRetryableErrCode = (\<lambda>s. OK), ci_readErrCode = (\<lambda>s. SOCKET_READ_ERROR), ci_unackedBytes = (\<lambda>s. (0, s)), ci_encryptionType = (\<lambda>s. ENC_NONE)\<rparr>"

definition broken_env :: "unit sender_env" where
  "broken_env =
     \<lparr>xe_options = \<lparr>op_max_retries = 1, op_max_transfer_retries = 3, op_read_timeout_millis = 5000, op_write_timeout_millis = 5000,
        op_drain_extra_ms = 500, op_enable_heart_beat = False, op_enable_checksum = False, op_block_size_mbytes = 16\<rparr>,
      xe_fuel = 1, xe_ivChangeInterval = 0, xe_makeSocket = (\<lambda>k port iv. None), xe_heartBeatDue = (\<lambda>k. False), xe_queue = (\<lambda>k. example_env),
      xe_pread = (\<lambda>k fd n pos. None), xe_clearTime = (\<lambda>k. 0), xe_others = (\<lambda>k p. p), xe_throttled = False, xe_crc32c = (\<lambda>bs c. 0)\<rparr>"

definition broken_parent :: Sender where
  "broken_parent =
     \<lparr>sn_queue = sys_queue example_start, sn_histories = [(1, newHistory newStats 1), (2, newHistory newStats 2)], sn_controller = newController 2,
      sn_protocolVersion = 30, sn_transferId = [], sn_downloadResumptionEnabled = False, sn_fileChunksReceived = False,
      sn_negotiation = V_MISMATCH_WAIT, sn_negotiatedProtocols = [-1, -1], sn_abortCode = OK, sn_tls = False, sn_started = 1, sn_ended = 0\<rparr>"

definition broken_thread :: "unit SenderThread" where
  "broken_thread =
     \<lparr>sd_socket = Some (), sd_index = 0, sd_port = 1, sd_buf = replicate 300 0, sd_totalSizeSent = True, sd_numReconnectWithoutProgress = 0,
      sd_threadProtocolVersion = 30, sd_footerType = NO_FOOTER, sd_enableHeartBeat = False, sd_parent = broken_parent, sd_tick = 0\<rparr>"

lemma broken_in_balance: "in_balance (sd_parent broken_thread)"
proof (rule start_in_balance)
  have "system_of broken_parent = example_start" by (simp add: broken_parent_def example_start_def example_threads_def)
  then show "sender_start (system_of (sd_parent broken_thread))" using example_start_ok by (simp add: broken_thread_def)
qed (simp_all add: broken_thread_def broken_parent_def)

lemma broken_orderly: "orderly broken_env"
  by (simp add: orderly_def broken_env_def)

lemma broken_send:
  "case run_sender_state broken_socket broken_env SEND_BLOCKS broken_thread of
     Ok (Return st, t') \<Rightarrow> st = CHECK_FOR_ABORT \<and> list_all (\<lambda>h. h_history h = [] \<or> histories_sum owed [h] = 5) (all_histories (sd_parent t')) |
     _ \<Rightarrow> False"
  by code_simp

lemma broken_run:
  "case sender_machine broken_socket broken_env 4 SEND_BLOCKS broken_thread of
     Ok t' \<Rightarrow> map (\<lambda>h. getErrorCode (h_threadStats h)) (all_histories (sd_parent t')) = [ERROR, OK] | _ \<Rightarrow> False"
  by code_simp

theorem sender_state_books_witness:
  "\<exists>t'. run_sender_state broken_socket broken_env SEND_BLOCKS broken_thread = Ok (Return CHECK_FOR_ABORT, t') \<and> in_balance (sd_parent t') \<and>
     validateTransferStats (concat (map (\<lambda>h. map bs_stats (rev (h_history h))) (all_histories (sd_parent t'))))
       (fst (getFailedSourceStats (sn_queue (sd_parent t')))) (map h_threadStats (all_histories (sd_parent t')))"
proof -
  obtain r t' where r: "run_sender_state broken_socket broken_env SEND_BLOCKS broken_thread = Ok (r, t')"
    using broken_send by (auto split: outcome.splits)
  then have t': "run_sender_state broken_socket broken_env SEND_BLOCKS broken_thread = Ok (Return CHECK_FOR_ABORT, t')"
    using broken_send by (cases r) simp_all
  from sender_state_books [OF broken_orderly broken_in_balance _ t'] t' show ?thesis by simp
qed


end
