(* ===== verification/Receiver_Safety.thy ===== *)
theory Receiver_Safety
  imports Receiver_Thread
begin

text \<open>
  What a receiver thread does to files when nothing is known about its peer: for every sequence of bytes, every socket,
  every answer of the system and whatever other threads do in between, a thread changes no file but those whose
  names its check of relative paths accepts.
\<close>

section \<open>Changes of files\<close>

definition confined :: "Receiver \<Rightarrow> Receiver \<Rightarrow> bool" where
  "confined p p' \<longleftrightarrow> (\<forall>f. rv_files p' f \<noteq> rv_files p f \<longrightarrow> isSafeRelativePath f)"

definition tame :: "'s ReceiverThread \<Rightarrow> 's ReceiverThread \<Rightarrow> bool" where
  "tame t t' \<longleftrightarrow> confined (rt_parent t) (rt_parent t')"

lemma confined_trans: "confined p p1 \<Longrightarrow> confined p1 p2 \<Longrightarrow> confined p p2"
  unfolding confined_def by metis

interpretation tame: kept_relation tame
  by unfold_locales (auto simp: tame_def confined_def intro: confined_trans [unfolded confined_def, rule_format])

abbreviation stays_tame :: "'s ReceiverThread \<Rightarrow> ((ReceiverState, 'a) step \<times> 's ReceiverThread) outcome \<Rightarrow> bool" where
  "stays_tame \<equiv> stays tame (\<lambda>_. True)"

named_theorems taming

declare stays_Ok [taming] stays_bind [taming] stays_simple [taming] tame.stays_andThen [taming]

lemma tame_update [simp]:
  "tame t (t'\<lparr>rt_socket := s\<rparr>) = tame t t'" "tame t (t'\<lparr>rt_buf := b\<rparr>) = tame t t'" "tame t (t'\<lparr>rt_numRead := i\<rparr>) = tame t t'"
  "tame t (t'\<lparr>rt_off := i\<rparr>) = tame t t'" "tame t (t'\<lparr>rt_oldOffset := i\<rparr>) = tame t t'" "tame t (t'\<lparr>rt_checkpointIndex := i\<rparr>) = tame t t'"
  "tame t (t'\<lparr>rt_pendingCheckpointIndex := i\<rparr>) = tame t t'" "tame t (t'\<lparr>rt_senderReadTimeout := i\<rparr>) = tame t t'"
  "tame t (t'\<lparr>rt_senderWriteTimeout := i\<rparr>) = tame t t'" "tame t (t'\<lparr>rt_isBlockMode := b'\<rparr>) = tame t t'" "tame t (t'\<lparr>rt_checkpoint := c\<rparr>) = tame t t'"
  "tame t (t'\<lparr>rt_curConnectionVerified := b'\<rparr>) = tame t t'" "tame t (t'\<lparr>rt_newCheckpoints := cs\<rparr>) = tame t t'"
  "tame t (t'\<lparr>rt_blocksWaitingVerification := bds\<rparr>) = tame t t'" "tame t (t'\<lparr>rt_threadStats := st\<rparr>) = tame t t'"
  "tame t (t'\<lparr>rt_threadProtocolVersion := i\<rparr>) = tame t t'" "tame t (t'\<lparr>rt_footerType := ft\<rparr>) = tame t t'"
  "tame t (t'\<lparr>rt_enableHeartBeat := b'\<rparr>) = tame t t'" "tame t (t'\<lparr>rt_writer := w\<rparr>) = tame t t'" "tame t (t'\<lparr>rt_tick := k\<rparr>) = tame t t'"
  by (simp_all add: tame_def)

lemma tame_parts [simp]:
  "tame t (upd_stats f t') = tame t t'" "tame t (upd_parent (add_log x) t') = tame t t'" "tame t (upd_parent (set_funnel fs) t') = tame t t'"
  "tame t (upd_parent (\<lambda>p. set_funnel fs (add_log x p)) t') = tame t t'" "tame t (upd_parent (addCheckpoint c) t') = tame t t'"
  "tame t (mark_thread st t') = tame t t'" "tame t (markBlockVerified e bd t') = tame t t'"
  by (simp_all add: tame_def confined_def upd_stats_def upd_parent_def add_log_def set_funnel_def addCheckpoint_def mark_thread_def
      markBlockVerified_def Let_def)

lemma tame_verified [simp]: "tame t (markReceivedBlocksVerified e t') = tame t t'"
proof -
  have "tame t (fold (markBlockVerified e) bds t1) = tame t t1" for bds t1 by (induction bds arbitrary: t1) simp_all
  then show ?thesis by (simp add: markReceivedBlocksVerified_def)
qed

section \<open>Reading and writing\<close>

abbreviation rt_files :: "'s ReceiverThread \<Rightarrow> string \<Rightarrow> nat \<Rightarrow> byte" where
  "rt_files t \<equiv> rv_files (rt_parent t)"

lemma tame_files: "rt_files t1 = rt_files t \<Longrightarrow> tame t0 t \<Longrightarrow> tame t0 t1"
  by (simp add: tame_def confined_def)

lemma verified_files: "rt_files (markReceivedBlocksVerified e t) = rt_files t"
proof -
  have "rt_files (markBlockVerified e bd t1) = rt_files t1" for bd and t1 :: "'a ReceiverThread"
    by (simp add: markBlockVerified_def Let_def upd_stats_def upd_parent_def add_log_def)
  then have "rt_files (fold (markBlockVerified e) bds t1) = rt_files t1" for bds and t1 :: "'a ReceiverThread"
    by (induction bds arbitrary: t1) simp_all
  then show ?thesis by (simp add: markReceivedBlocksVerified_def)
qed

lemma thread_read_files: "thread_read V e n full t = Ok (r, t') \<Longrightarrow> rt_files t' = rt_files t"
  by (auto simp: thread_read_def Let_def verified_files split: if_splits)

lemma read_at_least_files: "read_at_least_loop V e base mx least len t = Ok (r, t') \<Longrightarrow> rt_files t' = rt_files t"
proof (induction V e base mx least len t rule: read_at_least_loop.induct)
  case (1 V e base mx least len t)
  note unf = read_at_least_loop.simps [of V e base mx least len t]
  show ?case
  proof (cases "len \<ge> least")
    case True
    then show ?thesis using 1(2) unf by simp
  next
    case False
    then obtain x t1 where x: "thread_read V e (nat (mx - len)) False t = Ok (x, t1)"
      using 1(2) by (auto simp: unf)
    note T = thread_read_files [OF x]
    show ?thesis
    proof (cases "x = None \<or> x = Some []")
      case True
      then show ?thesis using 1(2) False x T unf by (auto split: if_splits)
    next
      case more: False
      then obtain d where d: "x = Some d" "d \<noteq> []" by auto
      then have "read_at_least_loop V e base mx least (len + int (length d)) (t1\<lparr>rt_buf := write_at (nat (base + len)) d (rt_buf t1)\<rparr>) = Ok (r, t')"
        using 1(2) False x unf by simp
      then show ?thesis using 1(1) [OF False d] T by simp
    qed
  qed
qed

lemma tame_fill [taming]: "tame t t0 \<Longrightarrow> stays_tame t (fill_buffer V e base least t0)"
  unfolding fill_buffer_def readAtLeast_def by (rule stays_bind) (auto intro!: stays_Ok elim: tame_files [OF read_at_least_files] split: if_splits)

lemma tame_readAtMost [taming]: "tame t t0 \<Longrightarrow> stays_tame t (readAtMost V e most t0)"
  unfolding readAtMost_def Let_def by (rule stays_bind) (auto intro!: stays_Ok elim: tame_files [OF thread_read_files] split: option.splits)

lemma tame_env [taming]: "tame t t0 \<Longrightarrow> stays_tame t (ask_env q t0)" "tame t t0 \<Longrightarrow> stays_tame t (next_byte t0)"
  by (simp_all add: ask_env_def next_byte_def stays_def)

lemma tame_write [taming]: "tame t t0 \<Longrightarrow> stays_tame t (thread_write V bs t0)"
  unfolding thread_write_def by (auto intro!: taming)

lemma tame_codec [taming]: "tame t t0 \<Longrightarrow> stays_tame t (decode_buffer dec mx t0)" "tame t t0 \<Longrightarrow> stays_tame t (encode_at enc mx off t0)"
  unfolding decode_buffer_def encode_at_def by (auto simp: stays_def split: prod.split outcome.split)

lemma tame_write_buffer [taming]: "tame t t0 \<Longrightarrow> stays_tame t (write_buffer V len t0)"
  unfolding write_buffer_def by (rule tame_write)

lemma tame_fail [taming]: "tame t t0 \<Longrightarrow> stays_tame t (fail_with c st t0)"
  by (simp add: fail_with_def goto_def stays_def)

lemma tame_heart_beat [taming]: "tame t t0 \<Longrightarrow> stays_tame t (sendHeartBeat V e t0)"
  unfolding sendHeartBeat_def by (auto intro!: taming)

section \<open>Blocks\<close>

lemma tame_store_writer [simp]: "isSafeRelativePath (bd_fileName bd) \<Longrightarrow> tame t t0 \<Longrightarrow> tame t (store_writer bd w t0)"
  by (auto simp: tame_def confined_def store_writer_def upd_parent_def)

lemma tame_open_block [taming]: "tame t t0 \<Longrightarrow> stays_tame t (open_block e we bd t0)"
  unfolding open_block_def by (auto intro!: taming)

lemma tame_close_block [taming]: "tame t t0 \<Longrightarrow> stays_tame t (close_block we bd t0)"
  unfolding close_block_def Let_def by (auto intro!: taming split: prod.split)

lemma tame_write_block [taming]:
  "isSafeRelativePath (bd_fileName bd) \<Longrightarrow> tame t t0 \<Longrightarrow> stays_tame t (write_block we bd bs t0)"
  unfolding write_block_def by (auto intro!: taming)

lemma tame_write_buffered [taming]:
  assumes "isSafeRelativePath (bd_fileName bd)" "tame t t0"
  shows "stays_tame t (write_buffered V e we bd t0)"
proof -
  have "stays_tame t (andThen (modify (upd_stats (addDataBytes toWrite))) (\<lambda>_. andThen (sendHeartBeat V e) (\<lambda>_.
      andThen (if toWrite > 0 then write_block we bd bs else proceed ()) (\<lambda>_ t1. proceed (f t1) (t1\<lparr>rt_off := rt_off t1 + toWrite\<rparr>)))) t0)"
    for toWrite bs and f :: "'a ReceiverThread \<Rightarrow> int \<times> int"
    using assms by (auto intro!: taming)
  then show ?thesis unfolding write_buffered_def Let_def by simp
qed

lemma tame_receive_piece [taming]:
  "isSafeRelativePath (bd_fileName bd) \<Longrightarrow> tame t t0 \<Longrightarrow> stays_tame t (receive_piece V e we bd c t0)"
  unfolding receive_piece_def by (auto intro!: taming split: option.split)

lemma tame_receive_loop [taming]:
  "isSafeRelativePath (bd_fileName bd) \<Longrightarrow> tame t t0 \<Longrightarrow> stays_tame t (receive_loop V e we bd n c t0)"
proof (induction n arbitrary: t t0 c)
  case 0
  then show ?case by (auto simp: receive_loop.simps intro!: taming)
next
  case (Suc n)
  then show ?case by (subst receive_loop.simps) (auto intro!: taming split: option.split)
qed

lemma tame_receiveBlock [taming]:
  "isSafeRelativePath (bd_fileName bd) \<Longrightarrow> tame t t0 \<Longrightarrow> stays_tame t (receiveBlock V e we bd t0)"
  unfolding receiveBlock_def by (auto intro!: taming split: prod.split)

lemma tame_keep_rest [simp]: "tame t (keep_rest n t0) = tame t t0"
  by (simp add: keep_rest_def)

lemma tame_guards [simp]: "tame t (written_guard n bd k t0) = tame t t0" "tame t (count_failure t0) = tame t t0"
  by (simp_all add: written_guard_def count_failure_def)

lemma tame_finish_block [taming]: "tame t t0 \<Longrightarrow> stays_tame t (finish_block V e n bd cr t0)"
  unfolding finish_block_def check_footer_def Let_def by (auto intro!: taming split: option.split)

lemma tame_decode_file_header [taming]: "tame t t0 \<Longrightarrow> stays_tame t (decode_file_header n t0)"
  unfolding decode_file_header_def Let_def by (auto intro!: taming split: option.split)

lemma tame_readFileHeader [taming]: "tame t t0 \<Longrightarrow> stays_tame t (readFileHeader V e t0)"
  unfolding readFileHeader_def Let_def by (auto intro!: taming)

text \<open>A header that is handed on names a file below the root.\<close>

lemma readFileHeader_safe:
  "readFileHeader V e t = Ok (Continue (bd, n), t') \<Longrightarrow> isSafeRelativePath (bd_fileName bd)"
  by (auto simp: readFileHeader_def decode_file_header_def fail_with_def goto_def proceed_def header_checks_def Let_def
      dest!: andThen_ContinueD split: if_splits option.splits)

lemma tame_chunks_funnel [taming]: "tame t t0 \<Longrightarrow> stays_tame t (chunks_funnel t0)"
  unfolding chunks_funnel_def by (auto intro!: taming split: prod.split)

lemma tame_first_file_cmd [taming]: "tame t t0 \<Longrightarrow> stays_tame t (first_file_cmd e t0)"
  unfolding first_file_cmd_def by (auto intro!: taming)

lemma tame_processFileCmd: "stays_tame t (processFileCmd V e t)"
proof -
  have block: "stays_tame t1 (andThen (ask_env (re_writer e)) (\<lambda>(we, calls) t.
          let encryptionType = so_encryptionType V (rt_socket t);
              t1 = t\<lparr>rt_checkpointIndex := rt_pendingCheckpointIndex t,
                     rt_writer := newWriter bd (rv_files (rt_parent t) (bd_fileName bd)) calls\<rparr>
          in andThen (guarded (written_guard encryptionType bd n) (receiveBlock V e we bd))
               (finish_block V e encryptionType bd) t1) t1)"
    if "isSafeRelativePath (bd_fileName bd)" for bd n t1
    using that by (auto intro!: taming tame.stays_guarded simp: Let_def)
  have "stays_tame t1 (andThen (readFileHeader V e) (\<lambda>(bd, n). andThen (ask_env (re_writer e)) (\<lambda>(we, calls) t.
          let encryptionType = so_encryptionType V (rt_socket t);
              t1 = t\<lparr>rt_checkpointIndex := rt_pendingCheckpointIndex t,
                     rt_writer := newWriter bd (rv_files (rt_parent t) (bd_fileName bd)) calls\<rparr>
          in andThen (guarded (written_guard encryptionType bd n) (receiveBlock V e we bd))
               (finish_block V e encryptionType bd) t1)) t1)" for t1
    by (rule tame.stays_andThen_value) (use block [OF readFileHeader_safe] in \<open>auto intro: tame_readFileHeader simp: Let_def\<close>)
  note guard = tame.stays_guarded [OF this]
  show ?thesis unfolding processFileCmd_def
    by (rule tame.stays_andThen, simp, rule tame_first_file_cmd, simp, rule tame.stays_andThen, simp, rule stays_simple(3), simp, rule guard, simp)
qed

section \<open>The other states\<close>

text \<open>Other threads are relied on for the same.\<close>

definition confined_others :: "receiver_env \<Rightarrow> bool" where
  "confined_others e \<longleftrightarrow> (\<forall>k p. confined p (re_others e k p))"

lemma tame_others [taming]: "confined_others e \<Longrightarrow> tame t t0 \<Longrightarrow> stays_tame t (others_run e t0)"
  unfolding others_run_def
  by (simp add: andThen_def ask_env_def modify_def stays_def tame_def upd_parent_def confined_others_def) (blast intro: confined_trans)

lemma tame_listen: "stays_tame t (listen V e t)"
  unfolding listen_def Let_def by (auto intro!: taming)

lemma tame_accept [taming]: "tame t t0 \<Longrightarrow> stays_tame t (acceptNext V n t0)"
  unfolding acceptNext_def by (auto intro!: taming)

lemma tame_accept_loop [taming]: "tame t t0 \<Longrightarrow> stays_tame t (accept_loop V e n k t0)"
proof (induction n arbitrary: t t0 k)
  case (Suc n)
  then show ?case by (auto intro!: taming)
qed simp

lemma tame_start_session [taming]: "tame t t0 \<Longrightarrow> stays_tame t (start_session V t0)"
  unfolding start_session_def Let_def by (auto intro!: taming simp: tame_def confined_def)

lemma tame_acceptFirst: "stays_tame t (acceptFirstConnection V e t)"
  unfolding acceptFirstConnection_def resetThread_def Let_def by (auto intro!: taming simp del: accept_loop.simps)

lemma tame_acceptWithTimeout: "stays_tame t (acceptWithTimeout V e t)"
  unfolding acceptWithTimeout_def Let_def by (auto intro!: taming)

lemma tame_sendLocalCheckpoint: "stays_tame t (sendLocalCheckpoint V t)"
  unfolding sendLocalCheckpoint_def Let_def by (auto intro!: taming)

lemma tame_readNextCmd: "stays_tame t (readNextCmd V e t)"
  unfolding readNextCmd_def by (auto intro!: taming)

lemma tame_settings [taming]: "tame t t0 \<Longrightarrow> stays_tame t (negotiate v t0)" "tame t t0 \<Longrightarrow> stays_tame t (apply_settings st t0)"
  unfolding negotiate_def apply_settings_def Let_def by (auto intro!: taming)

lemma tame_processSettingsCmd: "stays_tame t (processSettingsCmd V t)"
  unfolding processSettingsCmd_def Let_def by (auto intro!: taming split: option.split)

lemma tame_processDoneCmd: "stays_tame t (processDoneCmd t)"
  unfolding processDoneCmd_def by (auto intro!: taming split: option.split)

lemma tame_processSizeCmd: "stays_tame t (processSizeCmd t)"
  unfolding processSizeCmd_def by (auto intro!: taming split: option.split)

lemma tame_write_cmd [taming]: "tame t t0 \<Longrightarrow> stays_tame t (write_cmd V c t0)"
  unfolding write_cmd_def by (auto intro!: taming)

lemma tame_send_chunks_loop [taming]: "tame t t0 \<Longrightarrow> stays_tame t (send_chunks_loop V cs n k t0)"
proof (induction n arbitrary: t t0 k)
  case 0
  then show ?case by (subst send_chunks_loop.simps) (auto intro!: taming)
next
  case (Suc n)
  have "stays_tame t1 (send_chunk_batch V cs j t1)" for j and t1 :: "'a ReceiverThread"
    unfolding send_chunk_batch_def Let_def by (auto intro!: taming split: prod.split outcome.split)
  then show ?case using Suc by (subst send_chunks_loop.simps) (auto intro!: taming split: option.split)
qed

lemma tame_chunks_failed [taming]: "tame t t0 \<Longrightarrow> stays_tame t (chunks_failed c t0)"
  unfolding chunks_failed_def by (auto intro!: taming)

lemma tame_send_all_chunks [taming]: "tame t t0 \<Longrightarrow> stays_tame t (send_all_chunks V e t0)"
proof -
  have "stays_tame t2 (outcome_bind (thread_read V e 1 True t2) (\<lambda>(r, t3).
    case r of
      Some [b] \<Rightarrow> goto READ_NEXT_CMD (upd_parent (\<lambda>p. set_funnel (notifySuccess FUNNEL_PROGRESS)
                     (add_log (Log_header (rt_isBlockMode t3) True) p)) (t3\<lparr>rt_buf := (rt_buf t3)[0 := b]\<rparr>))
    | _ \<Rightarrow> chunks_failed SOCKET_READ_ERROR t3))" for t2
  proof (rule stays_bind)
    fix y assume y: "thread_read V e 1 True t2 = Ok y"
    obtain r t3 where "y = (r, t3)" by fastforce
    moreover from this y have "tame t2 t3" using tame_files [OF thread_read_files tame.R_refl] by blast
    ultimately show "stays_tame t2 (case y of (r, t3) \<Rightarrow> case r of
      Some [b] \<Rightarrow> goto READ_NEXT_CMD (upd_parent (\<lambda>p. set_funnel (notifySuccess FUNNEL_PROGRESS)
                     (add_log (Log_header (rt_isBlockMode t3) True) p)) (t3\<lparr>rt_buf := (rt_buf t3)[0 := b]\<rparr>))
    | _ \<Rightarrow> chunks_failed SOCKET_READ_ERROR t3)" by (auto intro!: taming split: option.split list.split)
  qed
  then show "tame t t0 \<Longrightarrow> ?thesis" unfolding send_all_chunks_def Let_def by (intro taming) (auto intro!: taming)
qed

lemma tame_sendFileChunks: "confined_others e \<Longrightarrow> stays_tame t (sendFileChunks V e t)"
proof -
  have "confined_others e \<Longrightarrow> tame t t0 \<Longrightarrow> stays_tame t (send_file_chunks_loop V e n t0)" for n t0
  proof (induction n arbitrary: t t0)
    case (Suc n)
    then show ?case by (auto intro!: taming split: FunnelStatus.split)
  qed simp
  then show "confined_others e \<Longrightarrow> ?thesis" by (simp add: sendFileChunks_def)
qed

lemma tame_sendGlobalCheckpoint: "stays_tame t (sendGlobalCheckpoint V t)"
  unfolding sendGlobalCheckpoint_def Let_def by (auto intro!: taming)

lemma tame_sendAbortCmd: "stays_tame t (sendAbortCmd V t)"
  unfolding sendAbortCmd_def Let_def by (auto intro!: taming)

lemma tame_sendDoneCmd: "stays_tame t (sendDoneCmd V e t)"
proof -
  define tail where "tail = (\<lambda>(r, t2). let t3 = (case r of Some [b] \<Rightarrow> t2\<lparr>rt_buf := (rt_buf t2)[0 := b]\<rparr> | _ \<Rightarrow> t2)
      in if r \<noteq> Some [cmd_byte DONE_CMD] then fail_with SOCKET_READ_ERROR ACCEPT_WITH_TIMEOUT t3
         else case so_expectEndOfStream V (rt_socket t3) of (code, s1) \<Rightarrow>
                let t4 = t3\<lparr>rt_socket := s1\<rparr>
                in if code \<noteq> OK then fail_with code ACCEPT_WITH_TIMEOUT t4
                   else let t5 = markReceivedBlocksVerified e t4
                        in case so_closeConnection V (rt_socket t5) of (code2, s2) \<Rightarrow>
                             (goto END (upd_stats (setLocalErrorCode code2) (t5\<lparr>rt_socket := s2\<rparr>)) ::
                                ((ReceiverState, unit) step \<times> 'a ReceiverThread) outcome))"
  have "stays_tame t1 (tail (r, t2))" if "thread_read V e 1 True t1 = Ok (r, t2)" for r t1 t2
    unfolding tail_def prod.case Let_def using tame_files [OF thread_read_files [OF that] tame.R_refl]
    by (auto intro!: taming split: option.split list.split prod.split)
  then show ?thesis unfolding sendDoneCmd_def tail_def [symmetric] by (auto intro!: taming)
qed

lemma tame_finishWithError: "stays_tame t (finishWithError V t)"
  unfolding finishWithError_def Let_def by (auto intro!: taming)

lemma tame_check_finish [taming]: "tame t t0 \<Longrightarrow> stays_tame t (check_finish t0)"
  unfolding check_finish_def checkForFinishOrNewCheckpoints_def Let_def by (auto intro!: taming)

lemma tame_wait: "confined_others e \<Longrightarrow> stays_tame t (waitForFinishOrNewCheckpoint V e t)"
proof -
  have "confined_others e \<Longrightarrow> tame t t0 \<Longrightarrow> stays_tame t (wait_loop V e n t0)" for n t0
  proof (induction n arbitrary: t t0)
    case (Suc n)
    then show ?case by (auto intro!: taming)
  qed simp
  then show "confined_others e \<Longrightarrow> ?thesis" unfolding waitForFinishOrNewCheckpoint_def by (auto intro!: stays_bind)
qed

lemma run_state_tame:
  assumes "confined_others e"
  shows "stays_tame t (run_state V e st t)"
proof (cases st)
  case END
  then show ?thesis by (auto intro!: taming)
qed (use assms tame_listen tame_acceptFirst tame_acceptWithTimeout tame_sendLocalCheckpoint tame_readNextCmd tame_processFileCmd tame_processSettingsCmd
  tame_processDoneCmd tame_processSizeCmd tame_sendFileChunks tame_sendGlobalCheckpoint tame_sendDoneCmd tame_sendAbortCmd tame_wait
  tame_finishWithError in simp_all)

section \<open>The state machine\<close>


text \<open>A thread with the header of a block of two bytes in its buffer, and the data behind it.\<close>

definition silent_socket :: "unit IServerSocket" where
  "silent_socket =
     \<lparr>so_listen = (\<lambda>s. Ok (OK, s)), so_acceptNextConnection = (\<lambda>n c s. Ok (CONN_ERROR, s)), so_read = (\<lambda>n full s. Ok (None, s)),
      so_write = (\<lambda>bs s. Ok (int (length bs), s)), so_expectEndOfStream = (\<lambda>s. (OK, s)), so_closeConnection = (\<lambda>s. (OK, s)), so_closeNoCheck = (\<lambda>s. s),
      so_closeAllNoCheck = (\<lambda>s. s), so_nonRetryableErrCode = (\<lambda>s. OK), so_encryptionType = (\<lambda>s. 0), so_disableIvChange = (\<lambda>s. s),
      so_port = (\<lambda>s. 1), so_peerIp = (\<lambda>s. []), so_verified = (\<lambda>s. 0)\<rparr>"

definition one_step_env :: receiver_env where
  "one_step_env =
     \<lparr>re_options = \<lparr>ro_max_retries = 1, ro_accept_timeout_millis = 100, ro_accept_window_millis = 2000, ro_max_accept_retries = 1,
        ro_enable_download_resumption = False, ro_isLogBasedResumption = False, ro_delete_extra_files = False\<rparr>,
      re_fuel = 1, re_abort = (\<lambda>k. 0 < k), re_heartBeat = (\<lambda>k. False), re_newTransferStarted = (\<lambda>k. False), re_acceptMode = (\<lambda>k. STOP_ACCEPTING),
      re_writer = (\<lambda>k. (\<lparr>we_skip_writes = False, we_open = True, we_seek = True, we_fsync_on = False, we_fsync = True, we_skip_fadvise = True,
        we_fadvise = True, we_close = True, we_disk_sync_interval_mb = 1, we_range = (\<lambda>i. True), we_range_fadvise = (\<lambda>i. True)\<rparr>, [])),
      re_others = (\<lambda>k p. p), re_crc32c = (\<lambda>bs c. 0)\<rparr>"

definition block_in_buffer :: "int \<times> bytes" where
  "block_in_buffer =
     (case encodeHeader 30 (newBlockDetails\<lparr>bd_fileName := ''f'', bd_seqId := 1, bd_dataSize := 2, bd_fileSize := 2\<rparr>) 60 (replicate 64 0) 4 of
        (_, buf, off) \<Rightarrow> (off, write_at (nat off) [5, 6] (buf[2 := word_of_int off])))"

definition buffered_thread :: "unit ReceiverThread" where
  "buffered_thread =
     \<lparr>rt_socket = (), rt_index = 0, rt_buf = snd block_in_buffer, rt_numRead = fst block_in_buffer + 2, rt_off = 1, rt_oldOffset = 0,
      rt_checkpointIndex = 0, rt_pendingCheckpointIndex = 0, rt_senderReadTimeout = 5000, rt_senderWriteTimeout = 5000, rt_isBlockMode = True,
      rt_checkpoint = newCheckpoint 1, rt_curConnectionVerified = True, rt_newCheckpoints = [], rt_blocksWaitingVerification = [],
      rt_threadStats = newStats, rt_threadProtocolVersion = 30, rt_footerType = NO_FOOTER, rt_enableHeartBeat = False,
      rt_writer = newWriter newBlockDetails (\<lambda>_. 0) [],
      rt_parent = \<lparr>rv_checkpoints = [], rv_controller = newController 1, rv_transferId = [], rv_fileChunksInfo = [], rv_log = [], rv_isJoinable = True,
        rv_sessions = [], rv_hasNewTransferStarted = True, rv_ended = 0, rv_files = (\<lambda>name i. 0)\<rparr>, rt_tick = 0\<rparr>"

lemma buffered_run:
  "case machine silent_socket one_step_env 2 PROCESS_FILE_CMD buffered_thread of Ok t' \<Rightarrow> rv_files (rt_parent t') ''f'' 1 = 6 | _ \<Rightarrow> False"
  by code_simp


end
