(* ===== verification/Spec2Isabelle.thy ===== *)
theory Spec2Isabelle
  imports Protocol_Laws Sender_Accounting Log_Sessions File_Creator_Laws Allocation_Protocol End_To_End
    Sender_Books Receiver_Safety
begin

text \<open>
  A verification library for WDT, the ``warp speed data transfer'' of \<^verbatim>\<open>src/\<close>, and for the parts of its
  \<open>awdt\<close> front end that compute.

  \<^bold>\<open>The program.\<close> A sender discovers the files of a directory, splits them into blocks and queues them
  (\<open>DirectorySourceQueue\<close>). Several sender threads (\<open>SenderThread\<close>) take blocks from the queue, read them
  (\<open>FileByteSource\<close>) and write them with a header (\<open>Protocol\<close>) to a socket each, which may be encrypted
  (\<open>WdtSocket\<close>, \<open>EncryptionUtils\<close>). Receiver threads (\<open>ReceiverThread\<close>) parse what arrives, open and
  allocate the files (\<open>FileCreator\<close>), write the blocks at their offsets (\<open>FileWriter\<close>) and log them
  (\<open>TransferLogManager\<close>), so that a later session can resume. After a lost connection checkpoints tell the
  sender what has arrived (\<open>ThreadTransferHistory\<close>). The threads of one side meet at barriers and funnels
  (\<open>ThreadsController\<close>). A transfer is described by a URL (\<open>WdtTransferRequest\<close>).

  \<^bold>\<open>Conventions\<close> (\<open>Wdt_Prelude\<close>). Bytes are \<open>8 word\<close>. Signed 64-bit numbers are \<open>int\<close>, with
  their range as a predicate and the conversion written out where a value is narrowed; varints and checksums work on
  words. \<open>outcome\<close> distinguishes a value, \<open>Fail\<close> (the function returns false, or fuel has run out) and
  \<open>Abort\<close> (a failed \<open>WDT_CHECK\<close>, or an access outside a buffer). An encoder takes a buffer, its size and an
  offset; a decoder takes the rest of its range. Results of system calls are arguments, lists of answers or
  functions of a counter of questions, so that a theorem quantifies over all of them. Code outside \<^verbatim>\<open>src/\<close>
  (folly, OpenSSL, the operating system) is a parameter with its documented behaviour as a hypothesis.

  \<^bold>\<open>Theories\<close>, with the code they model and what their lemmas show.

  \<^item> \<open>Serialization\<close> (\<^verbatim>\<open>util/SerializationUtil\<close>): varints, strings, fixed-width integers; each codec is an
    instance of the locale \<open>byte_codec\<close>, which gives the round trips and that nothing outside the buffer is written.
  \<^item> \<open>Error_Codes\<close> (\<^verbatim>\<open>ErrorCodes\<close>), \<open>File_Chunks\<close> (the intervals of \<^verbatim>\<open>Protocol.h\<close>): merging chunks and
    the complement of what has been received.
  \<^item> \<open>Protocol_Codec\<close>, \<open>Protocol_Laws\<close> (\<^verbatim>\<open>Protocol\<close>): every message of the wire format in every version,
    through the locale \<open>payload_codec\<close>: round trips, lengths, and decoders that are total on arbitrary bytes.
  \<^item> \<open>Transfer_Stats\<close> (\<^verbatim>\<open>Reporting\<close>): counters and reports.
  \<^item> \<open>Byte_Source\<close> (\<^verbatim>\<open>ByteSource.h\<close>, \<^verbatim>\<open>util/FileByteSource\<close>): reading a block, buffered or direct.
  \<^item> \<open>Source_Queue\<close>, \<open>Source_Queue_Laws\<close>, \<open>Queue_Invariants\<close> (\<^verbatim>\<open>util/DirectorySourceQueue\<close>): the queue
    as an instance of \<open>priority_queue\<close>; the blocks of a file; invariants of all runs.
  \<^item> \<open>Transfer_History\<close>, \<open>Sender_Accounting\<close> (\<^verbatim>\<open>util/ThreadTransferHistory\<close>, \<^verbatim>\<open>Sender\<close>): checkpoints
    and, for a sender of any number of threads, that its books balance and what its final report says.
  \<^item> \<open>Transfer_Log\<close>, \<open>Log_Parser\<close>, \<open>Log_Laws\<close>, \<open>Log_Manager\<close>, \<open>Log_Sessions\<close>
    (\<^verbatim>\<open>util/TransferLogManager\<close>, parts of \<^verbatim>\<open>Receiver\<close>): entries, parser, writer thread, and recovery after
    a crash at any point.
  \<^item> \<open>File_Creator\<close>, \<open>File_Creator_Laws\<close>, \<open>Allocation_Protocol\<close> (\<^verbatim>\<open>util/FileCreator\<close>): paths stay
    below the root; the allocation of a file as a protocol between threads.
  \<^item> \<open>Wdt_Uri\<close>, \<open>Transfer_Request\<close> (\<^verbatim>\<open>WdtTransferRequest\<close>): URLs and requests.
  \<^item> \<open>Aes_Cipher\<close>, \<open>Wdt_Socket\<close>, \<open>Socket_Laws\<close>, \<open>Socket_Channel\<close> (\<^verbatim>\<open>util/EncryptionUtils\<close>,
    \<^verbatim>\<open>util/WdtSocket\<close>): the encrypted stream, and that two sockets form a channel.
  \<^item> \<open>File_Writer\<close> (\<^verbatim>\<open>util/FileWriter\<close>), an instance of \<open>block_sink\<close>; \<open>Threads_Controller\<close>
    (\<^verbatim>\<open>util/ThreadsController\<close>): barrier, funnel and thread states, with the barrier proved for all interleavings.
  \<^item> \<open>Wdt_Thread\<close> (\<^verbatim>\<open>WdtThread\<close>): steps of a state function that may return early.
  \<^item> \<open>Wire_Messages\<close>: the commands of a transfer as byte lists, which both sides are compared with.
  \<^item> \<open>Receiver_Thread\<close>, \<open>Receiver_Input\<close>, \<open>Receiver_Blocks\<close>, \<open>Receiver_Session\<close>, \<open>Receiver_Settings\<close>
    (\<^verbatim>\<open>ReceiverThread\<close>): the receiver's state machine and, over any instance of \<open>byte_stream\<close>, what it stores.
  \<^item> \<open>Server_Socket\<close>, \<open>Socket_Server\<close> (\<^verbatim>\<open>util/ServerSocket\<close>): accepting connections, and the instance of
    \<open>byte_stream\<close> given by the encrypted channel.
  \<^item> \<open>Sender_Thread\<close>, \<open>Sender_Blocks\<close> (\<^verbatim>\<open>SenderThread\<close>, \<^verbatim>\<open>util/IClientSocket.h\<close>): the sender's state
    machine and, over any instance of \<open>byte_sink\<close>, the bytes it sends for a queue of readable blocks.
  \<^item> \<open>Sender_Books\<close>: over every behaviour of peer, sockets, files and other threads, each state of a sender
    thread keeps the books of \<open>Sender_Accounting\<close>, which the code alone thus establishes, up to the final report.
    Threads rely on each other for the same relation (the locale \<open>kept_relation\<close> of \<open>Wdt_Thread\<close>).
  \<^item> \<open>Receiver_Safety\<close>: over every behaviour of peer, sockets and disks, a receiver thread changes only files
    whose names its check of relative paths accepts, by the same locale.
  \<^item> \<open>Client_Socket\<close> (\<^verbatim>\<open>util/ClientSocket\<close>): connecting, and the operations of a sender thread.
  \<^item> \<open>End_To_End\<close>: the instance of \<open>byte_sink\<close> given by the client socket, and the composition of sender,
    channel and receiver: the files of the receiver after a transfer.

  \<^bold>\<open>Fuel.\<close> Loops whose end depends on the peer or on other threads have fuel. The theorems either hold for
  every sufficient fuel, with the bound in the statement, or the loop is a total function with its measure
  (queue, parser, allocation protocol). Inside \<open>send_pieces\<close> the fuel is one more than the size of the block, and
  each round sends at least one byte.

  \<^bold>\<open>Not modelled.\<close> Logging, performance counters (\<^verbatim>\<open>util/Stats\<close>), sleeping and time measurement have no
  influence on the results. The throttler (\<^verbatim>\<open>Throttler\<close>) delays sends by clocks and floating point rates and
  changes no byte; the bookkeeping of a block for it is part of \<open>Sender_Thread\<close>. The options
  (\<^verbatim>\<open>WdtOptions\<close>) are arguments of the definitions that use them. The registry of senders and receivers by name
  (\<^verbatim>\<open>WdtResourceController\<close>) creates and releases them and takes no part in a transfer; it is left out.
  The command line programs, the JNI layer, the Kotlin application and the benchmarks are
  input and output around the library.
\<close>

end
